(* ===== verification/Prelude.thy ===== *)
theory Prelude
  imports Main "HOL-Library.Word"
begin

unbundle bit_operations_syntax

text \<open>
  Shared material of the development: C++ exceptions as values of a sum type, \<open>std::map\<close> as
  an association list in key order, facts on lists and on machine words that the component
  theories use, and the development's collections of simplification rules.
\<close>

named_theorems res_simps \<open>computing with results (value or exception)\<close>
named_theorems smap_simps \<open>lookups in ordered association lists\<close>
named_theorems bv_simps \<open>bit vectors as sets of rule numbers\<close>

section \<open>Exceptions as values\<close>

text \<open>
  What a C++ function may throw. \<open>throw new std::runtime_error(..)\<close> throws a pointer, which
  neither \<open>catch (std::runtime_error)\<close> nor \<open>catch (std::exception &)\<close> catches, so it is a
  constructor of its own. \<open>UndefinedBehaviour\<close> marks an access the language leaves undefined
  (an element past the end of a vector).
\<close>

datatype error =
    RuntimeError string
  | RuntimeErrorPtr string
  | InvalidArgument string
  | OutOfRange string
  | UndefinedBehaviour string

type_synonym 'a result = "error + 'a"

fun std_exception :: "error \<Rightarrow> bool" where
  "std_exception (RuntimeError _) = True"
| "std_exception (InvalidArgument _) = True"
| "std_exception (OutOfRange _) = True"
| "std_exception (RuntimeErrorPtr _) = False"
| "std_exception (UndefinedBehaviour _) = False"

fun rbind :: "'a result \<Rightarrow> ('a \<Rightarrow> 'b result) \<Rightarrow> 'b result" where
  "rbind (Inl e) f = Inl e"
| "rbind (Inr x) f = f x"

fun is_value :: "'a result \<Rightarrow> bool" where
  "is_value (Inl e) = False"
| "is_value (Inr x) = True"

lemma rbind_Inr_conv: "rbind m f = Inr y \<longleftrightarrow> (\<exists>x. m = Inr x \<and> f x = Inr y)"
  by (cases m) auto

lemma rbind_assoc: "rbind (rbind m f) g = rbind m (\<lambda>x. rbind (f x) g)"
  by (cases m) auto

lemma is_value_conv: "is_value m \<longleftrightarrow> (\<exists>x. m = Inr x)"
  by (cases m) auto

lemmas [res_simps] = rbind.simps rbind_Inr_conv is_value_conv

text \<open>
  Stateful code that may throw: the state left behind comes with the value or the exception.
\<close>

fun sbind :: "'s \<times> 'a result \<Rightarrow> ('a \<Rightarrow> 's \<Rightarrow> 's \<times> 'b result) \<Rightarrow> 's \<times> 'b result" where
  "sbind (s, Inl e) f = (s, Inl e)"
| "sbind (s, Inr x) f = f x s"

lemma sbind_Inr_conv: "sbind m f = (s', Inr y) \<longleftrightarrow> (\<exists>s x. m = (s, Inr x) \<and> f x s = (s', Inr y))"
  by (cases "(m, f)" rule: sbind.cases) auto

lemma sbind_Inl: "snd m = Inl e \<Longrightarrow> sbind m f = (fst m, Inl e)"
  by (cases "(m, f)" rule: sbind.cases) auto

section \<open>Ordered maps\<close>

text \<open>
  \<open>std::map<K, V>\<close>: entries in increasing key order. \<open>smap_insert\<close> is the member function
  \<open>insert\<close>, which leaves an entry that exists alone; \<open>smap_update\<close> writes through an iterator
  to an entry that exists.
\<close>

type_synonym ('k, 'v) smap = "('k \<times> 'v) list"

abbreviation smap_find :: "('k, 'v) smap \<Rightarrow> 'k \<Rightarrow> 'v option" where
  "smap_find m k \<equiv> map_of m k"

fun smap_insert :: "'k::linorder \<Rightarrow> 'v \<Rightarrow> ('k, 'v) smap \<Rightarrow> ('k, 'v) smap" where
  "smap_insert k v [] = [(k, v)]"
| "smap_insert k v ((a, b) # m) =
     (if k < a then (k, v) # (a, b) # m
      else if k = a then (a, b) # m
      else (a, b) # smap_insert k v m)"

definition smap_update :: "'k \<Rightarrow> ('v \<Rightarrow> 'v) \<Rightarrow> ('k, 'v) smap \<Rightarrow> ('k, 'v) smap" where
  "smap_update k f m = map (\<lambda>(a, b). (a, if a = k then f b else b)) m"

definition smap_map :: "('v \<Rightarrow> 'w) \<Rightarrow> ('k, 'v) smap \<Rightarrow> ('k, 'w) smap" where
  "smap_map f m = map (\<lambda>(a, b). (a, f b)) m"

definition smap_ok :: "('k::linorder, 'v) smap \<Rightarrow> bool" where
  "smap_ok m \<longleftrightarrow> sorted_wrt (<) (map fst m)"

lemma smap_ok_Nil [simp]: "smap_ok []"
  by (simp add: smap_ok_def)

lemma smap_ok_distinct: "smap_ok m \<Longrightarrow> distinct (map fst m)"
  by (simp add: smap_ok_def strict_sorted_iff)

lemma set_smap_insert_subset: "set (smap_insert k v m) \<subseteq> insert (k, v) (set m)"
  by (induction k v m rule: smap_insert.induct) auto

lemma keys_smap_insert [smap_simps]:
  "fst ` set (smap_insert k v m) = insert k (fst ` set m)"
  by (induction k v m rule: smap_insert.induct) (auto simp: insert_commute)

lemma smap_ok_insert [intro]: "smap_ok m \<Longrightarrow> smap_ok (smap_insert k v m)"
proof (induction k v m rule: smap_insert.induct)
  case (2 k v a b m)
  have "fst ` set (smap_insert k v m) = insert k (fst ` set m)"
    by (rule keys_smap_insert)
  with 2 show ?case
    by (fastforce simp: smap_ok_def)
qed (simp add: smap_ok_def)

lemma map_of_smap_insert [smap_simps]:
  "smap_ok m \<Longrightarrow>
   map_of (smap_insert k v m) = (if map_of m k = None then (map_of m)(k \<mapsto> v) else map_of m)"
proof (induction k v m rule: smap_insert.induct)
  case (2 k v a b m)
  have above: "a < c" if "c \<in> fst ` set m" for c
    using that "2.prems" by (auto simp: smap_ok_def)
  have none: "k < a \<Longrightarrow> map_of m k = None"
    using above by (fastforce simp: map_of_eq_None_iff)
  from "2.prems" have ok: "smap_ok m" by (simp add: smap_ok_def)
  consider "k < a" | "k = a" | "a < k" by (rule linorder_cases)
  then show ?case
  proof cases
    case 1
    with none show ?thesis by auto
  next
    case 2
    then show ?thesis by simp
  next
    case 3
    then have "\<not> k < a" "k \<noteq> a" by auto
    with "2.IH" ok show ?thesis by (auto simp: fun_eq_iff)
  qed
qed auto

lemma smap_insert_not_Nil [simp]: "smap_insert k v m \<noteq> []"
  by (cases m) (auto split: if_splits)

lemma keys_smap_update [smap_simps]: "map fst (smap_update k f m) = map fst m"
  by (simp add: smap_update_def case_prod_beta comp_def)

lemma keys_smap_map [smap_simps]: "map fst (smap_map f m) = map fst m"
  by (simp add: smap_map_def case_prod_beta comp_def)

lemma smap_ok_update [simp]: "smap_ok (smap_update k f m) = smap_ok m"
  by (simp add: smap_ok_def keys_smap_update)

lemma smap_ok_map [simp]: "smap_ok (smap_map f m) = smap_ok m"
  by (simp add: smap_ok_def keys_smap_map)

lemma smap_update_Nil [simp]: "smap_update k f m = [] \<longleftrightarrow> m = []"
  by (simp add: smap_update_def)

lemma smap_map_Nil [simp]: "smap_map f m = [] \<longleftrightarrow> m = []"
  by (simp add: smap_map_def)

lemma map_of_smap_update [smap_simps]:
  "map_of (smap_update k f m) = (map_of m)(k := map_option f (map_of m k))"
  by (induction m) (auto simp: smap_update_def fun_eq_iff)

lemma map_of_smap_map [smap_simps]:
  "map_of (smap_map f m) = map_option f \<circ> map_of m"
  by (induction m) (auto simp: smap_map_def fun_eq_iff)

lemma smap_map_id [simp]: "smap_map (\<lambda>v. v) m = m"
  by (induction m) (auto simp: smap_map_def)

lemma smap_map_comp: "smap_map f (smap_map g m) = smap_map (f \<circ> g) m"
  by (simp add: smap_map_def case_prod_beta comp_def)

lemma map_of_Nil_iff: "map_of m = Map.empty \<longleftrightarrow> m = []"
  by (cases m) (auto simp: fun_eq_iff)

section \<open>Lists\<close>

lemma foldl_invariant:
  assumes "P s" and "\<And>x s. x \<in> set xs \<Longrightarrow> P s \<Longrightarrow> P (f s x)"
  shows "P (foldl f s xs)"
  using assms by (induction xs arbitrary: s) auto

lemma find_append: "List.find P (xs @ ys) = (case List.find P xs of None \<Rightarrow> List.find P ys | Some x \<Rightarrow> Some x)"
  by (induction xs) simp_all

lemma find_Some_first:
  "i < length xs \<Longrightarrow> P (xs ! i) \<Longrightarrow> (\<And>j. j < i \<Longrightarrow> \<not> P (xs ! j)) \<Longrightarrow> List.find P xs = Some (xs ! i)"
  by (auto simp: find_Some_iff)

lemma filter_disjoint_length:
  "(\<And>x. \<not> (P x \<and> Q x)) \<Longrightarrow> length (filter P xs) + length (filter Q xs) \<le> length xs"
  by (induction xs) auto

lemma image_case_option:
  "(\<lambda>x. case f x of None \<Rightarrow> w | Some k \<Rightarrow> k) ` S =
   {k. \<exists>x \<in> S. f x = Some k} \<union> (if \<exists>x \<in> S. f x = None then {w} else {})"
proof (intro set_eqI iffI)
  fix y assume "y \<in> (\<lambda>x. case f x of None \<Rightarrow> w | Some k \<Rightarrow> k) ` S"
  then obtain x where x: "x \<in> S" "y = (case f x of None \<Rightarrow> w | Some k \<Rightarrow> k)" by (rule imageE)
  show "y \<in> {k. \<exists>x \<in> S. f x = Some k} \<union> (if \<exists>x \<in> S. f x = None then {w} else {})"
  proof (cases "f x")
    case None
    then have "\<exists>x \<in> S. f x = None" using x(1) by blast
    with None x show ?thesis by simp
  qed (use x in auto)
next
  fix y assume "y \<in> {k. \<exists>x \<in> S. f x = Some k} \<union> (if \<exists>x \<in> S. f x = None then {w} else {})"
  then consider x where "x \<in> S" "f x = Some y" | x where "x \<in> S" "f x = None" "y = w"
    by (auto split: if_splits)
  then show "y \<in> (\<lambda>x. case f x of None \<Rightarrow> w | Some k \<Rightarrow> k) ` S"
    by cases (erule rev_image_eqI, simp)+
qed

lemma find_Some_in: "List.find P xs = Some x \<Longrightarrow> x \<in> set xs \<and> P x"
  by (auto simp: find_Some_iff)

section \<open>Machine words\<close>

text \<open>Subtracting one flips exactly the bits up to and including the lowest bit that is set.\<close>

lemma lowest_bit_split:
  fixes w :: "'a::len word"
  assumes k: "bit w k" and low: "\<And>j. j < k \<Longrightarrow> \<not> bit w j"
  shows "w = (w AND NOT (mask (Suc k))) OR push_bit k 1"
proof (rule bit_eqI)
  fix n assume n: "possible_bit TYPE('a word) n"
  show "bit w n = bit ((w AND NOT (mask (Suc k))) OR push_bit k 1) n"
  proof (cases n k rule: linorder_cases)
    case less
    with low show ?thesis by (auto simp: bit_simps)
  next
    case equal
    with k n show ?thesis by (auto simp: bit_simps)
  next
    case greater
    with n show ?thesis by (auto simp: bit_simps)
  qed
qed

lemma xor_minus_one:
  fixes w :: "'a::len word"
  assumes k: "bit w k" and low: "\<And>j. j < k \<Longrightarrow> \<not> bit w j"
  shows "w XOR (w - 1) = mask (Suc k)"
proof -
  define u where "u = w AND NOT (mask (Suc k))"
  have w: "w = u OR push_bit k 1"
    unfolding u_def using k low by (rule lowest_bit_split)
  have k_len: "k < LENGTH('a)" using k by (rule bit_imp_le_length)
  have d1: "u AND push_bit k 1 = 0" and d2: "u AND mask k = 0"
    unfolding u_def by (auto intro!: bit_eqI simp: bit_simps)
  have "w = u + push_bit k 1"
    using d1 w by (simp add: disjunctive_add_eq_or)
  moreover have "push_bit k 1 = (mask k :: 'a word) + 1"
    by (simp add: mask_eq_decr_exp push_bit_eq_mult)
  ultimately have "w - 1 = u + mask k" by simp
  also have "\<dots> = u OR mask k" using d2 by (rule disjunctive_add_eq_or)
  finally have m: "w - 1 = u OR mask k" .
  have "(u OR push_bit k 1) XOR (u OR mask k) = mask (Suc k)"
    by (rule bit_eqI) (use k_len in \<open>auto simp: bit_simps u_def\<close>)
  then show ?thesis
    using w m by simp
qed

lemma word_nonzero_bit: "(w :: 'a::len word) \<noteq> 0 \<longleftrightarrow> (\<exists>k. bit w k)"
  by (auto simp: bit_eq_iff intro: bit_imp_le_length)

lemma and_mask_eq_iff:
  fixes a b :: "'a::len word"
  shows "a AND mask n = b AND mask n \<longleftrightarrow> (\<forall>j < n. bit a j = bit b j)"
  by (auto simp: bit_eq_iff bit_simps dest: bit_imp_le_length)

end
