(* ===== verification/Bitvec.thy ===== *)
theory Bitvec
  imports Prelude
begin

text \<open>
  The rule bit vectors of the firewall: the macros of \<open>pcn-firewall/src/defines.h\<close>, the
  table-driven bit scan of \<open>modules/BitScan.cpp\<close> and \<open>Firewall_BitScan_dp.c\<close>, and the set of rule
  numbers a bit vector stands for. A vector holds 63 rules per 64-bit word; bit 63 is never used.
\<close>

section \<open>The macros\<close>

type_synonym elements = "64 word list"

definition SET_BIT :: "'a::len word \<Rightarrow> nat \<Rightarrow> 'a word" where
  "SET_BIT number x = number OR push_bit x 1"

definition CHECK_BIT :: "'a::len word \<Rightarrow> nat \<Rightarrow> bool" where
  "CHECK_BIT number x \<longleftrightarrow> number AND push_bit x 1 \<noteq> 0"

definition FROM_NRULES_TO_NELEMENTS :: "nat \<Rightarrow> nat" where
  "FROM_NRULES_TO_NELEMENTS x = x div 63 + (if x mod 63 \<noteq> 0 then 1 else 0)"

definition maxRules :: nat where
  "maxRules = 8192"

text \<open>\<open>std::vector<uint64_t> bitVector(FROM_NRULES_TO_NELEMENTS(Firewall::maxRules))\<close>.\<close>

definition zero_bitVector :: elements where
  "zero_bitVector = replicate (FROM_NRULES_TO_NELEMENTS maxRules) 0"

text \<open>
  \<open>SET_BIT(bitVector[id / 63], id % 63)\<close>. An index past the end is undefined behaviour in C++;
  the list update leaves the vector alone there, and \<open>rule_bit_in_range\<close> below shows that
  rule numbers up to \<open>maxRules\<close> never get there.
\<close>

definition set_rule_bit :: "elements \<Rightarrow> nat \<Rightarrow> elements" where
  "set_rule_bit bv i = bv[i div 63 := SET_BIT (bv ! (i div 63)) (i mod 63)]"

section \<open>Bit vectors as sets of rule numbers\<close>

definition bv_set :: "elements \<Rightarrow> nat set" where
  "bv_set bv = {i. i div 63 < length bv \<and> bit (bv ! (i div 63)) (i mod 63)}"

definition bv_ok :: "elements \<Rightarrow> bool" where
  "bv_ok bv \<longleftrightarrow> list_all (\<lambda>w. \<not> bit w 63) bv"

lemma bit_SET_BIT [bv_simps]: "bit (SET_BIT (w :: 'a::len word) x) n \<longleftrightarrow> bit w n \<or> n = x \<and> x < LENGTH('a)"
  by (auto simp: SET_BIT_def bit_simps)

lemma CHECK_BIT_bit [bv_simps]: "CHECK_BIT (w :: 'a::len word) x \<longleftrightarrow> bit w x"
proof
  assume "CHECK_BIT w x"
  then obtain n where "bit (w AND push_bit x 1) n"
    unfolding CHECK_BIT_def word_nonzero_bit by blast
  then show "bit w x" by (auto simp: bit_simps)
next
  assume w: "bit w x"
  then have "x < LENGTH('a)" by (rule bit_imp_le_length)
  with w have "bit (w AND push_bit x 1) x" by (auto simp: bit_simps)
  then show "CHECK_BIT w x" unfolding CHECK_BIT_def word_nonzero_bit by blast
qed

lemma FROM_NRULES_TO_NELEMENTS_iff: "i div 63 < FROM_NRULES_TO_NELEMENTS n \<longleftrightarrow> i < 63 * FROM_NRULES_TO_NELEMENTS n"
  by (auto simp: div_less_iff_less_mult mult.commute)

lemma FROM_NRULES_TO_NELEMENTS_ge: "n \<le> 63 * FROM_NRULES_TO_NELEMENTS n"
proof -
  have "n = 63 * (n div 63) + n mod 63" by simp
  moreover have "n mod 63 < 63" by simp
  ultimately show ?thesis by (auto simp: FROM_NRULES_TO_NELEMENTS_def)
qed

lemma rule_bit_in_range:
  assumes "i < n" shows "i div 63 < FROM_NRULES_TO_NELEMENTS n"
  using assms FROM_NRULES_TO_NELEMENTS_ge [of n] by (simp add: FROM_NRULES_TO_NELEMENTS_iff)

lemma FROM_NRULES_TO_NELEMENTS_0 [simp]: "FROM_NRULES_TO_NELEMENTS n = 0 \<longleftrightarrow> n = 0"
  by (auto simp: FROM_NRULES_TO_NELEMENTS_def)

lemma FROM_NRULES_TO_NELEMENTS_mono: "m \<le> n \<Longrightarrow> FROM_NRULES_TO_NELEMENTS m \<le> FROM_NRULES_TO_NELEMENTS n"
proof -
  assume "m \<le> n"
  then have "m div 63 \<le> n div 63" by (rule div_le_mono)
  moreover have "n mod 63 \<noteq> 0" if "m div 63 = n div 63" "m mod 63 \<noteq> 0"
    using that \<open>m \<le> n\<close> div_mult_mod_eq [of m 63] div_mult_mod_eq [of n 63] by linarith
  ultimately show ?thesis by (auto simp: FROM_NRULES_TO_NELEMENTS_def le_less)
qed

lemma length_zero_bitVector [simp]: "length zero_bitVector = FROM_NRULES_TO_NELEMENTS maxRules"
  by (simp add: zero_bitVector_def)

lemma length_set_rule_bit [simp]: "length (set_rule_bit bv i) = length bv"
  by (simp add: set_rule_bit_def)

lemma bv_set_zero [bv_simps]: "bv_set zero_bitVector = {}"
  by (auto simp: bv_set_def zero_bitVector_def)

lemma bv_set_set_rule_bit [bv_simps]:
  "i div 63 < length bv \<Longrightarrow> bv_set (set_rule_bit bv i) = insert i (bv_set bv)"
proof -
  assume i: "i div 63 < length bv"
  have "j \<in> bv_set (set_rule_bit bv i) \<longleftrightarrow> j = i \<or> j \<in> bv_set bv" for j
  proof (cases "j div 63 = i div 63")
    case True
    then have "j mod 63 = i mod 63 \<longleftrightarrow> j = i"
      using div_mult_mod_eq [of j 63] div_mult_mod_eq [of i 63] by auto
    moreover have "i mod 63 < 64"
      using mod_less_divisor [of 63 i] by linarith
    ultimately show ?thesis
      using True i by (auto simp: bv_set_def set_rule_bit_def bit_SET_BIT)
  next
    case False
    then show ?thesis by (auto simp: bv_set_def set_rule_bit_def)
  qed
  then show ?thesis by blast
qed

lemma bv_ok_zero [simp]: "bv_ok zero_bitVector"
  by (simp add: bv_ok_def zero_bitVector_def list_all_iff)

lemma bv_ok_set_rule_bit [simp]: "bv_ok bv \<Longrightarrow> bv_ok (set_rule_bit bv i)"
proof -
  assume "bv_ok bv"
  moreover have "i mod 63 \<noteq> 63"
    using mod_less_divisor [of 63 i] by linarith
  ultimately show ?thesis
    by (cases "i div 63 < length bv")
      (auto simp: bv_ok_def set_rule_bit_def list_all_length bit_SET_BIT nth_list_update)
qed

lemma bv_ok_fold_set_rule_bit [simp]: "bv_ok bv \<Longrightarrow> bv_ok (foldl set_rule_bit bv is)"
  by (induction "is" arbitrary: bv) auto

text \<open>The loops of the datapath: \<open>result[i] = result[i] & ele[i]\<close> and the test for all zero.\<close>

definition and_elements :: "elements \<Rightarrow> elements \<Rightarrow> elements" where
  "and_elements result ele = map2 (AND) result ele"

definition isAllZero :: "elements \<Rightarrow> bool" where
  "isAllZero result \<longleftrightarrow> list_all (\<lambda>w. w = 0) result"

lemma length_and_elements [simp]:
  "length result \<le> length ele \<Longrightarrow> length (and_elements result ele) = length result"
  by (simp add: and_elements_def)

lemma bv_set_and_elements [bv_simps]:
  "length result \<le> length ele \<Longrightarrow> bv_set (and_elements result ele) = bv_set result \<inter> bv_set ele"
  by (auto simp: bv_set_def and_elements_def bit_simps)

lemma bv_ok_and_elements: "bv_ok result \<Longrightarrow> bv_ok (and_elements result ele)"
  by (auto simp: bv_ok_def and_elements_def list_all_length bit_simps)

lemma isAllZero_iff: "bv_ok result \<Longrightarrow> isAllZero result \<longleftrightarrow> bv_set result = {}"
proof
  assume "isAllZero result"
  then show "bv_set result = {}"
    by (auto simp: isAllZero_def bv_set_def list_all_length)
next
  assume ok: "bv_ok result" and empty: "bv_set result = {}"
  have "result ! q = 0" if q: "q < length result" for q
  proof (rule ccontr)
    assume "result ! q \<noteq> 0"
    then obtain k where k: "bit (result ! q) k" by (auto simp: word_nonzero_bit)
    moreover have "k \<noteq> 63" using ok q k by (auto simp: bv_ok_def list_all_length)
    moreover have "k < 64" using k bit_imp_le_length by fastforce
    ultimately have "63 * q + k \<in> bv_set result" using q by (simp add: bv_set_def)
    with empty show False by simp
  qed
  then show "isAllZero result" by (simp add: isAllZero_def list_all_length)
qed

text \<open>The parser fills the shared vector with \<open>0x7FFFFFFFFFFFFFFF\<close>: every bit but bit 63.\<close>

definition all_ones :: "nat \<Rightarrow> elements" where
  "all_ones nr = replicate nr 0x7FFFFFFFFFFFFFFF"

lemma all_ones_word: "(0x7FFFFFFFFFFFFFFF :: 64 word) = mask 63"
  by (simp add: mask_eq_decr_exp)

lemma bv_ok_all_ones [simp]: "bv_ok (all_ones nr)"
  by (simp add: bv_ok_def all_ones_def all_ones_word list_all_iff bit_simps del: replicate.simps)

lemma length_all_ones [simp]: "length (all_ones nr) = nr"
  by (simp add: all_ones_def)

lemma bv_set_all_ones [bv_simps]: "bv_set (all_ones nr) = {i. i < 63 * nr}"
  by (auto simp: bv_set_def all_ones_def all_ones_word bit_simps div_less_iff_less_mult mult.commute
      intro: less_trans [of _ 63 64])

section \<open>Bit scan\<close>

text \<open>The table that \<open>BitScan::loadIndex64\<close> writes and the De Bruijn product that indexes it.\<close>

definition index64 :: "nat list" where
  "index64 =
     [0,  47, 1,  56, 48, 27, 2,  60, 57, 49, 41, 37, 28, 16, 3,  61,
      54, 58, 35, 52, 50, 42, 21, 44, 38, 32, 29, 23, 17, 11, 4,  62,
      46, 55, 26, 59, 40, 36, 15, 53, 34, 51, 20, 43, 31, 22, 10, 45,
      25, 39, 14, 33, 19, 30, 9,  24, 13, 18, 8,  12, 7,  6,  5,  63]"

definition scan_index :: "64 word \<Rightarrow> nat" where
  "scan_index bits = unat (drop_bit 58 ((bits XOR (bits - 1)) * 0x03f79d71b4cb0a89))"

definition index64_lookup :: "nat \<Rightarrow> nat option" where
  "index64_lookup i = (if i < length index64 then Some (index64 ! i) else None)"

lemma index64_table:
  "list_all (\<lambda>k. index64_lookup (unat (drop_bit 58 ((mask (Suc k) :: 64 word) * 0x03f79d71b4cb0a89))) = Some k)
     [0..<64]"
  by code_simp

text \<open>Every branch of \<open>handle_rx\<close> of the bit scan: the rule found, no bit set, or the table miss.\<close>

datatype scan_result = Matching nat | NoBit | TableMiss

fun bitscan_loop :: "nat \<Rightarrow> elements \<Rightarrow> scan_result" where
  "bitscan_loop i [] = NoBit"
| "bitscan_loop i (bits # rest) =
     (if bits \<noteq> 0
      then (case index64_lookup (scan_index bits) of
              None \<Rightarrow> TableMiss
            | Some matchingResult \<Rightarrow> Matching (matchingResult + i * 63))
      else bitscan_loop (Suc i) rest)"

lemma scan_word:
  assumes k: "bit (w :: 64 word) k" and low: "\<And>j. j < k \<Longrightarrow> \<not> bit w j"
  shows "index64_lookup (scan_index w) = Some k"
proof -
  have "w XOR (w - 1) = mask (Suc k)" using k low by (rule xor_minus_one)
  moreover have "k < 64" using k bit_imp_le_length by fastforce
  ultimately show ?thesis
    using index64_table by (simp add: scan_index_def list_all_iff)
qed

lemma bitscan_loop_shift:
  "bitscan_loop i bv = (case bitscan_loop 0 bv of Matching k \<Rightarrow> Matching (k + i * 63) | r \<Rightarrow> r)"
proof (induction bv arbitrary: i)
  case (Cons w bv)
  show ?case
    using Cons.IH [of "Suc i"] Cons.IH [of "Suc 0"]
    by (auto split: option.splits scan_result.splits)
qed simp

lemma bitscan_loop_least:
  assumes "bv_ok bv"
  shows "bitscan_loop 0 bv = (if bv_set bv = {} then NoBit else Matching (LEAST i. i \<in> bv_set bv))"
  using assms
proof (induction bv)
  case Nil
  then show ?case by (simp add: bv_set_def)
next
  case (Cons w bv)
  have ok: "bv_ok bv" using Cons.prems by (simp add: bv_ok_def)
  have Cons_set: "i \<in> bv_set (w # bv) \<longleftrightarrow> (if i < 63 then bit w i else i - 63 \<in> bv_set bv)" for i
    by (cases "i < 63") (auto simp: bv_set_def le_div_geq le_mod_geq)
  show ?case
  proof (cases "w = 0")
    case True
    have set_eq: "bv_set (w # bv) = (+) 63 ` bv_set bv"
    proof (intro set_eqI iffI)
      fix i assume "i \<in> bv_set (w # bv)"
      with True Cons_set [of i] have "i - 63 \<in> bv_set bv" and "i = 63 + (i - 63)"
        by (simp_all split: if_splits)
      then show "i \<in> (+) 63 ` bv_set bv" by (rule rev_image_eqI)
    next
      fix i assume "i \<in> (+) 63 ` bv_set bv"
      then show "i \<in> bv_set (w # bv)" by (auto simp: Cons_set)
    qed
    show ?thesis
    proof (cases "bv_set bv = {}")
      case False
      then obtain j where j: "j \<in> bv_set bv" by blast
      let ?l = "LEAST i. i \<in> bv_set bv"
      have "(LEAST i. i \<in> bv_set (w # bv)) = 63 + ?l"
        using LeastI [of "\<lambda>i. i \<in> bv_set bv", OF j] Least_le [of "\<lambda>i. i \<in> bv_set bv"]
        by (intro Least_equality) (auto simp: set_eq)
      with False True set_eq Cons.IH [OF ok] show ?thesis
        by (simp add: bitscan_loop_shift [of "Suc 0"])
    qed (use True set_eq Cons.IH [OF ok] in \<open>simp add: bitscan_loop_shift [of "Suc 0"]\<close>)
  next
    case False
    then obtain n where n: "bit w n" by (auto simp: word_nonzero_bit)
    define k where "k = (LEAST k. bit w k)"
    have k: "bit w k" unfolding k_def using n by (rule LeastI)
    have low: "\<not> bit w j" if "j < k" for j
      using that not_less_Least unfolding k_def by blast
    have "k < 64" using k bit_imp_le_length by fastforce
    moreover have "k \<noteq> 63" using Cons.prems k by (auto simp: bv_ok_def)
    ultimately have k63: "k < 63" by simp
    have mem: "k \<in> bv_set (w # bv)" using k k63 by (simp add: Cons_set)
    have "(LEAST i. i \<in> bv_set (w # bv)) = k"
      using mem low k63 by (intro Least_equality) (auto simp: Cons_set not_less split: if_splits dest: leI)
    with False mem scan_word [OF k low] show ?thesis by auto
  qed
qed

text \<open>
  \<^bold>\<open>C26\<close>. The bit scan of the datapath returns the least rule number of the bit vector, and finds
  no bit exactly when the vector stands for the empty set; its table lookup never misses.
\<close>

theorem bitscan_least:
  assumes "bv_ok bv"
  shows "bitscan_loop 0 bv = (if bv_set bv = {} then NoBit else Matching (LEAST i. i \<in> bv_set bv))"
  using assms by (rule bitscan_loop_least)

theorem bitscan_least_witness:
  "bv_ok [0, 6] \<and> bitscan_loop 0 [0, 6] = Matching 64 \<and> (LEAST i. i \<in> bv_set [0, 6]) = 64"
proof -
  have ok: "bv_ok [0, 6]" by (simp add: bv_ok_def)
  have run: "bitscan_loop 0 [0, 6] = Matching 64" by code_simp
  have "(if bv_set [0, 6] = {} then NoBit else Matching (LEAST i. i \<in> bv_set [0, 6])) = Matching 64"
    using bitscan_least [OF ok] run by simp
  with ok run show ?thesis by (auto split: if_splits)
qed

end
