(* ===== verification/Net_Utils.thy ===== *)
theory Net_Utils
  imports Prelude
begin

text \<open>
  Addresses as text: \<open>src/libs/polycube/src/utils.cpp\<close> with the parts of the C library it calls
  (\<open>sscanf\<close> with \<open>%hhu\<close> and \<open>%hhx\<close>, \<open>inet_ntoa\<close>, \<open>inet_pton\<close>, \<open>stol\<close>). The host is
  little-endian, so an address in network byte order has its first octet in the low byte of the
  32-bit word.
\<close>

section \<open>Characters and numerals\<close>

definition code :: "char \<Rightarrow> nat" where
  "code c = of_char c"

definition is_space :: "char \<Rightarrow> bool" where
  "is_space c \<longleftrightarrow> code c = 32 \<or> 9 \<le> code c \<and> code c \<le> 13"

definition is_digit :: "char \<Rightarrow> bool" where
  "is_digit c \<longleftrightarrow> 48 \<le> code c \<and> code c \<le> 57"

definition digit :: "nat \<Rightarrow> char" where
  "digit d = char_of (48 + d)"

fun dec :: "nat \<Rightarrow> string" where
  "dec n = (if n < 10 then [digit n] else dec (n div 10) @ [digit (n mod 10)])"

declare dec.simps [simp del]

definition dec_val :: "string \<Rightarrow> nat" where
  "dec_val ds = foldl (\<lambda>v c. 10 * v + (code c - 48)) 0 ds"

lemma code_digit: "d < 10 \<Longrightarrow> code (digit d) = 48 + d"
  by (simp add: code_def digit_def)

lemma is_digit_digit: "d < 10 \<Longrightarrow> is_digit (digit d)"
  by (simp add: is_digit_def code_digit)

lemma is_digit_not_space: "is_digit c \<Longrightarrow> \<not> is_space c"
  by (auto simp: is_digit_def is_space_def)

lemma dec_not_Nil [simp]: "dec n \<noteq> []"
  by (subst dec.simps) simp

lemma dec_digits: "list_all is_digit (dec n)"
proof (induction n rule: dec.induct)
  case (1 n)
  then show ?case by (subst dec.simps) (simp add: is_digit_digit)
qed

lemma dec_val_dec [simp]: "dec_val (dec n) = n"
proof (induction n rule: dec.induct)
  case (1 n)
  show ?case
  proof (cases "n < 10")
    case True
    then show ?thesis by (subst dec.simps) (simp add: dec_val_def code_digit)
  next
    case False
    with 1 have "foldl (\<lambda>v c. 10 * v + (code c - 48)) 0 (dec (n div 10)) = n div 10"
      by (simp add: dec_val_def)
    with False show ?thesis by (subst dec.simps) (simp add: dec_val_def code_digit)
  qed
qed

section \<open>The number scanners of the C library\<close>

text \<open>An optional sign after white space; what follows it.\<close>

fun scan_sign :: "string \<Rightarrow> bool \<times> string" where
  "scan_sign [] = (False, [])"
| "scan_sign (c # s) =
     (if code c = 45 then (True, s) else if code c = 43 then (False, s) else (False, c # s))"

text \<open>
  \<open>strtoul\<close> in base 10: white space, sign, digits. The value saturates at \<open>ULONG_MAX\<close> and a minus
  sign negates it modulo \<open>2^64\<close>. \<open>None\<close> when there is no digit.
\<close>

definition strtoul_dec :: "string \<Rightarrow> (64 word \<times> string) option" where
  "strtoul_dec s =
     (let (neg, s2) = scan_sign (dropWhile is_space s);
          ds = takeWhile is_digit s2
      in if ds = [] then None
         else Some
           (if dec_val ds < 2 ^ 64
            then (if neg then - word_of_nat (dec_val ds) else word_of_nat (dec_val ds))
            else - 1,
            dropWhile is_digit s2))"

text \<open>\<open>%hhu\<close> stores the low byte of what \<open>strtoul\<close> read.\<close>

definition scan_hhu :: "string \<Rightarrow> (8 word \<times> string) option" where
  "scan_hhu s = map_option (\<lambda>(v, r). (ucast v, r)) (strtoul_dec s)"

fun scan_lit :: "char \<Rightarrow> string \<Rightarrow> string option" where
  "scan_lit c [] = None"
| "scan_lit c (d # s) = (if c = d then Some s else None)"

text \<open>\<open>std::stol\<close>: \<open>invalid_argument\<close> without a digit, \<open>out_of_range\<close> beyond a 64-bit \<open>long\<close>.\<close>

definition stol :: "string \<Rightarrow> int result" where
  "stol s =
     (let (neg, s2) = scan_sign (dropWhile is_space s);
          ds = takeWhile is_digit s2;
          v = (if neg then - int (dec_val ds) else int (dec_val ds))
      in if ds = [] then Inl (InvalidArgument ''stol'')
         else if v < - (2 ^ 63) \<or> 2 ^ 63 \<le> v then Inl (OutOfRange ''stol'')
         else Inr v)"

section \<open>IPv4 addresses\<close>

definition get_ip_from_string :: "string \<Rightarrow> string" where
  "get_ip_from_string ipv_net = takeWhile (\<lambda>c. c \<noteq> CHR ''/'') ipv_net"

definition get_netmask_from_string :: "string \<Rightarrow> string" where
  "get_netmask_from_string ipv = drop 1 (dropWhile (\<lambda>c. c \<noteq> CHR ''/'') ipv)"

definition octets_to_nbo :: "8 word \<Rightarrow> 8 word \<Rightarrow> 8 word \<Rightarrow> 8 word \<Rightarrow> 32 word" where
  "octets_to_nbo a0 a1 a2 a3 =
     push_bit 24 (ucast a3) OR push_bit 16 (ucast a2) OR push_bit 8 (ucast a1) OR ucast a0"

definition octet :: "32 word \<Rightarrow> nat \<Rightarrow> 8 word" where
  "octet ip i = ucast (drop_bit (8 * i) ip)"

definition scan_dotted :: "string \<Rightarrow> ((8 word \<times> 8 word \<times> 8 word \<times> 8 word) \<times> string) option" where
  "scan_dotted s =
     Option.bind (scan_hhu s) (\<lambda>(a0, s).
     Option.bind (scan_lit CHR ''.'' s) (\<lambda>s.
     Option.bind (scan_hhu s) (\<lambda>(a1, s).
     Option.bind (scan_lit CHR ''.'' s) (\<lambda>s.
     Option.bind (scan_hhu s) (\<lambda>(a2, s).
     Option.bind (scan_lit CHR ''.'' s) (\<lambda>s.
     Option.bind (scan_hhu s) (\<lambda>(a3, s). Some ((a0, a1, a2, a3), s))))))))"

definition ip_string_to_nbo_uint :: "string \<Rightarrow> 32 word result" where
  "ip_string_to_nbo_uint ip =
     (case scan_dotted (get_ip_from_string ip) of
        Some ((a0, a1, a2, a3), []) \<Rightarrow> Inr (octets_to_nbo a0 a1 a2 a3)
      | _ \<Rightarrow> Inl (RuntimeError (''Not an ipv4 address '' @ ip)))"

text \<open>\<open>inet_ntoa\<close> prints the four bytes in memory order.\<close>

definition nbo_uint_to_ip_string :: "32 word \<Rightarrow> string" where
  "nbo_uint_to_ip_string ip =
     dec (unat (octet ip 0)) @ ''.'' @ dec (unat (octet ip 1)) @ ''.'' @
     dec (unat (octet ip 2)) @ ''.'' @ dec (unat (octet ip 3))"

lemma octets_roundtrip: "octets_to_nbo (octet ip 0) (octet ip 1) (octet ip 2) (octet ip 3) = ip"
proof (rule bit_eqI)
  fix n assume "possible_bit TYPE(32 word) n"
  then have n: "n < 32" by simp
  then consider "n < 8" | "8 \<le> n" "n < 16" | "16 \<le> n" "n < 24" | "24 \<le> n" by linarith
  then show "bit (octets_to_nbo (octet ip 0) (octet ip 1) (octet ip 2) (octet ip 3)) n = bit ip n"
    by cases (use n in \<open>auto simp: octets_to_nbo_def octet_def bit_simps not_less\<close>)
qed

lemma scan_sign_dec: "scan_sign (dec n @ s) = (False, dec n @ s)"
proof -
  obtain c cs where dec: "dec n = c # cs" by (cases "dec n") auto
  with dec_digits [of n] have "is_digit c" by simp
  then show ?thesis by (auto simp: dec is_digit_def)
qed

lemma dropWhile_space_dec: "dropWhile is_space (dec n @ s) = dec n @ s"
proof -
  obtain c cs where dec: "dec n = c # cs" by (cases "dec n") auto
  with dec_digits [of n] have "\<not> is_space c" by (simp add: is_digit_not_space)
  then show ?thesis by (simp add: dec)
qed

lemma span_digits_dec:
  assumes "s = [] \<or> \<not> is_digit (hd s)"
  shows "takeWhile is_digit (dec n @ s) = dec n" and "dropWhile is_digit (dec n @ s) = s"
proof -
  have "\<And>x. x \<in> set (dec n) \<Longrightarrow> is_digit x"
    using dec_digits [of n] by (simp add: list_all_iff)
  with assms show "takeWhile is_digit (dec n @ s) = dec n" and "dropWhile is_digit (dec n @ s) = s"
    by (cases s; simp)+
qed

lemma takeWhile_dec: "takeWhile is_digit (dec n) = dec n"
  using dec_digits [of n] by (auto simp: takeWhile_eq_all_conv list_all_iff)

lemma scan_hhu_dec:
  assumes "s = [] \<or> \<not> is_digit (hd s)"
  shows "scan_hhu (dec (unat (b :: 8 word)) @ s) = Some (b, s)"
proof -
  have small: "unat b < 2 ^ 64"
    using unsigned_less [of b, where ?'a = nat] by simp
  have "(ucast (word_of_nat (unat b) :: 64 word) :: 8 word) = b"
    by (rule bit_eqI) (auto simp: bit_simps)
  with small show ?thesis
    by (simp add: scan_hhu_def strtoul_dec_def dropWhile_space_dec scan_sign_dec
        span_digits_dec [OF assms])
qed

lemma dot_not_digit: "\<not> is_digit CHR ''.''"
  by (simp add: is_digit_def code_def)

lemma slash_not_digit: "\<not> is_digit CHR ''/''"
  by (simp add: is_digit_def code_def)

lemma scan_dotted_print: "scan_dotted (nbo_uint_to_ip_string ip) =
    Some ((octet ip 0, octet ip 1, octet ip 2, octet ip 3), [])"
  using scan_hhu_dec [of "[]"]
  by (simp add: scan_dotted_def nbo_uint_to_ip_string_def scan_hhu_dec dot_not_digit)

lemma no_slash_dec: "CHR ''/'' \<notin> set (dec n)"
  using dec_digits [of n] slash_not_digit by (auto simp: list_all_iff)

lemma no_slash_ip: "CHR ''/'' \<notin> set (nbo_uint_to_ip_string ip)"
  by (simp add: nbo_uint_to_ip_string_def no_slash_dec)

lemma get_ip_from_string_print:
  "get_ip_from_string (nbo_uint_to_ip_string ip) = nbo_uint_to_ip_string ip"
  using no_slash_ip [of ip] by (auto simp: get_ip_from_string_def takeWhile_eq_all_conv)

lemma get_ip_from_string_prefix:
  "get_ip_from_string (nbo_uint_to_ip_string ip @ ''/'' @ s) = nbo_uint_to_ip_string ip"
  using no_slash_ip [of ip] unfolding get_ip_from_string_def
  by (subst takeWhile_append2) auto

lemma ip_print_parse: "ip_string_to_nbo_uint (nbo_uint_to_ip_string ip) = Inr ip"
  by (simp add: ip_string_to_nbo_uint_def get_ip_from_string_print scan_dotted_print
      octets_roundtrip [simplified])

lemma stol_dec: "n < 2 ^ 63 \<Longrightarrow> stol (dec n) = Inr (int n)"
  using dropWhile_space_dec [of n "[]"] scan_sign_dec [of n "[]"]
  by (simp add: stol_def Let_def takeWhile_dec)

section \<open>Netmasks\<close>

text \<open>
  \<open>get_netmask_length\<close> counts the set bits with \<open>n &= n - 1\<close> until \<open>n\<close> is zero. The word has 32 bits,
  so 32 rounds are enough: \<open>popcount_loop\<close> is the loop itself, with its termination proof.
\<close>

lemma clear_lowest_less: "(n :: 32 word) \<noteq> 0 \<Longrightarrow> unat (n AND (n - 1)) < unat n"
proof -
  assume "n \<noteq> 0"
  then have "unat (n - 1) < unat n" by (rule measure_unat)
  moreover have "unat (n AND (n - 1)) \<le> unat (n - 1)"
    by (rule word_and_le1 [THEN word_le_nat_alt [THEN iffD1]])
  ultimately show ?thesis by linarith
qed

function popcount_loop :: "32 word \<Rightarrow> nat \<Rightarrow> nat" where
  "popcount_loop n counter = (if n \<noteq> 0 then popcount_loop (n AND (n - 1)) (counter + 1) else counter)"
  by pat_completeness auto
termination
  by (relation "measure (\<lambda>(n, c). unat n)") (simp_all add: clear_lowest_less)

declare popcount_loop.simps [simp del]

text \<open>
  \<open>get_netmask_from_prefixlength\<close>: shift counts outside \<open>0 .. 31\<close> are undefined behaviour in C++.
  \<open>ntohl\<close> swaps the bytes.
\<close>

definition ntohl :: "32 word \<Rightarrow> 32 word" where
  "ntohl w = octets_to_nbo (octet w 3) (octet w 2) (octet w 1) (octet w 0)"

definition netmask_nbo :: "int \<Rightarrow> 32 word result" where
  "netmask_nbo prefixlength =
     (if prefixlength = 0 then Inr 0
      else if prefixlength < 0 \<or> 32 < prefixlength
           then Inl (UndefinedBehaviour ''shift count out of range'')
      else Inr (ntohl (push_bit (nat (32 - prefixlength)) 0xFFFFFFFF)))"

definition get_netmask_from_prefixlength :: "int \<Rightarrow> string result" where
  "get_netmask_from_prefixlength prefixlength =
     rbind (netmask_nbo prefixlength) (\<lambda>m. Inr (nbo_uint_to_ip_string m))"

text \<open>\<open>ntohs\<close> on the little-endian host swaps the two bytes.\<close>

definition ntohs :: "16 word \<Rightarrow> 16 word" where
  "ntohs w = push_bit 8 w OR drop_bit 8 w"

lemma ntohs_ntohs [simp]: "ntohs (ntohs w) = w"
  by (rule bit_eqI) (auto simp: ntohs_def bit_simps dest: bit_imp_le_length)

lemma ntohs_inj [simp]: "ntohs a = ntohs b \<longleftrightarrow> a = b"
  by (metis ntohs_ntohs)

lemma ntohs_0 [simp]: "ntohs 0 = 0"
  by (simp add: ntohs_def)

section \<open>Bits of an address\<close>

text \<open>
  An address in network order, read as a little-endian word: bit \<open>j\<close> of the address, counted from
  the most significant one, is bit \<open>nbit j\<close> of the word. On a whole number of bytes the two orders
  cover the same bits.
\<close>

definition nbit :: "nat \<Rightarrow> nat" where
  "nbit j = 8 * (j div 8) + (7 - j mod 8)"

lemma nbit_div: "nbit j div 8 = j div 8"
  using mod_less_divisor [of 8 j] by (simp add: nbit_def)

lemma nbit_mod: "nbit j mod 8 = 7 - j mod 8"
  unfolding nbit_def mod_mult_self4 by (rule mod_less) linarith

lemma nbit_nbit [simp]: "nbit (nbit j) = j"
proof -
  have "j mod 8 < 8" by simp
  then have "7 - (7 - j mod 8) = j mod 8" by linarith
  then show ?thesis unfolding nbit_def [of "nbit j"] nbit_div nbit_mod by simp
qed

lemma nbit_less: "n mod 8 = 0 \<Longrightarrow> nbit j < n \<longleftrightarrow> j < n"
proof -
  assume "n mod 8 = 0"
  then obtain q where q: "n = q * 8" by (auto simp: mod_eq_0_iff_dvd dvd_def)
  show ?thesis
    unfolding q using nbit_div [of j] by (simp add: div_less_iff_less_mult [symmetric])
qed

lemma all_nbit: "n mod 8 = 0 \<Longrightarrow> (\<forall>j < n. P (nbit j)) \<longleftrightarrow> (\<forall>j < n. P j)"
  by (metis nbit_less nbit_nbit)

end
