(* ===== verification/Fw_Rule.thy ===== *)
theory Fw_Rule
  imports Bitvec Net_Utils
begin

text \<open>
  The rules of \<open>pcn-firewall\<close>: \<open>struct IpAddr\<close> of \<open>defines.h\<close>, the enumerations and the
  configuration object of a rule, \<open>ChainRule.cpp\<close>, and the conversions of \<open>Utils.cpp\<close> between
  protocol numbers, TCP flag masks and text. A member with its \<open>...IsSet\<close> companion is an option.
\<close>

section \<open>Addresses with a prefix length\<close>

text \<open>
  The third member, \<open>ruleId\<close>, takes no
  part in the order and is written but never read, so it is left out.
\<close>

datatype IpAddr = IpAddr (ia_ip: "32 word") (ia_netmask: "8 word")

text \<open>\<open>operator<\<close> compares address and prefix length as a pair.\<close>

definition IpAddr_lt :: "IpAddr \<Rightarrow> IpAddr \<Rightarrow> bool" where
  "IpAddr_lt a b \<longleftrightarrow> ia_ip a < ia_ip b \<or> ia_ip a = ia_ip b \<and> ia_netmask a < ia_netmask b"

instantiation IpAddr :: linorder
begin

definition less_eq_IpAddr :: "IpAddr \<Rightarrow> IpAddr \<Rightarrow> bool" where
  "less_eq_IpAddr a b \<longleftrightarrow> ia_ip a < ia_ip b \<or> ia_ip a = ia_ip b \<and> ia_netmask a \<le> ia_netmask b"

definition less_IpAddr :: "IpAddr \<Rightarrow> IpAddr \<Rightarrow> bool" where
  "less_IpAddr = IpAddr_lt"

instance
  by standard (auto simp: less_eq_IpAddr_def less_IpAddr_def IpAddr_lt_def IpAddr.expand)

end

abbreviation prefix_len :: "IpAddr \<Rightarrow> nat" where
  "prefix_len a \<equiv> unat (ia_netmask a)"

definition IpAddr_toString :: "IpAddr \<Rightarrow> string" where
  "IpAddr_toString a = nbo_uint_to_ip_string (ia_ip a) @ ''/'' @ dec (unat (ia_netmask a))"

text \<open>The prefix length is truncated to \<open>uint8_t\<close> before it is compared with 32.\<close>

definition IpAddr_fromString :: "string \<Rightarrow> IpAddr result" where
  "IpAddr_fromString ipnetmask =
     rbind (if CHR ''/'' \<in> set ipnetmask
            then rbind (stol (get_netmask_from_string ipnetmask)) (\<lambda>v. Inr (word_of_int v :: 8 word))
            else Inr 32)
       (\<lambda>netmask. if 32 < netmask then Inl (RuntimeError ''Netmask can't be bigger than 32'')
          else rbind (ip_string_to_nbo_uint (get_ip_from_string ipnetmask))
                 (\<lambda>ip. Inr (IpAddr ip netmask)))"

lemma get_netmask_from_string_print:
  "get_netmask_from_string (nbo_uint_to_ip_string ip @ ''/'' @ s) = s"
  using no_slash_ip [of ip] unfolding get_netmask_from_string_def
  by (subst dropWhile_append2) auto

lemma IpAddr_print_parse:
  assumes "ia_netmask a \<le> 32"
  shows "IpAddr_fromString (IpAddr_toString a) = Inr a"
proof -
  have small: "unat (ia_netmask a) < 2 ^ 63"
    using unsigned_less [of "ia_netmask a", where ?'a = nat] by simp
  have num: "stol (get_netmask_from_string (IpAddr_toString a)) = Inr (int (unat (ia_netmask a)))"
    unfolding IpAddr_toString_def get_netmask_from_string_print using small by (rule stol_dec)
  have ip: "ip_string_to_nbo_uint (get_ip_from_string (IpAddr_toString a)) = Inr (ia_ip a)"
    unfolding IpAddr_toString_def get_ip_from_string_prefix by (rule ip_print_parse)
  have slash: "CHR ''/'' \<in> set (IpAddr_toString a)" by (simp add: IpAddr_toString_def)
  from assms show ?thesis
    unfolding IpAddr_fromString_def by (simp add: slash num ip not_less [symmetric])
qed

lemma IpAddr_fromString_netmask: "IpAddr_fromString s = Inr a \<Longrightarrow> ia_netmask a \<le> 32"
  by (auto simp: IpAddr_fromString_def res_simps not_less split: if_splits)

section \<open>Enumerations\<close>

datatype ConntrackstatusEnum = NEW | ESTABLISHED | RELATED | INVALID

datatype ActionEnum = DROP | LOG | ACCEPT

datatype ChainNameEnum = INGRESS | EGRESS | INVALID_CHAIN

datatype Type = SOURCE_TYPE | DESTINATION_TYPE

definition IPPROTO_ICMP :: int where "IPPROTO_ICMP = 1"
definition IPPROTO_TCP :: int where "IPPROTO_TCP = 6"
definition IPPROTO_UDP :: int where "IPPROTO_UDP = 17"
definition IPPROTO_GRE :: int where "IPPROTO_GRE = 47"

lemmas IPPROTO_defs = IPPROTO_ICMP_def IPPROTO_TCP_def IPPROTO_UDP_def IPPROTO_GRE_def

definition protocol_from_string_to_int :: "string \<Rightarrow> int result" where
  "protocol_from_string_to_int proto =
     (if proto = ''TCP'' \<or> proto = ''tcp'' then Inr IPPROTO_TCP
      else if proto = ''UDP'' \<or> proto = ''udp'' then Inr IPPROTO_UDP
      else if proto = ''ICMP'' \<or> proto = ''icmp'' then Inr IPPROTO_ICMP
      else if proto = ''GRE'' \<or> proto = ''gre'' then Inr IPPROTO_GRE
      else Inl (RuntimeError ''Protocol not supported.''))"

definition protocol_from_int_to_string :: "int \<Rightarrow> string result" where
  "protocol_from_int_to_string proto =
     (if proto = IPPROTO_TCP then Inr ''TCP''
      else if proto = IPPROTO_UDP then Inr ''UDP''
      else if proto = IPPROTO_ICMP then Inr ''ICMP''
      else if proto = IPPROTO_GRE then Inr ''GRE''
      else Inl (RuntimeError ''Protocol not supported.''))"

definition supported_protocol :: "int \<Rightarrow> bool" where
  "supported_protocol p \<longleftrightarrow> p = IPPROTO_TCP \<or> p = IPPROTO_UDP \<or> p = IPPROTO_ICMP \<or> p = IPPROTO_GRE"

lemma protocol_print_parse:
  "supported_protocol p \<Longrightarrow>
   rbind (protocol_from_int_to_string p) protocol_from_string_to_int = Inr p"
  by (auto simp: supported_protocol_def protocol_from_int_to_string_def
      protocol_from_string_to_int_def IPPROTO_defs)

lemma protocol_from_string_supported:
  "protocol_from_string_to_int s = Inr p \<Longrightarrow> supported_protocol p"
  by (auto simp: supported_protocol_def protocol_from_string_to_int_def split: if_splits)

text \<open>\<open>DROP_ACTION = 0\<close>, \<open>FORWARD_ACTION = 1\<close>; \<open>LOG\<close> has no number.\<close>

fun ActionEnum_to_int :: "ActionEnum \<Rightarrow> int result" where
  "ActionEnum_to_int DROP = Inr 0"
| "ActionEnum_to_int ACCEPT = Inr 1"
| "ActionEnum_to_int LOG = Inl (RuntimeError ''Action not supported.'')"

fun ChainRuleConntrackEnum_to_int :: "ConntrackstatusEnum \<Rightarrow> nat" where
  "ChainRuleConntrackEnum_to_int NEW = 0"
| "ChainRuleConntrackEnum_to_int ESTABLISHED = 1"
| "ChainRuleConntrackEnum_to_int RELATED = 2"
| "ChainRuleConntrackEnum_to_int INVALID = 3"

section \<open>TCP flags as text\<close>

text \<open>\<open>std::string::find\<close> and \<open>erase(find(pat), pat.size())\<close>.\<close>

fun str_contains :: "string \<Rightarrow> string \<Rightarrow> bool" where
  "str_contains pat [] \<longleftrightarrow> pat = []"
| "str_contains pat (c # s) \<longleftrightarrow> take (length pat) (c # s) = pat \<or> str_contains pat s"

fun str_erase :: "string \<Rightarrow> string \<Rightarrow> string" where
  "str_erase pat [] = []"
| "str_erase pat (c # s) =
     (if take (length pat) (c # s) = pat then drop (length pat) (c # s)
      else c # str_erase pat s)"

text \<open>The flag names with their bit numbers, in the order of the code's \<open>if\<close> statements.\<close>

definition flag_table :: "(string \<times> nat) list" where
  "flag_table =
     [(''FIN'', 0), (''SYN'', 1), (''RST'', 2), (''PSH'', 3),
      (''ACK'', 4), (''URG'', 5), (''ECE'', 6), (''CWR'', 7)]"

definition neg_flag :: "string \<times> 8 word \<Rightarrow> string \<times> nat \<Rightarrow> string \<times> 8 word" where
  "neg_flag st fl =
     (let (modFlags, flagsNotSet) = st; (name, b) = fl in
      if str_contains (''!'' @ name) modFlags
      then (str_erase (''!'' @ name) modFlags, SET_BIT flagsNotSet b)
      else (modFlags, flagsNotSet))"

definition pos_flag :: "string \<Rightarrow> 8 word \<Rightarrow> string \<times> nat \<Rightarrow> 8 word" where
  "pos_flag modFlags flagsSet fl =
     (let (name, b) = fl in if str_contains name modFlags then SET_BIT flagsSet b else flagsSet)"

definition flags_from_string_to_masks :: "string \<Rightarrow> (8 word \<times> 8 word) result" where
  "flags_from_string_to_masks flags =
     (let (modFlags, flagsNotSet) = foldl neg_flag (flags, 0) flag_table;
          flagsSet = foldl (pos_flag modFlags) 0 flag_table
      in if flagsSet AND flagsNotSet \<noteq> 0
         then Inl (RuntimeError ''A flag can't be both set and not set!'')
         else Inr (flagsSet, flagsNotSet))"

definition flags_from_masks_to_string :: "8 word \<Rightarrow> 8 word \<Rightarrow> string" where
  "flags_from_masks_to_string flagsSet flagsNotSet =
     (if flagsSet \<noteq> 0
      then concat (map (\<lambda>(name, b). if CHECK_BIT flagsSet b then name @ '' '' else []) flag_table)
      else []) @
     (if flagsNotSet \<noteq> 0
      then concat (map (\<lambda>(name, b). if CHECK_BIT flagsNotSet b then ''!'' @ name @ '' '' else []) flag_table)
      else [])"

subsection \<open>Printing and parsing flags\<close>

text \<open>
  The printed flags are words that each end in a space. A flag name has no space, so a search finds it
  inside one of the words only, and among the words that can occur it finds exactly itself.
\<close>

definition unwords :: "string list \<Rightarrow> string" where
  "unwords ws = concat (map (\<lambda>w. w @ '' '') ws)"

definition flag_words :: "8 word \<Rightarrow> 8 word \<Rightarrow> string list" where
  "flag_words s ns =
     map fst (filter (\<lambda>(_, b). bit s b) flag_table) @
     map (\<lambda>(n, _). ''!'' @ n) (filter (\<lambda>(_, b). bit ns b) flag_table)"

lemma take_pat_space:
  assumes "CHR '' '' \<notin> set pat"
  shows "take (length pat) (w @ CHR '' '' # r) = pat \<longleftrightarrow> length pat \<le> length w \<and> take (length pat) w = pat"
proof
  assume eq: "take (length pat) (w @ CHR '' '' # r) = pat"
  have "length pat \<le> length w"
  proof (rule ccontr)
    assume "\<not> length pat \<le> length w"
    then have "CHR '' '' \<in> set (take (length pat) (w @ CHR '' '' # r))"
      by (cases "length pat - length w") (auto simp: take_Cons)
    with eq assms show False by simp
  qed
  with eq show "length pat \<le> length w \<and> take (length pat) w = pat" by simp
qed simp

lemma take_eq_length: "take (length pat) w = pat \<Longrightarrow> length pat \<le> length w"
  by (metis length_take min.cobounded1 min_def nle_le)

lemma str_contains_space:
  assumes "CHR '' '' \<notin> set pat" and "pat \<noteq> []"
  shows "str_contains pat (w @ CHR '' '' # r) \<longleftrightarrow> str_contains pat w \<or> str_contains pat r"
proof (induction w)
  case Nil
  show ?case using assms by (cases pat) auto
next
  case (Cons c w)
  have "take (length pat) ((c # w) @ CHR '' '' # r) = pat \<longleftrightarrow> take (length pat) (c # w) = pat"
    using take_pat_space [OF assms(1), of "c # w" r] take_eq_length [of pat "c # w"] by blast
  with Cons show ?case by simp
qed

lemma str_erase_space:
  assumes "CHR '' '' \<notin> set pat" and "pat \<noteq> []"
  shows "str_erase pat (w @ CHR '' '' # r) =
    (if str_contains pat w then str_erase pat w @ CHR '' '' # r else w @ CHR '' '' # str_erase pat r)"
proof (induction w)
  case Nil
  show ?case using assms by (cases pat) auto
next
  case (Cons c w)
  have "take (length pat) ((c # w) @ CHR '' '' # r) = pat \<longleftrightarrow> take (length pat) (c # w) = pat"
    using take_pat_space [OF assms(1), of "c # w" r] take_eq_length [of pat "c # w"] by blast
  moreover have "drop (length pat) ((c # w) @ CHR '' '' # r) = drop (length pat) (c # w) @ CHR '' '' # r"
    if "take (length pat) (c # w) = pat"
    unfolding drop_append using take_eq_length [OF that] by simp
  ultimately show ?case using Cons by simp
qed

lemma str_contains_unwords:
  assumes "CHR '' '' \<notin> set pat" and "pat \<noteq> []"
  shows "str_contains pat (unwords ws) \<longleftrightarrow> (\<exists>w \<in> set ws. str_contains pat w)"
  using assms by (induction ws) (auto simp: unwords_def str_contains_space)

lemma str_erase_unwords:
  assumes "CHR '' '' \<notin> set pat" and "pat \<noteq> []"
    and "\<And>w. w \<in> set ws \<Longrightarrow> str_contains pat w \<longleftrightarrow> w = pat" and "count_list ws pat \<le> 1"
  shows "str_erase pat (unwords ws) = unwords (map (\<lambda>w. if w = pat then [] else w) ws)"
  using assms(3,4)
proof (induction ws)
  case Nil
  then show ?case by (simp add: unwords_def)
next
  case (Cons w ws)
  have pp: "str_erase pat pat = []" using assms(2) by (cases pat) auto
  show ?case
  proof (cases "w = pat")
    case True
    with Cons.prems have "pat \<notin> set ws" by (simp add: count_list_0_iff)
    then have "map (\<lambda>w. if w = pat then [] else w) ws = ws" by (auto intro: map_idI)
    with True Cons.prems(1) [of w] show ?thesis
      by (simp add: unwords_def str_erase_space [OF assms(1,2)] pp)
  next
    case False
    with Cons show ?thesis
      by (simp add: unwords_def str_erase_space [OF assms(1,2)])
  qed
qed

definition flag_vocab :: "string list" where
  "flag_vocab = map fst flag_table @ map (\<lambda>(n, _). ''!'' @ n) flag_table @ [[]]"

lemma vocab_neg: "list_all (\<lambda>(n, _). CHR '' '' \<notin> set n \<and>
    list_all (\<lambda>w. str_contains (''!'' @ n) w = (w = ''!'' @ n)) flag_vocab) flag_table"
  by code_simp

lemma vocab_pos: "list_all (\<lambda>(n, _). n \<noteq> [] \<and>
    list_all (\<lambda>w. str_contains n w = (w = n)) (map fst flag_table @ [[]])) flag_table"
  by code_simp

lemma neg_fold:
  assumes "set tbl \<subseteq> set flag_table" and "set ws \<subseteq> set flag_vocab"
    and "\<And>n b. (n, b) \<in> set tbl \<Longrightarrow> count_list ws (''!'' @ n) \<le> 1"
    and "distinct (map fst tbl)"
  shows "foldl neg_flag (unwords ws, m) tbl =
    (unwords (map (\<lambda>w. if \<exists>n b. (n, b) \<in> set tbl \<and> w = ''!'' @ n then [] else w) ws),
     foldl (\<lambda>m (n, b). if ''!'' @ n \<in> set ws then SET_BIT m b else m) m tbl)"
  using assms
proof (induction tbl arbitrary: ws m)
  case Nil
  then show ?case by simp
next
  case (Cons nb tbl)
  obtain n b where nb: "nb = (n, b)" by (cases nb)
  let ?p = "''!'' @ n" and ?ws = "map (\<lambda>w. if w = ''!'' @ n then [] else w) ws"
  have nosp: "CHR '' '' \<notin> set ?p" and char: "\<And>w. w \<in> set ws \<Longrightarrow> str_contains ?p w \<longleftrightarrow> w = ?p"
    using Cons.prems(1,2) vocab_neg by (fastforce simp: nb list_all_iff)+
  have has: "str_contains ?p (unwords ws) \<longleftrightarrow> ?p \<in> set ws"
    using str_contains_unwords [OF nosp] char by auto
  have step: "neg_flag (unwords ws, m) nb = (unwords ?ws, if ?p \<in> set ws then SET_BIT m b else m)"
  proof (cases "?p \<in> set ws")
    case True
    have "count_list ws ?p \<le> 1" using Cons.prems(3) nb by auto
    from str_erase_unwords [OF nosp _ char this] have "str_erase ?p (unwords ws) = unwords ?ws" by simp
    with True has show ?thesis by (simp add: neg_flag_def nb)
  next
    case False
    then have "?ws = ws" by (auto intro: map_idI)
    with False has show ?thesis by (simp add: neg_flag_def nb)
  qed
  have cnt: "count_list ?ws (''!'' @ n') \<le> 1" if "(n', b') \<in> set tbl" for n' b'
  proof -
    have "n' \<noteq> n" using that Cons.prems(4) nb by force
    then have "count_list ?ws (''!'' @ n') = count_list ws (''!'' @ n')"
      by (induction ws) auto
    with Cons.prems(3) [of n' b'] that show ?thesis by simp
  qed
  have mem: "''!'' @ n' \<in> set ?ws \<longleftrightarrow> ''!'' @ n' \<in> set ws" if "(n', b') \<in> set tbl" for n' b'
    using that Cons.prems(4) nb by force
  have "set ?ws \<subseteq> set flag_vocab"
    using Cons.prems(2) by (auto simp: flag_vocab_def)
  then have rest: "foldl neg_flag (neg_flag (unwords ws, m) nb) tbl =
     (unwords (map (\<lambda>w. if \<exists>n b. (n, b) \<in> set tbl \<and> w = ''!'' @ n then [] else w) ?ws),
      foldl (\<lambda>m (n, b). if ''!'' @ n \<in> set ?ws then SET_BIT m b else m)
        (if ?p \<in> set ws then SET_BIT m b else m) tbl)"
    unfolding step using Cons.prems(1,4) cnt by (intro Cons.IH) auto
  have same: "foldl (\<lambda>m (n, b). if ''!'' @ n \<in> set ?ws then SET_BIT m b else m) x tbl =
      foldl (\<lambda>m (n, b). if ''!'' @ n \<in> set ws then SET_BIT m b else m) x tbl" for x
    by (intro foldl_cong) (use mem in auto)
  have words: "map (\<lambda>w. if \<exists>n b. (n, b) \<in> set tbl \<and> w = ''!'' @ n then [] else w) ?ws =
      map (\<lambda>w. if \<exists>n b. (n, b) \<in> set (nb # tbl) \<and> w = ''!'' @ n then [] else w) ws"
    by (auto simp: nb)
  show ?case
    unfolding foldl_Cons rest same words by (simp only: nb case_prod_conv)
qed

lemma masks_words: "flags_from_masks_to_string s ns = unwords (flag_words s ns)"
proof -
  have "s = 0 \<Longrightarrow> concat (map (\<lambda>(name, b). if CHECK_BIT s b then name @ '' '' else []) flag_table) = []"
    and "ns = 0 \<Longrightarrow> concat (map (\<lambda>(name, b). if CHECK_BIT ns b then ''!'' @ name @ '' '' else []) flag_table) = []"
    by (auto simp: bv_simps)
  moreover have "concat (map (\<lambda>(name, b). if bit s b then name @ '' '' else []) xs) =
      unwords (map fst (filter (\<lambda>(_, b). bit s b) xs))"
   and "concat (map (\<lambda>(name, b). if bit ns b then ''!'' @ name @ '' '' else []) xs) =
      unwords (map (\<lambda>(n, _). ''!'' @ n) (filter (\<lambda>(_, b). bit ns b) xs))" for xs
    by (induction xs) (auto simp: unwords_def)
  ultimately show ?thesis
    by (auto simp: flags_from_masks_to_string_def flag_words_def bv_simps unwords_def)
qed

lemma mask_fold:
  "foldl (\<lambda>m (n, b). if bit (v :: 8 word) b then SET_BIT m b else m) 0 flag_table = v"
  by (rule bit_eqI) (auto simp: flag_table_def bit_SET_BIT less_Suc_eq numeral_nat split: if_splits)
lemma flag_words_vocab: "set (flag_words s ns) \<subseteq> set flag_vocab"
  by (auto simp: flag_words_def flag_vocab_def)

lemma names_not_neg: "(n, b) \<in> set flag_table \<Longrightarrow> n \<noteq> CHR ''!'' # x"
  by (auto simp: flag_table_def)

lemma distinct_names: "distinct (map fst flag_table)"
  by (simp add: flag_table_def)

lemma count_filter_le: "distinct (map fst xs) \<Longrightarrow>
   count_list (map (\<lambda>(n, _). CHR ''!'' # n) (filter P xs)) (CHR ''!'' # n) \<le> 1"
  by (induction xs) (force simp: count_list_0_iff)+

lemma flag_bit_unique: "(n, b) \<in> set flag_table \<Longrightarrow> (n, b') \<in> set flag_table \<Longrightarrow> b' = b"
  by (auto simp: flag_table_def)

lemma flag_words_count:
  assumes "(n, b) \<in> set flag_table" shows "count_list (flag_words s ns) (''!'' @ n) \<le> 1"
proof -
  have "count_list (map fst (filter (\<lambda>(_, b). bit s b) flag_table)) (CHR ''!'' # n) = 0"
    unfolding count_list_0_iff using names_not_neg by fastforce
  with count_filter_le [OF distinct_names, of "\<lambda>(_, b). bit ns b" n] show ?thesis
    by (simp add: flag_words_def)
qed

lemma flag_words_neg:
  assumes "(n, b) \<in> set flag_table" shows "''!'' @ n \<in> set (flag_words s ns) \<longleftrightarrow> bit ns b"
proof -
  have "''!'' @ n \<in> set (flag_words s ns) \<longleftrightarrow> (\<exists>b'. (n, b') \<in> set flag_table \<and> bit ns b')"
    by (auto simp: flag_words_def image_iff dest: names_not_neg)
  with assms show ?thesis using flag_bit_unique [OF assms] by blast
qed

lemma flag_words_pos:
  assumes "(n, b) \<in> set flag_table" shows "n \<in> set (flag_words s ns) \<longleftrightarrow> bit s b"
proof -
  have "n \<in> set (flag_words s ns) \<longleftrightarrow> (\<exists>b'. (n, b') \<in> set flag_table \<and> bit s b')"
    using names_not_neg [OF assms] by (auto simp: flag_words_def image_iff)
  with assms show ?thesis using flag_bit_unique [OF assms] by blast
qed

lemma flags_print_parse:
  assumes "s AND ns = 0"
  shows "flags_from_string_to_masks (flags_from_masks_to_string s ns) = Inr (s, ns)"
proof -
  let ?ws = "flag_words s ns"
  let ?neg = "\<lambda>w. \<exists>n b. (n, b) \<in> set flag_table \<and> w = ''!'' @ n"
  let ?ws' = "map (\<lambda>w. if ?neg w then [] else w) ?ws"
  have "foldl neg_flag (unwords ?ws, 0) flag_table =
      (unwords ?ws', foldl (\<lambda>m (n, b). if ''!'' @ n \<in> set ?ws then SET_BIT m b else m) 0 flag_table)"
    by (rule neg_fold [OF subset_refl flag_words_vocab flag_words_count distinct_names])
  also have "foldl (\<lambda>m (n, b). if ''!'' @ n \<in> set ?ws then SET_BIT m b else m) 0 flag_table =
      foldl (\<lambda>m (n, b). if bit ns b then SET_BIT m b else m) 0 flag_table"
    by (intro foldl_cong) (use flag_words_neg in auto)
  finally have neg: "foldl neg_flag (unwords ?ws, 0) flag_table = (unwords ?ws', ns)"
    by (simp only: mask_fold)
  have names: "set ?ws' \<subseteq> set (map fst flag_table @ [[]])"
  proof
    fix w assume "w \<in> set ?ws'"
    then obtain v where v: "v \<in> set ?ws" "w = (if ?neg v then [] else v)"
      unfolding set_map by (rule imageE)
    then show "w \<in> set (map fst flag_table @ [[]])"
      by (cases "?neg v") (auto simp: flag_words_def)
  qed
  have pos: "str_contains n (unwords ?ws') \<longleftrightarrow> bit s b" if nb: "(n, b) \<in> set flag_table" for n b
  proof -
    have sp: "CHR '' '' \<notin> set n"
      using nb vocab_neg by (fastforce simp: list_all_iff)
    have ne: "n \<noteq> []" and char: "\<forall>w \<in> set (map fst flag_table @ [[]]). str_contains n w \<longleftrightarrow> w = n"
      using nb vocab_pos unfolding list_all_iff by blast+
    have "str_contains n (unwords ?ws') \<longleftrightarrow> (\<exists>w \<in> set ?ws'. str_contains n w)"
      by (rule str_contains_unwords [OF sp ne])
    also have "\<dots> \<longleftrightarrow> (\<exists>w \<in> set ?ws'. w = n)"
      by (rule bex_cong [OF refl]) (rule char [rule_format], rule subsetD [OF names])
    also have "\<dots> \<longleftrightarrow> n \<in> set ?ws"
      using names_not_neg [OF nb] ne by (auto simp: image_iff)
    also have "\<dots> \<longleftrightarrow> bit s b" by (rule flag_words_pos [OF nb])
    finally show ?thesis .
  qed
  have "foldl (pos_flag (unwords ?ws')) 0 flag_table =
      foldl (\<lambda>m (n, b). if bit s b then SET_BIT m b else m) 0 flag_table"
    by (intro foldl_cong) (use pos in \<open>auto simp: pos_flag_def\<close>)
  then have "foldl (pos_flag (unwords ?ws')) 0 flag_table = s" by (simp add: mask_fold)
  with neg assms show ?thesis
    unfolding flags_from_string_to_masks_def masks_words Let_def by (simp only: case_prod_conv) simp
qed

section \<open>Rules\<close>

text \<open>\<open>ChainRuleJsonObject\<close>: what a request sets. \<open>cf_id\<close> is the member \<open>m_id\<close>.\<close>

record ChainRuleConf =
  cf_id :: nat
  cf_src :: "string option"
  cf_dst :: "string option"
  cf_l4proto :: "string option"
  cf_sport :: "16 word option"
  cf_dport :: "16 word option"
  cf_tcpflags :: "string option"
  cf_conntrack :: "ConntrackstatusEnum option"
  cf_action :: "ActionEnum option"
  cf_description :: "string option"

record ChainRule =
  rid :: nat
  conntrack :: "ConntrackstatusEnum option"
  ipSrc :: "IpAddr option"
  ipDst :: "IpAddr option"
  srcPort :: "16 word option"
  dstPort :: "16 word option"
  l4Proto :: "int option"
  tcpFlags :: "(8 word \<times> 8 word) option"
  action :: "ActionEnum option"
  description :: "string option"

definition empty_rule :: ChainRule where
  "empty_rule = \<lparr>rid = 0, conntrack = None, ipSrc = None, ipDst = None, srcPort = None, dstPort = None,
     l4Proto = None, tcpFlags = None, action = None, description = None\<rparr>"

definition empty_conf :: ChainRuleConf where
  "empty_conf = \<lparr>cf_id = 0, cf_src = None, cf_dst = None, cf_l4proto = None, cf_sport = None,
     cf_dport = None, cf_tcpflags = None, cf_conntrack = None, cf_action = None,
     cf_description = None\<rparr>"

text \<open>A member that the configuration sets is replaced, after a conversion that may throw.\<close>

definition when_set :: "'c option \<Rightarrow> ('c \<Rightarrow> 's \<Rightarrow> 's result) \<Rightarrow> 's \<Rightarrow> 's result" where
  "when_set c f s = (case c of None \<Rightarrow> Inr s | Some x \<Rightarrow> f x s)"

text \<open>
  \<open>ChainRule::update\<close>. \<open>ct_active\<close> is \<open>isContrackActive()\<close> of the firewall; when it is false a conntrack
  match throws a pointer.
\<close>

definition ChainRule_update :: "bool \<Rightarrow> ChainRuleConf \<Rightarrow> ChainRule \<Rightarrow> ChainRule result" where
  "ChainRule_update ct_active conf r0 =
     rbind (when_set (cf_conntrack conf)
       (\<lambda>c r. if ct_active then Inr (r\<lparr>conntrack := Some c\<rparr>)
              else Inl (RuntimeErrorPtr ''Please enable the connection tracking module.''))
       (r0\<lparr>rid := cf_id conf\<rparr>)) (\<lambda>r.
     rbind (when_set (cf_src conf)
       (\<lambda>c r. rbind (IpAddr_fromString c) (\<lambda>a. Inr (r\<lparr>ipSrc := Some a\<rparr>))) r) (\<lambda>r.
     rbind (when_set (cf_dst conf)
       (\<lambda>c r. rbind (IpAddr_fromString c) (\<lambda>a. Inr (r\<lparr>ipDst := Some a\<rparr>))) r) (\<lambda>r.
     rbind (when_set (cf_sport conf) (\<lambda>c r. Inr (r\<lparr>srcPort := Some c\<rparr>)) r) (\<lambda>r.
     rbind (when_set (cf_dport conf) (\<lambda>c r. Inr (r\<lparr>dstPort := Some c\<rparr>)) r) (\<lambda>r.
     rbind (when_set (cf_tcpflags conf)
       (\<lambda>c r. rbind (flags_from_string_to_masks c) (\<lambda>m. Inr (r\<lparr>tcpFlags := Some m\<rparr>))) r) (\<lambda>r.
     rbind (when_set (cf_l4proto conf)
       (\<lambda>c r. rbind (protocol_from_string_to_int c) (\<lambda>p. Inr (r\<lparr>l4Proto := Some p\<rparr>))) r) (\<lambda>r.
     rbind (when_set (cf_description conf) (\<lambda>c r. Inr (r\<lparr>description := Some c\<rparr>)) r) (\<lambda>r.
     Inr (r\<lparr>action := Some (case cf_action conf of Some a \<Rightarrow> a | None \<Rightarrow> DROP)\<rparr>)))))))))"

definition ChainRule_new :: "bool \<Rightarrow> ChainRuleConf \<Rightarrow> ChainRule result" where
  "ChainRule_new ct_active conf = ChainRule_update ct_active conf (empty_rule\<lparr>rid := cf_id conf\<rparr>)"

definition get_field :: "string \<Rightarrow> 'a option \<Rightarrow> 'a result" where
  "get_field msg f = (case f of None \<Rightarrow> Inl (RuntimeError msg) | Some x \<Rightarrow> Inr x)"

definition getDescription :: "ChainRule \<Rightarrow> string result" where
  "getDescription r = get_field ''Description not set.'' (description r)"

definition getSrc :: "ChainRule \<Rightarrow> string result" where
  "getSrc r = rbind (get_field ''Src not set.'' (ipSrc r)) (\<lambda>a. Inr (IpAddr_toString a))"

definition getDst :: "ChainRule \<Rightarrow> string result" where
  "getDst r = rbind (get_field ''Dst not set.'' (ipDst r)) (\<lambda>a. Inr (IpAddr_toString a))"

definition getSport :: "ChainRule \<Rightarrow> 16 word result" where
  "getSport r = get_field ''SPort not set.'' (srcPort r)"

definition getDport :: "ChainRule \<Rightarrow> 16 word result" where
  "getDport r = get_field ''DPort not set.'' (dstPort r)"

definition getTcpflags :: "ChainRule \<Rightarrow> string result" where
  "getTcpflags r = rbind (get_field ''TcpFlags not set.'' (tcpFlags r))
     (\<lambda>(flagsSet, flagsNotSet). Inr (flags_from_masks_to_string flagsSet flagsNotSet))"

definition getConntrack :: "ChainRule \<Rightarrow> ConntrackstatusEnum result" where
  "getConntrack r = get_field ''Conntrack not set.'' (conntrack r)"

definition getL4proto :: "ChainRule \<Rightarrow> string result" where
  "getL4proto r = rbind (get_field ''L4Proto not set.'' (l4Proto r)) protocol_from_int_to_string"

definition getAction :: "ChainRule \<Rightarrow> ActionEnum result" where
  "getAction r = get_field ''Action not set.'' (action r)"

text \<open>\<open>ChainRule::toJsonObject\<close>: every getter that throws leaves its member unset.\<close>

fun try_get :: "'a result \<Rightarrow> 'a option" where
  "try_get (Inl e) = None"
| "try_get (Inr x) = Some x"

definition ChainRule_toJsonObject :: "ChainRule \<Rightarrow> ChainRuleConf" where
  "ChainRule_toJsonObject r = \<lparr>cf_id = rid r, cf_src = try_get (getSrc r), cf_dst = try_get (getDst r),
     cf_l4proto = try_get (getL4proto r), cf_sport = try_get (getSport r), cf_dport = try_get (getDport r),
     cf_tcpflags = try_get (getTcpflags r), cf_conntrack = try_get (getConntrack r),
     cf_action = try_get (getAction r), cf_description = try_get (getDescription r)\<rparr>"

text \<open>\<open>ChainRule::equal\<close> compares everything but the rule number and the description.\<close>

definition ChainRule_equal :: "ChainRule \<Rightarrow> ChainRule \<Rightarrow> bool" where
  "ChainRule_equal r cmp \<longleftrightarrow>
     map_option IpAddr_toString (ipSrc r) = map_option IpAddr_toString (ipSrc cmp) \<and>
     map_option IpAddr_toString (ipDst r) = map_option IpAddr_toString (ipDst cmp) \<and>
     srcPort r = srcPort cmp \<and> dstPort r = dstPort cmp \<and> l4Proto r = l4Proto cmp \<and>
     tcpFlags r = tcpFlags cmp \<and> action r = action cmp \<and> conntrack r = conntrack cmp"

section \<open>Well-formed rules\<close>

text \<open>What the constructor establishes of every rule it accepts.\<close>

definition rule_ok :: "ChainRule \<Rightarrow> bool" where
  "rule_ok r \<longleftrightarrow>
     pred_option (\<lambda>a. ia_netmask a \<le> 32) (ipSrc r) \<and>
     pred_option (\<lambda>a. ia_netmask a \<le> 32) (ipDst r) \<and>
     pred_option supported_protocol (l4Proto r) \<and>
     pred_option (\<lambda>(s, ns). s AND ns = 0) (tcpFlags r) \<and>
     action r \<noteq> None"

lemma flags_from_string_disjoint:
  "flags_from_string_to_masks s = Inr (a, b) \<Longrightarrow> a AND b = 0"
  by (auto simp: flags_from_string_to_masks_def Let_def split: prod.splits if_splits)

definition fields_ok :: "nat \<Rightarrow> ChainRule \<Rightarrow> bool" where
  "fields_ok i r \<longleftrightarrow> rid r = i \<and>
     pred_option (\<lambda>a. ia_netmask a \<le> 32) (ipSrc r) \<and>
     pred_option (\<lambda>a. ia_netmask a \<le> 32) (ipDst r) \<and>
     pred_option supported_protocol (l4Proto r) \<and>
     pred_option (\<lambda>(s, ns). s AND ns = 0) (tcpFlags r)"

lemma when_set_keeps:
  assumes "when_set c f s = Inr s'" and "P s" and "\<And>x. f x s = Inr s' \<Longrightarrow> P s'"
  shows "P s'"
  using assms by (auto simp: when_set_def split: option.splits)

lemma ChainRule_update_ok:
  assumes upd: "ChainRule_update ct conf r0 = Inr r" and "fields_ok (cf_id conf) (r0\<lparr>rid := cf_id conf\<rparr>)"
  shows "rule_ok r \<and> rid r = cf_id conf"
proof -
  let ?P = "fields_ok (cf_id conf)"
  from upd obtain r1 r2 r3 r4 r5 r6 r7 r8 where steps:
    "when_set (cf_conntrack conf)
       (\<lambda>c r. if ct then Inr (r\<lparr>conntrack := Some c\<rparr>)
              else Inl (RuntimeErrorPtr ''Please enable the connection tracking module.''))
       (r0\<lparr>rid := cf_id conf\<rparr>) = Inr r1"
    "when_set (cf_src conf) (\<lambda>c r. rbind (IpAddr_fromString c) (\<lambda>a. Inr (r\<lparr>ipSrc := Some a\<rparr>))) r1 = Inr r2"
    "when_set (cf_dst conf) (\<lambda>c r. rbind (IpAddr_fromString c) (\<lambda>a. Inr (r\<lparr>ipDst := Some a\<rparr>))) r2 = Inr r3"
    "when_set (cf_sport conf) (\<lambda>c r. Inr (r\<lparr>srcPort := Some c\<rparr>)) r3 = Inr r4"
    "when_set (cf_dport conf) (\<lambda>c r. Inr (r\<lparr>dstPort := Some c\<rparr>)) r4 = Inr r5"
    "when_set (cf_tcpflags conf)
       (\<lambda>c r. rbind (flags_from_string_to_masks c) (\<lambda>m. Inr (r\<lparr>tcpFlags := Some m\<rparr>))) r5 = Inr r6"
    "when_set (cf_l4proto conf)
       (\<lambda>c r. rbind (protocol_from_string_to_int c) (\<lambda>p. Inr (r\<lparr>l4Proto := Some p\<rparr>))) r6 = Inr r7"
    "when_set (cf_description conf) (\<lambda>c r. Inr (r\<lparr>description := Some c\<rparr>)) r7 = Inr r8"
    and r: "r = r8\<lparr>action := Some (case cf_action conf of Some a \<Rightarrow> a | None \<Rightarrow> DROP)\<rparr>"
    unfolding ChainRule_update_def rbind_Inr_conv by blast
  have "?P r1" by (rule when_set_keeps [OF steps(1)])
      (use assms(2) in \<open>auto simp: fields_ok_def split: if_splits\<close>)
  then have "?P r2" by (rule when_set_keeps [OF steps(2)])
      (use \<open>?P r1\<close> in \<open>auto simp: fields_ok_def res_simps IpAddr_fromString_netmask\<close>)
  then have "?P r3" by (rule when_set_keeps [OF steps(3)])
      (use \<open>?P r2\<close> in \<open>auto simp: fields_ok_def res_simps IpAddr_fromString_netmask\<close>)
  then have "?P r4" by (rule when_set_keeps [OF steps(4)])
      (use \<open>?P r3\<close> in \<open>auto simp: fields_ok_def\<close>)
  then have "?P r5" by (rule when_set_keeps [OF steps(5)])
      (use \<open>?P r4\<close> in \<open>auto simp: fields_ok_def\<close>)
  then have "?P r6" by (rule when_set_keeps [OF steps(6)])
      (use \<open>?P r5\<close> in \<open>auto simp: fields_ok_def res_simps flags_from_string_disjoint\<close>)
  then have "?P r7" by (rule when_set_keeps [OF steps(7)])
      (use \<open>?P r6\<close> in \<open>auto simp: fields_ok_def res_simps protocol_from_string_supported\<close>)
  then have "?P r8" by (rule when_set_keeps [OF steps(8)])
      (use \<open>?P r7\<close> in \<open>auto simp: fields_ok_def\<close>)
  then show ?thesis by (simp add: r fields_ok_def rule_ok_def)
qed

lemma ChainRule_new_ok: "ChainRule_new ct conf = Inr r \<Longrightarrow> rule_ok r \<and> rid r = cf_id conf"
  unfolding ChainRule_new_def by (erule ChainRule_update_ok) (simp add: empty_rule_def fields_ok_def)

text \<open>With connection tracking active, everything a bad request throws is a \<open>std::exception\<close>.\<close>

definition throws_std :: "'a result \<Rightarrow> bool" where
  "throws_std m \<longleftrightarrow> (\<forall>e. m = Inl e \<longrightarrow> std_exception e)"

lemma throws_std_rbind: "throws_std m \<Longrightarrow> (\<And>x. throws_std (f x)) \<Longrightarrow> throws_std (rbind m f)"
  by (cases m) (simp_all add: throws_std_def)

lemma throws_std_simps [simp]: "throws_std (Inr x)" "throws_std (Inl e) = std_exception e"
  by (simp_all add: throws_std_def)

lemma parse_throws_std [simp]:
  "throws_std (stol t)" "throws_std (ip_string_to_nbo_uint t)" "throws_std (IpAddr_fromString t)"
  "throws_std (flags_from_string_to_masks t)" "throws_std (protocol_from_string_to_int t)"
proof -
  show st: "throws_std (stol t)" for t by (simp add: stol_def Let_def split: prod.split)
  show ip: "throws_std (ip_string_to_nbo_uint t)" for t
    by (simp add: ip_string_to_nbo_uint_def split: option.split prod.split list.split)
  show "throws_std (IpAddr_fromString t)" unfolding IpAddr_fromString_def
    by (intro throws_std_rbind) (auto intro!: throws_std_rbind simp: st ip)
  show "throws_std (flags_from_string_to_masks t)" by (simp add: flags_from_string_to_masks_def Let_def split: prod.split)
  show "throws_std (protocol_from_string_to_int t)" by (simp add: protocol_from_string_to_int_def)
qed

lemma throws_std_when_set: "(\<And>c. throws_std (f c r)) \<Longrightarrow> throws_std (when_set x f r)"
  by (cases x) (simp_all add: when_set_def)

lemma ChainRule_new_throws: "throws_std (ChainRule_new True conf)"
  unfolding ChainRule_new_def ChainRule_update_def
  by (intro throws_std_rbind throws_std_when_set) (auto intro!: throws_std_rbind)

end
