(* ===== verification/Fw_Maps.thy ===== *)
theory Fw_Maps
  imports Fw_Rule
begin

text \<open>
  From rules to match tables: the \<open>...FromRulesToMap\<close> functions of \<open>pcn-firewall/src/Utils.cpp\<close>.
  Each turns the rule list into a table that gives, for a value of one header field, the bit vector
  of the rules that accept the value. A \<open>catch (std::runtime_error)\<close> around a getter is a case
  distinction on its result: the getters of a well-formed rule throw nothing else.
\<close>

section \<open>Sets of rules\<close>

definition rules_where :: "(ChainRule \<Rightarrow> bool) \<Rightarrow> ChainRule list \<Rightarrow> nat set" where
  "rules_where P rules = {i. i < length rules \<and> P (rules ! i)}"

text \<open>The rule numbers of a chain are the positions, and the chain fits in a bit vector.\<close>

definition chain_ok :: "ChainRule list \<Rightarrow> bool" where
  "chain_ok rules \<longleftrightarrow> map rid rules = [0..<length rules] \<and> list_all rule_ok rules \<and> length rules \<le> maxRules"

lemma chain_ok_rid: "chain_ok rules \<Longrightarrow> i < length rules \<Longrightarrow> rid (rules ! i) = i"
  by (metis add_0 chain_ok_def nth_map nth_upt)

lemma chain_ok_rule: "chain_ok rules \<Longrightarrow> i < length rules \<Longrightarrow> rule_ok (rules ! i)"
  by (simp add: chain_ok_def list_all_length)

lemma chain_ok_range:
  assumes "chain_ok rules" "r \<in> set rules" shows "rid r div 63 < FROM_NRULES_TO_NELEMENTS maxRules"
proof -
  from assms(2) obtain i where i: "i < length rules" "r = rules ! i" by (auto simp: in_set_conv_nth)
  with assms(1) have "rid r = i" and "i < maxRules" by (auto simp: chain_ok_rid chain_ok_def)
  then show ?thesis by (auto intro: rule_bit_in_range)
qed

lemma rid_image_rules_where:
  "chain_ok rules \<Longrightarrow> rid ` {r \<in> set rules. P r} = rules_where P rules"
  unfolding rules_where_def
  by (auto simp: in_set_conv_nth chain_ok_rid image_iff) (metis chain_ok_rid)

lemma rules_where_cong:
  "chain_ok rules \<Longrightarrow> (\<And>r. rule_ok r \<Longrightarrow> r \<in> set rules \<Longrightarrow> P r = Q r) \<Longrightarrow>
   rules_where P rules = rules_where Q rules"
  by (auto simp: rules_where_def chain_ok_rule)

lemma foldl_set_rule_bit:
  assumes "\<And>r. r \<in> set rules \<Longrightarrow> rid r div 63 < length bv"
  shows "bv_set (foldl (\<lambda>bv r. if P r then set_rule_bit bv (rid r) else bv) bv rules) =
      bv_set bv \<union> rid ` {r \<in> set rules. P r}"
    and "length (foldl (\<lambda>bv r. if P r then set_rule_bit bv (rid r) else bv) bv rules) = length bv"
    and "bv_ok bv \<Longrightarrow> bv_ok (foldl (\<lambda>bv r. if P r then set_rule_bit bv (rid r) else bv) bv rules)"
  using assms
proof (induction rules arbitrary: bv)
  case (Cons r rules)
  { case 1 with Cons show ?case by (auto simp: bv_simps) }
  { case 2 with Cons show ?case by simp }
  { case 3 with Cons show ?case by simp }
qed simp_all

text \<open>What every table entry satisfies: a full-length vector that stands for a given set of rules.\<close>

definition entry_for :: "nat set \<Rightarrow> elements \<Rightarrow> bool" where
  "entry_for S bv \<longleftrightarrow> length bv = FROM_NRULES_TO_NELEMENTS maxRules \<and> bv_ok bv \<and> bv_set bv = S"

lemma entry_for_foldl:
  assumes "chain_ok rules"
  shows "entry_for (rules_where P rules)
    (foldl (\<lambda>bv r. if P r then set_rule_bit bv (rid r) else bv) zero_bitVector rules)"
  using foldl_set_rule_bit [of rules zero_bitVector P] chain_ok_range [OF assms]
  by (simp add: entry_for_def bv_set_zero rid_image_rules_where [OF assms])

section \<open>IP addresses\<close>

definition rule_ip :: "Type \<Rightarrow> ChainRule \<Rightarrow> IpAddr result" where
  "rule_ip type rule =
     rbind (case type of SOURCE_TYPE \<Rightarrow> getSrc rule | DESTINATION_TYPE \<Rightarrow> getDst rule) IpAddr_fromString"

text \<open>\<open>current_rule_ip.fromString("0.0.0.0/0")\<close>, for a rule that does not look at the address.\<close>

definition wildcard_ip :: IpAddr where
  "wildcard_ip = IpAddr 0 0"

lemma wildcard_ip_fromString: "IpAddr_fromString ''0.0.0.0/0'' = Inr wildcard_ip"
proof -
  have "IpAddr_toString wildcard_ip = ''0.0.0.0/0''"
    by (simp add: IpAddr_toString_def wildcard_ip_def nbo_uint_to_ip_string_def octet_def dec.simps
        digit_def char_of_def bit_0)
  moreover have "IpAddr_fromString (IpAddr_toString wildcard_ip) = Inr wildcard_ip"
    by (rule IpAddr_print_parse) (simp add: wildcard_ip_def)
  ultimately show ?thesis by simp
qed

definition rule_ip_or_wildcard :: "Type \<Rightarrow> ChainRule \<Rightarrow> IpAddr" where
  "rule_ip_or_wildcard type rule = (case rule_ip type rule of Inl e \<Rightarrow> wildcard_ip | Inr a \<Rightarrow> a)"

definition netmask_bits :: "8 word \<Rightarrow> 32 word" where
  "netmask_bits netmask = (if netmask = 32 then 0xffffffff else push_bit (unat netmask) 1 - 1)"

text \<open>The test of the inner loop: may \<open>rule_addr\<close> stand for every packet that hits \<open>address\<close>?\<close>

definition ip_covers :: "IpAddr \<Rightarrow> IpAddr \<Rightarrow> bool" where
  "ip_covers address rule_addr \<longleftrightarrow>
     (let m = netmask_bits (ia_netmask rule_addr) in
      ia_ip address AND m = ia_ip rule_addr AND m \<and> ia_netmask rule_addr \<le> ia_netmask address)"

fun ip_collect :: "Type \<Rightarrow> (IpAddr, elements) smap \<times> nat list \<Rightarrow> ChainRule \<Rightarrow>
    (IpAddr, elements) smap \<times> nat list" where
  "ip_collect type (ips, dont_care_rules) rule =
     (case rule_ip type rule of
        Inl e \<Rightarrow> (ips, dont_care_rules @ [rid rule])
      | Inr current \<Rightarrow>
          (case smap_find ips current of
             None \<Rightarrow> (smap_insert current zero_bitVector ips, dont_care_rules)
           | Some bv \<Rightarrow> (ips, dont_care_rules)))"

definition ip_bitVector :: "Type \<Rightarrow> ChainRule list \<Rightarrow> IpAddr \<Rightarrow> elements \<Rightarrow> elements" where
  "ip_bitVector type rules address bitVector =
     foldl (\<lambda>bv rule. if ip_covers address (rule_ip_or_wildcard type rule)
                       then set_rule_bit bv (rid rule) else bv) bitVector rules"

definition ipFromRulesToMap :: "Type \<Rightarrow> ChainRule list \<Rightarrow> (IpAddr, elements) smap \<times> bool" where
  "ipFromRulesToMap type rules =
     (let (keys, dont_care_rules) = foldl (ip_collect type) ([], []) rules;
          ips = map (\<lambda>(address, bv). (address, ip_bitVector type rules address bv)) keys
      in if ips \<noteq> [] \<and> dont_care_rules \<noteq> []
         then (smap_insert wildcard_ip (ip_bitVector type rules wildcard_ip zero_bitVector) ips, False)
         else (ips, True))"

abbreviation rule_addr :: "Type \<Rightarrow> ChainRule \<Rightarrow> IpAddr option" where
  "rule_addr type r \<equiv> (case type of SOURCE_TYPE \<Rightarrow> ipSrc r | DESTINATION_TYPE \<Rightarrow> ipDst r)"

lemma rule_ip_ok:
  "rule_ok r \<Longrightarrow> rule_ip type r =
     (case rule_addr type r of
        None \<Rightarrow> Inl (RuntimeError (case type of SOURCE_TYPE \<Rightarrow> ''Src not set.'' | DESTINATION_TYPE \<Rightarrow> ''Dst not set.''))
      | Some a \<Rightarrow> Inr a)"
  by (cases type)
    (auto simp: rule_ip_def getSrc_def getDst_def get_field_def rule_ok_def IpAddr_print_parse split: option.splits)

lemma rule_ip_or_wildcard_ok:
  "rule_ok r \<Longrightarrow> rule_ip_or_wildcard type r = (case rule_addr type r of None \<Rightarrow> wildcard_ip | Some a \<Rightarrow> a)"
  by (auto simp: rule_ip_or_wildcard_def rule_ip_ok split: option.splits)

lemma ip_collect_foldl:
  assumes "list_all rule_ok rules"
  shows "case foldl (ip_collect type) ([], []) rules of (keys, dc) \<Rightarrow>
    smap_ok keys \<and> fst ` set keys = {a. \<exists>r \<in> set rules. rule_addr type r = Some a} \<and>
    snd ` set keys \<subseteq> {zero_bitVector} \<and>
    (dc = [] \<longleftrightarrow> (\<forall>r \<in> set rules. rule_addr type r \<noteq> None))"
  using assms
proof (induction rules rule: rev_induct)
  case (snoc r rules)
  obtain keys dc where st: "foldl (ip_collect type) ([], []) rules = (keys, dc)" by fastforce
  have ok: "rule_ok r" and IH: "smap_ok keys"
      "fst ` set keys = {a. \<exists>r \<in> set rules. rule_addr type r = Some a}"
      "snd ` set keys \<subseteq> {zero_bitVector}" "dc = [] \<longleftrightarrow> (\<forall>r \<in> set rules. rule_addr type r \<noteq> None)"
    using snoc by (auto simp: st)
  show ?case
  proof (cases "rule_addr type r")
    case None
    with ok IH st show ?thesis by (auto simp: rule_ip_ok)
  next
    case (Some a)
    have "snd ` set (smap_insert a zero_bitVector keys) \<subseteq> {zero_bitVector}"
      using image_mono [OF set_smap_insert_subset, of snd a zero_bitVector keys] IH(3) by auto
    moreover have "{x. \<exists>r' \<in> set (rules @ [r]). rule_addr type r' = Some x} = insert a (fst ` set keys)"
      using Some IH(2) by auto
    moreover have "map_of keys a \<noteq> None \<Longrightarrow> insert a (fst ` set keys) = fst ` set keys"
      by (auto simp: map_of_eq_None_iff)
    moreover have "(\<forall>r' \<in> set (rules @ [r]). rule_addr type r' \<noteq> None) \<longleftrightarrow> dc = []"
      using Some IH(4) by auto
    ultimately show ?thesis
      using Some ok IH(1,3) st
      by (cases "map_of keys a") (simp_all add: rule_ip_ok keys_smap_insert smap_ok_insert)
  qed
qed simp

text \<open>
  The address table: its keys are the addresses the rules name and, if some rule names none, the
  wildcard; each entry holds exactly the rules whose address covers the key.
\<close>

lemma ipFromRulesToMap_keys:
  assumes "chain_ok rules" and "ipFromRulesToMap type rules = (ips, brk)"
  shows "fst ` set ips = (if \<forall>r \<in> set rules. rule_addr type r = None then {}
     else (\<lambda>r. case rule_addr type r of None \<Rightarrow> wildcard_ip | Some a \<Rightarrow> a) ` set rules)"
proof -
  obtain keys dc where st: "foldl (ip_collect type) ([], []) rules = (keys, dc)" by fastforce
  have rok: "list_all rule_ok rules" using assms(1) by (simp add: chain_ok_def)
  note col = ip_collect_foldl [OF rok, of type, unfolded st, simplified]
  have keysf: "fst ` set (map (\<lambda>(address, bv). (address, ip_bitVector type rules address bv)) keys) = fst ` set keys"
    by (force simp: image_iff)
  have none: "keys = [] \<longleftrightarrow> (\<forall>r \<in> set rules. rule_addr type r = None)"
    using col by (auto simp: set_empty [symmetric] simp del: set_empty)
  let ?addr = "\<lambda>r. case rule_addr type r of None \<Rightarrow> wildcard_ip | Some a \<Rightarrow> a"
  have all: "dc = [] \<Longrightarrow> ?addr ` set rules = {a. \<exists>r \<in> set rules. rule_addr type r = Some a}"
    unfolding image_case_option using col by auto
  have some: "dc \<noteq> [] \<Longrightarrow> ?addr ` set rules = insert wildcard_ip {a. \<exists>r \<in> set rules. rule_addr type r = Some a}"
    unfolding image_case_option using col by auto
  show ?thesis
  proof (cases "keys = []")
    case True
    with assms(2) none show ?thesis by (auto simp: ipFromRulesToMap_def st)
  next
    case False
    let ?m = "map (\<lambda>(address, bv). (address, ip_bitVector type rules address bv)) keys"
    let ?w = "ip_bitVector type rules wildcard_ip zero_bitVector"
    have ips: "ips = (if dc = [] then ?m else smap_insert wildcard_ip ?w ?m)"
      using assms(2) False by (simp add: ipFromRulesToMap_def st Let_def split: if_splits)
    have "fst ` set ips = (if dc = [] then fst ` set keys else insert wildcard_ip (fst ` set keys))"
      unfolding ips if_distrib [of "\<lambda>m. fst ` set m"] keys_smap_insert keysf ..
    with none False col all some show ?thesis by (cases "dc = []") simp_all
  qed
qed

lemma ipFromRulesToMap_entries:
  assumes "chain_ok rules" and "ipFromRulesToMap type rules = (ips, brk)" and "(a, bv) \<in> set ips"
  shows "entry_for (rules_where (\<lambda>r. ip_covers a (rule_ip_or_wildcard type r)) rules) bv"
proof -
  obtain keys dc where st: "foldl (ip_collect type) ([], []) rules = (keys, dc)" by fastforce
  have rok: "list_all rule_ok rules" using assms(1) by (simp add: chain_ok_def)
  have zero: "snd ` set keys \<subseteq> {zero_bitVector}"
    using ip_collect_foldl [OF rok, of type] by (simp add: st)
  have "bv = ip_bitVector type rules a zero_bitVector"
    using assms(2,3) zero set_smap_insert_subset [of wildcard_ip, THEN subsetD]
    by (fastforce simp: ipFromRulesToMap_def st Let_def split: if_splits)
  then show ?thesis
    unfolding ip_bitVector_def by (simp add: entry_for_foldl [OF assms(1)])
qed

lemma ipFromRulesToMap_smap_ok:
  assumes "chain_ok rules" shows "smap_ok (fst (ipFromRulesToMap type rules))"
proof -
  obtain keys dc where st: "foldl (ip_collect type) ([], []) rules = (keys, dc)" by fastforce
  have "smap_ok keys"
    using ip_collect_foldl [of rules type] assms by (simp add: st chain_ok_def)
  then have "smap_ok (map (\<lambda>(address, bv). (address, ip_bitVector type rules address bv)) keys)"
    by (simp add: smap_ok_def case_prod_beta comp_def)
  then show ?thesis by (auto simp: ipFromRulesToMap_def st Let_def)
qed

section \<open>Protocols and ports\<close>

text \<open>
  \<open>transportProtoFromRulesToMap\<close> and \<open>portFromRulesToMap\<close> have the same shape: a first loop collects
  the keys and sets the bits, a second one adds the rules without a key to every entry, under the
  key 0 too.
\<close>

fun keyed_step :: "(ChainRule \<Rightarrow> 'k::linorder result) \<Rightarrow> ('k, elements) smap \<times> nat list \<Rightarrow> ChainRule \<Rightarrow>
    ('k, elements) smap \<times> nat list" where
  "keyed_step key (m, dont_care_rules) rule =
     (case key rule of
        Inl e \<Rightarrow> (m, dont_care_rules @ [rid rule])
      | Inr k \<Rightarrow>
          (case smap_find m k of
             None \<Rightarrow> (smap_insert k (set_rule_bit zero_bitVector (rid rule)) m, dont_care_rules)
           | Some bv \<Rightarrow> (smap_update k (\<lambda>bv. set_rule_bit bv (rid rule)) m, dont_care_rules)))"

definition set_in_all :: "('k, elements) smap \<Rightarrow> nat \<Rightarrow> ('k, elements) smap" where
  "set_in_all m ruleNumber = smap_map (\<lambda>bv. set_rule_bit bv ruleNumber) m"

definition keyedFromRulesToMap :: "(ChainRule \<Rightarrow> 'k result) \<Rightarrow> 'k::linorder \<Rightarrow> ChainRule list \<Rightarrow>
    ('k, elements) smap \<times> bool" where
  "keyedFromRulesToMap key wildcard rules =
     (let (m, dont_care_rules) = foldl (keyed_step key) ([], []) rules
      in if m \<noteq> [] \<and> dont_care_rules \<noteq> []
         then (foldl set_in_all (smap_insert wildcard zero_bitVector m) dont_care_rules, False)
         else (m, True))"

definition rule_proto :: "ChainRule \<Rightarrow> int result" where
  "rule_proto rule = rbind (getL4proto rule) protocol_from_string_to_int"

definition transportProtoFromRulesToMap :: "ChainRule list \<Rightarrow> (int, elements) smap \<times> bool" where
  "transportProtoFromRulesToMap rules = keyedFromRulesToMap rule_proto 0 rules"

definition rule_port_of :: "Type \<Rightarrow> ChainRule \<Rightarrow> 16 word result" where
  "rule_port_of type rule = (case type of SOURCE_TYPE \<Rightarrow> getSport rule | DESTINATION_TYPE \<Rightarrow> getDport rule)"

definition portFromRulesToMap :: "Type \<Rightarrow> ChainRule list \<Rightarrow> (16 word, elements) smap \<times> bool" where
  "portFromRulesToMap type rules = keyedFromRulesToMap (rule_port_of type) 0 rules"

text \<open>A getter that reads an optional member: it throws exactly when the member is not set.\<close>

definition reads :: "(ChainRule \<Rightarrow> 'k result) \<Rightarrow> (ChainRule \<Rightarrow> 'k option) \<Rightarrow> ChainRule list \<Rightarrow> bool" where
  "reads key fld rules \<longleftrightarrow> (\<forall>r \<in> set rules. try_get (key r) = fld r)"

lemma reads_cases:
  assumes "reads key fld rules" "r \<in> set rules"
  obtains e where "key r = Inl e" "fld r = None" | k where "key r = Inr k" "fld r = Some k"
  using assms by (cases "key r") (auto simp: reads_def)

lemma keyed_foldl:
  assumes "reads key fld rules" and "\<forall>r \<in> set rules. rid r div 63 < FROM_NRULES_TO_NELEMENTS maxRules"
    and "foldl (keyed_step key) ([], []) rules = (m, dc)"
  shows "smap_ok m \<and> fst ` set m = {k. \<exists>r \<in> set rules. fld r = Some k} \<and>
    (\<forall>k bv. map_of m k = Some bv \<longrightarrow> entry_for (rid ` {r \<in> set rules. fld r = Some k}) bv) \<and>
    dc = map rid (filter (\<lambda>r. fld r = None) rules)"
  using assms
proof (induction rules arbitrary: m dc rule: rev_induct)
  case (snoc r rules)
  obtain m0 dc0 where st: "foldl (keyed_step key) ([], []) rules = (m0, dc0)" by fastforce
  have rd: "reads key fld rules" using snoc.prems(1) by (simp add: reads_def)
  have small: "rid r div 63 < FROM_NRULES_TO_NELEMENTS maxRules" using snoc.prems(2) by simp
  have IH: "smap_ok m0" "fst ` set m0 = {k. \<exists>r \<in> set rules. fld r = Some k}"
      "\<And>k bv. map_of m0 k = Some bv \<Longrightarrow> entry_for (rid ` {r \<in> set rules. fld r = Some k}) bv"
      "dc0 = map rid (filter (\<lambda>r. fld r = None) rules)"
    using snoc.IH [OF rd _ st] snoc.prems(2) by auto
  have dom: "map_of m0 k = None \<longleftrightarrow> {r \<in> set rules. fld r = Some k} = {}" for k
    unfolding map_of_eq_None_iff IH(2) by auto
  have r_in: "r \<in> set (rules @ [r])" by simp
  have split: "{x \<in> set (rules @ [r]). fld x = Some k} =
      (if fld r = Some k then insert r {x \<in> set rules. fld x = Some k} else {x \<in> set rules. fld x = Some k})" for k
    by auto
  show ?case
  proof (cases rule: reads_cases [OF snoc.prems(1) r_in])
    case (1 e)
    with snoc.prems(3) st have "m = m0" "dc = dc0 @ [rid r]" by auto
    moreover have "{x \<in> set (rules @ [r]). fld x = Some k} = {x \<in> set rules. fld x = Some k}" for k
      using 1 by auto
    moreover have "{k. \<exists>x \<in> set (rules @ [r]). fld x = Some k} = {k. \<exists>x \<in> set rules. fld x = Some k}"
      using 1 by auto
    ultimately show ?thesis using IH 1 by (simp only: filter_append) simp
  next
    case (2 k)
    have keys: "{k'. \<exists>x \<in> set (rules @ [r]). fld x = Some k'} = insert k (fst ` set m0)"
      using 2 IH(2) by auto
    have dc: "map rid (filter (\<lambda>r. fld r = None) (rules @ [r])) = dc0" using 2 IH(4) by simp
    show ?thesis
    proof (cases "map_of m0 k")
      case None
      then have m: "m = smap_insert k (set_rule_bit zero_bitVector (rid r)) m0" "dc = dc0"
        using 2 snoc.prems(3) st by auto
      have "entry_for (rid ` {x \<in> set (rules @ [r]). fld x = Some k'}) bv" if "map_of m k' = Some bv" for k' bv
        using that None dom [of k] IH(1) IH(3) [of k' bv] 2 small
        by (auto simp: m map_of_smap_insert split entry_for_def bv_simps split: if_splits)
      then show ?thesis
        using IH(1) keys dc by (simp add: m keys_smap_insert smap_ok_insert)
    next
      case (Some bv0)
      then have m: "m = smap_update k (\<lambda>bv. set_rule_bit bv (rid r)) m0" "dc = dc0"
        using 2 snoc.prems(3) st by auto
      have "entry_for (rid ` {x \<in> set (rules @ [r]). fld x = Some k'}) bv" if "map_of m k' = Some bv" for k' bv
        using that Some IH(3) [of k'] 2 small
        by (auto simp: m map_of_smap_update split entry_for_def bv_simps split: if_splits)
      moreover have "fst ` set m = fst ` set m0"
        unfolding m by (metis keys_smap_update set_map)
      moreover have "k \<in> fst ` set m0" using Some by (metis map_of_eq_None_iff option.distinct(1))
      ultimately show ?thesis
        using IH(1) keys dc by (simp add: m insert_absorb)
    qed
  qed
qed auto

lemma set_in_all_foldl:
  assumes "map_of (foldl set_in_all m ns) k = Some bv"
  shows "\<exists>bv0. map_of m k = Some bv0 \<and> bv = foldl set_rule_bit bv0 ns"
  using assms
proof (induction ns arbitrary: m)
  case (Cons n ns)
  then obtain bv1 where "map_of (set_in_all m n) k = Some bv1" "bv = foldl set_rule_bit bv1 ns" by auto
  then show ?case by (auto simp: set_in_all_def map_of_smap_map)
qed simp

lemma foldl_set_rule_bit_all:
  "\<forall>n \<in> set ns. n div 63 < length bv \<Longrightarrow>
   bv_set (foldl set_rule_bit bv ns) = bv_set bv \<union> set ns \<and> length (foldl set_rule_bit bv ns) = length bv"
  by (induction ns arbitrary: bv) (auto simp: bv_simps)

lemma keys_set_in_all: "map fst (foldl set_in_all m ns) = map fst m"
  by (induction ns arbitrary: m) (simp_all add: set_in_all_def keys_smap_map)

lemma smap_ok_set_in_all: "smap_ok (foldl set_in_all m ns) = smap_ok m"
  by (simp add: smap_ok_def keys_set_in_all)

lemma key_set_set_in_all: "fst ` set (foldl set_in_all m ns) = fst ` set m"
  using arg_cong [OF keys_set_in_all, of set] by (simp only: set_map)

text \<open>
  The tables of protocols and ports: an entry holds the rules that name its key or no key, provided
  no rule names the wildcard key 0 itself.
\<close>

lemma keyedFromRulesToMap_spec:
  assumes ok: "chain_ok rules" and rd: "reads key fld rules"
    and res: "keyedFromRulesToMap key wildcard rules = (m, brk)"
  shows "smap_ok m"
    and "fst ` set m = (if \<forall>r \<in> set rules. fld r = None then {}
      else (\<lambda>r. case fld r of None \<Rightarrow> wildcard | Some k \<Rightarrow> k) ` set rules)"
    and "\<And>k bv. map_of m k = Some bv \<Longrightarrow> entry_for (rules_where (\<lambda>r. fld r = Some k \<or> fld r = None) rules) bv"
    and "brk \<longleftrightarrow> (\<forall>r \<in> set rules. fld r = None) \<or> (\<forall>r \<in> set rules. fld r \<noteq> None)"
proof -
  obtain m0 dc where st: "foldl (keyed_step key) ([], []) rules = (m0, dc)" by fastforce
  have small: "\<forall>r \<in> set rules. rid r div 63 < FROM_NRULES_TO_NELEMENTS maxRules"
    using chain_ok_range [OF ok] by blast
  note F = keyed_foldl [OF rd small st]
  have F2: "fst ` set m0 = {k. \<exists>r \<in> set rules. fld r = Some k}"
    and F4: "dc = map rid (filter (\<lambda>r. fld r = None) rules)" using F by blast+
  have "m0 = [] \<longleftrightarrow> fst ` set m0 = {}" by simp
  then have none: "m0 = [] \<longleftrightarrow> (\<forall>r \<in> set rules. fld r = None)"
    unfolding F2 by auto (metis not_Some_eq)
  have dc: "dc = [] \<longleftrightarrow> (\<forall>r \<in> set rules. fld r \<noteq> None)" and dcs: "set dc = rid ` {r \<in> set rules. fld r = None}"
    unfolding F4 by (auto simp: filter_empty_conv)
  have m: "m = (if m0 \<noteq> [] \<and> dc \<noteq> [] then foldl set_in_all (smap_insert wildcard zero_bitVector m0) dc else m0)"
    and brk: "brk \<longleftrightarrow> \<not> (m0 \<noteq> [] \<and> dc \<noteq> [])"
    using res by (auto simp: keyedFromRulesToMap_def st split: if_splits)
  show "brk \<longleftrightarrow> (\<forall>r \<in> set rules. fld r = None) \<or> (\<forall>r \<in> set rules. fld r \<noteq> None)"
    using brk none dc by blast
  have ok0: "smap_ok m0" using F by blast
  show "smap_ok m" using ok0 by (simp add: m smap_ok_set_in_all smap_ok_insert)
  have keys: "fst ` set m = (if m0 \<noteq> [] \<and> dc \<noteq> [] then insert wildcard (fst ` set m0) else fst ` set m0)"
    unfolding m if_distrib [of "\<lambda>m. fst ` set m"] key_set_set_in_all keys_smap_insert ..
  let ?key = "\<lambda>r. case fld r of None \<Rightarrow> wildcard | Some k \<Rightarrow> k"
  have "dc = [] \<Longrightarrow> ?key ` set rules = {k. \<exists>r \<in> set rules. fld r = Some k}"
    unfolding dc image_case_option by auto
  moreover have "dc \<noteq> [] \<Longrightarrow> ?key ` set rules = insert wildcard {k. \<exists>r \<in> set rules. fld r = Some k}"
    unfolding dc image_case_option by auto
  ultimately show "fst ` set m = (if \<forall>r \<in> set rules. fld r = None then {} else ?key ` set rules)"
    unfolding keys none [symmetric] F2 [symmetric] by (cases "dc = []") simp_all
  fix k bv assume bv: "map_of m k = Some bv"
  let ?E = "{r \<in> set rules. fld r = Some k}" and ?N = "{r \<in> set rules. fld r = None}"
  have goal: "rules_where (\<lambda>r. fld r = Some k \<or> fld r = None) rules = rid ` ?E \<union> rid ` ?N"
    unfolding rid_image_rules_where [OF ok, symmetric] by auto
  have dom0: "map_of m0 k = None \<Longrightarrow> ?E = {}" unfolding map_of_eq_None_iff F2 by auto
  show "entry_for (rules_where (\<lambda>r. fld r = Some k \<or> fld r = None) rules) bv"
  proof (cases "m0 \<noteq> [] \<and> dc \<noteq> []")
    case True
    then obtain bv0 where bv0: "map_of (smap_insert wildcard zero_bitVector m0) k = Some bv0"
        "bv = foldl set_rule_bit bv0 dc"
      using bv set_in_all_foldl [of "smap_insert wildcard zero_bitVector m0" dc k bv] unfolding m by auto
    have "entry_for (rid ` ?E) bv0"
      using bv0(1) ok0 F dom0 by (auto simp: map_of_smap_insert entry_for_def bv_simps split: if_splits)
    then show ?thesis
      using foldl_set_rule_bit_all [of dc bv0] small dcs unfolding goal bv0(2)
      by (auto simp: entry_for_def)
  next
    case False
    then have "entry_for (rid ` ?E) bv" using bv F by (auto simp: m)
    moreover have "m0 \<noteq> []" using bv by (auto simp: m split: if_splits)
    ultimately show ?thesis unfolding goal using False dcs by (simp flip: dcs)
  qed
qed

lemma reads_proto: "chain_ok rules \<Longrightarrow> reads rule_proto l4Proto rules"
  by (auto simp: reads_def rule_proto_def getL4proto_def get_field_def chain_ok_def list_all_iff rule_ok_def
      protocol_print_parse split: option.splits)

definition rule_port :: "Type \<Rightarrow> ChainRule \<Rightarrow> 16 word option" where
  "rule_port type r = (case type of SOURCE_TYPE \<Rightarrow> srcPort r | DESTINATION_TYPE \<Rightarrow> dstPort r)"

lemma reads_port: "reads (rule_port_of type) (rule_port type) rules"
  by (cases type) (auto simp: reads_def rule_port_of_def rule_port_def getSport_def getDport_def get_field_def
      split: option.splits)

lemmas transportProto_spec =
  keyedFromRulesToMap_spec [OF _ reads_proto, where wildcard = 0, folded transportProtoFromRulesToMap_def]

lemmas port_spec =
  keyedFromRulesToMap_spec [OF _ reads_port, where wildcard = 0, folded portFromRulesToMap_def]

section \<open>Connection states\<close>

text \<open>
  \<open>ChainRuleConntrackEnum_to_int\<close> of a rule without a state throws in \<open>getConntrack\<close>. The table is left
  empty when no rule has a state.
\<close>

definition conntrack_bitVector :: "ChainRule list \<Rightarrow> nat \<Rightarrow> elements" where
  "conntrack_bitVector rules state =
     foldl (\<lambda>bv rule. if (case getConntrack rule of
                            Inl e \<Rightarrow> True
                          | Inr c \<Rightarrow> ChainRuleConntrackEnum_to_int c = state)
                       then set_rule_bit bv (rid rule) else bv) zero_bitVector rules"

definition conntrackFromRulesToMap :: "ChainRule list \<Rightarrow> (nat, elements) smap \<times> bool" where
  "conntrackFromRulesToMap rules =
     (if list_ex (\<lambda>rule. is_value (getConntrack rule)) rules
      then (foldl (\<lambda>m state. smap_insert state (conntrack_bitVector rules state) m) []
              (map ChainRuleConntrackEnum_to_int [NEW, ESTABLISHED, RELATED, INVALID]), False)
      else ([], False))"

lemma conntrackFromRulesToMap_spec:
  assumes ok: "chain_ok rules"
  shows "fst (conntrackFromRulesToMap rules) =
      (if \<forall>r \<in> set rules. conntrack r = None then [] else map (\<lambda>s. (s, conntrack_bitVector rules s)) [0, 1, 2, 3])"
    and "entry_for (rules_where (\<lambda>r. pred_option (\<lambda>c. ChainRuleConntrackEnum_to_int c = s) (conntrack r)) rules)
      (conntrack_bitVector rules s)"
proof -
  show "fst (conntrackFromRulesToMap rules) =
      (if \<forall>r \<in> set rules. conntrack r = None then [] else map (\<lambda>s. (s, conntrack_bitVector rules s)) [0, 1, 2, 3])"
    by (auto simp: conntrackFromRulesToMap_def list_ex_iff getConntrack_def get_field_def split: option.splits)
  have "pred_option (\<lambda>c. ChainRuleConntrackEnum_to_int c = s) (conntrack r) \<longleftrightarrow>
      (case getConntrack r of Inl e \<Rightarrow> True | Inr c \<Rightarrow> ChainRuleConntrackEnum_to_int c = s)" for r
    by (auto simp: getConntrack_def get_field_def split: option.splits)
  then show "entry_for (rules_where (\<lambda>r. pred_option (\<lambda>c. ChainRuleConntrackEnum_to_int c = s) (conntrack r)) rules)
      (conntrack_bitVector rules s)"
    unfolding conntrack_bitVector_def by (simp only: entry_for_foldl [OF ok])
qed

section \<open>TCP flags\<close>

definition possibleFlagsCombinations :: "nat list" where
  "possibleFlagsCombinations = [0..<256]"

definition rule_flags :: "ChainRule \<Rightarrow> (8 word \<times> 8 word) result" where
  "rule_flags rule = rbind (getTcpflags rule) flags_from_string_to_masks"

definition flags_match :: "8 word \<Rightarrow> 8 word \<times> 8 word \<Rightarrow> bool" where
  "flags_match candidateFlag masks \<longleftrightarrow>
     (let (flagsSet0, flagsNotSet) = masks; flagsSet = (if flagsSet0 = 0 then 255 else flagsSet0) in
      candidateFlag AND flagsSet = flagsSet \<and> candidateFlag AND flagsNotSet = 0)"

definition flags_step :: "elements list \<Rightarrow> ChainRule \<Rightarrow> elements list" where
  "flags_step flags rule =
     (case rule_flags rule of
        Inl e \<Rightarrow> map (\<lambda>flagEntry. set_rule_bit flagEntry (rid rule)) flags
      | Inr masks \<Rightarrow>
          foldl (\<lambda>fl j. if flags_match (word_of_nat j) masks
                        then fl[j := set_rule_bit (fl ! j) (rid rule)] else fl)
            flags possibleFlagsCombinations)"

definition flagsFromRulesToMap :: "ChainRule list \<Rightarrow> elements list \<times> bool" where
  "flagsFromRulesToMap rules =
     (if list_ex (\<lambda>rule. is_value (getTcpflags rule)) rules
      then (foldl flags_step (replicate 256 zero_bitVector) rules, False)
      else ([], False))"

lemma rule_flags_ok:
  "rule_ok r \<Longrightarrow> try_get (rule_flags r) = tcpFlags r"
  by (auto simp: rule_flags_def getTcpflags_def get_field_def rule_ok_def flags_print_parse split: option.splits)

lemma foldl_update_where:
  "distinct js \<Longrightarrow> (\<forall>j \<in> set js. j < length fl) \<Longrightarrow>
   length (foldl (\<lambda>fl j. if P j then fl[j := f (fl ! j)] else fl) fl js) = length fl \<and>
   (\<forall>i < length fl. foldl (\<lambda>fl j. if P j then fl[j := f (fl ! j)] else fl) fl js ! i =
      (if i \<in> set js \<and> P i then f (fl ! i) else fl ! i))"
  by (induction js arbitrary: fl) (auto simp: nth_list_update)

lemma flags_step_nth:
  assumes "rule_ok r" "length flags = 256" "i < 256"
  shows "flags_step flags r ! i = (if pred_option (flags_match (word_of_nat i)) (tcpFlags r)
      then set_rule_bit (flags ! i) (rid r) else flags ! i)"
    and "length (flags_step flags r) = 256"
proof -
  have J: "distinct possibleFlagsCombinations" "\<forall>j \<in> set possibleFlagsCombinations. j < length flags"
      "i \<in> set possibleFlagsCombinations"
    using assms by (auto simp: possibleFlagsCombinations_def)
  note upd = foldl_update_where [OF J(1,2), of "\<lambda>j. flags_match (word_of_nat j) m"
      "\<lambda>bv. set_rule_bit bv (rid r)" for m]
  show "length (flags_step flags r) = 256"
    using upd assms(2) by (simp add: flags_step_def split: sum.split)
  show "flags_step flags r ! i = (if pred_option (flags_match (word_of_nat i)) (tcpFlags r)
      then set_rule_bit (flags ! i) (rid r) else flags ! i)"
    using rule_flags_ok [OF assms(1), symmetric] upd J(3) assms
    by (cases "rule_flags r") (simp_all add: flags_step_def)
qed

lemma flags_foldl:
  assumes "list_all rule_ok rules" "length flags = 256" "i < 256"
  shows "length (foldl flags_step flags rules) = 256"
    and "foldl flags_step flags rules ! i =
      foldl (\<lambda>bv r. if pred_option (flags_match (word_of_nat i)) (tcpFlags r) then set_rule_bit bv (rid r) else bv)
        (flags ! i) rules"
  using assms
proof (induction rules arbitrary: flags)
  case (Cons r rules)
  { case 1 with Cons.IH(1) [of "flags_step flags r"] show ?case by (simp add: flags_step_nth) }
  { case 2 with Cons.IH(2) [of "flags_step flags r"] show ?case by (simp add: flags_step_nth) }
qed simp_all

lemma flagsFromRulesToMap_spec:
  assumes ok: "chain_ok rules"
  shows "fst (flagsFromRulesToMap rules) = [] \<longleftrightarrow> (\<forall>r \<in> set rules. tcpFlags r = None)"
    and "fst (flagsFromRulesToMap rules) \<noteq> [] \<Longrightarrow> length (fst (flagsFromRulesToMap rules)) = 256"
    and "fst (flagsFromRulesToMap rules) \<noteq> [] \<Longrightarrow> i < 256 \<Longrightarrow>
      entry_for (rules_where (\<lambda>r. pred_option (flags_match (word_of_nat i)) (tcpFlags r)) rules)
        (fst (flagsFromRulesToMap rules) ! i)"
proof -
  have rok: "list_all rule_ok rules" using ok by (simp add: chain_ok_def)
  have len: "length (foldl flags_step (replicate 256 zero_bitVector) rules) = 256"
    by (rule flags_foldl(1) [OF rok, of _ 0]) simp_all
  show len': "fst (flagsFromRulesToMap rules) \<noteq> [] \<Longrightarrow> length (fst (flagsFromRulesToMap rules)) = 256"
    using len by (simp add: flagsFromRulesToMap_def split: if_splits)
  have "foldl flags_step (replicate 256 zero_bitVector) rules \<noteq> []" using len by force
  then show "fst (flagsFromRulesToMap rules) = [] \<longleftrightarrow> (\<forall>r \<in> set rules. tcpFlags r = None)"
    by (auto simp: flagsFromRulesToMap_def list_ex_iff getTcpflags_def get_field_def split: option.splits)
      (metis option.exhaust surj_pair)
  show "entry_for (rules_where (\<lambda>r. pred_option (flags_match (word_of_nat i)) (tcpFlags r)) rules)
        (fst (flagsFromRulesToMap rules) ! i)" if "fst (flagsFromRulesToMap rules) \<noteq> []" "i < 256"
    using that flags_foldl(2) [OF rok _ that(2), of "replicate 256 zero_bitVector"] entry_for_foldl [OF ok]
    by (simp add: flagsFromRulesToMap_def split: if_splits)
qed

end
