(* ===== verification/Fw_Datapath.thy ===== *)
theory Fw_Datapath
  imports Fw_Maps
begin

text \<open>
  The match programs of a chain: the eBPF code under \<open>pcn-firewall/src/datapaths\<close> with the macro
  values that \<open>getCode\<close> of the classes under \<open>pcn-firewall/src/modules\<close> substitutes, and the tables
  that their \<open>updateMap\<close> fills. Each program narrows the shared bit vector to the rules whose field
  accepts the packet. The locale \<open>match_stage\<close> states what the chain relies on; every program
  is an interpretation of it.
\<close>

section \<open>Packets and tables\<close>

text \<open>\<open>struct packetHeaders\<close>: addresses, ports, sequence numbers are raw, in network order.\<close>

record packetHeaders =
  pk_srcIp :: "32 word"
  pk_dstIp :: "32 word"
  pk_l4proto :: "8 word"
  pk_srcPort :: "16 word"
  pk_dstPort :: "16 word"
  pk_flags :: "8 word"
  pk_seqN :: "32 word"
  pk_ackN :: "32 word"
  pk_connStatus :: "8 word"
  pk_forwardingDecision :: "8 word"

text \<open>\<open>IPPROTO_TCP\<close> and \<open>IPPROTO_UDP\<close> of the datapath, compared with an 8-bit field.\<close>

definition TCP8 :: "8 word" where
  "TCP8 = 6"

definition UDP8 :: "8 word" where
  "UDP8 = 17"

text \<open>
  A hash table after one \<open>table.set\<close> per entry, and an array: every index below the size holds a
  value from the start, and writing past the end fails and changes nothing.
\<close>

definition hash_of :: "('k \<times> 'v) list \<Rightarrow> ('k \<rightharpoonup> 'v)" where
  "hash_of entries = foldl (\<lambda>t (k, v). t(k \<mapsto> v)) Map.empty entries"

definition array_init :: "nat \<Rightarrow> 'v \<Rightarrow> (nat \<rightharpoonup> 'v)" where
  "array_init n v = (\<lambda>i. if i < n then Some v else None)"

definition array_set :: "(nat \<rightharpoonup> 'v) \<Rightarrow> nat \<times> 'v \<Rightarrow> (nat \<rightharpoonup> 'v)" where
  "array_set t e = (case t (fst e) of None \<Rightarrow> t | Some old \<Rightarrow> t(fst e \<mapsto> snd e))"

definition array_of :: "nat \<Rightarrow> 'v \<Rightarrow> (nat \<times> 'v) list \<Rightarrow> (nat \<rightharpoonup> 'v)" where
  "array_of n v entries = foldl array_set (array_init n v) entries"

lemma hash_of_foldl:
  "distinct (map fst entries) \<Longrightarrow> foldl (\<lambda>t (k, v). t(k \<mapsto> v)) t entries k =
     (case map_of entries k of None \<Rightarrow> t k | Some v \<Rightarrow> Some v)"
proof (induction entries arbitrary: t)
  case (Cons e entries)
  obtain k' v where e: "e = (k', v)" by fastforce
  have "map_of entries k' = None" using Cons.prems by (auto simp: e map_of_eq_None_iff)
  then show ?case using Cons by (auto simp: e split: option.splits)
qed simp

lemma hash_of_map_of: "distinct (map fst entries) \<Longrightarrow> hash_of entries = map_of entries"
  unfolding hash_of_def fun_eq_iff by (subst hash_of_foldl) (auto split: option.splits)

lemma array_of_foldl:
  assumes "distinct (map fst entries)" "\<forall>i \<in> fst ` set entries. t i \<noteq> None"
  shows "foldl array_set t entries i = (case map_of entries i of None \<Rightarrow> t i | Some v \<Rightarrow> Some v)"
  using assms
proof (induction entries arbitrary: t)
  case (Cons e entries)
  obtain k v where e: "e = (k, v)" by fastforce
  obtain old where old: "t k = Some old" using Cons.prems(2) by (auto simp: e)
  have "foldl array_set (t(k \<mapsto> v)) entries i =
      (case map_of entries i of None \<Rightarrow> (t(k \<mapsto> v)) i | Some v \<Rightarrow> Some v)"
    by (rule Cons.IH) (use Cons.prems in auto)
  moreover have "i = k \<Longrightarrow> map_of entries i = None"
    using Cons.prems(1) by (auto simp: e map_of_eq_None_iff)
  moreover have "array_set t e = t(k \<mapsto> v)" by (simp add: e array_set_def old)
  ultimately show ?case by (auto simp: e split: option.splits)
qed simp

lemma array_of_nth:
  assumes "distinct (map fst entries)" "\<forall>i \<in> fst ` set entries. i < n" "i < n"
  shows "array_of n v entries i = Some (case map_of entries i of None \<Rightarrow> v | Some w \<Rightarrow> w)"
  unfolding array_of_def using assms
  by (subst array_of_foldl) (auto simp: array_init_def split: option.splits)

lemma array_of_out: "n \<le> i \<Longrightarrow> array_of n v entries i = None"
proof -
  assume "n \<le> i"
  then have "array_init n v i = None" by (simp add: array_init_def)
  then have "foldl array_set (array_init n v) entries i = None"
    by (rule foldl_invariant [where P = "\<lambda>t. t i = None"]) (auto simp: array_set_def split: option.splits)
  then show ?thesis by (simp add: array_of_def)
qed

section \<open>The longest-prefix-match trie\<close>

text \<open>
  The trie is kernel code (\<open>BPF_MAP_TYPE_LPM_TRIE\<close>): the lookup is a parameter of the model. What
  is documented of it: as long as the entries fit in the table, a lookup returns the value of an
  entry whose prefix matches the address, and no entry with a longer prefix does.
\<close>

type_synonym lpm_lookup = "(IpAddr \<times> elements) list \<Rightarrow> 32 word \<Rightarrow> elements option"

definition cidr_match :: "IpAddr \<Rightarrow> 32 word \<Rightarrow> bool" where
  "cidr_match k a \<longleftrightarrow> (\<forall>j < prefix_len k. bit (ia_ip k) (nbit j) = bit a (nbit j))"

definition lpm_capacity :: nat where
  "lpm_capacity = 1024"

definition lpm_spec :: "lpm_lookup \<Rightarrow> bool" where
  "lpm_spec lpm \<longleftrightarrow> (\<forall>entries a. length entries \<le> lpm_capacity \<longrightarrow>
     (case lpm entries a of
        None \<Rightarrow> \<forall>(k, v) \<in> set entries. \<not> cidr_match k a
      | Some v \<Rightarrow> \<exists>k. (k, v) \<in> set entries \<and> cidr_match k a \<and>
          (\<forall>(k', v') \<in> set entries. cidr_match k' a \<longrightarrow> prefix_len k' \<le> prefix_len k)))"

text \<open>A lookup that satisfies the specification: it keeps the longest match seen so far.\<close>

fun lpm_better :: "32 word \<Rightarrow> (IpAddr \<times> elements) option \<Rightarrow> IpAddr \<times> elements \<Rightarrow> (IpAddr \<times> elements) option" where
  "lpm_better a None (k, v) = (if cidr_match k a then Some (k, v) else None)"
| "lpm_better a (Some (k0, v0)) (k, v) =
     (if cidr_match k a \<and> prefix_len k0 \<le> prefix_len k then Some (k, v) else Some (k0, v0))"

definition lpm_scan :: lpm_lookup where
  "lpm_scan entries a = map_option snd (foldl (lpm_better a) None entries)"

lemma lpm_scan_foldl:
  "case foldl (lpm_better a) None entries of
     None \<Rightarrow> \<forall>(k, v) \<in> set entries. \<not> cidr_match k a
   | Some (k, v) \<Rightarrow> (k, v) \<in> set entries \<and> cidr_match k a \<and>
       (\<forall>(k', v') \<in> set entries. cidr_match k' a \<longrightarrow> prefix_len k' \<le> prefix_len k)"
proof (induction entries rule: rev_induct)
  case (snoc e entries)
  obtain k v where e: "e = (k, v)" by fastforce
  show ?case
  proof (cases "foldl (lpm_better a) None entries")
    case None
    with snoc e show ?thesis by (cases "cidr_match k a") auto
  next
    case (Some b)
    obtain k0 v0 where b: "b = (k0, v0)" by fastforce
    have IH: "(k0, v0) \<in> set entries" "cidr_match k0 a"
        "\<And>k' v'. (k', v') \<in> set entries \<Longrightarrow> cidr_match k' a \<Longrightarrow> prefix_len k' \<le> prefix_len k0"
      using snoc Some b by auto
    show ?thesis
    proof (cases "cidr_match k a \<and> prefix_len k0 \<le> prefix_len k")
      case True
      with Some b e IH(3) show ?thesis by (auto dest: order_trans)
    next
      case False
      with Some b e IH show ?thesis by auto
    qed
  qed
qed simp

lemma lpm_scan_spec: "lpm_spec lpm_scan"
proof -
  have "case lpm_scan entries a of
        None \<Rightarrow> \<forall>(k, v) \<in> set entries. \<not> cidr_match k a
      | Some v \<Rightarrow> \<exists>k. (k, v) \<in> set entries \<and> cidr_match k a \<and>
          (\<forall>(k', v') \<in> set entries. cidr_match k' a \<longrightarrow> prefix_len k' \<le> prefix_len k)" for entries a
    using lpm_scan_foldl [of entries a]
    by (cases "foldl (lpm_better a) None entries") (auto simp: lpm_scan_def)
  then show ?thesis by (simp add: lpm_spec_def)
qed

section \<open>The match programs\<close>

text \<open>
  How a match program ends: a tail call to the next program with the shared vector it leaves behind,
  the code of \<open>_DEFAULTACTION\<close>, or \<open>return RX_DROP\<close>. A program compiled with \<open>_NR_ELEMENTS\<close> 0 drops.
\<close>

datatype rx = NextHop elements | DefaultActionHop | RxDrop

definition stage_and :: "nat \<Rightarrow> elements \<Rightarrow> elements \<Rightarrow> rx" where
  "stage_and nr result ele =
     (let r = and_elements (take nr result) ele in
      if isAllZero r then DefaultActionHop else NextHop (r @ drop nr result))"

definition ConntrackMatch_rx :: "nat \<Rightarrow> (nat \<rightharpoonup> elements) \<Rightarrow> packetHeaders \<Rightarrow> elements \<Rightarrow> rx" where
  "ConntrackMatch_rx nr Conntrack pkt result =
     (if nr = 0 then RxDrop
      else case Conntrack (unat (pk_connStatus pkt)) of
             None \<Rightarrow> RxDrop
           | Some ele \<Rightarrow> stage_and nr result ele)"

definition pk_ip :: "Type \<Rightarrow> packetHeaders \<Rightarrow> 32 word" where
  "pk_ip type pkt = (case type of SOURCE_TYPE \<Rightarrow> pk_srcIp pkt | DESTINATION_TYPE \<Rightarrow> pk_dstIp pkt)"

definition IpLookup_rx :: "lpm_lookup \<Rightarrow> Type \<Rightarrow> nat \<Rightarrow> (IpAddr \<times> elements) list \<Rightarrow> packetHeaders \<Rightarrow> elements \<Rightarrow> rx" where
  "IpLookup_rx lpm type nr trie pkt result =
     (if nr = 0 then RxDrop
      else case lpm trie (pk_ip type pkt) of
             None \<Rightarrow> DefaultActionHop
           | Some ele \<Rightarrow> stage_and nr result ele)"

definition L4ProtocolLookup_rx :: "nat \<Rightarrow> (8 word \<rightharpoonup> elements) \<Rightarrow> packetHeaders \<Rightarrow> elements \<Rightarrow> rx" where
  "L4ProtocolLookup_rx nr transportProto pkt result =
     (if nr = 0 then RxDrop
      else case transportProto (pk_l4proto pkt) of
             Some ele \<Rightarrow> stage_and nr result ele
           | None \<Rightarrow>
               (case transportProto 0 of
                  None \<Rightarrow> DefaultActionHop
                | Some ele \<Rightarrow> stage_and nr result ele))"

definition pk_port :: "Type \<Rightarrow> packetHeaders \<Rightarrow> 16 word" where
  "pk_port type pkt = (case type of SOURCE_TYPE \<Rightarrow> pk_srcPort pkt | DESTINATION_TYPE \<Rightarrow> pk_dstPort pkt)"

text \<open>The wildcard vector is compiled into the program (\<open>_WILDCARD_BITVECTOR\<close>).\<close>

definition L4PortLookup_rx :: "Type \<Rightarrow> nat \<Rightarrow> (16 word \<rightharpoonup> elements) \<Rightarrow> elements option \<Rightarrow> packetHeaders \<Rightarrow> elements \<Rightarrow> rx" where
  "L4PortLookup_rx type nr Ports wildcard_rule pkt result =
     (if nr = 0 then RxDrop
      else if pk_l4proto pkt \<noteq> TCP8 \<and> pk_l4proto pkt \<noteq> UDP8 then NextHop result
      else case Ports (pk_port type pkt) of
             Some ele \<Rightarrow> stage_and nr result ele
           | None \<Rightarrow>
               (case wildcard_rule of
                  None \<Rightarrow> DefaultActionHop
                | Some wildcard_ele \<Rightarrow> stage_and nr result wildcard_ele))"

definition TcpFlagsLookup_rx :: "nat \<Rightarrow> (nat \<rightharpoonup> elements) \<Rightarrow> packetHeaders \<Rightarrow> elements \<Rightarrow> rx" where
  "TcpFlagsLookup_rx nr tcpFlagsTable pkt result =
     (if nr = 0 then RxDrop
      else if pk_l4proto pkt \<noteq> TCP8 then NextHop result
      else case tcpFlagsTable (unat (pk_flags pkt)) of
             None \<Rightarrow> DefaultActionHop
           | Some ele \<Rightarrow> stage_and nr result ele)"

text \<open>The tables as \<open>updateMap\<close> of each class leaves them.\<close>

definition ConntrackMatch_updateMap :: "(nat, elements) smap \<Rightarrow> (nat \<rightharpoonup> elements)" where
  "ConntrackMatch_updateMap status = array_of 4 zero_bitVector status"

definition L4ProtocolLookup_updateMap :: "(int, elements) smap \<Rightarrow> (8 word \<rightharpoonup> elements)" where
  "L4ProtocolLookup_updateMap protocols = hash_of (map (\<lambda>(k, v). (word_of_int k, v)) protocols)"

definition L4PortLookup_updateMap :: "(16 word, elements) smap \<Rightarrow> (16 word \<rightharpoonup> elements)" where
  "L4PortLookup_updateMap ports = hash_of (map (\<lambda>(k, v). (ntohs k, v)) ports)"

definition TcpFlagsLookup_updateMap :: "elements list \<Rightarrow> (nat \<rightharpoonup> elements)" where
  "TcpFlagsLookup_updateMap flags = array_of 256 zero_bitVector (zip [0..<length flags] flags)"

section \<open>The contract of a match program\<close>

definition nr_elements :: "ChainRule list \<Rightarrow> nat" where
  "nr_elements rules = FROM_NRULES_TO_NELEMENTS (length rules)"

text \<open>
  What a program may do when \<open>M\<close> tells which rules its field accepts: and-ing an entry for exactly
  those rules, passing the packet on because every rule accepts it, or giving up because none does.
\<close>

inductive stage_contract :: "(ChainRule \<Rightarrow> bool) \<Rightarrow> ChainRule list \<Rightarrow> elements \<Rightarrow> rx \<Rightarrow> bool"
  for M rules result where
  contract_and: "entry_for (rules_where M rules) ele \<Longrightarrow>
     stage_contract M rules result (stage_and (nr_elements rules) result ele)"
| contract_pass: "\<forall>r \<in> set rules. M r \<Longrightarrow> stage_contract M rules result (NextHop result)"
| contract_none: "\<forall>r \<in> set rules. \<not> M r \<Longrightarrow> stage_contract M rules result DefaultActionHop"

text \<open>
  The shared vector between two programs: among the rules of the chain it holds those that satisfy
  \<open>P\<close>, and it holds nothing else unless every rule satisfies \<open>P\<close>.
\<close>

definition shared_inv :: "(ChainRule \<Rightarrow> bool) \<Rightarrow> ChainRule list \<Rightarrow> elements \<Rightarrow> bool" where
  "shared_inv P rules result \<longleftrightarrow>
     length result = FROM_NRULES_TO_NELEMENTS maxRules \<and>
     (let S = bv_set (take (nr_elements rules) result) in
      bv_ok (take (nr_elements rules) result) \<and>
      S \<inter> {..<length rules} = rules_where P rules \<and>
      (S \<subseteq> {..<length rules} \<or> (\<forall>r \<in> set rules. P r)))"

lemma nr_elements_le: "chain_ok rules \<Longrightarrow> nr_elements rules \<le> FROM_NRULES_TO_NELEMENTS maxRules"
  by (simp add: nr_elements_def chain_ok_def FROM_NRULES_TO_NELEMENTS_mono)

lemma bv_set_take: "bv_set (take n bv) = {i \<in> bv_set bv. i div 63 < n}"
  by (auto simp: bv_set_def)

lemma rules_where_subset: "rules_where P rules \<subseteq> {..<length rules}"
  by (auto simp: rules_where_def)

lemma rules_where_conj: "rules_where (\<lambda>r. P r \<and> Q r) rules = rules_where P rules \<inter> rules_where Q rules"
  by (auto simp: rules_where_def)

lemma rules_where_all: "\<forall>r \<in> set rules. P r \<Longrightarrow> rules_where P rules = {..<length rules}"
  by (auto simp: rules_where_def)

lemma rules_where_none: "\<forall>r \<in> set rules. \<not> P r \<Longrightarrow> rules_where P rules = {}"
  by (auto simp: rules_where_def)

lemma stage_and_inv:
  assumes ok: "chain_ok rules" and inv: "shared_inv P rules result" and ele: "entry_for (rules_where M rules) ele"
  shows "case stage_and (nr_elements rules) result ele of
      NextHop r \<Rightarrow> shared_inv (\<lambda>r. P r \<and> M r) rules r
    | DefaultActionHop \<Rightarrow> rules_where (\<lambda>r. P r \<and> M r) rules = {}
    | RxDrop \<Rightarrow> False"
proof -
  define nr where "nr = nr_elements rules"
  define S where "S = bv_set (take nr result)"
  define r where "r = and_elements (take nr result) ele"
  have nr: "nr \<le> FROM_NRULES_TO_NELEMENTS maxRules" using nr_elements_le [OF ok] by (simp add: nr_def)
  have len: "length result = FROM_NRULES_TO_NELEMENTS maxRules" and bok: "bv_ok (take nr result)"
    and S: "S \<inter> {..<length rules} = rules_where P rules"
    using inv by (simp_all add: shared_inv_def Let_def nr_def S_def)
  have le: "length (take nr result) \<le> length ele" using nr len ele by (simp add: entry_for_def)
  have rset: "bv_set r = S \<inter> rules_where M rules"
    using ele by (simp add: r_def bv_set_and_elements [OF le] S_def entry_for_def)
  then have both: "bv_set r = rules_where (\<lambda>r. P r \<and> M r) rules"
    using S rules_where_subset [of M rules] by (auto simp: rules_where_conj)
  have rok: "bv_ok r" using bok by (simp add: r_def bv_ok_and_elements)
  have rlen: "length r = nr" using le nr len by (simp add: r_def)
  have "shared_inv (\<lambda>r. P r \<and> M r) rules (r @ drop nr result)"
    using rlen rok both rules_where_subset [of "\<lambda>r. P r \<and> M r" rules] nr len
    by (auto simp: shared_inv_def Let_def nr_def [symmetric])
  moreover have "isAllZero r \<Longrightarrow> rules_where (\<lambda>r. P r \<and> M r) rules = {}"
    using isAllZero_iff [OF rok] both by simp
  ultimately show ?thesis
    by (simp add: stage_and_def nr_def [symmetric] r_def [symmetric])
qed

lemma contract_inv:
  assumes "chain_ok rules" "shared_inv P rules result" "stage_contract M rules result x"
  shows "case x of
      NextHop r \<Rightarrow> shared_inv (\<lambda>r. P r \<and> M r) rules r
    | DefaultActionHop \<Rightarrow> rules_where (\<lambda>r. P r \<and> M r) rules = {}
    | RxDrop \<Rightarrow> False"
  using assms(3)
proof cases
  case (contract_and ele)
  then show ?thesis using stage_and_inv [OF assms(1,2)] by blast
next
  case contract_pass
  then show ?thesis using assms(2)
    by (simp add: shared_inv_def Let_def rules_where_conj rules_where_all Int_absorb2 rules_where_subset)
next
  case contract_none
  then show ?thesis by (simp add: rules_where_none)
qed

locale match_stage =
  fixes present :: "ChainRule list \<Rightarrow> bool"
    and rx :: "ChainRule list \<Rightarrow> packetHeaders \<Rightarrow> elements \<Rightarrow> rx"
    and fmatch :: "packetHeaders \<Rightarrow> ChainRule \<Rightarrow> bool"
    and wf :: "ChainRule list \<Rightarrow> packetHeaders \<Rightarrow> bool"
  assumes present_law:
      "chain_ok rules \<Longrightarrow> wf rules pkt \<Longrightarrow> present rules \<Longrightarrow>
       stage_contract (fmatch pkt) rules result (rx rules pkt result)"
    and absent_law: "chain_ok rules \<Longrightarrow> \<not> present rules \<Longrightarrow> r \<in> set rules \<Longrightarrow> fmatch pkt r"
begin

lemma present_inv:
  assumes "chain_ok rules" "wf rules pkt" "present rules" "shared_inv P rules result"
  shows "case rx rules pkt result of
      NextHop r \<Rightarrow> shared_inv (\<lambda>r. P r \<and> fmatch pkt r) rules r
    | DefaultActionHop \<Rightarrow> rules_where (\<lambda>r. P r \<and> fmatch pkt r) rules = {}
    | RxDrop \<Rightarrow> False"
  using assms(1,4) present_law [OF assms(1-3)] by (rule contract_inv)

lemma absent_all: "chain_ok rules \<Longrightarrow> \<not> present rules \<Longrightarrow> rules_where (fmatch pkt) rules = {..<length rules}"
  by (rule rules_where_all) (blast intro: absent_law)

lemma absent_match: "chain_ok rules \<Longrightarrow> \<not> present rules \<Longrightarrow> \<forall>r \<in> set rules. (P r \<and> fmatch pkt r) = P r"
  by (blast intro: absent_law)

end

section \<open>Connection state\<close>

definition conntrack_matches :: "packetHeaders \<Rightarrow> ChainRule \<Rightarrow> bool" where
  "conntrack_matches pkt r \<longleftrightarrow>
     pred_option (\<lambda>c. ChainRuleConntrackEnum_to_int c = unat (pk_connStatus pkt)) (conntrack r)"

definition conntrack_present :: "ChainRule list \<Rightarrow> bool" where
  "conntrack_present rules \<longleftrightarrow> fst (conntrackFromRulesToMap rules) \<noteq> []"

definition conntrack_rx :: "ChainRule list \<Rightarrow> packetHeaders \<Rightarrow> elements \<Rightarrow> rx" where
  "conntrack_rx rules =
     ConntrackMatch_rx (nr_elements rules) (ConntrackMatch_updateMap (fst (conntrackFromRulesToMap rules)))"

definition conntrack_wf :: "ChainRule list \<Rightarrow> packetHeaders \<Rightarrow> bool" where
  "conntrack_wf rules pkt \<longleftrightarrow> list_all (\<lambda>r. conntrack r = None) rules \<or> unat (pk_connStatus pkt) < 4"

lemma nr_elements_0 [simp]: "nr_elements rules = 0 \<longleftrightarrow> rules = []"
  by (simp add: nr_elements_def)

interpretation conntrack: match_stage conntrack_present conntrack_rx conntrack_matches conntrack_wf
proof
  fix rules pkt result
  assume ok: "chain_ok rules" and wf: "conntrack_wf rules pkt" and pres: "conntrack_present rules"
  define s where "s = unat (pk_connStatus pkt)"
  have m: "fst (conntrackFromRulesToMap rules) = map (\<lambda>s. (s, conntrack_bitVector rules s)) [0, 1, 2, 3]"
    and ne: "rules \<noteq> []"
    and some: "\<not> list_all (\<lambda>r. conntrack r = None) rules"
    using pres conntrackFromRulesToMap_spec(1) [OF ok] unfolding conntrack_present_def list_all_iff
    by (auto split: if_splits)
  have s4: "s < 4" using wf some by (simp add: s_def conntrack_wf_def)
  then have "s = 0 \<or> s = 1 \<or> s = 2 \<or> s = 3" by linarith
  then have "map_of (map (\<lambda>s. (s, conntrack_bitVector rules s)) [0, 1, 2, 3]) s = Some (conntrack_bitVector rules s)"
    by auto
  then have "ConntrackMatch_updateMap (fst (conntrackFromRulesToMap rules)) s = Some (conntrack_bitVector rules s)"
    unfolding ConntrackMatch_updateMap_def m using s4 by (subst array_of_nth) auto
  then have "conntrack_rx rules pkt result = stage_and (nr_elements rules) result (conntrack_bitVector rules s)"
    using ne by (simp add: conntrack_rx_def ConntrackMatch_rx_def s_def)
  moreover have "entry_for (rules_where (conntrack_matches pkt) rules) (conntrack_bitVector rules s)"
    using conntrackFromRulesToMap_spec(2) [OF ok, of s] by (simp add: conntrack_matches_def [abs_def] s_def)
  ultimately show "stage_contract (conntrack_matches pkt) rules result (conntrack_rx rules pkt result)"
    by (simp add: contract_and)
next
  fix rules r pkt
  assume "chain_ok rules" "\<not> conntrack_present rules" "r \<in> set rules"
  then show "conntrack_matches pkt r"
    using conntrackFromRulesToMap_spec(1) [of rules]
    by (auto simp: conntrack_matches_def conntrack_present_def split: if_splits)
qed

section \<open>Addresses\<close>

definition ip_matches :: "Type \<Rightarrow> packetHeaders \<Rightarrow> ChainRule \<Rightarrow> bool" where
  "ip_matches type pkt r \<longleftrightarrow> pred_option (\<lambda>a. cidr_match a (pk_ip type pkt)) (rule_addr type r)"

definition ip_present :: "Type \<Rightarrow> ChainRule list \<Rightarrow> bool" where
  "ip_present type rules \<longleftrightarrow> fst (ipFromRulesToMap type rules) \<noteq> []"

definition ip_rx :: "lpm_lookup \<Rightarrow> Type \<Rightarrow> ChainRule list \<Rightarrow> packetHeaders \<Rightarrow> elements \<Rightarrow> rx" where
  "ip_rx lpm type rules = IpLookup_rx lpm type (nr_elements rules) (fst (ipFromRulesToMap type rules))"

definition ip_wf :: "lpm_lookup \<Rightarrow> Type \<Rightarrow> ChainRule list \<Rightarrow> packetHeaders \<Rightarrow> bool" where
  "ip_wf lpm type rules pkt \<longleftrightarrow> lpm_spec lpm \<and>
     list_all (\<lambda>r. pred_option (\<lambda>a. prefix_len a mod 8 = 0) (rule_addr type r)) rules \<and>
     length (fst (ipFromRulesToMap type rules)) \<le> lpm_capacity"

lemma netmask_bits_mask: "netmask \<le> 32 \<Longrightarrow> netmask_bits netmask = mask (unat netmask)"
proof -
  assume "netmask \<le> 32"
  have "mask 32 = (0xffffffff :: 32 word)" by (simp add: mask_eq_decr_exp)
  then show ?thesis
    by (auto simp: netmask_bits_def mask_eq_decr_exp push_bit_eq_mult)
qed

text \<open>For prefixes of whole bytes the test of the rule compiler is inclusion of prefixes.\<close>

lemma ip_covers_bits:
  assumes "ia_netmask a \<le> 32" "prefix_len a mod 8 = 0"
  shows "ip_covers k a \<longleftrightarrow> cidr_match a (ia_ip k) \<and> prefix_len a \<le> prefix_len k"
proof -
  have "ia_ip k AND netmask_bits (ia_netmask a) = ia_ip a AND netmask_bits (ia_netmask a) \<longleftrightarrow>
      (\<forall>j < prefix_len a. bit (ia_ip k) j = bit (ia_ip a) j)"
    by (simp add: netmask_bits_mask [OF assms(1)] and_mask_eq_iff)
  also have "\<dots> \<longleftrightarrow> cidr_match a (ia_ip k)"
    unfolding cidr_match_def using all_nbit [OF assms(2), of "\<lambda>j. bit (ia_ip a) j = bit (ia_ip k) j"] by auto
  finally show ?thesis by (simp add: ip_covers_def Let_def word_le_nat_alt)
qed

text \<open>
  A prefix \<open>p\<close> covers a prefix \<open>a\<close> when \<open>p\<close> is no longer and the addresses agree on the bits of \<open>p\<close>, counted from the most
  significant bit of the first byte: every packet in \<open>a\<close> is in \<open>p\<close>. The test of the code agrees for prefixes of whole bytes only:
  its mask keeps the low bits of the last byte, so \<open>10.16.0.0/12\<close> is taken not to cover \<open>10.17.0.0/16\<close>.
\<close>

definition rule_prefix :: "Type \<Rightarrow> ChainRule \<Rightarrow> IpAddr" where
  "rule_prefix type r = (case rule_addr type r of None \<Rightarrow> wildcard_ip | Some a \<Rightarrow> a)"

definition prefix_covers :: "IpAddr \<Rightarrow> IpAddr \<Rightarrow> bool" where
  "prefix_covers p a \<longleftrightarrow> prefix_len p \<le> prefix_len a \<and> cidr_match p (ia_ip a)"

lemma ip_covers_mask: "prefix_covers (IpAddr 0x0000100A 12) (IpAddr 0x0000110A 16) \<and>
    \<not> ip_covers (IpAddr 0x0000110A 16) (IpAddr 0x0000100A 12)"
proof
  have "bit (0x0000100A :: 32 word) (nbit j) = bit (0x0000110A :: 32 word) (nbit j)" if "j < 12" for j
  proof -
    have "j \<in> set [0..<12]" using that by simp
    then show ?thesis by (auto simp: upt_rec nbit_def)
  qed
  then show "prefix_covers (IpAddr 0x0000100A 12) (IpAddr 0x0000110A 16)" by (simp add: prefix_covers_def cidr_match_def)
  show "\<not> ip_covers (IpAddr 0x0000110A 16) (IpAddr 0x0000100A 12)" by (simp add: ip_covers_def netmask_bits_def)
qed

lemma ip_entry_covers:
  assumes ok: "chain_ok rules" and ips: "ipFromRulesToMap type rules = (ips, brk)" and a: "(a, bv) \<in> set ips"
  shows "\<exists>S. entry_for S bv \<and> S \<subseteq> {..<length rules} \<and>
    (\<forall>i < length rules. prefix_len (rule_prefix type (rules ! i)) mod 8 = 0 \<longrightarrow>
       (i \<in> S \<longleftrightarrow> prefix_covers (rule_prefix type (rules ! i)) a))"
proof (intro exI [of _ "rules_where (\<lambda>r. ip_covers a (rule_ip_or_wildcard type r)) rules"] conjI allI impI)
  show "entry_for (rules_where (\<lambda>r. ip_covers a (rule_ip_or_wildcard type r)) rules) bv"
    using ipFromRulesToMap_entries [OF ok ips a] .
  fix i assume i: "i < length rules" and w: "prefix_len (rule_prefix type (rules ! i)) mod 8 = 0"
  have r: "rule_ok (rules ! i)" using ok i by (simp add: chain_ok_def list_all_length)
  have "ia_netmask (rule_prefix type (rules ! i)) \<le> 32"
    using r by (cases type) (auto simp: rule_ok_def rule_prefix_def wildcard_ip_def split: option.splits)
  then show "i \<in> rules_where (\<lambda>r. ip_covers a (rule_ip_or_wildcard type r)) rules \<longleftrightarrow>
      prefix_covers (rule_prefix type (rules ! i)) a"
    using i ip_covers_bits [OF _ w] rule_ip_or_wildcard_ok [OF r, of type] by (auto simp: rules_where_def prefix_covers_def rule_prefix_def)
qed (auto simp: rules_where_def)

lemma cidr_match_trans:
  "cidr_match k a \<Longrightarrow> prefix_len p \<le> prefix_len k \<Longrightarrow> cidr_match p (ia_ip k) \<longleftrightarrow> cidr_match p a"
  by (auto simp: cidr_match_def)

lemma ip_stage:
  assumes ok: "chain_ok rules" and wf: "ip_wf lpm type rules pkt" and pres: "ip_present type rules"
  shows "stage_contract (ip_matches type pkt) rules result (ip_rx lpm type rules pkt result)"
proof -
  let ?a = "pk_ip type pkt"
  let ?addr = "\<lambda>r. case rule_addr type r of None \<Rightarrow> wildcard_ip | Some a \<Rightarrow> a"
  obtain ips brk where ips: "ipFromRulesToMap type rules = (ips, brk)" by fastforce
  have ne: "ips \<noteq> []" using pres by (simp add: ip_present_def ips)
  have keys: "fst ` set ips = ?addr ` set rules"
    using ipFromRulesToMap_keys [OF ok ips] ne by (auto split: if_splits)
  then have rne: "rules \<noteq> []" using ne by auto
  have addr: "ia_netmask (?addr r) \<le> 32" "prefix_len (?addr r) mod 8 = 0" if "r \<in> set rules" for r
    using that ok wf by (auto simp: chain_ok_def list_all_iff rule_ok_def ip_wf_def wildcard_ip_def
        split: option.splits Type.splits)
  have match: "ip_matches type pkt r \<longleftrightarrow> cidr_match (?addr r) ?a" for r
    by (auto simp: ip_matches_def cidr_match_def wildcard_ip_def split: option.splits)
  have "length ips \<le> lpm_capacity" using wf by (simp add: ip_wf_def ips)
  then have spec: "case lpm ips ?a of
        None \<Rightarrow> \<forall>(k, v) \<in> set ips. \<not> cidr_match k ?a
      | Some v \<Rightarrow> \<exists>k. (k, v) \<in> set ips \<and> cidr_match k ?a \<and>
          (\<forall>(k', v') \<in> set ips. cidr_match k' ?a \<longrightarrow> prefix_len k' \<le> prefix_len k)"
    using wf unfolding ip_wf_def lpm_spec_def by blast
  show ?thesis
  proof (cases "lpm ips ?a")
    case None
    then have "\<not> cidr_match k ?a" if "k \<in> fst ` set ips" for k
      using spec that by auto
    then have "\<forall>r \<in> set rules. \<not> ip_matches type pkt r" unfolding keys match by blast
    then show ?thesis
      using None rne by (simp add: ip_rx_def IpLookup_rx_def ips contract_none)
  next
    case (Some ele)
    then obtain k where k: "(k, ele) \<in> set ips" "cidr_match k ?a"
        "\<forall>(k', v') \<in> set ips. cidr_match k' ?a \<longrightarrow> prefix_len k' \<le> prefix_len k"
      using spec by auto
    have longest: "prefix_len (?addr r) \<le> prefix_len k" if "r \<in> set rules" "cidr_match (?addr r) ?a" for r
    proof -
      have "?addr r \<in> fst ` set ips" unfolding keys using that(1) by (rule imageI)
      then show ?thesis using k(3) that(2) by auto
    qed
    have "ip_covers k (rule_ip_or_wildcard type r) = ip_matches type pkt r" if "rule_ok r" "r \<in> set rules" for r
      unfolding match rule_ip_or_wildcard_ok [OF that(1)] ip_covers_bits [OF addr [OF that(2)]]
      using cidr_match_trans [OF k(2), of "?addr r"] longest [OF that(2)] by blast
    then have "entry_for (rules_where (ip_matches type pkt) rules) ele"
      using ipFromRulesToMap_entries [OF ok ips k(1)] rules_where_cong [OF ok] by metis
    then show ?thesis
      using Some rne by (simp add: ip_rx_def IpLookup_rx_def ips contract_and)
  qed
qed

lemma ip_absent:
  assumes "chain_ok rules" "\<not> ip_present type rules" "r \<in> set rules" shows "ip_matches type pkt r"
proof -
  obtain ips brk where ips: "ipFromRulesToMap type rules = (ips, brk)" by fastforce
  then have "fst ` set ips = {}" using assms(2) by (simp add: ip_present_def)
  then have "\<forall>r \<in> set rules. rule_addr type r = None"
    using ipFromRulesToMap_keys [OF assms(1) ips] assms(3) by (auto split: if_splits)
  then show ?thesis using assms(3) by (simp add: ip_matches_def)
qed

interpretation ipsrc: match_stage "ip_present SOURCE_TYPE" "ip_rx lpm SOURCE_TYPE" "ip_matches SOURCE_TYPE"
    "ip_wf lpm SOURCE_TYPE" for lpm
  by unfold_locales (auto intro: ip_stage ip_absent)

interpretation ipdst: match_stage "ip_present DESTINATION_TYPE" "ip_rx lpm DESTINATION_TYPE"
    "ip_matches DESTINATION_TYPE" "ip_wf lpm DESTINATION_TYPE" for lpm
  by unfold_locales (auto intro: ip_stage ip_absent)

section \<open>Protocols\<close>

definition proto_matches :: "packetHeaders \<Rightarrow> ChainRule \<Rightarrow> bool" where
  "proto_matches pkt r \<longleftrightarrow> pred_option (\<lambda>p. word_of_int p = pk_l4proto pkt) (l4Proto r)"

definition proto_present :: "ChainRule list \<Rightarrow> bool" where
  "proto_present rules \<longleftrightarrow> fst (transportProtoFromRulesToMap rules) \<noteq> []"

definition proto_rx :: "ChainRule list \<Rightarrow> packetHeaders \<Rightarrow> elements \<Rightarrow> rx" where
  "proto_rx rules = L4ProtocolLookup_rx (nr_elements rules)
     (L4ProtocolLookup_updateMap (fst (transportProtoFromRulesToMap rules)))"

text \<open>
  A table written with converted keys (\<open>ntohs\<close>, truncation to 8 bits) stands for the converted field
  as long as the conversion keeps the keys apart.
\<close>

lemma hash_of_rekey:
  assumes ok: "smap_ok m" and inj: "inj_on f (fst ` set m)"
  shows "hash_of (map (\<lambda>(k, v). (f k, v)) m) y = Some bv \<longleftrightarrow> (\<exists>k. y = f k \<and> map_of m k = Some bv)"
    and "hash_of (map (\<lambda>(k, v). (f k, v)) m) y = None \<longleftrightarrow> y \<notin> f ` fst ` set m"
proof -
  have eq: "map fst (map (\<lambda>(k, v). (f k, v)) m) = map f (map fst m)" by (induction m) auto
  have dist: "distinct (map fst m)" by (rule smap_ok_distinct [OF ok])
  have d': "distinct (map fst (map (\<lambda>(k, v). (f k, v)) m))"
    unfolding eq using dist inj by (simp only: distinct_map set_map)
  have "hash_of (map (\<lambda>(k, v). (f k, v)) m) y = Some bv \<longleftrightarrow> (y, bv) \<in> set (map (\<lambda>(k, v). (f k, v)) m)"
    unfolding hash_of_map_of [OF d'] using map_of_eq_Some_iff [OF d'] by blast
  also have "\<dots> \<longleftrightarrow> (\<exists>k. y = f k \<and> (k, bv) \<in> set m)" by auto
  also have "\<dots> \<longleftrightarrow> (\<exists>k. y = f k \<and> map_of m k = Some bv)"
    using map_of_eq_Some_iff [OF dist] by blast
  finally show "hash_of (map (\<lambda>(k, v). (f k, v)) m) y = Some bv \<longleftrightarrow> (\<exists>k. y = f k \<and> map_of m k = Some bv)" .
  have "fst ` set (map (\<lambda>(k, v). (f k, v)) m) = f ` fst ` set m"
    using arg_cong [OF eq, of set] by (simp only: set_map)
  then show "hash_of (map (\<lambda>(k, v). (f k, v)) m) y = None \<longleftrightarrow> y \<notin> f ` fst ` set m"
    unfolding hash_of_map_of [OF d'] map_of_eq_None_iff by (simp only:)
qed

lemma keyed_stage:
  assumes ok: "chain_ok rules" and m: "smap_ok m" and inj: "inj_on f (fst ` set m)"
    and entries: "\<And>k bv. map_of m k = Some bv \<Longrightarrow>
      entry_for (rules_where (\<lambda>r. fld r = Some k \<or> fld r = None) rules) bv"
    and keys: "fst ` set m = (\<lambda>r. case fld r of None \<Rightarrow> wild | Some k \<Rightarrow> k) ` set rules"
    and nowild: "\<forall>r \<in> set rules. fld r \<noteq> Some wild"
    and M: "\<And>r. r \<in> set rules \<Longrightarrow> M r \<longleftrightarrow> pred_option (\<lambda>k. f k = y) (fld r)"
  shows "stage_contract M rules result
    (case hash_of (map (\<lambda>(k, v). (f k, v)) m) y of
       Some ele \<Rightarrow> stage_and (nr_elements rules) result ele
     | None \<Rightarrow> (case map_of m wild of
         None \<Rightarrow> DefaultActionHop | Some ele \<Rightarrow> stage_and (nr_elements rules) result ele))"
proof -
  have key_in: "k \<in> fst ` set m" if "r \<in> set rules" "fld r = Some k" for r k
    unfolding keys image_case_option using that by blast
  show ?thesis
  proof (cases "hash_of (map (\<lambda>(k, v). (f k, v)) m) y")
    case (Some ele)
    then obtain k where k: "y = f k" "map_of m k = Some ele" using hash_of_rekey [OF m inj] by blast
    have kin: "k \<in> fst ` set m" using k(2) by (metis map_of_eq_None_iff option.distinct(1))
    have "M r \<longleftrightarrow> fld r = Some k \<or> fld r = None" if r: "r \<in> set rules" for r
      using M [OF r] key_in [OF r] inj_on_eq_iff [OF inj _ kin] k(1) by (cases "fld r") auto
    then have "rules_where M rules = rules_where (\<lambda>r. fld r = Some k \<or> fld r = None) rules"
      by (intro rules_where_cong [OF ok]) simp
    with Some entries [OF k(2)] show ?thesis by (simp add: contract_and)
  next
    case None
    then have "y \<notin> f ` fst ` set m" using hash_of_rekey [OF m inj] by blast
    then have nk: "M r \<longleftrightarrow> fld r = None" if r: "r \<in> set rules" for r
      using M [OF r] key_in [OF r] by (cases "fld r") auto
    show ?thesis
    proof (cases "map_of m wild")
      case (Some ele)
      have "rules_where M rules = rules_where (\<lambda>r. fld r = Some wild \<or> fld r = None) rules"
        by (rule rules_where_cong [OF ok]) (use nk nowild in auto)
      with Some None entries [OF Some] show ?thesis by (simp add: contract_and)
    next
      case wNone: None
      then have "wild \<notin> fst ` set m" by (simp only: map_of_eq_None_iff not_False_eq_True)
      moreover have "wild \<in> fst ` set m" if "\<exists>r \<in> set rules. fld r = None"
        unfolding keys image_case_option using that by (simp only: if_True UnI2 singletonI)
      ultimately have "\<not> (\<exists>r \<in> set rules. fld r = None)" by (rule contrapos_nn)
      with nk have "\<forall>r \<in> set rules. \<not> M r" by blast
      with None wNone show ?thesis by (simp add: contract_none)
    qed
  qed
qed

lemma inj_on_protocol: "inj_on (word_of_int :: int \<Rightarrow> 8 word) {0, 1, 6, 17, 47}"
  by (simp add: inj_on_def)

lemma protocols_bounded:
  assumes "chain_ok rules" "r \<in> set rules" "l4Proto r = Some p" shows "p \<in> {1, 6, 17, 47}"
proof -
  have "rule_ok r" using assms(1,2) by (simp add: chain_ok_def list_all_iff)
  then show ?thesis using assms(3) by (auto simp: rule_ok_def supported_protocol_def IPPROTO_defs)
qed

definition proto_wf :: "ChainRule list \<Rightarrow> packetHeaders \<Rightarrow> bool" where
  "proto_wf rules pkt \<longleftrightarrow> True"

interpretation l4proto: match_stage proto_present proto_rx proto_matches proto_wf
proof
  fix rules pkt result assume ok: "chain_ok rules" and pres: "proto_present rules"
  obtain m brk where m: "transportProtoFromRulesToMap rules = (m, brk)" by fastforce
  note spec = transportProto_spec [OF ok ok m]
  have ne: "m \<noteq> []" using pres by (simp add: proto_present_def m)
  then have keys: "fst ` set m = (\<lambda>r. case l4Proto r of None \<Rightarrow> 0 | Some k \<Rightarrow> k) ` set rules"
    using spec(2) by (auto split: if_splits)
  then have rne: "rules \<noteq> []" using ne by auto
  have "fst ` set m \<subseteq> {0, 1, 6, 17, 47}"
    unfolding keys image_case_option using protocols_bounded [OF ok] by (auto split: if_splits)
  then have inj: "inj_on (word_of_int :: int \<Rightarrow> 8 word) (insert 0 (fst ` set m))"
    by (intro inj_on_subset [OF inj_on_protocol]) auto
  then have inj': "inj_on (word_of_int :: int \<Rightarrow> 8 word) (fst ` set m)" by simp
  have nowild: "\<forall>r \<in> set rules. l4Proto r \<noteq> Some 0" using protocols_bounded [OF ok] by fastforce
  have at0: "L4ProtocolLookup_updateMap m 0 = map_of m 0"
  proof (cases "map_of m 0")
    case (Some bv)
    then show ?thesis unfolding L4ProtocolLookup_updateMap_def
      using hash_of_rekey(1) [OF spec(1) inj', of 0 bv] by fastforce
  next
    case None
    then have "0 \<notin> fst ` set m" by (simp only: map_of_eq_None_iff not_False_eq_True)
    then have "(0 :: 8 word) \<notin> word_of_int ` fst ` set m"
      using inj by (simp add: inj_on_insert image_iff)
    then show ?thesis unfolding None L4ProtocolLookup_updateMap_def
      using hash_of_rekey(2) [OF spec(1) inj'] by blast
  qed
  have "stage_contract (proto_matches pkt) rules result
    (case L4ProtocolLookup_updateMap m (pk_l4proto pkt) of
       Some ele \<Rightarrow> stage_and (nr_elements rules) result ele
     | None \<Rightarrow> (case L4ProtocolLookup_updateMap m 0 of
         None \<Rightarrow> DefaultActionHop | Some ele \<Rightarrow> stage_and (nr_elements rules) result ele))"
    unfolding at0 unfolding L4ProtocolLookup_updateMap_def
    by (rule keyed_stage [OF ok spec(1) inj' spec(3) keys nowild]) (simp_all only: proto_matches_def)
  then show "stage_contract (proto_matches pkt) rules result (proto_rx rules pkt result)"
    using rne by (simp add: proto_rx_def L4ProtocolLookup_rx_def m)
next
  fix rules r pkt assume ok: "chain_ok rules" and abs: "\<not> proto_present rules" and r: "r \<in> set rules"
  obtain m brk where m: "transportProtoFromRulesToMap rules = (m, brk)" by fastforce
  then have "\<forall>r \<in> set rules. l4Proto r = None"
    using transportProto_spec(2) [OF ok ok m] abs r by (auto simp: proto_present_def split: if_splits)
  then show "proto_matches pkt r" using r by (simp add: proto_matches_def)
qed

section \<open>Ports\<close>

text \<open>Rules that name a port look at the port of TCP and UDP packets only.\<close>

definition port_matches :: "Type \<Rightarrow> packetHeaders \<Rightarrow> ChainRule \<Rightarrow> bool" where
  "port_matches type pkt r \<longleftrightarrow> pk_l4proto pkt = TCP8 \<or> pk_l4proto pkt = UDP8 \<longrightarrow>
     pred_option (\<lambda>p. ntohs p = pk_port type pkt) (rule_port type r)"

definition port_present :: "Type \<Rightarrow> ChainRule list \<Rightarrow> bool" where
  "port_present type rules \<longleftrightarrow> fst (portFromRulesToMap type rules) \<noteq> []"

definition port_rx :: "Type \<Rightarrow> ChainRule list \<Rightarrow> packetHeaders \<Rightarrow> elements \<Rightarrow> rx" where
  "port_rx type rules =
     (let ports = fst (portFromRulesToMap type rules) in
      L4PortLookup_rx type (nr_elements rules) (L4PortLookup_updateMap ports) (smap_find ports 0))"

definition port_wf :: "Type \<Rightarrow> ChainRule list \<Rightarrow> packetHeaders \<Rightarrow> bool" where
  "port_wf type rules pkt \<longleftrightarrow> list_all (\<lambda>r. rule_port type r \<noteq> Some 0) rules"

lemma port_stage:
  assumes ok: "chain_ok rules" and wf: "port_wf type rules pkt" and pres: "port_present type rules"
  shows "stage_contract (port_matches type pkt) rules result (port_rx type rules pkt result)"
proof -
  obtain m brk where m: "portFromRulesToMap type rules = (m, brk)" by fastforce
  note spec = port_spec [OF ok m]
  have ne: "m \<noteq> []" using pres by (simp add: port_present_def m)
  then have keys: "fst ` set m = (\<lambda>r. case rule_port type r of None \<Rightarrow> 0 | Some k \<Rightarrow> k) ` set rules"
    using spec(2) by (auto split: if_splits)
  then have rne: "rules \<noteq> []" using ne by auto
  have nowild: "\<forall>r \<in> set rules. rule_port type r \<noteq> Some 0" using wf by (simp add: port_wf_def list_all_iff)
  have inj: "inj_on ntohs (fst ` set m)" by (simp add: inj_on_def)
  show ?thesis
  proof (cases "pk_l4proto pkt = TCP8 \<or> pk_l4proto pkt = UDP8")
    case True
    have "stage_contract (port_matches type pkt) rules result
      (case L4PortLookup_updateMap m (pk_port type pkt) of
         Some ele \<Rightarrow> stage_and (nr_elements rules) result ele
       | None \<Rightarrow> (case map_of m 0 of
           None \<Rightarrow> DefaultActionHop | Some ele \<Rightarrow> stage_and (nr_elements rules) result ele))"
      unfolding L4PortLookup_updateMap_def
      by (rule keyed_stage [OF ok spec(1) inj spec(3) keys nowild])
        (use True in \<open>simp_all only: port_matches_def simp_thms\<close>)
    then show ?thesis
      using rne True by (auto simp: port_rx_def L4PortLookup_rx_def m Let_def)
  next
    case False
    then have "\<forall>r \<in> set rules. port_matches type pkt r" by (simp add: port_matches_def)
    then show ?thesis
      using rne False by (auto simp: port_rx_def L4PortLookup_rx_def Let_def intro: contract_pass)
  qed
qed

lemma port_absent:
  assumes "chain_ok rules" "\<not> port_present type rules" "r \<in> set rules" shows "port_matches type pkt r"
proof -
  obtain m brk where m: "portFromRulesToMap type rules = (m, brk)" by fastforce
  then have "\<forall>r \<in> set rules. rule_port type r = None"
    using port_spec(2) [OF assms(1) m] assms(2,3) by (auto simp: port_present_def split: if_splits)
  then show ?thesis using assms(3) by (simp add: port_matches_def)
qed

interpretation portsrc: match_stage "port_present SOURCE_TYPE" "port_rx SOURCE_TYPE" "port_matches SOURCE_TYPE"
    "port_wf SOURCE_TYPE"
  by unfold_locales (auto intro: port_stage port_absent)

interpretation portdst: match_stage "port_present DESTINATION_TYPE" "port_rx DESTINATION_TYPE"
    "port_matches DESTINATION_TYPE" "port_wf DESTINATION_TYPE"
  by unfold_locales (auto intro: port_stage port_absent)

section \<open>TCP flags\<close>

definition flags_matches :: "packetHeaders \<Rightarrow> ChainRule \<Rightarrow> bool" where
  "flags_matches pkt r \<longleftrightarrow> pk_l4proto pkt = TCP8 \<longrightarrow>
     pred_option (\<lambda>(s, ns). pk_flags pkt AND s = s \<and> pk_flags pkt AND ns = 0) (tcpFlags r)"

definition flags_present :: "ChainRule list \<Rightarrow> bool" where
  "flags_present rules \<longleftrightarrow> fst (flagsFromRulesToMap rules) \<noteq> []"

definition flags_rx :: "ChainRule list \<Rightarrow> packetHeaders \<Rightarrow> elements \<Rightarrow> rx" where
  "flags_rx rules = TcpFlagsLookup_rx (nr_elements rules)
     (TcpFlagsLookup_updateMap (fst (flagsFromRulesToMap rules)))"

definition flags_wf :: "ChainRule list \<Rightarrow> packetHeaders \<Rightarrow> bool" where
  "flags_wf rules pkt \<longleftrightarrow> list_all (\<lambda>r. pred_option (\<lambda>(s, ns). s \<noteq> 0) (tcpFlags r)) rules"

lemma map_of_zip_upt: "i < length xs \<Longrightarrow> map_of (zip [0..<length xs] xs) i = Some (xs ! i)"
  by (rule map_of_is_SomeI) (auto simp: set_zip intro: exI [of _ i])

interpretation tcpflags: match_stage flags_present flags_rx flags_matches flags_wf
proof
  fix rules pkt result
  assume ok: "chain_ok rules" and wf: "flags_wf rules pkt" and pres: "flags_present rules"
  define fl where "fl = fst (flagsFromRulesToMap rules)"
  define i where "i = unat (pk_flags pkt)"
  have ne: "fl \<noteq> []" using pres by (simp add: flags_present_def fl_def)
  have len: "length fl = 256" using flagsFromRulesToMap_spec(2) [OF ok] ne by (simp add: fl_def)
  have rne: "rules \<noteq> []" using ne by (auto simp: fl_def flagsFromRulesToMap_def)
  have i: "i < 256" using unsigned_less [of "pk_flags pkt"] by (simp add: i_def)
  have tab: "TcpFlagsLookup_updateMap fl i = Some (fl ! i)"
    unfolding TcpFlagsLookup_updateMap_def using map_of_zip_upt [of i fl] i len
    by (subst array_of_nth) (auto simp: set_zip)
  show "stage_contract (flags_matches pkt) rules result (flags_rx rules pkt result)"
  proof (cases "pk_l4proto pkt = TCP8")
    case True
    have "flags_matches pkt r \<longleftrightarrow> pred_option (flags_match (word_of_nat i)) (tcpFlags r)"
      if "r \<in> set rules" for r
      using that wf True by (cases "tcpFlags r")
        (auto simp: flags_matches_def flags_match_def flags_wf_def list_all_iff i_def)
    then have "entry_for (rules_where (flags_matches pkt) rules) (fl ! i)"
      using flagsFromRulesToMap_spec(3) [OF ok _ i] ne
        rules_where_cong [OF ok, of "flags_matches pkt" "\<lambda>r. pred_option (flags_match (word_of_nat i)) (tcpFlags r)"]
      by (simp add: fl_def)
    then show ?thesis using True rne tab
      by (simp add: flags_rx_def TcpFlagsLookup_rx_def contract_and flip: fl_def i_def)
  next
    case False
    then have "\<forall>r \<in> set rules. flags_matches pkt r" by (simp add: flags_matches_def)
    then show ?thesis using False rne by (simp add: flags_rx_def TcpFlagsLookup_rx_def contract_pass)
  qed
next
  fix rules r pkt assume "chain_ok rules" "\<not> flags_present rules" "r \<in> set rules"
  then have "tcpFlags r = None"
    using flagsFromRulesToMap_spec(1) [of rules] unfolding flags_present_def by blast
  then show "flags_matches pkt r" by (simp add: flags_matches_def)
qed

datatype verdict = RX_DROP | RX_OK

section \<open>What a chain should do\<close>

definition rule_matches :: "packetHeaders \<Rightarrow> ChainRule \<Rightarrow> bool" where
  "rule_matches pkt r \<longleftrightarrow>
     conntrack_matches pkt r \<and> ip_matches SOURCE_TYPE pkt r \<and> ip_matches DESTINATION_TYPE pkt r \<and>
     proto_matches pkt r \<and> port_matches SOURCE_TYPE pkt r \<and> port_matches DESTINATION_TYPE pkt r \<and>
     flags_matches pkt r"

fun action_verdict :: "ActionEnum option \<Rightarrow> verdict" where
  "action_verdict (Some ACCEPT) = RX_OK"
| "action_verdict _ = RX_DROP"

definition default_verdict :: "ActionEnum \<Rightarrow> verdict" where
  "default_verdict act = (if act = DROP then RX_DROP else RX_OK)"

definition first_match :: "ActionEnum \<Rightarrow> (ChainRule \<Rightarrow> bool) \<Rightarrow> ChainRule list \<Rightarrow> verdict" where
  "first_match act M rules =
     (case List.find M rules of None \<Rightarrow> default_verdict act | Some r \<Rightarrow> action_verdict (action r))"

definition chain_wf :: "lpm_lookup \<Rightarrow> ChainRule list \<Rightarrow> packetHeaders \<Rightarrow> bool" where
  "chain_wf lpm rules pkt \<longleftrightarrow>
     conntrack_wf rules pkt \<and> ip_wf lpm SOURCE_TYPE rules pkt \<and> ip_wf lpm DESTINATION_TYPE rules pkt \<and>
     proto_wf rules pkt \<and> port_wf SOURCE_TYPE rules pkt \<and> port_wf DESTINATION_TYPE rules pkt \<and> flags_wf rules pkt"

lemma first_match_cong: "(\<And>r. r \<in> set rules \<Longrightarrow> P r = Q r) \<Longrightarrow> first_match act P rules = first_match act Q rules"
  unfolding first_match_def by (metis (no_types, lifting) find_cong)

lemma first_match_none: "rules_where P rules = {} \<Longrightarrow> first_match act P rules = default_verdict act"
proof -
  assume "rules_where P rules = {}"
  then have "List.find P rules = None" by (auto simp: rules_where_def find_None_iff in_set_conv_nth)
  then show ?thesis by (simp add: first_match_def)
qed

end
