(* ===== verification/Fw_Horus.thy ===== *)
theory Fw_Horus
  imports Fw_Datapath "HOL-Library.Product_Lexorder"
begin

text \<open>
  The Horus mitigator: \<open>fromRuleToHorusKeyValue\<close> and \<open>horusFromRulesToMap\<close> of \<open>Utils.cpp\<close>, the class
  \<open>Firewall::Horus\<close> and its datapath. The leading rules that set the same fields are offloaded to
  one hash table, which is consulted before the chain.
\<close>

section \<open>Keys and values\<close>

record HorusRule =
  hr_src_ip :: "32 word"
  hr_dst_ip :: "32 word"
  hr_l4proto :: "8 word"
  hr_src_port :: "16 word"
  hr_dst_port :: "16 word"
  hr_setFields :: "64 word"

record HorusValue =
  hv_action :: "8 word"
  hv_ruleID :: nat

definition SRCIP :: nat where "SRCIP = 0"
definition DSTIP :: nat where "DSTIP = 1"
definition HL4PROTO :: nat where "HL4PROTO = 2"
definition SRCPORT :: nat where "SRCPORT = 3"
definition DSTPORT :: nat where "DSTPORT = 4"
definition MIN_RULE_SIZE_FOR_HORUS :: nat where "MIN_RULE_SIZE_FOR_HORUS = 1"
definition MAX_RULE_SIZE_FOR_HORUS :: nat where "MAX_RULE_SIZE_FOR_HORUS = 2048"

lemmas horus_consts = SRCIP_def DSTIP_def HL4PROTO_def SRCPORT_def DSTPORT_def
  MIN_RULE_SIZE_FOR_HORUS_def MAX_RULE_SIZE_FOR_HORUS_def

text \<open>\<open>operator<\<close> orders the five header fields and leaves \<open>setFields\<close> out.\<close>

type_synonym horus_order = "32 word \<times> 32 word \<times> 8 word \<times> 16 word \<times> 16 word"

definition horus_ord :: "HorusRule \<Rightarrow> horus_order" where
  "horus_ord k = (hr_src_ip k, hr_dst_ip k, hr_l4proto k, hr_src_port k, hr_dst_port k)"

type_synonym horus_map = "(horus_order, HorusRule \<times> HorusValue) smap"

section \<open>From rules to the table\<close>

text \<open>A \<open>try\<close> block that fills one field, its exception caught and ignored.\<close>

fun horus_try :: "'a result \<Rightarrow> ('a \<Rightarrow> HorusRule \<Rightarrow> HorusRule) \<Rightarrow> HorusRule \<Rightarrow> HorusRule" where
  "horus_try (Inl e) f key = key"
| "horus_try (Inr x) f key = f x key"

definition fromRuleToHorusKeyValue :: "ChainRule \<Rightarrow> HorusRule \<Rightarrow> HorusValue \<Rightarrow> (bool \<times> HorusRule \<times> HorusValue) result" where
  "fromRuleToHorusKeyValue rule key0 hval =
     (let key = key0\<lparr>hr_setFields := 0\<rparr> in
      if is_value (getConntrack rule) then Inr (False, key, hval)
      else
        let key = horus_try (rbind (getSrc rule) IpAddr_fromString)
              (\<lambda>ips key. if ia_netmask ips = 32
                 then key\<lparr>hr_setFields := SET_BIT (hr_setFields key) SRCIP, hr_src_ip := ia_ip ips\<rparr> else key) key;
            key = horus_try (rbind (getDst rule) IpAddr_fromString)
              (\<lambda>ipd key. if ia_netmask ipd = 32
                 then key\<lparr>hr_setFields := SET_BIT (hr_setFields key) DSTIP, hr_dst_ip := ia_ip ipd\<rparr> else key) key;
            key = horus_try (rbind (getL4proto rule) protocol_from_string_to_int)
              (\<lambda>proto key. key\<lparr>hr_setFields := SET_BIT (hr_setFields key) HL4PROTO, hr_l4proto := word_of_int proto\<rparr>) key;
            key = horus_try (getSport rule)
              (\<lambda>srcport key. key\<lparr>hr_setFields := SET_BIT (hr_setFields key) SRCPORT, hr_src_port := srcport\<rparr>) key;
            key = horus_try (getDport rule)
              (\<lambda>dstport key. key\<lparr>hr_setFields := SET_BIT (hr_setFields key) DSTPORT, hr_dst_port := dstport\<rparr>) key
        in rbind (getAction rule) (\<lambda>act.
           Inr (True, key, \<lparr>hv_action = (if act = DROP then 0 else 1), hv_ruleID = rid rule\<rparr>)))"

text \<open>
  The loop of \<open>horusFromRulesToMap\<close>. The local variables \<open>key\<close> and \<open>value\<close> start uninitialised:
  their first contents are arguments.
\<close>

fun horus_loop :: "nat \<Rightarrow> 64 word \<Rightarrow> HorusRule \<Rightarrow> HorusValue \<Rightarrow> horus_map \<Rightarrow> ChainRule list \<Rightarrow> horus_map result" where
  "horus_loop i set_fields key hval horus [] = Inr horus"
| "horus_loop i set_fields key hval horus (rule # rules) =
     (if i \<ge> MAX_RULE_SIZE_FOR_HORUS then Inr horus
      else rbind (fromRuleToHorusKeyValue rule key hval) (\<lambda>(ok, key, hval).
        if \<not> ok then Inr horus
        else if i = 0 \<and> hr_setFields key = 0 then Inr horus
        else let set_fields = (if i = 0 then hr_setFields key else set_fields) in
          if hr_setFields key \<noteq> set_fields then Inr horus
          else horus_loop (i + 1) set_fields key hval
                 (smap_insert (horus_ord key) (key, hval) horus) rules))"

definition horusFromRulesToMap :: "HorusRule \<Rightarrow> HorusValue \<Rightarrow> ChainRule list \<Rightarrow> horus_map result" where
  "horusFromRulesToMap key hval rules = horus_loop 0 0 key hval [] rules"

section \<open>The program\<close>

text \<open>
  \<open>struct horusKey\<close> holds only the fields that are set, in the order of \<open>toData\<close>; ports are in
  network order.
\<close>

type_synonym horusKey = "32 word option \<times> 32 word option \<times> 16 word option \<times> 16 word option \<times> 8 word option"

definition when_field :: "64 word \<Rightarrow> nat \<Rightarrow> 'a \<Rightarrow> 'a option" where
  "when_field setFields f x = (if CHECK_BIT setFields f then Some x else None)"

definition toData :: "HorusRule \<Rightarrow> horusKey" where
  "toData k = (when_field (hr_setFields k) SRCIP (hr_src_ip k), when_field (hr_setFields k) DSTIP (hr_dst_ip k),
     when_field (hr_setFields k) SRCPORT (ntohs (hr_src_port k)),
     when_field (hr_setFields k) DSTPORT (ntohs (hr_dst_port k)),
     when_field (hr_setFields k) HL4PROTO (hr_l4proto k))"

definition Horus_updateMap :: "horus_map \<Rightarrow> (horusKey \<rightharpoonup> HorusValue)" where
  "Horus_updateMap horus = hash_of (map (\<lambda>(_, k, v). (toData k, v)) horus)"

text \<open>\<open>getCode\<close> takes the fields to compare from the first entry.\<close>

definition Horus_fields :: "horus_map \<Rightarrow> 64 word" where
  "Horus_fields horus = hr_setFields (fst (snd (hd horus)))"

definition packet_key :: "64 word \<Rightarrow> packetHeaders \<Rightarrow> horusKey" where
  "packet_key f pkt = (when_field f SRCIP (pk_srcIp pkt), when_field f DSTIP (pk_dstIp pkt),
     when_field f SRCPORT (pk_srcPort pkt), when_field f DSTPORT (pk_dstPort pkt),
     when_field f HL4PROTO (pk_l4proto pkt))"

datatype horus_rx = HorusDrop | HorusAccept | HorusPipeline

definition Horus_rx :: "64 word \<Rightarrow> (horusKey \<rightharpoonup> HorusValue) \<Rightarrow> packetHeaders \<Rightarrow> horus_rx" where
  "Horus_rx setFields horusTable pkt =
     (case horusTable (packet_key setFields pkt) of
        None \<Rightarrow> HorusPipeline
      | Some v \<Rightarrow>
          if hv_ruleID v < MAX_RULE_SIZE_FOR_HORUS
          then (if hv_action v = 0 then HorusDrop else if hv_action v = 1 then HorusAccept else HorusPipeline)
          else HorusPipeline)"

section \<open>What a rule contributes\<close>

definition exact_ip :: "IpAddr option \<Rightarrow> 32 word option" where
  "exact_ip a = (case a of None \<Rightarrow> None | Some a \<Rightarrow> if ia_netmask a = 32 then Some (ia_ip a) else None)"

definition set_field :: "'a option \<Rightarrow> nat \<Rightarrow> 64 word \<Rightarrow> 64 word" where
  "set_field f j w = (if f = None then w else SET_BIT w j)"

definition rule_fields :: "ChainRule \<Rightarrow> 64 word" where
  "rule_fields r = set_field (dstPort r) DSTPORT (set_field (srcPort r) SRCPORT (set_field (l4Proto r) HL4PROTO
     (set_field (exact_ip (ipDst r)) DSTIP (set_field (exact_ip (ipSrc r)) SRCIP 0))))"

definition horus_rule :: "HorusRule \<Rightarrow> ChainRule \<Rightarrow> HorusRule" where
  "horus_rule key r = \<lparr>
     hr_src_ip = (case exact_ip (ipSrc r) of None \<Rightarrow> hr_src_ip key | Some a \<Rightarrow> a),
     hr_dst_ip = (case exact_ip (ipDst r) of None \<Rightarrow> hr_dst_ip key | Some a \<Rightarrow> a),
     hr_l4proto = (case l4Proto r of None \<Rightarrow> hr_l4proto key | Some p \<Rightarrow> word_of_int p),
     hr_src_port = (case srcPort r of None \<Rightarrow> hr_src_port key | Some p \<Rightarrow> p),
     hr_dst_port = (case dstPort r of None \<Rightarrow> hr_dst_port key | Some p \<Rightarrow> p),
     hr_setFields = rule_fields r\<rparr>"

definition horus_value :: "ChainRule \<Rightarrow> HorusValue" where
  "horus_value r = \<lparr>hv_action = (if action r = Some DROP then 0 else 1), hv_ruleID = rid r\<rparr>"

lemma fromRuleToHorusKeyValue_ok:
  assumes "rule_ok r"
  shows "fromRuleToHorusKeyValue r key hval =
    (if conntrack r = None then Inr (True, horus_rule key r, horus_value r)
     else Inr (False, key\<lparr>hr_setFields := 0\<rparr>, hval))"
proof -
  obtain act where act: "action r = Some act" using assms by (auto simp: rule_ok_def)
  have src: "rbind (getSrc r) IpAddr_fromString = (case ipSrc r of None \<Rightarrow> Inl (RuntimeError ''Src not set.'') | Some a \<Rightarrow> Inr a)"
    using rule_ip_ok [OF assms, of SOURCE_TYPE] by (cases "ipSrc r") (simp_all add: rule_ip_def)
  have dst: "rbind (getDst r) IpAddr_fromString = (case ipDst r of None \<Rightarrow> Inl (RuntimeError ''Dst not set.'') | Some a \<Rightarrow> Inr a)"
    using rule_ip_ok [OF assms, of DESTINATION_TYPE] by (cases "ipDst r") (simp_all add: rule_ip_def)
  have proto: "rbind (getL4proto r) protocol_from_string_to_int =
      (case l4Proto r of None \<Rightarrow> Inl (RuntimeError ''L4Proto not set.'') | Some p \<Rightarrow> Inr p)"
    using assms by (auto simp: getL4proto_def get_field_def rule_ok_def protocol_print_parse split: option.splits)
  show ?thesis
    unfolding fromRuleToHorusKeyValue_def Let_def src dst proto
    by (cases "conntrack r"; cases "ipSrc r"; cases "ipDst r"; cases "l4Proto r"; cases "srcPort r"; cases "dstPort r")
      (simp_all add: getConntrack_def getSport_def getDport_def getAction_def get_field_def act
        horus_rule_def horus_value_def rule_fields_def set_field_def exact_ip_def)
qed

lemma bit_set_field: "bit (set_field f j w) n \<longleftrightarrow> bit w n \<or> n = j \<and> f \<noteq> None \<and> j < 64"
  by (auto simp: set_field_def bit_SET_BIT)

lemma bit_rule_fields:
  "bit (rule_fields r) SRCIP \<longleftrightarrow> exact_ip (ipSrc r) \<noteq> None"
  "bit (rule_fields r) DSTIP \<longleftrightarrow> exact_ip (ipDst r) \<noteq> None"
  "bit (rule_fields r) HL4PROTO \<longleftrightarrow> l4Proto r \<noteq> None"
  "bit (rule_fields r) SRCPORT \<longleftrightarrow> srcPort r \<noteq> None"
  "bit (rule_fields r) DSTPORT \<longleftrightarrow> dstPort r \<noteq> None"
  by (simp_all add: rule_fields_def bit_set_field horus_consts)

section \<open>What the table holds\<close>

text \<open>Rules with the same fields overwrite the same parts of the key.\<close>

lemma rule_fields_eqD:
  assumes "rule_fields r = rule_fields r'"
  shows "exact_ip (ipSrc r) = None \<longleftrightarrow> exact_ip (ipSrc r') = None"
    and "exact_ip (ipDst r) = None \<longleftrightarrow> exact_ip (ipDst r') = None"
    and "l4Proto r = None \<longleftrightarrow> l4Proto r' = None"
    and "srcPort r = None \<longleftrightarrow> srcPort r' = None"
    and "dstPort r = None \<longleftrightarrow> dstPort r' = None"
  using bit_rule_fields [of r] bit_rule_fields [of r'] unfolding assms by blast+

lemma horus_rule_again:
  assumes "rule_fields r = rule_fields r'" shows "horus_rule (horus_rule key r) r' = horus_rule key r'"
  using rule_fields_eqD [OF assms]
  by (cases "exact_ip (ipSrc r')"; cases "exact_ip (ipDst r')"; cases "l4Proto r'"; cases "srcPort r'"; cases "dstPort r'")
    (simp_all add: horus_rule_def)

definition entry_of :: "HorusRule \<Rightarrow> ChainRule \<Rightarrow> HorusRule \<times> HorusValue" where
  "entry_of key r = (horus_rule key r, horus_value r)"

definition table_of :: "HorusRule \<Rightarrow> ChainRule list \<Rightarrow> horus_order \<Rightarrow> (HorusRule \<times> HorusValue) option" where
  "table_of key rules t = map_option (entry_of key) (List.find (\<lambda>r. horus_ord (horus_rule key r) = t) rules)"

lemma horus_loop_rest:
  assumes "list_all rule_ok rules" "smap_ok m" "0 < i" "i \<le> MAX_RULE_SIZE_FOR_HORUS"
    and "\<And>r. rule_fields r = sf \<Longrightarrow> horus_rule key r = horus_rule key0 r"
  shows "\<exists>m' n. horus_loop i sf key hval m rules = Inr m' \<and> smap_ok m' \<and>
    n \<le> length rules \<and> i + n \<le> MAX_RULE_SIZE_FOR_HORUS \<and>
    (\<forall>r \<in> set (take n rules). conntrack r = None \<and> rule_fields r = sf) \<and>
    (\<forall>t. map_of m' t = (case map_of m t of Some e \<Rightarrow> Some e | None \<Rightarrow> table_of key0 (take n rules) t))"
  using assms
proof (induction rules arbitrary: i key hval m)
  case Nil
  then show ?case by (auto simp: table_of_def split: option.splits)
next
  case (Cons r rules)
  have ok: "rule_ok r" using Cons.prems(1) by simp
  show ?case
  proof (cases "i < MAX_RULE_SIZE_FOR_HORUS \<and> conntrack r = None \<and> rule_fields r = sf")
    case True
    let ?k = "horus_rule key r"
    let ?m = "smap_insert (horus_ord ?k) (?k, horus_value r) m"
    have k: "?k = horus_rule key0 r" using True Cons.prems(5) by simp
    have sf: "hr_setFields ?k = sf" using True by (simp add: horus_rule_def)
    have agree: "horus_rule ?k r' = horus_rule key0 r'" if "rule_fields r' = sf" for r'
      using horus_rule_again [of r r' key] Cons.prems(5) [OF that] True that by simp
    have okm: "smap_ok ?m" by (rule smap_ok_insert [OF Cons.prems(2)])
    obtain m' n where IH: "horus_loop (i + 1) sf ?k (horus_value r) ?m rules = Inr m'" "smap_ok m'"
        "n \<le> length rules" "i + 1 + n \<le> MAX_RULE_SIZE_FOR_HORUS"
        "\<forall>r \<in> set (take n rules). conntrack r = None \<and> rule_fields r = sf"
        "\<forall>t. map_of m' t = (case map_of ?m t of Some e \<Rightarrow> Some e | None \<Rightarrow> table_of key0 (take n rules) t)"
      using Cons.IH [of ?m "i + 1" ?k "horus_value r"] Cons.prems(1) okm True agree by auto
    have step: "horus_loop i sf key hval m (r # rules) = Inr m'"
      using True Cons.prems(3) IH(1) sf by (simp add: fromRuleToHorusKeyValue_ok [OF ok] Let_def)
    have "map_of m' t = (case map_of m t of Some e \<Rightarrow> Some e | None \<Rightarrow> table_of key0 (take (Suc n) (r # rules)) t)" for t
      using IH(6) [rule_format, of t] map_of_smap_insert [OF Cons.prems(2), of "horus_ord ?k" "(?k, horus_value r)"]
      by (auto simp: table_of_def k entry_of_def split: option.splits if_splits)
    then show ?thesis using step IH True by (intro exI [of _ m'] exI [of _ "Suc n"]) auto
  next
    case False
    then have "horus_loop i sf key hval m (r # rules) = Inr m"
      using Cons.prems(3) by (auto simp: fromRuleToHorusKeyValue_ok [OF ok] Let_def horus_rule_def not_less)
    then show ?thesis using Cons.prems by (intro exI [of _ m] exI [of _ 0]) (auto simp: table_of_def split: option.splits)
  qed
qed

text \<open>
  The offloaded rules are a prefix of the chain whose rules all set the same fields, and at each
  key the table holds the first of them.
\<close>

lemma horusFromRulesToMap_spec:
  assumes "list_all rule_ok rules"
  shows "\<exists>m n sf. horusFromRulesToMap key hval rules = Inr m \<and> smap_ok m \<and>
    n \<le> length rules \<and> n \<le> MAX_RULE_SIZE_FOR_HORUS \<and>
    (\<forall>r \<in> set (take n rules). conntrack r = None \<and> rule_fields r = sf) \<and>
    (\<forall>t. map_of m t = table_of key (take n rules) t)"
proof (cases rules)
  case Nil
  then show ?thesis
    by (intro exI [of _ "[]"] exI [of _ 0]) (auto simp: horusFromRulesToMap_def table_of_def)
next
  case (Cons r rest)
  have ok: "rule_ok r" "list_all rule_ok rest" using assms Cons by simp_all
  show ?thesis
  proof (cases "conntrack r = None \<and> rule_fields r \<noteq> 0")
    case True
    let ?k = "horus_rule key r" and ?sf = "rule_fields r"
    have agree: "horus_rule ?k r' = horus_rule key r'" if "rule_fields r' = ?sf" for r'
      using horus_rule_again [of r r' key] that by simp
    obtain m n where L: "horus_loop 1 ?sf ?k (horus_value r) [(horus_ord ?k, ?k, horus_value r)] rest = Inr m" "smap_ok m"
        "n \<le> length rest" "1 + n \<le> MAX_RULE_SIZE_FOR_HORUS"
        "\<forall>r' \<in> set (take n rest). conntrack r' = None \<and> rule_fields r' = ?sf"
        "\<forall>t. map_of m t = (case map_of [(horus_ord ?k, ?k, horus_value r)] t of Some e \<Rightarrow> Some e
           | None \<Rightarrow> table_of key (take n rest) t)"
      using horus_loop_rest [OF ok(2), of "[(horus_ord ?k, ?k, horus_value r)]" 1 ?sf ?k key "horus_value r"] agree
      by (auto simp: smap_ok_def horus_consts)
    have "horusFromRulesToMap key hval rules = Inr m"
      using True L(1)
      by (simp add: Cons horusFromRulesToMap_def fromRuleToHorusKeyValue_ok [OF ok(1)] Let_def horus_consts horus_rule_def)
    moreover have "map_of m t = table_of key (take (Suc n) rules) t" for t
      using L(6) [rule_format, of t] by (auto simp: Cons table_of_def entry_of_def)
    ultimately show ?thesis using L True
      by (intro exI [of _ m] exI [of _ "Suc n"] exI [of _ ?sf]) (auto simp: Cons)
  next
    case False
    then have "horusFromRulesToMap key hval rules = Inr []"
      by (auto simp: Cons horusFromRulesToMap_def fromRuleToHorusKeyValue_ok [OF ok(1)] horus_rule_def horus_consts)
    then show ?thesis by (intro exI [of _ "[]"] exI [of _ 0]) (auto simp: table_of_def)
  qed
qed

text \<open>A rule without fields, such as the default policy at the end, is never offloaded.\<close>

lemma horus_loop_fieldless:
  assumes d: "rule_ok d" "conntrack d = None" "rule_fields d = 0"
  shows "list_all rule_ok rules \<Longrightarrow> 0 < i \<longrightarrow> sf \<noteq> 0 \<Longrightarrow>
    horus_loop i sf key hval m (rules @ [d]) = horus_loop i sf key hval m rules"
proof (induction rules arbitrary: i sf key hval m)
  case Nil
  then show ?case by (auto simp: fromRuleToHorusKeyValue_ok [OF d(1)] d horus_rule_def Let_def)
next
  case (Cons r rules)
  have ok: "rule_ok r" "list_all rule_ok rules" using Cons.prems(1) by simp_all
  have IH: "horus_loop (Suc i) sf' key' hval' m' (rules @ [d]) = horus_loop (Suc i) sf' key' hval' m' rules" if "sf' \<noteq> 0" for sf' key' hval' m'
    using Cons.IH [OF ok(2)] that by simp
  show ?case
    using Cons.prems(2) IH by (auto simp: fromRuleToHorusKeyValue_ok [OF ok(1)] Let_def)
qed

lemma horusFromRulesToMap_fieldless:
  assumes "rule_ok d" "conntrack d = None" "rule_fields d = 0" "list_all rule_ok rules"
  shows "horusFromRulesToMap key hval (rules @ [d]) = horusFromRulesToMap key hval rules"
  unfolding horusFromRulesToMap_def by (rule horus_loop_fieldless [OF assms(1-4)]) simp

section \<open>Lookups\<close>

lemma horus_key_ord:
  assumes "rule_fields r = rule_fields r'"
  shows "toData (horus_rule key r) = toData (horus_rule key r') \<longleftrightarrow>
    horus_ord (horus_rule key r) = horus_ord (horus_rule key r')"
  using rule_fields_eqD [OF assms] assms
  by (cases "exact_ip (ipSrc r')"; cases "exact_ip (ipDst r')"; cases "l4Proto r'"; cases "srcPort r'"; cases "dstPort r'")
    (auto simp: toData_def horus_ord_def horus_rule_def when_field_def CHECK_BIT_bit bit_rule_fields)

definition horus_matches :: "packetHeaders \<Rightarrow> ChainRule \<Rightarrow> bool" where
  "horus_matches pkt r \<longleftrightarrow>
     pred_option (\<lambda>a. a = pk_srcIp pkt) (exact_ip (ipSrc r)) \<and>
     pred_option (\<lambda>a. a = pk_dstIp pkt) (exact_ip (ipDst r)) \<and>
     pred_option (\<lambda>p. ntohs p = pk_srcPort pkt) (srcPort r) \<and>
     pred_option (\<lambda>p. ntohs p = pk_dstPort pkt) (dstPort r) \<and>
     pred_option (\<lambda>p. word_of_int p = pk_l4proto pkt) (l4Proto r)"

lemma packet_key_matches: "toData (horus_rule key r) = packet_key (rule_fields r) pkt \<longleftrightarrow> horus_matches pkt r"
  by (cases "exact_ip (ipSrc r)"; cases "exact_ip (ipDst r)"; cases "l4Proto r"; cases "srcPort r"; cases "dstPort r")
    (simp_all add: toData_def packet_key_def horus_rule_def when_field_def CHECK_BIT_bit bit_rule_fields horus_matches_def)

lemma Horus_updateMap_lookup:
  assumes ok: "smap_ok m" and sf: "\<forall>r \<in> set rs. rule_fields r = sf" and tab: "\<forall>t. map_of m t = table_of key rs t"
  shows "Horus_updateMap m y = map_option horus_value (List.find (\<lambda>r. toData (horus_rule key r) = y) rs)"
proof -
  let ?k = "horus_rule key"
  let ?l = "map (\<lambda>(_, k, v). (toData k, v)) m"
  have mem: "(t, k, v) \<in> set m \<longleftrightarrow>
      (\<exists>r. List.find (\<lambda>r. horus_ord (?k r) = t) rs = Some r \<and> k = ?k r \<and> v = horus_value r)" for t k v
    using map_of_eq_Some_iff [OF smap_ok_distinct [OF ok], of t "(k, v)"] tab
    by (auto simp: table_of_def entry_of_def)
  have src: "\<exists>r \<in> set rs. horus_ord (?k r) = t \<and> k = ?k r" if "(t, k, v) \<in> set m" for t k v
    using that unfolding mem by (auto simp: find_Some_iff)
  have inj: "inj_on (\<lambda>(t, k, v). toData k) (set m)"
  proof (rule inj_onI)
    fix e e' assume e: "e \<in> set m" "e' \<in> set m" "(case e of (t, k, v) \<Rightarrow> toData k) = (case e' of (t, k, v) \<Rightarrow> toData k)"
    obtain t k v t' k' v' where tkv: "e = (t, k, v)" "e' = (t', k', v')" using prod_cases3 by metis
    have a: "(t, k, v) \<in> set m" "(t', k', v') \<in> set m" "toData k = toData k'" using e by (simp_all add: tkv)
    obtain r r' where r: "r \<in> set rs" "horus_ord (?k r) = t" "k = ?k r" "r' \<in> set rs" "horus_ord (?k r') = t'" "k' = ?k r'"
      using src [OF a(1)] src [OF a(2)] by blast
    then have "t = t'" using a(3) horus_key_ord [of r r' key] sf by simp
    then show "e = e'"
      using a(1,2) map_of_eq_Some_iff [OF smap_ok_distinct [OF ok], of t] tkv by (metis option.inject)
  qed
  have keys: "map fst ?l = map (\<lambda>(t, k, v). toData k) m" by (induction m) auto
  have "distinct m" using smap_ok_distinct [OF ok] by (simp add: distinct_map)
  then have dist: "distinct (map fst ?l)" unfolding keys using inj by (simp only: distinct_map)
  note look = map_of_eq_Some_iff [OF dist]
  show ?thesis
  proof (cases "List.find (\<lambda>r. toData (?k r) = y) rs")
    case (Some r)
    then have rin: "r \<in> set rs" "toData (?k r) = y" by (auto simp: find_Some_iff)
    have "List.find (\<lambda>r'. horus_ord (?k r') = horus_ord (?k r)) rs = List.find (\<lambda>r'. toData (?k r') = y) rs"
      by (rule find_cong [OF refl]) (use horus_key_ord sf rin in auto)
    then have "(horus_ord (?k r), ?k r, horus_value r) \<in> set m" unfolding mem using Some by auto
    then have "(y, horus_value r) \<in> set ?l" using rin(2) by force
    then show ?thesis using look Some by (simp add: Horus_updateMap_def hash_of_map_of [OF dist])
  next
    case None
    then have "y \<notin> fst ` set ?l" using src by (fastforce simp: find_None_iff)
    then have "map_of ?l y = None" by (simp only: map_of_eq_None_iff not_False_eq_True)
    then show ?thesis using None by (simp add: Horus_updateMap_def hash_of_map_of [OF dist])
  qed
qed

text \<open>
  The program answers for the first offloaded rule whose compared fields agree with the packet.
\<close>

lemma Horus_rx_spec:
  assumes ok: "chain_ok rules" and m: "horusFromRulesToMap key hval rules = Inr m" and ne: "m \<noteq> []"
  shows "\<exists>n \<le> length rules. 0 < n \<and> (\<forall>r \<in> set (take n rules). conntrack r = None) \<and>
    Horus_rx (Horus_fields m) (Horus_updateMap m) pkt =
      (case List.find (horus_matches pkt) (take n rules) of
         None \<Rightarrow> HorusPipeline
       | Some r \<Rightarrow> if action r = Some DROP then HorusDrop else HorusAccept)"
proof -
  have rok: "list_all rule_ok rules" using ok by (simp add: chain_ok_def)
  obtain n sf where S: "smap_ok m" "n \<le> length rules" "n \<le> MAX_RULE_SIZE_FOR_HORUS"
      "\<forall>r \<in> set (take n rules). conntrack r = None \<and> rule_fields r = sf"
      "\<forall>t. map_of m t = table_of key (take n rules) t"
    using horusFromRulesToMap_spec [OF rok, of key hval] m by auto
  obtain t k v where hd: "hd m = (t, k, v)" "(t, k, v) \<in> set m" using ne by (metis list.set_sel(1) prod_cases3)
  then have "map_of m t = Some (k, v)" using smap_ok_distinct [OF S(1)] by (simp add: map_of_eq_Some_iff)
  then obtain r where r: "List.find (\<lambda>r. horus_ord (horus_rule key r) = t) (take n rules) = Some r" "k = horus_rule key r"
    using S(5) by (auto simp: table_of_def entry_of_def)
  then have rin: "r \<in> set (take n rules)" using find_Some_in by fast
  then have "0 < n" by (cases n) auto
  have sf: "Horus_fields m = sf" using S(4) rin by (simp add: Horus_fields_def hd r(2) horus_rule_def)
  have "Horus_updateMap m (packet_key sf pkt) = map_option horus_value (List.find (horus_matches pkt) (take n rules))"
  proof -
    have "List.find (\<lambda>r. toData (horus_rule key r) = packet_key sf pkt) (take n rules) =
        List.find (horus_matches pkt) (take n rules)"
      by (rule find_cong [OF refl]) (use S(4) packet_key_matches [of key _ pkt] in auto)
    then show ?thesis using Horus_updateMap_lookup [OF S(1) _ S(5), of sf] S(4) by simp
  qed
  moreover have "hv_ruleID (horus_value r) < MAX_RULE_SIZE_FOR_HORUS" if "r \<in> set (take n rules)" for r
    using that S(2,3) chain_ok_rid [OF ok] by (auto simp: horus_value_def in_set_conv_nth)
  ultimately have "Horus_rx (Horus_fields m) (Horus_updateMap m) pkt =
      (case List.find (horus_matches pkt) (take n rules) of
         None \<Rightarrow> HorusPipeline
       | Some r \<Rightarrow> if action r = Some DROP then HorusDrop else HorusAccept)"
    by (cases "List.find (horus_matches pkt) (take n rules)")
      (auto simp: Horus_rx_def sf horus_value_def dest!: find_Some_in)
  then show ?thesis using S \<open>0 < n\<close> by blast
qed

section \<open>When the offload is sound\<close>

text \<open>
  The key ignores addresses that are not single hosts and TCP flags, and it compares ports that
  only TCP and UDP packets have.
\<close>

definition horus_exact :: "packetHeaders \<Rightarrow> ChainRule \<Rightarrow> bool" where
  "horus_exact pkt r \<longleftrightarrow>
     pred_option (\<lambda>a. ia_netmask a = 32) (ipSrc r) \<and> pred_option (\<lambda>a. ia_netmask a = 32) (ipDst r) \<and>
     tcpFlags r = None \<and>
     (srcPort r = None \<and> dstPort r = None \<or> pk_l4proto pkt = TCP8 \<or> pk_l4proto pkt = UDP8)"

lemma cidr_match_host: "ia_netmask k = 32 \<Longrightarrow> cidr_match k a \<longleftrightarrow> ia_ip k = a"
proof -
  assume "ia_netmask k = 32"
  then have "cidr_match k a \<longleftrightarrow> (\<forall>j < 32. bit (ia_ip k) j = bit a j)"
    using all_nbit [of 32 "\<lambda>j. bit (ia_ip k) j = bit a j"] by (simp add: cidr_match_def)
  then show ?thesis by (auto intro: bit_word_eqI)
qed

lemma horus_exact_matches:
  assumes "horus_exact pkt r" "conntrack r = None" shows "horus_matches pkt r \<longleftrightarrow> rule_matches pkt r"
  using assms
  by (cases "ipSrc r"; cases "ipDst r")
    (auto simp: horus_exact_def horus_matches_def rule_matches_def exact_ip_def conntrack_matches_def ip_matches_def
      proto_matches_def port_matches_def flags_matches_def pk_ip_def pk_port_def rule_port_def cidr_match_host)

lemma find_take_append:
  "List.find P rules = (case List.find P (take n rules) of None \<Rightarrow> List.find P (drop n rules) | Some r \<Rightarrow> Some r)"
proof -
  have "List.find P (xs @ ys) = (case List.find P xs of None \<Rightarrow> List.find P ys | Some r \<Rightarrow> Some r)" for xs ys
    by (induction xs) auto
  from this [of "take n rules" "drop n rules"] show ?thesis by simp
qed

text \<open>The mitigator in front of a chain: a miss goes on to the chain.\<close>

fun horus_verdict :: "verdict \<Rightarrow> horus_rx \<Rightarrow> verdict" where
  "horus_verdict chain HorusDrop = RX_DROP"
| "horus_verdict chain HorusAccept = RX_OK"
| "horus_verdict chain HorusPipeline = chain"

lemma Horus_sound:
  assumes ok: "chain_ok rules" and m: "horusFromRulesToMap key hval rules = Inr m" and ne: "m \<noteq> []"
    and ex: "list_all (horus_exact pkt) rules" and nolog: "list_all (\<lambda>r. action r \<noteq> Some LOG) rules"
  shows "horus_verdict (first_match act (rule_matches pkt) rules) (Horus_rx (Horus_fields m) (Horus_updateMap m) pkt) =
    first_match act (rule_matches pkt) rules"
proof -
  obtain n where n: "\<forall>r \<in> set (take n rules). conntrack r = None"
      "Horus_rx (Horus_fields m) (Horus_updateMap m) pkt =
        (case List.find (horus_matches pkt) (take n rules) of
           None \<Rightarrow> HorusPipeline
         | Some r \<Rightarrow> if action r = Some DROP then HorusDrop else HorusAccept)"
    using Horus_rx_spec [OF ok m ne, of pkt] by blast
  have eq: "List.find (horus_matches pkt) (take n rules) = List.find (rule_matches pkt) (take n rules)"
  proof (rule find_cong [OF refl])
    fix r assume "r \<in> set (take n rules)"
    then show "horus_matches pkt r = rule_matches pkt r"
      using n(1) ex by (intro horus_exact_matches) (auto simp: list_all_iff dest: in_set_takeD)
  qed
  show ?thesis
  proof (cases "List.find (rule_matches pkt) (take n rules)")
    case None
    then show ?thesis by (simp add: n(2) eq)
  next
    case (Some r)
    then have "r \<in> set rules" by (auto simp: find_Some_iff dest: in_set_takeD)
    then have "action r = Some DROP \<or> action r = Some ACCEPT"
      using nolog ok by (cases "action r"; cases "the (action r)") (auto simp: list_all_iff chain_ok_def rule_ok_def)
    then show ?thesis
      using Some find_take_append [of "rule_matches pkt" rules n] by (auto simp: n(2) eq first_match_def)
  qed
qed

end
