(* ===== verification/Cube_Programs.thy ===== *)
theory Cube_Programs
  imports Prelude
begin

text \<open>
  The daemon's tables of eBPF programs: \<open>IDGenerator\<close> (\<open>id_generator.cpp\<close>), \<open>PatchPanel\<close>
  (\<open>patchpanel.cpp\<close>) and the program arrays of \<open>BaseCube\<close> (\<open>base_cube.cpp\<close>). A program is a value of
  an arbitrary type; whether libbcc compiles and loads it is a parameter. Operations return the new
  state with a value or an exception, since an exception may leave a changed state behind.
\<close>

section \<open>Ordered sets\<close>

text \<open>\<open>std::set\<close> of integers: a strictly increasing list.\<close>

fun oset_insert :: "nat \<Rightarrow> nat list \<Rightarrow> nat list" where
  "oset_insert x [] = [x]"
| "oset_insert x (y # ys) = (if x < y then x # y # ys else if x = y then y # ys else y # oset_insert x ys)"

definition oset_erase :: "nat \<Rightarrow> nat list \<Rightarrow> nat list" where
  "oset_erase x s = filter (\<lambda>y. y \<noteq> x) s"

lemma set_oset_insert [simp]: "set (oset_insert x s) = insert x (set s)"
  by (induction s) auto

lemma set_oset_erase [simp]: "set (oset_erase x s) = set s - {x}"
  by (auto simp: oset_erase_def)

lemma sorted_oset_insert [simp]: "sorted_wrt (<) s \<Longrightarrow> sorted_wrt (<) (oset_insert x s)"
  by (induction s) auto

lemma sorted_oset_erase [simp]: "sorted_wrt (<) s \<Longrightarrow> sorted_wrt (<) (oset_erase x s)"
  by (simp add: oset_erase_def sorted_wrt_filter)

lemma oset_hd_least: "sorted_wrt (<) s \<Longrightarrow> x \<in> set s \<Longrightarrow> hd s \<le> (x :: nat)"
  by (cases s) auto

section \<open>Identifiers\<close>

definition IDGenerator :: "nat \<Rightarrow> nat list" where
  "IDGenerator n = foldl (\<lambda>s i. oset_insert i s) [] [0..<n]"

definition acquire :: "nat list \<Rightarrow> nat list \<times> nat result" where
  "acquire elements =
     (case elements of
        [] \<Rightarrow> (elements, Inl (RuntimeError ''No free elements in IDGenerator''))
      | v # _ \<Rightarrow> (oset_erase v elements, Inr v))"

definition release :: "nat \<Rightarrow> nat list \<Rightarrow> nat list" where
  "release v elements = oset_insert v elements"

text \<open>
  The generator and the identifiers in use: what cubes and ports do with it. An identifier is given
  back by the one that holds it.
\<close>

inductive id_step :: "nat list \<times> nat set \<Rightarrow> nat list \<times> nat set \<Rightarrow> bool" where
  id_acquire: "acquire s = (s', Inr v) \<Longrightarrow> id_step (s, used) (s', insert v used)"
| id_release: "v \<in> used \<Longrightarrow> id_step (s, used) (release v s, used - {v})"

inductive_cases id_stepE [elim]: "id_step st st'"

definition id_inv :: "nat \<Rightarrow> nat list \<times> nat set \<Rightarrow> bool" where
  "id_inv n = (\<lambda>(s, used). sorted_wrt (<) s \<and> set s \<inter> used = {} \<and> set s \<union> used = {..<n})"

lemma IDGenerator_inv: "id_inv n (IDGenerator n, {})"
proof -
  have "set (foldl (\<lambda>s i. oset_insert i s) s xs) = set s \<union> set xs" for s xs
    by (induction xs arbitrary: s) auto
  moreover have "sorted_wrt (<) s \<Longrightarrow> sorted_wrt (<) (foldl (\<lambda>s i. oset_insert i s) s xs)" for s xs
    by (induction xs arbitrary: s) auto
  ultimately show ?thesis by (auto simp: id_inv_def IDGenerator_def)
qed

lemma id_step_inv: "id_step st st' \<Longrightarrow> id_inv n st \<Longrightarrow> id_inv n st'"
proof (induction rule: id_step.induct)
  case (id_acquire s s' v used)
  then show ?case by (cases s) (auto simp: id_inv_def acquire_def)
next
  case (id_release v used s)
  then show ?case by (auto simp: id_inv_def release_def)
qed

lemma id_reachable_inv: "id_step\<^sup>*\<^sup>* st st' \<Longrightarrow> id_inv n st \<Longrightarrow> id_inv n st'"
  by (induction rule: rtranclp_induct) (auto intro: id_step_inv)

lemma acquire_fresh:
  assumes "id_inv n (s, used)"
  shows "acquire s = (if used = {..<n} then (s, Inl (RuntimeError ''No free elements in IDGenerator''))
    else (oset_erase (hd s) s, Inr (LEAST v. v \<notin> used)))"
proof (cases s)
  case Nil
  then show ?thesis using assms by (simp add: acquire_def id_inv_def)
next
  case (Cons v vs)
  have mem: "x \<in> set s \<longleftrightarrow> x < n \<and> x \<notin> used" for x using assms by (auto simp: id_inv_def)
  have "v < n" "v \<notin> used" using mem [of v] Cons by auto
  moreover have "v \<le> x" if "x \<notin> used" for x
  proof (cases "x < n")
    case True
    then show ?thesis using that mem [of x] oset_hd_least [of s x] assms Cons by (simp add: id_inv_def)
  qed (use \<open>v < n\<close> in simp)
  ultimately have "(LEAST v. v \<notin> used) = v" by (intro Least_equality) auto
  then show ?thesis using \<open>v < n\<close> \<open>v \<notin> used\<close> Cons by (auto simp: acquire_def)
qed

section \<open>The patch panel\<close>

text \<open>
  The two instances share the free indexes \<open>node_ids_\<close>; each has its own presence flags and its
  own kernel table.
\<close>

datatype instance_name = TC | XDP

record 'c panel =
  node_ids :: "nat list"
  nodes_present :: "instance_name \<Rightarrow> bool list"
  nodes :: "instance_name \<Rightarrow> nat \<rightharpoonup> 'c"

definition POLYCUBE_MAX_NODES :: nat where
  "POLYCUBE_MAX_NODES = 1024"

definition PatchPanel :: "'c panel" where
  "PatchPanel = \<lparr>node_ids = foldl (\<lambda>s i. oset_insert i s) [] [1..<POLYCUBE_MAX_NODES],
     nodes_present = (\<lambda>_. replicate POLYCUBE_MAX_NODES False), nodes = (\<lambda>_. Map.empty)\<rparr>"

definition panel_write :: "instance_name \<Rightarrow> nat \<Rightarrow> 'c \<Rightarrow> 'c panel \<Rightarrow> 'c panel" where
  "panel_write x i fd p = p\<lparr>nodes := (nodes p)(x := (nodes p x)(i \<mapsto> fd))\<rparr>"

definition panel_mark :: "instance_name \<Rightarrow> nat \<Rightarrow> bool \<Rightarrow> 'c panel \<Rightarrow> 'c panel" where
  "panel_mark x i b p = p\<lparr>nodes_present := (nodes_present p)(x := (nodes_present p x)[i := b])\<rparr>"

text \<open>\<open>*node_ids_.begin()\<close> of an empty set is undefined.\<close>

definition panel_add :: "instance_name \<Rightarrow> 'c \<Rightarrow> 'c panel \<Rightarrow> 'c panel \<times> nat result" where
  "panel_add x fd p =
     (case node_ids p of
        [] \<Rightarrow> (p, Inl (UndefinedBehaviour ''begin() of an empty set''))
      | i # _ \<Rightarrow> (panel_mark x i True (panel_write x i fd (p\<lparr>node_ids := oset_erase i (node_ids p)\<rparr>)), Inr i))"

definition panel_add_at :: "instance_name \<Rightarrow> 'c \<Rightarrow> nat \<Rightarrow> 'c panel \<Rightarrow> 'c panel \<times> unit result" where
  "panel_add_at x fd index p =
     (if nodes_present p x ! index then (p, Inl (RuntimeError ''Index is busy''))
      else (panel_mark x index True (panel_write x index fd (p\<lparr>node_ids := oset_erase index (node_ids p)\<rparr>)), Inr ()))"

definition panel_remove :: "instance_name \<Rightarrow> nat \<Rightarrow> 'c panel \<Rightarrow> 'c panel" where
  "panel_remove x index p =
     (let p = p\<lparr>nodes := (nodes p)(x := (nodes p x)(index := None))\<rparr>;
          p = panel_mark XDP index False (panel_mark TC index False p)
      in p\<lparr>node_ids := oset_insert index (node_ids p)\<rparr>)"

definition panel_update :: "instance_name \<Rightarrow> nat \<Rightarrow> 'c \<Rightarrow> 'c panel \<Rightarrow> 'c panel \<times> unit result" where
  "panel_update x index fd p =
     (if \<not> nodes_present p x ! index then (p, Inl (RuntimeError ''Index is not registered''))
      else (panel_write x index fd p, Inr ()))"

text \<open>
  The free indexes are the indexes 1 to 1023 that neither instance has marked; a marked index has a
  program in its instance's table.
\<close>

definition panel_inv :: "'c panel \<Rightarrow> bool" where
  "panel_inv p \<longleftrightarrow>
     (\<forall>x. length (nodes_present p x) = POLYCUBE_MAX_NODES) \<and> sorted_wrt (<) (node_ids p) \<and>
     set (node_ids p) = {i. 0 < i \<and> i < POLYCUBE_MAX_NODES \<and> (\<forall>x. \<not> nodes_present p x ! i)} \<and>
     (\<forall>x. \<forall>i < POLYCUBE_MAX_NODES. nodes_present p x ! i \<longrightarrow> nodes p x i \<noteq> None)"

lemma all_instances: "(\<forall>x. P x) \<longleftrightarrow> P TC \<and> P XDP"
  by (metis instance_name.exhaust)

lemma PatchPanel_inv: "panel_inv PatchPanel"
proof -
  have "set (foldl (\<lambda>s i. oset_insert i s) s xs) = set s \<union> set xs" for s xs
    by (induction xs arbitrary: s) auto
  moreover have "sorted_wrt (<) s \<Longrightarrow> sorted_wrt (<) (foldl (\<lambda>s i. oset_insert i s) s xs)" for s xs
    by (induction xs arbitrary: s) auto
  ultimately show ?thesis by (auto simp: panel_inv_def PatchPanel_def)
qed

lemma PatchPanel_room: "is_value (snd (panel_add x fd PatchPanel))"
proof -
  have "set (foldl (\<lambda>s i. oset_insert i s) s is) = set s \<union> set is" for s "is" by (induction "is" arbitrary: s) auto
  then have "node_ids PatchPanel \<noteq> []" by (auto simp: PatchPanel_def POLYCUBE_MAX_NODES_def simp flip: set_empty)
  then show ?thesis by (auto simp: panel_add_def split: list.split)
qed

lemma panel_add_inv:
  assumes "panel_inv p" "panel_add x fd p = (p', Inr i)"
  shows "panel_inv p' \<and> nodes p' x i = Some fd \<and> (\<forall>y. \<not> nodes_present p y ! i) \<and> 0 < i \<and> i < POLYCUBE_MAX_NODES"
proof -
  obtain ids where ids: "node_ids p = i # ids"
    and p': "p' = panel_mark x i True (panel_write x i fd (p\<lparr>node_ids := oset_erase i (node_ids p)\<rparr>))"
    using assms(2) by (auto simp: panel_add_def split: list.splits)
  have "i \<in> set (node_ids p)" by (simp add: ids)
  then have i: "0 < i" "i < POLYCUBE_MAX_NODES" "\<forall>y. \<not> nodes_present p y ! i" using assms(1) by (auto simp: panel_inv_def)
  have "set (node_ids p') = {j. 0 < j \<and> j < POLYCUBE_MAX_NODES \<and> (\<forall>y. \<not> nodes_present p' y ! j)}"
    using assms(1) i by (auto simp: p' panel_mark_def panel_write_def panel_inv_def nth_list_update)
  then show ?thesis
    using assms(1) i
    by (auto simp: panel_inv_def p' panel_mark_def panel_write_def nth_list_update)
qed

lemma panel_add_at_inv:
  assumes "panel_inv p" "panel_add_at x fd i p = (p', Inr u)" "i < POLYCUBE_MAX_NODES"
  shows "panel_inv p' \<and> nodes p' x i = Some fd"
  using assms
  by (auto simp: panel_add_at_def panel_inv_def panel_mark_def panel_write_def nth_list_update split: if_splits)

lemma panel_update_inv:
  assumes "panel_inv p" "panel_update x i fd p = (p', r)" shows "panel_inv p'"
  using assms by (auto simp: panel_update_def panel_inv_def panel_write_def split: if_splits)

lemma panel_remove_inv:
  assumes "panel_inv p" "0 < i" "i < POLYCUBE_MAX_NODES"
  shows "panel_inv (panel_remove x i p) \<and> i \<in> set (node_ids (panel_remove x i p))"
proof -
  let ?p = "panel_remove x i p"
  have pres: "nodes_present ?p y = (nodes_present p y)[i := False]" for y
    by (cases y) (simp_all add: panel_remove_def panel_mark_def Let_def)
  have ids: "set (node_ids ?p) = insert i (set (node_ids p))" by (simp add: panel_remove_def panel_mark_def Let_def)
  have tab: "nodes ?p y j = (if y = x \<and> j = i then None else nodes p y j)" for y j
    by (simp add: panel_remove_def panel_mark_def Let_def)
  have srt: "sorted_wrt (<) (node_ids ?p)"
    using assms(1) by (simp add: panel_remove_def panel_mark_def Let_def panel_inv_def)
  show ?thesis
    using assms unfolding panel_inv_def pres ids tab by (auto simp: nth_list_update srt split: if_splits)
qed

section \<open>The program arrays of a cube\<close>

text \<open>
  One direction of a cube: \<open>programs\<close> the array of program objects, \<open>programs_table\<close> the kernel
  table that tail calls go through, \<open>programs_code\<close> the last code used, \<open>first_index\<close> the index in the patch
  panel (0 when not registered) and the panel itself. An object that failed to compile is in
  \<open>programs\<close> but not in the table.
\<close>

record 'c cube =
  programs :: "'c option list"
  programs_table :: "nat \<rightharpoonup> 'c"
  programs_code :: "'c option list"
  first_index :: nat
  panel_of :: "'c panel"

definition POLYCUBE_MAX_BPF_PROGRAMS :: nat where
  "POLYCUBE_MAX_BPF_PROGRAMS = 64"

definition empty_cube :: "'c panel \<Rightarrow> 'c cube" where
  "empty_cube p = \<lparr>programs = replicate POLYCUBE_MAX_BPF_PROGRAMS None, programs_table = Map.empty,
     programs_code = replicate POLYCUBE_MAX_BPF_PROGRAMS None, first_index = 0, panel_of = p\<rparr>"

fun first_null :: "nat \<Rightarrow> 'c option list \<Rightarrow> nat option" where
  "first_null i [] = None"
| "first_null i (p # ps) = (if p = None then Some i else first_null (Suc i) ps)"

text \<open>
  Where the program goes: a given index must be free; \<open>-1\<close> is meant for the first free one.
  The bound \<open>index >= programs.size()\<close> compares an \<open>int\<close> with a \<open>size_t\<close>: the index is first converted to 64
  unsigned bits, so \<open>-1\<close> is the largest value and is refused here; the search for a free index is never reached.
\<close>

definition as_size_t :: "int \<Rightarrow> int" where
  "as_size_t index = (if index < 0 then index + 2 ^ 64 else index)"

definition choose_index :: "int \<Rightarrow> 'c option list \<Rightarrow> nat result" where
  "choose_index index ps =
     (if index < -1 \<or> int (length ps) \<le> as_size_t index then Inl (RuntimeError ''Invalid ebpf program index'')
      else if index \<noteq> -1
      then (if ps ! nat index \<noteq> None then Inl (RuntimeError ''Program is not empty'') else Inr (nat index))
      else (case first_null 0 ps of
              None \<Rightarrow> Inl (RuntimeError ''Maximum number of programs reached'')
            | Some i \<Rightarrow> Inr i))"

definition register_first :: "instance_name \<Rightarrow> 'c \<Rightarrow> 'c cube \<Rightarrow> 'c cube \<times> unit result" where
  "register_first x code c =
     (if first_index c \<noteq> 0
      then (let (p, r) = panel_update x (first_index c) code (panel_of c) in (c\<lparr>panel_of := p\<rparr>, r))
      else (case panel_add x code (panel_of c) of
              (p, Inl e) \<Rightarrow> (c\<lparr>panel_of := p\<rparr>, Inl e)
            | (p, Inr i) \<Rightarrow> (c\<lparr>panel_of := p, first_index := i\<rparr>, Inr ())))"

definition do_add_program :: "('c \<Rightarrow> bool) \<Rightarrow> instance_name \<Rightarrow> 'c \<Rightarrow> int \<Rightarrow> 'c cube \<Rightarrow> 'c cube \<times> nat result" where
  "do_add_program compiles x code index c =
     (case choose_index index (programs c) of
        Inl e \<Rightarrow> (c, Inl e)
      | Inr i \<Rightarrow>
          (let c1 = c\<lparr>programs := (programs c)[i := Some code]\<rparr> in
           if \<not> compiles code then (c1, Inl (RuntimeError ''failed to load program''))
           else
             let c2 = c1\<lparr>programs_table := (programs_table c)(i \<mapsto> code)\<rparr>;
                 (c3, r) = (if i = 0 then register_first x code c2 else (c2, Inr ()))
             in case r of
                  Inl e \<Rightarrow> (c3, Inl e)
                | Inr _ \<Rightarrow> (c3\<lparr>programs_code := (programs_code c3)[i := Some code]\<rparr>, Inr i)))"

definition do_reload :: "('c \<Rightarrow> bool) \<Rightarrow> instance_name \<Rightarrow> 'c \<Rightarrow> nat \<Rightarrow> 'c cube \<Rightarrow> 'c cube \<times> unit result" where
  "do_reload compiles x code i c =
     (if length (programs c) \<le> i then (c, Inl (RuntimeError ''Invalid ebpf program index''))
      else if programs c ! i = None then (c, Inl (RuntimeError ''ebpf does not exist''))
      else if \<not> compiles code then (c, Inl (RuntimeError ''failed to load program''))
      else
        let c1 = c\<lparr>programs_table := (programs_table c)(i \<mapsto> code)\<rparr>;
            (c2, r) = (if i = 0 then (let (p, r) = panel_update x (first_index c1) code (panel_of c1)
                                      in (c1\<lparr>panel_of := p\<rparr>, r))
                       else (c1, Inr ()))
        in case r of
             Inl e \<Rightarrow> (c2, Inl e)
           | Inr _ \<Rightarrow> (c2\<lparr>programs := (programs c2)[i := Some code],
                          programs_code := (programs_code c2)[i := Some code]\<rparr>, Inr ()))"

definition do_del_program :: "nat \<Rightarrow> 'c cube \<Rightarrow> 'c cube \<times> unit result" where
  "do_del_program i c =
     (if length (programs c) \<le> i then (c, Inl (RuntimeError ''Invalid ebpf program index''))
      else if programs c ! i = None then (c, Inl (RuntimeError ''ebpf program does not exist''))
      else (c\<lparr>programs_table := (programs_table c)(i := None), programs := (programs c)[i := None],
              programs_code := (programs_code c)[i := None]\<rparr>, Inr ()))"

text \<open>\<open>BaseCube::uninit\<close> for one direction.\<close>

definition uninit :: "instance_name \<Rightarrow> 'c cube \<Rightarrow> 'c cube" where
  "uninit x c =
     (let c1 = (if first_index c \<noteq> 0 then c\<lparr>panel_of := panel_remove x (first_index c) (panel_of c)\<rparr> else c)
      in foldl (\<lambda>c i. if programs c ! i \<noteq> None then fst (do_del_program i c) else c) c1 [0..<length (programs c1)])"

text \<open>
  The state between two calls when every program compiles: the arrays have their size, the objects
  are exactly the programs in the kernel table with their code, and a cube that is registered is in
  the panel.
\<close>

definition cube_inv :: "instance_name \<Rightarrow> 'c cube \<Rightarrow> bool" where
  "cube_inv x c \<longleftrightarrow>
     length (programs c) = POLYCUBE_MAX_BPF_PROGRAMS \<and> programs_code c = programs c \<and>
     (\<forall>i. programs_table c i = (if i < POLYCUBE_MAX_BPF_PROGRAMS then programs c ! i else None)) \<and>
     panel_inv (panel_of c) \<and> first_index c < POLYCUBE_MAX_NODES \<and>
     (first_index c = 0 \<or> nodes_present (panel_of c) x ! first_index c)"

lemma empty_cube_inv: "panel_inv p \<Longrightarrow> cube_inv x (empty_cube p)"
  by (auto simp: cube_inv_def empty_cube_def POLYCUBE_MAX_NODES_def POLYCUBE_MAX_BPF_PROGRAMS_def)

lemma first_null_spec:
  "first_null i ps = Some k \<longleftrightarrow> i \<le> k \<and> k - i < length ps \<and> ps ! (k - i) = None \<and> (\<forall>j < k - i. ps ! j \<noteq> None)"
proof (induction ps arbitrary: i)
  case (Cons p ps)
  show ?case
  proof (cases "p = None \<or> k \<le> i")
    case True
    then show ?thesis using Cons [of "Suc i"] by (auto simp: nth_Cons' intro: le_antisym)
  next
    case False
    then have e: "k - i = Suc (k - Suc i)" by (simp add: Suc_diff_Suc)
    show ?thesis using False Cons [of "Suc i"] unfolding e by (auto simp: less_Suc_eq_0_disj)
  qed
qed simp

lemma choose_index_free:
  assumes "choose_index index ps = Inr i" "length ps < 2 ^ 63" shows "i < length ps \<and> ps ! i = None \<and> index = int i"
  using assms by (auto simp: choose_index_def as_size_t_def split: if_splits)

lemma choose_index_given:
  "i < length ps \<Longrightarrow> choose_index (int i) ps =
     (if ps ! i = None then Inr i else Inl (RuntimeError ''Program is not empty''))"
  by (simp add: choose_index_def as_size_t_def)

text \<open>An index outside the array is refused, and so is the default \<open>-1\<close>, however many entries are free.\<close>

lemma choose_index_refused:
  assumes "length ps < 2 ^ 63" "index < 0 \<or> int (length ps) \<le> index"
  shows "choose_index index ps = Inl (RuntimeError ''Invalid ebpf program index'')"
  using assms by (cases "index = -1") (auto simp: choose_index_def as_size_t_def)

lemma register_first_inv:
  assumes inv: "panel_inv (panel_of c)" "first_index c < POLYCUBE_MAX_NODES"
      "first_index c = 0 \<or> nodes_present (panel_of c) x ! first_index c"
    and r: "register_first x code c = (c', Inr u)"
  shows "panel_inv (panel_of c') \<and> 0 < first_index c' \<and> first_index c' < POLYCUBE_MAX_NODES \<and>
    nodes_present (panel_of c') x ! first_index c' \<and> nodes (panel_of c') x (first_index c') = Some code \<and>
    c' = c\<lparr>panel_of := panel_of c', first_index := first_index c'\<rparr>"
proof (cases "first_index c = 0")
  case True
  then obtain p i where p: "panel_add x code (panel_of c) = (p, Inr i)" and c': "c' = c\<lparr>panel_of := p, first_index := i\<rparr>"
    using r by (auto simp: register_first_def split: prod.splits sum.splits)
  have "nodes_present p x ! i"
    using p inv(1) panel_add_inv [OF inv(1) p]
    by (auto simp: panel_add_def panel_mark_def panel_write_def panel_inv_def split: list.splits)
  then show ?thesis using panel_add_inv [OF inv(1) p] by (simp add: c')
next
  case False
  then obtain p where p: "panel_update x (first_index c) code (panel_of c) = (p, Inr ())" and c': "c' = c\<lparr>panel_of := p\<rparr>"
    using r by (auto simp: register_first_def split: prod.splits)
  then show ?thesis using False inv panel_update_inv [OF inv(1) p]
    by (auto simp: panel_update_def panel_write_def split: if_splits)
qed

text \<open>Adding: on success exactly one program appears, at a free index.\<close>

lemma do_add_program_ok:
  assumes inv: "cube_inv x c" and r: "do_add_program compiles x code index c = (c', Inr i)"
  shows "cube_inv x c' \<and> compiles code \<and> i < POLYCUBE_MAX_BPF_PROGRAMS \<and> index = int i \<and>
    programs_table c i = None \<and> programs_table c' = (programs_table c)(i \<mapsto> code)"
proof -
  have ch: "choose_index index (programs c) = Inr i" and comp: "compiles code"
    using r by (auto simp: do_add_program_def Let_def split: sum.splits if_splits prod.splits)
  have len: "length (programs c) < 2 ^ 63" using inv by (simp add: cube_inv_def POLYCUBE_MAX_BPF_PROGRAMS_def)
  note free = choose_index_free [OF ch len]
  let ?c2 = "c\<lparr>programs := (programs c)[i := Some code], programs_table := (programs_table c)(i \<mapsto> code)\<rparr>"
  obtain c3 where c3: "(if i = 0 then register_first x code ?c2 else (?c2, Inr ())) = (c3, Inr ())"
    and c': "c' = c3\<lparr>programs_code := (programs_code c3)[i := Some code]\<rparr>"
    using r ch comp by (auto simp: do_add_program_def Let_def split: sum.splits prod.splits)
  have keep: "c3 = ?c2\<lparr>panel_of := panel_of c3, first_index := first_index c3\<rparr> \<and> panel_inv (panel_of c3) \<and>
      first_index c3 < POLYCUBE_MAX_NODES \<and> (first_index c3 = 0 \<or> nodes_present (panel_of c3) x ! first_index c3)"
  proof (cases "i = 0")
    case True
    then show ?thesis
      using register_first_inv [of ?c2 x code c3] c3 inv by (auto simp: cube_inv_def)
  next
    case False
    then show ?thesis using c3 inv by (auto simp: cube_inv_def)
  qed
  have fields: "programs c' = (programs c)[i := Some code]" "programs_table c' = (programs_table c)(i \<mapsto> code)"
      "programs_code c' = (programs_code c)[i := Some code]" "panel_of c' = panel_of c3" "first_index c' = first_index c3"
    using keep by (metis (no_types, lifting) c' cube.select_convs cube.surjective cube.update_convs)+
  show ?thesis
    using inv keep free comp unfolding cube_inv_def fields by (auto simp: nth_list_update)
qed

lemma do_add_program_given:
  assumes inv: "cube_inv x c" and i: "0 < i" "i < POLYCUBE_MAX_BPF_PROGRAMS" and comp: "compiles code"
    and free: "programs_table c i = None"
  shows "snd (do_add_program compiles x code (int i) c) = Inr i"
  using assms by (simp add: do_add_program_def choose_index_given cube_inv_def Let_def)

lemma do_add_program_refused:
  assumes "cube_inv x c" "index < 0 \<or> int POLYCUBE_MAX_BPF_PROGRAMS \<le> index"
  shows "do_add_program compiles x code index c = (c, Inl (RuntimeError ''Invalid ebpf program index''))"
proof -
  have "length (programs c) = POLYCUBE_MAX_BPF_PROGRAMS" using assms(1) by (simp add: cube_inv_def)
  then have "choose_index index (programs c) = Inl (RuntimeError ''Invalid ebpf program index'')"
    using assms(2) by (intro choose_index_refused) (simp_all add: POLYCUBE_MAX_BPF_PROGRAMS_def)
  then show ?thesis by (simp add: do_add_program_def)
qed

lemma do_add_program_busy:
  assumes "cube_inv x c" "programs_table c i \<noteq> None"
  shows "fst (do_add_program compiles x code (int i) c) = c"
  using assms by (auto simp: do_add_program_def choose_index_given cube_inv_def split: if_splits)

lemma do_reload_ok:
  assumes inv: "cube_inv x c" and comp: "compiles code" and old: "programs_table c i \<noteq> None"
    and reg: "i = 0 \<Longrightarrow> first_index c \<noteq> 0"
  shows "snd (do_reload compiles x code i c) = Inr () \<and> cube_inv x (fst (do_reload compiles x code i c)) \<and>
    programs_table (fst (do_reload compiles x code i c)) = (programs_table c)(i \<mapsto> code) \<and>
    (i = 0 \<longrightarrow> nodes (panel_of (fst (do_reload compiles x code i c))) x (first_index c) = Some code)"
proof -
  have i: "i < length (programs c)" "programs c ! i \<noteq> None"
    using inv old by (auto simp: cube_inv_def split: if_splits)
  have upd: "i = 0 \<Longrightarrow> panel_update x (first_index c) code (panel_of c) = (panel_write x (first_index c) code (panel_of c), Inr ())"
    using inv reg by (simp add: cube_inv_def panel_update_def)
  have pinv: "i = 0 \<Longrightarrow> panel_inv (panel_write x (first_index c) code (panel_of c))"
    using panel_update_inv [OF _ upd] inv by (simp add: cube_inv_def)
  show ?thesis
  proof (cases "i = 0")
    case True
    then show ?thesis
      using inv comp i upd pinv unfolding do_reload_def Let_def cube_inv_def
      by (auto simp: nth_list_update panel_write_def)
  next
    case False
    then show ?thesis
      using inv comp i unfolding do_reload_def Let_def cube_inv_def by (auto simp: nth_list_update)
  qed
qed

lemma do_del_program_ok:
  assumes "cube_inv x c" "programs_table c i \<noteq> None"
  shows "snd (do_del_program i c) = Inr () \<and> cube_inv x (fst (do_del_program i c)) \<and>
    programs_table (fst (do_del_program i c)) = (programs_table c)(i := None)"
  using assms unfolding do_del_program_def cube_inv_def by (auto simp: nth_list_update split: if_splits)

section \<open>The interface of a program store\<close>

text \<open>
  What a service relies on when it loads, replaces and unloads the programs of a chain: an operation
  touches its own index only, and loading at an index in use does nothing.
\<close>

locale program_store =
  fixes inv :: "'s \<Rightarrow> bool"
    and look :: "'s \<Rightarrow> nat \<rightharpoonup> 'c"
    and add :: "'c \<Rightarrow> nat \<Rightarrow> 's \<Rightarrow> 's"
    and del :: "nat \<Rightarrow> 's \<Rightarrow> 's"
    and cap :: nat
    and good :: "'c \<Rightarrow> bool"
  assumes add_free: "inv s \<Longrightarrow> good c \<Longrightarrow> 0 < i \<Longrightarrow> i < cap \<Longrightarrow> look s i = None \<Longrightarrow>
      inv (add c i s) \<and> look (add c i s) = (look s)(i \<mapsto> c)"
    and add_busy: "inv s \<Longrightarrow> look s i \<noteq> None \<Longrightarrow> add c i s = s"
    and del_used: "inv s \<Longrightarrow> look s i \<noteq> None \<Longrightarrow> inv (del i s) \<and> look (del i s) = (look s)(i := None)"
begin

text \<open>Loading programs one after the other from an index on.\<close>

primrec add_all :: "nat \<Rightarrow> 'c list \<Rightarrow> 's \<Rightarrow> 's" where
  "add_all i [] s = s"
| "add_all i (c # cs) s = add_all (Suc i) cs (add c i s)"

lemma add_all_spec:
  assumes "inv s" "list_all good cs" "0 < i" "i + length cs \<le> cap" "\<forall>j < length cs. look s (i + j) = None"
  shows "inv (add_all i cs s) \<and>
    (\<forall>k. look (add_all i cs s) k = (if i \<le> k \<and> k < i + length cs then Some (cs ! (k - i)) else look s k))"
  using assms
proof (induction cs arbitrary: i s)
  case (Cons c cs)
  have free: "look s i = None" using Cons.prems(5) by force
  have a: "inv (add c i s)" "look (add c i s) = (look s)(i \<mapsto> c)"
    using add_free [of s c i] Cons.prems free by auto
  have "inv (add_all (Suc i) cs (add c i s)) \<and>
      (\<forall>k. look (add_all (Suc i) cs (add c i s)) k =
         (if Suc i \<le> k \<and> k < Suc i + length cs then Some (cs ! (k - Suc i)) else look (add c i s) k))"
  proof (rule Cons.IH)
    show "\<forall>j < length cs. look (add c i s) (Suc i + j) = None"
      using Cons.prems(5)[rule_format, of "Suc j" for j] by (simp add: a(2))
  qed (use a Cons.prems in auto)
  then show ?case
    by (auto simp: a(2) nth_Cons' Suc_le_eq le_less)
qed auto

primrec del_all :: "nat list \<Rightarrow> 's \<Rightarrow> 's" where
  "del_all [] s = s"
| "del_all (i # is) s = del_all is (del i s)"

lemma del_all_spec:
  assumes "inv s" "distinct is" "\<forall>i \<in> set is. look s i \<noteq> None"
  shows "inv (del_all is s) \<and> (\<forall>k. look (del_all is s) k = (if k \<in> set is then None else look s k))"
  using assms
proof (induction "is" arbitrary: s)
  case (Cons i "is")
  have d: "inv (del i s)" "look (del i s) = (look s)(i := None)" using del_used [of s i] Cons.prems by auto
  have "\<forall>j \<in> set is. look (del i s) j \<noteq> None" using Cons.prems by (auto simp: d(2))
  from Cons.IH [OF d(1) _ this] show ?case using Cons.prems by (auto simp: d(2))
qed simp

end

interpretation store: program_store "cube_inv x" programs_table
    "\<lambda>code i c. fst (do_add_program compiles x code (int i) c)" "\<lambda>i c. fst (do_del_program i c)"
    POLYCUBE_MAX_BPF_PROGRAMS compiles for x compiles
proof
  fix s :: "'a cube" and c i
  assume a: "cube_inv x s" "compiles c" "0 < i" "i < POLYCUBE_MAX_BPF_PROGRAMS" "programs_table s i = None"
  have "snd (do_add_program compiles x c (int i) s) = Inr i" using a by (intro do_add_program_given)
  then have "do_add_program compiles x c (int i) s = (fst (do_add_program compiles x c (int i) s), Inr i)"
    by (simp add: prod_eq_iff)
  from do_add_program_ok [OF a(1) this]
  show "cube_inv x (fst (do_add_program compiles x c (int i) s)) \<and>
    programs_table (fst (do_add_program compiles x c (int i) s)) = (programs_table s)(i \<mapsto> c)" by blast
next
  fix s :: "'a cube" and i c assume "cube_inv x s" "programs_table s i \<noteq> None"
  then show "fst (do_add_program compiles x c (int i) s) = s" by (rule do_add_program_busy)
next
  fix s :: "'a cube" and i assume "cube_inv x s" "programs_table s i \<noteq> None"
  then show "cube_inv x (fst (do_del_program i s)) \<and>
    programs_table (fst (do_del_program i s)) = (programs_table s)(i := None)"
    using do_del_program_ok by blast
qed

end
