(* ===== verification/Fw_Pipeline.thy ===== *)
theory Fw_Pipeline
  imports Fw_Horus Cube_Programs
begin

text \<open>
  Loaded programs and their tail calls. A program is a constructor with the macro values and the
  tables it was loaded with; the kernel holds programs by index. \<open>Chain::updateChain\<close> lays the
  programs of a chain out in two passes (first those that may end the walk early), and the theorems
  show that the walk through them decides every packet as the first matching rule says, in whatever
  order the passes put the programs.
\<close>

section \<open>Constants\<close>

text \<open>\<open>namespace ModulesConstants\<close> of \<open>defines.h\<close>.\<close>

definition NR_MODULES :: nat where "NR_MODULES = 9"
definition NR_INITIAL_MODULES :: nat where "NR_INITIAL_MODULES = 7"
definition PARSER :: nat where "PARSER = 0"
definition CONNTRACKLABEL :: nat where "CONNTRACKLABEL = 1"
definition CHAINFORWARDER :: nat where "CHAINFORWARDER = 2"
definition DEFAULTACTION :: nat where "DEFAULTACTION = 3"
definition CONNTRACKTABLEUPDATE :: nat where "CONNTRACKTABLEUPDATE = 4"
definition HORUS_INGRESS :: nat where "HORUS_INGRESS = 5"
definition HORUS_INGRESS_SWAP :: nat where "HORUS_INGRESS_SWAP = 6"
definition CONNTRACKMATCH :: nat where "CONNTRACKMATCH = 7"
definition IPSOURCE :: nat where "IPSOURCE = 8"
definition IPDESTINATION :: nat where "IPDESTINATION = 9"
definition L4PROTO :: nat where "L4PROTO = 10"
definition PORTSOURCE :: nat where "PORTSOURCE = 11"
definition PORTDESTINATION :: nat where "PORTDESTINATION = 12"
definition TCPFLAGS :: nat where "TCPFLAGS = 13"
definition BITSCAN :: nat where "BITSCAN = 14"
definition ACTION :: nat where "ACTION = 15"

lemmas module_consts = NR_MODULES_def NR_INITIAL_MODULES_def PARSER_def CONNTRACKLABEL_def CHAINFORWARDER_def
  DEFAULTACTION_def CONNTRACKTABLEUPDATE_def HORUS_INGRESS_def HORUS_INGRESS_SWAP_def CONNTRACKMATCH_def
  IPSOURCE_def IPDESTINATION_def L4PROTO_def PORTSOURCE_def PORTDESTINATION_def TCPFLAGS_def BITSCAN_def ACTION_def

section \<open>Programs and tail calls\<close>

datatype program =
    FirewallCode
  | Parser nat bool nat bool
  | Horus "64 word" "horusKey \<rightharpoonup> HorusValue" bool
  | ConntrackLabel nat
  | ConntrackMatch nat "nat \<rightharpoonup> elements"
  | IpLookup Type nat "(IpAddr \<times> elements) list"
  | L4ProtocolLookup nat "8 word \<rightharpoonup> elements"
  | L4PortLookup Type nat "16 word \<rightharpoonup> elements" "elements option"
  | TcpFlagsLookup nat "nat \<rightharpoonup> elements"
  | BitScan nat
  | ActionLookup nat "nat \<rightharpoonup> int"
  | ChainForwarder nat nat
  | DefaultAction ActionEnum
  | ConntrackTableUpdate nat

text \<open>
  A tail call to a loaded program does not return; to an empty index, or past the limit of the
  kernel, it does, and the code after the call goes on: the third component.
\<close>

datatype tail = TailCall nat packetHeaders elements tail | Return verdict

definition call_default :: "packetHeaders \<Rightarrow> elements \<Rightarrow> tail" where
  "call_default pkt shared = TailCall DEFAULTACTION pkt shared (Return RX_DROP)"

definition to_tail :: "nat \<Rightarrow> packetHeaders \<Rightarrow> elements \<Rightarrow> rx \<Rightarrow> tail" where
  "to_tail index pkt shared x =
     (case x of
        NextHop r \<Rightarrow> TailCall (index + 1) pkt r (Return RX_DROP)
      | DefaultActionHop \<Rightarrow> call_default pkt shared
      | RxDrop \<Rightarrow> Return RX_DROP)"

text \<open>The bit scan writes the number of the rule it found into the first word.\<close>

definition BitScan_rx :: "nat \<Rightarrow> nat \<Rightarrow> packetHeaders \<Rightarrow> elements \<Rightarrow> tail" where
  "BitScan_rx index nr pkt shared =
     (case (if nr = 0 then NoBit else bitscan_loop 0 (take nr shared)) of
        Matching globalBit \<Rightarrow>
          (let s = shared[0 := word_of_nat globalBit] in TailCall (index + 1) pkt s (call_default pkt s))
      | NoBit \<Rightarrow> call_default pkt shared
      | TableMiss \<Rightarrow> Return RX_DROP)"

definition ActionLookup_rx :: "nat \<Rightarrow> (nat \<rightharpoonup> int) \<Rightarrow> packetHeaders \<Rightarrow> elements \<Rightarrow> tail" where
  "ActionLookup_rx nr actions pkt shared =
     (if nr = 0 then Return RX_DROP
      else case actions (unat (shared ! 0)) of
             None \<Rightarrow> Return RX_DROP
           | Some act \<Rightarrow>
               if act = 1 then TailCall CONNTRACKTABLEUPDATE pkt shared (Return RX_DROP) else Return RX_DROP)"

definition DefaultAction_rx :: "ActionEnum \<Rightarrow> packetHeaders \<Rightarrow> elements \<Rightarrow> tail" where
  "DefaultAction_rx act pkt shared =
     (if act = DROP then Return RX_DROP else TailCall CONNTRACKTABLEUPDATE pkt shared (Return RX_DROP))"

definition ChainForwarder_rx :: "nat \<Rightarrow> nat \<Rightarrow> packetHeaders \<Rightarrow> elements \<Rightarrow> tail" where
  "ChainForwarder_rx nr hop pkt shared =
     (if 0 < nr then TailCall hop pkt shared (call_default pkt shared) else call_default pkt shared)"

text \<open>
  The programs before the chain. The parser has read the headers into \<open>packetHeaders\<close>; it resets
  the forwarding decision and the first words of the shared vector. \<open>ConntrackLabel_rx\<close> is the code
  after the label \<open>action:\<close>, on a packet whose \<open>connStatus\<close> has been set.
\<close>

definition FORWARDING_NOT_SET :: "8 word" where "FORWARDING_NOT_SET = 0"
definition FORWARDING_PASS_LABELING :: "8 word" where "FORWARDING_PASS_LABELING = 1"

definition Parser_rx :: "nat \<Rightarrow> bool \<Rightarrow> nat \<Rightarrow> bool \<Rightarrow> packetHeaders \<Rightarrow> elements \<Rightarrow> tail" where
  "Parser_rx nr horus_enabled horus conntrack_enabled pkt0 shared =
     (let pkt = pkt0\<lparr>pk_forwardingDecision := FORWARDING_NOT_SET\<rparr>;
          s = all_ones nr @ drop nr shared;
          next = TailCall (if conntrack_enabled then CONNTRACKLABEL else CHAINFORWARDER) pkt s (Return RX_DROP)
      in if horus_enabled then TailCall horus pkt s next else next)"

definition Horus_tail :: "64 word \<Rightarrow> (horusKey \<rightharpoonup> HorusValue) \<Rightarrow> bool \<Rightarrow> packetHeaders \<Rightarrow> elements \<Rightarrow> tail" where
  "Horus_tail setFields horusTable conntrack_enabled pkt shared =
     (case Horus_rx setFields horusTable pkt of
        HorusDrop \<Rightarrow> Return RX_DROP
      | HorusAccept \<Rightarrow>
          if conntrack_enabled
          then TailCall CONNTRACKLABEL (pkt\<lparr>pk_forwardingDecision := FORWARDING_PASS_LABELING\<rparr>) shared (Return RX_DROP)
          else Return RX_OK
      | HorusPipeline \<Rightarrow> TailCall CONNTRACKLABEL pkt shared (Return RX_DROP))"

definition ConntrackLabel_rx :: "nat \<Rightarrow> packetHeaders \<Rightarrow> elements \<Rightarrow> tail" where
  "ConntrackLabel_rx mode pkt shared =
     (if mode = 1 \<or> mode = 2
      then TailCall (if mode = 2 \<and> unat (pk_connStatus pkt) = ChainRuleConntrackEnum_to_int ESTABLISHED \<or>
                        pk_forwardingDecision pkt = FORWARDING_PASS_LABELING
                     then CONNTRACKTABLEUPDATE else CHAINFORWARDER) pkt shared (Return RX_DROP)
      else Return RX_DROP)"

fun handle_rx :: "lpm_lookup \<Rightarrow> packetHeaders \<Rightarrow> program \<Rightarrow> nat \<Rightarrow> elements \<Rightarrow> tail" where
  "handle_rx lpm pkt FirewallCode index s = Return RX_DROP"
| "handle_rx lpm pkt (Parser nr he h ct) index s = Parser_rx nr he h ct pkt s"
| "handle_rx lpm pkt (Horus f t ct) index s = Horus_tail f t ct pkt s"
| "handle_rx lpm pkt (ConntrackLabel mode) index s = ConntrackLabel_rx mode pkt s"
| "handle_rx lpm pkt (ConntrackMatch nr t) index s = to_tail index pkt s (ConntrackMatch_rx nr t pkt s)"
| "handle_rx lpm pkt (IpLookup type nr t) index s = to_tail index pkt s (IpLookup_rx lpm type nr t pkt s)"
| "handle_rx lpm pkt (L4ProtocolLookup nr t) index s = to_tail index pkt s (L4ProtocolLookup_rx nr t pkt s)"
| "handle_rx lpm pkt (L4PortLookup type nr t w) index s = to_tail index pkt s (L4PortLookup_rx type nr t w pkt s)"
| "handle_rx lpm pkt (TcpFlagsLookup nr t) index s = to_tail index pkt s (TcpFlagsLookup_rx nr t pkt s)"
| "handle_rx lpm pkt (BitScan nr) index s = BitScan_rx index nr pkt s"
| "handle_rx lpm pkt (ActionLookup nr actions) index s = ActionLookup_rx nr actions pkt s"
| "handle_rx lpm pkt (ChainForwarder nr hop) index s = ChainForwarder_rx nr hop pkt s"
| "handle_rx lpm pkt (DefaultAction act) index s = DefaultAction_rx act pkt s"
| "handle_rx lpm pkt (ConntrackTableUpdate mode) index s = Return RX_OK"

text \<open>The kernel allows 32 tail calls in a row (\<open>MAX_TAIL_CALL_CNT\<close>).\<close>

type_synonym kernel = "nat \<rightharpoonup> program"

definition MAX_TAIL_CALL_CNT :: nat where
  "MAX_TAIL_CALL_CNT = 32"

function run :: "lpm_lookup \<Rightarrow> kernel \<Rightarrow> nat \<Rightarrow> tail \<Rightarrow> verdict" where
  "run lpm k n (Return v) = v"
| "run lpm k 0 (TailCall i pkt s fallback) = run lpm k 0 fallback"
| "run lpm k (Suc n) (TailCall i pkt s fallback) =
     (case k i of
        None \<Rightarrow> run lpm k (Suc n) fallback
      | Some p \<Rightarrow> run lpm k n (handle_rx lpm pkt p i s))"
  by pat_completeness auto
termination
  by (relation "measures [\<lambda>(_, _, n, _). n, \<lambda>(_, _, _, t). size t]") auto

section \<open>Layout of a chain\<close>

text \<open>
  Rule numbers and actions go to the action table one by one; \<open>LOG\<close> has no number and throws.
\<close>

fun action_entries :: "ChainRule list \<Rightarrow> (nat \<times> int) list result" where
  "action_entries [] = Inr []"
| "action_entries (rule # rules) =
     rbind (rbind (getAction rule) ActionEnum_to_int) (\<lambda>a.
     rbind (action_entries rules) (\<lambda>es. Inr ((rid rule, a) # es)))"

definition action_table :: "(nat \<times> int) list \<Rightarrow> (nat \<rightharpoonup> int)" where
  "action_table entries = array_of 10000 0 entries"

text \<open>
  The seven match programs in the order of \<open>updateChain\<close>: slot, program, whether its table has
  entries, and whether it may end the walk early.
\<close>

definition chain_modules :: "ChainRule list \<Rightarrow> (nat \<times> program \<times> bool \<times> bool) list" where
  "chain_modules rules =
     (let nr = nr_elements rules;
          (conntrack_map, conntrack_break) = conntrackFromRulesToMap rules;
          (ipsrc_map, ipsrc_break) = ipFromRulesToMap SOURCE_TYPE rules;
          (ipdst_map, ipdst_break) = ipFromRulesToMap DESTINATION_TYPE rules;
          (protocol_map, protocol_break) = transportProtoFromRulesToMap rules;
          (portsrc_map, portsrc_break) = portFromRulesToMap SOURCE_TYPE rules;
          (portdst_map, portdst_break) = portFromRulesToMap DESTINATION_TYPE rules;
          (flags_map, flags_break) = flagsFromRulesToMap rules
      in [(CONNTRACKMATCH, ConntrackMatch nr (ConntrackMatch_updateMap conntrack_map), conntrack_map \<noteq> [], conntrack_break),
          (IPSOURCE, IpLookup SOURCE_TYPE nr ipsrc_map, ipsrc_map \<noteq> [], ipsrc_break),
          (IPDESTINATION, IpLookup DESTINATION_TYPE nr ipdst_map, ipdst_map \<noteq> [], ipdst_break),
          (L4PROTO, L4ProtocolLookup nr (L4ProtocolLookup_updateMap protocol_map), protocol_map \<noteq> [], protocol_break),
          (PORTSOURCE, L4PortLookup SOURCE_TYPE nr (L4PortLookup_updateMap portsrc_map) (smap_find portsrc_map 0),
             portsrc_map \<noteq> [], portsrc_break),
          (PORTDESTINATION, L4PortLookup DESTINATION_TYPE nr (L4PortLookup_updateMap portdst_map) (smap_find portdst_map 0),
             portdst_map \<noteq> [], portdst_break),
          (TCPFLAGS, TcpFlagsLookup nr (TcpFlagsLookup_updateMap flags_map), flags_map \<noteq> [], flags_break)])"

definition layout_pass :: "bool \<Rightarrow> (nat \<times> program \<times> bool \<times> bool) list \<Rightarrow> (nat \<times> program) list" where
  "layout_pass second modules =
     map (\<lambda>(slot, p, _, _). (slot, p)) (filter (\<lambda>(_, _, nonempty, brk). nonempty \<and> brk \<noteq> second) modules)"

definition match_layout :: "ChainRule list \<Rightarrow> (nat \<times> program) list" where
  "match_layout rules = layout_pass False (chain_modules rules) @ layout_pass True (chain_modules rules)"

definition chain_layout :: "ChainRule list \<Rightarrow> (nat \<rightharpoonup> int) \<Rightarrow> (nat \<times> program) list" where
  "chain_layout rules actions =
     match_layout rules @ [(BITSCAN, BitScan (nr_elements rules)), (ACTION, ActionLookup (nr_elements rules) actions)]"

definition startingIndex :: "nat \<Rightarrow> nat" where
  "startingIndex chainNumber = NR_INITIAL_MODULES + chainNumber * NR_MODULES"

section \<open>The end of the walk\<close>

lemma shared_first:
  assumes ok: "chain_ok rules" and ne: "rules \<noteq> []" and inv: "shared_inv P rules s"
  shows "bitscan_loop 0 (take (nr_elements rules) s) =
    (if \<exists>r \<in> set rules. P r then Matching (LEAST i. i < length rules \<and> P (rules ! i)) else NoBit)"
proof -
  define S where "S = bv_set (take (nr_elements rules) s)"
  have bok: "bv_ok (take (nr_elements rules) s)"
    and S: "S \<inter> {..<length rules} = {i. i < length rules \<and> P (rules ! i)}"
    and side: "S \<subseteq> {..<length rules} \<or> (\<forall>r \<in> set rules. P r)"
    using inv by (auto simp: shared_inv_def Let_def S_def rules_where_def)
  have "S = {i. i < length rules \<and> P (rules ! i)} \<or> (0 \<in> S \<and> P (rules ! 0))"
  proof (cases "S \<subseteq> {..<length rules}")
    case True
    with S show ?thesis by (simp add: Int_absorb2)
  next
    case False
    with side ne have "P (rules ! 0)" by auto
    with S ne show ?thesis by auto
  qed
  moreover have "(\<exists>r \<in> set rules. P r) \<longleftrightarrow> {i. i < length rules \<and> P (rules ! i)} \<noteq> {}"
    unfolding in_set_conv_nth Bex_def by auto
  moreover have "(LEAST i. i \<in> S) = 0" if "0 \<in> S" using that by (simp add: Least_eq_0)
  moreover have "(LEAST i. i < length rules \<and> P (rules ! i)) = 0" if "P (rules ! 0)"
    using that ne by (simp add: Least_eq_0)
  ultimately show ?thesis
    using bitscan_loop_least [OF bok] ne by (auto simp: S_def [symmetric])
qed

lemma action_entries_map:
  assumes "action_entries rules = Inr es"
  shows "map fst es = map rid rules \<and>
    list_all2 (\<lambda>r e. \<exists>a. action r = Some a \<and> ActionEnum_to_int a = Inr (snd e)) rules es"
  using assms
  by (induction rules arbitrary: es) (auto simp: res_simps getAction_def get_field_def split: option.splits)

lemma action_table_nth:
  assumes ok: "chain_ok rules" and es: "action_entries rules = Inr es" and i: "i < length rules"
  shows "\<exists>a x. action (rules ! i) = Some a \<and> ActionEnum_to_int a = Inr x \<and> action_table es i = Some x"
proof -
  have keys: "map fst es = [0..<length rules]"
    and acts: "list_all2 (\<lambda>r e. \<exists>a. action r = Some a \<and> ActionEnum_to_int a = Inr (snd e)) rules es"
    using action_entries_map [OF es] ok by (auto simp: chain_ok_def)
  have len: "length es = length rules" using keys by (metis length_map length_upt diff_zero)
  have le: "length rules \<le> 8192" using ok by (simp add: chain_ok_def maxRules_def)
  have fst_nth: "fst (es ! i) = i" using arg_cong [OF keys, of "\<lambda>l. l ! i"] i len by simp
  have dist: "distinct (map fst es)" by (simp add: keys)
  have rng: "\<forall>j \<in> fst ` set es. j < 10000"
    using arg_cong [OF keys, of set] le by auto
  have "map_of es i = Some (snd (es ! i))"
    using dist i len fst_nth by (intro map_of_is_SomeI) (auto simp: in_set_conv_nth intro!: exI [of _ i] prod_eqI)
  then have "action_table es i = Some (snd (es ! i))"
    unfolding action_table_def using dist rng i le by (subst array_of_nth) auto
  then show ?thesis using list_all2_nthD [OF acts i] by auto
qed

lemma ActionEnum_to_int_verdict:
  "ActionEnum_to_int a = Inr x \<Longrightarrow> (if x = 1 then RX_OK else RX_DROP) = action_verdict (Some a)"
  by (cases a) auto

lemma find_least:
  assumes "\<exists>r \<in> set rules. P r"
  shows "List.find P rules = Some (rules ! (LEAST i. i < length rules \<and> P (rules ! i)))"
    and "(LEAST i. i < length rules \<and> P (rules ! i)) < length rules"
proof -
  let ?l = "LEAST i. i < length rules \<and> P (rules ! i)"
  obtain m where "m < length rules \<and> P (rules ! m)" using assms by (auto simp: in_set_conv_nth)
  then have l: "?l < length rules \<and> P (rules ! ?l)" by (rule LeastI)
  then show "?l < length rules" by blast
  have low: "\<not> P (rules ! j)" if "j < ?l" for j using that l not_less_Least [OF that] by auto
  show "List.find P rules = Some (rules ! ?l)"
    by (rule find_Some_first) (use l low in blast)+
qed

text \<open>The programs that every chain shares: default action and connection table update.\<close>

definition tail_loaded :: "kernel \<Rightarrow> ActionEnum \<Rightarrow> bool" where
  "tail_loaded k act \<longleftrightarrow> k DEFAULTACTION = Some (DefaultAction act) \<and>
     (\<exists>mode. k CONNTRACKTABLEUPDATE = Some (ConntrackTableUpdate mode))"

lemma run_update: "tail_loaded k act \<Longrightarrow> 1 \<le> n \<Longrightarrow> run lpm k n (TailCall CONNTRACKTABLEUPDATE pkt s fb) = RX_OK"
  by (cases n) (auto simp: tail_loaded_def)

lemma run_default: "tail_loaded k act \<Longrightarrow> 2 \<le> n \<Longrightarrow> run lpm k n (call_default pkt s) = default_verdict act"
  using run_update [of k act "n - 1" lpm pkt s "Return RX_DROP"]
  by (cases n) (auto simp: tail_loaded_def call_default_def DefaultAction_rx_def default_verdict_def)

lemma run_action:
  assumes ok: "chain_ok rules" and es: "action_entries rules = Inr es" and tl: "tail_loaded k act"
    and loaded: "k i = Some (ActionLookup (nr_elements rules) (action_table es))"
    and rule: "unat (s ! 0) < length rules" and n: "2 \<le> n"
  shows "run lpm k n (TailCall i pkt s fb) = action_verdict (action (rules ! unat (s ! 0)))"
proof -
  obtain n' where n': "n = Suc n'" "1 \<le> n'" using n by (cases n) auto
  obtain a x where a: "action (rules ! unat (s ! 0)) = Some a" "ActionEnum_to_int a = Inr x"
      "action_table es (unat (s ! 0)) = Some x"
    using action_table_nth [OF ok es rule] by blast
  have "rules \<noteq> []" using rule by auto
  then show ?thesis
    using loaded a run_update [OF tl n'(2)] ActionEnum_to_int_verdict [OF a(2)]
    by (auto simp: n' ActionLookup_rx_def)
qed

lemma run_bitscan:
  assumes ok: "chain_ok rules" and ne: "rules \<noteq> []" and es: "action_entries rules = Inr es" and tl: "tail_loaded k act"
    and scan: "k i = Some (BitScan (nr_elements rules))"
    and acts: "k (i + 1) = Some (ActionLookup (nr_elements rules) (action_table es))"
    and inv: "shared_inv P rules s" and n: "3 \<le> n"
  shows "run lpm k n (TailCall i pkt s fb) = first_match act P rules"
proof -
  obtain n' where n': "n = Suc n'" "2 \<le> n'" using n by (cases n) auto
  note fst = shared_first [OF ok ne inv]
  show ?thesis
  proof (cases "\<exists>r \<in> set rules. P r")
    case True
    let ?m = "LEAST i. i < length rules \<and> P (rules ! i)"
    have m: "?m < length rules" by (rule find_least(2) [OF True])
    have "?m < 2 ^ 64" using m ok by (simp add: chain_ok_def maxRules_def)
    then have um: "unat (word_of_nat ?m :: 64 word) = ?m" by (simp add: unat_of_nat take_bit_nat_eq_self_iff)
    have sne: "s \<noteq> []"
      using inv ne by (auto simp: shared_inv_def maxRules_def FROM_NRULES_TO_NELEMENTS_def)
    have "run lpm k n (TailCall i pkt s fb) =
        run lpm k n' (TailCall (i + 1) pkt (s[0 := word_of_nat ?m]) (call_default pkt (s[0 := word_of_nat ?m])))"
      using scan fst True ne by (simp add: n' BitScan_rx_def Let_def)
    also have "\<dots> = action_verdict (action (rules ! ?m))"
      using run_action [OF ok es tl acts, of "s[0 := word_of_nat ?m]" n'] m um sne n'(2) by simp
    finally show ?thesis by (simp add: first_match_def find_least(1) [OF True])
  next
    case False
    then have "List.find P rules = None" by (simp add: find_None_iff)
    then show ?thesis
      using scan fst False ne run_default [OF tl n'(2)] by (simp add: n' BitScan_rx_def first_match_def)
  qed
qed

section \<open>The walk through the match programs\<close>

definition stage_prog :: "lpm_lookup \<Rightarrow> ChainRule list \<Rightarrow> packetHeaders \<Rightarrow> program \<times> (ChainRule \<Rightarrow> bool) \<Rightarrow> bool" where
  "stage_prog lpm rules pkt pM \<longleftrightarrow>
     (\<forall>i s. \<exists>x. handle_rx lpm pkt (fst pM) i s = to_tail i pkt s x \<and> stage_contract (snd pM) rules s x)"

lemma run_match_programs:
  assumes ok: "chain_ok rules" and ne: "rules \<noteq> []" and es: "action_entries rules = Inr es" and tl: "tail_loaded k act"
    and "\<forall>pM \<in> set ps. stage_prog lpm rules pkt pM"
    and "\<forall>j < length ps. k (i + j) = Some (fst (ps ! j))"
    and "k (i + length ps) = Some (BitScan (nr_elements rules))"
    and "k (i + length ps + 1) = Some (ActionLookup (nr_elements rules) (action_table es))"
    and "shared_inv P rules s" and "length ps + 3 \<le> n"
  shows "run lpm k n (TailCall i pkt s fb) = first_match act (\<lambda>r. P r \<and> (\<forall>pM \<in> set ps. snd pM r)) rules"
  using assms(5-)
proof (induction ps arbitrary: i s P n fb)
  case Nil
  then show ?case using run_bitscan [OF ok ne es tl] by simp
next
  case (Cons pM ps)
  obtain p M where pM: "pM = (p, M)" by fastforce
  obtain n' where n': "n = Suc n'" "length ps + 3 \<le> n'" using Cons.prems(6) by (cases n) auto
  have ki: "k i = Some p" using Cons.prems(2) by (auto simp: pM)
  obtain x where x: "handle_rx lpm pkt p i s = to_tail i pkt s x" and c: "stage_contract M rules s x"
    using Cons.prems(1) unfolding pM stage_prog_def by (metis fst_conv list.set_intros(1) snd_conv)
  have step: "run lpm k n (TailCall i pkt s fb) = run lpm k n' (to_tail i pkt s x)"
    by (simp add: n' ki x)
  note inv = contract_inv [OF ok Cons.prems(5) c]
  show ?case
  proof (cases x)
    case (NextHop r)
    have "run lpm k n' (TailCall (i + 1) pkt r (Return RX_DROP)) =
        first_match act (\<lambda>r. (P r \<and> M r) \<and> (\<forall>pM \<in> set ps. snd pM r)) rules"
    proof (rule Cons.IH)
      show "\<forall>j < length ps. k (i + 1 + j) = Some (fst (ps ! j))"
      proof (intro allI impI)
        fix j assume "j < length ps"
        then show "k (i + 1 + j) = Some (fst (ps ! j))" using Cons.prems(2)[rule_format, of "Suc j"] by simp
      qed
    qed (use Cons.prems inv n'(2) NextHop in auto)
    then show ?thesis by (simp add: step NextHop to_tail_def pM conj_assoc)
  next
    case DefaultActionHop
    then have none: "rules_where (\<lambda>r. P r \<and> M r) rules = {}" using inv by simp
    then have "rules_where (\<lambda>r. P r \<and> (\<forall>pM \<in> set (pM # ps). snd pM r)) rules = {}"
      by (auto simp: rules_where_def pM)
    then show ?thesis
      using run_default [OF tl, of n'] n'(2) by (simp add: step DefaultActionHop to_tail_def first_match_none)
  next
    case RxDrop
    then show ?thesis using inv by simp
  qed
qed

section \<open>The layout\<close>

definition slot_matches :: "packetHeaders \<Rightarrow> nat \<Rightarrow> ChainRule \<Rightarrow> bool" where
  "slot_matches pkt slot r \<longleftrightarrow>
     (if slot = CONNTRACKMATCH then conntrack_matches pkt r
      else if slot = IPSOURCE then ip_matches SOURCE_TYPE pkt r
      else if slot = IPDESTINATION then ip_matches DESTINATION_TYPE pkt r
      else if slot = L4PROTO then proto_matches pkt r
      else if slot = PORTSOURCE then port_matches SOURCE_TYPE pkt r
      else if slot = PORTDESTINATION then port_matches DESTINATION_TYPE pkt r
      else if slot = TCPFLAGS then flags_matches pkt r
      else True)"

lemma slot_matches_simps:
  "slot_matches pkt CONNTRACKMATCH = conntrack_matches pkt"
  "slot_matches pkt IPSOURCE = ip_matches SOURCE_TYPE pkt"
  "slot_matches pkt IPDESTINATION = ip_matches DESTINATION_TYPE pkt"
  "slot_matches pkt L4PROTO = proto_matches pkt"
  "slot_matches pkt PORTSOURCE = port_matches SOURCE_TYPE pkt"
  "slot_matches pkt PORTDESTINATION = port_matches DESTINATION_TYPE pkt"
  "slot_matches pkt TCPFLAGS = flags_matches pkt"
  by (auto simp: slot_matches_def fun_eq_iff module_consts)

lemma chain_modules_eq:
  "chain_modules rules =
     [(CONNTRACKMATCH, ConntrackMatch (nr_elements rules) (ConntrackMatch_updateMap (fst (conntrackFromRulesToMap rules))),
         conntrack_present rules, snd (conntrackFromRulesToMap rules)),
      (IPSOURCE, IpLookup SOURCE_TYPE (nr_elements rules) (fst (ipFromRulesToMap SOURCE_TYPE rules)),
         ip_present SOURCE_TYPE rules, snd (ipFromRulesToMap SOURCE_TYPE rules)),
      (IPDESTINATION, IpLookup DESTINATION_TYPE (nr_elements rules) (fst (ipFromRulesToMap DESTINATION_TYPE rules)),
         ip_present DESTINATION_TYPE rules, snd (ipFromRulesToMap DESTINATION_TYPE rules)),
      (L4PROTO, L4ProtocolLookup (nr_elements rules) (L4ProtocolLookup_updateMap (fst (transportProtoFromRulesToMap rules))),
         proto_present rules, snd (transportProtoFromRulesToMap rules)),
      (PORTSOURCE, L4PortLookup SOURCE_TYPE (nr_elements rules)
         (L4PortLookup_updateMap (fst (portFromRulesToMap SOURCE_TYPE rules))) (smap_find (fst (portFromRulesToMap SOURCE_TYPE rules)) 0),
         port_present SOURCE_TYPE rules, snd (portFromRulesToMap SOURCE_TYPE rules)),
      (PORTDESTINATION, L4PortLookup DESTINATION_TYPE (nr_elements rules)
         (L4PortLookup_updateMap (fst (portFromRulesToMap DESTINATION_TYPE rules))) (smap_find (fst (portFromRulesToMap DESTINATION_TYPE rules)) 0),
         port_present DESTINATION_TYPE rules, snd (portFromRulesToMap DESTINATION_TYPE rules)),
      (TCPFLAGS, TcpFlagsLookup (nr_elements rules) (TcpFlagsLookup_updateMap (fst (flagsFromRulesToMap rules))),
         flags_present rules, snd (flagsFromRulesToMap rules))]"
  unfolding chain_modules_def conntrack_present_def ip_present_def proto_present_def port_present_def
    flags_present_def Let_def split_beta by (rule refl)

lemma stage_progI:
  assumes "\<And>i s. handle_rx lpm pkt p i s = to_tail i pkt s (rx s)" and "\<And>s. stage_contract M rules s (rx s)"
  shows "stage_prog lpm rules pkt (p, M)"
  using assms by (auto simp: stage_prog_def)

lemma conntrack_prog:
  assumes "chain_ok rules" "conntrack_wf rules pkt" "conntrack_present rules"
  shows "stage_prog lpm rules pkt
    (ConntrackMatch (nr_elements rules) (ConntrackMatch_updateMap (fst (conntrackFromRulesToMap rules))),
     conntrack_matches pkt)"
  by (rule stage_progI [where rx = "conntrack_rx rules pkt", OF _ conntrack.present_law [OF assms]])
    (simp add: conntrack_rx_def)

lemma ip_prog:
  assumes "chain_ok rules" "ip_wf lpm type rules pkt" "ip_present type rules"
  shows "stage_prog lpm rules pkt
    (IpLookup type (nr_elements rules) (fst (ipFromRulesToMap type rules)), ip_matches type pkt)"
  by (rule stage_progI [where rx = "ip_rx lpm type rules pkt", OF _ ip_stage [OF assms]]) (simp add: ip_rx_def)

lemma proto_prog:
  assumes "chain_ok rules" "proto_present rules"
  shows "stage_prog lpm rules pkt
    (L4ProtocolLookup (nr_elements rules) (L4ProtocolLookup_updateMap (fst (transportProtoFromRulesToMap rules))),
     proto_matches pkt)"
  by (rule stage_progI [where rx = "proto_rx rules pkt", OF _ l4proto.present_law [OF assms(1) _ assms(2)]])
    (simp_all add: proto_rx_def proto_wf_def)

lemma port_prog:
  assumes "chain_ok rules" "port_wf type rules pkt" "port_present type rules"
  shows "stage_prog lpm rules pkt
    (L4PortLookup type (nr_elements rules) (L4PortLookup_updateMap (fst (portFromRulesToMap type rules)))
       (smap_find (fst (portFromRulesToMap type rules)) 0), port_matches type pkt)"
  by (rule stage_progI [where rx = "port_rx type rules pkt", OF _ port_stage [OF assms]]) (simp add: port_rx_def Let_def)

lemma flags_prog:
  assumes "chain_ok rules" "flags_wf rules pkt" "flags_present rules"
  shows "stage_prog lpm rules pkt
    (TcpFlagsLookup (nr_elements rules) (TcpFlagsLookup_updateMap (fst (flagsFromRulesToMap rules))),
     flags_matches pkt)"
  by (rule stage_progI [where rx = "flags_rx rules pkt", OF _ tcpflags.present_law [OF assms]]) (simp add: flags_rx_def)

lemma module_stage:
  assumes ok: "chain_ok rules" and wf: "chain_wf lpm rules pkt"
    and m: "(slot, p, True, brk) \<in> set (chain_modules rules)"
  shows "stage_prog lpm rules pkt (p, slot_matches pkt slot)"
  using m ok wf unfolding chain_modules_eq chain_wf_def list.set insert_iff empty_iff prod.inject simp_thms
  by (elim disjE conjE) (simp_all add: slot_matches_simps conntrack_prog ip_prog proto_prog port_prog flags_prog)

lemma module_absent:
  assumes "chain_ok rules" "(slot, p, nonempty, brk) \<in> set (chain_modules rules)" "\<not> nonempty" "r \<in> set rules"
  shows "slot_matches pkt slot r"
  using assms unfolding chain_modules_eq
  by (auto simp: slot_matches_simps intro: conntrack.absent_law ip_absent l4proto.absent_law port_absent tcpflags.absent_law)

lemma set_match_layout:
  "set (match_layout rules) = {(slot, p). \<exists>brk. (slot, p, True, brk) \<in> set (chain_modules rules)}"
  by (auto simp: match_layout_def layout_pass_def image_iff) (metis (full_types))+

text \<open>The two passes put every program with entries somewhere, whatever its order.\<close>

lemma layout_matches:
  assumes "chain_ok rules" "r \<in> set rules"
  shows "(\<forall>(slot, p) \<in> set (match_layout rules). slot_matches pkt slot r) \<longleftrightarrow> rule_matches pkt r"
proof -
  have abs: "slot_matches pkt slot r" if "(slot, p, nonempty, brk) \<in> set (chain_modules rules)" "\<not> nonempty"
    for slot p nonempty brk using module_absent [OF assms(1) that assms(2)] .
  have "(\<forall>(slot, p) \<in> set (match_layout rules). slot_matches pkt slot r) \<longleftrightarrow>
      (\<forall>(slot, p, nonempty, brk) \<in> set (chain_modules rules). slot_matches pkt slot r)"
  proof (intro iffI ballI)
    fix m assume all: "\<forall>(slot, p) \<in> set (match_layout rules). slot_matches pkt slot r"
      and m: "m \<in> set (chain_modules rules)"
    obtain slot p nonempty brk where e: "m = (slot, p, nonempty, brk)" by (cases m) auto
    show "case m of (slot, p, nonempty, brk) \<Rightarrow> slot_matches pkt slot r"
      using all m abs by (cases nonempty) (auto simp: e set_match_layout)
  next
    fix m assume "\<forall>(slot, p, nonempty, brk) \<in> set (chain_modules rules). slot_matches pkt slot r"
      "m \<in> set (match_layout rules)"
    then show "case m of (slot, p) \<Rightarrow> slot_matches pkt slot r" by (auto simp: set_match_layout)
  qed
  also have "\<dots> \<longleftrightarrow> rule_matches pkt r"
    by (simp add: chain_modules_eq slot_matches_simps rule_matches_def)
  finally show ?thesis .
qed

lemma length_match_layout: "length (match_layout rules) \<le> 7"
proof -
  have "length (match_layout rules) \<le> length (chain_modules rules)"
    by (auto simp: match_layout_def layout_pass_def intro!: filter_disjoint_length)
  also have "length (chain_modules rules) = 7" by (simp add: chain_modules_eq)
  finally show ?thesis .
qed

text \<open>A chain is loaded at an index: its programs one after the other, in layout order.\<close>

definition chain_loaded :: "kernel \<Rightarrow> nat \<Rightarrow> (nat \<times> program) list \<Rightarrow> bool" where
  "chain_loaded k i ps \<longleftrightarrow> (\<forall>j < length ps. k (i + j) = Some (snd (ps ! j)))"

definition shared_ready :: "ChainRule list \<Rightarrow> elements \<Rightarrow> bool" where
  "shared_ready rules s \<longleftrightarrow> length s = FROM_NRULES_TO_NELEMENTS maxRules \<and>
     take (nr_elements rules) s = all_ones (nr_elements rules)"

lemma shared_ready_inv:
  assumes "shared_ready rules s" shows "shared_inv (\<lambda>r. True) rules s"
proof -
  have "{..<length rules} \<subseteq> bv_set (all_ones (nr_elements rules))"
    using FROM_NRULES_TO_NELEMENTS_ge [of "length rules"] by (auto simp: bv_simps nr_elements_def)
  then show ?thesis
    using assms by (simp add: shared_inv_def shared_ready_def Let_def rules_where_all Int_absorb1)
qed

lemma run_chain:
  assumes ok: "chain_ok rules" and ne: "rules \<noteq> []" and wf: "chain_wf lpm rules pkt"
    and es: "action_entries rules = Inr es" and tl: "tail_loaded k act"
    and loaded: "chain_loaded k i (chain_layout rules (action_table es))"
    and ready: "shared_ready rules s" and n: "10 \<le> n"
  shows "run lpm k n (TailCall i pkt s fb) = first_match act (rule_matches pkt) rules"
proof -
  define ps where "ps = map (\<lambda>(slot, p). (p, slot_matches pkt slot)) (match_layout rules)"
  have len: "length ps = length (match_layout rules)" by (simp add: ps_def)
  note ld = loaded [unfolded chain_loaded_def chain_layout_def, rule_format]
  have "run lpm k n (TailCall i pkt s fb) =
      first_match act (\<lambda>r. True \<and> (\<forall>pM \<in> set ps. snd pM r)) rules"
  proof (rule run_match_programs [OF ok ne es tl])
    show "\<forall>pM \<in> set ps. stage_prog lpm rules pkt pM"
      using module_stage [OF ok wf] by (auto simp: ps_def set_match_layout)
    show "\<forall>j < length ps. k (i + j) = Some (fst (ps ! j))"
      using ld by (auto simp: ps_def nth_append split_beta)
    show "k (i + length ps) = Some (BitScan (nr_elements rules))"
      using ld [of "length ps"] by (simp add: len nth_append)
    show "k (i + length ps + 1) = Some (ActionLookup (nr_elements rules) (action_table es))"
      using ld [of "length ps + 1"] by (simp add: len nth_append)
    show "shared_inv (\<lambda>r. True) rules s" using ready by (rule shared_ready_inv)
    show "length ps + 3 \<le> n" using length_match_layout [of rules] n by (simp add: len)
  qed
  also have "\<dots> = first_match act (rule_matches pkt) rules"
    using layout_matches [OF ok] by (intro first_match_cong) (auto simp: ps_def split_beta)
  finally show ?thesis .
qed

section \<open>From the parser to the verdict\<close>

text \<open>The chain forwarder, with a chain behind it or an empty chain.\<close>

definition chain_ready :: "kernel \<Rightarrow> ActionEnum \<Rightarrow> nat \<Rightarrow> ChainRule list \<Rightarrow> bool" where
  "chain_ready k act i rules \<longleftrightarrow> tail_loaded k act \<and> k CHAINFORWARDER = Some (ChainForwarder (nr_elements rules) i) \<and>
     (\<exists>es. action_entries rules = Inr es \<and> chain_loaded k i (chain_layout rules (action_table es)))"

lemma run_forwarder:
  assumes ready: "chain_ready k act i rules" and ok: "chain_ok rules" and wf: "chain_wf lpm rules pkt"
    and s: "shared_ready rules s" and n: "11 \<le> n"
  shows "run lpm k n (TailCall CHAINFORWARDER pkt s fb) = first_match act (rule_matches pkt) rules"
proof -
  obtain es where es: "action_entries rules = Inr es" "chain_loaded k i (chain_layout rules (action_table es))"
    and tl: "tail_loaded k act" and fw: "k CHAINFORWARDER = Some (ChainForwarder (nr_elements rules) i)"
    using ready by (auto simp: chain_ready_def)
  obtain n' where n': "n = Suc n'" "10 \<le> n'" using n by (cases n) auto
  show ?thesis
  proof (cases "rules = []")
    case True
    then show ?thesis using run_default [OF tl, of n'] n'
      by (simp add: fw ChainForwarder_rx_def nr_elements_def FROM_NRULES_TO_NELEMENTS_def first_match_def)
  next
    case False
    then show ?thesis
      using run_chain [OF ok False wf es(1) tl es(2) s n'(2)] nr_elements_0 [of rules]
      by (simp add: n' fw ChainForwarder_rx_def del: nr_elements_0)
  qed
qed

lemma matches_forwarding [simp]:
  "rule_matches (pkt\<lparr>pk_forwardingDecision := d\<rparr>) r = rule_matches pkt r"
  "chain_wf lpm rules (pkt\<lparr>pk_forwardingDecision := d\<rparr>) = chain_wf lpm rules pkt"
  "Horus_rx f t (pkt\<lparr>pk_forwardingDecision := d\<rparr>) = Horus_rx f t pkt"
  by (simp_all add: rule_matches_def conntrack_matches_def ip_matches_def proto_matches_def port_matches_def
      flags_matches_def pk_ip_def pk_port_def chain_wf_def conntrack_wf_def ip_wf_def proto_wf_def port_wf_def
      flags_wf_def Horus_rx_def packet_key_def cong: Type.case_cong)

lemma first_match_forwarding [simp]:
  "first_match act (rule_matches (pkt\<lparr>pk_forwardingDecision := d\<rparr>)) rules = first_match act (rule_matches pkt) rules"
  by (rule first_match_cong) simp

text \<open>The verdict on a labelled packet: established connections pass in automatic mode.\<close>

definition labelled_verdict :: "nat \<Rightarrow> packetHeaders \<Rightarrow> verdict \<Rightarrow> verdict" where
  "labelled_verdict mode pkt v =
     (if mode = 2 \<and> unat (pk_connStatus pkt) = ChainRuleConntrackEnum_to_int ESTABLISHED then RX_OK else v)"

lemma run_label:
  assumes ready: "chain_ready k act i rules" and ok: "chain_ok rules" and wf: "chain_wf lpm rules pkt"
    and lab: "k CONNTRACKLABEL = Some (ConntrackLabel mode)" "mode = 1 \<or> mode = 2"
    and s: "shared_ready rules s" and n: "12 \<le> n"
  shows "run lpm k n (TailCall CONNTRACKLABEL pkt s fb) =
    (if pk_forwardingDecision pkt = FORWARDING_PASS_LABELING then RX_OK
     else labelled_verdict mode pkt (first_match act (rule_matches pkt) rules))"
proof -
  obtain n' where n': "n = Suc n'" "11 \<le> n'" using n by (cases n) auto
  have tl: "tail_loaded k act" using ready by (simp add: chain_ready_def)
  have "run lpm k n' (TailCall CONNTRACKTABLEUPDATE pkt s fb') = RX_OK" for fb'
    using run_update [OF tl, of n'] n'(2) by simp
  moreover have "run lpm k n' (TailCall CHAINFORWARDER pkt s fb') = first_match act (rule_matches pkt) rules" for fb'
    by (rule run_forwarder [OF ready ok wf s n'(2)])
  ultimately show ?thesis
    using lab by (auto simp: n' ConntrackLabel_rx_def labelled_verdict_def)
qed

text \<open>The mitigator is loaded where the parser calls it.\<close>

definition horus_ready :: "kernel \<Rightarrow> bool \<Rightarrow> nat \<Rightarrow> horus_map \<Rightarrow> bool \<Rightarrow> bool" where
  "horus_ready k enabled h m ct \<longleftrightarrow>
     (enabled \<longrightarrow> k h = Some (Horus (Horus_fields m) (Horus_updateMap m) ct))"

lemma shared_ready_parser:
  assumes "length s = FROM_NRULES_TO_NELEMENTS maxRules" "chain_ok rules"
  shows "shared_ready rules (all_ones (nr_elements rules) @ drop (nr_elements rules) s)"
  using assms nr_elements_le [OF assms(2)] by (simp add: shared_ready_def)

text \<open>A whole run with connection tracking on.\<close>

lemma run_parser_conntrack:
  assumes ready: "chain_ready k act i rules" and ok: "chain_ok rules" and wf: "chain_wf lpm rules pkt"
    and lab: "k CONNTRACKLABEL = Some (ConntrackLabel mode)" "mode = 1 \<or> mode = 2"
    and par: "k PARSER = Some (Parser (nr_elements rules) he h True)" and hr: "horus_ready k he h m True"
    and s: "length s = FROM_NRULES_TO_NELEMENTS maxRules" and n: "15 \<le> n"
  shows "run lpm k n (TailCall PARSER pkt s fb) =
    (let v = labelled_verdict mode pkt (first_match act (rule_matches pkt) rules) in
     if he then horus_verdict v (Horus_rx (Horus_fields m) (Horus_updateMap m) pkt) else v)"
proof -
  obtain n1 where n1: "n = Suc n1" "14 \<le> n1" using n by (cases n) auto
  obtain n2 where n2: "n1 = Suc n2" "12 \<le> n2" using n1 by (cases n1) auto
  let ?s = "all_ones (nr_elements rules) @ drop (nr_elements rules) s"
  let ?p = "pkt\<lparr>pk_forwardingDecision := d\<rparr>"
  have lv: "labelled_verdict mode (pkt\<lparr>pk_forwardingDecision := d\<rparr>) v = labelled_verdict mode pkt v" for d v
    by (simp add: labelled_verdict_def)
  have L: "run lpm k n' (TailCall CONNTRACKLABEL (pkt\<lparr>pk_forwardingDecision := d\<rparr>) ?s fb') =
      (if d = FORWARDING_PASS_LABELING then RX_OK
       else labelled_verdict mode pkt (first_match act (rule_matches pkt) rules))" if "12 \<le> n'" for n' d fb'
    using run_label [OF ready ok _ lab shared_ready_parser [OF s ok] that, of lpm "pkt\<lparr>pk_forwardingDecision := d\<rparr>" fb'] wf
    by (simp add: lv)
  show ?thesis
  proof (cases he)
    case True
    then have h: "k h = Some (Horus (Horus_fields m) (Horus_updateMap m) True)" using hr by (simp add: horus_ready_def)
    show ?thesis
      using L [OF n2(2)] par True
      by (cases "Horus_rx (Horus_fields m) (Horus_updateMap m) pkt")
        (auto simp: n1 n2 Parser_rx_def Let_def h Horus_tail_def FORWARDING_NOT_SET_def FORWARDING_PASS_LABELING_def)
  next
    case False
    then show ?thesis
      using L [of n1] n1(2) par
      by (simp add: n1 Parser_rx_def Let_def FORWARDING_NOT_SET_def FORWARDING_PASS_LABELING_def)
  qed
qed

end
