(* ===== verification/Fw_Chain.thy ===== *)
theory Fw_Chain
  imports Fw_Pipeline
begin

text \<open>
  A chain and its direction of the firewall: the class \<open>Chain\<close> (\<open>Chain.cpp\<close>), \<open>ChainStats::fetchCounters\<close>,
  the loading of programs (\<open>modules/Program.cpp\<close>) and the members of \<open>Firewall\<close> that the chain works
  on. The state of one direction is one record; an operation returns the state it leaves behind with
  its value or its exception.
\<close>

section \<open>State\<close>

record ChainStats =
  st_id :: nat
  st_pkts :: "64 word"
  st_bytes :: "64 word"

text \<open>
  \<open>slots\<close> is the vector \<open>ingress_programs\<close> or \<open>egress_programs\<close>: the index a slot's program object
  was loaded at. \<open>hits\<close> are the packet and byte counters of the program at an index, summed over the
  CPUs; a program starts with counters at zero.
\<close>

record chain =
  ch_name :: ChainNameEnum
  defaultAction :: ActionEnum
  ch_rules :: "ChainRule list"
  ch_counters :: "ChainStats option list"
  is_single_op_on_chain :: bool
  chainNumber :: nat
  slots :: "nat \<rightharpoonup> nat"
  fw_cube :: "program cube"
  hits :: "nat \<Rightarrow> nat \<Rightarrow> 64 word \<times> 64 word"
  horus_enabled :: bool
  horus_runtime_enabled :: bool
  horus_swap :: bool
  hop :: "nat option"
  conntrackMode :: nat

text \<open>
  What the model is given: the hook the cube is attached to, whether libbcc loads a program, and the
  uninitialised memory that \<open>horusFromRulesToMap\<close> starts from.
\<close>

record env =
  hook :: instance_name
  compiles :: "program \<Rightarrow> bool"
  stack_key :: HorusRule
  stack_value :: HorusValue

section \<open>Programs\<close>

text \<open>\<open>Program::load\<close> and \<open>Program::reload\<close> swallow exceptions; the destructor unloads.\<close>

definition Program_load :: "env \<Rightarrow> program \<Rightarrow> nat \<Rightarrow> chain \<Rightarrow> chain" where
  "Program_load e p index st =
     (case do_add_program (compiles e) (hook e) p (int index) (fw_cube st) of
        (c, Inl _) \<Rightarrow> st\<lparr>fw_cube := c\<rparr>
      | (c, Inr _) \<Rightarrow> st\<lparr>fw_cube := c, hits := (hits st)(index := (\<lambda>_. (0, 0)))\<rparr>)"

definition Program_reload :: "env \<Rightarrow> program \<Rightarrow> nat \<Rightarrow> chain \<Rightarrow> chain" where
  "Program_reload e p index st = st\<lparr>fw_cube := fst (do_reload (compiles e) (hook e) p index (fw_cube st))\<rparr>"

definition Program_delete :: "nat \<Rightarrow> chain \<Rightarrow> chain" where
  "Program_delete slot st =
     (case slots st slot of
        None \<Rightarrow> st
      | Some index \<Rightarrow> st\<lparr>fw_cube := fst (do_del_program index (fw_cube st)), slots := (slots st)(slot := None)\<rparr>)"

text \<open>\<open>Firewall::getConntrack\<close> is \<open>ON\<close> unless the mode is \<open>DISABLED\<close>.\<close>

definition getConntrack_ON :: "chain \<Rightarrow> bool" where
  "getConntrack_ON st \<longleftrightarrow> conntrackMode st \<noteq> 0"

text \<open>\<open>getCode\<close> of the parser, the chain forwarder and the default action for the current state.\<close>

definition horus_slot :: "bool \<Rightarrow> nat" where
  "horus_slot swap = (if swap then HORUS_INGRESS_SWAP else HORUS_INGRESS)"

definition Parser_getCode :: "chain \<Rightarrow> program" where
  "Parser_getCode st = Parser (nr_elements (ch_rules st)) (horus_runtime_enabled st) (horus_slot (horus_swap st))
     (getConntrack_ON st)"

definition ChainForwarder_getCode :: "chain \<Rightarrow> program" where
  "ChainForwarder_getCode st = ChainForwarder (nr_elements (ch_rules st))
     (case hop st of None \<Rightarrow> CHAINFORWARDER | Some i \<Rightarrow> i)"

definition DefaultAction_getCode :: "chain \<Rightarrow> program" where
  "DefaultAction_getCode st = DefaultAction (defaultAction st)"

section \<open>Rebuilding the chain\<close>

definition getRuleList :: "chain \<Rightarrow> ChainRule list" where
  "getRuleList st = ch_rules st @ [empty_rule\<lparr>rid := length (ch_rules st), action := Some (defaultAction st),
     description := Some ''Default Policy''\<rparr>]"

text \<open>The mitigator part of \<open>updateChain\<close>.\<close>

definition update_horus :: "env \<Rightarrow> chain \<Rightarrow> chain \<times> unit result" where
  "update_horus e st0 =
     (let st = st0\<lparr>horus_runtime_enabled := False\<rparr>;
          disable = (\<lambda>st. Program_delete HORUS_INGRESS_SWAP (Program_delete HORUS_INGRESS
                       (Program_reload e (Parser_getCode st) PARSER st)))
      in if horus_enabled st \<and> MIN_RULE_SIZE_FOR_HORUS \<le> length (getRuleList st)
         then (case horusFromRulesToMap (stack_key e) (stack_value e) (getRuleList st) of
                 Inl err \<Rightarrow> (st, Inl err)
               | Inr horus \<Rightarrow>
                   if MIN_RULE_SIZE_FOR_HORUS \<le> length horus
                   then
                     let st1 = st\<lparr>horus_runtime_enabled := True, horus_swap := \<not> horus_swap st\<rparr>;
                         new = horus_slot (horus_swap st1);
                         old = horus_slot (\<not> horus_swap st1);
                         st2 = (Program_load e (Horus (Horus_fields horus) (Horus_updateMap horus) (getConntrack_ON st1)) new st1);
                         st3 = st2\<lparr>slots := (slots st2)(new \<mapsto> new)\<rparr>;
                         st4 = Program_reload e (Parser_getCode st3) PARSER st3
                     in (Program_delete old st4, Inr ())
                   else (disable st, Inr ()))
         else (disable st, Inr ()))"

text \<open>
  Loading the new programs from \<open>index\<close> on. A trie takes \<open>lpm_capacity\<close> different prefixes; writing
  one more throws.
\<close>

definition trie_size :: "(IpAddr \<times> elements) list \<Rightarrow> nat" where
  "trie_size trie = length (remdups (map (\<lambda>(k, _). map (\<lambda>j. bit (ia_ip k) (nbit j)) [0..<prefix_len k]) trie))"

fun trie_overflow :: "program \<Rightarrow> bool" where
  "trie_overflow (IpLookup type nr trie) = (lpm_capacity < trie_size trie)"
| "trie_overflow _ = False"

fun load_programs :: "env \<Rightarrow> nat \<Rightarrow> (nat \<times> program) list \<Rightarrow> chain \<Rightarrow> chain \<times> unit result" where
  "load_programs e index [] st = (st, Inr ())"
| "load_programs e index ((slot, p) # ps) st =
     (let st' = Program_load e p index st in
      if trie_overflow p then (st', Inl (RuntimeError ''error setting table'')) else load_programs e (index + 1) ps st')"

text \<open>The actions written before an action without a number throws.\<close>

fun actions_written :: "ChainRule list \<Rightarrow> (nat \<times> int) list" where
  "actions_written [] = []"
| "actions_written (rule # rules) =
     (case rbind (getAction rule) ActionEnum_to_int of
        Inl _ \<Rightarrow> [] | Inr a \<Rightarrow> (rid rule, a) # actions_written rules)"

definition new_slots :: "nat \<Rightarrow> (nat \<times> program) list \<Rightarrow> (nat \<rightharpoonup> nat)" where
  "new_slots index ps = map_of (zip (map fst ps) [index..<index + length ps])"

definition chain_slots :: "nat list" where
  "chain_slots = [CONNTRACKMATCH..<ACTION + 1]"

text \<open>Switching to the programs just loaded and unloading the old ones.\<close>

definition switch_chain :: "env \<Rightarrow> nat \<Rightarrow> (nat \<rightharpoonup> nat) \<Rightarrow> chain \<Rightarrow> chain" where
  "switch_chain e start loaded st =
     (let st1 = st\<lparr>hop := Some start\<rparr>;
          st2 = Program_reload e (ChainForwarder_getCode st1) CHAINFORWARDER st1;
          st3 = Program_reload e (Parser_getCode st2) PARSER st2;
          st4 = foldl (\<lambda>st slot. Program_delete slot st) st3 chain_slots
      in st4\<lparr>slots := (\<lambda>i. if i \<in> set chain_slots then loaded i else slots st4 i),
             chainNumber := (if chainNumber st4 = 0 then 1 else 0)\<rparr>)"

definition updateChain :: "env \<Rightarrow> chain \<Rightarrow> chain \<times> unit result" where
  "updateChain e st =
     (if ch_name st \<noteq> INGRESS \<and> ch_name st \<noteq> EGRESS then (st, Inr ())
      else
        let start = startingIndex (chainNumber st);
            rules = ch_rules st;
            layout = chain_layout rules (action_table (actions_written rules))
        in sbind (update_horus e st) (\<lambda>_ st.
           sbind (load_programs e start layout st) (\<lambda>_ st.
           case action_entries rules of
             Inl err \<Rightarrow> (st, Inl err)
           | Inr _ \<Rightarrow> (switch_chain e start (new_slots start layout) st, Inr ()))))"

section \<open>Counters\<close>

text \<open>The counter tables of \<open>ActionLookup\<close> hold 8000 rules, those of the mitigator 2048.\<close>

definition COUNTERS_SIZE :: nat where
  "COUNTERS_SIZE = 8000"

definition flushCounters :: "nat \<Rightarrow> nat \<Rightarrow> chain \<Rightarrow> chain" where
  "flushCounters index ruleNumber st = st\<lparr>hits := (hits st)(index := (hits st index)(ruleNumber := (0, 0)))\<rparr>"

definition getCount :: "nat \<Rightarrow> nat \<Rightarrow> nat \<Rightarrow> chain \<Rightarrow> (64 word \<times> 64 word) result" where
  "getCount cap index ruleNumber st =
     (if ruleNumber < cap then Inr (hits st index ruleNumber) else Inl (RuntimeError ''Counter not available.''))"

definition fetchCounters :: "nat \<Rightarrow> chain \<Rightarrow> chain \<times> (64 word \<times> 64 word) result" where
  "fetchCounters i st =
     (if ch_name st \<noteq> INGRESS \<and> ch_name st \<noteq> EGRESS then (st, Inr (0, 0))
      else case slots st ACTION of
        None \<Rightarrow> (st, Inr (0, 0))
      | Some a \<Rightarrow>
          sbind (st, getCount COUNTERS_SIZE a i st) (\<lambda>(pkts, bytes) st.
            let st1 = flushCounters a i st in
            if \<not> horus_runtime_enabled st1 then (st1, Inr (pkts, bytes))
            else case slots st1 (horus_slot (horus_swap st1)) of
                   None \<Rightarrow> (st1, Inl (UndefinedBehaviour ''null mitigator''))
                 | Some h \<Rightarrow>
                     sbind (st1, getCount MAX_RULE_SIZE_FOR_HORUS h i st1) (\<lambda>(hpkts, hbytes) st.
                       (flushCounters h i st, Inr (pkts + hpkts, bytes + hbytes)))))"

definition resize :: "nat \<Rightarrow> 'a \<Rightarrow> 'a list \<Rightarrow> 'a list" where
  "resize n x xs = take n xs @ replicate (n - length xs) x"

text \<open>\<open>rules_.size() < id\<close> lets \<open>id == rules_.size()\<close> through to \<open>rules_[id]\<close>.\<close>

definition getStats :: "nat \<Rightarrow> chain \<Rightarrow> chain \<times> ChainStats result" where
  "getStats i st =
     (if length (ch_rules st) < i then (st, Inl (RuntimeError (''There is no rule '' @ dec i)))
      else if length (ch_rules st) = i then (st, Inl (UndefinedBehaviour ''element past the end of rules_''))
      else
        sbind (fetchCounters i st) (\<lambda>(pkts, bytes) st.
          let cs = (if length (ch_counters st) \<le> i then resize (i + 1) None (ch_counters st) else ch_counters st);
              new = (case (if length (ch_counters st) \<le> i then None else ch_counters st ! i) of
                       None \<Rightarrow> \<lparr>st_id = i, st_pkts = pkts, st_bytes = bytes\<rparr>
                     | Some c \<Rightarrow> c\<lparr>st_pkts := st_pkts c + pkts, st_bytes := st_bytes c + bytes\<rparr>)
          in (st\<lparr>ch_counters := cs[i := Some new]\<rparr>, Inr new)))"

fun getStats_each :: "nat list \<Rightarrow> chain \<Rightarrow> chain \<times> ChainStats list result" where
  "getStats_each [] st = (st, Inr [])"
| "getStats_each (i # is) st =
     sbind (getStats i st) (\<lambda>c st. sbind (getStats_each is st) (\<lambda>cs st. (st, Inr (c # cs))))"

definition getDefaultActionCounters :: "chain \<Rightarrow> ChainStats" where
  "getDefaultActionCounters st = (let (pkts, bytes) = hits st DEFAULTACTION 0 in
     \<lparr>st_id = length (ch_rules st), st_pkts = pkts, st_bytes = bytes\<rparr>)"

definition getStatsList :: "chain \<Rightarrow> chain \<times> ChainStats list result" where
  "getStatsList st =
     sbind (getStats_each (map rid (ch_rules st)) st) (\<lambda>cs st. (st, Inr (cs @ [getDefaultActionCounters st])))"

section \<open>Rules\<close>

definition isContrackActive :: "chain \<Rightarrow> bool" where
  "isContrackActive st \<longleftrightarrow> conntrackMode st = 1 \<or> conntrackMode st = 2"

definition getRule :: "nat \<Rightarrow> chain \<Rightarrow> ChainRule result" where
  "getRule i st = (if length (ch_rules st) \<le> i then Inl (RuntimeError (''There is no rule '' @ dec i))
     else Inr (ch_rules st ! i))"

definition update_if_single :: "env \<Rightarrow> chain \<Rightarrow> chain \<times> unit result" where
  "update_if_single e st = (if is_single_op_on_chain st then updateChain e st else (st, Inr ()))"

definition addRule :: "env \<Rightarrow> nat \<Rightarrow> ChainRuleConf \<Rightarrow> chain \<Rightarrow> chain \<times> unit result" where
  "addRule e i conf st =
     (if length (ch_rules st) < i then (st, Inl (RuntimeError ''rule id not allowed''))
      else if cf_action conf = None then (st, Inl (RuntimeError ''action not specified for the rule''))
      else
        sbind (st, ChainRule_new (isContrackActive st) conf) (\<lambda>newRule st.
        sbind (getStatsList st) (\<lambda>_ st.
          let rs = (if length (ch_rules st) \<le> i then ch_rules st @ [newRule] else ch_rules st)
          in update_if_single e (st\<lparr>ch_rules := rs[i := newRule]\<rparr>))))"

fun addRule_each :: "env \<Rightarrow> ChainRuleConf list \<Rightarrow> chain \<Rightarrow> chain \<times> unit result" where
  "addRule_each e [] st = (st, Inr ())"
| "addRule_each e (conf # confs) st =
     (if cf_action conf = None then addRule_each e confs st
      else sbind (addRule e (cf_id conf) conf st) (\<lambda>_ st. addRule_each e confs st))"

definition addRuleList :: "env \<Rightarrow> ChainRuleConf list \<Rightarrow> chain \<Rightarrow> chain \<times> unit result" where
  "addRuleList e confs st =
     sbind (addRule_each e confs (st\<lparr>is_single_op_on_chain := False\<rparr>))
       (\<lambda>_ st. (st\<lparr>is_single_op_on_chain := True\<rparr>, Inr ()))"

definition replaceRule :: "env \<Rightarrow> nat \<Rightarrow> ChainRuleConf \<Rightarrow> chain \<Rightarrow> chain \<times> unit result" where
  "replaceRule e i conf st = addRule e (cf_id conf) conf st"

definition append_rule :: "env \<Rightarrow> ChainRuleConf \<Rightarrow> chain \<Rightarrow> chain \<times> nat result" where
  "append_rule e input st =
     (if cf_action input = None then (st, Inl (RuntimeError ''action not specified for the rule''))
      else let i = length (ch_rules st) in
        sbind (addRule e i (input\<lparr>cf_id := i\<rparr>) st) (\<lambda>_ st.
        sbind (update_if_single e st) (\<lambda>_ st. (st, Inr i))))"

text \<open>The loops of \<open>delRule\<close>: every element moves one place down and gets its place as number.\<close>

definition del_rule_loop :: "nat \<Rightarrow> ChainRule list \<Rightarrow> ChainRule list" where
  "del_rule_loop i rs =
     take (length rs - 1) (foldl (\<lambda>rs j. rs[j := (rs ! (j + 1))\<lparr>rid := j\<rparr>]) rs [i..<length rs - 1])"

definition del_counter_loop :: "nat \<Rightarrow> ChainStats option list \<Rightarrow> ChainStats option list" where
  "del_counter_loop i cs =
     take (length cs - 1) (foldl (\<lambda>cs j. cs[j := map_option (\<lambda>c. c\<lparr>st_id := j\<rparr>) (cs ! (j + 1))]) cs [i..<length cs - 1])"

definition delRule :: "env \<Rightarrow> nat \<Rightarrow> chain \<Rightarrow> chain \<times> unit result" where
  "delRule e i st =
     (if length (ch_rules st) \<le> i then (st, Inl (RuntimeError (''There is no rule '' @ dec i)))
      else
        sbind (getStatsList st) (\<lambda>_ st.
          let st1 = st\<lparr>ch_rules := del_rule_loop i (ch_rules st)\<rparr> in
          if ch_counters st1 = [] \<or> None \<in> set (drop (i + 1) (ch_counters st1))
          then (st1, Inl (UndefinedBehaviour ''null counter''))
          else update_if_single e (st1\<lparr>ch_counters := del_counter_loop i (ch_counters st1)\<rparr>)))"

definition delRuleList :: "env \<Rightarrow> chain \<Rightarrow> chain \<times> unit result" where
  "delRuleList e st = updateChain e (st\<lparr>ch_rules := [], ch_counters := []\<rparr>)"

text \<open>The loop of \<open>insert\<close>, from the last element down to the place of the new rule.\<close>

definition ins_rule_loop :: "nat \<Rightarrow> ChainRule \<Rightarrow> ChainRule list \<Rightarrow> ChainRule list" where
  "ins_rule_loop i newRule rs =
     (foldl (\<lambda>rs j. rs[j + 1 := (rs ! j)\<lparr>rid := j + 1\<rparr>]) (rs @ [newRule]) (rev [i..<length rs]))[i := newRule\<lparr>rid := i\<rparr>]"

definition ins_counter_loop :: "nat \<Rightarrow> nat \<Rightarrow> ChainStats option list \<Rightarrow> ChainStats option list" where
  "ins_counter_loop n i cs =
     (foldl (\<lambda>cs j. cs[j + 1 := map_option (\<lambda>c. c\<lparr>st_id := j + 1\<rparr>) (cs ! j)]) (cs @ [None]) (rev [i..<n]))
       [i := Some \<lparr>st_id = i, st_pkts = 0, st_bytes = 0\<rparr>]"

definition insert_rule :: "env \<Rightarrow> nat option \<Rightarrow> ChainRuleConf \<Rightarrow> chain \<Rightarrow> chain \<times> nat result" where
  "insert_rule e idopt input st =
     (let i = (case idopt of None \<Rightarrow> 0 | Some i \<Rightarrow> i) in
      if length (ch_rules st) < i then (st, Inl (RuntimeError ''id not allowed''))
      else if cf_action input = None then (st, Inl (RuntimeError ''action not specified for the rule''))
      else
        sbind (st, ChainRule_new (isContrackActive st) input) (\<lambda>newRule st.
        sbind (getStatsList st) (\<lambda>_ st.
        sbind (update_if_single e (st\<lparr>ch_rules := ins_rule_loop i newRule (ch_rules st),
                 ch_counters := ins_counter_loop (length (ch_rules st)) i (ch_counters st)\<rparr>)) (\<lambda>_ st.
          (st, Inr i)))))"

fun deletes_loop :: "env \<Rightarrow> ChainRuleConf \<Rightarrow> nat \<Rightarrow> ChainRule list \<Rightarrow> chain \<Rightarrow> chain \<times> unit result" where
  "deletes_loop e input i [] st = (st, Inl (RuntimeError ''no matching rule to delete''))"
| "deletes_loop e input i (r # rs) st =
     sbind (st, ChainRule_new (isContrackActive st) input) (\<lambda>c st.
       if ChainRule_equal r c then delRule e i st else deletes_loop e input (i + 1) rs st)"

definition deletes :: "env \<Rightarrow> ChainRuleConf \<Rightarrow> chain \<Rightarrow> chain \<times> unit result" where
  "deletes e input st = deletes_loop e input 0 (ch_rules st) st"

section \<open>Batches\<close>

datatype OperationEnum = INSERT | APPEND | UPDATE | DELETE

record batch_op =
  bo_operation :: OperationEnum
  bo_id :: "nat option"
  bo_conf :: ChainRuleConf

definition forget :: "chain \<times> 'a result \<Rightarrow> chain \<times> unit result" where
  "forget m = sbind m (\<lambda>_ st. (st, Inr ()))"

text \<open>One operation; \<open>None\<close> for an operation that is not possible as posted.\<close>

definition batch_operation :: "env \<Rightarrow> batch_op \<Rightarrow> chain \<Rightarrow> (chain \<times> unit result) option" where
  "batch_operation e v st =
     (case bo_operation v of
        DELETE \<Rightarrow> Some (case bo_id v of Some i \<Rightarrow> delRule e i st | None \<Rightarrow> deletes e (bo_conf v) st)
      | INSERT \<Rightarrow> map_option (\<lambda>i. forget (insert_rule e (Some i) (bo_conf v) st)) (bo_id v)
      | APPEND \<Rightarrow> Some (forget (append_rule e (bo_conf v) st))
      | UPDATE \<Rightarrow> map_option (\<lambda>i. addRule e i (bo_conf v) st) (bo_id v))"

fun batch_loop :: "env \<Rightarrow> nat \<Rightarrow> batch_op list \<Rightarrow> chain \<Rightarrow> chain \<times> nat list result" where
  "batch_loop e i [] st = (st, Inr [])"
| "batch_loop e i (v # vs) st =
     (case batch_operation e v st of
        None \<Rightarrow> sbind (batch_loop e (i + 1) vs st) (\<lambda>failed st. (st, Inr (i # failed)))
      | Some (st', Inr _) \<Rightarrow> batch_loop e (i + 1) vs st'
      | Some (st', Inl err) \<Rightarrow>
          if std_exception err then sbind (batch_loop e (i + 1) vs st') (\<lambda>failed st. (st, Inr (i # failed)))
          else (st', Inl err))"

fun comma_separated :: "nat list \<Rightarrow> string" where
  "comma_separated [] = []"
| "comma_separated [x] = dec x"
| "comma_separated (x # xs) = dec x @ '', '' @ comma_separated xs"

definition batch :: "env \<Rightarrow> batch_op list option \<Rightarrow> chain \<Rightarrow> chain \<times> unit result" where
  "batch e input st =
     (case input of
        None \<Rightarrow> (st, Inl (RuntimeError ''Chain::ChainBatchOutput: no operation posted''))
      | Some ops \<Rightarrow>
          sbind (getStatsList st) (\<lambda>_ st.
          sbind (batch_loop e 1 ops (st\<lparr>is_single_op_on_chain := False\<rparr>)) (\<lambda>failed_ops st.
          sbind (updateChain e (st\<lparr>is_single_op_on_chain := True\<rparr>)) (\<lambda>_ st.
            if failed_ops = [] then (st, Inr ())
            else (st, Inl (RuntimeError (''Chain::ChainBatchOutput: you required '' @ dec (length ops) @
              '' operations, but the following nth{1-'' @ dec (length ops) @ ''} ones in the list failed: ['' @
              comma_separated failed_ops @ '']'')))))))"

section \<open>Default action and counters of a chain\<close>

definition setDefault :: "env \<Rightarrow> ActionEnum \<Rightarrow> chain \<Rightarrow> chain" where
  "setDefault e act st =
     (if defaultAction st = act then st
      else let st1 = st\<lparr>defaultAction := act\<rparr> in
        if ch_name st1 = INGRESS \<or> ch_name st1 = EGRESS
        then Program_reload e (DefaultAction_getCode st1) DEFAULTACTION st1 else st1)"

fun flush_each :: "nat \<Rightarrow> nat option \<Rightarrow> nat list \<Rightarrow> chain \<Rightarrow> chain \<times> unit result" where
  "flush_each a h [] st = (st, Inr ())"
| "flush_each a h (i # is) st =
     (if COUNTERS_SIZE \<le> i then (st, Inl (RuntimeError ''Counters not available''))
      else let st1 = flushCounters a i st in
        case h of
          None \<Rightarrow> flush_each a h is st1
        | Some hi \<Rightarrow> if MAX_RULE_SIZE_FOR_HORUS \<le> i then (st1, Inl (RuntimeError ''Counters not available''))
                      else flush_each a h is (flushCounters hi i st1))"

text \<open>\<open>resetCounters\<close>: the result object has \<open>result\<close> true or false, or unset for another chain.\<close>

definition resetCounters :: "chain \<Rightarrow> chain \<times> bool option" where
  "resetCounters st =
     (if ch_name st \<noteq> INGRESS \<and> ch_name st \<noteq> EGRESS then (st, None)
      else case slots st ACTION of
        None \<Rightarrow> (st, Some False)
      | Some a \<Rightarrow>
          (case flush_each a (if horus_runtime_enabled st then slots st (horus_slot (horus_swap st)) else None)
                  (map rid (ch_rules st)) st of
             (st1, Inl _) \<Rightarrow> (st1, Some False)
           | (st1, Inr _) \<Rightarrow> ((flushCounters DEFAULTACTION 0 st1)\<lparr>ch_counters := []\<rparr>, Some True)))"

section \<open>Programs in the kernel\<close>

abbreviation kern :: "chain \<Rightarrow> kernel" where
  "kern st \<equiv> programs_table (fw_cube st)"

definition cube_live :: "env \<Rightarrow> chain \<Rightarrow> bool" where
  "cube_live e st \<longleftrightarrow> cube_inv (hook e) (fw_cube st) \<and> first_index (fw_cube st) \<noteq> 0"

lemma Program_load_free:
  assumes live: "cube_live e st" and i: "0 < i" "i < POLYCUBE_MAX_BPF_PROGRAMS" and c: "compiles e p" and free: "kern st i = None"
  shows "\<exists>c. Program_load e p i st = st\<lparr>fw_cube := c, hits := (hits st)(i := (\<lambda>_. (0, 0)))\<rparr> \<and>
    cube_live e (Program_load e p i st) \<and> programs_table c = (kern st)(i \<mapsto> p)"
proof -
  have inv: "cube_inv (hook e) (fw_cube st)" using live by (simp add: cube_live_def)
  obtain c where a: "do_add_program (compiles e) (hook e) p (int i) (fw_cube st) = (c, Inr i)"
    using do_add_program_given [where compiles = "compiles e", OF inv i c free] by (metis prod.collapse)
  have "length (programs (fw_cube st)) < 2 ^ 63" using inv by (simp add: cube_inv_def POLYCUBE_MAX_BPF_PROGRAMS_def)
  then have "first_index c = first_index (fw_cube st)"
    using a i by (auto simp: do_add_program_def Let_def split: sum.splits if_splits dest!: choose_index_free)
  then show ?thesis
    using do_add_program_ok [OF inv a] live by (intro exI [of _ c]) (simp add: Program_load_def a cube_live_def)
qed

lemma Program_reload_used:
  assumes live: "cube_live e st" and c: "compiles e p" and used: "kern st i \<noteq> None"
  shows "\<exists>c. Program_reload e p i st = st\<lparr>fw_cube := c\<rparr> \<and> cube_live e (Program_reload e p i st) \<and>
    programs_table c = (kern st)(i \<mapsto> p)"
proof -
  have inv: "cube_inv (hook e) (fw_cube st)" and reg: "first_index (fw_cube st) \<noteq> 0" using live by (simp_all add: cube_live_def)
  let ?c = "fst (do_reload (compiles e) (hook e) p i (fw_cube st))"
  note R = do_reload_ok [where compiles = "compiles e", OF inv c used, OF reg]
  have "first_index ?c = first_index (fw_cube st)"
    by (auto simp: do_reload_def Let_def split: sum.splits prod.splits)
  then show ?thesis using R reg by (intro exI [of _ ?c]) (simp add: Program_reload_def cube_live_def)
qed

lemma Program_delete_used:
  assumes live: "cube_live e st" and used: "slots st s = Some i" "kern st i \<noteq> None"
  shows "\<exists>c. Program_delete s st = st\<lparr>fw_cube := c, slots := (slots st)(s := None)\<rparr> \<and>
    cube_live e (Program_delete s st) \<and> programs_table c = (kern st)(i := None)"
proof -
  have inv: "cube_inv (hook e) (fw_cube st)" using live by (simp add: cube_live_def)
  have "first_index (fst (do_del_program i (fw_cube st))) = first_index (fw_cube st)"
    by (simp add: do_del_program_def)
  then show ?thesis
    using do_del_program_ok [OF inv used(2)] live used(1)
    by (intro exI [of _ "fst (do_del_program i (fw_cube st))"]) (simp add: Program_delete_def cube_live_def)
qed

lemma Program_delete_none: "slots st s = None \<Longrightarrow> Program_delete s st = st"
  by (simp add: Program_delete_def)

text \<open>The programs of a chain, loaded one after the other.\<close>

lemma load_programs_free:
  assumes "cube_live e st" "\<forall>p. compiles e p" "0 < i" "i + length ps \<le> POLYCUBE_MAX_BPF_PROGRAMS"
    "\<forall>j < length ps. kern st (i + j) = None" "\<forall>(s, p) \<in> set ps. \<not> trie_overflow p"
  shows "\<exists>c h. load_programs e i ps st = (st\<lparr>fw_cube := c, hits := h\<rparr>, Inr ()) \<and>
    cube_live e (st\<lparr>fw_cube := c, hits := h\<rparr>) \<and>
    (\<forall>k. programs_table c k = (if i \<le> k \<and> k < i + length ps then Some (snd (ps ! (k - i))) else kern st k)) \<and>
    (\<forall>k. h k = (if i \<le> k \<and> k < i + length ps then (\<lambda>_. (0, 0)) else hits st k))"
  using assms
proof (induction ps arbitrary: i st)
  case Nil
  then show ?case by (intro exI [of _ "fw_cube st"] exI [of _ "hits st"]) auto
next
  case (Cons sp ps)
  obtain s p where sp: "sp = (s, p)" by fastforce
  have free: "kern st i = None" using Cons.prems(5) by force
  obtain c where c: "Program_load e p i st = st\<lparr>fw_cube := c, hits := (hits st)(i := (\<lambda>_. (0, 0)))\<rparr>"
      "cube_live e (Program_load e p i st)" "programs_table c = (kern st)(i \<mapsto> p)"
    using Program_load_free [of e st i p] Cons.prems free by auto
  let ?st = "Program_load e p i st"
  have kst: "kern ?st = (kern st)(i \<mapsto> p)" and hst: "hits ?st = (hits st)(i := (\<lambda>_. (0, 0)))"
    by (simp_all add: c(1,3))
  have "\<forall>j < length ps. kern ?st (i + 1 + j) = None"
    using Cons.prems(5)[rule_format, of "Suc j" for j] by (simp add: c(1,3))
  then obtain c' h where L: "load_programs e (i + 1) ps ?st = (?st\<lparr>fw_cube := c', hits := h\<rparr>, Inr ())"
      "cube_live e (?st\<lparr>fw_cube := c', hits := h\<rparr>)"
      "\<forall>k. programs_table c' k = (if i + 1 \<le> k \<and> k < i + 1 + length ps then Some (snd (ps ! (k - (i + 1)))) else kern ?st k)"
      "\<forall>k. h k = (if i + 1 \<le> k \<and> k < i + 1 + length ps then (\<lambda>_. (0, 0)) else hits ?st k)"
    using Cons.IH [of ?st "i + 1"] c(2) Cons.prems by auto
  have "load_programs e i (sp # ps) st = (st\<lparr>fw_cube := c', hits := h\<rparr>, Inr ())"
    using L(1) Cons.prems(6) by (simp add: sp c(1))
  moreover have "cube_live e (st\<lparr>fw_cube := c', hits := h\<rparr>)" using L(2) by (simp add: c(1))
  moreover have "programs_table c' k = (if i \<le> k \<and> k < i + length (sp # ps) then Some (snd ((sp # ps) ! (k - i))) else kern st k)" for k
    using L(3)[rule_format, of k] unfolding kst by (auto simp: sp nth_Cons' Suc_le_eq le_less)
  moreover have "h k = (if i \<le> k \<and> k < i + length (sp # ps) then (\<lambda>_. (0, 0)) else hits st k)" for k
    using L(4)[rule_format, of k] unfolding hst by (auto simp: Suc_le_eq le_less)
  ultimately show ?case by blast
qed

lemma delete_slots:
  assumes "cube_live e st" "distinct ss" "\<forall>s \<in> set ss. \<forall>i. slots st s = Some i \<longrightarrow> kern st i \<noteq> None"
    "\<forall>s \<in> set ss. \<forall>s' \<in> set ss. slots st s = slots st s' \<longrightarrow> slots st s \<noteq> None \<longrightarrow> s = s'"
  shows "\<exists>c f. foldl (\<lambda>st slot. Program_delete slot st) st ss = st\<lparr>fw_cube := c, slots := f\<rparr> \<and>
    cube_live e (st\<lparr>fw_cube := c, slots := f\<rparr>) \<and> (\<forall>s. f s = (if s \<in> set ss then None else slots st s)) \<and>
    (\<forall>k. programs_table c k = (if Some k \<in> slots st ` set ss then None else kern st k))"
  using assms
proof (induction ss arbitrary: st)
  case Nil
  then show ?case by (intro exI [of _ "fw_cube st"] exI [of _ "slots st"]) simp
next
  case (Cons s ss)
  show ?case
  proof (cases "slots st s")
    case None
    obtain c f where L: "foldl (\<lambda>st slot. Program_delete slot st) st ss = st\<lparr>fw_cube := c, slots := f\<rparr>"
        "cube_live e (st\<lparr>fw_cube := c, slots := f\<rparr>)" "\<forall>s. f s = (if s \<in> set ss then None else slots st s)"
        "\<forall>k. programs_table c k = (if Some k \<in> slots st ` set ss then None else kern st k)"
      using Cons.IH [of st] Cons.prems by auto
    have "foldl (\<lambda>st slot. Program_delete slot st) st (s # ss) = st\<lparr>fw_cube := c, slots := f\<rparr>"
      using L(1) None by (simp add: Program_delete_none)
    moreover have "\<forall>s'. f s' = (if s' \<in> set (s # ss) then None else slots st s')" using L(3) None by simp
    moreover have "\<forall>k. programs_table c k = (if Some k \<in> slots st ` set (s # ss) then None else kern st k)"
      using L(4) None by simp
    ultimately show ?thesis using L(2) by blast
  next
    case (Some i)
    have used: "kern st i \<noteq> None" using Cons.prems(3) Some by auto
    obtain c where c: "Program_delete s st = st\<lparr>fw_cube := c, slots := (slots st)(s := None)\<rparr>"
        "cube_live e (Program_delete s st)" "programs_table c = (kern st)(i := None)"
      using Program_delete_used [OF Cons.prems(1) Some used] by blast
    let ?st = "Program_delete s st"
    have other: "slots st s' \<noteq> Some i" if "s' \<in> set ss" for s'
      using that Cons.prems(2,4) Some by force
    have sl: "slots ?st s' = slots st s'" if "s' \<in> set ss" for s' using that Cons.prems(2) by (auto simp: c(1))
    obtain c' f where L: "foldl (\<lambda>st slot. Program_delete slot st) ?st ss = ?st\<lparr>fw_cube := c', slots := f\<rparr>"
        "cube_live e (?st\<lparr>fw_cube := c', slots := f\<rparr>)" "\<forall>s. f s = (if s \<in> set ss then None else slots ?st s)"
        "\<forall>k. programs_table c' k = (if Some k \<in> slots ?st ` set ss then None else kern ?st k)"
    proof -
      have ks: "kern ?st = (kern st)(i := None)" by (simp add: c(1,3))
      have "\<forall>s' \<in> set ss. \<forall>j. slots ?st s' = Some j \<longrightarrow> kern ?st j \<noteq> None"
        using Cons.prems(3) other by (auto simp: sl ks)
      moreover have "\<forall>s \<in> set ss. \<forall>s' \<in> set ss. slots ?st s = slots ?st s' \<longrightarrow> slots ?st s \<noteq> None \<longrightarrow> s = s'"
        using Cons.prems(4) by (simp add: sl)
      moreover have "distinct ss" using Cons.prems(2) by simp
      ultimately show ?thesis using Cons.IH [OF c(2)] that by blast
    qed
    have im: "slots ?st ` set ss = slots st ` set ss" using sl by auto
    have "foldl (\<lambda>st slot. Program_delete slot st) st (s # ss) = st\<lparr>fw_cube := c', slots := f\<rparr>"
      using L(1) by (simp add: c(1))
    moreover have "cube_live e (st\<lparr>fw_cube := c', slots := f\<rparr>)" using L(2) by (simp add: c(1))
    moreover have "\<forall>s'. f s' = (if s' \<in> set (s # ss) then None else slots st s')" using L(3) by (simp add: c(1))
    moreover have "\<forall>k. programs_table c' k = (if Some k \<in> slots st ` set (s # ss) then None else kern st k)"
    proof
      fix k
      have ks: "kern ?st = (kern st)(i := None)" by (simp add: c(1,3))
      show "programs_table c' k = (if Some k \<in> slots st ` set (s # ss) then None else kern st k)"
        using L(4)[rule_format, of k] Some unfolding im ks by auto
    qed
    ultimately show ?thesis by blast
  qed
qed

end
