(* ===== verification/Fw_Update.thy ===== *)
theory Fw_Update
  imports Fw_Chain
begin

text \<open>
  What \<open>Chain::updateChain\<close> achieves: the invariant of a direction of the firewall, that every update
  keeps it, and that afterwards the kernel decides packets by the rules of the chain.
\<close>

section \<open>Invariant\<close>

definition rules_ok :: "ChainRule list \<Rightarrow> bool" where
  "rules_ok rules \<longleftrightarrow> map rid rules = [0..<length rules] \<and> list_all rule_ok rules"

lemma chain_ok_rules: "chain_ok rules \<longleftrightarrow> rules_ok rules \<and> length rules \<le> maxRules"
  by (auto simp: chain_ok_def rules_ok_def)

text \<open>The two banks of indexes a chain alternates between.\<close>

definition bank :: "nat \<Rightarrow> nat set" where
  "bank n = {startingIndex n..<startingIndex n + NR_MODULES}"

definition base_ok :: "env \<Rightarrow> chain \<Rightarrow> bool" where
  "base_ok e st \<longleftrightarrow> (ch_name st = INGRESS \<or> ch_name st = EGRESS) \<and> cube_live e st \<and> chainNumber st < 2 \<and>
     conntrackMode st \<le> 2 \<and> kern st PARSER \<noteq> None \<and> kern st CHAINFORWARDER \<noteq> None \<and>
     kern st DEFAULTACTION = Some (DefaultAction (defaultAction st)) \<and>
     (\<exists>mode. kern st CONNTRACKTABLEUPDATE = Some (ConntrackTableUpdate mode) \<and> (mode = 0 \<longleftrightarrow> conntrackMode st = 0)) \<and>
     kern st CONNTRACKLABEL = (if conntrackMode st = 0 then None else Some (ConntrackLabel (conntrackMode st))) \<and>
     slots st CONNTRACKLABEL = (if conntrackMode st = 0 then None else Some CONNTRACKLABEL)"

text \<open>The mitigator is loaded at the slot the swap flag says, if it is enabled, and nowhere else.\<close>

definition horus_ok :: "chain \<Rightarrow> bool" where
  "horus_ok st \<longleftrightarrow> (\<forall>b.
     slots st (horus_slot b) = (if horus_runtime_enabled st \<and> horus_swap st = b then Some (horus_slot b) else None) \<and>
     (kern st (horus_slot b) = None \<longleftrightarrow> slots st (horus_slot b) = None))"

text \<open>The bank for the next update is free; the other one holds what the slots name, no more.\<close>

definition banks_ok :: "chain \<Rightarrow> bool" where
  "banks_ok st \<longleftrightarrow>
     (\<forall>i \<in> bank (chainNumber st). kern st i = None) \<and>
     (\<forall>s \<in> set chain_slots. \<forall>i. slots st s = Some i \<longrightarrow> i \<in> bank (1 - chainNumber st) \<and> kern st i \<noteq> None) \<and>
     (\<forall>i \<in> bank (1 - chainNumber st). kern st i \<noteq> None \<longrightarrow> Some i \<in> slots st ` set chain_slots) \<and>
     (\<forall>s \<in> set chain_slots. \<forall>s' \<in> set chain_slots. slots st s = slots st s' \<longrightarrow> slots st s \<noteq> None \<longrightarrow> s = s')"

definition fw_ok :: "env \<Rightarrow> chain \<Rightarrow> bool" where
  "fw_ok e st \<longleftrightarrow> base_ok e st \<and> horus_ok st \<and> banks_ok st \<and> rules_ok (ch_rules st) \<and>
     (horus_runtime_enabled st \<longrightarrow> slots st ACTION \<noteq> None)"

text \<open>The mitigator in the kernel is the one of the current rules.\<close>

definition horus_synced :: "env \<Rightarrow> chain \<Rightarrow> bool" where
  "horus_synced e st \<longleftrightarrow> (\<exists>m. horusFromRulesToMap (stack_key e) (stack_value e) (getRuleList st) = Inr m \<and>
     horus_runtime_enabled st = (horus_enabled st \<and> m \<noteq> []) \<and>
     (horus_runtime_enabled st \<longrightarrow> kern st (horus_slot (horus_swap st)) =
        Some (Horus (Horus_fields m) (Horus_updateMap m) (getConntrack_ON st))))"

definition synced :: "env \<Rightarrow> chain \<Rightarrow> bool" where
  "synced e st \<longleftrightarrow> (\<exists>start \<ge> NR_INITIAL_MODULES. hop st = Some start \<and> chain_ready (kern st) (defaultAction st) start (ch_rules st)) \<and>
     kern st PARSER = Some (Parser_getCode st) \<and> horus_synced e st"

text \<open>The default policy at the end of the list does not change the mitigator.\<close>

lemma horus_default_policy:
  assumes "rules_ok (ch_rules st)"
  shows "horusFromRulesToMap key hval (getRuleList st) = horusFromRulesToMap key hval (ch_rules st)"
  unfolding getRuleList_def
  by (rule horusFromRulesToMap_fieldless)
    (use assms in \<open>simp_all add: rules_ok_def rule_ok_def empty_rule_def rule_fields_def set_field_def exact_ip_def\<close>)

lemma horus_slot_inj [simp]: "horus_slot b = horus_slot b' \<longleftrightarrow> b = b'"
  by (auto simp: horus_slot_def module_consts)

lemma horus_slot_cases: "horus_slot b = 5 \<or> horus_slot b = 6"
  by (auto simp: horus_slot_def module_consts)

lemma horus_slot_range [simp]:
  "0 < horus_slot b" "horus_slot b < POLYCUBE_MAX_BPF_PROGRAMS"
  "horus_slot b \<noteq> PARSER" "horus_slot b \<noteq> CONNTRACKLABEL" "horus_slot b \<noteq> CHAINFORWARDER"
  "horus_slot b \<noteq> DEFAULTACTION" "horus_slot b \<noteq> CONNTRACKTABLEUPDATE"
  using horus_slot_cases [of b] by (auto simp: module_consts POLYCUBE_MAX_BPF_PROGRAMS_def)

lemma bank_above: "i \<in> bank n \<Longrightarrow> 7 \<le> i"
  by (auto simp: bank_def startingIndex_def module_consts)

lemma chain_slots_above: "s \<in> set chain_slots \<Longrightarrow> 7 \<le> s"
  by (auto simp: chain_slots_def module_consts)

lemma base_ok_frame:
  assumes "base_ok e st" "cube_live e st'" "chainNumber st' < 2" "ch_name st' = ch_name st"
    "conntrackMode st' = conntrackMode st" "defaultAction st' = defaultAction st"
    "kern st' PARSER \<noteq> None" "kern st' CHAINFORWARDER \<noteq> None" "slots st' CONNTRACKLABEL = slots st CONNTRACKLABEL"
    "\<And>i. i \<in> {CONNTRACKLABEL, DEFAULTACTION, CONNTRACKTABLEUPDATE} \<Longrightarrow> kern st' i = kern st i"
  shows "base_ok e st'"
  using assms(1-9) assms(10) [of CONNTRACKLABEL] assms(10) [of DEFAULTACTION] assms(10) [of CONNTRACKTABLEUPDATE]
  by (simp add: base_ok_def)

lemma base_ok_low:
  "base_ok e st \<Longrightarrow> cube_live e st" "base_ok e st \<Longrightarrow> chainNumber st < 2"
  "base_ok e st \<Longrightarrow> kern st PARSER \<noteq> None" "base_ok e st \<Longrightarrow> kern st CHAINFORWARDER \<noteq> None"
  by (simp_all add: base_ok_def)

text \<open>Changing the kernel and the slots below the chain programs leaves the banks alone.\<close>

lemma banks_ok_frame:
  assumes "banks_ok st" "chainNumber st' = chainNumber st"
    "\<And>i. 7 \<le> i \<Longrightarrow> kern st' i = kern st i" "\<And>s. 7 \<le> s \<Longrightarrow> slots st' s = slots st s"
  shows "banks_ok st'"
proof -
  have k: "kern st' i = kern st i" if "i \<in> bank n" for i n using assms(3) bank_above [OF that] by blast
  have s: "slots st' s = slots st s" if "s \<in> set chain_slots" for s using assms(4) chain_slots_above [OF that] by blast
  have im: "slots st' ` set chain_slots = slots st ` set chain_slots" using s by simp
  note A = assms(1)[unfolded banks_ok_def]
  show ?thesis unfolding banks_ok_def assms(2) im
  proof (intro conjI)
    show "\<forall>i \<in> bank (chainNumber st). kern st' i = None" using A k by simp
    show "\<forall>s \<in> set chain_slots. \<forall>i. slots st' s = Some i \<longrightarrow> i \<in> bank (1 - chainNumber st) \<and> kern st' i \<noteq> None"
      using A k s by metis
    show "\<forall>i \<in> bank (1 - chainNumber st). kern st' i \<noteq> None \<longrightarrow> Some i \<in> slots st ` set chain_slots"
      using A k by metis
    show "\<forall>s \<in> set chain_slots. \<forall>s' \<in> set chain_slots. slots st' s = slots st' s' \<longrightarrow> slots st' s \<noteq> None \<longrightarrow> s = s'"
      using A s by metis
  qed
qed

section \<open>The mitigator\<close>

lemma horus_flags_frame [simp]:
  "getConntrack_ON (st\<lparr>horus_runtime_enabled := a\<rparr>) = getConntrack_ON st"
  "getConntrack_ON (st\<lparr>horus_swap := b\<rparr>) = getConntrack_ON st"
  "getRuleList (st\<lparr>horus_runtime_enabled := a\<rparr>) = getRuleList st"
  "getRuleList (st\<lparr>horus_swap := b\<rparr>) = getRuleList st"
  "getRuleList st \<noteq> []"
  by (simp_all add: getConntrack_ON_def getRuleList_def)

lemma getRuleList_ok: "rules_ok (ch_rules st) \<Longrightarrow> list_all rule_ok (getRuleList st)"
  by (simp add: getRuleList_def rules_ok_def rule_ok_def empty_rule_def)

definition same_chain :: "chain \<Rightarrow> chain \<Rightarrow> bool" where
  "same_chain st st' \<longleftrightarrow> ch_name st' = ch_name st \<and> defaultAction st' = defaultAction st \<and> ch_rules st' = ch_rules st \<and>
     ch_counters st' = ch_counters st \<and> is_single_op_on_chain st' = is_single_op_on_chain st \<and>
     chainNumber st' = chainNumber st \<and> horus_enabled st' = horus_enabled st \<and> conntrackMode st' = conntrackMode st"

lemma getRuleList_same: "same_chain st st' \<Longrightarrow> getRuleList st' = getRuleList st"
  by (simp add: same_chain_def getRuleList_def)

text \<open>The counters of the mitigator start at zero.\<close>

definition horus_fresh :: "chain \<Rightarrow> bool" where
  "horus_fresh st \<longleftrightarrow> (horus_runtime_enabled st \<longrightarrow> hits st (horus_slot (horus_swap st)) = (\<lambda>_. (0, 0)))"

lemma update_horus_enable:
  assumes ok: "base_ok e st" "horus_ok st" and comp: "\<forall>p. compiles e p" and en: "horus_enabled st"
    and m: "horusFromRulesToMap (stack_key e) (stack_value e) (getRuleList st) = Inr m" "m \<noteq> []"
  shows "\<exists>st'. update_horus e st = (st', Inr ()) \<and> same_chain st st' \<and> base_ok e st' \<and> horus_ok st' \<and>
    horus_synced e st' \<and> horus_fresh st' \<and> (\<forall>i \<ge> 7. kern st' i = kern st i) \<and> (\<forall>s \<ge> 7. slots st' s = slots st s)"
proof -
  let ?new = "horus_slot (\<not> horus_swap st)" and ?old = "horus_slot (horus_swap st)"
  let ?p = "Horus (Horus_fields m) (Horus_updateMap m) (getConntrack_ON st)"
  define st1 where "st1 = st\<lparr>horus_runtime_enabled := True, horus_swap := \<not> horus_swap st\<rparr>"
  have live1: "cube_live e st1" using ok(1) by (simp add: st1_def base_ok_def cube_live_def)
  have free: "kern st1 ?new = None" using ok(2) by (simp add: st1_def horus_ok_def)
  obtain c2 where L2: "Program_load e ?p ?new st1 = st1\<lparr>fw_cube := c2, hits := (hits st1)(?new := (\<lambda>_. (0, 0)))\<rparr>"
      "cube_live e (Program_load e ?p ?new st1)" "programs_table c2 = (kern st1)(?new \<mapsto> ?p)"
    using Program_load_free [OF live1, of ?new ?p] comp free by auto
  define st3 where "st3 = (Program_load e ?p ?new st1)\<lparr>slots := (slots (Program_load e ?p ?new st1))(?new \<mapsto> ?new)\<rparr>"
  have st3: "st3 = st1\<lparr>fw_cube := c2, hits := (hits st1)(?new := (\<lambda>_. (0, 0))), slots := (slots st1)(?new \<mapsto> ?new)\<rparr>"
    by (simp add: st3_def L2(1))
  have live3: "cube_live e st3" using L2(2) by (simp add: st3_def cube_live_def)
  have k3: "kern st3 = (kern st)(?new \<mapsto> ?p)" by (simp add: st3 L2(3) st1_def)
  obtain c4 where L4: "Program_reload e (Parser_getCode st3) PARSER st3 = st3\<lparr>fw_cube := c4\<rparr>"
      "cube_live e (Program_reload e (Parser_getCode st3) PARSER st3)" "programs_table c4 = (kern st3)(PARSER \<mapsto> Parser_getCode st3)"
  proof -
    have "kern st3 PARSER \<noteq> None" using ok(1) by (simp add: k3 base_ok_def)
    from Program_reload_used [OF live3 _ this] comp that show ?thesis by blast
  qed
  define st4 where "st4 = st3\<lparr>fw_cube := c4\<rparr>"
  have live4: "cube_live e st4" using L4 by (simp add: st4_def)
  have k4: "kern st4 = (kern st)(?new \<mapsto> ?p, PARSER \<mapsto> Parser_getCode st3)" by (simp add: st4_def L4(3) k3)
  have s4: "slots st4 = (slots st)(?new \<mapsto> ?new)" by (simp add: st4_def st3 st1_def)
  have "update_horus e st = (Program_delete ?old (Program_reload e (Parser_getCode st3) PARSER st3), Inr ())"
    using m en by (simp add: update_horus_def Let_def horus_consts Suc_le_eq st3_def st1_def)
  then have run: "update_horus e st = (Program_delete ?old st4, Inr ())" by (simp add: L4(1) st4_def)
  define st' where "st' = Program_delete ?old st4"
  have neq: "?old \<noteq> ?new" by simp
  have final: "same_chain st4 st' \<and> cube_live e st' \<and> kern st' = (kern st4)(?old := None) \<and>
      slots st' = (slots st4)(?old := None) \<and> horus_runtime_enabled st' \<and> horus_swap st' = (\<not> horus_swap st) \<and> hop st' = hop st4 \<and> hits st' = hits st4"
  proof (cases "slots st4 ?old")
    case None
    then have "kern st4 ?old = None" using ok(2) neq by (simp add: k4 s4 horus_ok_def)
    then show ?thesis using None live4
      by (auto simp: st'_def Program_delete_none same_chain_def st4_def st3 st1_def fun_upd_idem)
  next
    case (Some i)
    then have i: "i = ?old" "kern st4 ?old \<noteq> None"
      using ok(2) neq by (auto simp: s4 k4 horus_ok_def split: if_splits)
    obtain c where "Program_delete ?old st4 = st4\<lparr>fw_cube := c, slots := (slots st4)(?old := None)\<rparr>"
        "cube_live e (Program_delete ?old st4)" "programs_table c = (kern st4)(?old := None)"
      using Program_delete_used [OF live4 Some] i by auto
    then show ?thesis by (auto simp: st'_def same_chain_def st4_def st3 st1_def)
  qed
  have same: "same_chain st st'" using final by (simp add: same_chain_def st4_def st3 st1_def)
  have "base_ok e st'"
  proof (rule base_ok_frame [OF ok(1)])
    show "kern st' i = kern st i" if "i \<in> {CONNTRACKLABEL, DEFAULTACTION, CONNTRACKTABLEUPDATE}" for i
      using that final by (auto simp: k4 module_consts horus_slot_def)
  qed (use final same base_ok_low [OF ok(1)] in \<open>auto simp: k4 s4 same_chain_def module_consts horus_slot_def\<close>)
  moreover have "horus_ok st'"
  proof -
    have "slots st' (horus_slot b) = (if horus_runtime_enabled st' \<and> horus_swap st' = b then Some (horus_slot b) else None) \<and>
        (kern st' (horus_slot b) = None \<longleftrightarrow> slots st' (horus_slot b) = None)" for b
      using final by (cases "b = horus_swap st") (auto simp: s4 k4)
    then show ?thesis by (simp add: horus_ok_def)
  qed
  moreover have "horus_synced e st'"
    using m en final same by (auto simp: horus_synced_def getRuleList_same [OF same] k4 same_chain_def getConntrack_ON_def)
  moreover have "horus_fresh st'" using final by (simp add: horus_fresh_def st4_def st3)
  moreover have "kern st' i = kern st i" if "7 \<le> i" for i
    using that final horus_slot_cases [of "horus_swap st"] horus_slot_cases [of "\<not> horus_swap st"]
    by (auto simp: k4 PARSER_def)
  moreover have "slots st' s = slots st s" if "7 \<le> s" for s
    using that final horus_slot_cases [of "horus_swap st"] horus_slot_cases [of "\<not> horus_swap st"]
    by (auto simp: s4)
  ultimately show ?thesis using run same unfolding st'_def by blast
qed

lemma update_horus_disable:
  assumes ok: "base_ok e st" "horus_ok st" and comp: "\<forall>p. compiles e p"
    and m: "horusFromRulesToMap (stack_key e) (stack_value e) (getRuleList st) = Inr m" "\<not> (horus_enabled st \<and> m \<noteq> [])"
  shows "\<exists>st'. update_horus e st = (st', Inr ()) \<and> same_chain st st' \<and> base_ok e st' \<and> horus_ok st' \<and>
    horus_synced e st' \<and> horus_fresh st' \<and> (\<forall>i \<ge> 7. kern st' i = kern st i) \<and> (\<forall>s \<ge> 7. slots st' s = slots st s)"
proof -
  define st1 where "st1 = st\<lparr>horus_runtime_enabled := False\<rparr>"
  have live1: "cube_live e st1" using ok(1) by (simp add: st1_def base_ok_def cube_live_def)
  have k1: "kern st1 = kern st" "slots st1 = slots st" by (simp_all add: st1_def)
  obtain c2 where L2: "Program_reload e (Parser_getCode st1) PARSER st1 = st1\<lparr>fw_cube := c2\<rparr>"
      "cube_live e (Program_reload e (Parser_getCode st1) PARSER st1)" "programs_table c2 = (kern st1)(PARSER \<mapsto> Parser_getCode st1)"
  proof -
    have "kern st1 PARSER \<noteq> None" using ok(1) by (simp add: k1 base_ok_def)
    from Program_reload_used [OF live1 _ this] comp that show ?thesis by blast
  qed
  define st2 where "st2 = st1\<lparr>fw_cube := c2\<rparr>"
  have live2: "cube_live e st2" using L2 by (simp add: st2_def)
  have k2: "kern st2 = (kern st)(PARSER \<mapsto> Parser_getCode st1)" "slots st2 = slots st" by (simp_all add: st2_def L2(3) k1)
  let ?hs = "[HORUS_INGRESS, HORUS_INGRESS_SWAP]"
  have hs: "HORUS_INGRESS = horus_slot False" "HORUS_INGRESS_SWAP = horus_slot True" by (simp_all add: horus_slot_def)
  have sl: "slots st2 (horus_slot b) = Some i \<Longrightarrow> i = horus_slot b \<and> kern st2 i \<noteq> None" for b i
    using ok(2) by (auto simp: horus_ok_def k2 split: if_splits)
  have used: "\<forall>s \<in> set ?hs. \<forall>i. slots st2 s = Some i \<longrightarrow> kern st2 i \<noteq> None" using sl by (auto simp: hs)
  have inj: "\<forall>s \<in> set ?hs. \<forall>s' \<in> set ?hs. slots st2 s = slots st2 s' \<longrightarrow> slots st2 s \<noteq> None \<longrightarrow> s = s'"
  proof (intro ballI impI)
    fix s s' assume a: "s \<in> set ?hs" "s' \<in> set ?hs" "slots st2 s = slots st2 s'" "slots st2 s \<noteq> None"
    obtain b b' where b: "s = horus_slot b" "s' = horus_slot b'" using a(1,2) unfolding hs by fastforce
    obtain i where "slots st2 s = Some i" using a(4) by blast
    then show "s = s'" using sl [of b i] sl [of b' i] a(3) b by simp
  qed
  obtain c f where D: "foldl (\<lambda>st slot. Program_delete slot st) st2 ?hs = st2\<lparr>fw_cube := c, slots := f\<rparr>"
      "cube_live e (st2\<lparr>fw_cube := c, slots := f\<rparr>)" "\<forall>s. f s = (if s \<in> set ?hs then None else slots st2 s)"
      "\<forall>k. programs_table c k = (if Some k \<in> slots st2 ` set ?hs then None else kern st2 k)"
    using delete_slots [OF live2 _ used inj] by (auto simp: module_consts)
  define st' where "st' = st2\<lparr>fw_cube := c, slots := f\<rparr>"
  have disabled: "Program_delete HORUS_INGRESS_SWAP (Program_delete HORUS_INGRESS
      (Program_reload e (Parser_getCode st1) PARSER st1)) = st'"
    using D(1) by (simp add: L2(1) st2_def st'_def)
  have run: "update_horus e st = (st', Inr ())"
  proof -
    have e1: "horus_enabled st1 = horus_enabled st" "getRuleList st1 = getRuleList st" by (simp_all add: st1_def)
    show ?thesis unfolding update_horus_def st1_def [symmetric] Let_def e1 disabled using m
      by (auto simp: horus_consts Suc_le_eq)
  qed
  have hslots: "Some k \<in> slots st2 ` set ?hs \<Longrightarrow> k = HORUS_INGRESS \<or> k = HORUS_INGRESS_SWAP" for k
  proof -
    assume "Some k \<in> slots st2 ` set ?hs"
    then obtain b where "slots st2 (horus_slot b) = Some k" unfolding hs by fastforce
    then have "k = horus_slot b" using sl by blast
    then show ?thesis by (cases b) (simp_all add: horus_slot_def)
  qed
  have ks: "kern st' k = (if k = HORUS_INGRESS \<or> k = HORUS_INGRESS_SWAP then None else kern st2 k)" for k
  proof (cases "k = HORUS_INGRESS \<or> k = HORUS_INGRESS_SWAP")
    case True
    then obtain b where b: "k = horus_slot b" using hs by blast
    have "Some k \<in> slots st2 ` set ?hs" if u: "kern st2 k \<noteq> None"
    proof -
      have "k \<noteq> PARSER" by (simp add: b)
      then have "kern st (horus_slot b) \<noteq> None" using u by (simp add: k2 b)
      then have "slots st2 k \<noteq> None" unfolding k2 b
        using ok(2)[unfolded horus_ok_def, THEN spec [of _ b], THEN conjunct2] by simp
      then have "slots st2 k = Some k" using sl [of b] b by (metis option.exhaust)
      then show ?thesis using True by (metis image_eqI list.set_intros)
    qed
    then have "programs_table c k = None" using D(4)[rule_format, of k] by (cases "kern st2 k") simp_all
    then show ?thesis using True by (simp add: st'_def)
  next
    case False
    then show ?thesis using hslots [of k] D(4)[rule_format, of k] by (auto simp: st'_def)
  qed
  have same: "same_chain st st'" by (simp add: st'_def st2_def st1_def same_chain_def)
  have fl: "horus_runtime_enabled st' = False" "slots st' = f" by (simp_all add: st'_def st2_def st1_def)
  have "base_ok e st'"
  proof (rule base_ok_frame [OF ok(1)])
    show "kern st' i = kern st i" if "i \<in> {CONNTRACKLABEL, DEFAULTACTION, CONNTRACKTABLEUPDATE}" for i
      using that by (auto simp: ks k2 module_consts)
  qed (use D(2,3) same base_ok_low [OF ok(1)] in
      \<open>auto simp: ks fl k2 same_chain_def module_consts simp flip: st'_def\<close>)
  moreover have "horus_ok st'"
  proof -
    have "slots st' (horus_slot b) = None \<and> kern st' (horus_slot b) = None" for b
      unfolding ks fl(2) using D(3) by (cases b) (simp_all add: horus_slot_def)
    then show ?thesis by (simp add: horus_ok_def fl)
  qed
  moreover have "horus_synced e st'"
    using m same by (auto simp: horus_synced_def getRuleList_same [OF same] fl same_chain_def)
  moreover have "horus_fresh st'" by (simp add: horus_fresh_def fl)
  moreover have "kern st' i = kern st i" if "7 \<le> i" for i using that by (auto simp: ks k2 module_consts)
  moreover have "slots st' s = slots st s" if "7 \<le> s" for s
    using that D(3) by (auto simp: fl k2 module_consts)
  ultimately show ?thesis using run same by blast
qed

lemma update_horus_ok:
  assumes ok: "fw_ok e st" and comp: "\<forall>p. compiles e p"
  shows "\<exists>st'. update_horus e st = (st', Inr ()) \<and> same_chain st st' \<and> base_ok e st' \<and> horus_ok st' \<and>
    horus_synced e st' \<and> horus_fresh st' \<and> banks_ok st'"
proof -
  have b: "base_ok e st" "horus_ok st" "banks_ok st" "rules_ok (ch_rules st)" using ok by (simp_all add: fw_ok_def)
  obtain m where m: "horusFromRulesToMap (stack_key e) (stack_value e) (getRuleList st) = Inr m"
    using horusFromRulesToMap_spec [OF getRuleList_ok [OF b(4)]] by blast
  obtain st' where st': "update_horus e st = (st', Inr ())" "same_chain st st'" "base_ok e st'" "horus_ok st'"
      "horus_synced e st'" "horus_fresh st'" "\<forall>i \<ge> 7. kern st' i = kern st i" "\<forall>s \<ge> 7. slots st' s = slots st s"
    using update_horus_enable [OF b(1,2) comp _ m] update_horus_disable [OF b(1,2) comp m] by blast
  have "banks_ok st'" by (rule banks_ok_frame [OF b(3)]) (use st' in \<open>auto simp: same_chain_def\<close>)
  with st' show ?thesis by blast
qed

section \<open>Switching to the new programs\<close>

lemma new_slots_iff:
  assumes "distinct (map fst ps)"
  shows "new_slots i ps s = Some k \<longleftrightarrow> (\<exists>j < length ps. fst (ps ! j) = s \<and> k = i + j)"
proof -
  have "distinct (map fst (zip (map fst ps) [i..<i + length ps]))" using assms by simp
  from map_of_eq_Some_iff [OF this] show ?thesis
    by (auto simp: new_slots_def in_set_zip) (metis nth_map nth_upt nat_add_left_cancel_less)
qed

lemma layout_pass_fst:
  "map fst (layout_pass b ms) = map fst (filter (\<lambda>(_, _, ne, brk). ne \<and> brk \<noteq> b) ms)"
  by (simp add: layout_pass_def comp_def split_beta)

lemma layout_passes_distinct:
  assumes "distinct (map fst ms)"
  shows "distinct (map fst (layout_pass False ms @ layout_pass True ms))"
proof -
  have "x = y" if "x \<in> set ms" "y \<in> set ms" "fst x = fst y" for x y
    using assms that by (simp add: distinct_map inj_on_def)
  then have "fst ` set (filter (\<lambda>(_, _, ne, brk). ne \<and> brk \<noteq> False) ms) \<inter>
      fst ` set (filter (\<lambda>(_, _, ne, brk). ne \<and> brk \<noteq> True) ms) = {}"
    by fastforce
  then show ?thesis
    unfolding map_append distinct_append layout_pass_fst set_map
    using distinct_map_filter [OF assms] by blast
qed

lemma chain_layout_slots:
  "distinct (map fst (chain_layout rules t))" "set (map fst (chain_layout rules t)) \<subseteq> set chain_slots"
  "length (chain_layout rules t) \<le> NR_MODULES"
proof -
  have fsts: "map fst (chain_modules rules) =
      [CONNTRACKMATCH, IPSOURCE, IPDESTINATION, L4PROTO, PORTSOURCE, PORTDESTINATION, TCPFLAGS]"
    by (simp add: chain_modules_eq)
  have sub: "fst ` set (match_layout rules) \<subseteq> set (map fst (chain_modules rules))"
    by (force simp: match_layout_def layout_pass_def)
  then have "fst ` set (match_layout rules) \<subseteq> {7..13}" unfolding fsts by (auto simp: module_consts)
  moreover have "distinct (map fst (match_layout rules))"
    unfolding match_layout_def by (rule layout_passes_distinct) (simp add: fsts module_consts)
  ultimately show "distinct (map fst (chain_layout rules t))" "set (map fst (chain_layout rules t)) \<subseteq> set chain_slots"
    by (auto simp: chain_layout_def chain_slots_def module_consts)
  show "length (chain_layout rules t) \<le> NR_MODULES"
    using length_match_layout [of rules] by (simp add: chain_layout_def module_consts)
qed

lemma banks:
  "bank 0 \<inter> bank (Suc 0) = {}" "PARSER \<notin> bank n" "CHAINFORWARDER \<notin> bank n" "DEFAULTACTION \<notin> bank n"
  "CONNTRACKTABLEUPDATE \<notin> bank n" "CONNTRACKLABEL \<notin> bank n" "horus_slot b \<notin> bank n"
  by (auto simp: bank_def startingIndex_def module_consts horus_slot_def)

lemma bank_other: "n < 2 \<Longrightarrow> i \<in> bank n \<Longrightarrow> i \<notin> bank (1 - n)"
  using banks(1) by (cases n) auto

lemma chain_slots_range: "horus_slot b \<notin> set chain_slots" "distinct chain_slots"
  by (auto simp: chain_slots_def module_consts horus_slot_def)

text \<open>What \<open>switch_chain\<close> does to the state, in one equation per part.\<close>

lemma switch_chain_eq:
  assumes base: "base_ok e st" and comp: "\<forall>p. compiles e p"
    and used: "\<forall>s \<in> set chain_slots. \<forall>i. slots st s = Some i \<longrightarrow> i \<in> bank (1 - chainNumber st) \<and> kern st i \<noteq> None"
    and inj: "\<forall>s \<in> set chain_slots. \<forall>s' \<in> set chain_slots. slots st s = slots st s' \<longrightarrow> slots st s \<noteq> None \<longrightarrow> s = s'"
  shows "\<exists>c. switch_chain e start loaded st =
      st\<lparr>hop := Some start, fw_cube := c, slots := (\<lambda>i. if i \<in> set chain_slots then loaded i else slots st i),
         chainNumber := 1 - chainNumber st\<rparr> \<and> cube_live e (switch_chain e start loaded st) \<and>
    (\<forall>k. programs_table c k =
      (if Some k \<in> slots st ` set chain_slots then None
       else if k = PARSER then Some (Parser_getCode st)
       else if k = CHAINFORWARDER then Some (ChainForwarder (nr_elements (ch_rules st)) start) else kern st k))"
proof -
  define st1 where "st1 = st\<lparr>hop := Some start\<rparr>"
  let ?f = "ChainForwarder (nr_elements (ch_rules st)) start"
  have live1: "cube_live e st1" using base by (simp add: st1_def base_ok_def cube_live_def)
  have f1: "ChainForwarder_getCode st1 = ?f" by (simp add: st1_def ChainForwarder_getCode_def)
  obtain c2 where L2: "Program_reload e ?f CHAINFORWARDER st1 = st1\<lparr>fw_cube := c2\<rparr>"
      "cube_live e (st1\<lparr>fw_cube := c2\<rparr>)" "programs_table c2 = (kern st)(CHAINFORWARDER \<mapsto> ?f)"
    using Program_reload_used [OF live1, of ?f CHAINFORWARDER] comp base by (auto simp: st1_def base_ok_def)
  define st2 where "st2 = st1\<lparr>fw_cube := c2\<rparr>"
  have p2: "Parser_getCode st2 = Parser_getCode st"
    by (simp add: st2_def st1_def Parser_getCode_def getConntrack_ON_def)
  obtain c3 where L3: "Program_reload e (Parser_getCode st) PARSER st2 = st2\<lparr>fw_cube := c3\<rparr>"
      "cube_live e (st2\<lparr>fw_cube := c3\<rparr>)"
      "programs_table c3 = (kern st)(CHAINFORWARDER \<mapsto> ?f, PARSER \<mapsto> Parser_getCode st)"
  proof -
    have "kern st2 PARSER \<noteq> None" using base by (simp add: st2_def L2(3) base_ok_def)
    then show ?thesis
      using Program_reload_used [of e st2 "Parser_getCode st" PARSER] L2(2) comp that by (auto simp: st2_def L2(3))
  qed
  define st3 where "st3 = st2\<lparr>fw_cube := c3\<rparr>"
  have k3: "kern st3 = (kern st)(CHAINFORWARDER \<mapsto> ?f, PARSER \<mapsto> Parser_getCode st)" "slots st3 = slots st"
    by (simp_all add: st3_def L3(3) st2_def st1_def)
  have used3: "\<forall>s \<in> set chain_slots. \<forall>i. slots st3 s = Some i \<longrightarrow> kern st3 i \<noteq> None"
    using used by (simp add: k3)
  have inj3: "\<forall>s \<in> set chain_slots. \<forall>s' \<in> set chain_slots. slots st3 s = slots st3 s' \<longrightarrow> slots st3 s \<noteq> None \<longrightarrow> s = s'"
    using inj by (simp add: k3)
  have live3: "cube_live e st3" using L3(2) by (simp add: st3_def)
  obtain c f where D: "foldl (\<lambda>st slot. Program_delete slot st) st3 chain_slots = st3\<lparr>fw_cube := c, slots := f\<rparr>"
      "cube_live e (st3\<lparr>fw_cube := c, slots := f\<rparr>)" "\<forall>s. f s = (if s \<in> set chain_slots then None else slots st3 s)"
      "\<forall>k. programs_table c k = (if Some k \<in> slots st3 ` set chain_slots then None else kern st3 k)"
    using delete_slots [OF live3 chain_slots_range(2) used3 inj3] by blast
  have num: "chainNumber st3 = chainNumber st" by (simp add: st3_def st2_def st1_def)
  have eq: "switch_chain e start loaded st = st3\<lparr>fw_cube := c,
      slots := (\<lambda>i. if i \<in> set chain_slots then loaded i else f i), chainNumber := 1 - chainNumber st\<rparr>"
  proof -
    have "1 - chainNumber st = (if chainNumber st = 0 then 1 else 0)" using base by (auto simp: base_ok_def)
    moreover have "switch_chain e start loaded st = (let st4 = foldl (\<lambda>st slot. Program_delete slot st) st3 chain_slots
      in st4\<lparr>slots := (\<lambda>i. if i \<in> set chain_slots then loaded i else slots st4 i),
             chainNumber := (if chainNumber st4 = 0 then 1 else 0)\<rparr>)"
      unfolding switch_chain_def st1_def [symmetric] Let_def f1 L2(1) st2_def [symmetric] p2 L3(1) st3_def [symmetric] ..
    moreover have "slots (st3\<lparr>fw_cube := c, slots := f\<rparr>) = f" by simp
    ultimately show ?thesis unfolding D(1) Let_def by (simp only: ) (simp add: num)
  qed
  have fs: "(\<lambda>i. if i \<in> set chain_slots then loaded i else f i) = (\<lambda>i. if i \<in> set chain_slots then loaded i else slots st i)"
    using D(3) by (auto simp: k3)
  have pt: "programs_table c k =
      (if Some k \<in> slots st ` set chain_slots then None
       else if k = PARSER then Some (Parser_getCode st)
       else if k = CHAINFORWARDER then Some ?f else kern st k)" for k
    using D(4)[rule_format, of k] unfolding k3 by (simp split: if_splits)
  have "cube_live e (switch_chain e start loaded st)" using D(2) by (simp add: eq cube_live_def)
  then show ?thesis using pt unfolding eq fs by (intro exI [of _ c]) (simp add: st3_def st2_def st1_def)
qed

lemma switch_chain_ok:
  assumes base: "base_ok e st" and comp: "\<forall>p. compiles e p" and hok: "horus_ok st" and hs: "horus_synced e st"
    and used: "\<forall>s \<in> set chain_slots. \<forall>i. slots st s = Some i \<longrightarrow> i \<in> bank (1 - chainNumber st) \<and> kern st i \<noteq> None"
    and inj: "\<forall>s \<in> set chain_slots. \<forall>s' \<in> set chain_slots. slots st s = slots st s' \<longrightarrow> slots st s \<noteq> None \<longrightarrow> s = s'"
    and cover: "\<forall>i \<in> bank (1 - chainNumber st). kern st i \<noteq> None \<longrightarrow> Some i \<in> slots st ` set chain_slots"
    and ps: "distinct (map fst ps)" "set (map fst ps) \<subseteq> set chain_slots" "length ps \<le> NR_MODULES"
    and start: "start = startingIndex (chainNumber st)" and loaded: "chain_loaded (kern st) start ps"
    and rest: "\<forall>i \<in> bank (chainNumber st). kern st i \<noteq> None \<longrightarrow> i < start + length ps"
  shows "let st' = switch_chain e start (new_slots start ps) st in
    base_ok e st' \<and> horus_ok st' \<and> horus_synced e st' \<and> banks_ok st' \<and> ch_rules st' = ch_rules st \<and>
    defaultAction st' = defaultAction st \<and> conntrackMode st' = conntrackMode st \<and> horus_enabled st' = horus_enabled st \<and>
    is_single_op_on_chain st' = is_single_op_on_chain st \<and> ch_counters st' = ch_counters st \<and> ch_name st' = ch_name st \<and>
    hop st' = Some start \<and> chain_loaded (kern st') start ps \<and> kern st' PARSER = Some (Parser_getCode st') \<and>
    kern st' CHAINFORWARDER = Some (ChainForwarder (nr_elements (ch_rules st)) start) \<and>
    hits st' = hits st \<and> horus_runtime_enabled st' = horus_runtime_enabled st \<and> horus_swap st' = horus_swap st \<and>
    slots st' ACTION = new_slots start ps ACTION"
proof -
  let ?n = "chainNumber st"
  obtain c where sw: "switch_chain e start (new_slots start ps) st =
      st\<lparr>hop := Some start, fw_cube := c, slots := (\<lambda>i. if i \<in> set chain_slots then new_slots start ps i else slots st i),
         chainNumber := 1 - ?n\<rparr>" "cube_live e (switch_chain e start (new_slots start ps) st)"
      "\<forall>k. programs_table c k = (if Some k \<in> slots st ` set chain_slots then None
         else if k = PARSER then Some (Parser_getCode st)
         else if k = CHAINFORWARDER then Some (ChainForwarder (nr_elements (ch_rules st)) start) else kern st k)"
    using switch_chain_eq [OF base comp used inj] by blast
  define st' where "st' = switch_chain e start (new_slots start ps) st"
  have n: "?n < 2" using base by (simp add: base_ok_def)
  have out: "Some k \<notin> slots st ` set chain_slots" if "k \<notin> bank (1 - ?n)" for k
    using used that by fastforce
  have k': "kern st' k = (if k = PARSER then Some (Parser_getCode st)
         else if k = CHAINFORWARDER then Some (ChainForwarder (nr_elements (ch_rules st)) start) else kern st k)"
    if "k \<notin> bank (1 - ?n)" for k
    using sw(3)[rule_format, of k] out [OF that] by (simp add: st'_def sw(1))
  have kb: "kern st' k = None" if "k \<in> bank (1 - ?n)" for k
  proof (cases "kern st k")
    case None
    then show ?thesis using sw(3)[rule_format, of k] that banks by (auto simp: st'_def sw(1))
  next
    case (Some p)
    then show ?thesis using sw(3)[rule_format, of k] cover that by (simp add: st'_def sw(1))
  qed
  have kn: "kern st' k = kern st k" if "k \<in> bank ?n" for k
    using k' [OF bank_other [OF n that]] that banks(2,3) by metis
  have flds: "chainNumber st' = 1 - ?n" "hop st' = Some start" "ch_rules st' = ch_rules st" "defaultAction st' = defaultAction st"
      "conntrackMode st' = conntrackMode st" "horus_enabled st' = horus_enabled st" "ch_name st' = ch_name st"
      "horus_runtime_enabled st' = horus_runtime_enabled st" "horus_swap st' = horus_swap st"
      "is_single_op_on_chain st' = is_single_op_on_chain st" "ch_counters st' = ch_counters st" "hits st' = hits st"
    by (simp_all add: st'_def sw(1))
  have sl: "slots st' s = new_slots start ps s" if "s \<in> set chain_slots" for s using that by (simp add: st'_def sw(1))
  have hsl: "slots st' (horus_slot b) = slots st (horus_slot b)" "kern st' (horus_slot b) = kern st (horus_slot b)" for b
    using chain_slots_range k' [OF banks(7)] by (simp_all add: st'_def sw(1))
  have inb: "start + j \<in> bank ?n" if "j < length ps" for j
    using that ps(3) start by (simp add: bank_def)
  have ld: "kern st' (start + j) = Some (snd (ps ! j))" if "j < length ps" for j
    using that loaded kn [OF inb [OF that]] by (simp add: chain_loaded_def)
  have gc: "Parser_getCode st' = Parser_getCode st" "getConntrack_ON st' = getConntrack_ON st" "getRuleList st' = getRuleList st"
    by (simp_all add: Parser_getCode_def flds getConntrack_ON_def getRuleList_def)
  have "base_ok e st'"
  proof (rule base_ok_frame [OF base])
    show "slots st' CONNTRACKLABEL = slots st CONNTRACKLABEL"
      by (simp add: st'_def sw(1) chain_slots_def module_consts)
    show "kern st' i = kern st i" if "i \<in> {CONNTRACKLABEL, DEFAULTACTION, CONNTRACKTABLEUPDATE}" for i
      using that k' [OF banks(6)] k' [OF banks(4)] k' [OF banks(5)] by (auto simp: module_consts)
    show "kern st' PARSER \<noteq> None" "kern st' CHAINFORWARDER \<noteq> None" using k' [OF banks(2)] k' [OF banks(3)] by auto
    show "chainNumber st' < 2" using n by (simp add: flds)
  qed (use sw(2) in \<open>simp_all add: flds st'_def [symmetric]\<close>)
  moreover have "horus_ok st'" using hok by (simp add: horus_ok_def hsl flds)
  moreover have "horus_synced e st'" using hs by (simp add: horus_synced_def gc flds hsl)
  moreover have "banks_ok st'"
  proof -
    have nn: "1 - (1 - ?n) = ?n" using n by simp
    have s1: "\<exists>j < length ps. fst (ps ! j) = s \<and> i = start + j" if "s \<in> set chain_slots" "slots st' s = Some i" for s i
      using that new_slots_iff [OF ps(1)] sl by simp
    have s2: "slots st' (fst (ps ! j)) = Some (start + j)" if "j < length ps" for j
    proof -
      have "fst (ps ! j) \<in> set chain_slots" using ps(2) that by force
      then show ?thesis using that new_slots_iff [OF ps(1)] sl by simp
    qed
    show ?thesis unfolding banks_ok_def flds(1) nn
    proof (intro conjI ballI allI impI)
      fix i assume "i \<in> bank (1 - ?n)" then show "kern st' i = None" by (rule kb)
    next
      fix s i assume "s \<in> set chain_slots" "slots st' s = Some i"
      then obtain j where "j < length ps" "i = start + j" using s1 by blast
      then show "i \<in> bank ?n" "kern st' i \<noteq> None" using inb ld by simp_all
    next
      fix i assume i: "i \<in> bank ?n" "kern st' i \<noteq> None"
      then have "start \<le> i" "i < start + length ps" using rest kn start by (auto simp: bank_def)
      then obtain j where j: "j < length ps" "i = start + j" by (metis add_less_cancel_left le_iff_add)
      have "fst (ps ! j) \<in> set chain_slots" using ps(2) j(1) by force
      then show "Some i \<in> slots st' ` set chain_slots" using s2 [OF j(1)] j(2) by (metis image_eqI)
    next
      fix s s' assume a: "s \<in> set chain_slots" "s' \<in> set chain_slots" "slots st' s = slots st' s'" "slots st' s \<noteq> None"
      obtain i where "slots st' s = Some i" using a(4) by blast
      then show "s = s'" using s1 [OF a(1)] s1 [OF a(2)] a(3) by fastforce
    qed
  qed
  moreover have "chain_loaded (kern st') start ps" using ld by (simp add: chain_loaded_def)
  moreover have "kern st' PARSER = Some (Parser_getCode st')"
      "kern st' CHAINFORWARDER = Some (ChainForwarder (nr_elements (ch_rules st)) start)"
    using k' banks by (auto simp: gc module_consts)
  moreover have "slots st' ACTION = new_slots start ps ACTION" by (rule sl) (simp add: chain_slots_def module_consts)
  ultimately show ?thesis by (simp add: flds flip: st'_def)
qed

section \<open>Updating the chain\<close>

lemma actions_written_all: "action_entries rules = Inr es \<Longrightarrow> actions_written rules = es"
  by (induction rules arbitrary: es) (auto simp: rbind_Inr_conv)

text \<open>The prefixes of the rules fit in the two tries.\<close>

definition tries_fit :: "ChainRule list \<Rightarrow> bool" where
  "tries_fit rules \<longleftrightarrow> (\<forall>t \<in> {SOURCE_TYPE, DESTINATION_TYPE}. trie_size (fst (ipFromRulesToMap t rules)) \<le> lpm_capacity)"

lemma trie_size_le: "trie_size trie \<le> length trie"
  unfolding trie_size_def by (rule le_trans [OF length_remdups_leq]) simp

lemma tries_fit_lengths:
  "length (fst (ipFromRulesToMap SOURCE_TYPE rules)) \<le> lpm_capacity \<Longrightarrow>
   length (fst (ipFromRulesToMap DESTINATION_TYPE rules)) \<le> lpm_capacity \<Longrightarrow> tries_fit rules"
  using trie_size_le le_trans unfolding tries_fit_def by blast

lemma layout_fits: "tries_fit rules \<Longrightarrow> (slot, p) \<in> set (chain_layout rules t) \<Longrightarrow> \<not> trie_overflow p"
  by (auto simp: chain_layout_def set_match_layout chain_modules_eq tries_fit_def)

text \<open>What the client relies on: the rules can be loaded.\<close>

definition loadable :: "ChainRule list \<Rightarrow> bool" where
  "loadable rules \<longleftrightarrow> tries_fit rules \<and> is_value (action_entries rules)"

text \<open>A chain of at most as many rules as a trie has places, without \<open>LOG\<close>, can always be loaded.\<close>

lemma ip_entries_le:
  assumes "chain_ok rules" shows "length (fst (ipFromRulesToMap t rules)) \<le> length rules"
proof -
  let ?m = "fst (ipFromRulesToMap t rules)"
  have "distinct (map fst ?m)" using ipFromRulesToMap_smap_ok [OF assms] smap_ok_distinct by blast
  then have "length ?m = card (fst ` set ?m)" by (metis distinct_card length_map set_map)
  also have "\<dots> \<le> card (set rules)"
    using ipFromRulesToMap_keys [OF assms, of t ?m "snd (ipFromRulesToMap t rules)"]
    by (simp add: card_image_le)
  also have "\<dots> \<le> length rules" by (rule card_length)
  finally show ?thesis .
qed

lemma action_entries_value:
  "list_all (\<lambda>r. rule_ok r \<and> action r \<noteq> Some LOG) rules \<Longrightarrow> is_value (action_entries rules)"
proof (induction rules)
  case (Cons r rules)
  then obtain es where "action_entries rules = Inr es" by (auto simp: is_value_conv)
  moreover obtain a where "action r = Some a" "a \<noteq> LOG" using Cons.prems by (auto simp: rule_ok_def)
  ultimately show ?case by (cases a) (simp_all add: getAction_def get_field_def)
qed simp

lemma loadable_small:
  assumes ok: "chain_ok rules" and len: "length rules \<le> lpm_capacity" and nolog: "list_all (\<lambda>r. action r \<noteq> Some LOG) rules"
  shows "loadable rules"
proof -
  have "tries_fit rules" using ip_entries_le [OF ok] len by (intro tries_fit_lengths) (metis le_trans)+
  moreover have "is_value (action_entries rules)"
    by (rule action_entries_value) (use ok nolog in \<open>auto simp: chain_ok_def list_all_iff\<close>)
  ultimately show ?thesis by (simp add: loadable_def)
qed

text \<open>The rules the pipeline matches exactly: masks of whole bytes, no port 0, at least one flag to be set.\<close>

definition plain_rule :: "ChainRule \<Rightarrow> bool" where
  "plain_rule r \<longleftrightarrow> pred_option (\<lambda>a. prefix_len a mod 8 = 0) (ipSrc r) \<and> pred_option (\<lambda>a. prefix_len a mod 8 = 0) (ipDst r) \<and>
     srcPort r \<noteq> Some 0 \<and> dstPort r \<noteq> Some 0 \<and> pred_option (\<lambda>(s, ns). s \<noteq> 0) (tcpFlags r)"

lemma chain_wf_plain:
  assumes ok: "chain_ok rules" and len: "length rules \<le> lpm_capacity" and plain: "list_all plain_rule rules"
    and lpm: "lpm_spec lpm" and lab: "unat (pk_connStatus pkt) < 4"
  shows "chain_wf lpm rules pkt"
proof -
  have "ip_wf lpm t rules pkt" for t
    using ip_entries_le [OF ok, of t] len plain lpm by (cases t) (auto simp: ip_wf_def plain_rule_def list_all_iff)
  then show ?thesis using plain lab
    by (auto simp: chain_wf_def conntrack_wf_def proto_wf_def port_wf_def flags_wf_def plain_rule_def list_all_iff rule_port_def)
qed

text \<open>Loading the new programs into the free bank leaves everything else alone.\<close>

lemma load_chain_ok:
  assumes base: "base_ok e st" and hok: "horus_ok st" and bok: "banks_ok st" and comp: "\<forall>p. compiles e p"
    and fit: "\<forall>(s, p) \<in> set ps. \<not> trie_overflow p" and len: "length ps \<le> NR_MODULES"
    and start: "start = startingIndex (chainNumber st)"
  shows "\<exists>c h. load_programs e start ps st = (st\<lparr>fw_cube := c, hits := h\<rparr>, Inr ()) \<and>
    base_ok e (st\<lparr>fw_cube := c, hits := h\<rparr>) \<and> horus_ok (st\<lparr>fw_cube := c, hits := h\<rparr>) \<and>
    (\<forall>i. i \<notin> bank (chainNumber st) \<longrightarrow> programs_table c i = kern st i \<and> h i = hits st i) \<and>
    chain_loaded (programs_table c) start ps \<and>
    (\<forall>i \<in> bank (chainNumber st). programs_table c i \<noteq> None \<longrightarrow> i < start + length ps) \<and>
    (\<forall>j < length ps. h (start + j) = (\<lambda>_. (0, 0)))"
proof -
  let ?n = "chainNumber st"
  have n2: "?n < 2" and live: "cube_live e st" using base by (simp_all add: base_ok_def)
  have sp: "0 < start" "start + length ps \<le> POLYCUBE_MAX_BPF_PROGRAMS"
    using n2 len unfolding start startingIndex_def module_consts POLYCUBE_MAX_BPF_PROGRAMS_def by linarith+
  have inb: "i \<in> bank ?n" if "start \<le> i" "i < start + length ps" for i
    using that len by (simp add: bank_def start)
  have free: "kern st i = None" if "i \<in> bank ?n" for i using bok that by (simp add: banks_ok_def)
  have "\<forall>j < length ps. kern st (start + j) = None" using free inb by simp
  then obtain c h where L: "load_programs e start ps st = (st\<lparr>fw_cube := c, hits := h\<rparr>, Inr ())"
      "cube_live e (st\<lparr>fw_cube := c, hits := h\<rparr>)"
      "\<forall>k. programs_table c k = (if start \<le> k \<and> k < start + length ps then Some (snd (ps ! (k - start))) else kern st k)"
      "\<forall>k. h k = (if start \<le> k \<and> k < start + length ps then (\<lambda>_. (0, 0)) else hits st k)"
    using load_programs_free [OF live comp sp _ fit] by blast
  have out: "programs_table c i = kern st i \<and> h i = hits st i" if "i \<notin> bank ?n" for i
    using L(3)[rule_format, of i] L(4)[rule_format, of i] inb that by auto
  have "base_ok e (st\<lparr>fw_cube := c, hits := h\<rparr>)"
    by (rule base_ok_frame [OF base L(2)]) (use out banks base_ok_low [OF base] in auto)
  moreover have "horus_ok (st\<lparr>fw_cube := c, hits := h\<rparr>)"
    using hok out [OF banks(7)] by (simp add: horus_ok_def)
  moreover have "i < start + length ps" if "i \<in> bank ?n" "programs_table c i \<noteq> None" for i
    using L(3)[rule_format, of i] free [OF that(1)] that(2) by (auto split: if_splits)
  moreover have "chain_loaded (programs_table c) start ps" using L(3) by (simp add: chain_loaded_def)
  ultimately show ?thesis using L(1,4) out by (intro exI [of _ c] exI [of _ h]) auto
qed

text \<open>No rule has been counted yet.\<close>

definition fresh_hits :: "chain \<Rightarrow> bool" where
  "fresh_hits st \<longleftrightarrow> (\<forall>a. slots st ACTION = Some a \<longrightarrow> hits st a = (\<lambda>_. (0, 0))) \<and> horus_fresh st"

definition same_config :: "chain \<Rightarrow> chain \<Rightarrow> bool" where
  "same_config st st' \<longleftrightarrow> ch_rules st' = ch_rules st \<and> defaultAction st' = defaultAction st \<and>
     conntrackMode st' = conntrackMode st \<and> horus_enabled st' = horus_enabled st \<and>
     is_single_op_on_chain st' = is_single_op_on_chain st \<and> ch_counters st' = ch_counters st \<and> ch_name st' = ch_name st"

lemma updateChain_ok:
  assumes ok: "fw_ok e st" and comp: "\<forall>p. compiles e p" and ld: "loadable (ch_rules st)"
  shows "\<exists>st'. updateChain e st = (st', Inr ()) \<and> fw_ok e st' \<and> synced e st' \<and> fresh_hits st' \<and> same_config st st'"
proof -
  let ?rules = "ch_rules st" and ?n = "chainNumber st"
  let ?start = "startingIndex ?n"
  obtain es where es: "action_entries ?rules = Inr es" using ld by (auto simp: loadable_def is_value_conv)
  let ?ps = "chain_layout ?rules (action_table es)"
  obtain st1 where st1: "update_horus e st = (st1, Inr ())" "same_chain st st1" "base_ok e st1" "horus_ok st1"
      "horus_synced e st1" "horus_fresh st1" "banks_ok st1" using update_horus_ok [OF ok comp] by blast
  have num: "chainNumber st1 = ?n" "ch_rules st1 = ?rules" using st1(2) by (simp_all add: same_chain_def)
  note B = st1(7)[unfolded banks_ok_def num]
  have n2: "?n < 2" using ok by (simp add: fw_ok_def base_ok_def)
  have fit: "\<forall>(s, p) \<in> set ?ps. \<not> trie_overflow p" using ld layout_fits by (auto simp: loadable_def)
  obtain c h where L: "load_programs e ?start ?ps st1 = (st1\<lparr>fw_cube := c, hits := h\<rparr>, Inr ())"
      "base_ok e (st1\<lparr>fw_cube := c, hits := h\<rparr>)" "horus_ok (st1\<lparr>fw_cube := c, hits := h\<rparr>)"
      "\<forall>i. i \<notin> bank ?n \<longrightarrow> programs_table c i = kern st1 i \<and> h i = hits st1 i"
      "chain_loaded (programs_table c) ?start ?ps"
      "\<forall>i \<in> bank ?n. programs_table c i \<noteq> None \<longrightarrow> i < ?start + length ?ps"
      "\<forall>j < length ?ps. h (?start + j) = (\<lambda>_. (0, 0))"
    using load_chain_ok [OF st1(3,4,7) comp fit chain_layout_slots(3), of ?start] num by auto
  define st2 where "st2 = st1\<lparr>fw_cube := c, hits := h\<rparr>"
  have flds: "chainNumber st2 = ?n" "ch_rules st2 = ?rules" "slots st2 = slots st1" "kern st2 = programs_table c" "hits st2 = h"
      "horus_runtime_enabled st2 = horus_runtime_enabled st1" "horus_swap st2 = horus_swap st1" "getRuleList st2 = getRuleList st1"
      "getConntrack_ON st2 = getConntrack_ON st1" "horus_enabled st2 = horus_enabled st1"
    by (simp_all add: st2_def num getRuleList_def getConntrack_ON_def)
  have other: "i \<notin> bank ?n" if "i \<in> bank (1 - ?n)" for i using bank_other n2 that by blast
  have k2: "kern st2 i = kern st1 i" if "i \<notin> bank ?n" for i using L(4) that by (simp add: flds)
  define st' where "st' = switch_chain e ?start (new_slots ?start ?ps) st2"
  have "let st' = st' in
    base_ok e st' \<and> horus_ok st' \<and> horus_synced e st' \<and> banks_ok st' \<and> ch_rules st' = ch_rules st2 \<and>
    defaultAction st' = defaultAction st2 \<and> conntrackMode st' = conntrackMode st2 \<and> horus_enabled st' = horus_enabled st2 \<and>
    is_single_op_on_chain st' = is_single_op_on_chain st2 \<and> ch_counters st' = ch_counters st2 \<and> ch_name st' = ch_name st2 \<and>
    hop st' = Some ?start \<and> chain_loaded (kern st') ?start ?ps \<and> kern st' PARSER = Some (Parser_getCode st') \<and>
    kern st' CHAINFORWARDER = Some (ChainForwarder (nr_elements (ch_rules st2)) ?start) \<and>
    hits st' = hits st2 \<and> horus_runtime_enabled st' = horus_runtime_enabled st2 \<and> horus_swap st' = horus_swap st2 \<and>
    slots st' ACTION = new_slots ?start ?ps ACTION"
    unfolding st'_def
  proof (rule switch_chain_ok [OF _ comp _ _ _ _ _ chain_layout_slots])
    show "base_ok e st2" "horus_ok st2" using L(2,3) by (simp_all add: st2_def)
    show "horus_synced e st2" using st1(5) k2 [OF banks(7)] by (simp add: horus_synced_def flds(6-))
    show "\<forall>s \<in> set chain_slots. \<forall>i. slots st2 s = Some i \<longrightarrow> i \<in> bank (1 - chainNumber st2) \<and> kern st2 i \<noteq> None"
      unfolding flds(1,3) using B k2 other by metis
    show "\<forall>s \<in> set chain_slots. \<forall>s' \<in> set chain_slots. slots st2 s = slots st2 s' \<longrightarrow> slots st2 s \<noteq> None \<longrightarrow> s = s'"
      unfolding flds(1,3) using B by blast
    show "\<forall>i \<in> bank (1 - chainNumber st2). kern st2 i \<noteq> None \<longrightarrow> Some i \<in> slots st2 ` set chain_slots"
      unfolding flds(1,3) using B k2 other by metis
    show "\<forall>i \<in> bank (chainNumber st2). kern st2 i \<noteq> None \<longrightarrow> i < ?start + length ?ps" using L(6) by (simp add: flds)
  qed (use L(5) in \<open>simp_all add: flds\<close>)
  note sw = this [unfolded Let_def]
  have run: "updateChain e st = (st', Inr ())"
    using ok by (auto simp: updateChain_def Let_def fw_ok_def base_ok_def actions_written_all [OF es] st1(1) L(1) es
        simp flip: st2_def st'_def)
  have same: "same_config st st'" using sw st1(2) by (simp add: same_config_def st2_def same_chain_def)
  moreover have "slots st' ACTION \<noteq> None"
  proof -
    have "ACTION \<in> fst ` set ?ps" by (simp add: chain_layout_def)
    then obtain j where j: "j < length ?ps" "fst (?ps ! j) = ACTION" by (metis imageE in_set_conv_nth)
    have "new_slots ?start ?ps ACTION = Some (?start + j)"
      using new_slots_iff [OF chain_layout_slots(1), THEN iffD2] j by blast
    then show ?thesis using sw by simp
  qed
  ultimately have "fw_ok e st'" using sw ok by (simp add: fw_ok_def same_config_def)
  moreover have "synced e st'"
  proof -
    have "chain_ready (kern st') (defaultAction st') ?start (ch_rules st')"
      using sw es by (auto simp: chain_ready_def tail_loaded_def base_ok_def flds)
    then show ?thesis using sw by (simp add: synced_def startingIndex_def)
  qed
  moreover have "fresh_hits st'"
  proof -
    have "hits st' a = (\<lambda>_. (0, 0))" if "slots st' ACTION = Some a" for a
    proof -
      have a: "new_slots ?start ?ps ACTION = Some a" using that sw by simp
      obtain j where "j < length ?ps" "a = ?start + j"
        using new_slots_iff [OF chain_layout_slots(1), THEN iffD1, OF a] by blast
      then show ?thesis using L(7) sw by (simp add: flds)
    qed
    moreover have "horus_fresh st'"
      using st1(6) sw L(4)[rule_format, OF banks(7)] by (simp add: horus_fresh_def flds)
    ultimately show ?thesis by (simp add: fresh_hits_def)
  qed
  ultimately show ?thesis using run same by blast
qed

section \<open>Packets after an update\<close>

text \<open>What the loaded programs do with a packet, whatever the shared vector held before.\<close>

definition packet_verdict :: "lpm_lookup \<Rightarrow> chain \<Rightarrow> packetHeaders \<Rightarrow> elements \<Rightarrow> verdict" where
  "packet_verdict lpm st pkt s = run lpm (kern st) MAX_TAIL_CALL_CNT (TailCall PARSER pkt s (Return RX_DROP))"

definition shared_vector :: "elements \<Rightarrow> bool" where
  "shared_vector s \<longleftrightarrow> length s = FROM_NRULES_TO_NELEMENTS maxRules"

definition automatic :: "chain \<Rightarrow> packetHeaders \<Rightarrow> bool" where
  "automatic st pkt \<longleftrightarrow> conntrackMode st = 2 \<and> unat (pk_connStatus pkt) = ChainRuleConntrackEnum_to_int ESTABLISHED"

lemma synced_run:
  assumes ok: "fw_ok e st" and sy: "synced e st" and co: "chain_ok (ch_rules st)" and wf: "chain_wf lpm (ch_rules st) pkt"
    and ct: "getConntrack_ON st" and s: "shared_vector s"
  shows "\<exists>m. horusFromRulesToMap (stack_key e) (stack_value e) (getRuleList st) = Inr m \<and>
    horus_runtime_enabled st = (horus_enabled st \<and> m \<noteq> []) \<and>
    packet_verdict lpm st pkt s =
      (let v = if automatic st pkt then RX_OK else first_match (defaultAction st) (rule_matches pkt) (ch_rules st) in
       if horus_runtime_enabled st then horus_verdict v (Horus_rx (Horus_fields m) (Horus_updateMap m) pkt) else v)"
proof -
  obtain start where start: "chain_ready (kern st) (defaultAction st) start (ch_rules st)" using sy by (auto simp: synced_def)
  obtain m where m: "horusFromRulesToMap (stack_key e) (stack_value e) (getRuleList st) = Inr m"
      "horus_runtime_enabled st = (horus_enabled st \<and> m \<noteq> [])"
      "horus_runtime_enabled st \<longrightarrow> kern st (horus_slot (horus_swap st)) =
        Some (Horus (Horus_fields m) (Horus_updateMap m) (getConntrack_ON st))"
    using sy by (auto simp: synced_def horus_synced_def)
  have base: "base_ok e st" using ok by (simp add: fw_ok_def)
  have mode: "conntrackMode st = 1 \<or> conntrackMode st = 2" "conntrackMode st \<noteq> 0"
    using base ct by (auto simp: getConntrack_ON_def base_ok_def)
  have lab: "kern st CONNTRACKLABEL = Some (ConntrackLabel (conntrackMode st))"
    using base mode(2) by (simp add: base_ok_def)
  have par: "kern st PARSER = Some (Parser (nr_elements (ch_rules st)) (horus_runtime_enabled st) (horus_slot (horus_swap st)) True)"
    using sy ct by (simp add: synced_def Parser_getCode_def)
  have hr: "horus_ready (kern st) (horus_runtime_enabled st) (horus_slot (horus_swap st)) m True"
    using m(3) ct by (simp add: horus_ready_def)
  show ?thesis
    using run_parser_conntrack [OF start co wf lab mode(1) par hr, of s MAX_TAIL_CALL_CNT "Return RX_DROP"] s m
    by (auto simp: packet_verdict_def labelled_verdict_def automatic_def shared_vector_def MAX_TAIL_CALL_CNT_def)
qed

lemma getRuleList_chain_ok:
  "rules_ok (ch_rules st) \<Longrightarrow> length (ch_rules st) < maxRules \<Longrightarrow> chain_ok (getRuleList st)"
  using getRuleList_ok [of st] by (simp add: chain_ok_rules rules_ok_def getRuleList_def)

text \<open>The default policy as a last rule changes nothing.\<close>

lemma first_match_default:
  assumes "defaultAction st \<noteq> LOG" "d = defaultAction st"
  shows "first_match d (rule_matches pkt) (getRuleList st) = first_match d (rule_matches pkt) (ch_rules st)"
proof (cases "List.find (rule_matches pkt) (ch_rules st)")
  case None
  then have "List.find (rule_matches pkt) (getRuleList st) = List.find (rule_matches pkt)
      [empty_rule\<lparr>rid := length (ch_rules st), action := Some (defaultAction st), description := Some ''Default Policy''\<rparr>]"
    by (simp add: getRuleList_def find_append)
  then show ?thesis using assms None
    by (cases "defaultAction st") (auto simp: first_match_def default_verdict_def rule_matches_def empty_rule_def conntrack_matches_def
        ip_matches_def proto_matches_def port_matches_def flags_matches_def split: Type.splits)
next
  case (Some r)
  then show ?thesis by (simp add: first_match_def getRuleList_def find_append)
qed

text \<open>
  The decision of the programs in terms of the configuration: packets of established connections pass in automatic mode, others
  are decided by the first matching rule or the default action; the mitigator, if it is enabled and has entries, decides first.
\<close>

definition chain_decision :: "env \<Rightarrow> chain \<Rightarrow> packetHeaders \<Rightarrow> verdict" where
  "chain_decision e st pkt =
     (let v = if automatic st pkt then RX_OK else first_match (defaultAction st) (rule_matches pkt) (ch_rules st) in
      case horusFromRulesToMap (stack_key e) (stack_value e) (getRuleList st) of
        Inr m \<Rightarrow> if horus_enabled st \<and> m \<noteq> [] then horus_verdict v (Horus_rx (Horus_fields m) (Horus_updateMap m) pkt) else v
      | Inl _ \<Rightarrow> v)"

text \<open>
  When the mitigator agrees with the rules: it is not enabled, or no rule logs and its key can express every rule for the packet.
\<close>

definition mitigator_exact :: "chain \<Rightarrow> packetHeaders \<Rightarrow> bool" where
  "mitigator_exact st pkt \<longleftrightarrow>
     (horus_enabled st \<longrightarrow> defaultAction st \<noteq> LOG \<and> list_all (\<lambda>r. action r \<noteq> Some LOG \<and> horus_exact pkt r) (ch_rules st))"

lemma synced_decides:
  assumes ok: "fw_ok e st" and sy: "synced e st" and len: "length (ch_rules st) < maxRules"
    and wf: "chain_wf lpm (ch_rules st) pkt" and ct: "getConntrack_ON st" and s: "shared_vector s"
  shows "packet_verdict lpm st pkt s = chain_decision e st pkt"
proof -
  have co: "chain_ok (ch_rules st)" using ok len by (simp add: chain_ok_rules fw_ok_def)
  show ?thesis using synced_run [OF ok sy co wf ct s] by (auto simp: chain_decision_def Let_def)
qed

text \<open>The mitigator agrees with the chain when every rule is one its key can express.\<close>

lemma decision_exact:
  assumes ok: "rules_ok (ch_rules st)" and len: "length (ch_rules st) < maxRules"
    and ex: "mitigator_exact st pkt" and na: "\<not> automatic st pkt"
  shows "chain_decision e st pkt = first_match (defaultAction st) (rule_matches pkt) (ch_rules st)"
proof (cases "horusFromRulesToMap (stack_key e) (stack_value e) (getRuleList st)")
  case (Inl x)
  then show ?thesis using na by (simp add: chain_decision_def)
next
  case (Inr m)
  show ?thesis
  proof (cases "horus_enabled st \<and> m \<noteq> []")
    case True
    have nolog: "defaultAction st \<noteq> LOG" using ex True by (simp add: mitigator_exact_def)
    have "list_all (horus_exact pkt) (getRuleList st)" "list_all (\<lambda>r. action r \<noteq> Some LOG) (getRuleList st)"
      using True ex by (auto simp: mitigator_exact_def getRuleList_def horus_exact_def empty_rule_def list_all_iff)
    then show ?thesis
      using Horus_sound [OF getRuleList_chain_ok [OF ok len] Inr, of pkt "defaultAction st"] True Inr
        first_match_default [OF nolog refl] na by (simp add: chain_decision_def Let_def)
  qed (use Inr na in \<open>auto simp: chain_decision_def Let_def\<close>)
qed

lemma synced_verdict:
  assumes ok: "fw_ok e st" and sy: "synced e st" and len: "length (ch_rules st) < maxRules"
    and wf: "chain_wf lpm (ch_rules st) pkt" and ct: "getConntrack_ON st" and s: "shared_vector s"
    and ex: "mitigator_exact st pkt" and na: "\<not> automatic st pkt"
  shows "packet_verdict lpm st pkt s = first_match (defaultAction st) (rule_matches pkt) (ch_rules st)"
  using synced_decides [OF ok sy len wf ct s] decision_exact [OF _ len ex na] ok by (simp add: fw_ok_def)

text \<open>In automatic mode the mitigator is the only program that can stop an established connection.\<close>

lemma automatic_verdict:
  assumes "fw_ok e st" "synced e st" "chain_ok (ch_rules st)" "chain_wf lpm (ch_rules st) pkt" "shared_vector s"
    and "automatic st pkt" "\<not> horus_runtime_enabled st"
  shows "packet_verdict lpm st pkt s = RX_OK"
  using synced_run [of e st lpm pkt s] assms by (auto simp: automatic_def getConntrack_ON_def Let_def)

text \<open>Without connection tracking the parser goes straight to the chain.\<close>

lemma run_parser_off:
  assumes ready: "chain_ready k act i rules" and ok: "chain_ok rules" and wf: "chain_wf lpm rules pkt"
    and par: "k PARSER = Some (Parser (nr_elements rules) False h False)"
    and s: "shared_vector s" and n: "12 \<le> n"
  shows "run lpm k n (TailCall PARSER pkt s fb) = first_match act (rule_matches pkt) rules"
proof -
  obtain n1 where n1: "n = Suc n1" "11 \<le> n1" using n by (cases n) auto
  have r: "shared_ready rules (all_ones (nr_elements rules) @ drop (nr_elements rules) s)"
    by (rule shared_ready_parser [OF _ ok]) (use s in \<open>simp add: shared_vector_def\<close>)
  show ?thesis
    using run_forwarder [OF ready ok _ r n1(2), of lpm "pkt\<lparr>pk_forwardingDecision := FORWARDING_NOT_SET\<rparr>" "Return RX_DROP"] wf
    by (simp add: n1 par Parser_rx_def Let_def)
qed

lemma synced_verdict_off:
  assumes ok: "fw_ok e st" and sy: "synced e st" and co: "chain_ok (ch_rules st)" and wf: "chain_wf lpm (ch_rules st) pkt"
    and off: "\<not> getConntrack_ON st" and nh: "\<not> horus_runtime_enabled st" and s: "shared_vector s"
  shows "packet_verdict lpm st pkt s = first_match (defaultAction st) (rule_matches pkt) (ch_rules st)"
proof -
  obtain start where start: "chain_ready (kern st) (defaultAction st) start (ch_rules st)" using sy by (auto simp: synced_def)
  have "kern st PARSER = Some (Parser (nr_elements (ch_rules st)) False (horus_slot (horus_swap st)) False)"
    using sy off nh by (simp add: synced_def Parser_getCode_def)
  from run_parser_off [OF start co wf this s] show ?thesis by (simp add: packet_verdict_def MAX_TAIL_CALL_CNT_def)
qed

text \<open>
  With connection tracking off, a packet the mitigator leaves to the pipeline is dropped: the
  mitigator calls the program of the labels, which is not loaded then.
\<close>

lemma synced_off_mitigator:
  assumes ok: "fw_ok e st" and sy: "synced e st" and off: "\<not> getConntrack_ON st" and h: "horus_runtime_enabled st"
    and m: "horusFromRulesToMap (stack_key e) (stack_value e) (getRuleList st) = Inr m"
  shows "packet_verdict lpm st pkt s = horus_verdict RX_DROP (Horus_rx (Horus_fields m) (Horus_updateMap m) pkt)"
proof -
  have par: "kern st PARSER = Some (Parser (nr_elements (ch_rules st)) True (horus_slot (horus_swap st)) False)"
    using sy off h by (simp add: synced_def Parser_getCode_def)
  have hor: "kern st (horus_slot (horus_swap st)) = Some (Horus (Horus_fields m) (Horus_updateMap m) False)"
    using sy h m off by (auto simp: synced_def horus_synced_def)
  have lab: "kern st CONNTRACKLABEL = None" using ok off by (simp add: fw_ok_def base_ok_def getConntrack_ON_def)
  have "run lpm (kern st) (Suc (Suc n)) (TailCall PARSER pkt s (Return RX_DROP)) =
      horus_verdict RX_DROP (Horus_rx (Horus_fields m) (Horus_updateMap m) pkt)" for n
    by (cases "Horus_rx (Horus_fields m) (Horus_updateMap m) pkt"; cases n)
      (simp_all add: par hor lab Parser_rx_def Let_def Horus_tail_def)
  from this [of 30] show ?thesis by (simp add: packet_verdict_def MAX_TAIL_CALL_CNT_def)
qed

end
