(* ===== verification/Fw_Firewall.thy ===== *)
theory Fw_Firewall
  imports Fw_Update
begin

text \<open>
  The class \<open>Firewall\<close> (\<open>Firewall.cpp\<close>) for one direction: the programs the constructor loads, and
  turning connection tracking and the automatic acceptance of established connections on and off.
\<close>

section \<open>Operations\<close>

text \<open>\<open>FirewallConntrackEnum\<close> and \<open>FirewallAcceptEstablishedEnum\<close>.\<close>

datatype FirewallEnum = ON | OFF

definition ConntrackLabel_getCode :: "chain \<Rightarrow> program" where
  "ConntrackLabel_getCode st = ConntrackLabel (conntrackMode st)"

definition ConntrackTableUpdate_getCode :: "chain \<Rightarrow> program" where
  "ConntrackTableUpdate_getCode st = ConntrackTableUpdate (conntrackMode st)"

text \<open>The members of a new firewall and of a new chain have the values of \<open>Firewall.h\<close> and \<open>Chain.h\<close>.\<close>

definition Chain_new :: "ChainNameEnum \<Rightarrow> program cube \<Rightarrow> chain" where
  "Chain_new name c = \<lparr>ch_name = name, defaultAction = ACCEPT, ch_rules = [], ch_counters = [],
     is_single_op_on_chain = True, chainNumber = 0, slots = Map.empty, fw_cube = c, hits = (\<lambda>_ _. (0, 0)),
     horus_enabled = True, horus_runtime_enabled = False, horus_swap = False, hop = None, conntrackMode = 2\<rparr>"

text \<open>\<open>programs[slot] = new Program(slot, ..)\<close> for the programs whose constructor calls \<open>load\<close>.\<close>

definition load_slot :: "env \<Rightarrow> program \<Rightarrow> nat \<Rightarrow> chain \<Rightarrow> chain" where
  "load_slot e p slot st = (let st1 = Program_load e p slot st in st1\<lparr>slots := (slots st1)(slot \<mapsto> slot)\<rparr>)"

text \<open>
  The base class loads \<open>firewall_code\<close> at index 0; the constructor of \<open>Parser\<close> calls \<open>reload\<close>, those
  of the other programs \<open>load\<close>.
\<close>

definition Firewall_new :: "env \<Rightarrow> ChainNameEnum \<Rightarrow> program panel \<Rightarrow> chain" where
  "Firewall_new e name panel =
     (let c = fst (do_add_program (compiles e) (hook e) FirewallCode 0 (empty_cube panel));
          st0 = Chain_new name c;
          st1 = (Program_reload e (Parser_getCode st0) PARSER st0)\<lparr>slots := [PARSER \<mapsto> PARSER]\<rparr>;
          st2 = load_slot e (ConntrackLabel_getCode st1) CONNTRACKLABEL st1;
          st3 = load_slot e (ChainForwarder_getCode st2) CHAINFORWARDER st2;
          st4 = load_slot e (DefaultAction_getCode st3) DEFAULTACTION st3
      in load_slot e (ConntrackTableUpdate_getCode st4) CONNTRACKTABLEUPDATE st4)"

definition getAcceptEstablished :: "chain \<Rightarrow> FirewallEnum" where
  "getAcceptEstablished st = (if conntrackMode st = 2 then ON else OFF)"

definition setAcceptEstablished :: "env \<Rightarrow> FirewallEnum \<Rightarrow> chain \<Rightarrow> chain \<times> unit result" where
  "setAcceptEstablished e v st =
     (if conntrackMode st = 0 then (st, Inl (RuntimeError ''Please enable conntrack first.''))
      else if v = ON \<and> conntrackMode st \<noteq> 2
      then (let st1 = st\<lparr>conntrackMode := 2\<rparr>
            in (Program_reload e (ConntrackLabel_getCode st1) CONNTRACKLABEL st1, Inr ()))
      else if v = OFF \<and> conntrackMode st \<noteq> 1
      then (let st1 = st\<lparr>conntrackMode := 1\<rparr>
            in (Program_reload e (ConntrackLabel_getCode st1) CONNTRACKLABEL st1, Inr ()))
      else (st, Inr ()))"

definition getConntrack_mode :: "chain \<Rightarrow> FirewallEnum" where
  "getConntrack_mode st = (if conntrackMode st = 0 then OFF else ON)"

definition setConntrack :: "env \<Rightarrow> FirewallEnum \<Rightarrow> chain \<Rightarrow> chain" where
  "setConntrack e v st =
     (if v = OFF \<and> conntrackMode st \<noteq> 0
      then let st1 = st\<lparr>conntrackMode := 0\<rparr>;
               st2 = Program_reload e (ConntrackTableUpdate_getCode st1) CONNTRACKTABLEUPDATE st1;
               st3 = Program_reload e (Parser_getCode st2) PARSER st2
           in Program_delete CONNTRACKLABEL st3
      else if v = ON \<and> conntrackMode st = 0
      then let st1 = st\<lparr>conntrackMode := 1\<rparr>;
               st2 = load_slot e (ConntrackLabel_getCode st1) CONNTRACKLABEL st1;
               st3 = Program_reload e (ConntrackTableUpdate_getCode st2) CONNTRACKTABLEUPDATE st2
           in Program_reload e (Parser_getCode st3) PARSER st3
      else st)"

section \<open>A new firewall\<close>

lemma load_slot_free:
  assumes live: "cube_live e st" and i: "0 < i" "i < POLYCUBE_MAX_BPF_PROGRAMS" and c: "compiles e p" and free: "kern st i = None"
  shows "\<exists>c. load_slot e p i st = st\<lparr>fw_cube := c, hits := (hits st)(i := (\<lambda>_. (0, 0))), slots := (slots st)(i \<mapsto> i)\<rparr> \<and>
    cube_live e (load_slot e p i st) \<and> programs_table c = (kern st)(i \<mapsto> p)"
proof -
  obtain c where c: "Program_load e p i st = st\<lparr>fw_cube := c, hits := (hits st)(i := (\<lambda>_. (0, 0)))\<rparr>"
      "cube_live e (Program_load e p i st)" "programs_table c = (kern st)(i \<mapsto> p)"
    using Program_load_free [OF live i c free] by blast
  then show ?thesis by (intro exI [of _ c]) (simp add: load_slot_def Let_def cube_live_def)
qed

lemma first_program:
  assumes inv: "panel_inv p" and free: "snd (panel_add (hook e) FirewallCode p) = Inr i" and comp: "compiles e FirewallCode"
  shows "let c = fst (do_add_program (compiles e) (hook e) FirewallCode 0 (empty_cube p)) in
    cube_inv (hook e) c \<and> first_index c \<noteq> 0 \<and> programs_table c = [0 \<mapsto> FirewallCode]"
proof -
  obtain p' where a: "panel_add (hook e) FirewallCode p = (p', Inr i)" using free by (metis prod.collapse)
  let ?c2 = "(empty_cube p)\<lparr>programs := (replicate POLYCUBE_MAX_BPF_PROGRAMS None)[0 := Some FirewallCode],
    programs_table := [0 \<mapsto> FirewallCode]\<rparr>"
  have reg: "register_first (hook e) FirewallCode ?c2 = (?c2\<lparr>panel_of := p', first_index := i\<rparr>, Inr ())"
    using a by (simp add: register_first_def empty_cube_def)
  have run: "do_add_program (compiles e) (hook e) FirewallCode 0 (empty_cube p) =
      (?c2\<lparr>panel_of := p', first_index := i, programs_code := (replicate POLYCUBE_MAX_BPF_PROGRAMS None)[0 := Some FirewallCode]\<rparr>, Inr 0)"
    using reg comp by (simp add: do_add_program_def choose_index_def as_size_t_def empty_cube_def POLYCUBE_MAX_BPF_PROGRAMS_def Let_def)
  have i: "i \<noteq> 0" using panel_add_inv [OF inv a] by simp
  show ?thesis using do_add_program_ok [OF empty_cube_inv [OF inv] run] run i by (simp add: Let_def empty_cube_def)
qed

definition panel_room :: "env \<Rightarrow> program panel \<Rightarrow> bool" where
  "panel_room e p \<longleftrightarrow> panel_inv p \<and> is_value (snd (panel_add (hook e) FirewallCode p))"

lemma Firewall_new_state:
  assumes room: "panel_room e p" and comp: "\<forall>p. compiles e p"
  shows "\<exists>c h. Firewall_new e name p = (Chain_new name c)\<lparr>hits := h,
      slots := [PARSER \<mapsto> PARSER, CONNTRACKLABEL \<mapsto> CONNTRACKLABEL, CHAINFORWARDER \<mapsto> CHAINFORWARDER,
        DEFAULTACTION \<mapsto> DEFAULTACTION, CONNTRACKTABLEUPDATE \<mapsto> CONNTRACKTABLEUPDATE]\<rparr> \<and>
    cube_live e (Firewall_new e name p) \<and>
    programs_table c = [PARSER \<mapsto> Parser 0 False HORUS_INGRESS True, CONNTRACKLABEL \<mapsto> ConntrackLabel 2,
      CHAINFORWARDER \<mapsto> ChainForwarder 0 CHAINFORWARDER, DEFAULTACTION \<mapsto> DefaultAction ACCEPT,
      CONNTRACKTABLEUPDATE \<mapsto> ConntrackTableUpdate 2]"
proof -
  define c0 where "c0 = fst (do_add_program (compiles e) (hook e) FirewallCode 0 (empty_cube p))"
  define st0 where "st0 = Chain_new name c0"
  have c0: "cube_inv (hook e) c0" "first_index c0 \<noteq> 0" "programs_table c0 = [0 \<mapsto> FirewallCode]"
    using first_program room comp unfolding c0_def panel_room_def is_value_conv Let_def by blast+
  have k0: "cube_live e st0" "kern st0 = [0 \<mapsto> FirewallCode]"
    using c0 by (simp_all add: st0_def Chain_new_def cube_live_def)
  have par: "Parser_getCode st0 = Parser 0 False HORUS_INGRESS True"
    by (simp add: st0_def Chain_new_def Parser_getCode_def nr_elements_def FROM_NRULES_TO_NELEMENTS_def horus_slot_def getConntrack_ON_def)
  obtain c1 where L1: "Program_reload e (Parser_getCode st0) PARSER st0 = st0\<lparr>fw_cube := c1\<rparr>"
      "cube_live e (st0\<lparr>fw_cube := c1\<rparr>)" "programs_table c1 = (kern st0)(PARSER \<mapsto> Parser_getCode st0)"
    using Program_reload_used [OF k0(1), of "Parser_getCode st0" PARSER] comp by (auto simp: k0 PARSER_def)
  define st1 where "st1 = st0\<lparr>fw_cube := c1, slots := [PARSER \<mapsto> PARSER]\<rparr>"
  have k1: "cube_live e st1" "kern st1 = [PARSER \<mapsto> Parser 0 False HORUS_INGRESS True]"
    using L1(2,3) by (simp_all add: st1_def cube_live_def k0 par PARSER_def)
  have step: "\<exists>c h. load_slot e q i st = st\<lparr>fw_cube := c, hits := h, slots := (slots st)(i \<mapsto> i)\<rparr> \<and>
      cube_live e (load_slot e q i st) \<and> programs_table c = (kern st)(i \<mapsto> q)"
    if "cube_live e st" "kern st i = None" "i \<in> {1, 2, 3, 4}" for q i st
  proof -
    have "0 < i" "i < POLYCUBE_MAX_BPF_PROGRAMS" using that(3) by (auto simp: POLYCUBE_MAX_BPF_PROGRAMS_def)
    then show ?thesis using load_slot_free [OF that(1)] comp that(2) by blast
  qed
  define st2 where "st2 = load_slot e (ConntrackLabel_getCode st1) CONNTRACKLABEL st1"
  have f2: "kern st1 CONNTRACKLABEL = None" "CONNTRACKLABEL \<in> {1, 2, 3, 4}" by (simp_all add: k1 module_consts)
  obtain c2 h2 where L2: "st2 = st1\<lparr>fw_cube := c2, hits := h2, slots := (slots st1)(CONNTRACKLABEL \<mapsto> CONNTRACKLABEL)\<rparr>"
      "cube_live e st2" "programs_table c2 = (kern st1)(CONNTRACKLABEL \<mapsto> ConntrackLabel_getCode st1)"
    unfolding st2_def using step [OF k1(1) f2] by blast
  have k2: "kern st2 = (kern st1)(CONNTRACKLABEL \<mapsto> ConntrackLabel_getCode st1)" by (simp add: L2)
  define st3 where "st3 = load_slot e (ChainForwarder_getCode st2) CHAINFORWARDER st2"
  have f3: "kern st2 CHAINFORWARDER = None" "CHAINFORWARDER \<in> {1, 2, 3, 4}" by (simp_all add: k2 k1 module_consts)
  obtain c3 h3 where L3: "st3 = st2\<lparr>fw_cube := c3, hits := h3, slots := (slots st2)(CHAINFORWARDER \<mapsto> CHAINFORWARDER)\<rparr>"
      "cube_live e st3" "programs_table c3 = (kern st2)(CHAINFORWARDER \<mapsto> ChainForwarder_getCode st2)"
    unfolding st3_def using step [OF L2(2) f3] by blast
  have k3: "kern st3 = (kern st2)(CHAINFORWARDER \<mapsto> ChainForwarder_getCode st2)" by (simp add: L3)
  define st4 where "st4 = load_slot e (DefaultAction_getCode st3) DEFAULTACTION st3"
  have f4: "kern st3 DEFAULTACTION = None" "DEFAULTACTION \<in> {1, 2, 3, 4}" by (simp_all add: k3 k2 k1 module_consts)
  obtain c4 h4 where L4: "st4 = st3\<lparr>fw_cube := c4, hits := h4, slots := (slots st3)(DEFAULTACTION \<mapsto> DEFAULTACTION)\<rparr>"
      "cube_live e st4" "programs_table c4 = (kern st3)(DEFAULTACTION \<mapsto> DefaultAction_getCode st3)"
    unfolding st4_def using step [OF L3(2) f4] by blast
  have k4: "kern st4 = (kern st3)(DEFAULTACTION \<mapsto> DefaultAction_getCode st3)" by (simp add: L4)
  define st5 where "st5 = load_slot e (ConntrackTableUpdate_getCode st4) CONNTRACKTABLEUPDATE st4"
  have f5: "kern st4 CONNTRACKTABLEUPDATE = None" "CONNTRACKTABLEUPDATE \<in> {1, 2, 3, 4}" by (simp_all add: k4 k3 k2 k1 module_consts)
  obtain c5 h5 where L5: "st5 = st4\<lparr>fw_cube := c5, hits := h5, slots := (slots st4)(CONNTRACKTABLEUPDATE \<mapsto> CONNTRACKTABLEUPDATE)\<rparr>"
      "cube_live e st5" "programs_table c5 = (kern st4)(CONNTRACKTABLEUPDATE \<mapsto> ConntrackTableUpdate_getCode st4)"
    unfolding st5_def using step [OF L4(2) f5] by blast
  have new: "Firewall_new e name p = st5"
    unfolding Firewall_new_def Let_def c0_def [symmetric] st0_def [symmetric] L1(1)
      st5_def st4_def st3_def st2_def st1_def by simp
  have codes: "ConntrackLabel_getCode st1 = ConntrackLabel 2" "ChainForwarder_getCode st2 = ChainForwarder 0 CHAINFORWARDER"
      "DefaultAction_getCode st3 = DefaultAction ACCEPT" "ConntrackTableUpdate_getCode st4 = ConntrackTableUpdate 2"
    by (simp_all add: L4(1) L3(1) L2(1) st1_def st0_def Chain_new_def ConntrackLabel_getCode_def ChainForwarder_getCode_def
        DefaultAction_getCode_def ConntrackTableUpdate_getCode_def nr_elements_def FROM_NRULES_TO_NELEMENTS_def)
  have "programs_table c5 = [PARSER \<mapsto> Parser 0 False HORUS_INGRESS True, CONNTRACKLABEL \<mapsto> ConntrackLabel 2,
      CHAINFORWARDER \<mapsto> ChainForwarder 0 CHAINFORWARDER, DEFAULTACTION \<mapsto> DefaultAction ACCEPT,
      CONNTRACKTABLEUPDATE \<mapsto> ConntrackTableUpdate 2]"
    unfolding L5(3) k4 k3 k2 k1 codes ..
  moreover have "st5 = (Chain_new name c5)\<lparr>hits := h5,
      slots := [PARSER \<mapsto> PARSER, CONNTRACKLABEL \<mapsto> CONNTRACKLABEL, CHAINFORWARDER \<mapsto> CHAINFORWARDER,
        DEFAULTACTION \<mapsto> DEFAULTACTION, CONNTRACKTABLEUPDATE \<mapsto> CONNTRACKTABLEUPDATE]\<rparr>"
    by (simp add: L5(1) L4(1) L3(1) L2(1) st1_def st0_def Chain_new_def)
  ultimately show ?thesis using L5(2) unfolding new by blast
qed

lemma bank_not_low: "i \<in> bank n \<Longrightarrow> i \<noteq> PARSER \<and> i \<noteq> CONNTRACKLABEL \<and> i \<noteq> CHAINFORWARDER \<and> i \<noteq> DEFAULTACTION \<and>
    i \<noteq> CONNTRACKTABLEUPDATE"
  using banks by blast

lemma Firewall_new_ok:
  assumes room: "panel_room e p" and comp: "\<forall>p. compiles e p" and name: "name = INGRESS \<or> name = EGRESS"
  shows "fw_ok e (Firewall_new e name p) \<and> ch_rules (Firewall_new e name p) = [] \<and> conntrackMode (Firewall_new e name p) = 2 \<and>
    defaultAction (Firewall_new e name p) = ACCEPT \<and> ch_counters (Firewall_new e name p) = [] \<and> horus_enabled (Firewall_new e name p) \<and>
    is_single_op_on_chain (Firewall_new e name p)"
proof -
  obtain c h where st: "Firewall_new e name p = (Chain_new name c)\<lparr>hits := h,
      slots := [PARSER \<mapsto> PARSER, CONNTRACKLABEL \<mapsto> CONNTRACKLABEL, CHAINFORWARDER \<mapsto> CHAINFORWARDER,
        DEFAULTACTION \<mapsto> DEFAULTACTION, CONNTRACKTABLEUPDATE \<mapsto> CONNTRACKTABLEUPDATE]\<rparr>"
      "cube_live e (Firewall_new e name p)"
      "programs_table c = [PARSER \<mapsto> Parser 0 False HORUS_INGRESS True, CONNTRACKLABEL \<mapsto> ConntrackLabel 2,
        CHAINFORWARDER \<mapsto> ChainForwarder 0 CHAINFORWARDER, DEFAULTACTION \<mapsto> DefaultAction ACCEPT,
        CONNTRACKTABLEUPDATE \<mapsto> ConntrackTableUpdate 2]"
    using Firewall_new_state [OF room comp, of name] by blast
  let ?st = "Firewall_new e name p"
  have flds: "kern ?st = programs_table c" "ch_name ?st = name" "chainNumber ?st = 0" "conntrackMode ?st = 2"
      "defaultAction ?st = ACCEPT" "horus_runtime_enabled ?st = False" "ch_rules ?st = []" "ch_counters ?st = []"
      "is_single_op_on_chain ?st" "horus_enabled ?st"
    by (simp_all add: st(1) Chain_new_def)
  have sl: "slots ?st s = None" if "5 \<le> s" for s using that by (simp add: st(1) module_consts)
  have kn: "kern ?st i = None" if "5 \<le> i" for i using that by (simp add: flds st(3) module_consts)
  have "base_ok e ?st"
    using st(2) name unfolding base_ok_def flds st(3) by (simp add: st(1) module_consts)
  moreover have "horus_ok ?st"
  proof -
    have "5 \<le> horus_slot b" for b using horus_slot_cases [of b] by auto
    then show ?thesis using sl kn by (simp add: horus_ok_def flds)
  qed
  moreover have "banks_ok ?st"
  proof -
    have "5 \<le> i" if "i \<in> bank n" for i n using bank_above [OF that] by simp
    moreover have "5 \<le> s" if "s \<in> set chain_slots" for s using chain_slots_above [OF that] by simp
    ultimately show ?thesis using sl kn unfolding banks_ok_def by auto
  qed
  ultimately show ?thesis by (simp add: fw_ok_def rules_ok_def flds)
qed

text \<open>A new firewall lets every packet through.\<close>

lemma Firewall_new_verdict:
  assumes room: "panel_room e p" and comp: "\<forall>p. compiles e p"
  shows "packet_verdict lpm (Firewall_new e name p) pkt s = RX_OK"
proof -
  obtain c h where st: "Firewall_new e name p = (Chain_new name c)\<lparr>hits := h,
      slots := [PARSER \<mapsto> PARSER, CONNTRACKLABEL \<mapsto> CONNTRACKLABEL, CHAINFORWARDER \<mapsto> CHAINFORWARDER,
        DEFAULTACTION \<mapsto> DEFAULTACTION, CONNTRACKTABLEUPDATE \<mapsto> CONNTRACKTABLEUPDATE]\<rparr>"
      "programs_table c = [PARSER \<mapsto> Parser 0 False HORUS_INGRESS True, CONNTRACKLABEL \<mapsto> ConntrackLabel 2,
        CHAINFORWARDER \<mapsto> ChainForwarder 0 CHAINFORWARDER, DEFAULTACTION \<mapsto> DefaultAction ACCEPT,
        CONNTRACKTABLEUPDATE \<mapsto> ConntrackTableUpdate 2]"
    using Firewall_new_state [OF room comp, of name] by blast
  have k: "kern (Firewall_new e name p) = programs_table c" by (simp add: st(1) Chain_new_def)
  have "run lpm (programs_table c) (Suc (Suc (Suc (Suc (Suc n))))) (TailCall PARSER pkt s (Return RX_DROP)) = RX_OK" for n
    by (simp add: st(2) module_consts Parser_rx_def Let_def ConntrackLabel_rx_def ChainForwarder_rx_def
        FORWARDING_NOT_SET_def FORWARDING_PASS_LABELING_def call_default_def DefaultAction_rx_def default_verdict_def)
  from this [of 27] show ?thesis by (simp add: packet_verdict_def k MAX_TAIL_CALL_CNT_def)
qed

section \<open>Setters\<close>

lemma fw_ok_frame:
  assumes ok: "fw_ok e st" and base: "base_ok e st'"
    and same: "chainNumber st' = chainNumber st" "ch_rules st' = ch_rules st" "horus_runtime_enabled st' = horus_runtime_enabled st"
      "horus_swap st' = horus_swap st"
    and kern: "\<And>i. 5 \<le> i \<Longrightarrow> kern st' i = kern st i" and slots: "\<And>s. 5 \<le> s \<Longrightarrow> slots st' s = slots st s"
  shows "fw_ok e st'"
proof -
  have h: "5 \<le> horus_slot b" for b using horus_slot_cases [of b] by auto
  have "horus_ok st'" using ok by (simp add: fw_ok_def horus_ok_def same kern [OF h] slots [OF h])
  moreover have "banks_ok st'"
    by (rule banks_ok_frame [of st]) (use ok same kern slots in \<open>auto simp: fw_ok_def\<close>)
  ultimately show ?thesis using ok base same slots [of ACTION] by (simp add: fw_ok_def ACTION_def)
qed

lemma synced_frame:
  assumes sy: "synced e st" and tl: "tail_loaded (kern st') (defaultAction st')"
    and same: "ch_rules st' = ch_rules st" "hop st' = hop st"
    and kern: "\<And>i. i = CHAINFORWARDER \<or> 7 \<le> i \<Longrightarrow> kern st' i = kern st i"
    and par: "kern st' PARSER = Some (Parser_getCode st')" and h: "horus_synced e st'"
  shows "synced e st'"
proof -
  obtain start where s: "NR_INITIAL_MODULES \<le> start" "hop st = Some start"
      "chain_ready (kern st) (defaultAction st) start (ch_rules st)" using sy by (auto simp: synced_def)
  have "kern st' (start + j) = kern st (start + j)" for j using s(1) by (intro kern) (simp add: NR_INITIAL_MODULES_def)
  then have "chain_ready (kern st') (defaultAction st') start (ch_rules st')"
    using s(3) tl kern by (simp add: chain_ready_def chain_loaded_def same)
  then show ?thesis using s par h by (auto simp: synced_def same)
qed

lemma setDefault_ok:
  assumes ok: "fw_ok e st" and comp: "\<forall>p. compiles e p"
  shows "fw_ok e (setDefault e act st)" "defaultAction (setDefault e act st) = act"
    "ch_rules (setDefault e act st) = ch_rules st" "synced e st \<Longrightarrow> synced e (setDefault e act st)"
proof -
  define st1 where "st1 = st\<lparr>defaultAction := act\<rparr>"
  have base: "base_ok e st" using ok by (simp add: fw_ok_def)
  have "cube_live e st1" "kern st1 DEFAULTACTION \<noteq> None" using base by (simp_all add: st1_def base_ok_def cube_live_def)
  then obtain c where c: "Program_reload e (DefaultAction act) DEFAULTACTION st1 = st1\<lparr>fw_cube := c\<rparr>"
      "cube_live e (st1\<lparr>fw_cube := c\<rparr>)" "programs_table c = (kern st)(DEFAULTACTION \<mapsto> DefaultAction act)"
    using Program_reload_used [of e st1 "DefaultAction act" DEFAULTACTION] comp by (auto simp: st1_def)
  have code: "DefaultAction_getCode st1 = DefaultAction act" by (simp add: DefaultAction_getCode_def st1_def)
  have run: "setDefault e act st = (if defaultAction st = act then st else st\<lparr>defaultAction := act, fw_cube := c\<rparr>)"
    using base c(1) code by (auto simp: setDefault_def Let_def base_ok_def st1_def)
  have "base_ok e (st\<lparr>defaultAction := act, fw_cube := c\<rparr>)"
    using base c(2) by (simp add: base_ok_def c(3) st1_def module_consts)
  then have fw: "fw_ok e (st\<lparr>defaultAction := act, fw_cube := c\<rparr>)"
    by (rule fw_ok_frame [OF ok]) (auto simp: c(3) DEFAULTACTION_def)
  show "fw_ok e (setDefault e act st)" using ok fw by (simp add: run)
  show "defaultAction (setDefault e act st) = act" "ch_rules (setDefault e act st) = ch_rules st" by (simp_all add: run)
  have "synced e (st\<lparr>defaultAction := act, fw_cube := c\<rparr>)" if sy: "synced e st"
  proof (rule synced_frame [OF sy])
    let ?st = "st\<lparr>defaultAction := act, fw_cube := c\<rparr>"
    have r: "rules_ok (ch_rules st)" "rules_ok (ch_rules ?st)" using ok by (simp_all add: fw_ok_def)
    show "horus_synced e ?st" using sy
      by (simp add: synced_def horus_synced_def horus_default_policy [OF r(1)] horus_default_policy [OF r(2)] c(3)
          getConntrack_ON_def)
    show "tail_loaded (kern ?st) (defaultAction ?st)"
      using base by (auto simp: tail_loaded_def c(3) base_ok_def module_consts)
    show "kern ?st PARSER = Some (Parser_getCode ?st)"
      using sy by (simp add: synced_def c(3) Parser_getCode_def getConntrack_ON_def module_consts)
  qed (auto simp: c(3) module_consts)
  then show "synced e st \<Longrightarrow> synced e (setDefault e act st)" by (simp add: run)
qed

lemma setAcceptEstablished_ok:
  assumes ok: "fw_ok e st" and comp: "\<forall>p. compiles e p" and on: "getConntrack_ON st"
  shows "\<exists>st'. setAcceptEstablished e v st = (st', Inr ()) \<and> fw_ok e st' \<and> getAcceptEstablished st' = v \<and>
    ch_rules st' = ch_rules st \<and> defaultAction st' = defaultAction st \<and> getConntrack_ON st' \<and> (synced e st \<longrightarrow> synced e st')"
proof -
  have base: "base_ok e st" using ok by (simp add: fw_ok_def)
  define m where "m = (if v = ON then 2 else 1 :: nat)"
  have m: "m \<noteq> 0" "m \<le> 2" "m = 2 \<longleftrightarrow> v = ON" by (cases v; simp add: m_def)+
  have mode: "conntrackMode st = 1 \<or> conntrackMode st = 2" using base on by (auto simp: base_ok_def getConntrack_ON_def)
  define st1 where "st1 = st\<lparr>conntrackMode := m\<rparr>"
  have "cube_live e st1" "kern st1 CONNTRACKLABEL \<noteq> None" using base on by (simp_all add: st1_def base_ok_def cube_live_def getConntrack_ON_def)
  then obtain c where c: "Program_reload e (ConntrackLabel m) CONNTRACKLABEL st1 = st1\<lparr>fw_cube := c\<rparr>"
      "cube_live e (st1\<lparr>fw_cube := c\<rparr>)" "programs_table c = (kern st)(CONNTRACKLABEL \<mapsto> ConntrackLabel m)"
    using Program_reload_used [of e st1 "ConntrackLabel m" CONNTRACKLABEL] comp by (auto simp: st1_def)
  define st' where "st' = (if conntrackMode st = m then st else st\<lparr>conntrackMode := m, fw_cube := c\<rparr>)"
  have "setAcceptEstablished e v st = (st', Inr ())"
    using c(1) mode by (cases v) (auto simp: setAcceptEstablished_def Let_def ConntrackLabel_getCode_def m_def st'_def st1_def)
  moreover have fw: "fw_ok e (st\<lparr>conntrackMode := m, fw_cube := c\<rparr>)"
  proof (rule fw_ok_frame [OF ok])
    show "base_ok e (st\<lparr>conntrackMode := m, fw_cube := c\<rparr>)"
      using base c(2) m on by (auto simp: base_ok_def c(3) st1_def module_consts getConntrack_ON_def)
  qed (auto simp: c(3) CONNTRACKLABEL_def)
  moreover have "synced e (st\<lparr>conntrackMode := m, fw_cube := c\<rparr>)" if sy: "synced e st"
  proof (rule synced_frame [OF sy])
    let ?st = "st\<lparr>conntrackMode := m, fw_cube := c\<rparr>"
    have ct: "getConntrack_ON ?st = getConntrack_ON st" using on m by (simp add: getConntrack_ON_def)
    show "horus_synced e ?st" using sy by (simp add: synced_def horus_synced_def ct c(3) getRuleList_def)
    show "tail_loaded (kern ?st) (defaultAction ?st)"
      using base by (auto simp: tail_loaded_def c(3) base_ok_def module_consts)
    show "kern ?st PARSER = Some (Parser_getCode ?st)"
      using sy ct by (simp add: synced_def c(3) Parser_getCode_def module_consts)
  qed (auto simp: c(3) module_consts)
  ultimately show ?thesis using ok on m
    by (cases v) (auto simp: st'_def getAcceptEstablished_def getConntrack_ON_def)
qed

text \<open>
  Turning connection tracking on or off. The mitigator is not reloaded: it keeps the flag it was
  compiled with until the next update of the chain.
\<close>

lemma reload_low:
  assumes "cube_live e st" "\<forall>p. compiles e p" "kern st i \<noteq> None"
  obtains c where "Program_reload e p i st = st\<lparr>fw_cube := c\<rparr>" "cube_live e (st\<lparr>fw_cube := c\<rparr>)"
    "programs_table c = (kern st)(i \<mapsto> p)"
  using Program_reload_used [of e st p i] assms by auto

lemma setConntrack_off:
  assumes ok: "fw_ok e st" and comp: "\<forall>p. compiles e p" and on: "getConntrack_ON st"
  shows "\<exists>c. setConntrack e OFF st = st\<lparr>conntrackMode := 0, fw_cube := c, slots := (slots st)(CONNTRACKLABEL := None)\<rparr> \<and>
    cube_live e (setConntrack e OFF st) \<and>
    programs_table c = (kern st)(CONNTRACKTABLEUPDATE \<mapsto> ConntrackTableUpdate 0,
      PARSER \<mapsto> Parser (nr_elements (ch_rules st)) (horus_runtime_enabled st) (horus_slot (horus_swap st)) False,
      CONNTRACKLABEL := None)"
proof -
  have base: "base_ok e st" using ok by (simp add: fw_ok_def)
  define st1 where "st1 = st\<lparr>conntrackMode := 0\<rparr>"
  have l1: "cube_live e st1" "kern st1 CONNTRACKTABLEUPDATE \<noteq> None" using base by (auto simp: st1_def base_ok_def cube_live_def)
  obtain c2 where c2: "Program_reload e (ConntrackTableUpdate 0) CONNTRACKTABLEUPDATE st1 = st1\<lparr>fw_cube := c2\<rparr>"
      "cube_live e (st1\<lparr>fw_cube := c2\<rparr>)" "programs_table c2 = (kern st1)(CONNTRACKTABLEUPDATE \<mapsto> ConntrackTableUpdate 0)"
    using reload_low [OF l1(1) comp l1(2)] .
  define st2 where "st2 = st1\<lparr>fw_cube := c2\<rparr>"
  let ?par = "Parser (nr_elements (ch_rules st)) (horus_runtime_enabled st) (horus_slot (horus_swap st)) False"
  have l2: "cube_live e st2" "kern st2 PARSER \<noteq> None" using c2 base by (simp_all add: st2_def st1_def base_ok_def)
  obtain c3 where c3: "Program_reload e ?par PARSER st2 = st2\<lparr>fw_cube := c3\<rparr>"
      "cube_live e (st2\<lparr>fw_cube := c3\<rparr>)" "programs_table c3 = (kern st2)(PARSER \<mapsto> ?par)"
    using reload_low [OF l2(1) comp l2(2)] .
  define st3 where "st3 = st2\<lparr>fw_cube := c3\<rparr>"
  have l3: "cube_live e st3" "slots st3 CONNTRACKLABEL = Some CONNTRACKLABEL" "kern st3 CONNTRACKLABEL \<noteq> None"
    using base on c3 by (simp_all add: st3_def st2_def st1_def c2(3) base_ok_def getConntrack_ON_def module_consts)
  obtain c where c: "Program_delete CONNTRACKLABEL st3 = st3\<lparr>fw_cube := c, slots := (slots st3)(CONNTRACKLABEL := None)\<rparr>"
      "cube_live e (Program_delete CONNTRACKLABEL st3)" "programs_table c = (kern st3)(CONNTRACKLABEL := None)"
    using Program_delete_used [OF l3] by blast
  have code: "ConntrackTableUpdate_getCode st1 = ConntrackTableUpdate 0" "Parser_getCode st2 = ?par"
    by (simp_all add: ConntrackTableUpdate_getCode_def Parser_getCode_def st2_def st1_def getConntrack_ON_def)
  have run: "setConntrack e OFF st = Program_delete CONNTRACKLABEL st3"
    using on unfolding setConntrack_def st1_def [symmetric] Let_def code(1) c2(1) st2_def [symmetric] code(2) c3(1) st3_def [symmetric]
    by (simp add: getConntrack_ON_def)
  show ?thesis
  proof (intro exI conjI)
    show "setConntrack e OFF st = st\<lparr>conntrackMode := 0, fw_cube := c, slots := (slots st)(CONNTRACKLABEL := None)\<rparr>"
      unfolding run c(1) by (simp add: st3_def st2_def st1_def)
    show "cube_live e (setConntrack e OFF st)" unfolding run by (rule c(2))
    show "programs_table c = (kern st)(CONNTRACKTABLEUPDATE \<mapsto> ConntrackTableUpdate 0, PARSER \<mapsto> ?par, CONNTRACKLABEL := None)"
      unfolding c(3) by (simp add: st3_def c3(3) st2_def c2(3) st1_def)
  qed
qed

lemma setConntrack_on:
  assumes ok: "fw_ok e st" and comp: "\<forall>p. compiles e p" and off: "\<not> getConntrack_ON st"
  shows "\<exists>c h. setConntrack e ON st = st\<lparr>conntrackMode := 1, fw_cube := c, hits := h, slots := (slots st)(CONNTRACKLABEL \<mapsto> CONNTRACKLABEL)\<rparr> \<and>
    cube_live e (setConntrack e ON st) \<and>
    programs_table c = (kern st)(CONNTRACKLABEL \<mapsto> ConntrackLabel 1, CONNTRACKTABLEUPDATE \<mapsto> ConntrackTableUpdate 1,
      PARSER \<mapsto> Parser (nr_elements (ch_rules st)) (horus_runtime_enabled st) (horus_slot (horus_swap st)) True)"
proof -
  have base: "base_ok e st" using ok by (simp add: fw_ok_def)
  define st1 where "st1 = st\<lparr>conntrackMode := 1\<rparr>"
  have l1: "cube_live e st1" "0 < CONNTRACKLABEL" "CONNTRACKLABEL < POLYCUBE_MAX_BPF_PROGRAMS" "compiles e (ConntrackLabel 1)"
      "kern st1 CONNTRACKLABEL = None"
    using base comp off by (auto simp: st1_def base_ok_def cube_live_def getConntrack_ON_def CONNTRACKLABEL_def POLYCUBE_MAX_BPF_PROGRAMS_def)
  define st2 where "st2 = load_slot e (ConntrackLabel 1) CONNTRACKLABEL st1"
  obtain c2 where c2: "st2 = st1\<lparr>fw_cube := c2, hits := (hits st1)(CONNTRACKLABEL := (\<lambda>_. (0, 0))),
        slots := (slots st1)(CONNTRACKLABEL \<mapsto> CONNTRACKLABEL)\<rparr>"
      "cube_live e st2" "programs_table c2 = (kern st1)(CONNTRACKLABEL \<mapsto> ConntrackLabel 1)"
    unfolding st2_def using load_slot_free [OF l1] by blast
  have l2: "kern st2 CONNTRACKTABLEUPDATE \<noteq> None" using base c2(3) by (auto simp: c2(1) st1_def base_ok_def module_consts)
  obtain c3 where c3: "Program_reload e (ConntrackTableUpdate 1) CONNTRACKTABLEUPDATE st2 = st2\<lparr>fw_cube := c3\<rparr>"
      "cube_live e (st2\<lparr>fw_cube := c3\<rparr>)" "programs_table c3 = (kern st2)(CONNTRACKTABLEUPDATE \<mapsto> ConntrackTableUpdate 1)"
    using reload_low [OF c2(2) comp l2] .
  define st3 where "st3 = st2\<lparr>fw_cube := c3\<rparr>"
  let ?par = "Parser (nr_elements (ch_rules st)) (horus_runtime_enabled st) (horus_slot (horus_swap st)) True"
  have l3: "cube_live e st3" "kern st3 PARSER \<noteq> None"
    using c3 base by (simp_all add: st3_def c2 st1_def base_ok_def module_consts)
  obtain c where c: "Program_reload e ?par PARSER st3 = st3\<lparr>fw_cube := c\<rparr>"
      "cube_live e (st3\<lparr>fw_cube := c\<rparr>)" "programs_table c = (kern st3)(PARSER \<mapsto> ?par)"
    using reload_low [OF l3(1) comp l3(2)] .
  have code: "ConntrackLabel_getCode st1 = ConntrackLabel 1" "ConntrackTableUpdate_getCode st2 = ConntrackTableUpdate 1"
      "Parser_getCode st3 = ?par"
    by (simp_all add: ConntrackLabel_getCode_def ConntrackTableUpdate_getCode_def Parser_getCode_def st3_def c2(1) st1_def getConntrack_ON_def)
  have run: "setConntrack e ON st = st3\<lparr>fw_cube := c\<rparr>"
    using off unfolding setConntrack_def st1_def [symmetric] Let_def code(1) st2_def [symmetric] code(2) c3(1) st3_def [symmetric] code(3) c(1)
    by (simp add: getConntrack_ON_def)
  show ?thesis
  proof (intro exI conjI)
    show "setConntrack e ON st = st\<lparr>conntrackMode := 1, fw_cube := c, hits := hits st2, slots := (slots st)(CONNTRACKLABEL \<mapsto> CONNTRACKLABEL)\<rparr>"
      unfolding run by (simp add: st3_def c2(1) st1_def)
    show "cube_live e (setConntrack e ON st)" unfolding run by (rule c(2))
    show "programs_table c = (kern st)(CONNTRACKLABEL \<mapsto> ConntrackLabel 1, CONNTRACKTABLEUPDATE \<mapsto> ConntrackTableUpdate 1, PARSER \<mapsto> ?par)"
      unfolding c(3) by (simp add: st3_def c3(3) c2(1,3) st1_def)
  qed
qed

lemma setConntrack_same: "getConntrack_ON st = (v = ON) \<Longrightarrow> setConntrack e v st = st"
  by (cases v) (simp_all add: setConntrack_def getConntrack_ON_def)

lemma setConntrack_ok:
  assumes ok: "fw_ok e st" and comp: "\<forall>p. compiles e p"
  shows "fw_ok e (setConntrack e v st)" "getConntrack_ON (setConntrack e v st) \<longleftrightarrow> v = ON"
    "ch_rules (setConntrack e v st) = ch_rules st"
    "synced e st \<Longrightarrow> \<not> horus_runtime_enabled st \<Longrightarrow> synced e (setConntrack e v st)"
proof -
  have base: "base_ok e st" using ok by (simp add: fw_ok_def)
  let ?on = "getConntrack_ON st" and ?st = "setConntrack e v st"
  have all: "fw_ok e ?st \<and> (getConntrack_ON ?st \<longleftrightarrow> v = ON) \<and> ch_rules ?st = ch_rules st \<and>
      (synced e st \<and> \<not> horus_runtime_enabled st \<longrightarrow> synced e ?st)"
  proof (cases "?on = (v = ON)")
    case True
    then show ?thesis using ok setConntrack_same by simp
  next
    case False
    define m where "m = (if v = ON then 1 else 0 :: nat)"
    obtain c h s where st': "?st = st\<lparr>conntrackMode := m, fw_cube := c, hits := h, slots := (slots st)(CONNTRACKLABEL := s)\<rparr>"
        "cube_live e ?st" "s = (if v = ON then Some CONNTRACKLABEL else None)"
        "kern ?st CONNTRACKTABLEUPDATE = Some (ConntrackTableUpdate m)"
        "kern ?st PARSER = Some (Parser (nr_elements (ch_rules st)) (horus_runtime_enabled st) (horus_slot (horus_swap st)) (v = ON))"
        "kern ?st CONNTRACKLABEL = (if v = ON then Some (ConntrackLabel m) else None)"
        "\<forall>i. i = CHAINFORWARDER \<or> i = DEFAULTACTION \<or> 5 \<le> i \<longrightarrow> kern ?st i = kern st i"
    proof (cases v)
      case OFF
      then obtain c where "?st = st\<lparr>conntrackMode := 0, fw_cube := c, slots := (slots st)(CONNTRACKLABEL := None)\<rparr>"
          "cube_live e ?st" "programs_table c = (kern st)(CONNTRACKTABLEUPDATE \<mapsto> ConntrackTableUpdate 0,
            PARSER \<mapsto> Parser (nr_elements (ch_rules st)) (horus_runtime_enabled st) (horus_slot (horus_swap st)) False,
            CONNTRACKLABEL := None)"
        using False setConntrack_off [OF ok comp] by auto
      then show ?thesis using OFF by (intro that [where c = c and h = "hits st" and s = None]) (simp_all add: m_def module_consts)
    next
      case ON
      then obtain c h where "?st = st\<lparr>conntrackMode := 1, fw_cube := c, hits := h, slots := (slots st)(CONNTRACKLABEL \<mapsto> CONNTRACKLABEL)\<rparr>"
          "cube_live e ?st" "programs_table c = (kern st)(CONNTRACKLABEL \<mapsto> ConntrackLabel 1, CONNTRACKTABLEUPDATE \<mapsto> ConntrackTableUpdate 1,
            PARSER \<mapsto> Parser (nr_elements (ch_rules st)) (horus_runtime_enabled st) (horus_slot (horus_swap st)) True)"
        using False setConntrack_on [OF ok comp] by auto
      then show ?thesis using ON by (intro that [where c = c and h = h and s = "Some CONNTRACKLABEL"]) (simp_all add: m_def module_consts)
    qed
    have flds: "conntrackMode ?st = m" "slots ?st CONNTRACKLABEL = s" "ch_name ?st = ch_name st" "chainNumber ?st = chainNumber st"
        "defaultAction ?st = defaultAction st" "ch_rules ?st = ch_rules st" "horus_runtime_enabled ?st = horus_runtime_enabled st"
        "horus_swap ?st = horus_swap st" "hop ?st = hop st" "horus_enabled ?st = horus_enabled st" "getRuleList ?st = getRuleList st"
      by (simp_all add: st'(1) getRuleList_def)
    have low: "kern ?st CHAINFORWARDER = kern st CHAINFORWARDER" "kern ?st DEFAULTACTION = kern st DEFAULTACTION" using st'(7) by blast+
    have b: "base_ok e ?st" using base st'(2-6) low unfolding base_ok_def flds m_def by (cases v) auto
    have "fw_ok e ?st"
    proof (rule fw_ok_frame [OF ok b])
      show "\<And>s. 5 \<le> s \<Longrightarrow> slots ?st s = slots st s" by (simp add: st'(1) CONNTRACKLABEL_def)
    qed (use st'(7) flds in auto)
    moreover have ct: "getConntrack_ON ?st \<longleftrightarrow> v = ON" unfolding getConntrack_ON_def flds m_def by (cases v) simp_all
    moreover have "synced e ?st" if sy: "synced e st" and nh: "\<not> horus_runtime_enabled st"
    proof (rule synced_frame [OF sy])
      show "horus_synced e ?st" using sy nh by (auto simp: synced_def horus_synced_def flds)
      show "kern ?st PARSER = Some (Parser_getCode ?st)" using st'(5) ct by (simp add: Parser_getCode_def flds)
      show "tail_loaded (kern ?st) (defaultAction ?st)" using base st'(4,7) by (auto simp: tail_loaded_def base_ok_def flds)
    qed (use st'(7) flds in auto)
    ultimately show ?thesis using flds by blast
  qed
  then show "fw_ok e ?st" "getConntrack_ON ?st \<longleftrightarrow> v = ON" "ch_rules ?st = ch_rules st"
    "synced e st \<Longrightarrow> \<not> horus_runtime_enabled st \<Longrightarrow> synced e ?st" by blast+
qed

text \<open>
  With the mitigator loaded, no packet passes after connection tracking is turned off: the packets it
  accepts and those it leaves to the chain both go to the label program, which is gone.
\<close>

lemma setConntrack_off_blackhole:
  assumes ok: "fw_ok e st" and sy: "synced e st" and comp: "\<forall>p. compiles e p" and on: "getConntrack_ON st"
    and h: "horus_runtime_enabled st"
  shows "packet_verdict lpm (setConntrack e OFF st) pkt s = RX_DROP"
proof -
  obtain c where st': "setConntrack e OFF st = st\<lparr>conntrackMode := 0, fw_cube := c, slots := (slots st)(CONNTRACKLABEL := None)\<rparr>"
      "programs_table c = (kern st)(CONNTRACKTABLEUPDATE \<mapsto> ConntrackTableUpdate 0,
        PARSER \<mapsto> Parser (nr_elements (ch_rules st)) (horus_runtime_enabled st) (horus_slot (horus_swap st)) False,
        CONNTRACKLABEL := None)"
    using setConntrack_off [OF ok comp on] by blast
  let ?k = "kern (setConntrack e OFF st)"
  obtain f t where hor: "kern st (horus_slot (horus_swap st)) = Some (Horus f t True)"
    using sy h on by (auto simp: synced_def horus_synced_def)
  have k: "?k PARSER = Some (Parser (nr_elements (ch_rules st)) True (horus_slot (horus_swap st)) False)"
      "?k (horus_slot (horus_swap st)) = Some (Horus f t True)" "?k CONNTRACKLABEL = None"
    using hor h by (cases "horus_swap st"; simp add: st' module_consts horus_slot_def)+
  have "run lpm ?k (Suc (Suc (Suc n))) (TailCall PARSER pkt s (Return RX_DROP)) = RX_DROP" for n
    by (simp add: k Parser_rx_def Let_def Horus_tail_def split: horus_rx.split)
  from this [of 29] show ?thesis by (simp add: packet_verdict_def MAX_TAIL_CALL_CNT_def)
qed

end
