(* ===== verification/Fw_Ops.thy ===== *)
theory Fw_Ops
  imports Fw_Firewall
begin

text \<open>
  The operations on the rules of a chain: what each does to the list of rules and to the counters,
  and that it leaves the firewall deciding by the new rules. The specification works on lists of
  rules; the operations of \<open>Chain.cpp\<close> refine it.
\<close>

section \<open>Moving elements\<close>

text \<open>The loops of \<open>delRule\<close> and \<open>insert\<close> move elements one place down or up in place.\<close>

lemma shift_down_nth:
  assumes "m < length xs"
  shows "length (foldl (\<lambda>xs j. xs[j := f j (xs ! (j + 1))]) xs [i..<m]) = length xs"
    and "k < length xs \<Longrightarrow> foldl (\<lambda>xs j. xs[j := f j (xs ! (j + 1))]) xs [i..<m] ! k =
      (if i \<le> k \<and> k < m then f k (xs ! (k + 1)) else xs ! k)"
proof -
  let ?g = "\<lambda>xs j. xs[j := f j (xs ! (j + 1))]"
  have "length (foldl ?g xs [i..<m]) = length xs \<and>
    (k < length xs \<longrightarrow> foldl ?g xs [i..<m] ! k = (if i \<le> k \<and> k < m then f k (xs ! (k + 1)) else xs ! k))" for k
    using assms
  proof (induction m arbitrary: k)
    case (Suc m)
    define l where "l = foldl ?g xs [i..<m]"
    have m: "m < length xs" using Suc.prems by simp
    have len: "length l = length xs" using Suc.IH [OF m] unfolding l_def by blast
    have nth: "k < length xs \<Longrightarrow> l ! k = (if i \<le> k \<and> k < m then f k (xs ! (k + 1)) else xs ! k)" for k
      using Suc.IH [OF m, of k] unfolding l_def by blast
    show ?case
    proof (cases "i \<le> m")
      case True
      then have "foldl ?g xs [i..<Suc m] = l[m := f m (xs ! (m + 1))]"
        using nth [of "Suc m"] Suc.prems by (simp add: l_def)
      then show ?thesis using True nth [of k] len m by (auto simp: nth_list_update)
    next
      case False
      then show ?thesis by auto
    qed
  qed simp
  then show "length (foldl ?g xs [i..<m]) = length xs"
    "k < length xs \<Longrightarrow> foldl ?g xs [i..<m] ! k = (if i \<le> k \<and> k < m then f k (xs ! (k + 1)) else xs ! k)" by blast+
qed

lemma shift_up_nth:
  assumes "n < length xs"
  shows "length (foldl (\<lambda>xs j. xs[j + 1 := f (j + 1) (xs ! j)]) xs (rev [i..<n])) = length xs"
    and "k < length xs \<Longrightarrow> foldl (\<lambda>xs j. xs[j + 1 := f (j + 1) (xs ! j)]) xs (rev [i..<n]) ! k =
      (if i < k \<and> k \<le> n then f k (xs ! (k - 1)) else xs ! k)"
proof -
  let ?g = "\<lambda>xs j. xs[j + 1 := f (j + 1) (xs ! j)]"
  have "length (foldl ?g xs (rev [i..<n])) = length xs \<and>
    (k < length xs \<longrightarrow> foldl ?g xs (rev [i..<n]) ! k = (if i < k \<and> k \<le> n then f k (xs ! (k - 1)) else xs ! k))" for k
    using assms
  proof (induction n arbitrary: xs k)
    case (Suc n)
    define ys where "ys = xs[Suc n := f (Suc n) (xs ! n)]"
    have len: "length ys = length xs" "n < length ys" using Suc.prems by (simp_all add: ys_def)
    show ?case
    proof (cases "i \<le> n")
      case True
      then have run: "foldl ?g xs (rev [i..<Suc n]) = foldl ?g ys (rev [i..<n])" by (simp add: ys_def)
      have ysn: "ys ! k = (if k = Suc n then f (Suc n) (xs ! n) else xs ! k)" for k
        using Suc.prems by (simp add: ys_def nth_list_update)
      show ?thesis using Suc.IH [OF len(2), of k] True len(1) ysn [of k] ysn [of "k - 1"] unfolding run by (auto simp: le_Suc_eq)
    next
      case False
      then show ?thesis by auto
    qed
  qed auto
  then show "length (foldl ?g xs (rev [i..<n])) = length xs"
    "k < length xs \<Longrightarrow> foldl ?g xs (rev [i..<n]) ! k = (if i < k \<and> k \<le> n then f k (xs ! (k - 1)) else xs ! k)" by blast+
qed

definition renumber :: "ChainRule list \<Rightarrow> ChainRule list" where
  "renumber rs = map (\<lambda>(i, r). r\<lparr>rid := i\<rparr>) (enumerate 0 rs)"

lemma renumber_nth [simp]: "k < length rs \<Longrightarrow> renumber rs ! k = (rs ! k)\<lparr>rid := k\<rparr>"
  by (simp add: renumber_def nth_enumerate_eq)

lemma length_renumber [simp]: "length (renumber rs) = length rs"
  by (simp add: renumber_def)

lemma rules_ok_nth: "rules_ok rs \<Longrightarrow> k < length rs \<Longrightarrow> rid (rs ! k) = k \<and> rule_ok (rs ! k)"
  unfolding rules_ok_def list_all_length by (metis add_0 nth_map nth_upt length_map length_upt diff_zero)

lemma rules_okI: "(\<And>k. k < length rs \<Longrightarrow> rid (rs ! k) = k \<and> rule_ok (rs ! k)) \<Longrightarrow> rules_ok rs"
  by (auto simp: rules_ok_def list_all_length intro: nth_equalityI)

lemma rule_ok_rid [simp]: "rule_ok (r\<lparr>rid := i\<rparr>) = rule_ok r"
  by (simp add: rule_ok_def fields_ok_def)

lemma rules_ok_renumber: "list_all rule_ok rs \<Longrightarrow> rules_ok (renumber rs)"
  by (rule rules_okI) (simp add: list_all_length)

lemma renumber_same: "rules_ok rs \<Longrightarrow> renumber rs = rs"
  using rules_ok_nth by (intro nth_equalityI) (auto simp: ChainRule.equality)

section \<open>The specification\<close>

definition spec_delete :: "nat \<Rightarrow> ChainRule list \<Rightarrow> ChainRule list" where
  "spec_delete i rs = renumber (take i rs @ drop (i + 1) rs)"

definition spec_insert :: "nat \<Rightarrow> ChainRule \<Rightarrow> ChainRule list \<Rightarrow> ChainRule list" where
  "spec_insert i r rs = renumber (take i rs @ r # drop i rs)"

definition spec_replace :: "nat \<Rightarrow> ChainRule \<Rightarrow> ChainRule list \<Rightarrow> ChainRule list" where
  "spec_replace i r rs = renumber (take i rs @ r # drop (i + 1) rs)"

lemma list_all_parts: "list_all P rs \<Longrightarrow> list_all P (take i rs) \<and> list_all P (drop i rs)"
  by (auto simp: list_all_iff dest: in_set_takeD in_set_dropD)

lemma spec_rules_ok:
  assumes "rules_ok rs"
  shows "rules_ok (spec_delete i rs)" "rule_ok r \<Longrightarrow> rules_ok (spec_insert i r rs)" "rule_ok r \<Longrightarrow> rules_ok (spec_replace i r rs)"
proof -
  have "list_all rule_ok rs" using assms by (simp add: rules_ok_def)
  note parts = list_all_parts [OF this]
  show "rules_ok (spec_delete i rs)" "rule_ok r \<Longrightarrow> rules_ok (spec_insert i r rs)" "rule_ok r \<Longrightarrow> rules_ok (spec_replace i r rs)"
    unfolding spec_delete_def spec_insert_def spec_replace_def using parts by (simp_all add: rules_ok_renumber)
qed

lemma del_rule_loop_spec:
  assumes ok: "rules_ok rs" and i: "i < length rs"
  shows "del_rule_loop i rs = spec_delete i rs"
proof -
  let ?l = "foldl (\<lambda>rs j. rs[j := (rs ! (j + 1))\<lparr>rid := j\<rparr>]) rs [i..<length rs - 1]"
  have l: "length ?l = length rs" "\<forall>k < length rs. ?l ! k = (if i \<le> k \<and> k < length rs - 1 then (rs ! (k + 1))\<lparr>rid := k\<rparr> else rs ! k)"
    using shift_down_nth [where m = "length rs - 1" and xs = rs and f = "\<lambda>j r. r\<lparr>rid := j\<rparr>" and i = i] i by simp_all
  show ?thesis unfolding del_rule_loop_def spec_delete_def
  proof (rule nth_equalityI)
    fix k assume "k < length (take (length rs - 1) ?l)"
    then have k: "k < length rs - 1" using l(1) by simp
    show "take (length rs - 1) ?l ! k = renumber (take i rs @ drop (i + 1) rs) ! k"
    proof (cases "k < i")
      case True
      then show ?thesis using k i l(2) rules_ok_nth [OF ok, of k] by (simp add: nth_append)
    next
      case False
      then show ?thesis using k i l(2) by (simp add: nth_append)
    qed
  qed (use l(1) i in simp)
qed

lemma ins_rule_loop_spec:
  assumes ok: "rules_ok rs" and i: "i \<le> length rs"
  shows "ins_rule_loop i r rs = spec_insert i r rs"
proof -
  let ?l = "foldl (\<lambda>rs j. rs[j + 1 := (rs ! j)\<lparr>rid := j + 1\<rparr>]) (rs @ [r]) (rev [i..<length rs])"
  have l: "length ?l = length rs + 1" "\<forall>k < length rs + 1. ?l ! k =
      (if i < k \<and> k \<le> length rs then ((rs @ [r]) ! (k - 1))\<lparr>rid := k\<rparr> else (rs @ [r]) ! k)"
    using shift_up_nth [where n = "length rs" and xs = "rs @ [r]" and f = "\<lambda>j r. r\<lparr>rid := j\<rparr>" and i = i] by simp_all
  show ?thesis unfolding ins_rule_loop_def spec_insert_def
  proof (rule nth_equalityI)
    fix k assume "k < length (?l[i := r\<lparr>rid := i\<rparr>])"
    then have k: "k < length rs + 1" using l(1) by simp
    consider "k < i" | "k = i" | "i < k" by linarith
    then show "?l[i := r\<lparr>rid := i\<rparr>] ! k = renumber (take i rs @ r # drop i rs) ! k"
    proof cases
      case 1
      then show ?thesis using k i l rules_ok_nth [OF ok, of k] by (simp add: nth_append)
    next
      case 2
      then show ?thesis using k i l(1) by (simp add: nth_append)
    next
      case 3
      then have "k - i = Suc (k - Suc i)" by simp
      then show ?thesis using 3 k i l by (simp add: nth_append)
    qed
  qed (use l(1) i in simp)
qed

lemma replace_spec:
  assumes ok: "rules_ok rs" and i: "i \<le> length rs" and r: "rid r = i"
  shows "(if length rs \<le> i then rs @ [r] else rs)[i := r] = spec_replace i r rs"
  unfolding spec_replace_def
proof (rule nth_equalityI)
  fix k assume "k < length ((if length rs \<le> i then rs @ [r] else rs)[i := r])"
  then show "(if length rs \<le> i then rs @ [r] else rs)[i := r] ! k = renumber (take i rs @ r # drop (i + 1) rs) ! k"
    using i r rules_ok_nth [OF ok, of k]
    by (cases "k < i"; cases "k = i") (auto simp: nth_append nth_list_update nth_Cons' split: if_splits)
qed (use i in auto)

section \<open>Counters\<close>

text \<open>
  The packets and bytes counted for a rule: what the chain has stored, and what the action program
  and the mitigator have counted since they were last read.
\<close>

fun padd :: "64 word \<times> 64 word \<Rightarrow> 64 word \<times> 64 word \<Rightarrow> 64 word \<times> 64 word" where
  "padd (a, b) (c, d) = (a + c, b + d)"

lemma padd_zero [simp]: "padd x (0, 0) = x" "padd (0, 0) x = x" by (cases x; simp)+

lemma padd_assoc: "padd (padd x y) z = padd x (padd y z)"
  by (cases x; cases y; cases z) (simp add: add.assoc)

definition amount :: "ChainStats option \<Rightarrow> 64 word \<times> 64 word" where
  "amount c = (case c of None \<Rightarrow> (0, 0) | Some c \<Rightarrow> (st_pkts c, st_bytes c))"

definition stored :: "chain \<Rightarrow> nat \<Rightarrow> 64 word \<times> 64 word" where
  "stored st i = (if i < length (ch_counters st) then amount (ch_counters st ! i) else (0, 0))"

definition pending :: "chain \<Rightarrow> nat \<Rightarrow> 64 word \<times> 64 word" where
  "pending st i = padd
     (case slots st ACTION of None \<Rightarrow> (0, 0) | Some a \<Rightarrow> hits st a i)
     (if horus_runtime_enabled st
      then (case slots st (horus_slot (horus_swap st)) of None \<Rightarrow> (0, 0) | Some h \<Rightarrow> hits st h i) else (0, 0))"

lemma pending_frame [simp]:
  "pending (st\<lparr>ch_counters := cs\<rparr>) j = pending st j" "pending (st\<lparr>ch_rules := rs\<rparr>) j = pending st j"
  by (simp_all add: pending_def split: option.split)

definition rule_count :: "chain \<Rightarrow> nat \<Rightarrow> 64 word \<times> 64 word" where
  "rule_count st i = padd (stored st i) (pending st i)"

definition counters_ok :: "chain \<Rightarrow> bool" where
  "counters_ok st \<longleftrightarrow> length (ch_counters st) \<le> length (ch_rules st) \<and>
     (\<forall>k < length (ch_counters st). pred_option (\<lambda>c. st_id c = k) (ch_counters st ! k))"

text \<open>Every rule has a place in the counter tables.\<close>

definition counter_places :: "chain \<Rightarrow> nat" where
  "counter_places st = (if horus_runtime_enabled st then MAX_RULE_SIZE_FOR_HORUS else COUNTERS_SIZE)"

definition countable :: "chain \<Rightarrow> bool" where
  "countable st \<longleftrightarrow> length (ch_rules st) \<le> counter_places st"

definition horus_ready_stats :: "chain \<Rightarrow> bool" where
  "horus_ready_stats st \<longleftrightarrow> (ch_name st = INGRESS \<or> ch_name st = EGRESS) \<and> (horus_runtime_enabled st \<longrightarrow>
     (\<exists>a h. slots st ACTION = Some a \<and> slots st (horus_slot (horus_swap st)) = Some h \<and> a \<noteq> h))"

lemma fw_ok_stats: "fw_ok e st \<Longrightarrow> horus_ready_stats st"
proof -
  assume ok: "fw_ok e st"
  have b: "base_ok e st" "horus_ok st" "banks_ok st" using ok by (simp_all add: fw_ok_def)
  have "\<exists>a h. slots st ACTION = Some a \<and> slots st (horus_slot (horus_swap st)) = Some h \<and> a \<noteq> h"
    if h: "horus_runtime_enabled st"
  proof -
    obtain a where a: "slots st ACTION = Some a" using ok h by (auto simp: fw_ok_def)
    have "ACTION \<in> set chain_slots" by (simp add: chain_slots_def module_consts)
    then have "a \<in> bank (1 - chainNumber st)" using b(3) a by (simp add: banks_ok_def)
    then have "a \<noteq> horus_slot (horus_swap st)" using banks(7) by metis
    moreover have "slots st (horus_slot (horus_swap st)) = Some (horus_slot (horus_swap st))"
      using b(2) h unfolding horus_ok_def by simp
    ultimately show ?thesis using a by blast
  qed
  then show ?thesis using b(1) by (simp add: horus_ready_stats_def base_ok_def)
qed

text \<open>Reading the tables returns what is pending for the rule and leaves nothing.\<close>

lemma fetchCounters_ok:
  assumes r: "horus_ready_stats st" and c: "i < counter_places st"
  shows "\<exists>h. fetchCounters i st = (st\<lparr>hits := h\<rparr>, Inr (pending st i)) \<and>
    (\<forall>j. pending (st\<lparr>hits := h\<rparr>) j = (if j = i then (0, 0) else pending st j))"
proof (cases "slots st ACTION")
  case None
  then have nh: "\<not> horus_runtime_enabled st" using r by (auto simp: horus_ready_stats_def)
  have "fetchCounters i st = (st\<lparr>hits := hits st\<rparr>, Inr (pending st i))"
    using None nh by (simp add: fetchCounters_def pending_def)
  moreover have "pending (st\<lparr>hits := hits st\<rparr>) j = (if j = i then (0, 0) else pending st j)" for j
    using None nh by (simp add: pending_def)
  ultimately show ?thesis by blast
next
  case (Some a)
  have ia: "i < COUNTERS_SIZE" using c by (auto simp: counter_places_def COUNTERS_SIZE_def horus_consts split: if_splits)
  obtain p b where pb: "hits st a i = (p, b)" by fastforce
  show ?thesis
  proof (cases "horus_runtime_enabled st")
    case False
    let ?h = "(hits st)(a := (hits st a)(i := (0, 0)))"
    have "fetchCounters i st = (st\<lparr>hits := ?h\<rparr>, Inr (pending st i))"
      using r Some False ia pb
      by (auto simp: fetchCounters_def getCount_def flushCounters_def horus_ready_stats_def pending_def Let_def)
    moreover have "pending (st\<lparr>hits := ?h\<rparr>) j = (if j = i then (0, 0) else pending st j)" for j
      using Some False by (simp add: pending_def)
    ultimately show ?thesis by blast
  next
    case True
    obtain h where h: "slots st (horus_slot (horus_swap st)) = Some h" "a \<noteq> h"
      using r True Some by (auto simp: horus_ready_stats_def)
    have ih: "i < MAX_RULE_SIZE_FOR_HORUS" using c True by (simp add: counter_places_def)
    obtain p' b' where pb': "hits st h i = (p', b')" by fastforce
    let ?h = "(hits st)(a := (hits st a)(i := (0, 0)), h := (hits st h)(i := (0, 0)))"
    have "fetchCounters i st = (st\<lparr>hits := ?h\<rparr>, Inr (pending st i))"
      using r Some True ia ih pb pb' h
      by (auto simp: fetchCounters_def getCount_def flushCounters_def horus_ready_stats_def pending_def Let_def)
    moreover have "pending (st\<lparr>hits := ?h\<rparr>) j = (if j = i then (0, 0) else pending st j)" for j
      using Some True h by (simp add: pending_def)
    ultimately show ?thesis by blast
  qed
qed

lemma getStats_ok:
  assumes r: "horus_ready_stats st" and c: "i < counter_places st" and i: "i < length (ch_rules st)" and ok: "counters_ok st"
  shows "\<exists>h cs n. getStats i st = (st\<lparr>hits := h, ch_counters := cs\<rparr>, Inr n) \<and> counters_ok (st\<lparr>hits := h, ch_counters := cs\<rparr>) \<and>
    amount (Some n) = rule_count st i \<and> length cs = max (length (ch_counters st)) (i + 1) \<and> cs ! i = Some n \<and>
    (\<forall>j < length (ch_counters st). j \<noteq> i \<longrightarrow> cs ! j = ch_counters st ! j) \<and>
    (\<forall>j. pending (st\<lparr>hits := h, ch_counters := cs\<rparr>) j = (if j = i then (0, 0) else pending st j)) \<and>
    (\<forall>j. rule_count (st\<lparr>hits := h, ch_counters := cs\<rparr>) j = rule_count st j)"
proof -
  obtain h where h: "fetchCounters i st = (st\<lparr>hits := h\<rparr>, Inr (pending st i))"
      "\<forall>j. pending (st\<lparr>hits := h\<rparr>) j = (if j = i then (0, 0) else pending st j)"
    using fetchCounters_ok [OF r c] by blast
  obtain p b where pb: "pending st i = (p, b)" by fastforce
  let ?old = "if length (ch_counters st) \<le> i then None else ch_counters st ! i"
  let ?cs = "if length (ch_counters st) \<le> i then resize (i + 1) None (ch_counters st) else ch_counters st"
  define n where "n = (case ?old of None \<Rightarrow> \<lparr>st_id = i, st_pkts = p, st_bytes = b\<rparr>
      | Some c \<Rightarrow> c\<lparr>st_pkts := st_pkts c + p, st_bytes := st_bytes c + b\<rparr>)"
  define cs where "cs = ?cs[i := Some n]"
  have run: "getStats i st = (st\<lparr>hits := h, ch_counters := cs\<rparr>, Inr n)"
    using i by (simp add: getStats_def h(1) pb Let_def cs_def n_def)
  have len: "length cs = max (length (ch_counters st)) (i + 1)" by (auto simp: cs_def resize_def)
  have n: "amount (Some n) = rule_count st i"
    by (cases "i < length (ch_counters st)"; cases "ch_counters st ! i")
      (simp_all add: n_def rule_count_def stored_def pb amount_def)
  have idn: "st_id n = i"
    using ok by (cases "i < length (ch_counters st)"; cases "ch_counters st ! i") (auto simp: n_def counters_ok_def)
  have new: "cs ! i = Some n" by (auto simp: cs_def resize_def)
  have old: "cs ! j = ch_counters st ! j" if "j < length (ch_counters st)" "j \<noteq> i" for j
    using that by (auto simp: cs_def resize_def nth_append)
  have gap: "cs ! j = None" if "length (ch_counters st) \<le> j" "j < i" for j
    using that by (auto simp: cs_def resize_def nth_append)
  have pend: "pending (st\<lparr>hits := h, ch_counters := cs\<rparr>) j = (if j = i then (0, 0) else pending st j)" for j
    using h(2)[rule_format, of j] by simp
  have st: "stored (st\<lparr>hits := h, ch_counters := cs\<rparr>) j = (if j = i then rule_count st i else stored st j)" for j
  proof -
    consider "j = i" | "j \<noteq> i" "j < length (ch_counters st)" | "j \<noteq> i" "length (ch_counters st) \<le> j" by linarith
    then show ?thesis
    proof cases
      case 3
      then show ?thesis using gap [of j] len by (auto simp: stored_def amount_def)
    qed (use new n len old [of j] in \<open>auto simp: stored_def\<close>)
  qed
  have "counters_ok (st\<lparr>hits := h, ch_counters := cs\<rparr>)"
  proof -
    have "pred_option (\<lambda>c. st_id c = k) (cs ! k)" if k: "k < length cs" for k
    proof -
      consider "k = i" | "k \<noteq> i" "k < length (ch_counters st)" | "k < i" "length (ch_counters st) \<le> k" using k len by linarith
      then show ?thesis by cases (use new idn ok old [of k] gap [of k] in \<open>auto simp: counters_ok_def\<close>)
    qed
    then show ?thesis using ok i len by (auto simp: counters_ok_def)
  qed
  moreover have "rule_count (st\<lparr>hits := h, ch_counters := cs\<rparr>) j = rule_count st j" for j
    unfolding rule_count_def [of _ j] pend st by (simp add: rule_count_def)
  ultimately show ?thesis using run n len new old pend by blast
qed

text \<open>Reading the counters of all rules stores everything that was pending.\<close>

definition settled :: "nat \<Rightarrow> chain \<Rightarrow> bool" where
  "settled n st \<longleftrightarrow> (\<forall>i < n. pending st i = (0, 0) \<and> i < length (ch_counters st) \<and> ch_counters st ! i \<noteq> None)"

lemma getStats_each_ok:
  assumes "k \<le> n" "n \<le> length (ch_rules st)" "horus_ready_stats st" "n \<le> counter_places st" "counters_ok st" "settled k st"
  shows "\<exists>h cs ns. getStats_each [k..<n] st = (st\<lparr>hits := h, ch_counters := cs\<rparr>, Inr ns) \<and>
    counters_ok (st\<lparr>hits := h, ch_counters := cs\<rparr>) \<and> settled n (st\<lparr>hits := h, ch_counters := cs\<rparr>) \<and>
    map (\<lambda>c. amount (Some c)) ns = map (rule_count st) [k..<n] \<and>
    (\<forall>j. rule_count (st\<lparr>hits := h, ch_counters := cs\<rparr>) j = rule_count st j)"
  using assms
proof (induction "n - k" arbitrary: k st)
  case 0
  then show ?case by (intro exI [of _ "hits st"] exI [of _ "ch_counters st"] exI [of _ "[]"]) simp
next
  case (Suc m)
  then have k: "k < n" by simp
  obtain h cs c where G: "getStats k st = (st\<lparr>hits := h, ch_counters := cs\<rparr>, Inr c)" "counters_ok (st\<lparr>hits := h, ch_counters := cs\<rparr>)"
      "amount (Some c) = rule_count st k" "length cs = max (length (ch_counters st)) (k + 1)" "cs ! k = Some c"
      "\<forall>j < length (ch_counters st). j \<noteq> k \<longrightarrow> cs ! j = ch_counters st ! j"
      "\<forall>j. pending (st\<lparr>hits := h, ch_counters := cs\<rparr>) j = (if j = k then (0, 0) else pending st j)"
      "\<forall>j. rule_count (st\<lparr>hits := h, ch_counters := cs\<rparr>) j = rule_count st j"
    using getStats_ok [of st k] Suc.prems k by auto
  let ?st = "st\<lparr>hits := h, ch_counters := cs\<rparr>"
  have "settled (Suc k) ?st"
    unfolding settled_def
  proof (intro allI impI)
    fix i assume "i < Suc k"
    then show "pending ?st i = (0, 0) \<and> i < length (ch_counters ?st) \<and> ch_counters ?st ! i \<noteq> None"
      using Suc.prems(6) G(4-6) G(7)[rule_format, of i] by (cases "i = k") (auto simp: settled_def)
  qed
  moreover have "horus_ready_stats ?st" "n \<le> counter_places ?st" using Suc.prems by (simp_all add: horus_ready_stats_def counter_places_def)
  ultimately obtain h' cs' ns where L: "getStats_each [Suc k..<n] ?st = (?st\<lparr>hits := h', ch_counters := cs'\<rparr>, Inr ns)"
      "counters_ok (?st\<lparr>hits := h', ch_counters := cs'\<rparr>)" "settled n (?st\<lparr>hits := h', ch_counters := cs'\<rparr>)"
      "map (\<lambda>c. amount (Some c)) ns = map (rule_count ?st) [Suc k..<n]"
      "\<forall>j. rule_count (?st\<lparr>hits := h', ch_counters := cs'\<rparr>) j = rule_count ?st j"
  proof -
    have m: "m = n - Suc k" "Suc k \<le> n" "n \<le> length (ch_rules ?st)" using Suc.hyps(2) k Suc.prems(2) by simp_all
    show ?thesis using Suc.hyps(1) [OF m] G(2) that \<open>settled (Suc k) ?st\<close> \<open>horus_ready_stats ?st\<close> \<open>n \<le> counter_places ?st\<close> by blast
  qed
  have "getStats_each [k..<n] st = (st\<lparr>hits := h', ch_counters := cs'\<rparr>, Inr (c # ns))"
    using L(1) G(1) by (simp add: upt_conv_Cons [OF k])
  moreover have "map (\<lambda>c. amount (Some c)) (c # ns) = map (rule_count st) [k..<n]"
    using L(4) G(3,8) by (simp add: upt_conv_Cons [OF k])
  ultimately show ?case using L(2,3,5) G(8)
    by (intro exI [of _ h'] exI [of _ cs'] exI [of _ "c # ns"]) simp
qed

lemma getStatsList_ok:
  assumes ok: "fw_ok e st" and c: "countable st" "counters_ok st"
  shows "\<exists>h cs ns. getStatsList st = (st\<lparr>hits := h, ch_counters := cs\<rparr>, Inr ns) \<and> fw_ok e (st\<lparr>hits := h, ch_counters := cs\<rparr>) \<and>
    counters_ok (st\<lparr>hits := h, ch_counters := cs\<rparr>) \<and> settled (length (ch_rules st)) (st\<lparr>hits := h, ch_counters := cs\<rparr>) \<and>
    length cs = length (ch_rules st) \<and> map (\<lambda>c. amount (Some c)) (butlast ns) = map (rule_count st) [0..<length (ch_rules st)] \<and>
    (\<forall>j. rule_count (st\<lparr>hits := h, ch_counters := cs\<rparr>) j = rule_count st j)"
proof -
  let ?n = "length (ch_rules st)"
  obtain h cs ns where G: "getStats_each [0..<?n] st = (st\<lparr>hits := h, ch_counters := cs\<rparr>, Inr ns)"
      "counters_ok (st\<lparr>hits := h, ch_counters := cs\<rparr>)" "settled ?n (st\<lparr>hits := h, ch_counters := cs\<rparr>)"
      "map (\<lambda>c. amount (Some c)) ns = map (rule_count st) [0..<?n]"
      "\<forall>j. rule_count (st\<lparr>hits := h, ch_counters := cs\<rparr>) j = rule_count st j"
    using getStats_each_ok [of 0 ?n st] fw_ok_stats [OF ok] c by (auto simp: settled_def countable_def)
  have rids: "map rid (ch_rules st) = [0..<?n]" using ok by (simp add: fw_ok_def rules_ok_def)
  have "?n \<le> length cs"
  proof (cases ?n)
    case (Suc m)
    then show ?thesis using G(3)[unfolded settled_def, rule_format, of m] by simp
  qed simp
  then have len: "length cs = ?n" using G(2) by (simp add: counters_ok_def)
  have "fw_ok e (st\<lparr>hits := h, ch_counters := cs\<rparr>)"
    using ok by (simp add: fw_ok_def base_ok_def horus_ok_def banks_ok_def cube_live_def)
  then show ?thesis
    using G len by (intro exI [of _ h] exI [of _ cs] exI [of _ "ns @ [getDefaultActionCounters (st\<lparr>hits := h, ch_counters := cs\<rparr>)]"])
      (simp add: getStatsList_def rids)
qed

section \<open>Installing new rules\<close>

definition installed :: "env \<Rightarrow> chain \<Rightarrow> ChainRule list \<Rightarrow> ChainStats option list \<Rightarrow> chain \<Rightarrow> bool" where
  "installed e st rs cs st' \<longleftrightarrow> fw_ok e st' \<and> counters_ok st' \<and> ch_rules st' = rs \<and> ch_counters st' = cs \<and>
     ch_name st' = ch_name st \<and> defaultAction st' = defaultAction st \<and> conntrackMode st' = conntrackMode st \<and>
     horus_enabled st' = horus_enabled st \<and> is_single_op_on_chain st' = is_single_op_on_chain st \<and>
     (if is_single_op_on_chain st then synced e st' \<and> fresh_hits st'
      else horus_runtime_enabled st' = horus_runtime_enabled st)"

lemma fw_ok_flag [simp]: "fw_ok e (st\<lparr>is_single_op_on_chain := b\<rparr>) = fw_ok e st"
  by (simp add: fw_ok_def base_ok_def horus_ok_def banks_ok_def cube_live_def)

lemma fw_ok_rules: "fw_ok e st \<Longrightarrow> rules_ok rs \<Longrightarrow> fw_ok e (st\<lparr>ch_rules := rs, ch_counters := cs\<rparr>)"
  by (simp add: fw_ok_def base_ok_def horus_ok_def banks_ok_def cube_live_def)

lemma install:
  assumes ok: "fw_ok e st" and comp: "\<forall>p. compiles e p" and rs: "rules_ok rs"
    and ld: "is_single_op_on_chain st \<longrightarrow> loadable rs" and cs: "counters_ok (st\<lparr>ch_rules := rs, ch_counters := cs\<rparr>)"
  shows "\<exists>st'. update_if_single e (st\<lparr>ch_rules := rs, ch_counters := cs\<rparr>) = (st', Inr ()) \<and> installed e st rs cs st'"
proof (cases "is_single_op_on_chain st")
  case True
  let ?st = "st\<lparr>ch_rules := rs, ch_counters := cs\<rparr>"
  have "fw_ok e ?st" "loadable (ch_rules ?st)" using fw_ok_rules [OF ok rs] ld True by simp_all
  then obtain st' where "updateChain e ?st = (st', Inr ())" "fw_ok e st'" "synced e st'" "fresh_hits st'" "same_config ?st st'"
    using updateChain_ok [OF _ comp] by blast
  then show ?thesis using True cs
    by (intro exI [of _ st']) (simp add: update_if_single_def installed_def same_config_def counters_ok_def)
next
  case False
  then show ?thesis using cs fw_ok_rules [OF ok rs, of cs]
    by (simp add: update_if_single_def installed_def)
qed

lemma fresh_pending: "fresh_hits st \<Longrightarrow> fw_ok e st \<Longrightarrow> pending st i = (0, 0)"
proof -
  assume f: "fresh_hits st" and ok: "fw_ok e st"
  have "slots st (horus_slot (horus_swap st)) = Some (horus_slot (horus_swap st))" if "horus_runtime_enabled st"
    using ok that unfolding fw_ok_def horus_ok_def by simp
  then show ?thesis using f by (auto simp: pending_def fresh_hits_def horus_fresh_def split: option.splits)
qed

text \<open>After a single operation the count of a rule is what its counter stores.\<close>

lemma installed_count: "installed e st rs cs st' \<Longrightarrow> is_single_op_on_chain st \<Longrightarrow>
    rule_count st' j = (if j < length cs then amount (cs ! j) else (0, 0))"
  using fresh_pending [of st' e j] by (simp add: installed_def rule_count_def stored_def)

lemma settled_count: "settled n st \<Longrightarrow> j < n \<Longrightarrow> amount (ch_counters st ! j) = rule_count st j"
  by (simp add: settled_def rule_count_def stored_def)

text \<open>What every operation starts with: all counts are stored.\<close>

lemma settle:
  assumes "fw_ok e st" "countable st" "counters_ok st"
  obtains st1 ns where "getStatsList st = (st1, Inr ns)" "fw_ok e st1" "counters_ok st1" "ch_rules st1 = ch_rules st"
    "length (ch_counters st1) = length (ch_rules st)" "None \<notin> set (ch_counters st1)"
    "\<And>j. j < length (ch_rules st) \<Longrightarrow> amount (ch_counters st1 ! j) = rule_count st j"
    "\<And>rs cs st'. installed e st1 rs cs st' \<Longrightarrow> installed e st rs cs st'" "is_single_op_on_chain st1 = is_single_op_on_chain st"
proof -
  obtain h cs ns where G: "getStatsList st = (st\<lparr>hits := h, ch_counters := cs\<rparr>, Inr ns)" "fw_ok e (st\<lparr>hits := h, ch_counters := cs\<rparr>)"
      "counters_ok (st\<lparr>hits := h, ch_counters := cs\<rparr>)" "settled (length (ch_rules st)) (st\<lparr>hits := h, ch_counters := cs\<rparr>)"
      "length cs = length (ch_rules st)" "\<forall>j. rule_count (st\<lparr>hits := h, ch_counters := cs\<rparr>) j = rule_count st j"
    using getStatsList_ok [OF assms] by blast
  have "None \<notin> set cs" using G(4,5) by (auto simp: settled_def in_set_conv_nth)
  moreover have "amount (cs ! j) = rule_count st j" if "j < length (ch_rules st)" for j
    using settled_count [OF G(4) that] G(6) by simp
  moreover have "installed e st rs cs' st'" if "installed e (st\<lparr>hits := h, ch_counters := cs\<rparr>) rs cs' st'" for rs cs' st'
    using that by (simp add: installed_def)
  ultimately show thesis using G by (intro that [of "st\<lparr>hits := h, ch_counters := cs\<rparr>" ns]) simp_all
qed

section \<open>Deleting a rule\<close>

lemma del_counter_loop_spec:
  assumes i: "i < length cs"
  shows "length (del_counter_loop i cs) = length cs - 1"
    "k < length cs - 1 \<Longrightarrow> del_counter_loop i cs ! k = (if i \<le> k then map_option (\<lambda>c. c\<lparr>st_id := k\<rparr>) (cs ! (k + 1)) else cs ! k)"
  using shift_down_nth [where m = "length cs - 1" and xs = cs and f = "\<lambda>j. map_option (\<lambda>c. c\<lparr>st_id := j\<rparr>)" and i = i] i
  by (simp_all add: del_counter_loop_def)

lemma amount_id [simp]: "amount (map_option (\<lambda>c. c\<lparr>st_id := k\<rparr>) c) = amount c"
  by (cases c) (simp_all add: amount_def)

lemma length_spec_delete: "i < length rs \<Longrightarrow> length (spec_delete i rs) = length rs - 1"
  by (simp add: spec_delete_def)

lemma delRule_ok:
  assumes ok: "fw_ok e st" "countable st" "counters_ok st" and comp: "\<forall>p. compiles e p" and i: "i < length (ch_rules st)"
    and ld: "is_single_op_on_chain st \<longrightarrow> loadable (spec_delete i (ch_rules st))"
  shows "\<exists>st' cs. delRule e i st = (st', Inr ()) \<and> installed e st (spec_delete i (ch_rules st)) cs st' \<and>
    length cs = length (ch_rules st) - 1 \<and>
    (\<forall>j < length (ch_rules st) - 1. amount (cs ! j) = rule_count st (if j < i then j else j + 1))"
proof -
  obtain st1 ns where S: "getStatsList st = (st1, Inr ns)" "fw_ok e st1" "counters_ok st1" "ch_rules st1 = ch_rules st"
      "length (ch_counters st1) = length (ch_rules st)" "None \<notin> set (ch_counters st1)"
      "\<And>j. j < length (ch_rules st) \<Longrightarrow> amount (ch_counters st1 ! j) = rule_count st j"
      "\<And>rs cs st'. installed e st1 rs cs st' \<Longrightarrow> installed e st rs cs st'" "is_single_op_on_chain st1 = is_single_op_on_chain st"
    using settle [OF ok] by metis
  let ?cs = "del_counter_loop i (ch_counters st1)" and ?rs = "spec_delete i (ch_rules st)"
  have i1: "i < length (ch_counters st1)" using i S(5) by simp
  note D = del_counter_loop_spec [OF i1]
  have rok: "rules_ok (ch_rules st)" using ok(1) by (simp add: fw_ok_def)
  have "pred_option (\<lambda>c. st_id c = k) (?cs ! k)" if "k < length (ch_counters st1) - 1" for k
    using D(2) [OF that] S(3) that by (auto simp: counters_ok_def option.pred_map comp_def pred_option_def)
  then have "counters_ok (st1\<lparr>ch_rules := ?rs, ch_counters := ?cs\<rparr>)"
    using i S(5) by (simp add: counters_ok_def D(1) length_spec_delete)
  then obtain st' where st': "update_if_single e (st1\<lparr>ch_rules := ?rs, ch_counters := ?cs\<rparr>) = (st', Inr ())" "installed e st1 ?rs ?cs st'"
    using install [OF S(2) comp spec_rules_ok(1) [OF rok], of i ?cs] ld S(9) by auto
  have "None \<notin> set (drop (i + 1) (ch_counters st1))" using S(6) in_set_dropD by metis
  then have "delRule e i st = (st', Inr ())"
    using i i1 st'(1) by (auto simp: delRule_def S(1,4) Let_def del_rule_loop_spec [OF rok i])
  moreover have "amount (?cs ! j) = rule_count st (if j < i then j else j + 1)" if "j < length (ch_rules st) - 1" for j
    using D(2) [of j] that S(5,7) by simp
  ultimately show ?thesis using S(8) [OF st'(2)] D(1) S(5) by auto
qed

section \<open>Inserting a rule\<close>

lemma ins_counter_loop_spec:
  assumes n: "length cs = n" "i \<le> n"
  shows "length (ins_counter_loop n i cs) = n + 1"
    "k < n + 1 \<Longrightarrow> ins_counter_loop n i cs ! k =
      (if k < i then cs ! k else if k = i then Some \<lparr>st_id = i, st_pkts = 0, st_bytes = 0\<rparr>
       else map_option (\<lambda>c. c\<lparr>st_id := k\<rparr>) (cs ! (k - 1)))"
  using shift_up_nth [where n = n and xs = "cs @ [None]" and f = "\<lambda>j. map_option (\<lambda>c. c\<lparr>st_id := j\<rparr>)" and i = i] n
  by (auto simp: ins_counter_loop_def nth_append nth_list_update)

lemma insert_rule_ok:
  assumes ok: "fw_ok e st" "countable st" "counters_ok st" and comp: "\<forall>p. compiles e p"
    and id: "i = (case idopt of None \<Rightarrow> 0 | Some i \<Rightarrow> i)" "i \<le> length (ch_rules st)"
    and conf: "cf_action input \<noteq> None" "ChainRule_new (isContrackActive st) input = Inr r"
    and ld: "is_single_op_on_chain st \<longrightarrow> loadable (spec_insert i r (ch_rules st))"
  shows "\<exists>st' cs. insert_rule e idopt input st = (st', Inr i) \<and> installed e st (spec_insert i r (ch_rules st)) cs st' \<and>
    length cs = length (ch_rules st) + 1 \<and>
    (\<forall>j < length (ch_rules st) + 1. amount (cs ! j) =
       (if j < i then rule_count st j else if j = i then (0, 0) else rule_count st (j - 1)))"
proof -
  obtain st1 ns where S: "getStatsList st = (st1, Inr ns)" "fw_ok e st1" "counters_ok st1" "ch_rules st1 = ch_rules st"
      "length (ch_counters st1) = length (ch_rules st)"
      "\<And>j. j < length (ch_rules st) \<Longrightarrow> amount (ch_counters st1 ! j) = rule_count st j"
      "\<And>rs cs st'. installed e st1 rs cs st' \<Longrightarrow> installed e st rs cs st'" "is_single_op_on_chain st1 = is_single_op_on_chain st"
    using settle [OF ok] by metis
  let ?n = "length (ch_rules st)"
  let ?cs = "ins_counter_loop ?n i (ch_counters st1)" and ?rs = "spec_insert i r (ch_rules st)"
  note D = ins_counter_loop_spec [OF S(5) id(2)]
  have rok: "rules_ok (ch_rules st)" using ok(1) by (simp add: fw_ok_def)
  have r: "rule_ok r" using ChainRule_new_ok conf(2) by blast
  have "pred_option (\<lambda>c. st_id c = k) (?cs ! k)" if "k < ?n + 1" for k
    using D(2) [OF that] S(3,5) that id(2) by (auto simp: counters_ok_def option.pred_map comp_def pred_option_def)
  then have "counters_ok (st1\<lparr>ch_rules := ?rs, ch_counters := ?cs\<rparr>)"
    using id(2) S(5) by (simp add: counters_ok_def D(1) spec_insert_def)
  then obtain st' where st': "update_if_single e (st1\<lparr>ch_rules := ?rs, ch_counters := ?cs\<rparr>) = (st', Inr ())" "installed e st1 ?rs ?cs st'"
    using install [OF S(2) comp spec_rules_ok(2) [OF rok r], of i ?cs] ld S(8) by auto
  have "insert_rule e idopt input st = (st', Inr i)"
    unfolding insert_rule_def Let_def id(1) [symmetric]
    using id(2) conf st'(1) by (auto simp: S(1,4) ins_rule_loop_spec [OF rok id(2)])
  moreover have "amount (?cs ! j) = (if j < i then rule_count st j else if j = i then (0, 0) else rule_count st (j - 1))"
    if "j < ?n + 1" for j
    using D(2) [OF that] that S(6) id(2) by (auto simp: amount_def [of "Some _"])
  ultimately show ?thesis using S(7) [OF st'(2)] D(1) by blast
qed

section \<open>Adding, replacing and appending\<close>

lemma addRule_ok:
  assumes ok: "fw_ok e st" "countable st" "counters_ok st" and comp: "\<forall>p. compiles e p"
    and id: "i \<le> length (ch_rules st)" "cf_id conf = i"
    and conf: "cf_action conf \<noteq> None" "ChainRule_new (isContrackActive st) conf = Inr r"
    and ld: "is_single_op_on_chain st \<longrightarrow> loadable (spec_replace i r (ch_rules st))"
  shows "\<exists>st' cs. addRule e i conf st = (st', Inr ()) \<and> installed e st (spec_replace i r (ch_rules st)) cs st' \<and>
    length cs = length (ch_rules st) \<and> (\<forall>j < length (ch_rules st). amount (cs ! j) = rule_count st j)"
proof -
  obtain st1 ns where S: "getStatsList st = (st1, Inr ns)" "fw_ok e st1" "counters_ok st1" "ch_rules st1 = ch_rules st"
      "length (ch_counters st1) = length (ch_rules st)"
      "\<And>j. j < length (ch_rules st) \<Longrightarrow> amount (ch_counters st1 ! j) = rule_count st j"
      "\<And>rs cs st'. installed e st1 rs cs st' \<Longrightarrow> installed e st rs cs st'" "is_single_op_on_chain st1 = is_single_op_on_chain st"
    using settle [OF ok] by metis
  let ?rs = "spec_replace i r (ch_rules st)"
  have rok: "rules_ok (ch_rules st)" using ok(1) by (simp add: fw_ok_def)
  have r: "rule_ok r" "rid r = i" using ChainRule_new_ok [OF conf(2)] id(2) by simp_all
  have "length (ch_rules st) \<le> length ?rs" using id(1) by (simp add: spec_replace_def)
  then have "counters_ok (st1\<lparr>ch_rules := ?rs, ch_counters := ch_counters st1\<rparr>)" using S(3,4) by (simp add: counters_ok_def)
  then obtain st' where st': "update_if_single e (st1\<lparr>ch_rules := ?rs, ch_counters := ch_counters st1\<rparr>) = (st', Inr ())"
      "installed e st1 ?rs (ch_counters st1) st'"
    using install [OF S(2) comp spec_rules_ok(3) [OF rok r(1)], of i "ch_counters st1"] ld S(8) by auto
  have "addRule e i conf st = update_if_single e
      (st1\<lparr>ch_rules := (if length (ch_rules st) \<le> i then ch_rules st @ [r] else ch_rules st)[i := r]\<rparr>)"
    using id conf by (auto simp: addRule_def Let_def S(1,4))
  then have "addRule e i conf st = (st', Inr ())"
    using st'(1) unfolding replace_spec [OF rok id(1) r(2)] by simp
  then show ?thesis using S(5,6) S(7) [OF st'(2)] by blast
qed

lemma append_rule_ok:
  assumes ok: "fw_ok e st" "countable st" "counters_ok st" and comp: "\<forall>p. compiles e p" and i: "i = length (ch_rules st)"
    and conf: "cf_action input \<noteq> None" "ChainRule_new (isContrackActive st) (input\<lparr>cf_id := i\<rparr>) = Inr r"
    and ld: "is_single_op_on_chain st \<longrightarrow> loadable (spec_replace i r (ch_rules st))"
  shows "\<exists>st' cs. append_rule e input st = (st', Inr i) \<and> installed e st (spec_replace i r (ch_rules st)) cs st' \<and>
    length cs = length (ch_rules st) \<and> (\<forall>j < length (ch_rules st). amount (cs ! j) = rule_count st j)"
proof -
  have a: "i \<le> length (ch_rules st)" "cf_id (input\<lparr>cf_id := i\<rparr>) = i" "cf_action (input\<lparr>cf_id := i\<rparr>) \<noteq> None"
    using i conf(1) by simp_all
  obtain st1 cs where A: "addRule e i (input\<lparr>cf_id := i\<rparr>) st = (st1, Inr ())"
      "installed e st (spec_replace i r (ch_rules st)) cs st1"
      "length cs = length (ch_rules st)" "\<forall>j < length (ch_rules st). amount (cs ! j) = rule_count st j"
    using addRule_ok [OF ok comp a conf(2) ld] by blast
  have I: "fw_ok e st1" "ch_rules st1 = spec_replace i r (ch_rules st)" "is_single_op_on_chain st1 = is_single_op_on_chain st"
    using A(2) by (simp_all add: installed_def)
  obtain st2 where U: "update_if_single e st1 = (st2, Inr ())" "installed e st (spec_replace i r (ch_rules st)) cs st2"
  proof (cases "is_single_op_on_chain st")
    case True
    then obtain st2 where "updateChain e st1 = (st2, Inr ())" "fw_ok e st2" "synced e st2" "fresh_hits st2" "same_config st1 st2"
      using updateChain_ok [OF I(1) comp] ld I(2) by auto
    then show thesis using True A(2) I(3)
      by (intro that [of st2]) (auto simp: update_if_single_def installed_def same_config_def counters_ok_def)
  next
    case False
    then show thesis using A(2) I(3) by (intro that [of st1]) (simp_all add: update_if_single_def)
  qed
  have "append_rule e input st = (st2, Inr i)" using conf(1) i A(1) U(1) by (auto simp: append_rule_def Let_def)
  then show ?thesis using U(2) A(3,4) by blast
qed

lemma deletes_loop_find:
  assumes c: "ChainRule_new (isContrackActive st) input = Inr c"
  shows "deletes_loop e input k rs st =
    (case List.find (\<lambda>j. ChainRule_equal (rs ! (j - k)) c) [k..<k + length rs] of
       None \<Rightarrow> (st, Inl (RuntimeError ''no matching rule to delete'')) | Some i \<Rightarrow> delRule e i st)"
proof (induction rs arbitrary: k)
  case (Cons r rs)
  have "List.find (\<lambda>j. ChainRule_equal ((r # rs) ! (j - k)) c) [Suc k..<Suc k + length rs] =
      List.find (\<lambda>j. ChainRule_equal (rs ! (j - Suc k)) c) [Suc k..<Suc k + length rs]"
    by (rule find_cong) (auto simp: nth_Cons' Suc_le_eq)
  then show ?case using Cons [of "Suc k"] c by (simp add: upt_conv_Cons del: upt_Suc)
qed simp

lemma deletes_find:
  assumes "ChainRule_new (isContrackActive st) input = Inr c"
  shows "deletes e input st =
    (case List.find (\<lambda>j. ChainRule_equal (ch_rules st ! j) c) [0..<length (ch_rules st)] of
       None \<Rightarrow> (st, Inl (RuntimeError ''no matching rule to delete'')) | Some i \<Rightarrow> delRule e i st)"
  unfolding deletes_def using deletes_loop_find [OF assms, of e 0 "ch_rules st"] by simp

lemma deletes_bad:
  assumes "ChainRule_new (isContrackActive st) input = Inl err"
  shows "\<exists>err'. deletes e input st = (st, Inl err') \<and> (err' = err \<or> err' = RuntimeError ''no matching rule to delete'')"
  unfolding deletes_def using assms by (cases "ch_rules st") simp_all

section \<open>Batches\<close>

text \<open>
  What one operation of a batch should do to the list of rules; \<open>None\<close> if it must fail. An operation
  that carries an id carries it in the rule too: both come from the same JSON object.
\<close>

definition spec_op :: "batch_op \<Rightarrow> ChainRule list \<Rightarrow> ChainRule list option" where
  "spec_op v rs =
     (case bo_operation v of
        DELETE \<Rightarrow>
          (case bo_id v of
             Some i \<Rightarrow> if i < length rs then Some (spec_delete i rs) else None
           | None \<Rightarrow>
               (case ChainRule_new True (bo_conf v) of
                  Inl _ \<Rightarrow> None
                | Inr c \<Rightarrow> map_option (\<lambda>i. spec_delete i rs) (List.find (\<lambda>j. ChainRule_equal (rs ! j) c) [0..<length rs])))
      | APPEND \<Rightarrow>
          (case ChainRule_new True ((bo_conf v)\<lparr>cf_id := length rs\<rparr>) of
             Inl _ \<Rightarrow> None
           | Inr r \<Rightarrow> if cf_action (bo_conf v) = None then None else Some (spec_replace (length rs) r rs))
      | INSERT \<Rightarrow>
          (case (bo_id v, ChainRule_new True (bo_conf v)) of
             (Some i, Inr r) \<Rightarrow> if i \<le> length rs \<and> cf_action (bo_conf v) \<noteq> None then Some (spec_insert i r rs) else None
           | _ \<Rightarrow> None)
      | UPDATE \<Rightarrow>
          (case (bo_id v, ChainRule_new True (bo_conf v)) of
             (Some i, Inr r) \<Rightarrow> if i \<le> length rs \<and> cf_action (bo_conf v) \<noteq> None then Some (spec_replace i r rs) else None
           | _ \<Rightarrow> None))"

definition op_wf :: "batch_op \<Rightarrow> bool" where
  "op_wf v \<longleftrightarrow> pred_option (\<lambda>i. cf_id (bo_conf v) = i) (bo_id v)"

fun spec_batch :: "nat \<Rightarrow> batch_op list \<Rightarrow> ChainRule list \<Rightarrow> ChainRule list \<times> nat list" where
  "spec_batch i [] rs = (rs, [])"
| "spec_batch i (v # vs) rs =
     (case spec_op v rs of
        Some rs' \<Rightarrow> spec_batch (i + 1) vs rs'
      | None \<Rightarrow> (let (rs', failed) = spec_batch (i + 1) vs rs in (rs', i # failed)))"

lemma find_upt_less: "List.find P [0..<n] = Some i \<Longrightarrow> i < n"
  by (auto simp: find_Some_iff)

text \<open>One operation in a batch: it does what the specification says, or fails and changes nothing.\<close>

definition op_refines :: "env \<Rightarrow> chain \<Rightarrow> batch_op \<Rightarrow> bool" where
  "op_refines e st v \<longleftrightarrow>
     (case spec_op v (ch_rules st) of
        Some rs \<Rightarrow> \<exists>st' cs. batch_operation e v st = Some (st', Inr ()) \<and> installed e st rs cs st'
      | None \<Rightarrow> batch_operation e v st = None \<or> (\<exists>err. batch_operation e v st = Some (st, Inl err) \<and> std_exception err))"

definition op_ready :: "env \<Rightarrow> chain \<Rightarrow> batch_op \<Rightarrow> bool" where
  "op_ready e st v \<longleftrightarrow> fw_ok e st \<and> countable st \<and> counters_ok st \<and> isContrackActive st \<and> op_wf v \<and>
     (is_single_op_on_chain st \<longrightarrow> pred_option loadable (spec_op v (ch_rules st)))"

lemma ChainRule_new_std: "ChainRule_new True conf = Inl err \<Longrightarrow> std_exception err"
  using ChainRule_new_throws [of conf] by (simp add: throws_std_def)

lemma batch_delete:
  assumes b: "op_ready e st v" and comp: "\<forall>p. compiles e p" and op: "bo_operation v = DELETE"
  shows "op_refines e st v"
proof -
  let ?rs = "ch_rules st" and ?new = "ChainRule_new True (bo_conf v)"
  have ct: "isContrackActive st" using b by (simp add: op_ready_def)
  have del: "\<exists>st' cs. delRule e i st = (st', Inr ()) \<and> installed e st (spec_delete i ?rs) cs st'"
    if "i < length ?rs" "spec_op v ?rs = Some (spec_delete i ?rs)" for i
    using delRule_ok [of e st i] b comp that by (auto simp: op_ready_def)
  consider i where "bo_id v = Some i" | err where "bo_id v = None" "?new = Inl err" | c where "bo_id v = None" "?new = Inr c"
    by (metis not_None_eq sum.exhaust)
  then show ?thesis
  proof cases
    case 1
    then show ?thesis using op del by (auto simp: op_refines_def spec_op_def batch_operation_def delRule_def)
  next
    case 2
    then show ?thesis using op ChainRule_new_std [OF 2(2)] deletes_bad [of st "bo_conf v" err e] ct
      by (auto simp: op_refines_def spec_op_def batch_operation_def)
  next
    case 3
    then have "deletes e (bo_conf v) st = (case List.find (\<lambda>j. ChainRule_equal (?rs ! j) c) [0..<length ?rs] of
        None \<Rightarrow> (st, Inl (RuntimeError ''no matching rule to delete'')) | Some i \<Rightarrow> delRule e i st)"
      using ct by (intro deletes_find) simp
    then show ?thesis using op 3 del find_upt_less
      by (cases "List.find (\<lambda>j. ChainRule_equal (?rs ! j) c) [0..<length ?rs]")
        (auto simp: op_refines_def spec_op_def batch_operation_def)
  qed
qed

lemma batch_append:
  assumes b: "op_ready e st v" and comp: "\<forall>p. compiles e p" and op: "bo_operation v = APPEND"
  shows "op_refines e st v"
proof -
  let ?n = "length (ch_rules st)"
  let ?new = "ChainRule_new True ((bo_conf v)\<lparr>cf_id := ?n\<rparr>)"
  have ct: "isContrackActive st" using b by (simp add: op_ready_def)
  consider err where "?new = Inl err" | r where "?new = Inr r" "cf_action (bo_conf v) = None"
    | r where "?new = Inr r" "cf_action (bo_conf v) \<noteq> None" by (metis sum.exhaust)
  then show ?thesis
  proof cases
    case 1
    then show ?thesis using op ct ChainRule_new_std [OF 1]
      by (auto simp: op_refines_def spec_op_def batch_operation_def append_rule_def addRule_def Let_def forget_def)
  next
    case 2
    then show ?thesis using op by (auto simp: op_refines_def spec_op_def batch_operation_def append_rule_def forget_def)
  next
    case 3
    then have "spec_op v (ch_rules st) = Some (spec_replace ?n r (ch_rules st))" using op by (simp add: spec_op_def)
    then obtain st' cs where "append_rule e (bo_conf v) st = (st', Inr ?n)" "installed e st (spec_replace ?n r (ch_rules st)) cs st'"
      using append_rule_ok [of e st ?n "bo_conf v" r] b comp 3 by (auto simp: op_ready_def)
    then show ?thesis using op 3 by (auto simp: op_refines_def spec_op_def batch_operation_def forget_def)
  qed
qed

lemma batch_insert:
  assumes b: "op_ready e st v" and comp: "\<forall>p. compiles e p" and op: "bo_operation v = INSERT"
  shows "op_refines e st v"
proof -
  let ?new = "ChainRule_new True (bo_conf v)"
  have ct: "isContrackActive st" using b by (simp add: op_ready_def)
  consider "bo_id v = None" | i err where "bo_id v = Some i" "?new = Inl err"
    | i r where "bo_id v = Some i" "?new = Inr r" "\<not> (i \<le> length (ch_rules st) \<and> cf_action (bo_conf v) \<noteq> None)"
    | i r where "bo_id v = Some i" "?new = Inr r" "i \<le> length (ch_rules st)" "cf_action (bo_conf v) \<noteq> None"
    by (metis not_None_eq sum.exhaust)
  then show ?thesis
  proof cases
    case 1
    then show ?thesis using op by (simp add: op_refines_def spec_op_def batch_operation_def)
  next
    case 2
    then show ?thesis using op ct ChainRule_new_std [OF 2(2)]
      by (auto simp: op_refines_def spec_op_def batch_operation_def insert_rule_def Let_def forget_def)
  next
    case 3
    then show ?thesis using op ct
      by (auto simp: op_refines_def spec_op_def batch_operation_def insert_rule_def Let_def forget_def)
  next
    case 4
    then have "spec_op v (ch_rules st) = Some (spec_insert i r (ch_rules st))" using op by (simp add: spec_op_def)
    then obtain st' cs where "insert_rule e (Some i) (bo_conf v) st = (st', Inr i)" "installed e st (spec_insert i r (ch_rules st)) cs st'"
      using insert_rule_ok [of e st i "Some i" "bo_conf v" r] b comp 4 by (auto simp: op_ready_def)
    then show ?thesis using op 4 by (auto simp: op_refines_def spec_op_def batch_operation_def forget_def)
  qed
qed

lemma batch_update:
  assumes b: "op_ready e st v" and comp: "\<forall>p. compiles e p" and op: "bo_operation v = UPDATE"
  shows "op_refines e st v"
proof -
  let ?new = "ChainRule_new True (bo_conf v)"
  have ct: "isContrackActive st" using b by (simp add: op_ready_def)
  consider "bo_id v = None" | i err where "bo_id v = Some i" "?new = Inl err"
    | i r where "bo_id v = Some i" "?new = Inr r" "\<not> (i \<le> length (ch_rules st) \<and> cf_action (bo_conf v) \<noteq> None)"
    | i r where "bo_id v = Some i" "?new = Inr r" "i \<le> length (ch_rules st)" "cf_action (bo_conf v) \<noteq> None"
    by (metis not_None_eq sum.exhaust)
  then show ?thesis
  proof cases
    case 1
    then show ?thesis using op by (simp add: op_refines_def spec_op_def batch_operation_def)
  next
    case 2
    then show ?thesis using op ct ChainRule_new_std [OF 2(2)]
      by (auto simp: op_refines_def spec_op_def batch_operation_def addRule_def)
  next
    case 3
    then show ?thesis using op ct by (auto simp: op_refines_def spec_op_def batch_operation_def addRule_def)
  next
    case 4
    then have "spec_op v (ch_rules st) = Some (spec_replace i r (ch_rules st))" using op by (simp add: spec_op_def)
    moreover have "cf_id (bo_conf v) = i" using b 4 by (simp add: op_ready_def op_wf_def)
    ultimately obtain st' cs where "addRule e i (bo_conf v) st = (st', Inr ())" "installed e st (spec_replace i r (ch_rules st)) cs st'"
      using addRule_ok [of e st i "bo_conf v" r] b comp 4 by (auto simp: op_ready_def)
    then show ?thesis using op 4 by (auto simp: op_refines_def spec_op_def batch_operation_def)
  qed
qed

lemma batch_operation_refines:
  "op_ready e st v \<Longrightarrow> \<forall>p. compiles e p \<Longrightarrow> op_refines e st v"
  using batch_delete batch_append batch_insert batch_update by (cases "bo_operation v") blast+

text \<open>An operation adds at most one rule.\<close>

lemma spec_op_length: "spec_op v rs = Some rs' \<Longrightarrow> length rs' \<le> length rs + 1"
  by (auto simp: spec_op_def spec_delete_def spec_insert_def spec_replace_def split: OperationEnum.splits option.splits sum.splits if_splits)

lemma spec_op_rules_ok: "spec_op v rs = Some rs' \<Longrightarrow> rules_ok rs \<Longrightarrow> rules_ok rs'"
  using spec_rules_ok ChainRule_new_ok
  by (auto simp: spec_op_def split: OperationEnum.splits option.splits sum.splits if_splits)

definition in_batch :: "env \<Rightarrow> chain \<Rightarrow> bool" where
  "in_batch e st \<longleftrightarrow> fw_ok e st \<and> countable st \<and> counters_ok st \<and> \<not> is_single_op_on_chain st \<and> isContrackActive st"

lemma batch_loop_refines:
  assumes "in_batch e st" "\<forall>p. compiles e p" "list_all op_wf vs"
    "length (ch_rules st) + length vs \<le> counter_places st"
  shows "\<exists>st' cs. batch_loop e i vs st = (st', Inr (snd (spec_batch i vs (ch_rules st)))) \<and>
    installed e st (fst (spec_batch i vs (ch_rules st))) cs st'"
  using assms
proof (induction vs arbitrary: i st)
  case Nil
  then show ?case by (simp add: installed_def in_batch_def)
next
  case (Cons v vs)
  have ref: "op_refines e st v"
    by (rule batch_operation_refines) (use Cons.prems in \<open>auto simp: op_ready_def in_batch_def\<close>)
  have nb: "\<not> is_single_op_on_chain st" using Cons.prems(1) by (simp add: in_batch_def)
  show ?case
  proof (cases "spec_op v (ch_rules st)")
    case None
    then have "batch_operation e v st = None \<or> (\<exists>err. batch_operation e v st = Some (st, Inl err) \<and> std_exception err)"
      using ref by (simp add: op_refines_def)
    moreover obtain st' cs where "batch_loop e (i + 1) vs st = (st', Inr (snd (spec_batch (i + 1) vs (ch_rules st))))"
        "installed e st (fst (spec_batch (i + 1) vs (ch_rules st))) cs st'"
      using Cons.IH [of st "i + 1"] Cons.prems by auto
    ultimately show ?thesis using None by (auto simp: Let_def split_beta)
  next
    case (Some rs)
    then obtain st1 cs1 where st1: "batch_operation e v st = Some (st1, Inr ())" "installed e st rs cs1 st1"
      using ref by (auto simp: op_refines_def)
    have I: "ch_rules st1 = rs" "\<not> is_single_op_on_chain st1" "horus_runtime_enabled st1 = horus_runtime_enabled st"
      using st1(2) nb by (simp_all add: installed_def)
    have "in_batch e st1"
      using st1(2) Cons.prems(1,4) spec_op_length [OF Some] I
      by (auto simp: in_batch_def installed_def isContrackActive_def countable_def counter_places_def)
    then obtain st' cs where L: "batch_loop e (i + 1) vs st1 = (st', Inr (snd (spec_batch (i + 1) vs rs)))"
        "installed e st1 (fst (spec_batch (i + 1) vs rs)) cs st'"
      using Cons.IH [of st1 "i + 1"] Cons.prems spec_op_length [OF Some] I by (auto simp: counter_places_def)
    have "installed e st (fst (spec_batch (i + 1) vs rs)) cs st'" using L(2) st1(2) nb by (simp add: installed_def)
    then show ?thesis using L(1) st1(1) Some by auto
  qed
qed

definition failed_message :: "batch_op list \<Rightarrow> nat list \<Rightarrow> error" where
  "failed_message ops failed = RuntimeError (''Chain::ChainBatchOutput: you required '' @ dec (length ops) @
     '' operations, but the following nth{1-'' @ dec (length ops) @ ''} ones in the list failed: ['' @
     comma_separated failed @ '']'')"

lemma batch_refines:
  assumes ok: "fw_ok e st" "counters_ok st" and comp: "\<forall>p. compiles e p" and ct: "isContrackActive st"
    and wf: "list_all op_wf ops" and len: "length (ch_rules st) + length ops \<le> counter_places st"
    and ld: "loadable (fst (spec_batch 1 ops (ch_rules st)))"
  shows "\<exists>st'. batch e (Some ops) st =
      (st', if snd (spec_batch 1 ops (ch_rules st)) = [] then Inr () else Inl (failed_message ops (snd (spec_batch 1 ops (ch_rules st))))) \<and>
    fw_ok e st' \<and> synced e st' \<and> counters_ok st' \<and> ch_rules st' = fst (spec_batch 1 ops (ch_rules st)) \<and>
    defaultAction st' = defaultAction st \<and> conntrackMode st' = conntrackMode st \<and> horus_enabled st' = horus_enabled st \<and>
    is_single_op_on_chain st'"
proof -
  let ?rs = "fst (spec_batch 1 ops (ch_rules st))" and ?f = "snd (spec_batch 1 ops (ch_rules st))"
  have c: "countable st" using len by (simp add: countable_def)
  obtain h cs ns where G: "getStatsList st = (st\<lparr>hits := h, ch_counters := cs\<rparr>, Inr ns)" "fw_ok e (st\<lparr>hits := h, ch_counters := cs\<rparr>)"
      "counters_ok (st\<lparr>hits := h, ch_counters := cs\<rparr>)" "length cs = length (ch_rules st)"
    using getStatsList_ok [OF ok(1) c ok(2)] by blast
  define st1 where "st1 = st\<lparr>hits := h, ch_counters := cs, is_single_op_on_chain := False\<rparr>"
  have b: "in_batch e st1"
    using G(2,3) c ct
    by (simp add: in_batch_def st1_def counters_ok_def countable_def counter_places_def isContrackActive_def)
  have l1: "length (ch_rules st1) + length ops \<le> counter_places st1" "ch_rules st1 = ch_rules st"
    using len by (simp_all add: st1_def counter_places_def)
  obtain st2 cs2 where L: "batch_loop e 1 ops st1 = (st2, Inr ?f)" "installed e st1 ?rs cs2 st2"
    using batch_loop_refines [OF b comp wf l1(1), of 1] unfolding l1(2) by blast
  define st3 where "st3 = st2\<lparr>is_single_op_on_chain := True\<rparr>"
  have "fw_ok e st3" "loadable (ch_rules st3)"
    using L(2) ld by (simp_all add: st3_def installed_def)
  then obtain st' where U: "updateChain e st3 = (st', Inr ())" "fw_ok e st'" "synced e st'" "same_config st3 st'"
    using updateChain_ok [OF _ comp] by blast
  have "batch e (Some ops) st = (st', if ?f = [] then Inr () else Inl (failed_message ops ?f))"
    using G(1) L(1) U(1) by (simp add: batch_def failed_message_def flip: st1_def st3_def)
  moreover have "counters_ok st'" using L(2) U(4) by (auto simp: installed_def same_config_def st3_def counters_ok_def)
  moreover have "ch_rules st' = ?rs \<and> defaultAction st' = defaultAction st \<and> conntrackMode st' = conntrackMode st \<and>
      horus_enabled st' = horus_enabled st \<and> is_single_op_on_chain st'"
    using L(2) U(4) by (simp add: installed_def same_config_def st3_def st1_def)
  ultimately show ?thesis using U(2,3) by blast
qed

section \<open>Emptying a chain and its counters\<close>

lemma loadable_Nil: "loadable []"
  by (simp add: loadable_def tries_fit_def ipFromRulesToMap_def trie_size_def)

lemma delRuleList_ok:
  assumes ok: "fw_ok e st" and comp: "\<forall>p. compiles e p"
  shows "\<exists>st'. delRuleList e st = (st', Inr ()) \<and> fw_ok e st' \<and> synced e st' \<and> counters_ok st' \<and>
    ch_rules st' = [] \<and> ch_counters st' = [] \<and> defaultAction st' = defaultAction st"
proof -
  have "fw_ok e (st\<lparr>ch_rules := [], ch_counters := []\<rparr>)" by (rule fw_ok_rules [OF ok]) (simp add: rules_ok_def)
  then obtain st' where "updateChain e (st\<lparr>ch_rules := [], ch_counters := []\<rparr>) = (st', Inr ())" "fw_ok e st'" "synced e st'"
      "same_config (st\<lparr>ch_rules := [], ch_counters := []\<rparr>) st'"
    using updateChain_ok [OF _ comp, of "st\<lparr>ch_rules := [], ch_counters := []\<rparr>"] loadable_Nil by auto
  then show ?thesis by (simp add: delRuleList_def same_config_def counters_ok_def)
qed

lemma flush_each_ok:
  assumes "a \<noteq> h'" "\<forall>i \<in> set is. i < COUNTERS_SIZE \<and> (hopt \<noteq> None \<longrightarrow> i < MAX_RULE_SIZE_FOR_HORUS)" "hopt = None \<or> hopt = Some h'"
  shows "\<exists>h. flush_each a hopt is st = (st\<lparr>hits := h\<rparr>, Inr ()) \<and>
    (\<forall>i. h a i = (if i \<in> set is then (0, 0) else hits st a i)) \<and>
    (\<forall>i. h h' i = (if hopt \<noteq> None \<and> i \<in> set is then (0, 0) else hits st h' i))"
  using assms(2)
proof (induction "is" arbitrary: st)
  case Nil
  then show ?case by (intro exI [of _ "hits st"]) simp
next
  case (Cons i "is")
  define st1 where "st1 = (case hopt of None \<Rightarrow> flushCounters a i st | Some h \<Rightarrow> flushCounters h i (flushCounters a i st))"
  have step: "flush_each a hopt (i # is) st = flush_each a hopt is st1"
    using Cons.prems by (cases hopt) (simp_all add: st1_def)
  obtain h1 where st1: "st1 = st\<lparr>hits := h1\<rparr>" "\<forall>j. h1 a j = (if j = i then (0, 0) else hits st a j)"
      "\<forall>j. h1 h' j = (if hopt \<noteq> None \<and> j = i then (0, 0) else hits st h' j)"
  proof (cases hopt)
    case None
    then show thesis using assms(1)
      by (intro that [of "(hits st)(a := (hits st a)(i := (0, 0)))"]) (auto simp: st1_def flushCounters_def)
  next
    case (Some h)
    then have "h = h'" using assms(3) by simp
    then show thesis using Some assms(1)
      by (intro that [of "(hits st)(a := (hits st a)(i := (0, 0)), h' := (hits st h')(i := (0, 0)))"])
        (auto simp: st1_def flushCounters_def)
  qed
  obtain h where h: "flush_each a hopt is st1 = (st1\<lparr>hits := h\<rparr>, Inr ())"
      "\<forall>j. h a j = (if j \<in> set is then (0, 0) else hits st1 a j)"
      "\<forall>j. h h' j = (if hopt \<noteq> None \<and> j \<in> set is then (0, 0) else hits st1 h' j)"
    using Cons.IH [of st1] Cons.prems by auto
  have "flush_each a hopt (i # is) st = (st\<lparr>hits := h\<rparr>, Inr ())" using step h(1) st1(1) by simp
  moreover have "h a j = (if j \<in> set (i # is) then (0, 0) else hits st a j)" for j
    using h(2)[rule_format, of j] st1(2)[rule_format, of j] by (auto simp: st1(1))
  moreover have "h h' j = (if hopt \<noteq> None \<and> j \<in> set (i # is) then (0, 0) else hits st h' j)" for j
    using h(3)[rule_format, of j] st1(3)[rule_format, of j] by (auto simp: st1(1))
  ultimately show ?case by blast
qed

lemma resetCounters_ok:
  assumes ok: "fw_ok e st" and c: "countable st" and a: "slots st ACTION = Some a"
  shows "\<exists>h. resetCounters st = (st\<lparr>hits := h, ch_counters := []\<rparr>, Some True) \<and>
    (\<forall>i < length (ch_rules st). rule_count (st\<lparr>hits := h, ch_counters := []\<rparr>) i = (0, 0))"
proof -
  let ?n = "length (ch_rules st)" and ?h = "horus_slot (horus_swap st)"
  let ?opt = "if horus_runtime_enabled st then slots st ?h else None"
  have r: "horus_ready_stats st" by (rule fw_ok_stats [OF ok])
  have b: "base_ok e st" "horus_ok st" "banks_ok st" using ok by (simp_all add: fw_ok_def)
  have "ACTION \<in> set chain_slots" by (simp add: chain_slots_def module_consts)
  then have abank: "a \<in> bank (1 - chainNumber st)" using b(3) a by (simp add: banks_ok_def)
  then have ne: "a \<noteq> ?h" "a \<noteq> DEFAULTACTION" "?h \<noteq> DEFAULTACTION" using banks(4,7) by (metis, metis, simp)
  have sl: "slots st ?h = (if horus_runtime_enabled st then Some ?h else None)" using b(2) unfolding horus_ok_def by simp
  have opt: "?opt = None \<or> ?opt = Some ?h" "?opt \<noteq> None \<longleftrightarrow> horus_runtime_enabled st" using sl by simp_all
  have rids: "map rid (ch_rules st) = [0..<?n]" using ok by (simp add: fw_ok_def rules_ok_def)
  have "\<forall>i \<in> set [0..<?n]. i < COUNTERS_SIZE \<and> (?opt \<noteq> None \<longrightarrow> i < MAX_RULE_SIZE_FOR_HORUS)"
    using c opt(2) by (auto simp: countable_def counter_places_def COUNTERS_SIZE_def horus_consts split: if_splits)
  then obtain h where h: "flush_each a ?opt [0..<?n] st = (st\<lparr>hits := h\<rparr>, Inr ())"
      "\<forall>i. h a i = (if i \<in> set [0..<?n] then (0, 0) else hits st a i)"
      "\<forall>i. h ?h i = (if ?opt \<noteq> None \<and> i \<in> set [0..<?n] then (0, 0) else hits st ?h i)"
    using flush_each_ok [OF ne(1) _ opt(1)] by blast
  let ?h' = "h(DEFAULTACTION := (h DEFAULTACTION)(0 := (0, 0)))"
  have "resetCounters st = (st\<lparr>hits := ?h', ch_counters := []\<rparr>, Some True)"
    using h(1) a b(1) by (auto simp: resetCounters_def rids flushCounters_def base_ok_def)
  moreover have "rule_count (st\<lparr>hits := ?h', ch_counters := []\<rparr>) i = (0, 0)" if i: "i < ?n" for i
  proof -
    have "h a i = (0, 0)" using h(2)[rule_format, of i] i by simp
    moreover have "horus_runtime_enabled st \<Longrightarrow> h ?h i = (0, 0)" using h(3)[rule_format, of i] i opt(2) by simp
    ultimately show ?thesis using a sl ne by (simp add: rule_count_def stored_def pending_def)
  qed
  ultimately show ?thesis by blast
qed

section \<open>Where the code falls short\<close>

text \<open>Reading counters leaves the programs and the rules alone, whether it succeeds or throws.\<close>

definition stats_frame :: "chain \<Rightarrow> chain \<Rightarrow> bool" where
  "stats_frame st st' \<longleftrightarrow> (\<exists>h cs. st' = st\<lparr>hits := h, ch_counters := cs\<rparr>)"

lemma stats_frame_refl [simp]: "stats_frame st st"
  unfolding stats_frame_def by (intro exI [of _ "hits st"] exI [of _ "ch_counters st"]) simp

lemma stats_frame_trans: "stats_frame a b \<Longrightarrow> stats_frame b c \<Longrightarrow> stats_frame a c"
proof -
  assume "stats_frame a b" "stats_frame b c"
  then obtain h cs h' cs' where "b = a\<lparr>hits := h, ch_counters := cs\<rparr>" "c = b\<lparr>hits := h', ch_counters := cs'\<rparr>"
    unfolding stats_frame_def by blast
  then have "c = a\<lparr>hits := h', ch_counters := cs'\<rparr>" by simp
  then show ?thesis unfolding stats_frame_def by blast
qed

lemma stats_frame_flush: "stats_frame st st' \<Longrightarrow> stats_frame st (flushCounters a i st')"
proof (erule stats_frame_trans)
  show "stats_frame st' (flushCounters a i st')" unfolding stats_frame_def flushCounters_def
    by (intro exI [of _ "(hits st')(a := (hits st' a)(i := (0, 0)))"] exI [of _ "ch_counters st'"]) simp
qed

lemma stats_frame_counters: "stats_frame st st' \<Longrightarrow> stats_frame st (st'\<lparr>ch_counters := cs\<rparr>)"
proof (erule stats_frame_trans)
  show "stats_frame st' (st'\<lparr>ch_counters := cs\<rparr>)" unfolding stats_frame_def
    by (intro exI [of _ "hits st'"] exI [of _ cs]) simp
qed

lemma stats_frame_sbind:
  "stats_frame st (fst m) \<Longrightarrow> (\<And>x st'. stats_frame st st' \<Longrightarrow> stats_frame st (fst (f x st'))) \<Longrightarrow> stats_frame st (fst (sbind m f))"
  by (cases "(m, f)" rule: sbind.cases) auto

lemma stats_frame_fetch: "stats_frame st (fst (fetchCounters i st))"
  unfolding fetchCounters_def Let_def
  by (auto intro!: stats_frame_sbind stats_frame_flush split: option.split)

lemma stats_frame_getStats: "stats_frame st (fst (getStats i st))"
  unfolding getStats_def Let_def
  by (auto intro!: stats_frame_sbind stats_frame_fetch stats_frame_counters)

lemma stats_frame_each: "stats_frame st (fst (getStats_each is st))"
proof (induction "is" arbitrary: st)
  case (Cons i "is")
  show ?case unfolding getStats_each.simps
    by (intro stats_frame_sbind) (auto intro: stats_frame_getStats stats_frame_trans [OF _ Cons.IH])
qed simp

lemma stats_frame_list: "stats_frame st (fst (getStatsList st))"
  unfolding getStatsList_def by (intro stats_frame_sbind) (auto intro: stats_frame_each)

text \<open>\<open>addRuleList\<close> changes the rules of the chain and never the programs in the kernel.\<close>

lemma addRule_batch_cube:
  assumes "\<not> is_single_op_on_chain st"
  shows "fw_cube (fst (addRule e i conf st)) = fw_cube st \<and> \<not> is_single_op_on_chain (fst (addRule e i conf st))"
proof -
  obtain h cs where f: "fst (getStatsList st) = st\<lparr>hits := h, ch_counters := cs\<rparr>"
    using stats_frame_list [of st] by (auto simp: stats_frame_def)
  show ?thesis
    using assms f by (cases "getStatsList st"; cases "snd (getStatsList st)"; cases "ChainRule_new (isContrackActive st) conf")
      (auto simp: addRule_def Let_def update_if_single_def)
qed

lemma addRule_each_cube:
  "\<not> is_single_op_on_chain st \<Longrightarrow> fw_cube (fst (addRule_each e confs st)) = fw_cube st"
proof (induction confs arbitrary: st)
  case (Cons conf confs)
  show ?case
  proof (cases "addRule e (cf_id conf) conf st")
    case (Pair st1 r)
    then show ?thesis using addRule_batch_cube [OF Cons.prems, of e "cf_id conf" conf] Cons by (cases r) auto
  qed
qed simp

lemma addRuleList_cube: "fw_cube (fst (addRuleList e confs st)) = fw_cube st"
proof -
  have "fw_cube (fst (addRule_each e confs (st\<lparr>is_single_op_on_chain := False\<rparr>))) = fw_cube st"
    using addRule_each_cube [of "st\<lparr>is_single_op_on_chain := False\<rparr>" e confs] by simp
  then show ?thesis unfolding addRuleList_def
    by (cases "addRule_each e confs (st\<lparr>is_single_op_on_chain := False\<rparr>)";
        cases "snd (addRule_each e confs (st\<lparr>is_single_op_on_chain := False\<rparr>))") auto
qed

text \<open>
  An operation with a conntrack match in a batch, with connection tracking off, throws a pointer past
  the handler: the chain keeps believing it is in a batch, and later operations do not reach the kernel.
\<close>

lemma batch_escapes:
  assumes ok: "fw_ok e st" "countable st" "counters_ok st" and off: "\<not> isContrackActive st"
    and v: "bo_operation v = APPEND" "cf_action (bo_conf v) \<noteq> None" "cf_conntrack (bo_conf v) \<noteq> None"
  shows "\<exists>st' msg. batch e (Some (v # vs)) st = (st', Inl (RuntimeErrorPtr msg)) \<and> \<not> is_single_op_on_chain st' \<and>
    ch_rules st' = ch_rules st"
proof -
  obtain h cs ns where G: "getStatsList st = (st\<lparr>hits := h, ch_counters := cs\<rparr>, Inr ns)"
    using getStatsList_ok [OF ok] by blast
  obtain c where c: "cf_conntrack (bo_conf v) = Some c" using v(3) by blast
  let ?st = "st\<lparr>hits := h, ch_counters := cs, is_single_op_on_chain := False\<rparr>"
  have "isContrackActive ?st = False" using off by (simp add: isContrackActive_def)
  then have "batch_operation e v ?st = Some (?st, Inl (RuntimeErrorPtr ''Please enable the connection tracking module.''))"
    using v c by (auto simp: batch_operation_def append_rule_def addRule_def Let_def forget_def ChainRule_new_def ChainRule_update_def when_set_def)
  then show ?thesis by (simp add: batch_def G)
qed

lemma single_op_needed:
  assumes "\<not> is_single_op_on_chain st"
  shows "fw_cube (fst (addRule e i conf st)) = fw_cube st"
  using addRule_batch_cube [OF assms] by blast

text \<open>
  With the mitigator loaded a chain of more rules than the counters of the mitigator have places
  for cannot be read, and so cannot be changed.
\<close>

lemma getStats_each_append:
  "getStats_each (xs @ ys) st = sbind (getStats_each xs st) (\<lambda>a st. sbind (getStats_each ys st) (\<lambda>b st. (st, Inr (a @ b))))"
proof (induction xs arbitrary: st)
  case Nil
  show ?case by (cases "getStats_each ys st"; cases "snd (getStats_each ys st)") auto
next
  case (Cons x xs)
  show ?case
  proof (cases "getStats x st")
    case (Pair st1 r)
    then show ?thesis
    proof (cases r)
      case (Inr c)
      obtain st2 r2 where L2: "getStats_each xs st1 = (st2, r2)" by fastforce
      obtain st3 r3 where L3: "getStats_each ys st2 = (st3, r3)" by fastforce
      show ?thesis using Pair Inr Cons.IH [of st1] L2 L3 by (cases r2; cases r3) auto
    qed simp
  qed
qed

lemma fetchCounters_full:
  assumes r: "horus_ready_stats st" and h: "horus_runtime_enabled st"
  shows "\<exists>st'. fetchCounters MAX_RULE_SIZE_FOR_HORUS st = (st', Inl (RuntimeError ''Counter not available.''))"
proof -
  obtain a s where a: "slots st ACTION = Some a" "slots st (horus_slot (horus_swap st)) = Some s"
    using r h by (auto simp: horus_ready_stats_def)
  have n: "ch_name st = INGRESS \<or> ch_name st = EGRESS" using r by (simp add: horus_ready_stats_def)
  have c: "MAX_RULE_SIZE_FOR_HORUS < COUNTERS_SIZE" by (simp add: horus_consts COUNTERS_SIZE_def)
  obtain p b where "hits st a MAX_RULE_SIZE_FOR_HORUS = (p, b)" by fastforce
  then show ?thesis using a h n c by (auto simp: fetchCounters_def getCount_def flushCounters_def Let_def)
qed

lemma getStatsList_full:
  assumes ok: "fw_ok e st" "counters_ok st" and h: "horus_runtime_enabled st" and n: "MAX_RULE_SIZE_FOR_HORUS < length (ch_rules st)"
  shows "\<exists>st'. getStatsList st = (st', Inl (RuntimeError ''Counter not available.''))"
proof -
  let ?m = MAX_RULE_SIZE_FOR_HORUS and ?n = "length (ch_rules st)"
  have cp: "counter_places st = ?m" using h by (simp add: counter_places_def)
  obtain h1 cs ns where G: "getStats_each [0..<?m] st = (st\<lparr>hits := h1, ch_counters := cs\<rparr>, Inr ns)"
    using getStats_each_ok [of 0 ?m st] fw_ok_stats [OF ok(1)] ok(2) n cp by (auto simp: settled_def)
  let ?st = "st\<lparr>hits := h1, ch_counters := cs\<rparr>"
  have "horus_ready_stats ?st" "horus_runtime_enabled ?st" using fw_ok_stats [OF ok(1)] h by (simp_all add: horus_ready_stats_def)
  then obtain st' where f: "fetchCounters ?m ?st = (st', Inl (RuntimeError ''Counter not available.''))"
    using fetchCounters_full by blast
  have rest: "getStats_each [?m..<?n] ?st = (st', Inl (RuntimeError ''Counter not available.''))"
    using n f by (simp add: upt_conv_Cons getStats_def)
  have "getStats_each [0..<?n] st = (st', Inl (RuntimeError ''Counter not available.''))"
  proof -
    have "[0..<?n] = [0..<?m] @ [?m..<?n]" using n upt_add_eq_append [of 0 ?m "?n - ?m"] by simp
    then show ?thesis using G rest getStats_each_append [of "[0..<?m]" "[?m..<?n]" st] by simp
  qed
  moreover have "map rid (ch_rules st) = [0..<?n]" using ok(1) by (simp add: fw_ok_def rules_ok_def)
  ultimately show ?thesis by (simp add: getStatsList_def)
qed

end
