(* ===== verification/Fw_Service.thy ===== *)
theory Fw_Service
  imports Fw_Ops
begin

text \<open>
  The firewall as a service: sequences of requests. The interface is a locale: a state with an
  invariant, requests, and an abstract configuration (default action and rules) each request maps to the next.
  The interpretation on the operations of the chain discharges it, and the client's lemma says what
  a whole session leaves behind.
\<close>

section \<open>The interface\<close>

locale configured_service =
  fixes inv :: "'s \<Rightarrow> bool"
    and abs :: "'s \<Rightarrow> 'a"
    and serve :: "'r \<Rightarrow> 's \<Rightarrow> 's"
    and spec :: "'r \<Rightarrow> 'a \<Rightarrow> 'a"
    and allowed :: "'r \<Rightarrow> 's \<Rightarrow> bool"
  assumes serve_step: "inv s \<Longrightarrow> allowed r s \<Longrightarrow> inv (serve r s) \<and> abs (serve r s) = spec r (abs s)"
begin

primrec session :: "'r list \<Rightarrow> 's \<Rightarrow> 's" where
  "session [] s = s"
| "session (r # rs) s = session rs (serve r s)"

primrec session_allowed :: "'r list \<Rightarrow> 's \<Rightarrow> bool" where
  "session_allowed [] s = True"
| "session_allowed (r # rs) s = (allowed r s \<and> session_allowed rs (serve r s))"

lemma session_refines:
  "inv s \<Longrightarrow> session_allowed rs s \<Longrightarrow> inv (session rs s) \<and> abs (session rs s) = fold spec rs (abs s)"
  by (induction rs arbitrary: s) (auto dest: serve_step)

lemma session_append: "session (rs @ rs') s = session rs' (session rs s)"
  by (induction rs arbitrary: s) auto

end

section \<open>Requests to a chain\<close>

text \<open>
  \<open>RuleOp\<close> is one call of \<open>append\<close>, \<open>insert\<close>, \<open>addRule\<close>, \<open>delRule\<close> or \<open>deletes\<close>; the caller of the
  service sees its exception, which this function drops.
\<close>

datatype request = RuleOp batch_op | DeleteAll | Batch "batch_op list" | SetDefault ActionEnum

fun serve :: "env \<Rightarrow> request \<Rightarrow> chain \<Rightarrow> chain" where
  "serve e (RuleOp v) st = (case batch_operation e v st of None \<Rightarrow> st | Some (st', _) \<Rightarrow> st')"
| "serve e DeleteAll st = fst (delRuleList e st)"
| "serve e (Batch ops) st = fst (batch e (Some ops) st)"
| "serve e (SetDefault act) st = setDefault e act st"

type_synonym config = "ActionEnum \<times> ChainRule list"

fun spec_request :: "request \<Rightarrow> config \<Rightarrow> config" where
  "spec_request (RuleOp v) (act, rs) = (act, case spec_op v rs of None \<Rightarrow> rs | Some rs' \<Rightarrow> rs')"
| "spec_request DeleteAll (act, rs) = (act, [])"
| "spec_request (Batch ops) (act, rs) = (act, fst (spec_batch 1 ops rs))"
| "spec_request (SetDefault act) (_, rs) = (act, rs)"

definition config_of :: "chain \<Rightarrow> config" where
  "config_of st = (defaultAction st, ch_rules st)"

text \<open>
  The state between requests, and the requests that stay within the sizes of the tables and use no
  \<open>LOG\<close> action.
\<close>

definition serving :: "env \<Rightarrow> chain \<Rightarrow> bool" where
  "serving e st \<longleftrightarrow> fw_ok e st \<and> synced e st \<and> counters_ok st \<and> is_single_op_on_chain st \<and> isContrackActive st"

fun request_allowed :: "request \<Rightarrow> chain \<Rightarrow> bool" where
  "request_allowed (RuleOp v) st \<longleftrightarrow> countable st \<and> op_wf v \<and> pred_option loadable (spec_op v (ch_rules st))"
| "request_allowed DeleteAll st \<longleftrightarrow> True"
| "request_allowed (Batch ops) st \<longleftrightarrow> list_all op_wf ops \<and> length (ch_rules st) + length ops \<le> counter_places st \<and>
     loadable (fst (spec_batch 1 ops (ch_rules st)))"
| "request_allowed (SetDefault act) st \<longleftrightarrow> True"

lemma serve_op:
  assumes s: "serving e st" and comp: "\<forall>p. compiles e p" and al: "request_allowed (RuleOp v) st"
  shows "serving e (serve e (RuleOp v) st) \<and> config_of (serve e (RuleOp v) st) = spec_request (RuleOp v) (config_of st)"
proof -
  have "op_refines e st v" by (rule batch_operation_refines) (use s al comp in \<open>auto simp: op_ready_def serving_def\<close>)
  then show ?thesis
    using s by (cases "spec_op v (ch_rules st)")
      (auto simp: op_refines_def serving_def config_of_def installed_def isContrackActive_def)
qed

lemma setDefault_frame:
  "counters_ok (setDefault e act st) = counters_ok st" "is_single_op_on_chain (setDefault e act st) = is_single_op_on_chain st"
  "isContrackActive (setDefault e act st) = isContrackActive st"
  by (simp_all add: setDefault_def Let_def Program_reload_def counters_ok_def isContrackActive_def)

lemma serve_request:
  assumes s: "serving e st" and comp: "\<forall>p. compiles e p" and al: "request_allowed r st"
  shows "serving e (serve e r st) \<and> config_of (serve e r st) = spec_request r (config_of st)"
proof (cases r)
  case (RuleOp v)
  then show ?thesis using serve_op [OF s comp] al by simp
next
  case DeleteAll
  have "fw_ok e (st\<lparr>ch_rules := [], ch_counters := []\<rparr>)" "loadable (ch_rules (st\<lparr>ch_rules := [], ch_counters := []\<rparr>))"
    using s loadable_Nil by (auto simp: serving_def rules_ok_def intro!: fw_ok_rules)
  from updateChain_ok [OF this(1) comp this(2)] show ?thesis using DeleteAll s
    by (auto simp: delRuleList_def same_config_def serving_def config_of_def counters_ok_def isContrackActive_def)
next
  case (Batch ops)
  then show ?thesis using batch_refines [of e st ops] s comp al
    by (auto simp: serving_def config_of_def isContrackActive_def)
next
  case (SetDefault act)
  then show ?thesis using setDefault_ok [of e st act] s comp
    by (simp add: serving_def config_of_def setDefault_frame)
qed

interpretation fw: configured_service "\<lambda>st. serving e st \<and> (\<forall>p. compiles e p)" config_of "serve e" spec_request request_allowed for e
  by unfold_locales (use serve_request in blast)

text \<open>A packet after a whole session of requests.\<close>

lemma session_verdict:
  assumes s: "serving e st" "\<forall>p. compiles e p" "fw.session_allowed e rs st"
    and cfg: "fold spec_request rs (config_of st) = (act, rules)"
    and len: "length rules < maxRules" and wf: "chain_wf lpm rules pkt" and sv: "shared_vector sh"
  shows "config_of (fw.session e rs st) = (act, rules) \<and>
    packet_verdict lpm (fw.session e rs st) pkt sh = chain_decision e (fw.session e rs st) pkt \<and>
    (mitigator_exact (fw.session e rs st) pkt \<and> \<not> automatic (fw.session e rs st) pkt \<longrightarrow>
      packet_verdict lpm (fw.session e rs st) pkt sh = first_match act (rule_matches pkt) rules)"
proof -
  let ?st = "fw.session e rs st"
  have inv: "serving e ?st" "config_of ?st = (act, rules)"
    using fw.session_refines [of e st rs] s cfg by auto
  then have c: "defaultAction ?st = act" "ch_rules ?st = rules" by (simp_all add: config_of_def)
  have ready: "fw_ok e ?st" "synced e ?st" "getConntrack_ON ?st"
    using inv(1) by (auto simp: serving_def isContrackActive_def getConntrack_ON_def)
  show ?thesis
    using synced_decides [OF ready(1,2) _ _ ready(3) sv, of lpm pkt]
      synced_verdict [OF ready(1,2) _ _ ready(3) sv, of lpm pkt] c len wf inv(2) by simp
qed

text \<open>A new firewall serves once its chain has been loaded for the first time.\<close>

lemma new_serving:
  assumes room: "panel_room e p" and comp: "\<forall>p. compiles e p" and name: "name = INGRESS \<or> name = EGRESS"
  shows "serving e (serve e DeleteAll (Firewall_new e name p)) \<and> config_of (serve e DeleteAll (Firewall_new e name p)) = (ACCEPT, []) \<and>
    conntrackMode (serve e DeleteAll (Firewall_new e name p)) = 2 \<and> horus_enabled (serve e DeleteAll (Firewall_new e name p))"
proof -
  let ?st = "Firewall_new e name p"
  have N: "fw_ok e ?st" "conntrackMode ?st = 2" "defaultAction ?st = ACCEPT" "is_single_op_on_chain ?st" "horus_enabled ?st"
    using Firewall_new_ok [OF assms] by simp_all
  have "fw_ok e (?st\<lparr>ch_rules := [], ch_counters := []\<rparr>)" "loadable (ch_rules (?st\<lparr>ch_rules := [], ch_counters := []\<rparr>))"
    using N(1) loadable_Nil by (auto simp: rules_ok_def intro!: fw_ok_rules)
  from updateChain_ok [OF this(1) comp this(2)] show ?thesis using N
    by (auto simp: delRuleList_def same_config_def serving_def config_of_def counters_ok_def isContrackActive_def)
qed

end
