(* ===== verification/Fw_Packet.thy ===== *)
theory Fw_Packet
  imports Fw_Datapath
begin

text \<open>
  Frames as bytes: what \<open>Firewall_Parser_dp.c\<close> reads of a frame into the per-CPU entry \<open>packet\<close>. The
  host is little-endian: a field is loaded with its first byte lowest, so a number in network
  order keeps its bytes in memory order.
\<close>

section \<open>Loads and stores\<close>

type_synonym frame = "8 word list"

definition u16_at :: "frame \<Rightarrow> nat \<Rightarrow> 16 word" where
  "u16_at f i = ucast (f ! i) OR push_bit 8 (ucast (f ! (i + 1)))"

definition u32_at :: "frame \<Rightarrow> nat \<Rightarrow> 32 word" where
  "u32_at f i = octets_to_nbo (f ! i) (f ! (i + 1)) (f ! (i + 2)) (f ! (i + 3))"

definition u16_bytes :: "16 word \<Rightarrow> frame" where
  "u16_bytes w = [ucast w, ucast (drop_bit 8 w)]"

definition u32_bytes :: "32 word \<Rightarrow> frame" where
  "u32_bytes w = [octet w 0, octet w 1, octet w 2, octet w 3]"

definition store_u16 :: "frame \<Rightarrow> nat \<Rightarrow> 16 word \<Rightarrow> frame" where
  "store_u16 f i w = f[i := ucast w, i + 1 := ucast (drop_bit 8 w)]"

section \<open>The parser\<close>

text \<open>
  Offsets in a frame: \<open>struct eth_hdr\<close> has 14 bytes, \<open>struct iphdr\<close> 20, \<open>struct tcp_hdr\<close> 20 and
  \<open>struct udphdr\<close> 8. The transport header is read at offset 34 whatever the header length field says.
\<close>

definition ETH_P_IP :: "16 word" where "ETH_P_IP = 0x0800"
definition ip_protocol :: "frame \<Rightarrow> 8 word" where "ip_protocol f = f ! 23"

text \<open>
  The outcomes of the parser up to the reset of the shared vector: \<open>return RX_DROP\<close> on a truncated frame,
  with what has been written so far, \<open>return RX_OK\<close> on a frame that is not IP, or the entry filled.
  Fields that the protocol of the packet does not have keep their old contents.
\<close>

datatype parsed = Truncated packetHeaders | NotIp | Headers packetHeaders

definition parse_ip :: "frame \<Rightarrow> packetHeaders \<Rightarrow> packetHeaders" where
  "parse_ip f pkt = pkt\<lparr>pk_srcIp := u32_at f 26, pk_dstIp := u32_at f 30, pk_l4proto := ip_protocol f,
     pk_forwardingDecision := 0\<rparr>"

definition parse_tcp :: "frame \<Rightarrow> packetHeaders \<Rightarrow> packetHeaders" where
  "parse_tcp f pkt = pkt\<lparr>pk_srcPort := u16_at f 34, pk_dstPort := u16_at f 36, pk_seqN := u32_at f 38,
     pk_ackN := u32_at f 42, pk_flags := f ! 47\<rparr>"

definition parse_udp :: "frame \<Rightarrow> packetHeaders \<Rightarrow> packetHeaders" where
  "parse_udp f pkt = pkt\<lparr>pk_srcPort := u16_at f 34, pk_dstPort := u16_at f 36\<rparr>"

definition Parser_headers :: "frame \<Rightarrow> packetHeaders \<Rightarrow> parsed" where
  "Parser_headers f pkt0 =
     (if length f < 14 then Truncated pkt0
      else if u16_at f 12 \<noteq> ntohs ETH_P_IP then NotIp
      else if length f < 34 then Truncated pkt0
      else let pkt = parse_ip f pkt0 in
        if ip_protocol f = TCP8
        then (if length f < 54 then Truncated pkt else Headers (parse_tcp f pkt))
        else if ip_protocol f = UDP8
        then (if length f < 42 then Truncated pkt else Headers (parse_udp f pkt))
        else Headers pkt)"

section \<open>Frames with given headers\<close>

lemma u16_bytes_load [simp]: "u16_at (u16_bytes w @ f) 0 = w"
proof -
  have "bit (ucast (ucast w :: 8 word) OR push_bit 8 (ucast (ucast (drop_bit 8 w) :: 8 word)) :: 16 word) n = bit w n" if "n < 16" for n
    using that by (auto simp: bit_or_iff bit_push_bit_iff bit_ucast_iff bit_drop_bit_eq)
  then show ?thesis by (simp add: u16_at_def u16_bytes_def) (rule bit_word_eqI, simp)
qed

lemma u32_bytes_load [simp]: "u32_at (u32_bytes w @ f) 0 = w"
  using octets_roundtrip [of w] by (simp add: u32_at_def u32_bytes_def)

lemma at_drop: "i \<le> length f \<Longrightarrow> u16_at f i = u16_at (drop i f) 0" "i \<le> length f \<Longrightarrow> u32_at f i = u32_at (drop i f) 0"
  by (simp_all add: u16_at_def u32_at_def)

text \<open>
  A frame that carries the given headers: \<open>eth\<close> the two hardware addresses, \<open>ip1\<close> and \<open>ip2\<close> the bytes of
  the IP header before and after the protocol, \<open>rest\<close> whatever follows the fields that are read.
\<close>

definition ip_frame :: "frame \<Rightarrow> frame \<Rightarrow> frame \<Rightarrow> packetHeaders \<Rightarrow> frame \<Rightarrow> frame" where
  "ip_frame eth ip1 ip2 pkt l4 =
     eth @ u16_bytes (ntohs ETH_P_IP) @ ip1 @ [pk_l4proto pkt] @ ip2 @ u32_bytes (pk_srcIp pkt) @ u32_bytes (pk_dstIp pkt) @ l4"

definition tcp_header :: "packetHeaders \<Rightarrow> 8 word \<Rightarrow> frame \<Rightarrow> frame" where
  "tcp_header pkt doff rest = u16_bytes (pk_srcPort pkt) @ u16_bytes (pk_dstPort pkt) @ u32_bytes (pk_seqN pkt) @ u32_bytes (pk_ackN pkt) @
     [doff, pk_flags pkt] @ rest"

definition udp_header :: "packetHeaders \<Rightarrow> frame \<Rightarrow> frame" where
  "udp_header pkt rest = u16_bytes (pk_srcPort pkt) @ u16_bytes (pk_dstPort pkt) @ rest"

lemma length_bytes [simp]: "length (u16_bytes w) = 2" "length (u32_bytes v) = 4"
  by (simp_all add: u16_bytes_def u32_bytes_def)

lemma ip_frame_fields:
  assumes "length eth = 12" "length ip1 = 9" "length ip2 = 2"
  shows "length (ip_frame eth ip1 ip2 pkt l4) = 34 + length l4"
    and "u16_at (ip_frame eth ip1 ip2 pkt l4) 12 = ntohs ETH_P_IP"
    and "ip_protocol (ip_frame eth ip1 ip2 pkt l4) = pk_l4proto pkt"
    and "u32_at (ip_frame eth ip1 ip2 pkt l4) 26 = pk_srcIp pkt" "u32_at (ip_frame eth ip1 ip2 pkt l4) 30 = pk_dstIp pkt"
    and "drop 34 (ip_frame eth ip1 ip2 pkt l4) = l4"
proof -
  show "length (ip_frame eth ip1 ip2 pkt l4) = 34 + length l4" using assms by (simp add: ip_frame_def)
  show "u16_at (ip_frame eth ip1 ip2 pkt l4) 12 = ntohs ETH_P_IP" using assms by (simp add: at_drop ip_frame_def)
  show "ip_protocol (ip_frame eth ip1 ip2 pkt l4) = pk_l4proto pkt"
    using assms by (simp add: ip_protocol_def ip_frame_def nth_append)
  show "u32_at (ip_frame eth ip1 ip2 pkt l4) 26 = pk_srcIp pkt" using assms by (simp add: at_drop ip_frame_def)
  show "u32_at (ip_frame eth ip1 ip2 pkt l4) 30 = pk_dstIp pkt" using assms by (simp add: at_drop ip_frame_def)
  show "drop 34 (ip_frame eth ip1 ip2 pkt l4) = l4" using assms by (simp add: ip_frame_def)
qed

lemma parse_tcp_frame:
  assumes l: "length eth = 12" "length ip1 = 9" "length ip2 = 2" "6 \<le> length rest" and p: "pk_l4proto pkt = TCP8"
  shows "Parser_headers (ip_frame eth ip1 ip2 pkt (tcp_header pkt doff rest)) pkt0 =
    Headers (pkt\<lparr>pk_connStatus := pk_connStatus pkt0, pk_forwardingDecision := 0\<rparr>)"
proof -
  let ?f = "ip_frame eth ip1 ip2 pkt (tcp_header pkt doff rest)"
  note F = ip_frame_fields [OF l(1-3), of pkt "tcp_header pkt doff rest"]
  have len: "length ?f = 48 + length rest" unfolding F(1) by (simp add: tcp_header_def)
  have d: "drop (34 + k) ?f = drop k (tcp_header pkt doff rest)" for k
    using F(6) by (simp add: drop_drop [symmetric] add.commute del: drop_drop)
  have at: "u16_at ?f 34 = pk_srcPort pkt" "u16_at ?f 36 = pk_dstPort pkt" "u32_at ?f 38 = pk_seqN pkt" "u32_at ?f 42 = pk_ackN pkt"
    using d [of 0] d [of 2] d [of 4] d [of 8] len by (simp_all add: at_drop tcp_header_def)
  have "?f ! 47 = drop 34 ?f ! 13" using len by simp
  then have fl: "?f ! 47 = pk_flags pkt" unfolding F(6) by (simp add: tcp_header_def nth_append)
  show ?thesis
    unfolding Parser_headers_def F(2,3) Let_def parse_ip_def parse_tcp_def F(4,5) at fl p len
    using l(4) by (simp add: p [symmetric])
qed

lemma parse_udp_frame:
  assumes l: "length eth = 12" "length ip1 = 9" "length ip2 = 2" "4 \<le> length rest" and p: "pk_l4proto pkt = UDP8"
  shows "Parser_headers (ip_frame eth ip1 ip2 pkt (udp_header pkt rest)) pkt0 =
    Headers (pkt\<lparr>pk_flags := pk_flags pkt0, pk_seqN := pk_seqN pkt0, pk_ackN := pk_ackN pkt0,
      pk_connStatus := pk_connStatus pkt0, pk_forwardingDecision := 0\<rparr>)"
proof -
  let ?f = "ip_frame eth ip1 ip2 pkt (udp_header pkt rest)"
  note F = ip_frame_fields [OF l(1-3), of pkt "udp_header pkt rest"]
  have len: "length ?f = 38 + length rest" unfolding F(1) by (simp add: udp_header_def)
  have d: "drop (34 + k) ?f = drop k (udp_header pkt rest)" for k
    using F(6) by (simp add: drop_drop [symmetric] add.commute del: drop_drop)
  have at: "u16_at ?f 34 = pk_srcPort pkt" "u16_at ?f 36 = pk_dstPort pkt"
    using d [of 0] d [of 2] len by (simp_all add: at_drop udp_header_def)
  show ?thesis
    unfolding Parser_headers_def F(2,3) Let_def parse_ip_def parse_udp_def F(4,5) at p len
    using l(4) p by (cases pkt) (simp add: TCP8_def UDP8_def)
qed

lemma parse_other_frame:
  assumes l: "length eth = 12" "length ip1 = 9" "length ip2 = 2" and p: "pk_l4proto pkt \<noteq> TCP8" "pk_l4proto pkt \<noteq> UDP8"
  shows "Parser_headers (ip_frame eth ip1 ip2 pkt l4) pkt0 =
    Headers (pkt0\<lparr>pk_srcIp := pk_srcIp pkt, pk_dstIp := pk_dstIp pkt, pk_l4proto := pk_l4proto pkt, pk_forwardingDecision := 0\<rparr>)"
  using p unfolding Parser_headers_def ip_frame_fields [OF l] Let_def parse_ip_def by simp

text \<open>
  The parser looks at few bytes: neither the header length nor the fragment offset of the IP header is
  among them.
\<close>

definition parsed_bytes :: "nat set" where
  "parsed_bytes = {12, 13, 23} \<union> {26..33} \<union> {34..45} \<union> {47}"

lemma parse_only:
  assumes "length f = length g" "\<forall>i \<in> parsed_bytes. i < length f \<longrightarrow> f ! i = g ! i"
  shows "Parser_headers f pkt = Parser_headers g pkt"
proof -
  have e: "f ! i = g ! i" if "i \<in> parsed_bytes" "i < length f" for i using assms(2) that by blast
  have 1: "14 \<le> length f \<Longrightarrow> u16_at f 12 = u16_at g 12" by (simp add: u16_at_def e parsed_bytes_def)
  have 2: "34 \<le> length f \<Longrightarrow> ip_protocol f = ip_protocol g \<and> u32_at f 26 = u32_at g 26 \<and> u32_at f 30 = u32_at g 30"
    by (simp add: ip_protocol_def u32_at_def e parsed_bytes_def)
  have 3: "42 \<le> length f \<Longrightarrow> u16_at f 34 = u16_at g 34 \<and> u16_at f 36 = u16_at g 36"
    by (simp add: u16_at_def e parsed_bytes_def)
  have 4: "54 \<le> length f \<Longrightarrow> u32_at f 38 = u32_at g 38 \<and> u32_at f 42 = u32_at g 42 \<and> f ! 47 = g ! 47"
    by (simp add: u32_at_def e parsed_bytes_def)
  show ?thesis
    using assms(1) 1 2 3 4
    by (auto simp: Parser_headers_def Let_def parse_ip_def parse_tcp_def parse_udp_def not_less)
qed

end
