(* ===== verification/Fw_Conntrack.thy ===== *)
theory Fw_Conntrack
  imports Fw_Packet
begin

text \<open>
  Connection tracking: the table \<open>connections\<close>, the label a packet gets
  (\<open>Firewall_ConntrackLabel_dp.c\<close>) and what an accepted packet does to the table
  (\<open>Firewall_ConntrackTableUpdate_dp.c\<close>). Both programs look a packet up under a key that is the same
  for the two directions of a connection, with two flags that say which endpoint comes first.
\<close>

section \<open>The table\<close>

datatype ct_state = CT_NEW | CT_ESTABLISHED | CT_RELATED | CT_INVALID | SYN_SENT | SYN_RECV |
  FIN_WAIT_1 | FIN_WAIT_2 | LAST_ACK | TIME_WAIT

fun ct_code :: "ct_state \<Rightarrow> 8 word" where
  "ct_code CT_NEW = 0"
| "ct_code CT_ESTABLISHED = 1"
| "ct_code CT_RELATED = 2"
| "ct_code CT_INVALID = 3"
| "ct_code SYN_SENT = 4"
| "ct_code SYN_RECV = 5"
| "ct_code FIN_WAIT_1 = 6"
| "ct_code FIN_WAIT_2 = 7"
| "ct_code LAST_ACK = 8"
| "ct_code TIME_WAIT = 9"

record ct_k =
  k_srcIp :: "32 word"
  k_dstIp :: "32 word"
  k_l4proto :: "8 word"
  k_srcPort :: "16 word"
  k_dstPort :: "16 word"

text \<open>\<open>ipRev\<close> and \<open>portRev\<close> are bytes that hold 0 or 1.\<close>

record ct_v =
  ttl :: "64 word"
  cstate :: ct_state
  ipRev :: bool
  portRev :: bool
  sequence :: "32 word"

type_synonym connections = "ct_k \<rightharpoonup> ct_v"

definition ICMP8 :: "8 word" where "ICMP8 = 1"

text \<open>The addresses and the ports, each pair in increasing order of the raw values.\<close>

definition ip_pair :: "32 word \<Rightarrow> 32 word \<Rightarrow> 32 word \<times> 32 word \<times> bool" where
  "ip_pair src dst = (if src \<le> dst then (src, dst, False) else (dst, src, True))"

definition key_of :: "32 word \<Rightarrow> 32 word \<Rightarrow> 8 word \<Rightarrow> 16 word \<Rightarrow> 16 word \<Rightarrow> ct_k \<times> bool \<times> bool" where
  "key_of src dst proto sport dport =
     (let (a, b, ir) = ip_pair src dst;
          (p, q, pr) =
            (if sport < dport then (sport, dport, False)
             else if sport > dport then (dport, sport, True)
             else (sport, dport, ir))
      in (\<lparr>k_srcIp = a, k_dstIp = b, k_l4proto = proto, k_srcPort = p, k_dstPort = q\<rparr>, ir, pr))"

definition ct_key :: "packetHeaders \<Rightarrow> ct_k \<times> bool \<times> bool" where
  "ct_key pkt = key_of (pk_srcIp pkt) (pk_dstIp pkt) (pk_l4proto pkt) (pk_srcPort pkt) (pk_dstPort pkt)"

lemmas ct_key_simps = ct_key_def key_of_def ip_pair_def

datatype ct_dir = Forward | Reverse | Miss

definition ct_direction :: "ct_v \<Rightarrow> bool \<Rightarrow> bool \<Rightarrow> ct_dir" where
  "ct_direction v ir pr =
     (if ipRev v = ir \<and> portRev v = pr then Forward
      else if ipRev v \<noteq> ir \<and> portRev v \<noteq> pr then Reverse else Miss)"

section \<open>TCP flags\<close>

definition FIN8 :: "8 word" where "FIN8 = 0x01"
definition SYN8 :: "8 word" where "SYN8 = 0x02"
definition RST8 :: "8 word" where "RST8 = 0x04"
definition ACK8 :: "8 word" where "ACK8 = 0x10"

lemmas tcp_flag_defs = FIN8_def SYN8_def RST8_def ACK8_def

definition syn_only :: "8 word \<Rightarrow> bool" where
  "syn_only flags \<longleftrightarrow> flags AND SYN8 \<noteq> 0 \<and> flags OR SYN8 = SYN8"

definition ack_only :: "8 word \<Rightarrow> bool" where
  "ack_only flags \<longleftrightarrow> flags AND ACK8 \<noteq> 0 \<and> flags OR ACK8 = ACK8"

definition syn_ack_only :: "8 word \<Rightarrow> bool" where
  "syn_ack_only flags \<longleftrightarrow> flags AND ACK8 \<noteq> 0 \<and> flags AND SYN8 \<noteq> 0 \<and> flags OR (SYN8 OR ACK8) = (SYN8 OR ACK8)"

section \<open>The label of a packet\<close>

fun tcp_open :: "ct_state \<Rightarrow> bool" where
  "tcp_open CT_ESTABLISHED = True"
| "tcp_open FIN_WAIT_1 = True"
| "tcp_open FIN_WAIT_2 = True"
| "tcp_open LAST_ACK = True"
| "tcp_open _ = False"

text \<open>\<open>TCP_FORWARD\<close>, \<open>TCP_REVERSE\<close> and \<open>TCP_MISS\<close>.\<close>

definition label_tcp_forward :: "packetHeaders \<Rightarrow> ct_v \<Rightarrow> ct_state" where
  "label_tcp_forward pkt v =
     (if pk_flags pkt AND RST8 \<noteq> 0 then CT_ESTABLISHED
      else if cstate v = SYN_SENT then (if syn_only (pk_flags pkt) then CT_NEW else CT_INVALID)
      else if cstate v = SYN_RECV
           then (if ack_only (pk_flags pkt) \<and> pk_ackN pkt = sequence v then CT_ESTABLISHED else CT_INVALID)
      else if tcp_open (cstate v) then CT_ESTABLISHED
      else if cstate v = TIME_WAIT \<and> syn_only (pk_flags pkt) then CT_NEW
      else CT_INVALID)"

definition label_tcp_reverse :: "packetHeaders \<Rightarrow> ct_v \<Rightarrow> ct_state" where
  "label_tcp_reverse pkt v =
     (if pk_flags pkt AND RST8 \<noteq> 0 then CT_ESTABLISHED
      else if cstate v = SYN_SENT \<or> cstate v = SYN_RECV
           then (if syn_ack_only (pk_flags pkt) \<and> pk_ackN pkt = sequence v then CT_ESTABLISHED else CT_INVALID)
      else if tcp_open (cstate v) then CT_ESTABLISHED
      else if cstate v = TIME_WAIT \<and> syn_only (pk_flags pkt) then CT_NEW
      else CT_INVALID)"

definition label_tcp_miss :: "packetHeaders \<Rightarrow> ct_state" where
  "label_tcp_miss pkt = (if syn_only (pk_flags pkt) then CT_NEW else CT_INVALID)"

definition label_tcp :: "connections \<Rightarrow> packetHeaders \<Rightarrow> ct_state" where
  "label_tcp conns pkt =
     (let (key, ir, pr) = ct_key pkt in
      case conns key of
        None \<Rightarrow> label_tcp_miss pkt
      | Some v \<Rightarrow>
          (case ct_direction v ir pr of
             Forward \<Rightarrow> label_tcp_forward pkt v
           | Reverse \<Rightarrow> label_tcp_reverse pkt v
           | Miss \<Rightarrow> label_tcp_miss pkt))"

definition label_udp :: "connections \<Rightarrow> packetHeaders \<Rightarrow> ct_state" where
  "label_udp conns pkt =
     (let (key, ir, pr) = ct_key pkt in
      case conns key of
        None \<Rightarrow> CT_NEW
      | Some v \<Rightarrow>
          (case ct_direction v ir pr of
             Forward \<Rightarrow> (if cstate v = CT_NEW then CT_NEW else CT_ESTABLISHED)
           | Reverse \<Rightarrow> CT_ESTABLISHED
           | Miss \<Rightarrow> CT_NEW))"

text \<open>
  ICMP. The messages about another packet carry its IP header at offset 42 and eight bytes of its
  payload at offset 62. To order the two ports the program uses the second one's place in the frame
  as its temporary variable, so it changes the frame: the frame comes back with the label. \<open>None\<close> is
  \<open>return RX_DROP\<close> on a truncated frame.
\<close>

definition icmp_type :: "frame \<Rightarrow> 8 word" where "icmp_type f = f ! 34"

definition ICMP_ECHOREPLY :: "8 word" where "ICMP_ECHOREPLY = 0"
definition ICMP_ECHO :: "8 word" where "ICMP_ECHO = 8"

definition icmp_unsupported :: "8 word \<Rightarrow> bool" where
  "icmp_unsupported t \<longleftrightarrow> 13 \<le> t \<and> t \<le> 18"

definition label_icmp_error :: "connections \<Rightarrow> frame \<Rightarrow> (ct_state \<times> frame) option" where
  "label_icmp_error conns f =
     (if icmp_unsupported (icmp_type f) then Some (CT_INVALID, f)
      else if length f < 62 then None
      else
        let (a, b, _) = ip_pair (u32_at f 54) (u32_at f 58);
            proto = f ! 51
        in if length f < 70 then None
           else
             let sport = u16_at f 62; dport = u16_at f 64;
                 f' = (if sport \<le> dport then f else store_u16 f 64 sport);
                 key = \<lparr>k_srcIp = a, k_dstIp = b, k_l4proto = proto,
                        k_srcPort = (if sport \<le> dport then sport else dport),
                        k_dstPort = (if sport \<le> dport then dport else sport)\<rparr>
             in Some (if conns key = None then CT_INVALID else CT_RELATED, f'))"

definition label_icmp :: "connections \<Rightarrow> frame \<Rightarrow> packetHeaders \<Rightarrow> (ct_state \<times> frame) option" where
  "label_icmp conns f pkt =
     (if length f < 42 then None
      else if icmp_type f = ICMP_ECHO then Some (CT_NEW, f)
      else if icmp_type f = ICMP_ECHOREPLY
      then (let (key, ir, pr) = ct_key pkt in
            case conns key of
              None \<Rightarrow> Some (CT_INVALID, f)
            | Some v \<Rightarrow> if ct_direction v ir pr = Reverse then Some (CT_ESTABLISHED, f) else label_icmp_error conns f)
      else label_icmp_error conns f)"

definition ConntrackLabel_label :: "connections \<Rightarrow> frame \<Rightarrow> packetHeaders \<Rightarrow> (ct_state \<times> frame) option" where
  "ConntrackLabel_label conns f pkt =
     (if pk_l4proto pkt = TCP8 then Some (label_tcp conns pkt, f)
      else if pk_l4proto pkt = UDP8 then Some (label_udp conns pkt, f)
      else if pk_l4proto pkt = ICMP8 then label_icmp conns f pkt
      else Some (CT_INVALID, f))"

section \<open>Updating the table\<close>

definition UDP_ESTABLISHED_TIMEOUT :: "64 word" where "UDP_ESTABLISHED_TIMEOUT = 180000000000"
definition UDP_NEW_TIMEOUT :: "64 word" where "UDP_NEW_TIMEOUT = 30000000000"
definition ICMP_TIMEOUT :: "64 word" where "ICMP_TIMEOUT = 30000000000"
definition TCP_ESTABLISHED :: "64 word" where "TCP_ESTABLISHED = 432000000000000"
definition TCP_SYN_SENT :: "64 word" where "TCP_SYN_SENT = 120000000000"
definition TCP_SYN_RECV :: "64 word" where "TCP_SYN_RECV = 60000000000"
definition TCP_LAST_ACK :: "64 word" where "TCP_LAST_ACK = 30000000000"
definition TCP_FIN_WAIT :: "64 word" where "TCP_FIN_WAIT = 120000000000"
definition HEX_BE_ONE :: "32 word" where "HEX_BE_ONE = 0x1000000"

text \<open>
  What the code behind a label does: write to the entry it found, mark the packet invalid, go to
  \<open>TCP_MISS\<close>, or nothing.
\<close>

datatype tcp_out = Write ct_v | MarkInvalid | GotoMiss | Leave

definition tcp_fin_wait_2 :: "64 word \<Rightarrow> packetHeaders \<Rightarrow> ct_v \<Rightarrow> tcp_out" where
  "tcp_fin_wait_2 now pkt v =
     (if pk_flags pkt AND FIN8 \<noteq> 0
      then Write (v\<lparr>cstate := LAST_ACK, ttl := now + TCP_LAST_ACK, sequence := pk_ackN pkt\<rparr>)
      else Write (v\<lparr>ttl := now + TCP_FIN_WAIT\<rparr>))"

text \<open>From \<open>ESTABLISHED\<close> on the two directions have the same code; \<open>FIN_WAIT_1\<close> falls into \<open>FIN_WAIT_2\<close>.\<close>

definition tcp_late :: "64 word \<Rightarrow> packetHeaders \<Rightarrow> ct_v \<Rightarrow> tcp_out" where
  "tcp_late now pkt v =
     (if cstate v = CT_ESTABLISHED
      then (if pk_flags pkt AND FIN8 \<noteq> 0
            then Write (v\<lparr>cstate := FIN_WAIT_1, ttl := now + TCP_FIN_WAIT, sequence := pk_ackN pkt\<rparr>)
            else Write (v\<lparr>ttl := now + TCP_ESTABLISHED\<rparr>))
      else if cstate v = FIN_WAIT_1
      then (if pk_flags pkt AND ACK8 \<noteq> 0 \<and> pk_seqN pkt = sequence v
            then tcp_fin_wait_2 now pkt (v\<lparr>cstate := FIN_WAIT_2, ttl := now + TCP_FIN_WAIT\<rparr>)
            else MarkInvalid)
      else if cstate v = FIN_WAIT_2 then tcp_fin_wait_2 now pkt v
      else if cstate v = LAST_ACK
      then (if pk_flags pkt AND ACK8 \<noteq> 0 \<and> pk_seqN pkt = sequence v
            then Write (v\<lparr>cstate := TIME_WAIT, ttl := now + TCP_LAST_ACK\<rparr>)
            else Write (v\<lparr>ttl := now + TCP_LAST_ACK\<rparr>))
      else if cstate v = TIME_WAIT
      then (if pk_connStatus pkt = ct_code CT_NEW then GotoMiss else Leave)
      else Leave)"

definition tcp_forward :: "64 word \<Rightarrow> packetHeaders \<Rightarrow> ct_v \<Rightarrow> tcp_out" where
  "tcp_forward now pkt v =
     (if cstate v = SYN_SENT
      then (if syn_only (pk_flags pkt) then Write (v\<lparr>ttl := now + TCP_SYN_SENT\<rparr>) else MarkInvalid)
      else if cstate v = SYN_RECV
      then (if ack_only (pk_flags pkt) \<and> pk_ackN pkt = sequence v
            then Write (v\<lparr>cstate := CT_ESTABLISHED, ttl := now + TCP_ESTABLISHED\<rparr>) else MarkInvalid)
      else tcp_late now pkt v)"

definition tcp_reverse :: "64 word \<Rightarrow> packetHeaders \<Rightarrow> ct_v \<Rightarrow> tcp_out" where
  "tcp_reverse now pkt v =
     (if cstate v = SYN_SENT
      then (if syn_ack_only (pk_flags pkt) \<and> pk_ackN pkt = sequence v
            then Write (v\<lparr>cstate := SYN_RECV, ttl := now + TCP_SYN_RECV, sequence := pk_seqN pkt + HEX_BE_ONE\<rparr>)
            else MarkInvalid)
      else if cstate v = SYN_RECV
      then (if syn_ack_only (pk_flags pkt) \<and> pk_ackN pkt = sequence v
            then Write (v\<lparr>ttl := now + TCP_SYN_RECV\<rparr>) else MarkInvalid)
      else tcp_late now pkt v)"

text \<open>\<open>connections.update\<close> replaces an entry, \<open>connections.insert\<close> leaves one that exists alone.\<close>

definition tcp_miss :: "64 word \<Rightarrow> packetHeaders \<Rightarrow> connections \<Rightarrow> connections" where
  "tcp_miss now pkt conns =
     (let (key, ir, pr) = ct_key pkt in
      if syn_only (pk_flags pkt)
      then conns(key \<mapsto> \<lparr>ttl = now + TCP_SYN_SENT, cstate = SYN_SENT, ipRev = ir, portRev = pr,
                          sequence = pk_seqN pkt + HEX_BE_ONE\<rparr>)
      else conns)"

definition ct_insert :: "ct_k \<Rightarrow> ct_v \<Rightarrow> connections \<Rightarrow> connections" where
  "ct_insert key v conns = (if conns key = None then conns(key \<mapsto> v) else conns)"

definition new_entry :: "64 word \<Rightarrow> packetHeaders \<Rightarrow> ct_v" where
  "new_entry expires pkt =
     (let (key, ir, pr) = ct_key pkt in
      \<lparr>ttl = expires, cstate = CT_NEW, ipRev = ir, portRev = pr, sequence = 0\<rparr>)"

definition mark_invalid :: "packetHeaders \<Rightarrow> packetHeaders" where
  "mark_invalid pkt = pkt\<lparr>pk_connStatus := ct_code CT_INVALID\<rparr>"

definition update_tcp :: "64 word \<Rightarrow> packetHeaders \<Rightarrow> connections \<Rightarrow> packetHeaders \<times> connections" where
  "update_tcp now pkt conns =
     (if pk_flags pkt AND RST8 \<noteq> 0 then (pkt, conns)
      else
        let (key, ir, pr) = ct_key pkt in
        case conns key of
          None \<Rightarrow> (pkt, tcp_miss now pkt conns)
        | Some v \<Rightarrow>
            (case (case ct_direction v ir pr of
                     Forward \<Rightarrow> tcp_forward now pkt v
                   | Reverse \<Rightarrow> tcp_reverse now pkt v
                   | Miss \<Rightarrow> GotoMiss) of
               Write v' \<Rightarrow> (pkt, conns(key \<mapsto> v'))
             | MarkInvalid \<Rightarrow> (mark_invalid pkt, conns)
             | GotoMiss \<Rightarrow> (pkt, tcp_miss now pkt conns)
             | Leave \<Rightarrow> (pkt, conns)))"

definition update_udp :: "64 word \<Rightarrow> packetHeaders \<Rightarrow> connections \<Rightarrow> connections" where
  "update_udp now pkt conns =
     (let (key, ir, pr) = ct_key pkt;
          new = new_entry (now + UDP_NEW_TIMEOUT) pkt
      in case conns key of
           None \<Rightarrow> ct_insert key new conns
         | Some v \<Rightarrow>
             (case ct_direction v ir pr of
                Forward \<Rightarrow>
                  conns(key \<mapsto> v\<lparr>ttl := now + (if cstate v = CT_NEW then UDP_NEW_TIMEOUT else UDP_ESTABLISHED_TIMEOUT)\<rparr>)
              | Reverse \<Rightarrow>
                  conns(key \<mapsto> (if cstate v = CT_NEW then v\<lparr>ttl := now + UDP_NEW_TIMEOUT, cstate := CT_ESTABLISHED\<rparr>
                                 else v\<lparr>ttl := now + UDP_ESTABLISHED_TIMEOUT\<rparr>))
              | Miss \<Rightarrow> ct_insert key new conns))"

definition update_icmp :: "64 word \<Rightarrow> frame \<Rightarrow> packetHeaders \<Rightarrow> connections \<Rightarrow> connections option" where
  "update_icmp now f pkt conns =
     (let (key, ir, pr) = ct_key pkt in
      if length f < 42 then None
      else if icmp_type f = ICMP_ECHO then Some (ct_insert key (new_entry (now + ICMP_TIMEOUT) pkt) conns)
      else if icmp_type f = ICMP_ECHOREPLY then Some (conns(key := None))
      else Some conns)"

text \<open>The handler: the verdict, the entry \<open>packet\<close> and the table. \<open>mode\<close> is \<open>_CONNTRACK_MODE\<close>.\<close>

definition ConntrackTableUpdate_rx :: "nat \<Rightarrow> 64 word \<Rightarrow> frame \<Rightarrow> packetHeaders \<Rightarrow> connections \<Rightarrow>
    verdict \<times> packetHeaders \<times> connections" where
  "ConntrackTableUpdate_rx mode now f pkt conns =
     (if mode = 0 \<or> pk_connStatus pkt = ct_code CT_INVALID then (RX_OK, pkt, conns)
      else if pk_l4proto pkt = TCP8 then (RX_OK, update_tcp now pkt conns)
      else if pk_l4proto pkt = UDP8 then (RX_OK, pkt, update_udp now pkt conns)
      else if pk_l4proto pkt = ICMP8
      then (case update_icmp now f pkt conns of None \<Rightarrow> (RX_DROP, pkt, conns) | Some conns' \<Rightarrow> (RX_OK, pkt, conns'))
      else (RX_OK, pkt, conns))"

section \<open>The key of a connection\<close>

type_synonym five_tuple = "32 word \<times> 32 word \<times> 8 word \<times> 16 word \<times> 16 word"

definition five_tuple :: "packetHeaders \<Rightarrow> five_tuple" where
  "five_tuple p = (pk_srcIp p, pk_dstIp p, pk_l4proto p, pk_srcPort p, pk_dstPort p)"

fun reversed :: "five_tuple \<Rightarrow> five_tuple" where
  "reversed (a, b, proto, p, q) = (b, a, proto, q, p)"

text \<open>The key and the two flags determine the five fields; flipping both flags means the other direction.\<close>

lemma ct_key_same:
  assumes "ct_key p = ct_key q" shows "five_tuple p = five_tuple q"
  using assms by (auto simp: ct_key_simps five_tuple_def split: if_splits)

lemma ct_key_opposite:
  assumes "ct_key p = (k, ir, pr)" "ct_key q = (k, \<not> ir, \<not> pr)" shows "five_tuple q = reversed (five_tuple p)"
  using assms by (auto simp: ct_key_simps five_tuple_def split: if_splits)

lemma ct_key_reversed:
  assumes "ct_key p = (k, ir, pr)" "five_tuple q = reversed (five_tuple p)" "pk_srcIp p \<noteq> pk_dstIp p"
  shows "ct_key q = (k, \<not> ir, \<not> pr)"
  using assms by (auto simp: ct_key_simps five_tuple_def split: if_splits)

lemma ct_key_connStatus [simp]:
  "ct_key (pkt\<lparr>pk_connStatus := l\<rparr>) = ct_key pkt" "ct_key (pkt\<lparr>pk_forwardingDecision := d\<rparr>) = ct_key pkt"
  by (simp_all add: ct_key_def)

lemma ct_direction_cases:
  "ct_direction v ir pr = Forward \<longleftrightarrow> ipRev v = ir \<and> portRev v = pr"
  "ct_direction v ir pr = Reverse \<longleftrightarrow> ipRev v = (\<not> ir) \<and> portRev v = (\<not> pr)"
  by (auto simp: ct_direction_def)

text \<open>The key of a packet is normalised, and names the protocol of the packet.\<close>

definition key_ok :: "ct_k \<Rightarrow> bool" where
  "key_ok k \<longleftrightarrow> k_srcIp k \<le> k_dstIp k \<and> k_srcPort k \<le> k_dstPort k"

lemma ct_key_ok: "ct_key p = (k, ir, pr) \<Longrightarrow> key_ok k \<and> k_l4proto k = pk_l4proto p"
  by (auto simp: ct_key_simps key_ok_def split: if_splits)

section \<open>What the table can hold\<close>

text \<open>The states an entry of each protocol can have; a packet may only be tracked if it is TCP, UDP or ICMP.\<close>

definition state_ok :: "8 word \<Rightarrow> ct_state \<Rightarrow> bool" where
  "state_ok proto s \<longleftrightarrow>
     (if proto = TCP8 then s \<in> {SYN_SENT, SYN_RECV, CT_ESTABLISHED, FIN_WAIT_1, FIN_WAIT_2, LAST_ACK, TIME_WAIT}
      else if proto = UDP8 then s \<in> {CT_NEW, CT_ESTABLISHED}
      else proto = ICMP8 \<and> s = CT_NEW)"

definition table_ok :: "connections \<Rightarrow> bool" where
  "table_ok conns \<longleftrightarrow> (\<forall>k v. conns k = Some v \<longrightarrow> key_ok k \<and> state_ok (k_l4proto k) (cstate v))"

lemma protocols_differ [simp]: "TCP8 \<noteq> UDP8" "TCP8 \<noteq> ICMP8" "UDP8 \<noteq> ICMP8" "UDP8 \<noteq> TCP8" "ICMP8 \<noteq> TCP8" "ICMP8 \<noteq> UDP8"
  by (simp_all add: TCP8_def UDP8_def ICMP8_def)

text \<open>What the code behind a TCP label writes is the old entry with a state of TCP.\<close>

lemma tcp_write:
  assumes "case d of Forward \<Rightarrow> tcp_forward now pkt v = Write v' | Reverse \<Rightarrow> tcp_reverse now pkt v = Write v' | Miss \<Rightarrow> False"
  shows "ipRev v' = ipRev v \<and> portRev v' = portRev v \<and>
    (cstate v' = cstate v \<or> cstate v' \<in> {SYN_RECV, CT_ESTABLISHED, FIN_WAIT_1, FIN_WAIT_2, LAST_ACK, TIME_WAIT})"
  using assms
  by (cases d) (auto simp: tcp_forward_def tcp_reverse_def tcp_late_def tcp_fin_wait_2_def split: if_splits)

lemma tcp_goto_miss:
  assumes "case d of Forward \<Rightarrow> tcp_forward now pkt v = GotoMiss | Reverse \<Rightarrow> tcp_reverse now pkt v = GotoMiss | Miss \<Rightarrow> True"
  shows "d = Miss \<or> cstate v = TIME_WAIT \<and> pk_connStatus pkt = ct_code CT_NEW"
  using assms
  by (cases d) (auto simp: tcp_forward_def tcp_reverse_def tcp_late_def tcp_fin_wait_2_def split: if_splits)

lemma tcp_miss_entry:
  assumes "tcp_miss now pkt conns k = Some v"
  shows "conns k = Some v \<or> ct_key pkt = (k, ipRev v, portRev v) \<and> syn_only (pk_flags pkt) \<and> cstate v = SYN_SENT"
  using assms by (auto simp: tcp_miss_def split: prod.splits if_splits)

lemma ct_insert_entry:
  assumes "ct_insert key (new_entry t pkt) conns k = Some v" "fst (ct_key pkt) = key"
  shows "conns k = Some v \<or> conns k = None \<and> ct_key pkt = (k, ipRev v, portRev v) \<and> cstate v = CT_NEW"
  using assms by (auto simp: ct_insert_def new_entry_def split: prod.splits if_splits)

text \<open>
  Every entry of the table after an accepted packet was there before, with the same direction and a state of
  its protocol, or it is a new entry for that packet, which had the label \<open>NEW\<close>.
\<close>

lemma ct_code_inj [simp]: "ct_code a = ct_code b \<longleftrightarrow> a = b"
  by (cases a; cases b) simp_all

definition entry_from :: "connections \<Rightarrow> ct_k \<Rightarrow> ct_v \<Rightarrow> bool" where
  "entry_from conns k e \<longleftrightarrow> (\<exists>e0. conns k = Some e0 \<and> ipRev e = ipRev e0 \<and> portRev e = portRev e0 \<and>
     (cstate e = cstate e0 \<or> (if k_l4proto k = TCP8 then state_ok TCP8 (cstate e) else k_l4proto k = UDP8 \<and> cstate e = CT_ESTABLISHED)))"

definition entry_new :: "packetHeaders \<Rightarrow> ct_state \<Rightarrow> ct_k \<Rightarrow> ct_v \<Rightarrow> bool" where
  "entry_new pkt l k e \<longleftrightarrow> ct_key pkt = (k, ipRev e, portRev e) \<and> l = CT_NEW \<and> state_ok (k_l4proto k) (cstate e)"

lemma entry_from_same: "conns k = Some e \<Longrightarrow> entry_from conns k e"
  by (auto simp: entry_from_def)

lemma update_tcp_entry:
  assumes tcp: "pk_l4proto pkt = TCP8" and st: "pk_connStatus pkt = ct_code (label_tcp conns pkt)"
    and u: "snd (update_tcp now pkt conns) k = Some e"
  shows "entry_from conns k e \<or> entry_new pkt (label_tcp conns pkt) k e"
proof -
  obtain key ir pr where k: "ct_key pkt = (key, ir, pr)" by (metis prod_cases3)
  have proto: "k_l4proto key = TCP8" using ct_key_ok [OF k] tcp by simp
  have miss: "entry_from conns k e \<or> entry_new pkt (label_tcp conns pkt) k e"
    if "tcp_miss now pkt conns k = Some e" "syn_only (pk_flags pkt) \<Longrightarrow> label_tcp conns pkt = CT_NEW"
    using tcp_miss_entry [OF that(1)] that(2) k proto
    by (auto simp: entry_from_same entry_new_def state_ok_def)
  show ?thesis
  proof (cases "pk_flags pkt AND RST8 \<noteq> 0")
    case True
    then show ?thesis using u by (auto simp: update_tcp_def entry_from_same)
  next
    case rst: False
    show ?thesis
    proof (cases "conns key")
      case None
      then show ?thesis using u rst by (intro miss) (auto simp: update_tcp_def k label_tcp_def label_tcp_miss_def)
    next
      case (Some v)
      let ?d = "ct_direction v ir pr"
      define out where "out = (case ?d of Forward \<Rightarrow> tcp_forward now pkt v | Reverse \<Rightarrow> tcp_reverse now pkt v | Miss \<Rightarrow> GotoMiss)"
      have upd: "snd (update_tcp now pkt conns) = (case out of Write v' \<Rightarrow> conns(key \<mapsto> v') | MarkInvalid \<Rightarrow> conns
          | GotoMiss \<Rightarrow> tcp_miss now pkt conns | Leave \<Rightarrow> conns)"
        using rst Some by (simp add: update_tcp_def k out_def [symmetric] split: tcp_out.splits)
      show ?thesis
      proof (cases out)
        case (Write v')
        then have w: "case ?d of Forward \<Rightarrow> tcp_forward now pkt v = Write v' | Reverse \<Rightarrow> tcp_reverse now pkt v = Write v' | Miss \<Rightarrow> False"
          by (auto simp: out_def split: ct_dir.splits)
        show ?thesis
        proof (cases "k = key")
          case True
          then have "e = v'" using u upd Write by simp
          then show ?thesis using tcp_write [OF w] Some proto True by (auto simp: entry_from_def state_ok_def)
        next
          case False
          then show ?thesis using u upd Write by (simp add: entry_from_same)
        qed
      next
        case GotoMiss
        then have g: "?d = Miss \<or> cstate v = TIME_WAIT \<and> pk_connStatus pkt = ct_code CT_NEW"
          by (intro tcp_goto_miss [where d = ?d and now = now]) (auto simp: out_def split: ct_dir.splits)
        have "label_tcp conns pkt = CT_NEW" if "syn_only (pk_flags pkt)"
          using g
        proof
          assume "?d = Miss"
          then show ?thesis using that Some by (simp add: label_tcp_def k label_tcp_miss_def)
        next
          assume "cstate v = TIME_WAIT \<and> pk_connStatus pkt = ct_code CT_NEW"
          then have "ct_code (label_tcp conns pkt) = ct_code CT_NEW" using st by simp
          then show ?thesis unfolding ct_code_inj .
        qed
        then show ?thesis using u upd GotoMiss by (intro miss) simp_all
      qed (use u upd in \<open>auto simp: entry_from_same\<close>)
    qed
  qed
qed

lemma update_udp_entry:
  assumes udp: "pk_l4proto pkt = UDP8" and u: "update_udp now pkt conns k = Some e"
  shows "entry_from conns k e \<or> entry_new pkt (label_udp conns pkt) k e"
proof -
  obtain key ir pr where k: "ct_key pkt = (key, ir, pr)" by (metis prod_cases3)
  have proto: "k_l4proto key = UDP8" using ct_key_ok [OF k] udp by simp
  have ins: "entry_from conns k e \<or> entry_new pkt (label_udp conns pkt) k e"
    if "ct_insert key (new_entry t pkt) conns k = Some e" for t
    using ct_insert_entry [OF that] k proto
    by (auto simp: entry_from_same entry_new_def state_ok_def label_udp_def)
  show ?thesis
  proof (cases "conns key")
    case None
    then show ?thesis using u ins by (simp add: update_udp_def k)
  next
    case (Some v)
    show ?thesis
    proof (cases "ct_direction v ir pr")
      case Miss
      then show ?thesis using u ins Some by (simp add: update_udp_def k)
    qed (use u Some proto in \<open>auto simp: update_udp_def k entry_from_def split: if_splits\<close>)
  qed
qed

lemma update_icmp_entry:
  assumes icmp: "pk_l4proto pkt = ICMP8" and u: "update_icmp now f pkt conns = Some conns'" "conns' k = Some e"
    and l: "label_icmp conns f0 pkt = Some (l, f)"
  shows "entry_from conns k e \<or> entry_new pkt l k e"
proof -
  obtain key ir pr where k: "ct_key pkt = (key, ir, pr)" by (metis prod_cases3)
  have proto: "k_l4proto key = ICMP8" using ct_key_ok [OF k] icmp by simp
  have same: "icmp_type f = icmp_type f0"
    using l by (auto simp: label_icmp_def label_icmp_error_def store_u16_def icmp_type_def Let_def split: if_splits prod.splits option.splits)
  show ?thesis
  proof (cases "icmp_type f = ICMP_ECHO")
    case True
    then have new: "l = CT_NEW" using l same by (auto simp: label_icmp_def split: if_splits)
    have "ct_insert key (new_entry (now + ICMP_TIMEOUT) pkt) conns k = Some e"
      using u True by (auto simp: update_icmp_def k split: if_splits)
    from ct_insert_entry [OF this] k proto new show ?thesis
      by (auto simp: entry_from_same entry_new_def state_ok_def)
  next
    case False
    then show ?thesis using u by (auto simp: update_icmp_def k entry_from_same split: if_splits)
  qed
qed

lemma label_connStatus [simp]:
  "label_tcp conns (pkt\<lparr>pk_connStatus := x\<rparr>) = label_tcp conns pkt"
  "label_udp conns (pkt\<lparr>pk_connStatus := x\<rparr>) = label_udp conns pkt"
  "label_icmp conns f (pkt\<lparr>pk_connStatus := x\<rparr>) = label_icmp conns f pkt"
  unfolding label_tcp_def label_udp_def label_icmp_def label_tcp_forward_def label_tcp_reverse_def label_tcp_miss_def
  by (simp_all cong: if_cong option.case_cong prod.case_cong ct_dir.case_cong)

text \<open>The two programs together.\<close>

lemma update_entry:
  assumes l: "ConntrackLabel_label conns f pkt = Some (l, f')"
    and u: "ConntrackTableUpdate_rx mode now f' (pkt\<lparr>pk_connStatus := ct_code l\<rparr>) conns = (v, p', conns')"
    and e: "conns' k = Some e"
  shows "entry_from conns k e \<or> entry_new pkt l k e"
proof -
  let ?p = "pkt\<lparr>pk_connStatus := ct_code l\<rparr>"
  have new: "entry_new ?p l k e = entry_new pkt l k e" by (simp add: entry_new_def)
  consider "mode = 0 \<or> l = CT_INVALID \<or> pk_l4proto pkt \<notin> {TCP8, UDP8, ICMP8}" |
    (tcp) "mode \<noteq> 0" "l \<noteq> CT_INVALID" "pk_l4proto pkt = TCP8" | (udp) "mode \<noteq> 0" "l \<noteq> CT_INVALID" "pk_l4proto pkt = UDP8" |
    (icmp) "mode \<noteq> 0" "l \<noteq> CT_INVALID" "pk_l4proto pkt = ICMP8" by blast
  then show ?thesis
  proof cases
    case 1
    then have "conns' = conns"
      using u by (auto simp: ConntrackTableUpdate_rx_def simp del: ct_code.simps split: if_splits)
    then show ?thesis using e by (simp add: entry_from_same)
  next
    case tcp
    then have "l = label_tcp conns ?p" using l by (simp add: ConntrackLabel_label_def)
    moreover have "conns' = snd (update_tcp now ?p conns)"
      using u tcp by (simp add: ConntrackTableUpdate_rx_def del: ct_code.simps)
    ultimately show ?thesis using update_tcp_entry [of ?p conns now k e] tcp e new by simp
  next
    case udp
    then have "l = label_udp conns ?p" using l by (simp add: ConntrackLabel_label_def)
    moreover have "conns' = update_udp now ?p conns"
      using u udp by (auto simp: ConntrackTableUpdate_rx_def simp del: ct_code.simps)
    ultimately show ?thesis using update_udp_entry [of ?p now conns k e] udp e new by simp
  next
    case icmp
    then have "label_icmp conns f ?p = Some (l, f')" using l by (simp add: ConntrackLabel_label_def)
    moreover have "update_icmp now f' ?p conns = Some conns' \<or> conns' = conns"
      using u icmp by (auto simp: ConntrackTableUpdate_rx_def simp del: ct_code.simps split: option.splits)
    ultimately show ?thesis using update_icmp_entry [of ?p now f' conns conns' k e] icmp e new by (auto simp: entry_from_same)
  qed
qed

lemma update_table_ok:
  assumes ok: "table_ok conns" and l: "ConntrackLabel_label conns f pkt = Some (l, f')"
    and u: "ConntrackTableUpdate_rx mode now f' (pkt\<lparr>pk_connStatus := ct_code l\<rparr>) conns = (v, p', conns')"
  shows "table_ok conns'"
  unfolding table_ok_def
proof (intro allI impI)
  fix k e assume "conns' k = Some e"
  from update_entry [OF l u this] show "key_ok k \<and> state_ok (k_l4proto k) (cstate e)"
  proof
    assume "entry_from conns k e"
    then show ?thesis using ok by (fastforce simp: entry_from_def table_ok_def state_ok_def split: if_splits)
  next
    assume n: "entry_new pkt l k e"
    then have "ct_key pkt = (k, ipRev e, portRev e)" by (simp add: entry_new_def)
    from ct_key_ok [OF this] n show ?thesis by (simp add: entry_new_def)
  qed
qed

text \<open>A packet is labelled \<open>ESTABLISHED\<close> only if the table has an entry for its connection, in one direction or the other.\<close>

definition has_entry :: "connections \<Rightarrow> packetHeaders \<Rightarrow> bool" where
  "has_entry conns pkt \<longleftrightarrow> (case ct_key pkt of (k, ir, pr) \<Rightarrow>
     (\<exists>v. conns k = Some v \<and> (ipRev v = ir \<and> portRev v = pr \<or> ipRev v = (\<not> ir) \<and> portRev v = (\<not> pr))))"

lemma has_entry_direction:
  "ct_key pkt = (k, ir, pr) \<Longrightarrow> conns k = Some v \<Longrightarrow> ct_direction v ir pr \<noteq> Miss \<Longrightarrow> has_entry conns pkt"
  by (auto simp: has_entry_def ct_direction_def split: if_splits)

lemma established_entry:
  assumes l: "ConntrackLabel_label conns f pkt = Some (CT_ESTABLISHED, f')"
  shows "has_entry conns pkt"
proof -
  obtain k ir pr where k: "ct_key pkt = (k, ir, pr)" by (metis prod_cases3)
  have "conns k \<noteq> None \<and> ct_direction (the (conns k)) ir pr \<noteq> Miss"
    using l
    by (auto simp: ConntrackLabel_label_def label_tcp_def label_udp_def label_icmp_def label_icmp_error_def k label_tcp_miss_def
        Let_def split: if_splits option.splits prod.splits)
  then show ?thesis using has_entry_direction [OF k] by auto
qed

end
