(* ===== verification/Fw_Tcp.thy ===== *)
theory Fw_Tcp
  imports Fw_Conntrack
begin

text \<open>
  The life of a TCP connection in the tracker: the handshake, and where the tracker and the protocol
  part ways (sequence numbers with a carry, repeated answers, expired entries, messages without ports).
\<close>

section \<open>Sequence numbers in network order\<close>

lemma octet_octets:
  "octet (octets_to_nbo a b c d) 0 = a" "octet (octets_to_nbo a b c d) (Suc 0) = b"
  "octet (octets_to_nbo a b c d) 2 = c" "octet (octets_to_nbo a b c d) 3 = d"
  by (rule bit_word_eqI; auto simp: octet_def octets_to_nbo_def bit_ucast_iff bit_drop_bit_eq bit_or_iff bit_push_bit_iff
      dest: bit_imp_le_length)+

lemma ntohl_octets: "ntohl (octets_to_nbo a b c d) = octets_to_nbo d c b a"
  by (simp add: ntohl_def octet_octets)

lemma octets_exhaust: obtains a b c d where "s = octets_to_nbo a b c d"
  using octets_roundtrip [of s] by metis

lemma octets_inject: "octets_to_nbo a b c d = octets_to_nbo a' b' c' d' \<longleftrightarrow> a = a' \<and> b = b' \<and> c = c' \<and> d = d'"
  by (metis octet_octets)

lemma ntohl_ntohl [simp]: "ntohl (ntohl s) = s"
  by (rule octets_exhaust [of s]) (simp add: ntohl_octets)

lemma or_disjoint_add:
  fixes x y :: "32 word"
  assumes "x AND y = 0" shows "x OR y = x + y"
  using assms by (metis add_0 word_plus_and_or)

lemma octets_sum:
  "octets_to_nbo a b c d = push_bit 24 (ucast d) + (push_bit 16 (ucast c) + (push_bit 8 (ucast b) + ucast a))"
proof -
  have 1: "push_bit 8 (ucast b) AND (ucast a :: 32 word) = 0"
    by (rule bit_word_eqI) (auto simp: bit_and_iff bit_push_bit_iff bit_ucast_iff dest: bit_imp_le_length)
  have 2: "push_bit 16 (ucast c) AND (push_bit 8 (ucast b) OR (ucast a :: 32 word)) = 0"
    by (rule bit_word_eqI) (auto simp: bit_and_iff bit_or_iff bit_push_bit_iff bit_ucast_iff dest: bit_imp_le_length)
  have 3: "push_bit 24 (ucast d) AND (push_bit 16 (ucast c) OR (push_bit 8 (ucast b) OR (ucast a :: 32 word))) = 0"
    by (rule bit_word_eqI) (auto simp: bit_and_iff bit_or_iff bit_push_bit_iff bit_ucast_iff dest: bit_imp_le_length)
  show ?thesis
    unfolding octets_to_nbo_def or_disjoint_add [OF 1, symmetric] or_disjoint_add [OF 2, symmetric] or_disjoint_add [OF 3, symmetric]
    by (simp add: or.assoc)
qed

text \<open>Incrementing the byte that comes last in network order, when it does not wrap.\<close>

lemma ucast_succ: "(x :: 8 word) \<noteq> 0xFF \<Longrightarrow> ucast (x + 1) = (ucast x + 1 :: 32 word)"
proof -
  assume x: "x \<noteq> 0xFF"
  have "unat x < 256" using unsigned_less [of x] by simp
  moreover have "unat x \<noteq> 255" using x by (simp add: word_unat_eq_iff)
  ultimately have lt: "unat x < 255" by simp
  have "unat (ucast (x + 1) :: 32 word) = unat (ucast x + 1 :: 32 word)"
    using lt by (simp add: unat_word_ariths unsigned_ucast_eq take_bit_nat_eq_self unsigned_ucast_eq)
  then show ?thesis by (simp add: word_unat_eq_iff)
qed

text \<open>The code adds one to the byte that comes last on the wire, without the carry.\<close>

definition wire_succ :: "32 word \<Rightarrow> 32 word" where
  "wire_succ s = ntohl (ntohl s + 1)"

lemma wire_succ_no_carry:
  assumes "octet s 3 \<noteq> 0xFF" shows "wire_succ s = s + HEX_BE_ONE"
proof -
  obtain a b c d where s: "s = octets_to_nbo a b c d" by (rule octets_exhaust)
  have d: "d \<noteq> 0xFF" using assms by (simp add: s octet_octets)
  have n: "ntohl s = octets_to_nbo d c b a" by (simp add: s ntohl_octets)
  have "ntohl s + 1 = octets_to_nbo (d + 1) c b a"
    unfolding n octets_sum ucast_succ [OF d] by (simp add: add.assoc)
  moreover have "s + HEX_BE_ONE = octets_to_nbo a b c (d + 1)"
  proof -
    have "push_bit 24 (ucast (d + 1)) = (push_bit 24 (ucast d) + HEX_BE_ONE :: 32 word)"
      unfolding ucast_succ [OF d] by (simp add: push_bit_add HEX_BE_ONE_def)
    then show ?thesis unfolding s octets_sum by (simp add: algebra_simps)
  qed
  ultimately show ?thesis by (simp add: wire_succ_def ntohl_octets)
qed

lemma wire_succ_carry:
  assumes "octet s 3 = 0xFF" shows "wire_succ s \<noteq> s + HEX_BE_ONE"
proof
  assume eq: "wire_succ s = s + HEX_BE_ONE"
  obtain a b c d where s: "s = octets_to_nbo a b c d" by (rule octets_exhaust)
  have d: "d = 0xFF" using assms by (simp add: s octet_octets)
  have "s + HEX_BE_ONE = octets_to_nbo a b c 0"
    unfolding s octets_sum d by (simp add: HEX_BE_ONE_def)
  then have "ntohl s + 1 = octets_to_nbo 0 c b a"
    using eq by (metis wire_succ_def ntohl_ntohl ntohl_octets)
  moreover have "ntohl s = octets_to_nbo 0xFF c b a" by (simp add: s d ntohl_octets)
  ultimately show False unfolding octets_sum by simp
qed

section \<open>A packet that is accepted\<close>

text \<open>Label and update of one accepted packet: the label and the new table; \<open>None\<close> if it is dropped as truncated.\<close>

definition track :: "64 word \<Rightarrow> frame \<Rightarrow> packetHeaders \<Rightarrow> connections \<Rightarrow> (ct_state \<times> connections) option" where
  "track now f pkt conns =
     (case ConntrackLabel_label conns f pkt of
        None \<Rightarrow> None
      | Some (l, f') \<Rightarrow>
          (case ConntrackTableUpdate_rx 1 now f' (pkt\<lparr>pk_connStatus := ct_code l\<rparr>) conns of
             (RX_DROP, _, _) \<Rightarrow> None
           | (RX_OK, _, conns') \<Rightarrow> Some (l, conns')))"

lemma track_tcp:
  assumes "pk_l4proto pkt = TCP8"
  shows "track now f pkt conns = Some (label_tcp conns pkt,
    if label_tcp conns pkt = CT_INVALID then conns
    else snd (update_tcp now (pkt\<lparr>pk_connStatus := ct_code (label_tcp conns pkt)\<rparr>) conns))"
  using assms
  by (auto simp: track_def ConntrackLabel_label_def ConntrackTableUpdate_rx_def simp del: ct_code.simps split: prod.splits)

lemma flag_patterns [simp]:
  "syn_only SYN8" "\<not> syn_only ACK8" "\<not> syn_only (SYN8 OR ACK8)" "ack_only ACK8" "\<not> ack_only SYN8" "\<not> ack_only (SYN8 OR ACK8)"
  "syn_ack_only (SYN8 OR ACK8)" "\<not> syn_ack_only SYN8" "\<not> syn_ack_only ACK8"
  "SYN8 AND RST8 = 0" "ACK8 AND RST8 = 0" "(SYN8 OR ACK8) AND RST8 = 0"
  by (simp_all add: syn_only_def ack_only_def syn_ack_only_def tcp_flag_defs)

lemma track_syn:
  assumes "pk_l4proto pkt = TCP8" "pk_flags pkt = SYN8" "ct_key pkt = (k, ir, pr)" "conns k = None"
  shows "track now f pkt conns = Some (CT_NEW, conns(k \<mapsto> \<lparr>ttl = now + TCP_SYN_SENT, cstate = SYN_SENT, ipRev = ir,
    portRev = pr, sequence = pk_seqN pkt + HEX_BE_ONE\<rparr>))"
  using assms by (simp add: track_tcp label_tcp_def label_tcp_miss_def update_tcp_def tcp_miss_def)

lemma track_syn_ack:
  assumes "pk_l4proto pkt = TCP8" "pk_flags pkt = SYN8 OR ACK8" "ct_key pkt = (k, ir, pr)"
    and "conns k = Some v" "ipRev v = (\<not> ir)" "portRev v = (\<not> pr)" "cstate v = SYN_SENT" "pk_ackN pkt = sequence v"
  shows "track now f pkt conns = Some (CT_ESTABLISHED, conns(k \<mapsto> v\<lparr>cstate := SYN_RECV, ttl := now + TCP_SYN_RECV,
    sequence := pk_seqN pkt + HEX_BE_ONE\<rparr>))"
  using assms
  by (simp add: track_tcp label_tcp_def label_tcp_reverse_def ct_direction_def update_tcp_def tcp_reverse_def)

lemma track_ack:
  assumes "pk_l4proto pkt = TCP8" "pk_flags pkt = ACK8" "ct_key pkt = (k, ir, pr)"
    and "conns k = Some v" "ipRev v = ir" "portRev v = pr" "cstate v = SYN_RECV" "pk_ackN pkt = sequence v"
  shows "track now f pkt conns = Some (CT_ESTABLISHED, conns(k \<mapsto> v\<lparr>cstate := CT_ESTABLISHED, ttl := now + TCP_ESTABLISHED\<rparr>))"
  using assms
  by (simp add: track_tcp label_tcp_def label_tcp_forward_def ct_direction_def update_tcp_def tcp_forward_def)

section \<open>The handshake\<close>

text \<open>The three packets of a handshake between two different hosts.\<close>

definition handshake :: "packetHeaders \<Rightarrow> packetHeaders \<Rightarrow> packetHeaders \<Rightarrow> bool" where
  "handshake syn synack ack \<longleftrightarrow>
     pk_l4proto syn = TCP8 \<and> pk_srcIp syn \<noteq> pk_dstIp syn \<and>
     five_tuple synack = reversed (five_tuple syn) \<and> five_tuple ack = five_tuple syn \<and>
     pk_flags syn = SYN8 \<and> pk_flags synack = SYN8 OR ACK8 \<and> pk_flags ack = ACK8 \<and>
     pk_ackN synack = wire_succ (pk_seqN syn) \<and> pk_ackN ack = wire_succ (pk_seqN synack)"

lemma handshake_keys:
  assumes "handshake syn synack ack" "ct_key syn = (k, ir, pr)"
  shows "ct_key synack = (k, \<not> ir, \<not> pr)" "ct_key ack = (k, ir, pr)" "pk_l4proto synack = TCP8" "pk_l4proto ack = TCP8"
  using assms ct_key_reversed [OF assms(2), of synack] by (auto simp: handshake_def five_tuple_def ct_key_def)

lemma handshake_tracked:
  assumes h: "handshake syn synack ack" and k: "ct_key syn = (k, ir, pr)" and new: "conns k = None"
    and carry: "octet (pk_seqN syn) 3 \<noteq> 0xFF" "octet (pk_seqN synack) 3 \<noteq> 0xFF"
  shows "\<exists>c1 c2 c3 v. track t1 f1 syn conns = Some (CT_NEW, c1) \<and> track t2 f2 synack c1 = Some (CT_ESTABLISHED, c2) \<and>
    track t3 f3 ack c2 = Some (CT_ESTABLISHED, c3) \<and> c3 = conns(k \<mapsto> v) \<and> cstate v = CT_ESTABLISHED \<and>
    ttl v = t3 + TCP_ESTABLISHED \<and> ipRev v = ir \<and> portRev v = pr"
proof -
  note keys = handshake_keys [OF h k]
  let ?v1 = "\<lparr>ttl = t1 + TCP_SYN_SENT, cstate = SYN_SENT, ipRev = ir, portRev = pr, sequence = pk_seqN syn + HEX_BE_ONE\<rparr>"
  let ?v2 = "?v1\<lparr>cstate := SYN_RECV, ttl := t2 + TCP_SYN_RECV, sequence := pk_seqN synack + HEX_BE_ONE\<rparr>"
  have f: "pk_flags syn = SYN8" "pk_flags synack = SYN8 OR ACK8" "pk_flags ack = ACK8" "pk_l4proto syn = TCP8"
    "pk_ackN synack = pk_seqN syn + HEX_BE_ONE" "pk_ackN ack = pk_seqN synack + HEX_BE_ONE"
    using h carry by (simp_all add: handshake_def wire_succ_no_carry)
  have 1: "track t1 f1 syn conns = Some (CT_NEW, conns(k \<mapsto> ?v1))" using track_syn [where conns = conns and k = k, OF f(4,1) k new] by simp
  have 2: "track t2 f2 synack (conns(k \<mapsto> ?v1)) = Some (CT_ESTABLISHED, conns(k \<mapsto> ?v2))"
    using track_syn_ack [OF keys(3) f(2) keys(1), of "conns(k \<mapsto> ?v1)" ?v1] f(5) by simp
  have 3: "track t3 f3 ack (conns(k \<mapsto> ?v2)) = Some (CT_ESTABLISHED, conns(k \<mapsto> ?v2\<lparr>cstate := CT_ESTABLISHED, ttl := t3 + TCP_ESTABLISHED\<rparr>))"
    using track_ack [OF keys(4) f(3) keys(2), of "conns(k \<mapsto> ?v2)" ?v2] f(6) by simp
  let ?v3 = "?v2\<lparr>cstate := CT_ESTABLISHED, ttl := t3 + TCP_ESTABLISHED\<rparr>"
  show ?thesis
    by (rule exI [of _ "conns(k \<mapsto> ?v1)"], rule exI [of _ "conns(k \<mapsto> ?v2)"], rule exI [of _ "conns(k \<mapsto> ?v3)"], rule exI [of _ ?v3])
      (use 1 2 3 in simp)
qed

text \<open>
  When the last byte of the first sequence number is 255, the answer of the server acknowledges a number with
  a carry that the tracker does not expect, and the connection is never established.
\<close>

lemma handshake_carry:
  assumes h: "handshake syn synack ack" and k: "ct_key syn = (k, ir, pr)" and new: "conns k = None"
    and carry: "octet (pk_seqN syn) 3 = 0xFF"
  shows "\<exists>c1. track t1 f1 syn conns = Some (CT_NEW, c1) \<and> track t2 f2 synack c1 = Some (CT_INVALID, c1)"
proof -
  note keys = handshake_keys [OF h k]
  let ?v1 = "\<lparr>ttl = t1 + TCP_SYN_SENT, cstate = SYN_SENT, ipRev = ir, portRev = pr, sequence = pk_seqN syn + HEX_BE_ONE\<rparr>"
  have f: "pk_flags syn = SYN8" "pk_flags synack = SYN8 OR ACK8" "pk_l4proto syn = TCP8" "pk_ackN synack \<noteq> pk_seqN syn + HEX_BE_ONE"
    using h wire_succ_carry [OF carry] by (simp_all add: handshake_def)
  have 1: "track t1 f1 syn conns = Some (CT_NEW, conns(k \<mapsto> ?v1))" using track_syn [where conns = conns and k = k, OF f(3,1) k new] by simp
  have "label_tcp (conns(k \<mapsto> ?v1)) synack = CT_INVALID"
    using f by (simp add: label_tcp_def keys ct_direction_def label_tcp_reverse_def)
  then have "track t2 f2 synack (conns(k \<mapsto> ?v1)) = Some (CT_INVALID, conns(k \<mapsto> ?v1))" using keys by (simp add: track_tcp)
  with 1 show ?thesis by blast
qed

text \<open>
  A server that repeats its answer, because the last packet of the handshake was lost, is not understood: after the first
  answer the entry holds the number the client has to acknowledge, and the second answer is compared with it.
\<close>

lemma repeated_answer:
  assumes h: "handshake syn synack ack" and k: "ct_key syn = (k, ir, pr)" and new: "conns k = None"
    and carry: "octet (pk_seqN syn) 3 \<noteq> 0xFF" and differ: "pk_seqN synack \<noteq> pk_seqN syn"
  shows "\<exists>c1 c2. track t1 f1 syn conns = Some (CT_NEW, c1) \<and> track t2 f2 synack c1 = Some (CT_ESTABLISHED, c2) \<and>
    track t3 f3 synack c2 = Some (CT_INVALID, c2)"
proof -
  note keys = handshake_keys [OF h k]
  let ?v1 = "\<lparr>ttl = t1 + TCP_SYN_SENT, cstate = SYN_SENT, ipRev = ir, portRev = pr, sequence = pk_seqN syn + HEX_BE_ONE\<rparr>"
  let ?v2 = "?v1\<lparr>cstate := SYN_RECV, ttl := t2 + TCP_SYN_RECV, sequence := pk_seqN synack + HEX_BE_ONE\<rparr>"
  have f: "pk_flags syn = SYN8" "pk_flags synack = SYN8 OR ACK8" "pk_l4proto syn = TCP8" "pk_ackN synack = pk_seqN syn + HEX_BE_ONE"
    using h carry by (simp_all add: handshake_def wire_succ_no_carry)
  have 1: "track t1 f1 syn conns = Some (CT_NEW, conns(k \<mapsto> ?v1))" using track_syn [where conns = conns and k = k, OF f(3,1) k new] by simp
  have 2: "track t2 f2 synack (conns(k \<mapsto> ?v1)) = Some (CT_ESTABLISHED, conns(k \<mapsto> ?v2))"
    using track_syn_ack [OF keys(3) f(2) keys(1), of "conns(k \<mapsto> ?v1)" ?v1] f(4) by simp
  have "pk_ackN synack \<noteq> pk_seqN synack + HEX_BE_ONE" using f(4) differ by simp
  then have "label_tcp (conns(k \<mapsto> ?v2)) synack = CT_INVALID"
    using f by (simp add: label_tcp_def keys ct_direction_def label_tcp_reverse_def)
  then have "track t3 f3 synack (conns(k \<mapsto> ?v2)) = Some (CT_INVALID, conns(k \<mapsto> ?v2))" using keys by (simp add: track_tcp)
  with 1 2 show ?thesis by blast
qed

section \<open>Time\<close>

text \<open>The label never looks at \<open>ttl\<close>: an entry that has expired labels packets as it did before.\<close>

definition same_but_ttl :: "connections \<Rightarrow> connections \<Rightarrow> bool" where
  "same_but_ttl c c' \<longleftrightarrow> (\<forall>k. map_option (\<lambda>v. v\<lparr>ttl := 0\<rparr>) (c k) = map_option (\<lambda>v. v\<lparr>ttl := 0\<rparr>) (c' k))"

lemma same_but_ttl_cases:
  assumes "same_but_ttl c c'"
  obtains "c k = None" "c' k = None" | v t where "c k = Some v" "c' k = Some (v\<lparr>ttl := t\<rparr>)"
proof (cases "c k")
  case None
  then show ?thesis using assms that(1) by (auto simp: same_but_ttl_def dest: spec [of _ k])
next
  case (Some v)
  have "map_option (\<lambda>v. v\<lparr>ttl := 0\<rparr>) (c' k) = Some (v\<lparr>ttl := 0\<rparr>)"
    using assms Some unfolding same_but_ttl_def by (metis option.simps(9))
  then obtain v' where v': "c' k = Some v'" "v'\<lparr>ttl := 0\<rparr> = v\<lparr>ttl := 0\<rparr>" by auto
  have "v' = v\<lparr>ttl := ttl v'\<rparr>" using v'(2) by (cases v; cases v') simp
  then have "c' k = Some (v\<lparr>ttl := ttl v'\<rparr>)" using v'(1) by simp
  with Some show ?thesis by (rule that(2))
qed

lemma label_ttl:
  "label_tcp_forward pkt (v\<lparr>ttl := t\<rparr>) = label_tcp_forward pkt v" "label_tcp_reverse pkt (v\<lparr>ttl := t\<rparr>) = label_tcp_reverse pkt v"
  "ct_direction (v\<lparr>ttl := t\<rparr>) ir pr = ct_direction v ir pr"
  unfolding label_tcp_forward_def label_tcp_reverse_def ct_direction_def by (simp_all cong: if_cong)

lemma label_ignores_ttl:
  assumes s: "same_but_ttl c c'"
  shows "ConntrackLabel_label c f pkt = ConntrackLabel_label c' f pkt"
proof -
  obtain k ir pr where k: "ct_key pkt = (k, ir, pr)" by (metis prod_cases3)
  have none: "c x = None \<longleftrightarrow> c' x = None" for x by (rule same_but_ttl_cases [OF s, of x]) auto
  have err: "label_icmp_error c f = label_icmp_error c' f" unfolding label_icmp_error_def none ..
  show ?thesis
    by (rule same_but_ttl_cases [OF s, of k])
      (simp_all add: ConntrackLabel_label_def label_tcp_def label_udp_def label_icmp_def k err label_ttl split: ct_dir.split)
qed

section \<open>Echo\<close>

text \<open>
  The parser does not write the ports of a packet that is neither TCP nor UDP, and the key of an ICMP packet has
  ports in it: those of the last packet that this CPU parsed.
\<close>

lemma stale_ports:
  assumes "Parser_headers f pkt0 = Headers p" "ip_protocol f \<noteq> TCP8" "ip_protocol f \<noteq> UDP8"
  shows "pk_srcPort p = pk_srcPort pkt0 \<and> pk_dstPort p = pk_dstPort pkt0 \<and> pk_l4proto p = ip_protocol f"
  using assms by (auto simp: Parser_headers_def parse_ip_def Let_def split: if_splits)

lemma icmp_error_not_established: "label_icmp_error c f \<noteq> Some (CT_ESTABLISHED, f')"
  by (auto simp: label_icmp_error_def Let_def split: prod.splits)

lemma track_echo:
  assumes "pk_l4proto p = ICMP8" "42 \<le> length f" "icmp_type f = ICMP_ECHO" "ct_key p = (k, ir, pr)" "c k = None"
  shows "track now f p c = Some (CT_NEW, c(k \<mapsto> \<lparr>ttl = now + ICMP_TIMEOUT, cstate = CT_NEW, ipRev = ir, portRev = pr, sequence = 0\<rparr>))"
  using assms by (simp add: track_def ConntrackLabel_label_def label_icmp_def ConntrackTableUpdate_rx_def update_icmp_def ct_insert_def new_entry_def)

text \<open>An answer is recognised if the ports left over at the answer are those left over at the request, swapped; and only then.\<close>

lemma echo_answer:
  assumes p: "pk_l4proto p = ICMP8" "42 \<le> length f" "icmp_type f = ICMP_ECHO"
    and q: "pk_l4proto q = ICMP8" "42 \<le> length g" "icmp_type g = ICMP_ECHOREPLY"
    and ips: "pk_srcIp q = pk_dstIp p" "pk_dstIp q = pk_srcIp p" "pk_srcIp p \<noteq> pk_dstIp p"
    and t: "track now f p Map.empty = Some (l, c)"
  shows "(\<exists>g'. ConntrackLabel_label c g q = Some (CT_ESTABLISHED, g')) \<longleftrightarrow> pk_srcPort q = pk_dstPort p \<and> pk_dstPort q = pk_srcPort p"
proof -
  obtain k ir pr where k: "ct_key p = (k, ir, pr)" by (metis prod_cases3)
  obtain k' ir' pr' where k': "ct_key q = (k', ir', pr')" by (metis prod_cases3)
  let ?v = "\<lparr>ttl = now + ICMP_TIMEOUT, cstate = CT_NEW, ipRev = ir, portRev = pr, sequence = 0\<rparr>"
  have c: "c = [k \<mapsto> ?v]" using track_echo [OF p k, of Map.empty now] t by simp
  have type: "ICMP_ECHOREPLY \<noteq> ICMP_ECHO" by (simp add: ICMP_ECHO_def ICMP_ECHOREPLY_def)
  have label: "ConntrackLabel_label c g q =
      (if k' \<noteq> k then Some (CT_INVALID, g) else if ct_direction ?v ir' pr' = Reverse then Some (CT_ESTABLISHED, g) else label_icmp_error c g)"
    using q type by (simp add: ConntrackLabel_label_def label_icmp_def k' c)
  have "(\<exists>g'. ConntrackLabel_label c g q = Some (CT_ESTABLISHED, g')) \<longleftrightarrow> k' = k \<and> ct_direction ?v ir' pr' = Reverse"
    unfolding label by (simp add: icmp_error_not_established)
  also have "\<dots> \<longleftrightarrow> k' = k \<and> ir' = (\<not> ir) \<and> pr' = (\<not> pr)" by (auto simp: ct_direction_cases)
  also have "\<dots> \<longleftrightarrow> five_tuple q = reversed (five_tuple p)"
  proof
    assume "k' = k \<and> ir' = (\<not> ir) \<and> pr' = (\<not> pr)"
    then show "five_tuple q = reversed (five_tuple p)" using ct_key_opposite [OF k, of q] k' by simp
  next
    assume "five_tuple q = reversed (five_tuple p)"
    from ct_key_reversed [OF k this ips(3)] show "k' = k \<and> ir' = (\<not> ir) \<and> pr' = (\<not> pr)" using k' by simp
  qed
  also have "\<dots> \<longleftrightarrow> pk_srcPort q = pk_dstPort p \<and> pk_dstPort q = pk_srcPort p" using p(1) q(1) ips(1,2) unfolding five_tuple_def reversed.simps by simp
  finally show ?thesis .
qed

end
