(* ===== verification/Fw_Stateful.thy ===== *)
theory Fw_Stateful
  imports Fw_Update Fw_Tcp
begin

text \<open>
  The whole firewall on a frame: the loaded programs run with the frame, the time and the table
  \<open>connections\<close>, so that the parser reads the headers, the label comes from the table and the last
  program writes to it. A run is shown to be the label, the verdict of the chain and the update, in this
  order; then whole histories of packets are considered.
\<close>

section \<open>Running the programs\<close>

text \<open>
  One program: the frame and the table after it, and how it ends. The parser and the two programs of
  the connection tracking are those of their own files, the others do not touch the frame or the table.
\<close>

fun full_rx :: "lpm_lookup \<Rightarrow> 64 word \<Rightarrow> packetHeaders \<Rightarrow> program \<Rightarrow> nat \<Rightarrow> elements \<Rightarrow> frame \<times> connections \<Rightarrow>
    (frame \<times> connections) \<times> tail" where
  "full_rx lpm now pkt (Parser nr he h ct) i s (f, c) =
     (case Parser_headers f pkt of
        Truncated p \<Rightarrow> ((f, c), Return RX_DROP)
      | NotIp \<Rightarrow> ((f, c), Return RX_OK)
      | Headers p \<Rightarrow> ((f, c), Parser_rx nr he h ct p s))"
| "full_rx lpm now pkt (ConntrackLabel mode) i s (f, c) =
     (case ConntrackLabel_label c f pkt of
        None \<Rightarrow> ((f, c), Return RX_DROP)
      | Some (l, f') \<Rightarrow> ((f', c), ConntrackLabel_rx mode (pkt\<lparr>pk_connStatus := ct_code l\<rparr>) s))"
| "full_rx lpm now pkt (ConntrackTableUpdate mode) i s (f, c) =
     (case ConntrackTableUpdate_rx mode now f pkt c of (v, p, c') \<Rightarrow> ((f, c'), Return v))"
| "full_rx lpm now pkt q i s m = (m, handle_rx lpm pkt q i s)"

function run_full :: "lpm_lookup \<Rightarrow> 64 word \<Rightarrow> kernel \<Rightarrow> nat \<Rightarrow> frame \<times> connections \<Rightarrow> tail \<Rightarrow> verdict \<times> connections" where
  "run_full lpm now k n m (Return v) = (v, snd m)"
| "run_full lpm now k 0 m (TailCall i pkt s fallback) = run_full lpm now k 0 m fallback"
| "run_full lpm now k (Suc n) m (TailCall i pkt s fallback) =
     (case k i of
        None \<Rightarrow> run_full lpm now k (Suc n) m fallback
      | Some q \<Rightarrow> (case full_rx lpm now pkt q i s m of (m', t) \<Rightarrow> run_full lpm now k n m' t))"
  by pat_completeness auto
termination
  by (relation "measures [\<lambda>(_, _, _, n, _, _). n, \<lambda>(_, _, _, _, _, t). size t]") auto

text \<open>A frame arrives: \<open>pkt0\<close> and \<open>s\<close> are what the last packet left in the per-CPU entries.\<close>

definition firewall_rx :: "lpm_lookup \<Rightarrow> chain \<Rightarrow> 64 word \<Rightarrow> packetHeaders \<Rightarrow> elements \<Rightarrow> frame \<Rightarrow> connections \<Rightarrow>
    verdict \<times> connections" where
  "firewall_rx lpm st now pkt0 s f c =
     run_full lpm now (kern st) MAX_TAIL_CALL_CNT (f, c) (TailCall PARSER pkt0 s (Return RX_DROP))"

section \<open>After the label\<close>

text \<open>The indexes a tail may call, the packets it passes on, and that it drops when no call succeeds.\<close>

fun calls :: "tail \<Rightarrow> nat set" where
  "calls (Return v) = {}"
| "calls (TailCall i pkt s fb) = insert i (calls fb)"

fun passes :: "packetHeaders \<Rightarrow> tail \<Rightarrow> bool" where
  "passes p (Return v) \<longleftrightarrow> v = RX_DROP"
| "passes p (TailCall i pkt s fb) \<longleftrightarrow> pkt = p \<and> passes p fb"

fun chain_program :: "program \<Rightarrow> bool" where
  "chain_program (Parser nr he h ct) = False"
| "chain_program (Horus f t ct) = False"
| "chain_program (ConntrackLabel mode) = False"
| "chain_program (ConntrackTableUpdate mode) = False"
| "chain_program _ = True"

lemma chain_program_passes: "chain_program q \<Longrightarrow> passes p (handle_rx lpm p q i s)"
  by (cases q) (auto simp: to_tail_def call_default_def BitScan_rx_def ActionLookup_rx_def ChainForwarder_rx_def DefaultAction_rx_def
      Let_def split: rx.splits scan_result.splits option.splits)

lemma chain_program_full: "chain_program q \<Longrightarrow> full_rx lpm now p q i s m = (m, handle_rx lpm p q i s)"
  by (cases q; cases m) simp_all

text \<open>
  A set of indexes that the programs at them do not leave, with the update program at its index and
  programs of the chain at the others.
\<close>

definition chain_calls :: "program \<Rightarrow> nat \<Rightarrow> nat set" where
  "chain_calls q i = {DEFAULTACTION, CONNTRACKTABLEUPDATE} \<union>
     (case q of ChainForwarder nr h \<Rightarrow> (if 0 < nr then {h} else {}) | DefaultAction a \<Rightarrow> {} | ActionLookup nr t \<Rightarrow> {}
      | FirewallCode \<Rightarrow> {} | _ \<Rightarrow> {i + 1})"

lemma chain_program_calls: "chain_program q \<Longrightarrow> calls (handle_rx lpm p q i s) \<subseteq> chain_calls q i"
  by (cases q) (auto simp: chain_calls_def to_tail_def call_default_def BitScan_rx_def ActionLookup_rx_def ChainForwarder_rx_def
      DefaultAction_rx_def Let_def split: rx.splits scan_result.splits option.splits if_splits)

definition closed :: "kernel \<Rightarrow> nat \<Rightarrow> nat set \<Rightarrow> bool" where
  "closed k mode R \<longleftrightarrow> k CONNTRACKTABLEUPDATE = Some (ConntrackTableUpdate mode) \<and>
     (\<forall>i \<in> R. \<forall>q. k i = Some q \<longrightarrow> i = CONNTRACKTABLEUPDATE \<or> chain_program q \<and> chain_calls q i \<subseteq> R)"

text \<open>The update program alone.\<close>

definition update_step :: "nat \<Rightarrow> 64 word \<Rightarrow> frame \<Rightarrow> packetHeaders \<Rightarrow> connections \<Rightarrow> verdict \<times> connections" where
  "update_step mode now f p c = (case ConntrackTableUpdate_rx mode now f p c of (v, p', c') \<Rightarrow> (v, c'))"

lemma run_full_closed:
  assumes cl: "closed k mode R" and "calls t \<subseteq> R" "passes p t"
  shows "run_full lpm now k n (f, c) t =
    (case run lpm k n t of RX_DROP \<Rightarrow> (RX_DROP, c) | RX_OK \<Rightarrow> update_step mode now f p c)"
  using assms(2,3)
proof (induction n arbitrary: t)
  case 0
  then show ?case by (induction t) simp_all
next
  case (Suc n)
  show ?case
    using Suc.prems
  proof (induction t)
    case (TailCall i pkt s fb)
    then have p: "pkt = p" and i: "i \<in> R" by simp_all
    show ?case
    proof (cases "k i")
      case None
      then show ?thesis using TailCall by simp
    next
      case (Some q)
      show ?thesis
      proof (cases "i = CONNTRACKTABLEUPDATE")
        case True
        then have "q = ConntrackTableUpdate mode" using Some cl by (simp add: closed_def)
        then show ?thesis using Some by (simp add: p update_step_def split: prod.split)
      next
        case False
        then have q: "chain_program q" "chain_calls q i \<subseteq> R" using Some i cl by (auto simp: closed_def)
        have "calls (handle_rx lpm p q i s) \<subseteq> R" using chain_program_calls [OF q(1)] q(2) by (rule order_trans)
        from Suc.IH [OF this chain_program_passes [OF q(1)]] show ?thesis
          using Some by (simp add: p chain_program_full [OF q(1)])
      qed
    qed
  qed simp
qed

text \<open>The programs of a loaded chain, with those that every chain shares, are closed.\<close>

lemma layout_programs: "sp \<in> set (chain_layout rules t) \<Longrightarrow> chain_program (snd sp)"
  by (auto simp: chain_layout_def set_match_layout chain_modules_def Let_def split: prod.splits)

definition chain_indexes :: "nat \<Rightarrow> ChainRule list \<Rightarrow> nat set" where
  "chain_indexes start rules = {CHAINFORWARDER, DEFAULTACTION, CONNTRACKTABLEUPDATE} \<union>
     {start..<start + length (match_layout rules) + 2}"

lemma chain_closed:
  assumes ready: "chain_ready k act start rules" and start: "NR_INITIAL_MODULES \<le> start"
    and upd: "k CONNTRACKTABLEUPDATE = Some (ConntrackTableUpdate mode)"
  shows "closed k mode (chain_indexes start rules)"
proof -
  obtain es where es: "chain_loaded k start (chain_layout rules (action_table es))" using ready by (auto simp: chain_ready_def)
  let ?ps = "chain_layout rules (action_table es)"
  have len: "length ?ps = length (match_layout rules) + 2" by (simp add: chain_layout_def)
  have low: "k CHAINFORWARDER = Some (ChainForwarder (nr_elements rules) start)" "k DEFAULTACTION = Some (DefaultAction act)"
    using ready by (simp_all add: chain_ready_def tail_loaded_def)
  have "chain_program q \<and> chain_calls q i \<subseteq> chain_indexes start rules"
    if "i \<in> chain_indexes start rules" "k i = Some q" "i \<noteq> CONNTRACKTABLEUPDATE" for i q
  proof -
    consider "i = CHAINFORWARDER" | "i = DEFAULTACTION" | j where "i = start + j" "j < length ?ps"
    proof (cases "start \<le> i \<and> i < start + length ?ps")
      case True
      then have "i = start + (i - start)" "i - start < length ?ps" by linarith+
      then show thesis by (rule that(3))
    next
      case False
      then show thesis using that \<open>i \<in> chain_indexes start rules\<close> \<open>i \<noteq> CONNTRACKTABLEUPDATE\<close> len by (auto simp: chain_indexes_def)
    qed
    then show ?thesis
    proof cases
      case 3
      then have q: "q = snd (?ps ! j)" using es that(2) by (simp add: chain_loaded_def)
      have prog: "chain_program q" using layout_programs [OF nth_mem [OF 3(2)]] by (simp add: q)
      show ?thesis
      proof (cases "j = length (match_layout rules) + 1")
        case True
        then have "q = ActionLookup (nr_elements rules) (action_table es)" by (simp add: q chain_layout_def nth_append)
        then show ?thesis by (simp add: chain_calls_def chain_indexes_def)
      next
        case False
        then have "j + 1 < length ?ps" using 3(2) len by simp
        then have "i + 1 \<in> chain_indexes start rules" using 3(1) len by (simp add: chain_indexes_def)
        moreover have "\<not> (\<exists>nr h. q = ChainForwarder nr h)"
        proof -
          have "?ps ! j \<in> set ?ps" using 3(2) by (rule nth_mem)
          then show ?thesis
            by (auto simp: q chain_layout_def set_match_layout chain_modules_def Let_def split: prod.splits)
        qed
        ultimately show ?thesis using prog
          by (auto simp: chain_calls_def chain_indexes_def split: program.splits)
      qed
    qed (use low that(2) in \<open>auto simp: chain_calls_def chain_indexes_def split: if_splits\<close>)
  qed
  then show ?thesis using upd by (auto simp: closed_def)
qed

section \<open>A whole run\<close>

text \<open>The programs of the connection tracking do not look at the forwarding decision.\<close>

lemma label_forwarding [simp]:
  "ConntrackLabel_label c f (p\<lparr>pk_forwardingDecision := d\<rparr>) = ConntrackLabel_label c f p"
  unfolding ConntrackLabel_label_def label_tcp_def label_udp_def label_icmp_def label_tcp_forward_def label_tcp_reverse_def label_tcp_miss_def
  by (simp cong: if_cong option.case_cong prod.case_cong ct_dir.case_cong)

lemma update_forwarding [simp]:
  "update_step mode now f (p\<lparr>pk_forwardingDecision := d\<rparr>) c = update_step mode now f p c"
proof -
  let ?p = "p\<lparr>pk_forwardingDecision := d\<rparr>"
  have late: "tcp_late now ?p v = tcp_late now p v" for v
    unfolding tcp_late_def tcp_fin_wait_2_def by (simp cong: if_cong)
  have dir: "tcp_forward now ?p v = tcp_forward now p v" "tcp_reverse now ?p v = tcp_reverse now p v" for v
    unfolding tcp_forward_def tcp_reverse_def by (simp_all add: late cong: if_cong)
  have miss: "tcp_miss now ?p c = tcp_miss now p c" "new_entry t ?p = new_entry t p" for t
    unfolding tcp_miss_def new_entry_def by (simp_all cong: if_cong prod.case_cong)
  have "snd (update_tcp now ?p c) = snd (update_tcp now p c)"
    unfolding update_tcp_def by (simp add: dir miss split: prod.split option.split ct_dir.split tcp_out.split)
  moreover have "update_udp now ?p c = update_udp now p c" "update_icmp now f ?p c = update_icmp now f p c"
    unfolding update_udp_def update_icmp_def by (simp_all add: miss cong: if_cong prod.case_cong)
  ultimately show ?thesis
    by (auto simp: update_step_def ConntrackTableUpdate_rx_def split: prod.splits option.splits)
qed

lemma update_step_mode: "mode \<noteq> 0 \<Longrightarrow> update_step mode = update_step 1"
  by (simp add: fun_eq_iff update_step_def ConntrackTableUpdate_rx_def)

text \<open>What happens to a packet whose headers have been read: its label, the programs after it, the update.\<close>

definition labelled_run :: "nat \<Rightarrow> 64 word \<Rightarrow> (packetHeaders \<Rightarrow> verdict) \<Rightarrow> packetHeaders \<Rightarrow> frame \<Rightarrow> connections \<Rightarrow>
    verdict \<times> connections" where
  "labelled_run mode now decide p f c =
     (case ConntrackLabel_label c f p of
        None \<Rightarrow> (RX_DROP, c)
      | Some (l, f') \<Rightarrow>
          (case decide (p\<lparr>pk_connStatus := ct_code l\<rparr>) of
             RX_DROP \<Rightarrow> (RX_DROP, c)
           | RX_OK \<Rightarrow> update_step mode now f' (p\<lparr>pk_connStatus := ct_code l\<rparr>) c))"

lemma labelled_run_mode:
  assumes "mode \<noteq> 0" shows "labelled_run mode = labelled_run 1"
  unfolding fun_eq_iff labelled_run_def update_step_mode [OF assms] by simp

lemma labelled_run_cong:
  "(\<And>x. decide (p\<lparr>pk_connStatus := x\<rparr>) = decide' (p\<lparr>pk_connStatus := x\<rparr>)) \<Longrightarrow>
    labelled_run mode now decide p f c = labelled_run mode now decide' p f c"
  by (auto simp: labelled_run_def simp del: ct_code.simps split: option.split)

lemma labelled_forwarding:
  "labelled_run mode now decide (p\<lparr>pk_forwardingDecision := d\<rparr>) f c =
    labelled_run mode now (\<lambda>q. decide (q\<lparr>pk_forwardingDecision := d\<rparr>)) p f c"
proof -
  have e: "p\<lparr>pk_forwardingDecision := d, pk_connStatus := x\<rparr> = p\<lparr>pk_connStatus := x, pk_forwardingDecision := d\<rparr>" for x by simp
  show ?thesis unfolding labelled_run_def label_forwarding e update_forwarding ..
qed

lemma full_label:
  assumes cl: "closed k mode (chain_indexes start rules)" and lab: "k CONNTRACKLABEL = Some (ConntrackLabel m)"
  shows "run_full lpm now k (Suc n) (f, c) (TailCall CONNTRACKLABEL p s fb) =
    labelled_run mode now (\<lambda>q. run lpm k (Suc n) (TailCall CONNTRACKLABEL q s fb)) p f c"
proof (cases "ConntrackLabel_label c f p")
  case (Some r)
  obtain l f' where r: "r = (l, f')" by fastforce
  let ?p = "p\<lparr>pk_connStatus := ct_code l\<rparr>"
  have "calls (ConntrackLabel_rx m ?p s) \<subseteq> chain_indexes start rules" "passes ?p (ConntrackLabel_rx m ?p s)"
    by (simp_all add: ConntrackLabel_rx_def chain_indexes_def)
  from run_full_closed [OF cl this] show ?thesis by (simp add: lab labelled_run_def Some r del: ct_code.simps)
qed (simp add: lab labelled_run_def)

text \<open>
  One run is three steps: the label from the table, the verdict of the loaded programs on the labelled packet,
  and, if that is to let it pass, the update of the table.
\<close>

lemma firewall_rx_steps:
  assumes ok: "fw_ok e st" and sy: "synced e st" and ct: "getConntrack_ON st"
  shows "firewall_rx lpm st now pkt0 s f c =
    (case Parser_headers f pkt0 of
       Truncated p \<Rightarrow> (RX_DROP, c)
     | NotIp \<Rightarrow> (RX_OK, c)
     | Headers p \<Rightarrow> labelled_run 1 now (\<lambda>q. packet_verdict lpm st q s) p f c)"
proof -
  let ?k = "kern st"
  have base: "base_ok e st" and on: "conntrackMode st \<noteq> 0" using ok ct by (simp_all add: fw_ok_def getConntrack_ON_def)
  obtain start where start: "NR_INITIAL_MODULES \<le> start" "chain_ready ?k (defaultAction st) start (ch_rules st)"
    using sy by (auto simp: synced_def)
  obtain mode where mode: "?k CONNTRACKTABLEUPDATE = Some (ConntrackTableUpdate mode)" "mode \<noteq> 0"
    using base on by (auto simp: base_ok_def)
  have lab: "?k CONNTRACKLABEL = Some (ConntrackLabel (conntrackMode st))" using base on by (simp add: base_ok_def)
  let ?h = "horus_slot (horus_swap st)"
  have par: "?k PARSER = Some (Parser (nr_elements (ch_rules st)) (horus_runtime_enabled st) ?h True)"
    using sy ct by (simp add: synced_def Parser_getCode_def)
  note L = full_label [OF chain_closed [OF start(2,1) mode(1)] lab, unfolded labelled_run_mode [OF mode(2)]]
  have call: "run_full lpm now ?k (Suc n) m (TailCall i p s' fb) = (case full_rx lpm now p q i s' m of (m', t) \<Rightarrow> run_full lpm now ?k n m' t)"
    "run lpm ?k (Suc n) (TailCall i p s' fb) = run lpm ?k n (handle_rx lpm p q i s')" if "?k i = Some q" for i q n m p s' fb
    using that by simp_all
  show ?thesis
  proof (cases "Parser_headers f pkt0")
    case (Headers p)
    let ?s = "all_ones (nr_elements (ch_rules st)) @ drop (nr_elements (ch_rules st)) s"
    show ?thesis
    proof (cases "horus_runtime_enabled st")
      case True
      then obtain fields table where h: "?k ?h = Some (Horus fields table True)"
        using sy ct by (auto simp: synced_def horus_synced_def)
      have drop: "labelled_run mode now (\<lambda>q. RX_DROP) p f c = (RX_DROP, c)" for mode
        by (simp add: labelled_run_def split: option.split)
      have hs: "Horus_rx fields table (p\<lparr>pk_connStatus := x\<rparr>) = Horus_rx fields table p" for x
        by (simp add: Horus_rx_def packet_key_def)
      let ?whole = "\<lambda>n q. run lpm ?k (Suc (Suc (Suc n))) (TailCall PARSER q s (Return RX_DROP))"
      let ?rest = "\<lambda>n d q. run lpm ?k (Suc n) (TailCall CONNTRACKLABEL (q\<lparr>pk_forwardingDecision := d\<rparr>) ?s (Return RX_DROP))"
      have "run_full lpm now ?k (Suc (Suc (Suc n))) (f, c) (TailCall PARSER pkt0 s (Return RX_DROP)) =
          labelled_run 1 now (?whole n) p f c" for n
      proof (cases "Horus_rx fields table p")
        case HorusDrop
        then have "labelled_run 1 now (?whole n) p f c = labelled_run 1 now (\<lambda>q. RX_DROP) p f c"
          by (intro labelled_run_cong) (simp add: call [OF par] call [OF h] Parser_rx_def Let_def Horus_tail_def hs True del: run.simps(3))
        then show ?thesis using HorusDrop by (simp add: par h Headers Parser_rx_def Let_def Horus_tail_def drop True)
      next
        case HorusAccept
        then have "labelled_run 1 now (?whole n) p f c = labelled_run 1 now (?rest n FORWARDING_PASS_LABELING) p f c"
          by (intro labelled_run_cong) (simp add: call [OF par] call [OF h] Parser_rx_def Let_def Horus_tail_def hs True del: run.simps(3))
        then show ?thesis using HorusAccept
          by (simp add: call [OF par] call [OF h] Headers True Parser_rx_def Let_def Horus_tail_def L labelled_forwarding
              del: One_nat_def run_full.simps(3) run.simps(3))
      next
        case HorusPipeline
        then have "labelled_run 1 now (?whole n) p f c = labelled_run 1 now (?rest n FORWARDING_NOT_SET) p f c"
          by (intro labelled_run_cong) (simp add: call [OF par] call [OF h] Parser_rx_def Let_def Horus_tail_def hs True del: run.simps(3))
        then show ?thesis using HorusPipeline
          by (simp add: call [OF par] call [OF h] Headers True Parser_rx_def Let_def Horus_tail_def L labelled_forwarding
              del: One_nat_def run_full.simps(3) run.simps(3))
      qed
      from this [of 29] show ?thesis by (simp add: firewall_rx_def packet_verdict_def MAX_TAIL_CALL_CNT_def Headers)
    next
      case False
      have "run_full lpm now ?k (Suc (Suc n)) (f, c) (TailCall PARSER pkt0 s (Return RX_DROP)) =
          labelled_run 1 now (\<lambda>q. run lpm ?k (Suc (Suc n)) (TailCall PARSER q s (Return RX_DROP))) p f c" for n
        by (simp add: call [OF par] Headers False Parser_rx_def Let_def L labelled_forwarding
            del: One_nat_def run_full.simps(3) run.simps(3))
      from this [of 30] show ?thesis by (simp add: firewall_rx_def packet_verdict_def MAX_TAIL_CALL_CNT_def Headers)
    qed
  next
    case (Truncated p)
    have "run_full lpm now ?k (Suc n) (f, c) (TailCall PARSER pkt0 s (Return RX_DROP)) = (RX_DROP, c)" for n
      by (simp add: par Truncated)
    from this [of 31] show ?thesis by (simp add: firewall_rx_def MAX_TAIL_CALL_CNT_def Truncated)
  next
    case NotIp
    have "run_full lpm now ?k (Suc n) (f, c) (TailCall PARSER pkt0 s (Return RX_DROP)) = (RX_OK, c)" for n
      by (simp add: par NotIp)
    from this [of 31] show ?thesis by (simp add: firewall_rx_def MAX_TAIL_CALL_CNT_def NotIp)
  qed
qed

section \<open>Histories\<close>

text \<open>
  An accepted packet as it reached the last program, with the direction of the firewall that accepted it and
  the shared vector it started from. The table is the same for the two directions.
\<close>

record passed =
  by_chain :: chain
  by_shared :: elements
  by_packet :: packetHeaders
  by_label :: ct_state

definition conntrack_ready :: "env \<Rightarrow> chain \<Rightarrow> bool" where
  "conntrack_ready e st \<longleftrightarrow> fw_ok e st \<and> synced e st \<and> getConntrack_ON st"

text \<open>
  Any sequence of frames, through chains that may be reconfigured in between, and of entries the kernel evicts
  from the table (it is an LRU map). The entry \<open>packet\<close> and the shared vector are arbitrary before each frame.
\<close>

inductive history :: "lpm_lookup \<Rightarrow> env \<Rightarrow> passed list \<Rightarrow> connections \<Rightarrow> bool" for lpm e where
  start: "history lpm e [] Map.empty"
| evict: "history lpm e h c \<Longrightarrow> c' \<subseteq>\<^sub>m c \<Longrightarrow> history lpm e h c'"
| dropped: "history lpm e h c \<Longrightarrow> conntrack_ready e st \<Longrightarrow> shared_vector s \<Longrightarrow>
     firewall_rx lpm st now pkt0 s f c = (RX_DROP, c') \<Longrightarrow> history lpm e h c'"
| not_ip: "history lpm e h c \<Longrightarrow> conntrack_ready e st \<Longrightarrow> shared_vector s \<Longrightarrow> Parser_headers f pkt0 = NotIp \<Longrightarrow>
     firewall_rx lpm st now pkt0 s f c = (RX_OK, c') \<Longrightarrow> history lpm e h c'"
| accepted: "history lpm e h c \<Longrightarrow> conntrack_ready e st \<Longrightarrow> shared_vector s \<Longrightarrow> Parser_headers f pkt0 = Headers p \<Longrightarrow>
     ConntrackLabel_label c f p = Some (l, f') \<Longrightarrow> firewall_rx lpm st now pkt0 s f c = (RX_OK, c') \<Longrightarrow>
     history lpm e (\<lparr>by_chain = st, by_shared = s, by_packet = p\<lparr>pk_connStatus := ct_code l\<rparr>, by_label = l\<rparr> # h) c'"

text \<open>A drop changes nothing; an accepted packet changes the table by the update program.\<close>

lemma update_drop: "update_step mode now f p c = (RX_DROP, c') \<Longrightarrow> c' = c"
  by (auto simp: update_step_def ConntrackTableUpdate_rx_def split: prod.splits if_splits option.splits)

lemma drop_keeps_table:
  assumes "conntrack_ready e st" "firewall_rx lpm st now pkt0 s f c = (RX_DROP, c')"
  shows "c' = c"
  using assms firewall_rx_steps [of e st lpm now pkt0 s f c] update_drop
  by (auto simp: conntrack_ready_def labelled_run_def split: parsed.splits option.splits verdict.splits)

lemma accepted_run:
  assumes "conntrack_ready e st" "Parser_headers f pkt0 = Headers p" "ConntrackLabel_label c f p = Some (l, f')"
    and "firewall_rx lpm st now pkt0 s f c = (RX_OK, c')"
  shows "packet_verdict lpm st (p\<lparr>pk_connStatus := ct_code l\<rparr>) s = RX_OK \<and>
    update_step 1 now f' (p\<lparr>pk_connStatus := ct_code l\<rparr>) c = (RX_OK, c')"
  using assms firewall_rx_steps [of e st lpm now pkt0 s f c]
  by (auto simp: conntrack_ready_def labelled_run_def simp del: ct_code.simps split: verdict.splits)

lemma update_step_rx: "update_step mode now f p c = (v, c') \<Longrightarrow> \<exists>p'. ConntrackTableUpdate_rx mode now f p c = (v, p', c')"
  by (auto simp: update_step_def split: prod.splits)

lemma track_step:
  assumes "track now f p c = Some (l, c')"
  shows "\<exists>f'. ConntrackLabel_label c f p = Some (l, f') \<and> update_step 1 now f' (p\<lparr>pk_connStatus := ct_code l\<rparr>) c = (RX_OK, c')"
  using assms by (auto simp: track_def update_step_def simp del: ct_code.simps split: option.splits prod.splits verdict.splits)

text \<open>The packet an entry comes from: accepted, labelled \<open>NEW\<close>, of the connection and direction of the entry.\<close>

definition opened_by :: "ct_k \<Rightarrow> ct_v \<Rightarrow> passed \<Rightarrow> bool" where
  "opened_by k v b \<longleftrightarrow> by_label b = CT_NEW \<and> ct_key (by_packet b) = (k, ipRev v, portRev v)"

definition history_inv :: "passed list \<Rightarrow> connections \<Rightarrow> bool" where
  "history_inv h c \<longleftrightarrow> table_ok c \<and> (\<forall>k v. c k = Some v \<longrightarrow> (\<exists>b \<in> set h. opened_by k v b))"

lemma history_table: "history lpm e h c \<Longrightarrow> history_inv h c"
proof (induction rule: history.induct)
  case start
  then show ?case by (simp add: history_inv_def table_ok_def)
next
  case (evict h c c')
  have "c k = Some v" if "c' k = Some v" for k v using evict(2) that by (auto simp: map_le_def dom_def)
  then show ?case using evict(3) by (auto simp: history_inv_def table_ok_def)
next
  case (dropped h c st s now pkt0 f c')
  then show ?case using drop_keeps_table by blast
next
  case (not_ip h c st s f pkt0 now c')
  then show ?case using firewall_rx_steps [of e st lpm now pkt0 s f c] by (simp add: conntrack_ready_def)
next
  case (accepted h c st s f pkt0 p l f' now c')
  let ?b = "\<lparr>by_chain = st, by_shared = s, by_packet = p\<lparr>pk_connStatus := ct_code l\<rparr>, by_label = l\<rparr>"
  note l = accepted(5) and inv = accepted(7)
  obtain p' where u: "ConntrackTableUpdate_rx 1 now f' (p\<lparr>pk_connStatus := ct_code l\<rparr>) c = (RX_OK, p', c')"
    using accepted_run [OF accepted(2,4,5,6)] update_step_rx by blast
  have "\<exists>b \<in> set (?b # h). opened_by k v b" if e: "c' k = Some v" for k v
    using update_entry [OF l u e]
  proof
    assume "entry_from c k v"
    then obtain v0 where "c k = Some v0" "ipRev v = ipRev v0" "portRev v = portRev v0" by (auto simp: entry_from_def)
    then show ?thesis using inv by (fastforce simp: history_inv_def opened_by_def)
  next
    assume "entry_new p l k v"
    then have "opened_by k v ?b" by (simp add: entry_new_def opened_by_def del: ct_code.simps)
    then show ?thesis by simp
  qed
  moreover have "table_ok c'" using update_table_ok [OF _ l u] inv by (simp add: history_inv_def)
  ultimately show ?case by (simp add: history_inv_def)
qed

text \<open>Every packet of a history was let through by the loaded programs of its chain.\<close>

definition passed_ok :: "lpm_lookup \<Rightarrow> env \<Rightarrow> passed \<Rightarrow> bool" where
  "passed_ok lpm e b \<longleftrightarrow> conntrack_ready e (by_chain b) \<and> shared_vector (by_shared b) \<and>
     pk_connStatus (by_packet b) = ct_code (by_label b) \<and>
     packet_verdict lpm (by_chain b) (by_packet b) (by_shared b) = RX_OK"

lemma history_passed: "history lpm e h c \<Longrightarrow> list_all (passed_ok lpm e) h"
proof (induction rule: history.induct)
  case (accepted h c st s f pkt0 p l f' now c')
  then show ?case using accepted_run [OF accepted(2,4,5,6)] by (simp add: passed_ok_def del: ct_code.simps)
qed simp_all

text \<open>
  A packet labelled \<open>ESTABLISHED\<close> has, before it, a packet labelled \<open>NEW\<close> of the same connection, in one
  direction or the other, that the firewall accepted.
\<close>

definition same_connection :: "packetHeaders \<Rightarrow> packetHeaders \<Rightarrow> bool" where
  "same_connection p q \<longleftrightarrow> five_tuple q = five_tuple p \<or> five_tuple q = reversed (five_tuple p)"

lemma opened_by_connection:
  assumes "ct_key p = (k, ir, pr)" "opened_by k v b"
    and "ipRev v = ir \<and> portRev v = pr \<or> ipRev v = (\<not> ir) \<and> portRev v = (\<not> pr)"
  shows "same_connection p (by_packet b)"
  using assms ct_key_same [of "by_packet b" p] ct_key_opposite [of p k ir pr "by_packet b"]
  by (auto simp: opened_by_def same_connection_def)

lemma established_opened:
  assumes h: "history lpm e h c" and l: "ConntrackLabel_label c f p = Some (CT_ESTABLISHED, f')"
  shows "\<exists>b \<in> set h. by_label b = CT_NEW \<and> same_connection p (by_packet b) \<and> passed_ok lpm e b"
proof -
  obtain k ir pr where k: "ct_key p = (k, ir, pr)" by (metis prod_cases3)
  obtain v where v: "c k = Some v" "ipRev v = ir \<and> portRev v = pr \<or> ipRev v = (\<not> ir) \<and> portRev v = (\<not> pr)"
    using established_entry [OF l] by (auto simp: has_entry_def k)
  obtain b where b: "b \<in> set h" "opened_by k v b" using history_table [OF h] v(1) by (auto simp: history_inv_def)
  moreover have "passed_ok lpm e b" using history_passed [OF h] b(1) by (simp add: list_all_iff)
  ultimately show ?thesis using opened_by_connection [OF k b(2) v(2)] by (auto simp: opened_by_def)
qed

text \<open>
  That packet was not accepted automatically: the mitigator or the rules of its chain let it through, and it was the rules
  when the mitigator agrees with them.
\<close>

definition decided :: "lpm_lookup \<Rightarrow> chain \<Rightarrow> packetHeaders \<Rightarrow> bool" where
  "decided lpm st p \<longleftrightarrow> length (ch_rules st) < maxRules \<and> chain_wf lpm (ch_rules st) p"

definition exact_rules :: "lpm_lookup \<Rightarrow> chain \<Rightarrow> packetHeaders \<Rightarrow> bool" where
  "exact_rules lpm st p \<longleftrightarrow> decided lpm st p \<and> mitigator_exact st p"

lemma new_not_automatic: "pk_connStatus p = ct_code CT_NEW \<Longrightarrow> \<not> automatic st p"
  by (simp add: automatic_def)

lemma passed_by_decision:
  assumes b: "passed_ok lpm e b" and x: "decided lpm (by_chain b) (by_packet b)"
  shows "chain_decision e (by_chain b) (by_packet b) = RX_OK"
  using b x synced_decides [of e "by_chain b" lpm "by_packet b" "by_shared b"]
  by (simp add: passed_ok_def decided_def conntrack_ready_def)

lemma passed_by_rules:
  assumes b: "passed_ok lpm e b" "by_label b = CT_NEW" and x: "exact_rules lpm (by_chain b) (by_packet b)"
  shows "first_match (defaultAction (by_chain b)) (rule_matches (by_packet b)) (ch_rules (by_chain b)) = RX_OK"
  using b x new_not_automatic [of "by_packet b"] synced_verdict [of e "by_chain b" lpm "by_packet b" "by_shared b"]
  by (simp add: passed_ok_def exact_rules_def decided_def conntrack_ready_def)

end
