(* ===== verification/Fw_Example.thy ===== *)
theory Fw_Example
  imports Fw_Service Fw_Stateful
begin

text \<open>
  A concrete firewall, rule and packets, at which the theorems are applied.
\<close>

section \<open>An example\<close>

text \<open>The firewall used to witness the theorems: every program compiles, the panel is new.\<close>

definition ex_env :: env where
  "ex_env = \<lparr>hook = TC, compiles = (\<lambda>_. True),
     stack_key = \<lparr>hr_src_ip = 0, hr_dst_ip = 0, hr_l4proto = 0, hr_src_port = 0, hr_dst_port = 0, hr_setFields = 0\<rparr>,
     stack_value = \<lparr>hv_action = 0, hv_ruleID = 0\<rparr>\<rparr>"

definition ex_new :: chain where
  "ex_new = Firewall_new ex_env INGRESS PatchPanel"

definition ex_fw :: chain where
  "ex_fw = serve ex_env DeleteAll ex_new"

text \<open>Two rules: TCP to port 80 of a host from another, and nothing else from that one.\<close>

definition ex_conf :: ChainRuleConf where
  "ex_conf = empty_conf\<lparr>cf_src := Some (IpAddr_toString (IpAddr 0x0100000A 32)), cf_l4proto := Some ''TCP'', cf_dport := Some 80, cf_action := Some DROP\<rparr>"

definition ex_rule :: "nat \<Rightarrow> ChainRule" where
  "ex_rule i = empty_rule\<lparr>rid := i, ipSrc := Some (IpAddr 0x0100000A 32), l4Proto := Some 6, dstPort := Some 80, action := Some DROP\<rparr>"

lemma ex_compiles [simp]: "compiles ex_env p" "\<forall>p. compiles ex_env p"
  by (simp_all add: ex_env_def)

lemma ex_room: "panel_room ex_env PatchPanel"
  by (simp add: panel_room_def PatchPanel_inv PatchPanel_room)

lemma ex_new_ok: "fw_ok ex_env ex_new" "conntrackMode ex_new = 2" "ch_rules ex_new = []" "ch_counters ex_new = []"
    "is_single_op_on_chain ex_new" "defaultAction ex_new = ACCEPT" "horus_enabled ex_new"
  using Firewall_new_ok [OF ex_room ex_compiles(2), of INGRESS] by (simp_all add: ex_new_def)

lemma ex_fw_ok: "serving ex_env ex_fw" "config_of ex_fw = (ACCEPT, [])" "conntrackMode ex_fw = 2" "horus_enabled ex_fw"
  using new_serving [OF ex_room ex_compiles(2), of INGRESS] by (simp_all add: ex_fw_def ex_new_def)

lemma ex_conf_rule: "ChainRule_new b (ex_conf\<lparr>cf_id := i\<rparr>) = Inr (ex_rule i)"
  by (simp add: ChainRule_new_def ChainRule_update_def when_set_def ex_conf_def empty_conf_def IpAddr_print_parse
      protocol_from_string_to_int_def IPPROTO_defs ex_rule_def empty_rule_def)

lemma ex_rule_ok: "rule_ok (ex_rule i)" "rid (ex_rule i) = i" "action (ex_rule i) = Some DROP" "plain_rule (ex_rule i)"
    "horus_exact pkt (ex_rule i) \<longleftrightarrow> pk_l4proto pkt = TCP8 \<or> pk_l4proto pkt = UDP8"
  by (simp_all add: ex_rule_def empty_rule_def rule_ok_def supported_protocol_def IPPROTO_defs plain_rule_def horus_exact_def)

lemma ex_rules_ok: "rules_ok [ex_rule 0]" "chain_ok [ex_rule 0]" "loadable [ex_rule 0]"
proof -
  show r: "rules_ok [ex_rule 0]" by (simp add: rules_ok_def ex_rule_ok)
  show c: "chain_ok [ex_rule 0]" using r by (simp add: chain_ok_rules maxRules_def)
  show "loadable [ex_rule 0]" by (rule loadable_small [OF c]) (simp_all add: lpm_capacity_def ex_rule_ok)
qed

text \<open>A packet of the connection the rule is about, and one to another port.\<close>

definition ex_pkt :: "16 word \<Rightarrow> packetHeaders" where
  "ex_pkt port = \<lparr>pk_srcIp = 0x0100000A, pk_dstIp = 0x0200000A, pk_l4proto = TCP8, pk_srcPort = ntohs 4000, pk_dstPort = ntohs port,
     pk_flags = 2, pk_seqN = 0, pk_ackN = 0, pk_connStatus = 0, pk_forwardingDecision = 0\<rparr>"

lemma ex_wf: "chain_wf lpm_scan [ex_rule 0] (ex_pkt port)"
  by (rule chain_wf_plain) (simp_all add: ex_rules_ok lpm_capacity_def ex_rule_ok lpm_scan_spec ex_pkt_def)

lemma ex_vector: "shared_vector zero_bitVector"
  by (simp add: shared_vector_def)

lemma ex_not_automatic: "\<not> automatic st (ex_pkt port)"
  by (simp add: automatic_def ex_pkt_def)

lemma ex_matches: "rule_matches (ex_pkt port) (ex_rule i) \<longleftrightarrow> port = 80"
  by (auto simp: rule_matches_def ex_pkt_def ex_rule_def empty_rule_def conntrack_matches_def ip_matches_def pk_ip_def
      proto_matches_def port_matches_def pk_port_def flags_matches_def rule_port_def TCP8_def UDP8_def cidr_match_def)

lemma ex_first_match: "first_match ACCEPT (rule_matches (ex_pkt 80)) [ex_rule 0] = RX_DROP"
    "first_match ACCEPT (rule_matches (ex_pkt 22)) [ex_rule 0] = RX_OK"
  by (simp_all add: first_match_def ex_matches ex_rule_ok default_verdict_def)

text \<open>The firewall after the rule has been appended.\<close>

definition ex_op :: batch_op where
  "ex_op = \<lparr>bo_operation = APPEND, bo_id = None, bo_conf = ex_conf\<rparr>"

definition ex_fw1 :: chain where
  "ex_fw1 = fst (append_rule ex_env ex_conf ex_fw)"

lemma ex_spec: "spec_op ex_op [] = Some [ex_rule 0]"
proof -
  have a: "cf_action ex_conf = Some DROP" by (simp add: ex_conf_def)
  have "renumber [ex_rule 0] = [ex_rule 0]" by (simp add: renumber_def ex_rule_def)
  then show ?thesis by (simp add: spec_op_def ex_op_def ex_conf_rule spec_replace_def a)
qed

lemma ex_fw1_installed: "\<exists>cs. append_rule ex_env ex_conf ex_fw = (ex_fw1, Inr 0) \<and> installed ex_env ex_fw [ex_rule 0] cs ex_fw1"
proof -
  have r: "ch_rules ex_fw = []" using ex_fw_ok(2) by (simp add: config_of_def)
  have s: "spec_replace 0 (ex_rule 0) [] = [ex_rule 0]" by (simp add: spec_replace_def renumber_def ex_rule_def)
  have ok: "fw_ok ex_env ex_fw" "countable ex_fw" "counters_ok ex_fw" using ex_fw_ok(1) r by (simp_all add: serving_def countable_def)
  have a: "cf_action ex_conf \<noteq> None" by (simp add: ex_conf_def)
  obtain st' cs where "append_rule ex_env ex_conf ex_fw = (st', Inr 0)" "installed ex_env ex_fw [ex_rule 0] cs st'"
    using append_rule_ok [OF ok ex_compiles(2), of 0 ex_conf "ex_rule 0"] a ex_conf_rule r s ex_rules_ok(3) by auto
  then show ?thesis by (auto simp: ex_fw1_def)
qed

lemma ex_fw1_ok: "serving ex_env ex_fw1" "ch_rules ex_fw1 = [ex_rule 0]" "defaultAction ex_fw1 = ACCEPT" "conntrackMode ex_fw1 = 2"
    "horus_enabled ex_fw1" "fw_ok ex_env ex_fw1" "synced ex_env ex_fw1" "counters_ok ex_fw1" "is_single_op_on_chain ex_fw1"
    "isContrackActive ex_fw1" "getConntrack_ON ex_fw1" "countable ex_fw1"
proof -
  obtain cs where I: "installed ex_env ex_fw [ex_rule 0] cs ex_fw1" using ex_fw1_installed by blast
  show "ch_rules ex_fw1 = [ex_rule 0]" "defaultAction ex_fw1 = ACCEPT" "conntrackMode ex_fw1 = 2" "horus_enabled ex_fw1"
    "fw_ok ex_env ex_fw1" "counters_ok ex_fw1" "serving ex_env ex_fw1" "synced ex_env ex_fw1" "is_single_op_on_chain ex_fw1"
    "isContrackActive ex_fw1" "getConntrack_ON ex_fw1" "countable ex_fw1"
    using I ex_fw_ok by (auto simp: installed_def serving_def config_of_def isContrackActive_def getConntrack_ON_def countable_def
        counter_places_def COUNTERS_SIZE_def horus_consts)
qed

text \<open>The mitigator holds the rule.\<close>

lemma ex_horus: "\<exists>m. horusFromRulesToMap key hval [ex_rule 0] = Inr m \<and> m \<noteq> []"
proof -
  have c: "conntrack (ex_rule 0) = None" by (simp add: ex_rule_def empty_rule_def)
  have "bit (rule_fields (ex_rule 0)) HL4PROTO"
    unfolding bit_rule_fields by (simp add: ex_rule_def empty_rule_def)
  then have f: "rule_fields (ex_rule 0) \<noteq> 0" by auto
  then have h: "hr_setFields (horus_rule key (ex_rule 0)) \<noteq> 0" by (simp add: horus_rule_def)
  have "horusFromRulesToMap key hval [ex_rule 0] =
      Inr [(horus_ord (horus_rule key (ex_rule 0)), (horus_rule key (ex_rule 0), horus_value (ex_rule 0)))]"
    using h by (simp add: horusFromRulesToMap_def fromRuleToHorusKeyValue_ok [OF ex_rule_ok(1)] c MAX_RULE_SIZE_FOR_HORUS_def)
  then show ?thesis by simp
qed

lemma ex_fw1_mitigator: "horus_runtime_enabled ex_fw1"
proof -
  have "rules_ok (ch_rules ex_fw1)" by (simp add: ex_fw1_ok ex_rules_ok)
  from horus_default_policy [OF this] show ?thesis
    using ex_fw1_ok(2,5,7) ex_horus [of "stack_key ex_env" "stack_value ex_env"] by (auto simp: synced_def horus_synced_def)
qed

text \<open>The firewall after connection tracking has been turned off and the chain loaded again.\<close>

definition ex_off :: chain where
  "ex_off = fst (updateChain ex_env (setConntrack ex_env OFF ex_fw1))"

lemma ex_off_ok: "fw_ok ex_env ex_off" "synced ex_env ex_off" "\<not> getConntrack_ON ex_off" "horus_runtime_enabled ex_off"
    "ch_rules ex_off = [ex_rule 0]" "counters_ok ex_off"
proof -
  note s = setConntrack_ok [OF ex_fw1_ok(6) ex_compiles(2), of OFF]
  have en: "horus_enabled (setConntrack ex_env OFF ex_fw1)" "ch_counters (setConntrack ex_env OFF ex_fw1) = ch_counters ex_fw1"
    using setConntrack_off [OF ex_fw1_ok(6) ex_compiles(2) ex_fw1_ok(11)] ex_fw1_ok(5) by auto
  obtain st' where st': "updateChain ex_env (setConntrack ex_env OFF ex_fw1) = (st', Inr ())" "fw_ok ex_env st'" "synced ex_env st'"
    "same_config (setConntrack ex_env OFF ex_fw1) st'"
    using updateChain_ok [OF s(1) ex_compiles(2)] ex_rules_ok(3) by (auto simp: s(3) ex_fw1_ok(2))
  then have off: "ex_off = st'" by (simp add: ex_off_def)
  show "fw_ok ex_env ex_off" "synced ex_env ex_off" using st' off by simp_all
  show "\<not> getConntrack_ON ex_off" using st'(4) s(2) by (simp add: off same_config_def getConntrack_ON_def)
  show r: "ch_rules ex_off = [ex_rule 0]" using st'(4) by (simp add: off same_config_def s(3) ex_fw1_ok(2))
  show "counters_ok ex_off" using st'(4) en ex_fw1_ok(2,8) by (simp add: off same_config_def counters_ok_def s(3))
  have e: "horus_enabled ex_off" using st'(4) en by (simp add: off same_config_def)
  have "rules_ok (ch_rules ex_off)" by (simp add: r ex_rules_ok)
  from horus_default_policy [OF this] show "horus_runtime_enabled ex_off"
    using r e st'(3) ex_horus [of "stack_key ex_env" "stack_value ex_env"] by (auto simp: off synced_def horus_synced_def)
qed

text \<open>A full table: more rules than the counters of the mitigator have places for.\<close>

definition ex_many :: chain where
  "ex_many = ex_fw1\<lparr>ch_rules := renumber (replicate 2049 (ex_rule 0))\<rparr>"

lemma ex_many_ok: "fw_ok ex_env ex_many" "counters_ok ex_many" "horus_runtime_enabled ex_many" "length (ch_rules ex_many) = 2049"
proof -
  have "list_all rule_ok (replicate 2049 (ex_rule 0))" by (simp add: list_all_iff ex_rule_ok)
  from fw_ok_rules [OF ex_fw1_ok(6) rules_ok_renumber [OF this], of "ch_counters ex_fw1"]
  show "fw_ok ex_env ex_many" by (simp add: ex_many_def)
  show "counters_ok ex_many" using ex_fw1_ok(2,8) by (simp add: counters_ok_def ex_many_def)
  show "horus_runtime_enabled ex_many" "length (ch_rules ex_many) = 2049" by (simp_all add: ex_many_def ex_fw1_mitigator)
qed

section \<open>A connection\<close>

text \<open>A TCP handshake to the port the rule is not about, with the frame that carries its first packet.\<close>

definition ex_syn :: "32 word \<Rightarrow> packetHeaders" where
  "ex_syn seq = (ex_pkt 22)\<lparr>pk_seqN := seq\<rparr>"

definition ex_answer :: "32 word \<Rightarrow> packetHeaders" where
  "ex_answer seq = (ex_pkt 22)\<lparr>pk_srcIp := pk_dstIp (ex_pkt 22), pk_dstIp := pk_srcIp (ex_pkt 22),
     pk_srcPort := pk_dstPort (ex_pkt 22), pk_dstPort := pk_srcPort (ex_pkt 22), pk_flags := SYN8 OR ACK8, pk_seqN := 7,
     pk_ackN := wire_succ seq\<rparr>"

definition ex_ack :: packetHeaders where
  "ex_ack = (ex_pkt 22)\<lparr>pk_flags := ACK8, pk_seqN := 1, pk_ackN := wire_succ 7\<rparr>"

definition ex_frame :: "packetHeaders \<Rightarrow> frame" where
  "ex_frame p = ip_frame (replicate 12 0) (replicate 9 0) (replicate 2 0) p (tcp_header p 0x50 (replicate 6 0))"

lemma ex_handshake: "handshake (ex_syn seq) (ex_answer seq) ex_ack"
  by (simp add: handshake_def ex_syn_def ex_answer_def ex_ack_def ex_pkt_def five_tuple_def SYN8_def)

lemma ex_key: obtains k ir pr where "ct_key (ex_syn seq) = (k, ir, pr)"
  by (metis prod_cases3)

lemma ex_octets: "octet (pk_seqN (ex_syn 0)) 3 \<noteq> 0xFF" "octet (pk_seqN (ex_answer seq)) 3 \<noteq> 0xFF"
  "octet (pk_seqN (ex_syn 0xFF000000)) 3 = 0xFF"
  by (simp_all add: octet_def ex_syn_def ex_answer_def)

lemma ex_parsed: "Parser_headers (ex_frame (ex_syn 0)) (ex_syn 0) = Headers (ex_syn 0)"
proof -
  have "Parser_headers (ex_frame (ex_syn 0)) (ex_syn 0) = Headers (ex_syn 0\<lparr>pk_connStatus := pk_connStatus (ex_syn 0), pk_forwardingDecision := 0\<rparr>)"
    unfolding ex_frame_def by (rule parse_tcp_frame) (simp_all add: ex_syn_def ex_pkt_def)
  then show ?thesis by (simp add: ex_syn_def ex_pkt_def)
qed

lemma ex_syn_0: "ex_syn 0 = ex_pkt 22" "ex_pkt 22\<lparr>pk_connStatus := ct_code CT_NEW\<rparr> = ex_pkt 22"
  by (simp_all add: ex_syn_def ex_pkt_def)

lemma ex_mitigator_exact: "mitigator_exact ex_fw1 (ex_pkt port)"
  by (simp add: mitigator_exact_def ex_fw1_ok ex_rule_ok) (simp add: ex_pkt_def)

lemma ex_verdict: "packet_verdict lpm_scan ex_fw1 (ex_pkt 22) zero_bitVector = RX_OK"
  using synced_verdict [OF ex_fw1_ok(6,7), of lpm_scan "ex_pkt 22" zero_bitVector] ex_fw1_ok ex_wf [of 22] ex_vector
    ex_not_automatic [of ex_fw1 22] ex_first_match ex_mitigator_exact
  by (simp add: maxRules_def)

lemma ex_ready: "conntrack_ready ex_env ex_fw1"
  by (simp add: conntrack_ready_def ex_fw1_ok)

lemma ex_exact: "exact_rules lpm_scan ex_fw1 (ex_pkt 22)"
  using ex_wf [of 22] ex_mitigator_exact [of 22] by (simp add: exact_rules_def decided_def ex_fw1_ok maxRules_def)

text \<open>The first packet goes through the firewall and leaves an entry; the answer is then labelled \<open>ESTABLISHED\<close>.\<close>

definition ex_passed :: passed where
  "ex_passed = \<lparr>by_chain = ex_fw1, by_shared = zero_bitVector, by_packet = ex_pkt 22, by_label = CT_NEW\<rparr>"

lemma ex_history:
  "\<exists>c f'. history lpm_scan ex_env [ex_passed] c \<and> ConntrackLabel_label c [] (ex_answer 0) = Some (CT_ESTABLISHED, f')"
proof -
  obtain k ir pr where k: "ct_key (ex_syn 0) = (k, ir, pr)" by (rule ex_key)
  let ?f = "ex_frame (ex_syn 0)"
  obtain c1 c2 where t: "track 0 ?f (ex_syn 0) Map.empty = Some (CT_NEW, c1)" "track 0 [] (ex_answer 0) c1 = Some (CT_ESTABLISHED, c2)"
    using handshake_tracked [OF ex_handshake k refl ex_octets(1,2), of 0 ?f 0 "[]"] by blast
  obtain f' where l: "ConntrackLabel_label Map.empty ?f (ex_syn 0) = Some (CT_NEW, f')"
      "update_step 1 0 f' (ex_syn 0\<lparr>pk_connStatus := ct_code CT_NEW\<rparr>) Map.empty = (RX_OK, c1)"
    using track_step [OF t(1)] by blast
  have "firewall_rx lpm_scan ex_fw1 0 (ex_syn 0) zero_bitVector ?f Map.empty = (RX_OK, c1)"
    using firewall_rx_steps [OF ex_fw1_ok(6,7,11), of lpm_scan 0 "ex_syn 0" zero_bitVector ?f Map.empty] l ex_verdict
    by (simp add: ex_parsed [unfolded ex_syn_0] labelled_run_def ex_syn_0 del: ct_code.simps One_nat_def)
  from history.accepted [OF history.start ex_ready ex_vector ex_parsed l(1) this]
  have "history lpm_scan ex_env [ex_passed] c1" by (simp add: ex_passed_def ex_syn_0 del: ct_code.simps)
  then show ?thesis using track_step [OF t(2)] by blast
qed


text \<open>An echo request and its answer, on a CPU that has seen no ports yet; \<open>back\<close> is the answer.\<close>

definition ex_icmp :: "bool \<Rightarrow> packetHeaders" where
  "ex_icmp back = (ex_pkt 22)\<lparr>pk_srcIp := (if back then 0x0200000A else 0x0100000A), pk_dstIp := (if back then 0x0100000A else 0x0200000A),
     pk_l4proto := ICMP8, pk_srcPort := 0, pk_dstPort := 0\<rparr>"

definition ex_echo :: "8 word \<Rightarrow> bool \<Rightarrow> frame" where
  "ex_echo type back = ip_frame (replicate 12 0) (replicate 9 0) (replicate 2 0) (ex_icmp back) (type # replicate 7 0)"

lemma ex_icmp_fields: "pk_l4proto (ex_icmp back) = ICMP8" "pk_srcIp (ex_icmp True) = pk_dstIp (ex_icmp False)"
  "pk_dstIp (ex_icmp True) = pk_srcIp (ex_icmp False)" "pk_srcIp (ex_icmp False) \<noteq> pk_dstIp (ex_icmp False)"
  "pk_srcPort (ex_icmp back) = 0" "pk_dstPort (ex_icmp back) = 0"
  by (simp_all add: ex_icmp_def)

lemma ex_echo_frame: "Parser_headers (ex_echo type back) (ex_icmp back) = Headers (ex_icmp back)" "42 \<le> length (ex_echo type back)"
  "icmp_type (ex_echo type back) = type" "ip_protocol (ex_echo type back) = ICMP8"
proof -
  have "length (replicate 12 (0 :: 8 word)) = 12" "length (replicate 9 (0 :: 8 word)) = 9" "length (replicate 2 (0 :: 8 word)) = 2" by simp_all
  note F = ip_frame_fields [OF this, of "ex_icmp back" "type # replicate 7 0", folded ex_echo_def]
    and P = parse_other_frame [OF this, of "ex_icmp back" "type # replicate 7 0", folded ex_echo_def]
  show "Parser_headers (ex_echo type back) (ex_icmp back) = Headers (ex_icmp back)"
    using P by (simp add: ex_icmp_fields) (simp add: ex_icmp_def ex_pkt_def)
  show l: "42 \<le> length (ex_echo type back)" unfolding F(1) by simp
  have "icmp_type (ex_echo type back) = drop 34 (ex_echo type back) ! 0" using l by (simp add: icmp_type_def)
  then show "icmp_type (ex_echo type back) = type" unfolding F(6) by simp
  show "ip_protocol (ex_echo type back) = ICMP8" unfolding F(3) by (rule ex_icmp_fields)
qed

end
