(* ===== verification/Fw_Session.thy ===== *)
theory Fw_Session
  imports Complex_Main Fw_Firewall Fw_Stateful
begin

text \<open>
  The session table the API shows (\<open>SessionTable.cpp\<close>, \<open>Firewall::getSessionTableList\<close>): the entries of
  \<open>connections\<close> in text. After any history of packets it can be shown; what it shows as source is the
  lower address and the lower port, and the time since the last packet is computed from two different clocks.
\<close>

section \<open>One entry\<close>

definition state_from_number_to_string :: "int \<Rightarrow> string result" where
  "state_from_number_to_string s =
     (if s = 0 then Inr ''NEW''
      else if s = 1 then Inr ''ESTABLISHED''
      else if s = 4 then Inr ''SYN_SENT''
      else if s = 5 then Inr ''SYN_RECV''
      else if s = 6 then Inr ''FIN_WAIT_1''
      else if s = 7 then Inr ''FIN_WAIT_2''
      else if s = 8 then Inr ''LAST_ACK''
      else if s = 9 then Inr ''TIME_WAIT''
      else Inl (RuntimeError ''[SessionTable]: Error!''))"

definition TCP_TIME_WAIT :: "64 word" where "TCP_TIME_WAIT = 120000000000"

text \<open>
  The timeout \<open>from_ttl_to_eta\<close> subtracts: the conditions are on the raw state, one after the other, and at most
  one of them holds.
\<close>

definition session_timeout :: "16 word \<Rightarrow> int \<Rightarrow> 64 word" where
  "session_timeout state l4proto =
     (if state = 0 then (if l4proto = IPPROTO_UDP then UDP_NEW_TIMEOUT else ICMP_TIMEOUT)
      else if state = 1 then (if l4proto = IPPROTO_TCP then TCP_ESTABLISHED else UDP_ESTABLISHED_TIMEOUT)
      else if state = 4 then TCP_SYN_SENT
      else if state = 5 then TCP_SYN_RECV
      else if state = 6 \<or> state = 7 then TCP_FIN_WAIT
      else if state = 8 then TCP_LAST_ACK
      else if state = 9 then TCP_TIME_WAIT
      else 0)"

text \<open>
  Returning a \<open>double\<close> as \<open>uint32_t\<close> truncates, and is undefined when the result does not fit: \<open>None\<close>. The uptime is
  what \<open>/proc/uptime\<close> says, or nothing when it cannot be read. The difference of the two doubles is exact
  whenever it is not negative: it is a multiple of the last place of the uptime, and no larger.
\<close>

definition double_to_uint32 :: "rat \<Rightarrow> 32 word option" where
  "double_to_uint32 x = (if -1 < x \<and> x < 2 ^ 32 then Some (if x < 0 then 0 else word_of_int \<lfloor>x\<rfloor>) else None)"

definition from_ttl_to_eta :: "rat option \<Rightarrow> 64 word \<Rightarrow> 16 word \<Rightarrow> int \<Rightarrow> 32 word option" where
  "from_ttl_to_eta uptime t state l4proto =
     (let seconds = (t - session_timeout state l4proto) div 1000000000
      in case uptime of
           None \<Rightarrow> Some 0
         | Some uptime_seconds \<Rightarrow> double_to_uint32 (uptime_seconds - of_nat (unat seconds)))"

section \<open>The table\<close>

text \<open>\<open>se_eta\<close> is \<open>None\<close> where the code computes an undefined conversion.\<close>

record SessionTable =
  se_src :: string
  se_dst :: string
  se_l4proto :: string
  se_sport :: "16 word"
  se_dport :: "16 word"
  se_state :: string
  se_eta :: "32 word option"

definition session_entry :: "rat option \<Rightarrow> ct_k \<times> ct_v \<Rightarrow> SessionTable result" where
  "session_entry uptime kv =
     (let (k, v) = kv in
      rbind (protocol_from_int_to_string (uint (k_l4proto k))) (\<lambda>proto.
      rbind (state_from_number_to_string (uint (ct_code (cstate v)))) (\<lambda>s.
      Inr \<lparr>se_src = nbo_uint_to_ip_string (k_srcIp k), se_dst = nbo_uint_to_ip_string (k_dstIp k), se_l4proto = proto,
           se_sport = ntohs (k_srcPort k), se_dport = ntohs (k_dstPort k), se_state = s,
           se_eta = from_ttl_to_eta uptime (ttl v) (ucast (ct_code (cstate v))) (uint (k_l4proto k))\<rparr>)))"

fun session_entries :: "rat option \<Rightarrow> (ct_k \<times> ct_v) list \<Rightarrow> SessionTable list result" where
  "session_entries uptime [] = Inr []"
| "session_entries uptime (kv # kvs) =
     rbind (session_entry uptime kv) (\<lambda>s. rbind (session_entries uptime kvs) (\<lambda>ss. Inr (s # ss)))"

text \<open>\<open>entries\<close> is what \<open>get_all\<close> reads of the map, in the order of the kernel.\<close>

definition getSessionTableList :: "rat option \<Rightarrow> (ct_k \<times> ct_v) list \<Rightarrow> chain \<Rightarrow> SessionTable list result" where
  "getSessionTableList uptime entries st = (if \<not> isContrackActive st then Inr [] else session_entries uptime entries)"

text \<open>The operations that the session table does not have.\<close>

definition getSessionTable :: "'a result" where
  "getSessionTable = Inl (RuntimeError ''[SessionTable]: Method getEntry not allowed'')"

definition addSessionTable :: "unit result" where
  "addSessionTable = Inl (RuntimeError ''[SessionTable]: Method create not allowed'')"

definition replaceSessionTable :: "unit result" where
  "replaceSessionTable = Inl (RuntimeError ''[SessionTable]: Method replace not allowed'')"

definition delSessionTable :: "unit result" where
  "delSessionTable = Inl (RuntimeError ''[SessionTable]: Method remove not allowed'')"

section \<open>It can be shown\<close>

text \<open>What an entry shows of a key and a value.\<close>

definition shows_entry :: "ct_k \<times> ct_v \<Rightarrow> SessionTable \<Rightarrow> bool" where
  "shows_entry kv s \<longleftrightarrow> ip_string_to_nbo_uint (se_src s) = Inr (k_srcIp (fst kv)) \<and> ip_string_to_nbo_uint (se_dst s) = Inr (k_dstIp (fst kv)) \<and>
     protocol_from_string_to_int (se_l4proto s) = Inr (uint (k_l4proto (fst kv))) \<and>
     ntohs (se_sport s) = k_srcPort (fst kv) \<and> ntohs (se_dport s) = k_dstPort (fst kv) \<and>
     state_from_number_to_string (uint (ct_code (cstate (snd kv)))) = Inr (se_state s)"

lemma state_shown:
  assumes "state_ok proto s"
  shows "\<exists>t p. state_from_number_to_string (uint (ct_code s)) = Inr t \<and> protocol_from_int_to_string (uint proto) = Inr p \<and>
    protocol_from_string_to_int p = Inr (uint proto)"
proof -
  have "proto = TCP8 \<or> proto = UDP8 \<or> proto = ICMP8" using assms by (auto simp: state_ok_def split: if_splits)
  then have "uint proto = IPPROTO_TCP \<or> uint proto = IPPROTO_UDP \<or> uint proto = IPPROTO_ICMP"
    by (auto simp: TCP8_def UDP8_def ICMP8_def IPPROTO_defs)
  then have "supported_protocol (uint proto)" by (auto simp: supported_protocol_def)
  from protocol_print_parse [OF this] obtain p where p: "protocol_from_int_to_string (uint proto) = Inr p"
      "protocol_from_string_to_int p = Inr (uint proto)" by (auto simp: rbind_Inr_conv)
  have "s \<noteq> CT_RELATED" "s \<noteq> CT_INVALID" using assms by (auto simp: state_ok_def split: if_splits)
  then have "\<exists>t. state_from_number_to_string (uint (ct_code s)) = Inr t"
    by (cases s) (simp_all add: state_from_number_to_string_def)
  with p show ?thesis by blast
qed

lemma session_entry_shown:
  assumes "state_ok (k_l4proto k) (cstate v)"
  shows "\<exists>s. session_entry uptime (k, v) = Inr s \<and> shows_entry (k, v) s"
  using state_shown [OF assms] by (auto simp: session_entry_def shows_entry_def ip_print_parse simp del: ct_code.simps)

lemma session_entries_shown:
  assumes "table_ok c" "\<forall>(k, v) \<in> set entries. c k = Some v"
  shows "\<exists>ss. session_entries uptime entries = Inr ss \<and> list_all2 shows_entry entries ss"
  using assms(2)
proof (induction entries)
  case (Cons kv entries)
  obtain k v where kv: "kv = (k, v)" by fastforce
  then have "state_ok (k_l4proto k) (cstate v)" using assms(1) Cons.prems by (auto simp: table_ok_def)
  from session_entry_shown [OF this, of uptime] Cons kv show ?case by auto
qed simp

section \<open>What it shows\<close>

text \<open>The time shown is the uptime less the date of the last packet that set the timeout.\<close>

lemma eta_two_clocks:
  "from_ttl_to_eta (Some uptime) (now + session_timeout s proto) s proto = double_to_uint32 (uptime - of_nat (unat (now div 1000000000)))"
  by (simp add: from_ttl_to_eta_def)

lemma eta_undefined:
  assumes "uptime + 1 \<le> of_nat (unat (now div 1000000000))"
  shows "from_ttl_to_eta (Some uptime) (now + session_timeout s proto) s proto = None"
  using assms unfolding eta_two_clocks double_to_uint32_def by simp

end
