(* ===== verification/Nat_Rules.thy ===== *)
theory Nat_Rules
  imports Fw_Rule Nat_Datapath
begin

text \<open>
  The rules of the NAT service in user space: \<open>RuleSnat\<close>, \<open>RuleDnat\<close> and \<open>RulePortForwarding\<close> keep a vector of entries each
  and write every entry to a table of the kernel. The three classes have the same members, which are modelled once over a record of
  the operations of their entries; the contract between a class and its entries is a locale, interpreted for the three.
\<close>

section \<open>Tables of the kernel\<close>

text \<open>
  \<open>RawTable::set\<close> and \<open>RawTable::remove\<close> throw when the kernel refuses; the text for \<open>errno\<close> is left out. Whether the kernel
  takes a new entry is a parameter \<open>room\<close>; it refuses to remove an entry that is not there.
\<close>

definition table_set :: "(('k \<rightharpoonup> 'v) \<Rightarrow> 'k \<Rightarrow> bool) \<Rightarrow> 'k \<Rightarrow> 'v \<Rightarrow> ('k \<rightharpoonup> 'v) \<Rightarrow> ('k \<rightharpoonup> 'v) \<times> unit result" where
  "table_set room k v t = (if room t k then (t(k \<mapsto> v), Inr ()) else (t, Inl (RuntimeError ''Table set error: '')))"

definition table_remove :: "'k \<Rightarrow> ('k \<rightharpoonup> 'v) \<Rightarrow> ('k \<rightharpoonup> 'v) \<times> unit result" where
  "table_remove k t = (if t k = None then (t, Inl (RuntimeError ''Table remove error: '')) else (t(k := None), Inr ()))"

section \<open>The vector of entries\<close>

text \<open>What a class uses of its entries \<open>'e\<close> and of their configurations \<open>'c\<close>.\<close>

record ('e, 'c, 'k, 'v) entry_ops =
  entry_make :: "'c \<Rightarrow> 'e result"
  entry_update :: "'c \<Rightarrow> 'e \<Rightarrow> 'e \<times> unit result"
  entry_id :: "'e \<Rightarrow> 32 word"
  entry_set_id :: "32 word \<Rightarrow> 'e \<Rightarrow> 'e"
  entry_dup :: "'e \<Rightarrow> 'e \<Rightarrow> bool"
  entry_key :: "'e \<Rightarrow> 'k"
  entry_value :: "'e \<Rightarrow> 'v"
  conf_id :: "'c \<Rightarrow> 32 word"

text \<open>The vector holds pointers: \<open>None\<close> is a null pointer. The state is the vector with the table of the kernel.\<close>

type_synonym ('e, 'k, 'v) rule_state = "'e option list \<times> ('k \<rightharpoonup> 'v)"

definition null_deref :: error where
  "null_deref = UndefinedBehaviour ''null pointer''"

text \<open>
  \<open>"There is no rule " + id\<close> adds the number to the pointer to the text: the message loses its first characters, and an
  \<open>id\<close> beyond the text reads memory that is not its own.
\<close>

definition no_rule :: "32 word \<Rightarrow> error" where
  "no_rule ident = (if unat ident \<le> 17 then RuntimeError (drop (unat ident) ''There is no rule '') else UndefinedBehaviour ''pointer past a literal'')"

fun getEntry :: "('e, 'c, 'k, 'v) entry_ops \<Rightarrow> 32 word \<Rightarrow> 'e option list \<Rightarrow> 'e result" where
  "getEntry ops ident [] = Inl (no_rule ident)"
| "getEntry ops ident (None # rs) = Inl null_deref"
| "getEntry ops ident (Some e # rs) = (if entry_id ops e = ident then Inr e else getEntry ops ident rs)"

fun dup_check :: "('e, 'c, 'k, 'v) entry_ops \<Rightarrow> 'e \<Rightarrow> 'e option list \<Rightarrow> unit result" where
  "dup_check ops e [] = Inr ()"
| "dup_check ops e (None # rs) = Inl null_deref"
| "dup_check ops e (Some x # rs) =
     (if entry_dup ops x e then Inl (RuntimeError ''Cannot insert duplicate mapping'') else dup_check ops e rs)"

text \<open>The new entry is in the vector before the kernel is asked.\<close>

definition addEntry :: "('e, 'c, 'k, 'v) entry_ops \<Rightarrow> (('k \<rightharpoonup> 'v) \<Rightarrow> 'k \<Rightarrow> bool) \<Rightarrow> 'c \<Rightarrow>
    ('e, 'k, 'v) rule_state \<Rightarrow> ('e, 'k, 'v) rule_state \<times> unit result" where
  "addEntry ops room conf = (\<lambda>(rs, t).
     case rbind (entry_make ops conf) (\<lambda>e. rbind (dup_check ops e rs) (\<lambda>_. Inr e)) of
       Inl err \<Rightarrow> ((rs, t), Inl err)
     | Inr e \<Rightarrow> (let (t', r) = table_set room (entry_key ops e) (entry_value ops e) t in ((rs @ [Some e], t'), r)))"

fun addEntryList :: "('e, 'c, 'k, 'v) entry_ops \<Rightarrow> (('k \<rightharpoonup> 'v) \<Rightarrow> 'k \<Rightarrow> bool) \<Rightarrow> 'c list \<Rightarrow>
    ('e, 'k, 'v) rule_state \<Rightarrow> ('e, 'k, 'v) rule_state \<times> unit result" where
  "addEntryList ops room [] st = (st, Inr ())"
| "addEntryList ops room (c # cs) st = sbind (addEntry ops room c st) (\<lambda>_. addEntryList ops room cs)"

text \<open>\<open>delEntry\<close>: the first entry with the number leaves the kernel, the entries after the position \<open>id\<close> move down.\<close>

fun remove_matching :: "('e, 'c, 'k, 'v) entry_ops \<Rightarrow> 32 word \<Rightarrow> 'e option list \<Rightarrow> ('k \<rightharpoonup> 'v) \<Rightarrow> ('k \<rightharpoonup> 'v) \<times> unit result" where
  "remove_matching ops ident [] t = (t, Inr ())"
| "remove_matching ops ident (None # rs) t = (t, Inl null_deref)"
| "remove_matching ops ident (Some e # rs) t =
     (if entry_id ops e = ident then table_remove (entry_key ops e) t else remove_matching ops ident rs t)"

fun shift_ids :: "('e, 'c, 'k, 'v) entry_ops \<Rightarrow> 32 word \<Rightarrow> 'e option list \<Rightarrow> 'e option list result" where
  "shift_ids ops i [] = Inr []"
| "shift_ids ops i (None # rs) = Inl null_deref"
| "shift_ids ops i (Some e # rs) = rbind (shift_ids ops (i + 1) rs) (\<lambda>rs'. Inr (Some (entry_set_id ops i e) # rs'))"

definition delEntry :: "('e, 'c, 'k, 'v) entry_ops \<Rightarrow> 32 word \<Rightarrow> ('e, 'k, 'v) rule_state \<Rightarrow> ('e, 'k, 'v) rule_state \<times> unit result" where
  "delEntry ops ident = (\<lambda>(rs, t).
     if length rs < unat ident then ((rs, t), Inl (no_rule ident))
     else let (t', r) = remove_matching ops ident rs t
          in case r of
               Inl err \<Rightarrow> ((rs, t'), Inl err)
             | Inr _ \<Rightarrow>
                 if rs = [] then ((rs, t'), Inl (UndefinedBehaviour ''vector index''))
                 else if unat ident < length rs
                   then (case shift_ids ops ident (drop (unat ident + 1) rs) of
                           Inl err \<Rightarrow> ((rs, t'), Inl err)
                         | Inr rs' \<Rightarrow> ((take (unat ident) rs @ rs', t'), Inr ()))
                   else ((butlast rs, t'), Inr ()))"

definition replaceEntry :: "('e, 'c, 'k, 'v) entry_ops \<Rightarrow> (('k \<rightharpoonup> 'v) \<Rightarrow> 'k \<Rightarrow> bool) \<Rightarrow> 32 word \<Rightarrow> 'c \<Rightarrow>
    ('e, 'k, 'v) rule_state \<Rightarrow> ('e, 'k, 'v) rule_state \<times> unit result" where
  "replaceEntry ops room ident conf st = sbind (delEntry ops ident st) (\<lambda>_. addEntry ops room conf)"

text \<open>\<open>delEntryList\<close>: the entries become null pointers one by one, then the vector is cleared.\<close>

fun remove_entries :: "('e, 'c, 'k, 'v) entry_ops \<Rightarrow> ('e, 'k, 'v) rule_state \<Rightarrow> ('e, 'k, 'v) rule_state \<times> unit result" where
  "remove_entries ops ([], t) = (([], t), Inr ())"
| "remove_entries ops (None # rs, t) = ((None # rs, t), Inl null_deref)"
| "remove_entries ops (Some e # rs, t) =
     (case table_remove (entry_key ops e) t of
        (t', Inl err) \<Rightarrow> ((Some e # rs, t'), Inl err)
      | (t', Inr _) \<Rightarrow> (let ((rs', t''), r) = remove_entries ops (rs, t') in ((None # rs', t''), r)))"

definition delEntryList :: "('e, 'c, 'k, 'v) entry_ops \<Rightarrow> ('e, 'k, 'v) rule_state \<Rightarrow> ('e, 'k, 'v) rule_state \<times> unit result" where
  "delEntryList ops st = sbind (remove_entries ops st) (\<lambda>_ (_, t). (([], t), Inr ()))"

text \<open>\<open>update\<close>: the entry changes in the vector only.\<close>

fun update_entry :: "('e, 'c, 'k, 'v) entry_ops \<Rightarrow> 'c \<Rightarrow> 'e option list \<Rightarrow> 'e option list \<times> unit result" where
  "update_entry ops c [] = ([], Inl (no_rule (conf_id ops c)))"
| "update_entry ops c (None # rs) = (None # rs, Inl null_deref)"
| "update_entry ops c (Some e # rs) =
     (if entry_id ops e = conf_id ops c then (let (e', r) = entry_update ops c e in (Some e' # rs, r))
      else (let (rs', r) = update_entry ops c rs in (Some e # rs', r)))"

fun update_entries :: "('e, 'c, 'k, 'v) entry_ops \<Rightarrow> 'c list \<Rightarrow> 'e option list \<Rightarrow> 'e option list \<times> unit result" where
  "update_entries ops [] rs = (rs, Inr ())"
| "update_entries ops (c # cs) rs = sbind (update_entry ops c rs) (\<lambda>_. update_entries ops cs)"

section \<open>The contract of a class\<close>

lemma map_of_remove_nth:
  assumes "distinct (map fst xs)" "i < length xs"
  shows "map_of (take i xs @ drop (Suc i) xs) = (map_of xs)(fst (xs ! i) := None)"
proof -
  define a b where "a = take i xs" and "b = drop (Suc i) xs"
  have xs: "xs = a @ xs ! i # b" using assms(2) by (simp add: a_def b_def id_take_nth_drop [symmetric])
  have "distinct (map fst (a @ xs ! i # b))" using assms(1) xs by metis
  then have n: "fst (xs ! i) \<notin> fst ` set a" "fst (xs ! i) \<notin> fst ` set b" by auto
  then have "map_of a (fst (xs ! i)) = None" "map_of b (fst (xs ! i)) = None" by (simp_all add: map_of_eq_None_iff)
  then have "map_of (a @ b) = (map_of (a @ xs ! i # b))(fst (xs ! i) := None)"
    by (cases "xs ! i") (auto simp: map_add_def fun_eq_iff split: option.splits)
  then show ?thesis using xs by (metis a_def b_def)
qed

text \<open>The vector and the kernel agree: numbers are positions, and the kernel holds exactly the entries among the keys of the class.\<close>

definition in_sync :: "('e, 'c, 'k, 'v) entry_ops \<Rightarrow> ('e \<Rightarrow> bool) \<Rightarrow> ('k \<Rightarrow> bool) \<Rightarrow> 'e list \<Rightarrow> ('k \<rightharpoonup> 'v) \<Rightarrow> bool" where
  "in_sync ops ok own es t \<longleftrightarrow>
     length es < 2 ^ 32 \<and> (\<forall>i < length es. entry_id ops (es ! i) = of_nat i) \<and> (\<forall>e \<in> set es. ok e) \<and> distinct (map (entry_key ops) es) \<and>
     (\<forall>k. own k \<longrightarrow> t k = map_of (map (\<lambda>e. (entry_key ops e, entry_value ops e)) es) k)"

text \<open>The entries without the one at a position, those after it renumbered.\<close>

definition without :: "('e, 'c, 'k, 'v) entry_ops \<Rightarrow> nat \<Rightarrow> 'e list \<Rightarrow> 'e list" where
  "without ops i es = take i es @ map (\<lambda>j. entry_set_id ops (of_nat (i + j)) (es ! (i + Suc j))) [0..<length es - Suc i]"

locale rule_class =
  fixes ops :: "('e, 'c, 'k, 'v) entry_ops" and ok :: "'e \<Rightarrow> bool" and own :: "'k \<Rightarrow> bool"
  assumes new_ok: "entry_make ops c = Inr e \<Longrightarrow> ok e \<and> entry_id ops e = conf_id ops c"
    and own_key: "ok e \<Longrightarrow> own (entry_key ops e)"
    and dup_key: "ok e \<Longrightarrow> ok e' \<Longrightarrow> entry_dup ops e e' \<longleftrightarrow> entry_key ops e = entry_key ops e'"
    and set_id: "entry_id ops (entry_set_id ops i e) = i" "entry_key ops (entry_set_id ops i e) = entry_key ops e"
      "entry_value ops (entry_set_id ops i e) = entry_value ops e" "ok (entry_set_id ops i e) = ok e"
begin

abbreviation table_of :: "'e list \<Rightarrow> ('k \<rightharpoonup> 'v)" where
  "table_of es \<equiv> map_of (map (\<lambda>e. (entry_key ops e, entry_value ops e)) es)"

lemma dup_check_Some:
  "ok e \<Longrightarrow> \<forall>x \<in> set es. ok x \<Longrightarrow>
   dup_check ops e (map Some es) = (if entry_key ops e \<in> entry_key ops ` set es then Inl (RuntimeError ''Cannot insert duplicate mapping'') else Inr ())"
  by (induction es) (auto simp: dup_key)

lemma table_of_fresh: "entry_key ops e \<notin> entry_key ops ` set es \<Longrightarrow> table_of es (entry_key ops e) = None"
  by (auto simp: map_of_eq_None_iff)

lemma add_in_sync:
  assumes s: "in_sync ops ok own es t" and n: "entry_make ops c = Inr e" "conf_id ops c = of_nat (length es)" "Suc (length es) < 2 ^ 32"
    and fresh: "entry_key ops e \<notin> entry_key ops ` set es" and room: "room t (entry_key ops e)"
  shows "addEntry ops room c (map Some es, t) = ((map Some (es @ [e]), t(entry_key ops e \<mapsto> entry_value ops e)), Inr ())"
    "in_sync ops ok own (es @ [e]) (t(entry_key ops e \<mapsto> entry_value ops e))"
proof -
  have ok: "ok e" "entry_id ops e = of_nat (length es)" using new_ok [OF n(1)] n(2) by auto
  show "addEntry ops room c (map Some es, t) = ((map Some (es @ [e]), t(entry_key ops e \<mapsto> entry_value ops e)), Inr ())"
    using s n(1) ok fresh room by (simp add: addEntry_def dup_check_Some in_sync_def table_set_def)
  show "in_sync ops ok own (es @ [e]) (t(entry_key ops e \<mapsto> entry_value ops e))"
    using s n(3) ok fresh by (auto simp: in_sync_def nth_append less_Suc_eq map_add_def table_of_fresh split: option.splits)
qed

lemma add_duplicate:
  assumes "in_sync ops ok own es t" "entry_make ops c = Inr e" "entry_key ops e \<in> entry_key ops ` set es"
  shows "addEntry ops room c (map Some es, t) = ((map Some es, t), Inl (RuntimeError ''Cannot insert duplicate mapping''))"
  using assms new_ok [OF assms(2)] by (simp add: addEntry_def dup_check_Some in_sync_def)

lemma shift_ids_Some: "shift_ids ops i (map Some es) = Inr (map Some (map (\<lambda>j. entry_set_id ops (i + of_nat j) (es ! j)) [0..<length es]))"
proof (induction es arbitrary: i)
  case (Cons e es)
  have "[0..<length (e # es)] = 0 # map Suc [0..<length es]" by (simp add: map_Suc_upt upt_conv_Cons del: upt_Suc)
  then show ?case by (simp add: Cons add.assoc comp_def del: upt_Suc)
qed simp

lemma remove_matching_Some:
  "(\<And>j. j < i \<Longrightarrow> entry_id ops (es ! j) \<noteq> ident) \<Longrightarrow> i < length es \<Longrightarrow> entry_id ops (es ! i) = ident \<Longrightarrow>
   remove_matching ops ident (map Some es) t = table_remove (entry_key ops (es ! i)) t"
proof (induction es arbitrary: i)
  case (Cons e es)
  show ?case
  proof (cases i)
    case 0
    then show ?thesis using Cons.prems by simp
  next
    case (Suc i')
    have "entry_id ops e \<noteq> ident" using Cons.prems(1) [of 0] Suc by simp
    moreover have "remove_matching ops ident (map Some es) t = table_remove (entry_key ops (es ! i')) t"
    proof (rule Cons.IH)
      show "entry_id ops (es ! j) \<noteq> ident" if "j < i'" for j using that Cons.prems(1) [of "Suc j"] Suc by simp
    qed (use Cons.prems Suc in simp_all)
    ultimately show ?thesis using Suc by simp
  qed
qed simp

lemma map_without:
  assumes "i < length es" "\<And>j e. f (entry_set_id ops j e) = f e"
  shows "map f (without ops i es) = take i (map f es) @ drop (Suc i) (map f es)"
proof -
  have "map (\<lambda>j. f (es ! (i + Suc j))) [0..<length es - Suc i] = drop (Suc i) (map f es)"
    by (rule nth_equalityI) (use assms(1) in auto)
  then show ?thesis using assms(2) by (simp add: without_def take_map comp_def)
qed

lemma without_synced:
  assumes s: "in_sync ops ok own es t" and i: "i < length es"
  shows "in_sync ops ok own (without ops i es) (t(entry_key ops (es ! i) := None))"
  unfolding in_sync_def
proof (intro conjI allI impI ballI)
  let ?kv = "\<lambda>e. (entry_key ops e, entry_value ops e)"
  show "length (without ops i es) < 2 ^ 32" using s i by (auto simp: in_sync_def without_def)
  show "entry_id ops (without ops i es ! j) = of_nat j" if "j < length (without ops i es)" for j
  proof (cases "j < i")
    case False
    have "j - i < length es - Suc i" using that False by (simp add: without_def)
    then have "entry_id ops (without ops i es ! j) = of_nat (i + (j - i))" using False i by (simp add: without_def nth_append set_id)
    then show ?thesis using False by (simp del: of_nat_add)
  qed (use that s i in \<open>simp add: in_sync_def without_def nth_append\<close>)
  show "ok e" if "e \<in> set (without ops i es)" for e
    using that s i by (auto simp: in_sync_def without_def set_id dest: in_set_takeD)
  have d: "distinct (map fst (map ?kv es))" using s by (simp add: in_sync_def comp_def)
  have m: "map ?kv (without ops i es) = take i (map ?kv es) @ drop (Suc i) (map ?kv es)"
    by (rule map_without [OF i]) (simp add: set_id)
  have "set (take i (map (entry_key ops) es)) \<inter> set (drop (Suc i) (map (entry_key ops) es)) = {}"
    using s set_take_disj_set_drop_if_distinct [of "map (entry_key ops) es" i "Suc i"] by (simp add: in_sync_def)
  then show "distinct (map (entry_key ops) (without ops i es))"
    using s by (simp add: map_without [OF i] set_id in_sync_def distinct_take distinct_drop)
  show "(t(entry_key ops (es ! i) := None)) k = map_of (map ?kv (without ops i es)) k" if "own k" for k
    using that s i unfolding m map_of_remove_nth [OF d, simplified length_map, OF i] by (simp add: in_sync_def)
qed

lemma del_synced:
  assumes s: "in_sync ops ok own es t" and i: "i < length es"
  shows "delEntry ops (of_nat i) (map Some es, t) = ((map Some (without ops i es), t(entry_key ops (es ! i) := None)), Inr ())"
proof -
  have len: "length es < 2 ^ 32" and ids: "\<And>j. j < length es \<Longrightarrow> entry_id ops (es ! j) = of_nat j" using s by (auto simp: in_sync_def)
  have inj: "of_nat j = (of_nat i :: 32 word) \<longleftrightarrow> j = i" if "j < length es" for j
    using that i len by (simp add: of_nat_eq_iff word_of_nat_eq_iff take_bit_nat_eq_self)
  have u: "unat (of_nat i :: 32 word) = i" using i len by (simp add: unat_of_nat)
  have "ok (es ! i)" using s i by (simp add: in_sync_def)
  then have "t (entry_key ops (es ! i)) = map_of (map (\<lambda>e. (entry_key ops e, entry_value ops e)) es) (entry_key ops (es ! i))"
    using s own_key by (simp add: in_sync_def)
  also have "\<dots> \<noteq> None" using i by (simp add: map_of_eq_None_iff image_image)
  finally have there: "t (entry_key ops (es ! i)) \<noteq> None" .
  have "remove_matching ops (of_nat i) (map Some es) t = table_remove (entry_key ops (es ! i)) t"
    using i by (intro remove_matching_Some) (auto simp: ids inj)
  moreover have "shift_ids ops (of_nat i) (drop (Suc i) (map Some es)) =
      Inr (map Some (map (\<lambda>j. entry_set_id ops (of_nat (i + j)) (es ! (i + Suc j))) [0..<length es - Suc i]))"
    using i by (simp add: drop_map shift_ids_Some)
  moreover have "es \<noteq> []" using i by auto
  ultimately show ?thesis using i u there
    by (simp add: delEntry_def table_remove_def without_def take_map)
qed

lemma clear_synced:
  assumes "in_sync ops ok own es t"
  shows "\<exists>t'. delEntryList ops (map Some es, t) = (([], t'), Inr ()) \<and> (\<forall>k. own k \<longrightarrow> t' k = None) \<and> (\<forall>k. \<not> own k \<longrightarrow> t' k = t k)"
proof -
  have "\<exists>rs t'. remove_entries ops (map Some es, t) = ((rs, t'), Inr ()) \<and> (\<forall>k. own k \<longrightarrow> t' k = None) \<and> (\<forall>k. \<not> own k \<longrightarrow> t' k = t k)"
    if "distinct (map (entry_key ops) es)" "\<forall>e \<in> set es. ok e" "\<forall>k. own k \<longrightarrow> t k = table_of es k" for es t
    using that
  proof (induction es arbitrary: t)
    case (Cons e es)
    have e: "own (entry_key ops e)" "t (entry_key ops e) \<noteq> None" using Cons.prems own_key by auto
    let ?t = "t(entry_key ops e := None)"
    have "\<forall>k. own k \<longrightarrow> ?t k = table_of es k" using Cons.prems(1,3) table_of_fresh [of e es] by auto
    moreover have "distinct (map (entry_key ops) es)" "\<forall>e \<in> set es. ok e" using Cons.prems(1,2) by simp_all
    ultimately have "\<exists>rs t'. remove_entries ops (map Some es, ?t) = ((rs, t'), Inr ()) \<and> (\<forall>k. own k \<longrightarrow> t' k = None) \<and> (\<forall>k. \<not> own k \<longrightarrow> t' k = ?t k)"
      by (rule Cons.IH [rotated 2])
    then obtain rs t' where r: "remove_entries ops (map Some es, ?t) = ((rs, t'), Inr ())" and
      t': "\<forall>k. own k \<longrightarrow> t' k = None" "\<forall>k. \<not> own k \<longrightarrow> t' k = ?t k" by blast
    have "remove_entries ops (map Some (e # es), t) = ((None # rs, t'), Inr ())" using e(2) r by (simp add: table_remove_def)
    moreover have "\<forall>k. \<not> own k \<longrightarrow> t' k = t k" using t'(2) e(1) by auto
    ultimately show ?case using t'(1) by blast
  qed simp
  from this [of es t] obtain rs t' where "remove_entries ops (map Some es, t) = ((rs, t'), Inr ())"
    "\<forall>k. own k \<longrightarrow> t' k = None" "\<forall>k. \<not> own k \<longrightarrow> t' k = t k" using assms unfolding in_sync_def by blast
  then show ?thesis by (simp add: delEntryList_def)
qed

lemma get_synced:
  assumes s: "in_sync ops ok own es t"
  shows "getEntry ops i (map Some es) = (if unat i < length es then Inr (es ! unat i) else Inl (no_rule i))"
proof -
  have "getEntry ops i (map Some es) = (if n \<le> unat i \<and> unat i < n + length es then Inr (es ! (unat i - n)) else Inl (no_rule i))"
    if "\<forall>j < length es. entry_id ops (es ! j) = of_nat (n + j)" "n + length es \<le> 2 ^ 32" for n es
    using that
  proof (induction es arbitrary: n)
    case (Cons e es)
    have n: "unat (of_nat n :: 32 word) = n" using Cons.prems(2) by (simp add: unat_of_nat)
    have e: "entry_id ops e = of_nat n" using Cons.prems(1) by (metis add_0_right length_greater_0_conv list.discI nth_Cons_0)
    have "\<forall>j < length es. entry_id ops (es ! j) = of_nat (Suc n + j)" using Cons.prems(1) by (metis Suc_less_eq add_Suc_shift length_Cons nth_Cons_Suc)
    then have "getEntry ops i (map Some es) = (if Suc n \<le> unat i \<and> unat i < Suc n + length es then Inr (es ! (unat i - Suc n)) else Inl (no_rule i))"
      using Cons.prems(2) by (intro Cons.IH) auto
    moreover have "of_nat n = i \<longleftrightarrow> unat i = n" using n by auto
    ultimately show ?case using e by (auto simp: nth_Cons' Suc_le_eq le_less)
  qed auto
  from this [of es 0] show ?thesis using s by (simp add: in_sync_def)
qed

lemma get_nth:
  assumes "in_sync ops ok own es t" "i < length es"
  shows "getEntry ops (of_nat i) (map Some es) = Inr (es ! i)"
proof -
  have "unat (of_nat i :: 32 word) = i" using assms by (simp add: in_sync_def unat_of_nat)
  then show ?thesis using get_synced [OF assms(1), of "of_nat i"] assms(2) by simp
qed

text \<open>The operations in one form: the list they leave, its part of the table, and the rest of the table.\<close>

lemma add_keeps:
  assumes s: "in_sync ops ok own es t" and len: "length es < 2 ^ 31" and c: "conf_id ops c = of_nat (length es)"
    and r: "snd (addEntry ops room c (map Some es, t)) \<noteq> Inl (RuntimeError ''Table set error: '')"
  shows "\<exists>es' t'. fst (addEntry ops room c (map Some es, t)) = (map Some es', t') \<and> in_sync ops ok own es' t' \<and> (\<forall>k. \<not> own k \<longrightarrow> t' k = t k)"
proof (cases "entry_make ops c")
  case (Inl err)
  then show ?thesis using s by (auto simp: addEntry_def)
next
  case (Inr e)
  then have e: "ok e" using new_ok by blast
  show ?thesis
  proof (cases "entry_key ops e \<in> entry_key ops ` set es")
    case True
    then show ?thesis using s add_duplicate [OF s Inr] by auto
  next
    case False
    then have "room t (entry_key ops e)" using r Inr e s by (auto simp: addEntry_def dup_check_Some in_sync_def table_set_def split: if_splits)
    moreover have "Suc (length es) < 2 ^ 32" using len by simp
    ultimately have "addEntry ops room c (map Some es, t) = ((map Some (es @ [e]), t(entry_key ops e \<mapsto> entry_value ops e)), Inr ())"
        "in_sync ops ok own (es @ [e]) (t(entry_key ops e \<mapsto> entry_value ops e))"
      using add_in_sync [where room = room, OF s Inr c _ False] by blast+
    moreover have "(t(entry_key ops e \<mapsto> entry_value ops e)) k = t k" if "\<not> own k" for k using that own_key [OF e] by auto
    ultimately show ?thesis by (metis fst_conv)
  qed
qed

lemma del_keeps:
  assumes s: "in_sync ops ok own es t" and i: "unat i \<noteq> length es"
  shows "\<exists>es' t'. fst (delEntry ops i (map Some es, t)) = (map Some es', t') \<and> in_sync ops ok own es' t' \<and> (\<forall>k. \<not> own k \<longrightarrow> t' k = t k)"
proof (cases "unat i < length es")
  case True
  then have "ok (es ! unat i)" using s by (simp add: in_sync_def)
  then show ?thesis using del_synced [OF s True] without_synced [OF s True] own_key by fastforce
next
  case False
  then show ?thesis using s i by (auto simp: delEntry_def)
qed

text \<open>Replacing keeps the numbers only for the last entry, given its own number again.\<close>

lemma replace_keeps:
  assumes s: "in_sync ops ok own es t" and len: "length es < 2 ^ 31" and i: "unat i \<noteq> length es"
    and last: "unat i < length es \<Longrightarrow> Suc (unat i) = length es \<and> conf_id ops c = i"
    and r: "snd (replaceEntry ops room i c (map Some es, t)) \<noteq> Inl (RuntimeError ''Table set error: '')"
  shows "\<exists>es' t'. fst (replaceEntry ops room i c (map Some es, t)) = (map Some es', t') \<and> in_sync ops ok own es' t' \<and> (\<forall>k. \<not> own k \<longrightarrow> t' k = t k)"
proof (cases "unat i < length es")
  case True
  let ?w = "without ops (unat i) es" and ?t = "t(entry_key ops (es ! unat i) := None)"
  have del: "delEntry ops i (map Some es, t) = ((map Some ?w, ?t), Inr ())" using del_synced [OF s True] by simp
  have w: "in_sync ops ok own ?w ?t" by (rule without_synced [OF s True])
  have n: "length ?w = unat i" using True last by (simp add: without_def)
  have rep: "replaceEntry ops room i c (map Some es, t) = addEntry ops room c (map Some ?w, ?t)" by (simp add: replaceEntry_def del)
  have "ok (es ! unat i)" using s True by (simp add: in_sync_def)
  then have same: "?t k = t k" if "\<not> own k" for k using that own_key by auto
  have "\<exists>es' t'. fst (addEntry ops room c (map Some ?w, ?t)) = (map Some es', t') \<and> in_sync ops ok own es' t' \<and> (\<forall>k. \<not> own k \<longrightarrow> t' k = ?t k)"
    by (rule add_keeps [OF w]) (use len True last r n in \<open>simp_all add: rep\<close>)
  then show ?thesis unfolding rep using same by metis
next
  case False
  then show ?thesis using s i by (auto simp: replaceEntry_def delEntry_def)
qed

lemma clear_keeps:
  assumes "in_sync ops ok own es t"
  shows "\<exists>es' t'. fst (delEntryList ops (map Some es, t)) = (map Some es', t') \<and> in_sync ops ok own es' t' \<and> (\<forall>k. \<not> own k \<longrightarrow> t' k = t k)"
  using clear_synced [OF assms] by (intro exI [of _ "[]"]) (auto simp: in_sync_def)

end

section \<open>Saving and restoring\<close>

text \<open>A class whose entries can be printed and read back.\<close>

locale saved_rules = rule_class ops ok own
  for ops :: "('e, 'c, 'k, 'v) entry_ops" and ok :: "'e \<Rightarrow> bool" and own :: "'k \<Rightarrow> bool" +
  fixes json :: "'e \<Rightarrow> 'c"
  assumes read_back: "ok e \<Longrightarrow> entry_make ops (json e) = Inr e"
begin

lemma restore_more:
  assumes "in_sync ops ok own pre t" "length (pre @ es) < 2 ^ 32" "\<forall>i < length (pre @ es). entry_id ops ((pre @ es) ! i) = of_nat i"
    "\<forall>e \<in> set es. ok e" "distinct (map (entry_key ops) (pre @ es))"
  shows "\<exists>t'. addEntryList ops (\<lambda>_ _. True) (map json es) (map Some pre, t) = ((map Some (pre @ es), t'), Inr ()) \<and>
    in_sync ops ok own (pre @ es) t' \<and> (\<forall>k. \<not> own k \<longrightarrow> t' k = t k)"
  using assms
proof (induction es arbitrary: pre t)
  case (Cons e es)
  have e: "ok e" "entry_key ops e \<notin> entry_key ops ` set pre" using Cons.prems(4,5) by auto
  have new: "entry_make ops (json e) = Inr e" by (rule read_back [OF e(1)])
  have "entry_id ops e = of_nat (length pre)" using spec [OF Cons.prems(3), of "length pre"] by simp
  then have "conf_id ops (json e) = of_nat (length pre)" using new_ok [OF new] by simp
  note step = add_in_sync [where room = "\<lambda>_ _. True", OF Cons.prems(1) new this _ e(2)]
  let ?t = "t(entry_key ops e \<mapsto> entry_value ops e)"
  have "\<exists>t'. addEntryList ops (\<lambda>_ _. True) (map json es) (map Some (pre @ [e]), ?t) = ((map Some ((pre @ [e]) @ es), t'), Inr ()) \<and>
      in_sync ops ok own ((pre @ [e]) @ es) t' \<and> (\<forall>k. \<not> own k \<longrightarrow> t' k = ?t k)"
    by (rule Cons.IH) (use Cons.prems step(2) in \<open>auto simp del: fun_upd_apply\<close>)
  moreover have "addEntry ops (\<lambda>_ _. True) (json e) (map Some pre, t) = ((map Some (pre @ [e]), ?t), Inr ())" using Cons.prems(2) by (intro step(1)) auto
  moreover have "?t k = t k" if "\<not> own k" for k using that own_key [OF e(1)] by auto
  ultimately show ?case by auto
qed simp

lemma restore:
  assumes s: "in_sync ops ok own es t" and t0: "\<forall>k. own k \<longrightarrow> t0 k = None"
  shows "\<exists>t'. addEntryList ops (\<lambda>_ _. True) (map json es) ([], t0) = ((map Some es, t'), Inr ()) \<and>
    (\<forall>k. own k \<longrightarrow> t' k = t k) \<and> (\<forall>k. \<not> own k \<longrightarrow> t' k = t0 k)"
proof -
  have "in_sync ops ok own [] t0" using t0 by (simp add: in_sync_def)
  then obtain t' where "addEntryList ops (\<lambda>_ _. True) (map json es) ([], t0) = ((map Some es, t'), Inr ())" "in_sync ops ok own es t'" "\<forall>k. \<not> own k \<longrightarrow> t' k = t0 k"
    using restore_more [of "[]" t0 es] s by (auto simp: in_sync_def)
  then show ?thesis using s by (auto simp: in_sync_def)
qed

end

end
