(* ===== verification/Nat_Entries.thy ===== *)
theory Nat_Entries
  imports Nat_Rules
begin

text \<open>
  The entries of the three lists of NAT rules: reading and printing them, their keys in the kernel, and the proof that each kind of
  entry fulfils the contract of \<open>Nat_Rules\<close>.
\<close>

section \<open>Addresses\<close>

text \<open>
  \<open>IpAddr.h\<close> of the service masks the address. For the prefix length 0 the shift count is 32, which the language leaves undefined.
\<close>

definition Nat_fromString :: "string \<Rightarrow> IpAddr result" where
  "Nat_fromString ipnetmask =
     rbind (if CHR ''/'' \<in> set ipnetmask
            then rbind (stol (get_netmask_from_string ipnetmask)) (\<lambda>v. Inr (word_of_int v :: 8 word))
            else Inr 32)
       (\<lambda>netmask. if 32 < netmask then Inl (RuntimeError ''Netmask can't be bigger than 32'')
          else rbind (ip_string_to_nbo_uint (get_ip_from_string ipnetmask))
                 (\<lambda>ip. if netmask = 0 then Inl (UndefinedBehaviour ''shift count out of range'')
                       else Inr (IpAddr (ip AND ntohl (push_bit (32 - unat netmask) 0xFFFFFFFF)) netmask)))"

lemma bit_ntohl:
  assumes "j < 32"
  shows "bit (ntohl w) (nbit j) = bit w (31 - j)"
proof -
  have b: "bit (ntohl w) i = bit w (24 + i)" "bit (ntohl w) (8 + i) = bit w (16 + i)"
      "bit (ntohl w) (16 + i) = bit w (8 + i)" "bit (ntohl w) (24 + i) = bit w i" if "i < 8" for i
    using that by (simp_all add: ntohl_def octets_to_nbo_def octet_def bit_simps ac_simps)
  define q r where "q = j div 8" and "r = 7 - j mod 8"
  have r: "r < 8" "j = 8 * q + (7 - r)" by (simp_all add: q_def r_def)
  have n: "nbit j = 8 * q + r" by (simp add: nbit_def q_def r_def)
  have "q = 0 \<or> q = 1 \<or> q = 2 \<or> q = 3" using assms by (auto simp: q_def)
  moreover from this have "31 - j = 24 - 8 * q + r" using r by (elim disjE; hypsubst; simp)
  ultimately show ?thesis using b [OF r(1)] by (elim disjE) (simp_all add: n)
qed

text \<open>The mask keeps the bits of the prefix, in the order of the wire.\<close>

lemma mask_bit:
  assumes "j < 32" "0 < n" "n \<le> 32"
  shows "bit (ntohl (push_bit (32 - n) (0xFFFFFFFF :: 32 word))) (nbit j) \<longleftrightarrow> j < n"
proof -
  have ones: "(0xFFFFFFFF :: 32 word) = mask 32" by (simp add: mask_eq_exp_minus_1)
  show ?thesis using assms unfolding bit_ntohl [OF assms(1)] ones by (auto simp: bit_simps)
qed

lemma Nat_fromString_ok:
  assumes "Nat_fromString s = Inr a"
  shows "0 < ia_netmask a" "ia_netmask a \<le> 32" "\<And>j. prefix_len a \<le> j \<Longrightarrow> j < 32 \<Longrightarrow> \<not> bit (ia_ip a) (nbit j)"
proof -
  obtain ip n where n: "n \<noteq> 0" "n \<le> 32" and a: "a = IpAddr (ip AND ntohl (push_bit (32 - unat n) 0xFFFFFFFF)) n"
    using assms by (auto simp: Nat_fromString_def res_simps not_less split: if_splits)
  show "0 < ia_netmask a" "ia_netmask a \<le> 32" using n by (simp_all add: a word_gt_0)
  have "0 < unat n" "unat n \<le> 32" using n by (simp_all add: unat_gt_0 word_le_nat_alt)
  then show "\<not> bit (ia_ip a) (nbit j)" if "prefix_len a \<le> j" "j < 32" for j
    using that mask_bit [of j "unat n"] by (simp add: a bit_and_iff)
qed

text \<open>Printing and reading an address that has no bits after its prefix.\<close>

lemma Nat_print_parse:
  assumes "0 < ia_netmask a" "ia_netmask a \<le> 32" "\<And>j. prefix_len a \<le> j \<Longrightarrow> j < 32 \<Longrightarrow> \<not> bit (ia_ip a) (nbit j)"
  shows "Nat_fromString (IpAddr_toString a) = Inr a"
proof -
  let ?m = "ntohl (push_bit (32 - prefix_len a) (0xFFFFFFFF :: 32 word))"
  have n: "0 < prefix_len a" "prefix_len a \<le> 32" using assms(1,2) by (simp_all add: unat_gt_0 word_gt_0 word_le_nat_alt)
  have "bit (ia_ip a AND ?m) (nbit j) = bit (ia_ip a) (nbit j)" if "j < 32" for j
    using that assms(3) [of j] mask_bit [OF that n] by (auto simp: bit_and_iff)
  then have "\<forall>j < 32. bit (ia_ip a AND ?m) j = bit (ia_ip a) j" using all_nbit [of 32 "\<lambda>j. bit (ia_ip a AND ?m) j = bit (ia_ip a) j"] by simp
  then have "ia_ip a AND ?m = ia_ip a" by (intro bit_word_eqI) simp
  moreover have "ip_string_to_nbo_uint (get_ip_from_string (IpAddr_toString a)) = Inr (ia_ip a)"
    unfolding IpAddr_toString_def get_ip_from_string_prefix by (rule ip_print_parse)
  moreover have "stol (get_netmask_from_string (IpAddr_toString a)) = Inr (int (prefix_len a))"
    unfolding IpAddr_toString_def get_netmask_from_string_print using n by (intro stol_dec) simp
  moreover have "CHR ''/'' \<in> set (IpAddr_toString a)" by (simp add: IpAddr_toString_def)
  ultimately show ?thesis using assms(1,2) by (simp add: Nat_fromString_def not_less [symmetric] word_gt_0)
qed

lemma toString_inj: "ia_netmask a \<le> 32 \<Longrightarrow> ia_netmask b \<le> 32 \<Longrightarrow> IpAddr_toString a = IpAddr_toString b \<longleftrightarrow> a = b"
  by (metis IpAddr_print_parse Inr_inject)

section \<open>Source rules\<close>

definition set_with :: "'a result \<Rightarrow> ('a \<Rightarrow> 's \<Rightarrow> 's) \<Rightarrow> 's \<Rightarrow> 's \<times> unit result" where
  "set_with v f s = (case v of Inl err \<Rightarrow> (s, Inl err) | Inr x \<Rightarrow> (f x s, Inr ()))"

definition if_set :: "'c option \<Rightarrow> ('c \<Rightarrow> 's \<Rightarrow> 's \<times> unit result) \<Rightarrow> 's \<Rightarrow> 's \<times> unit result" where
  "if_set c f s = (case c of None \<Rightarrow> (s, Inr ()) | Some x \<Rightarrow> f x s)"

text \<open>A member the constructor has not set is read by the search for duplicates.\<close>

definition construct :: "bool \<Rightarrow> 's \<times> unit result \<Rightarrow> 's result" where
  "construct complete = (\<lambda>(s, r). rbind r (\<lambda>_. if complete then Inr s else Inl (UndefinedBehaviour ''uninitialised'')))"

record RuleSnatEntry =
  sn_id :: "32 word"
  sn_internalIp :: "32 word"
  sn_internalNetmask :: "8 word"
  sn_externalIp :: "32 word"

record RuleSnatEntryJsonObject =
  sc_id :: "32 word"
  sc_internalNet :: "string option"
  sc_externalIp :: "string option"

definition RuleSnatEntry_getInternalNet :: "RuleSnatEntry \<Rightarrow> string" where
  "RuleSnatEntry_getInternalNet e = IpAddr_toString (IpAddr (sn_internalIp e) (sn_internalNetmask e))"

definition RuleSnatEntry_setInternalNet :: "string \<Rightarrow> RuleSnatEntry \<Rightarrow> RuleSnatEntry \<times> unit result" where
  "RuleSnatEntry_setInternalNet v = set_with (Nat_fromString v) (\<lambda>a e. e\<lparr>sn_internalIp := ia_ip a, sn_internalNetmask := ia_netmask a\<rparr>)"

definition RuleSnatEntry_getExternalIp :: "RuleSnatEntry \<Rightarrow> string" where
  "RuleSnatEntry_getExternalIp e = IpAddr_toString (IpAddr (sn_externalIp e) 32)"

definition RuleSnatEntry_setExternalIp :: "string \<Rightarrow> RuleSnatEntry \<Rightarrow> RuleSnatEntry \<times> unit result" where
  "RuleSnatEntry_setExternalIp v = set_with (Nat_fromString v) (\<lambda>a e. e\<lparr>sn_externalIp := ia_ip a\<rparr>)"

definition RuleSnatEntry_update :: "RuleSnatEntryJsonObject \<Rightarrow> RuleSnatEntry \<Rightarrow> RuleSnatEntry \<times> unit result" where
  "RuleSnatEntry_update conf e =
     sbind (if_set (sc_internalNet conf) RuleSnatEntry_setInternalNet e)
       (\<lambda>_. if_set (sc_externalIp conf) RuleSnatEntry_setExternalIp)"

definition RuleSnatEntry_new :: "RuleSnatEntryJsonObject \<Rightarrow> RuleSnatEntry result" where
  "RuleSnatEntry_new conf =
     construct (sc_internalNet conf \<noteq> None \<and> sc_externalIp conf \<noteq> None)
       (RuleSnatEntry_update conf \<lparr>sn_id = sc_id conf, sn_internalIp = 0, sn_internalNetmask = 0, sn_externalIp = 0\<rparr>)"

definition RuleSnatEntry_toJsonObject :: "RuleSnatEntry \<Rightarrow> RuleSnatEntryJsonObject" where
  "RuleSnatEntry_toJsonObject e =
     \<lparr>sc_id = sn_id e, sc_internalNet = Some (RuleSnatEntry_getInternalNet e), sc_externalIp = Some (RuleSnatEntry_getExternalIp e)\<rparr>"

definition snat_key :: "RuleSnatEntry \<Rightarrow> sm_k" where
  "snat_key e = \<lparr>internal_netmask_len = ucast (sn_internalNetmask e), internal_ip = sn_internalIp e\<rparr>"

definition snat_value :: "RuleSnatEntry \<Rightarrow> sm_v" where
  "snat_value e = \<lparr>sm_external_ip = sn_externalIp e, sm_entry_type = SNAT\<rparr>"

definition snat_ops :: "(RuleSnatEntry, RuleSnatEntryJsonObject, sm_k, sm_v) entry_ops" where
  "snat_ops =
     \<lparr>entry_make = RuleSnatEntry_new, entry_update = RuleSnatEntry_update, entry_id = sn_id, entry_set_id = (\<lambda>i e. e\<lparr>sn_id := i\<rparr>),
      entry_dup = (\<lambda>a b. RuleSnatEntry_getInternalNet a = RuleSnatEntry_getInternalNet b),
      entry_key = snat_key, entry_value = snat_value, conf_id = sc_id\<rparr>"

definition snat_ok :: "RuleSnatEntry \<Rightarrow> bool" where
  "snat_ok e \<longleftrightarrow> 0 < sn_internalNetmask e \<and> sn_internalNetmask e \<le> 32 \<and> sm_canonical (snat_key e)"

text \<open>Keys with a prefix: the key with the prefix length 0 is the one of masquerading.\<close>

definition snat_own :: "sm_k \<Rightarrow> bool" where
  "snat_own k \<longleftrightarrow> internal_netmask_len k \<noteq> 0"

lemma ucast_8_32: "unat (ucast (n :: 8 word) :: 32 word) = unat n" "(ucast n :: 32 word) = ucast m \<longleftrightarrow> n = m" "ucast n = (0 :: 32 word) \<longleftrightarrow> n = 0"
proof -
  show u: "unat (ucast (n :: 8 word) :: 32 word) = unat n" for n by (simp add: unsigned_ucast_eq take_bit_nat_eq_self_iff) (use unsigned_less [of n, where ?'a = nat] in simp)
  show "(ucast n :: 32 word) = ucast m \<longleftrightarrow> n = m" by (metis u word_unat_eq_iff)
  show "ucast n = (0 :: 32 word) \<longleftrightarrow> n = 0" by (metis u unat_eq_zero unat_0)
qed

lemma canonical_conv:
  "sn_internalNetmask e \<le> 32 \<Longrightarrow> sm_canonical (snat_key e) \<longleftrightarrow> (\<forall>j. unat (sn_internalNetmask e) \<le> j \<longrightarrow> j < 32 \<longrightarrow> \<not> bit (sn_internalIp e) (nbit j))"
  by (simp add: sm_canonical_def snat_key_def word_le_nat_alt ucast_8_32)

lemma RuleSnatEntry_new_ok: "RuleSnatEntry_new c = Inr e \<Longrightarrow> snat_ok e \<and> sn_id e = sc_id c"
  using Nat_fromString_ok
  by (auto simp: RuleSnatEntry_new_def construct_def RuleSnatEntry_update_def RuleSnatEntry_setInternalNet_def RuleSnatEntry_setExternalIp_def
      if_set_def set_with_def snat_ok_def canonical_conv res_simps split: option.splits sum.splits if_splits)

interpretation snat: rule_class snat_ops snat_ok snat_own
proof unfold_locales
  fix e e' assume "snat_ok e" "snat_ok e'"
  then show "entry_dup snat_ops e e' \<longleftrightarrow> entry_key snat_ops e = entry_key snat_ops e'"
    by (auto simp: snat_ops_def snat_ok_def RuleSnatEntry_getInternalNet_def toString_inj snat_key_def ucast_8_32)
qed (auto simp: snat_ops_def snat_ok_def snat_own_def snat_key_def snat_value_def ucast_8_32 dest: RuleSnatEntry_new_ok)

section \<open>Destination rules\<close>

record RuleDnatEntry =
  dn_id :: "32 word"
  dn_internalIp :: "32 word"
  dn_externalIp :: "32 word"

record RuleDnatEntryJsonObject =
  dc_id :: "32 word"
  dc_externalIp :: "string option"
  dc_internalIp :: "string option"

definition RuleDnatEntry_getExternalIp :: "RuleDnatEntry \<Rightarrow> string" where
  "RuleDnatEntry_getExternalIp e = IpAddr_toString (IpAddr (dn_externalIp e) 32)"

definition RuleDnatEntry_getInternalIp :: "RuleDnatEntry \<Rightarrow> string" where
  "RuleDnatEntry_getInternalIp e = IpAddr_toString (IpAddr (dn_internalIp e) 32)"

definition RuleDnatEntry_update :: "RuleDnatEntryJsonObject \<Rightarrow> RuleDnatEntry \<Rightarrow> RuleDnatEntry \<times> unit result" where
  "RuleDnatEntry_update conf e =
     sbind (if_set (dc_externalIp conf) (\<lambda>v. set_with (Nat_fromString v) (\<lambda>a e. e\<lparr>dn_externalIp := ia_ip a\<rparr>)) e)
       (\<lambda>_. if_set (dc_internalIp conf) (\<lambda>v. set_with (Nat_fromString v) (\<lambda>a e. e\<lparr>dn_internalIp := ia_ip a\<rparr>)))"

definition RuleDnatEntry_new :: "RuleDnatEntryJsonObject \<Rightarrow> RuleDnatEntry result" where
  "RuleDnatEntry_new conf =
     construct (dc_externalIp conf \<noteq> None \<and> dc_internalIp conf \<noteq> None)
       (RuleDnatEntry_update conf \<lparr>dn_id = dc_id conf, dn_internalIp = 0, dn_externalIp = 0\<rparr>)"

definition RuleDnatEntry_toJsonObject :: "RuleDnatEntry \<Rightarrow> RuleDnatEntryJsonObject" where
  "RuleDnatEntry_toJsonObject e =
     \<lparr>dc_id = dn_id e, dc_externalIp = Some (RuleDnatEntry_getExternalIp e), dc_internalIp = Some (RuleDnatEntry_getInternalIp e)\<rparr>"

definition dnat_key :: "RuleDnatEntry \<Rightarrow> dp_k" where
  "dnat_key e = \<lparr>dp_mask = 32, dp_external_ip = dn_externalIp e, dp_external_port = 0, dp_proto = 0\<rparr>"

definition dnat_value :: "RuleDnatEntry \<Rightarrow> dp_v" where
  "dnat_value e = \<lparr>dp_internal_ip = dn_internalIp e, dp_internal_port = 0, dp_entry_type = DNAT\<rparr>"

definition dnat_ops :: "(RuleDnatEntry, RuleDnatEntryJsonObject, dp_k, dp_v) entry_ops" where
  "dnat_ops =
     \<lparr>entry_make = RuleDnatEntry_new, entry_update = RuleDnatEntry_update, entry_id = dn_id, entry_set_id = (\<lambda>i e. e\<lparr>dn_id := i\<rparr>),
      entry_dup = (\<lambda>a b. RuleDnatEntry_getExternalIp a = RuleDnatEntry_getExternalIp b),
      entry_key = dnat_key, entry_value = dnat_value, conf_id = dc_id\<rparr>"

definition dnat_own :: "dp_k \<Rightarrow> bool" where
  "dnat_own k \<longleftrightarrow> dp_mask k = 32"

interpretation dnat: rule_class dnat_ops "\<lambda>_. True" dnat_own
  by unfold_locales
    (auto simp: dnat_ops_def dnat_own_def dnat_key_def dnat_value_def RuleDnatEntry_getExternalIp_def toString_inj RuleDnatEntry_new_def
      construct_def RuleDnatEntry_update_def if_set_def set_with_def res_simps split: option.splits sum.splits if_splits)

section \<open>Port forwarding\<close>

datatype ProtoEnum = PROTO_TCP | PROTO_UDP | PROTO_ALL

record RulePortForwardingEntry =
  pf_id :: "32 word"
  pf_internalIp :: "32 word"
  pf_externalIp :: "32 word"
  pf_internalPort :: "16 word"
  pf_externalPort :: "16 word"
  pf_proto :: ProtoEnum

record RulePortForwardingEntryJsonObject =
  pc_id :: "32 word"
  pc_externalIp :: "string option"
  pc_externalPort :: "16 word option"
  pc_proto :: "string option"
  pc_internalIp :: "string option"
  pc_internalPort :: "16 word option"

definition RulePortForwardingEntry_getExternalIp :: "RulePortForwardingEntry \<Rightarrow> string" where
  "RulePortForwardingEntry_getExternalIp e = IpAddr_toString (IpAddr (pf_externalIp e) 32)"

definition RulePortForwardingEntry_getInternalIp :: "RulePortForwardingEntry \<Rightarrow> string" where
  "RulePortForwardingEntry_getInternalIp e = IpAddr_toString (IpAddr (pf_internalIp e) 32)"

fun RulePortForwardingEntry_getProto :: "ProtoEnum \<Rightarrow> string" where
  "RulePortForwardingEntry_getProto PROTO_TCP = ''tcp''"
| "RulePortForwardingEntry_getProto PROTO_UDP = ''udp''"
| "RulePortForwardingEntry_getProto PROTO_ALL = ''all''"

definition tolower :: "char \<Rightarrow> char" where
  "tolower c = (let n = of_char c :: nat in if 65 \<le> n \<and> n \<le> 90 then char_of (n + 32) else c)"

definition RulePortForwardingEntry_setProto :: "string \<Rightarrow> RulePortForwardingEntry \<Rightarrow> RulePortForwardingEntry \<times> unit result" where
  "RulePortForwardingEntry_setProto value e =
     (if value = [] then (e\<lparr>pf_proto := PROTO_ALL\<rparr>, Inr ())
      else let v = map tolower value
           in if v = ''tcp'' then (e\<lparr>pf_proto := PROTO_TCP\<rparr>, Inr ())
              else if v = ''udp'' then (e\<lparr>pf_proto := PROTO_UDP\<rparr>, Inr ())
              else if v = ''all'' then (e\<lparr>pf_proto := PROTO_ALL\<rparr>, Inr ())
              else (e, Inl (RuntimeError ''Invalid protocol'')))"

text \<open>An update that does not name the protocol resets it.\<close>

definition RulePortForwardingEntry_update ::
    "RulePortForwardingEntryJsonObject \<Rightarrow> RulePortForwardingEntry \<Rightarrow> RulePortForwardingEntry \<times> unit result" where
  "RulePortForwardingEntry_update conf e =
     sbind (if_set (pc_externalIp conf) (\<lambda>v. set_with (Nat_fromString v) (\<lambda>a e. e\<lparr>pf_externalIp := ia_ip a\<rparr>)) e) (\<lambda>_ e.
     sbind (if_set (pc_externalPort conf) (\<lambda>v e. (e\<lparr>pf_externalPort := v\<rparr>, Inr ())) e) (\<lambda>_ e.
     sbind (case pc_proto conf of Some v \<Rightarrow> RulePortForwardingEntry_setProto v e | None \<Rightarrow> (e\<lparr>pf_proto := PROTO_ALL\<rparr>, Inr ())) (\<lambda>_ e.
     sbind (if_set (pc_internalIp conf) (\<lambda>v. set_with (Nat_fromString v) (\<lambda>a e. e\<lparr>pf_internalIp := ia_ip a\<rparr>)) e) (\<lambda>_.
     if_set (pc_internalPort conf) (\<lambda>v e. (e\<lparr>pf_internalPort := v\<rparr>, Inr ()))))))"

definition RulePortForwardingEntry_new :: "RulePortForwardingEntryJsonObject \<Rightarrow> RulePortForwardingEntry result" where
  "RulePortForwardingEntry_new conf =
     construct (pc_externalIp conf \<noteq> None \<and> pc_externalPort conf \<noteq> None \<and> pc_internalIp conf \<noteq> None \<and> pc_internalPort conf \<noteq> None)
       (RulePortForwardingEntry_update conf
          \<lparr>pf_id = pc_id conf, pf_internalIp = 0, pf_externalIp = 0, pf_internalPort = 0, pf_externalPort = 0, pf_proto = PROTO_ALL\<rparr>)"

definition RulePortForwardingEntry_toJsonObject :: "RulePortForwardingEntry \<Rightarrow> RulePortForwardingEntryJsonObject" where
  "RulePortForwardingEntry_toJsonObject e =
     \<lparr>pc_id = pf_id e, pc_externalIp = Some (RulePortForwardingEntry_getExternalIp e), pc_externalPort = Some (pf_externalPort e),
      pc_proto = Some (RulePortForwardingEntry_getProto (pf_proto e)), pc_internalIp = Some (RulePortForwardingEntry_getInternalIp e),
      pc_internalPort = Some (pf_internalPort e)\<rparr>"

definition portforwarding_key :: "RulePortForwardingEntry \<Rightarrow> dp_k" where
  "portforwarding_key e =
     \<lparr>dp_mask = (case pf_proto e of PROTO_ALL \<Rightarrow> 48 | _ \<Rightarrow> 56), dp_external_ip = pf_externalIp e, dp_external_port = ntohs (pf_externalPort e),
      dp_proto = (case pf_proto e of PROTO_ALL \<Rightarrow> 0 | PROTO_TCP \<Rightarrow> TCP8 | PROTO_UDP \<Rightarrow> UDP8)\<rparr>"

definition portforwarding_value :: "RulePortForwardingEntry \<Rightarrow> dp_v" where
  "portforwarding_value e =
     \<lparr>dp_internal_ip = pf_internalIp e, dp_internal_port = ntohs (pf_internalPort e), dp_entry_type = PORTFORWARDING\<rparr>"

definition portforwarding_ops :: "(RulePortForwardingEntry, RulePortForwardingEntryJsonObject, dp_k, dp_v) entry_ops" where
  "portforwarding_ops =
     \<lparr>entry_make = RulePortForwardingEntry_new, entry_update = RulePortForwardingEntry_update, entry_id = pf_id,
      entry_set_id = (\<lambda>i e. e\<lparr>pf_id := i\<rparr>),
      entry_dup = (\<lambda>a b. RulePortForwardingEntry_getExternalIp a = RulePortForwardingEntry_getExternalIp b \<and>
         pf_externalPort a = pf_externalPort b \<and> RulePortForwardingEntry_getProto (pf_proto a) = RulePortForwardingEntry_getProto (pf_proto b)),
      entry_key = portforwarding_key, entry_value = portforwarding_value, conf_id = pc_id\<rparr>"

definition portforwarding_own :: "dp_k \<Rightarrow> bool" where
  "portforwarding_own k \<longleftrightarrow> dp_mask k \<noteq> 32"

lemma sbind_keeps: "P (fst m) \<Longrightarrow> (\<And>x s. P s \<Longrightarrow> P (fst (f x s))) \<Longrightarrow> P (fst (sbind m f))"
  by (cases "(m, f)" rule: sbind.cases) auto

lemma setProto_id: "pf_id (fst (RulePortForwardingEntry_setProto v e)) = pf_id e"
  by (simp add: RulePortForwardingEntry_setProto_def Let_def)

lemma RulePortForwardingEntry_update_id: "pf_id (fst (RulePortForwardingEntry_update c e)) = pf_id e"
  unfolding RulePortForwardingEntry_update_def
  by (intro sbind_keeps [where P = "\<lambda>x. pf_id x = pf_id e"])
    (auto simp: if_set_def set_with_def setProto_id split: option.splits sum.splits)

lemma RulePortForwardingEntry_new_id: "RulePortForwardingEntry_new c = Inr e \<Longrightarrow> pf_id e = pc_id c"
  using RulePortForwardingEntry_update_id [of c "\<lparr>pf_id = pc_id c, pf_internalIp = 0, pf_externalIp = 0, pf_internalPort = 0, pf_externalPort = 0, pf_proto = PROTO_ALL\<rparr>"]
  by (auto simp: RulePortForwardingEntry_new_def construct_def res_simps split: prod.splits if_splits)

lemma getProto_inj [simp]: "RulePortForwardingEntry_getProto p = RulePortForwardingEntry_getProto q \<longleftrightarrow> p = q"
  by (cases p; cases q) simp_all

interpretation portforwarding: rule_class portforwarding_ops "\<lambda>_. True" portforwarding_own
proof unfold_locales
  fix a b
  show "entry_dup portforwarding_ops a b \<longleftrightarrow> entry_key portforwarding_ops a = entry_key portforwarding_ops b"
    by (cases "pf_proto a"; cases "pf_proto b")
      (auto simp: portforwarding_ops_def RulePortForwardingEntry_getExternalIp_def toString_inj portforwarding_key_def TCP8_def UDP8_def)
qed (auto simp: portforwarding_ops_def portforwarding_own_def portforwarding_key_def portforwarding_value_def RulePortForwardingEntry_new_id
    split: ProtoEnum.splits)

section \<open>Printing and reading entries\<close>

lemma read_host [simp]: "Nat_fromString (IpAddr_toString (IpAddr ip 32)) = Inr (IpAddr ip 32)"
  by (rule Nat_print_parse) simp_all

interpretation snat: saved_rules snat_ops snat_ok snat_own RuleSnatEntry_toJsonObject
proof unfold_locales
  fix e assume e: "snat_ok e"
  have "Nat_fromString (IpAddr_toString (IpAddr (sn_internalIp e) (sn_internalNetmask e))) = Inr (IpAddr (sn_internalIp e) (sn_internalNetmask e))"
    by (rule Nat_print_parse) (use e in \<open>auto simp: snat_ok_def canonical_conv\<close>)
  then show "entry_make snat_ops (RuleSnatEntry_toJsonObject e) = Inr e"
    by (simp add: snat_ops_def RuleSnatEntry_new_def RuleSnatEntry_toJsonObject_def construct_def RuleSnatEntry_update_def if_set_def set_with_def
        RuleSnatEntry_setInternalNet_def RuleSnatEntry_getInternalNet_def RuleSnatEntry_setExternalIp_def RuleSnatEntry_getExternalIp_def)
qed

interpretation dnat: saved_rules dnat_ops "\<lambda>_. True" dnat_own RuleDnatEntry_toJsonObject
  by unfold_locales (simp add: dnat_ops_def RuleDnatEntry_new_def RuleDnatEntry_toJsonObject_def construct_def RuleDnatEntry_update_def if_set_def set_with_def
        RuleDnatEntry_getInternalIp_def RuleDnatEntry_getExternalIp_def)

lemma setProto_getProto: "RulePortForwardingEntry_setProto (RulePortForwardingEntry_getProto p) e = (e\<lparr>pf_proto := p\<rparr>, Inr ())"
proof -
  have "map tolower ''tcp'' = ''tcp''" "map tolower ''udp'' = ''udp''" "map tolower ''all'' = ''all''" by code_simp+
  then show ?thesis by (cases p) (simp_all add: RulePortForwardingEntry_setProto_def Let_def del: list.map)
qed

interpretation portforwarding: saved_rules portforwarding_ops "\<lambda>_. True" portforwarding_own RulePortForwardingEntry_toJsonObject
  by unfold_locales (simp add: portforwarding_ops_def RulePortForwardingEntry_new_def RulePortForwardingEntry_toJsonObject_def construct_def
        RulePortForwardingEntry_update_def if_set_def set_with_def RulePortForwardingEntry_getInternalIp_def RulePortForwardingEntry_getExternalIp_def
        setProto_getProto)

end
