(* ===== verification/Nat_Sessions.thy ===== *)
theory Nat_Sessions
  imports Nat_Datapath
begin

text \<open>
  What the NAT program does to connections. A frame is reduced to its key; answers to translated packets are
  translated back, sessions are stable, and as long as no port has been handed out twice no two sessions look alike
  from outside.
\<close>

section \<open>From frames to keys\<close>

text \<open>The key of the packet that leaves, and the state left behind.\<close>

definition translate :: "st_k \<Rightarrow> nat_hit \<Rightarrow> st_k" where
  "translate k h =
     (if src_rule (hit_rule h)
      then k\<lparr>st_src_ip := hit_ip h, st_src_port := hit_port h, st_dst_port := (if st_proto k = 1 then hit_port h else st_dst_port k)\<rparr>
      else k\<lparr>st_dst_ip := hit_ip h, st_dst_port := hit_port h, st_src_port := (if st_proto k = 1 then hit_port h else st_src_port k)\<rparr>)"

definition nat_step :: "nat_lookups \<Rightarrow> nat_type \<Rightarrow> st_k \<Rightarrow> nat_state \<Rightarrow> st_k \<times> nat_state" where
  "nat_step lk dir k st =
     (case nat_lookup lk dir k st of
        (None, st') \<Rightarrow> (k, st')
      | (Some h, st') \<Rightarrow> (translate k h, if update_session_table h then nat_update_sessions k h st' else st'))"

lemma length_store [simp]: "length (store_u16 f i w) = length f" "length (store_u32 f i v) = length f"
  by (simp_all add: store_u16_def store_u32_def)

lemma store_u16_nth: "i + 1 < length f \<Longrightarrow> store_u16 f i w ! j = (if j = i + 1 then ucast (drop_bit 8 w) else if j = i then ucast w else f ! j)"
  by (auto simp: store_u16_def nth_list_update)

lemma store_u32_nth: "i + 3 < length f \<Longrightarrow> store_u32 f i w ! j = (if i \<le> j \<and> j < i + 4 then octet w (j - i) else f ! j)"
  by (auto simp: store_u32_def nth_list_update numeral_eq_Suc less_Suc_eq)

lemma u16_at_store [simp]: "i + 1 < length f \<Longrightarrow> u16_at (store_u16 f i w) i = w"
  using u16_bytes_load [of w "[]"] by (simp add: u16_at_def store_u16_nth u16_bytes_def)

lemma u32_at_store [simp]: "i + 3 < length f \<Longrightarrow> u32_at (store_u32 f i w) i = w"
  using octets_roundtrip [of w] by (simp add: u32_at_def store_u32_nth)

lemma u16_at_other: "i + 1 < length f \<Longrightarrow> j + 1 < i \<or> i + 1 < j \<Longrightarrow> u16_at (store_u16 f i w) j = u16_at f j"
  "i + 3 < length f \<Longrightarrow> j + 1 < i \<or> i + 3 < j \<Longrightarrow> u16_at (store_u32 f i v) j = u16_at f j"
  by (auto simp: u16_at_def store_u16_nth store_u32_nth)

lemma u32_at_other: "i + 1 < length f \<Longrightarrow> j + 3 < i \<or> i + 1 < j \<Longrightarrow> u32_at (store_u16 f i w) j = u32_at f j"
  "i + 3 < length f \<Longrightarrow> j + 3 < i \<or> i + 3 < j \<Longrightarrow> u32_at (store_u32 f i v) j = u32_at f j"
  by (auto simp: u32_at_def store_u16_nth store_u32_nth)

text \<open>Reading the rewritten frame gives the translated key, provided the IP header has its five words.\<close>

lemma parse_rewrite:
  assumes p: "Nat_parse f = NatKey k" and ihl: "5 \<le> nat_ihl f"
  shows "Nat_parse (nat_rewrite f h) = NatKey (translate k h)"
proof -
  obtain n where n: "nat_l4_size (ip_protocol f) = Some n" "nat_l4 f + n \<le> length f" "34 \<le> length f"
    and eth: "u16_at f 12 = ntohs ETH_P_IP" "u16_at f 12 \<noteq> ntohs ETH_P_ARP"
    and k: "k = \<lparr>st_src_ip = u32_at f 26, st_dst_ip = u32_at f 30, st_src_port = u16_at f (fst (nat_ports_at f)),
      st_dst_port = u16_at f (snd (nat_ports_at f)), st_proto = ip_protocol f\<rparr>"
    using p by (auto simp: Nat_parse_def split: if_splits option.splits)
  have l4: "34 \<le> nat_l4 f" using ihl by (simp add: nat_l4_def)
  have n8: "8 \<le> n" using n(1) by (auto simp: nat_l4_size_def split: if_splits)
  define g where "g = nat_rewrite f h"
  obtain sp dp where at: "nat_ports_at f = (sp, dp)" by fastforce
  have pos: "nat_l4 f \<le> sp" "sp + 1 < length f" "nat_l4 f \<le> dp" "dp + 1 < length f"
    and same: "if ip_protocol f = 1 then sp = dp else sp + 2 = dp"
    using at n(2) n8 by (auto simp: nat_ports_at_def split: if_splits)
  have low: "g ! j = f ! j" if "j < 26" for j
    using that pos l4 n(3) by (simp add: g_def nat_rewrite_def at store_u16_nth store_u32_nth)
  have len: "length g = length f" by (simp add: g_def nat_rewrite_def at)
  have hdr: "ip_protocol g = ip_protocol f" "u16_at g 12 = u16_at f 12" "nat_ihl g = nat_ihl f"
    by (simp_all add: ip_protocol_def u16_at_def nat_ihl_def low)
  have ports: "nat_ports_at g = nat_ports_at f" "nat_l4 g = nat_l4 f" by (simp_all add: nat_ports_at_def nat_l4_def hdr)
  have parse: "Nat_parse g = NatKey \<lparr>st_src_ip = u32_at g 26, st_dst_ip = u32_at g 30, st_src_port = u16_at g sp,
      st_dst_port = u16_at g dp, st_proto = ip_protocol f\<rparr>"
    using n eth by (simp add: Nat_parse_def hdr len ports at)
  have "translate k h = \<lparr>st_src_ip = u32_at g 26, st_dst_ip = u32_at g 30, st_src_port = u16_at g sp,
      st_dst_port = u16_at g dp, st_proto = ip_protocol f\<rparr>"
  proof (cases "src_rule (hit_rule h)")
    case True
    then have g: "g = store_u16 (store_u32 f 26 (hit_ip h)) sp (hit_port h)" by (simp add: g_def nat_rewrite_def at)
    show ?thesis using True pos l4 n(3) same
      by (auto simp: translate_def k at g u32_at_other u16_at_other split: if_splits)
  next
    case False
    then have g: "g = store_u16 (store_u32 f 30 (hit_ip h)) dp (hit_port h)" by (simp add: g_def nat_rewrite_def at)
    show ?thesis using False pos l4 n(3) same
      by (auto simp: translate_def k at g u32_at_other u16_at_other split: if_splits)
  qed
  then show ?thesis using parse by (simp add: g_def)
qed

lemma Nat_rx_step:
  assumes p: "Nat_parse f = NatKey k" and ihl: "5 \<le> nat_ihl f"
  shows "\<exists>f' cs. Nat_rx lk dir f st = (RX_OK, f', cs, snd (nat_step lk dir k st)) \<and>
    Nat_parse f' = NatKey (fst (nat_step lk dir k st)) \<and> length f' = length f"
proof (cases "nat_lookup lk dir k st")
  case (Pair ho st')
  show ?thesis
  proof (cases ho)
    case None
    then show ?thesis using p Pair by (simp add: Nat_rx_def nat_step_def)
  next
    case (Some h)
    have "length (nat_rewrite f h) = length f" by (simp add: nat_rewrite_def split: prod.split)
    then show ?thesis using p Pair Some parse_rewrite [OF p ihl] by (simp add: Nat_rx_def nat_step_def)
  qed
qed

section \<open>Answers\<close>

definition answer :: "st_k \<Rightarrow> st_k" where
  "answer k = \<lparr>st_src_ip = st_dst_ip k, st_dst_ip = st_src_ip k, st_src_port = st_dst_port k, st_dst_port = st_src_port k, st_proto = st_proto k\<rparr>"

lemma answer_answer [simp]: "answer (answer k) = k"
  by (simp add: answer_def)

text \<open>Keys of frames: the two ports of an ICMP key are equal.\<close>

definition st_key_ok :: "st_k \<Rightarrow> bool" where
  "st_key_ok k \<longleftrightarrow> (st_proto k = 1 \<longrightarrow> st_src_port k = st_dst_port k)"

lemma parse_key_ok: "Nat_parse f = NatKey k \<Longrightarrow> st_key_ok k"
  by (auto simp: Nat_parse_def st_key_ok_def nat_ports_at_def split: if_splits option.splits)

text \<open>The rules of the two tables have the types of their direction.\<close>

definition rules_typed :: "nat_state \<Rightarrow> bool" where
  "rules_typed st \<longleftrightarrow> (\<forall>v \<in> ran (sm_rules st). src_rule (sm_entry_type v)) \<and> (\<forall>v \<in> ran (dp_rules st). \<not> src_rule (dp_entry_type v))"

definition lookup_in :: "nat_lookups \<Rightarrow> bool" where
  "lookup_in lk \<longleftrightarrow> (\<forall>t a v. sm_lookup lk t a = Some v \<longrightarrow> v \<in> ran t) \<and> (\<forall>t a p q v. dp_lookup lk t a p q = Some v \<longrightarrow> v \<in> ran t)"

text \<open>A hit in a direction is of the type of the direction.\<close>

lemma nat_lookup_typed:
  assumes "nat_lookup lk dir k st = (Some h, st')" "rules_typed st" "lookup_in lk"
  shows "src_rule (hit_rule h) \<longleftrightarrow> dir = NATTYPE_EGRESS"
  using assms
  by (fastforce simp: nat_lookup_def rules_typed_def lookup_in_def src_rule_def split: nat_type.splits option.splits prod.splits)

lemma translated_key: "translate k h = answer (reverse_key k h)" if "src_rule (hit_rule h)" "st_key_ok k"
  using that by (auto simp: translate_def answer_def reverse_key_def st_key_ok_def)

lemma translated_key': "translate k h = answer (forward_key k h)" if "\<not> src_rule (hit_rule h)" "st_key_ok k"
  using that by (auto simp: translate_def answer_def forward_key_def st_key_ok_def)

text \<open>
  After a packet that created a session, packets of its direction get the same translation and leave the state alone,
  and the answer to the translated packet becomes the answer to the packet.
\<close>

lemma nat_roundtrip:
  assumes hit: "nat_lookup lk dir k st = (Some h, st')" "update_session_table h"
    and ok: "st_key_ok k" "rules_typed st" "lookup_in lk"
  defines "other \<equiv> (case dir of NATTYPE_EGRESS \<Rightarrow> NATTYPE_INGRESS | NATTYPE_INGRESS \<Rightarrow> NATTYPE_EGRESS)"
    and "st2 \<equiv> nat_update_sessions k h st'"
  shows "nat_step lk other (answer (translate k h)) st2 = (answer k, st2)" "nat_step lk dir k st2 = (translate k h, st2)"
proof -
  have t: "src_rule (hit_rule h) \<longleftrightarrow> dir = NATTYPE_EGRESS" by (rule nat_lookup_typed [OF hit(1) ok(2,3)])
  show "nat_step lk other (answer (translate k h)) st2 = (answer k, st2)"
  proof (cases dir)
    case NATTYPE_EGRESS
    then have s: "src_rule (hit_rule h)" using t by simp
    have "nat_lookup lk NATTYPE_INGRESS (reverse_key k h) st2 =
        (Some \<lparr>hit_ip = st_src_ip k, hit_port = st_src_port k, hit_rule = DNAT, update_session_table = False\<rparr>, st2)"
      using s by (simp add: nat_lookup_def st2_def nat_update_sessions_def reverse_value_def)
    then show ?thesis using NATTYPE_EGRESS ok(1) s
      by (auto simp: other_def translated_key nat_step_def) (auto simp: translate_def answer_def reverse_key_def src_rule_def st_key_ok_def)
  next
    case NATTYPE_INGRESS
    then have s: "\<not> src_rule (hit_rule h)" using t by simp
    have "nat_lookup lk NATTYPE_EGRESS (forward_key k h) st2 =
        (Some \<lparr>hit_ip = st_dst_ip k, hit_port = st_dst_port k, hit_rule = SNAT, update_session_table = False\<rparr>, st2)"
      using s by (simp add: nat_lookup_def st2_def nat_update_sessions_def forward_value_def)
    then show ?thesis using NATTYPE_INGRESS ok(1) s
      by (auto simp: other_def translated_key' nat_step_def) (auto simp: translate_def answer_def forward_key_def src_rule_def st_key_ok_def)
  qed
  show "nat_step lk dir k st2 = (translate k h, st2)"
    using t by (cases dir) (auto simp: nat_step_def nat_lookup_def st2_def nat_update_sessions_def forward_key_def forward_value_def
        reverse_key_def reverse_value_def translate_def src_rule_def)
qed

end
