(* ===== verification/Nat_History.thy ===== *)
theory Nat_History
  imports Nat_Sessions
begin

text \<open>
  The NAT program over time: the ports it hands out, and what the session tables hold after any sequence of frames,
  evictions of the kernel's least-recently-used tables and changes of the source rules. While the allocator has not
  gone round its range, no answer is given to the wrong host; once it has, a new session takes over the answers of an old one.
\<close>

section \<open>The allocator\<close>

text \<open>The port the next allocation takes, as a number of the host, and the ports of a sequence of allocations.\<close>

definition next_port :: "16 word \<Rightarrow> nat" where
  "next_port e = (if e < 1024 \<or> e = 65535 then 1024 else unat e)"

definition port_at :: "16 word \<Rightarrow> nat \<Rightarrow> nat" where
  "port_at e i = 1024 + (next_port e - 1024 + i) mod 64511"

fun allocate :: "nat \<Rightarrow> 16 word \<Rightarrow> 16 word list" where
  "allocate 0 e = []"
| "allocate (Suc n) e = (let (p, e') = get_free_port e in p # allocate n e')"

lemma next_port_range: "1024 \<le> next_port e" "next_port e \<le> 65534"
proof -
  have "e \<noteq> 65535 \<Longrightarrow> unat e \<noteq> 65535" by (simp add: word_unat_eq_iff)
  moreover have "unat e < 65536" using unsigned_less [of e] by simp
  ultimately show "1024 \<le> next_port e" "next_port e \<le> 65534"
    by (auto simp: next_port_def word_less_nat_alt not_less)
qed

lemma get_free_port_next: "get_free_port e = (ntohs (of_nat (next_port e)), of_nat (next_port e) + 1)"
  by (simp add: get_free_port_def next_port_def)

lemma next_port_step: "next_port (of_nat (next_port e) + 1) = (if next_port e = 65534 then 1024 else next_port e + 1)"
proof -
  have "of_nat (next_port e) + 1 = (of_nat (next_port e + 1) :: 16 word)" by simp
  moreover have "unat (of_nat (next_port e + 1) :: 16 word) = next_port e + 1"
    using next_port_range [of e] by (simp add: unat_of_nat del: of_nat_Suc of_nat_add)
  ultimately have u: "unat (of_nat (next_port e) + 1 :: 16 word) = next_port e + 1" by metis
  then have "of_nat (next_port e) + 1 = (65535 :: 16 word) \<longleftrightarrow> next_port e = 65534"
    by (simp add: word_unat_eq_iff)
  then show ?thesis using u next_port_range(1) [of e] by (auto simp: next_port_def [of "_ + 1"] word_less_nat_alt)
qed

lemma port_at_0: "port_at e 0 = next_port e"
  using next_port_range [of e] by (simp add: port_at_def)

lemma port_at_Suc: "port_at (of_nat (next_port e) + 1) i = port_at e (Suc i)"
proof (cases "next_port e = 65534")
  case True
  then show ?thesis using mod_add_self1 [of 64511 i] by (simp add: port_at_def next_port_def [of 65535])
next
  case False
  have "next_port e + 1 - 1024 + i = next_port e - 1024 + Suc i" using next_port_range [of e] by arith
  then show ?thesis using False by (simp only: port_at_def next_port_step if_False)
qed

lemma mod_add_left_cancel: "(c + i) mod m = (c + j) mod m \<longleftrightarrow> i mod m = j mod (m :: nat)"
proof -
  have "(int c + int i) mod int m = (int c + int j) mod int m \<longleftrightarrow> int i mod int m = int j mod int m"
    by (simp add: mod_eq_dvd_iff)
  then show ?thesis by (metis of_nat_add of_nat_eq_iff zmod_int)
qed

lemma port_at_range: "1024 \<le> port_at e i" "port_at e i \<le> 65534"
  using mod_less_divisor [of 64511 "next_port e - 1024 + i"] by (simp_all add: port_at_def)

lemma port_at_eq: "port_at e i = port_at e j \<longleftrightarrow> i mod 64511 = j mod 64511"
  by (simp add: port_at_def mod_add_left_cancel)

lemma unat_port_at: "unat (of_nat (port_at e i) :: 16 word) = port_at e i"
  using port_at_range [of e i] by (simp add: unat_of_nat)

lemma port_word_eq: "(of_nat (port_at e i) :: 16 word) = of_nat (port_at e' j) \<longleftrightarrow> port_at e i = port_at e' j"
  by (metis unat_port_at)

lemma wire_port_eq: "(ntohs (of_nat (port_at e i)) = ntohs (of_nat (port_at e' j))) \<longleftrightarrow> port_at e i = port_at e' j"
  by (simp add: port_word_eq)

lemma allocate_ports: "allocate n e = map (\<lambda>i. ntohs (of_nat (port_at e i))) [0..<n]"
proof (induction n arbitrary: e)
  case (Suc n)
  have "[0..<Suc n] = 0 # map Suc [0..<n]" by (simp add: map_Suc_upt upt_conv_Cons del: upt_Suc)
  then show ?case by (simp add: Suc get_free_port_next port_at_0 port_at_Suc comp_def del: upt_Suc)
qed simp

section \<open>Histories\<close>

text \<open>
  What can happen to the tables of a NAT with source rules only: frames in either direction, evictions from the two session tables
  and new source rules. The number counts the allocations.
\<close>

inductive nat_history :: "nat_lookups \<Rightarrow> nat_state \<Rightarrow> nat \<Rightarrow> nat_state \<Rightarrow> bool" for lk s where
  nat_start: "nat_history lk s 0 s"
| nat_frame: "nat_history lk s n t \<Longrightarrow> Nat_rx lk dir f t = (v, f', cs, t') \<Longrightarrow>
    nat_history lk s (if first_free_port t' = first_free_port t then n else Suc n) t'"
| nat_evict: "nat_history lk s n t \<Longrightarrow> e \<subseteq>\<^sub>m egress_session_table t \<Longrightarrow> i \<subseteq>\<^sub>m ingress_session_table t \<Longrightarrow>
    nat_history lk s n (t\<lparr>egress_session_table := e, ingress_session_table := i\<rparr>)"
| nat_rules: "nat_history lk s n t \<Longrightarrow> \<forall>v \<in> ran r. src_rule (sm_entry_type v) \<Longrightarrow> nat_history lk s n (t\<lparr>sm_rules := r\<rparr>)"

text \<open>The NAT with empty session tables and no destination rules.\<close>

definition source_nat :: "nat_state \<Rightarrow> bool" where
  "source_nat st \<longleftrightarrow> egress_session_table st = Map.empty \<and> ingress_session_table st = Map.empty \<and> dp_rules st = Map.empty \<and>
     (\<forall>v \<in> ran (sm_rules st). src_rule (sm_entry_type v))"

text \<open>
  The invariant, with the key that got each port as a ghost: every entry of the tables belongs to the key of the allocation of its port.
\<close>

definition owned :: "16 word \<Rightarrow> st_k list \<Rightarrow> nat_state \<Rightarrow> bool" where
  "owned e own t \<longleftrightarrow>
     next_port (first_free_port t) = port_at e (length own) \<and> dp_rules t = Map.empty \<and>
     (\<forall>v \<in> ran (sm_rules t). src_rule (sm_entry_type v)) \<and>
     (\<forall>k v. egress_session_table t k = Some v \<longrightarrow> st_key_ok k \<and>
        (\<exists>i < length own. own ! i = k \<and> new_port v = ntohs (of_nat (port_at e i)))) \<and>
     (\<forall>r w. ingress_session_table t r = Some w \<longrightarrow>
        (\<exists>i < length own. st_dst_port r = ntohs (of_nat (port_at e i)) \<and> new_ip w = st_src_ip (own ! i) \<and> new_port w = st_src_port (own ! i)))"

lemma owned_start: "source_nat s \<Longrightarrow> owned (first_free_port s) [] s"
  by (simp add: source_nat_def owned_def port_at_0)

lemma free_port_moves: "snd (get_free_port e) \<noteq> e"
proof
  assume "snd (get_free_port e) = e"
  then have "of_nat (next_port e) + 1 = e" by (simp add: get_free_port_next)
  then show False using next_port_step [of e] next_port_range [of e] by (simp split: if_splits)
qed

lemma no_dp_lookup:
  assumes "owned e own t" "lookup_in lk"
  shows "dp_lookup lk (dp_rules t) a p q = None"
proof (rule ccontr)
  assume "dp_lookup lk (dp_rules t) a p q \<noteq> None"
  then obtain w where "dp_lookup lk (dp_rules t) a p q = Some w" by blast
  then have "w \<in> ran (dp_rules t)" using assms(2) unfolding lookup_in_def by blast
  then show False using assms(1) by (simp add: owned_def)
qed

text \<open>A frame either leaves the state alone, or is an egress packet that opens a session.\<close>

lemma frame_cases:
  assumes rx: "Nat_rx lk dir f t = (v, f', cs, t')" and o: "owned e own t" and lk: "lookup_in lk"
  obtains (same) "t' = t"
  | (opened) k h where "st_key_ok k" "src_rule (hit_rule h)" "hit_port h = ntohs (of_nat (next_port (first_free_port t)))"
      "t' = nat_update_sessions k h (t\<lparr>first_free_port := of_nat (next_port (first_free_port t)) + 1\<rparr>)"
proof (cases "Nat_parse f")
  case (NatKey k)
  have no: "dp_lookup lk (dp_rules t) a p q = None" for a p q by (rule no_dp_lookup [OF o lk])
  have ok: "st_key_ok k" by (rule parse_key_ok [OF NatKey])
  have ty: "src_rule (sm_entry_type w)" if "sm_lookup lk (sm_rules t) a = Some w" for a w
    using that o lk by (auto simp: owned_def lookup_in_def)
  show ?thesis
  proof (cases "dir = NATTYPE_EGRESS \<and> egress_session_table t k = None \<and> sm_lookup lk (sm_rules t) (st_src_ip k) \<noteq> None")
    case True
    then obtain w where w: "sm_lookup lk (sm_rules t) (st_src_ip k) = Some w" by blast
    define h where "h = \<lparr>hit_ip = sm_external_ip w, hit_port = ntohs (of_nat (next_port (first_free_port t))),
      hit_rule = sm_entry_type w, update_session_table = True\<rparr>"
    have "t' = nat_update_sessions k h (t\<lparr>first_free_port := of_nat (next_port (first_free_port t)) + 1\<rparr>)"
      using rx True NatKey w by (simp add: Nat_rx_def nat_lookup_def get_free_port_next h_def)
    moreover have "src_rule (hit_rule h)" using ty [OF w] by (simp add: h_def)
    ultimately show ?thesis using opened [of k h] ok by (simp add: h_def)
  next
    case False
    then have "t' = t" using rx NatKey no
      by (cases dir) (auto simp: Nat_rx_def nat_lookup_def split: option.splits)
    then show ?thesis by (rule same)
  qed
next
  case NatDrop
  then have "t' = t" using rx by (simp add: Nat_rx_def)
  then show ?thesis by (rule same)
next
  case NatPass
  then have "t' = t" using rx by (simp add: Nat_rx_def)
  then show ?thesis by (rule same)
qed

lemma ex_append1: "(\<exists>i < length xs. P (xs ! i) i) \<or> P x (length xs) \<Longrightarrow> \<exists>i < length (xs @ [x]). P ((xs @ [x]) ! i) i"
proof (elim disjE exE conjE)
  fix i assume "i < length xs" "P (xs ! i) i"
  then show ?thesis by (intro exI [of _ i]) (simp add: nth_append)
next
  assume "P x (length xs)"
  then show ?thesis by (intro exI [of _ "length xs"]) simp
qed

lemma owned_open:
  assumes o: "owned e own t" and k: "st_key_ok k" and h: "src_rule (hit_rule h)" "hit_port h = ntohs (of_nat (next_port (first_free_port t)))"
  shows "owned e (own @ [k]) (nat_update_sessions k h (t\<lparr>first_free_port := of_nat (next_port (first_free_port t)) + 1\<rparr>))"
proof -
  let ?n = "length own"
  have p: "next_port (first_free_port t) = port_at e ?n" using o by (simp add: owned_def)
  have "next_port (of_nat (next_port (first_free_port t)) + 1) = port_at e (Suc ?n)"
  proof -
    have "port_at e (Suc ?n) = 1024 + Suc (port_at e ?n - 1024) mod 64511" by (simp add: port_at_def mod_Suc_eq)
    moreover have "port_at e ?n \<noteq> 65534 \<Longrightarrow> Suc (port_at e ?n - 1024) mod 64511 = port_at e ?n + 1 - 1024"
      using port_at_range [of e ?n] by simp
    ultimately show ?thesis using p port_at_range [of e ?n] next_port_step [of "first_free_port t"] by (simp split: if_splits)
  qed
  moreover have "st_dst_port (reverse_key k h) = ntohs (of_nat (port_at e ?n))" using h p by (simp add: reverse_key_def)
  moreover have "\<exists>i < length (own @ [k]). (own @ [k]) ! i = k' \<and> new_port v = ntohs (of_nat (port_at e i))"
    if "((egress_session_table t)(forward_key k h \<mapsto> forward_value k h)) k' = Some v" for k' v
    using that o h p
    by (intro ex_append1 [of own "\<lambda>x i. x = k' \<and> new_port v = ntohs (of_nat (port_at e i))"])
      (auto simp: owned_def forward_key_def forward_value_def split: if_splits)
  moreover have "\<exists>i < length (own @ [k]). st_dst_port r = ntohs (of_nat (port_at e i)) \<and> new_ip w = st_src_ip ((own @ [k]) ! i) \<and>
      new_port w = st_src_port ((own @ [k]) ! i)"
    if "((ingress_session_table t)(reverse_key k h \<mapsto> reverse_value k h)) r = Some w" for r w
    using that o h p calculation(2)
    by (intro ex_append1 [of own "\<lambda>x i. st_dst_port r = ntohs (of_nat (port_at e i)) \<and> new_ip w = st_src_ip x \<and> new_port w = st_src_port x"])
      (auto simp: owned_def reverse_value_def split: if_splits)
  moreover have "st_key_ok k'" if "((egress_session_table t)(forward_key k h \<mapsto> forward_value k h)) k' = Some v" for k' v
    using that o h k by (auto simp: owned_def forward_key_def split: if_splits)
  ultimately show ?thesis using o unfolding owned_def nat_update_sessions_def by simp
qed

lemma owned_evict:
  "owned e own t \<Longrightarrow> a \<subseteq>\<^sub>m egress_session_table t \<Longrightarrow> b \<subseteq>\<^sub>m ingress_session_table t \<Longrightarrow>
   owned e own (t\<lparr>egress_session_table := a, ingress_session_table := b\<rparr>)"
  unfolding owned_def by (simp add: map_le_def dom_def)

lemma nat_history_owned:
  assumes "nat_history lk s n t" "source_nat s" "lookup_in lk"
  shows "\<exists>own. length own = n \<and> owned (first_free_port s) own t"
  using assms
proof (induction rule: nat_history.induct)
  case nat_start
  then show ?case using owned_start by fastforce
next
  case (nat_frame n t dir f v f' cs t')
  then obtain own where own: "length own = n" "owned (first_free_port s) own t" by blast
  from nat_frame.hyps(2) own(2) nat_frame.prems(2) show ?case
  proof (cases rule: frame_cases)
    case same
    then show ?thesis using own by auto
  next
    case (opened k h)
    have "first_free_port t' \<noteq> first_free_port t"
      using free_port_moves [of "first_free_port t"] by (simp add: opened(4) nat_update_sessions_def get_free_port_next)
    moreover have "owned (first_free_port s) (own @ [k]) t'" unfolding opened(4) by (rule owned_open [OF own(2) opened(1-3)])
    ultimately show ?thesis using own(1) by (metis length_append_singleton)
  qed
next
  case (nat_evict n t e i)
  then show ?case using owned_evict by blast
next
  case (nat_rules n t r)
  then show ?case by (auto simp: owned_def)
qed

text \<open>
  While ports are not reused, the answer to a packet of a session goes to the sender, and two sessions of the table look different outside.
\<close>

definition session_hit :: "st_v \<Rightarrow> nat_hit" where
  "session_hit v = \<lparr>hit_ip = new_ip v, hit_port = new_port v, hit_rule = SNAT, update_session_table = False\<rparr>"

lemma owned_key:
  "owned e own t \<Longrightarrow> egress_session_table t k = Some v \<Longrightarrow> \<exists>i < length own. own ! i = k \<and> new_port v = ntohs (of_nat (port_at e i))"
  by (simp add: owned_def)

lemma owned_answer:
  assumes o: "owned e own t" and n: "length own \<le> 64511" and k: "egress_session_table t k = Some v"
    and r: "ingress_session_table t (answer (translate k (session_hit v))) = Some w"
  shows "new_ip w = st_src_ip k \<and> new_port w = st_src_port k"
proof -
  obtain i where i: "i < length own" "own ! i = k" "new_port v = ntohs (of_nat (port_at e i))" using owned_key [OF o k] by blast
  obtain j where j: "j < length own" "st_dst_port (answer (translate k (session_hit v))) = ntohs (of_nat (port_at e j))"
      "new_ip w = st_src_ip (own ! j)" "new_port w = st_src_port (own ! j)" using o r unfolding owned_def by blast
  have "st_dst_port (answer (translate k (session_hit v))) = new_port v" by (simp add: answer_def translate_def session_hit_def src_rule_def)
  then have "port_at e i = port_at e j" using i j wire_port_eq by metis
  then have "i = j" using i(1) j(1) n by (simp add: port_at_eq)
  then show ?thesis using i j by simp
qed

lemma owned_distinct:
  assumes o: "owned e own t" and n: "length own \<le> 64511" and k: "egress_session_table t k = Some v" "egress_session_table t k' = Some v'"
    and eq: "translate k (session_hit v) = translate k' (session_hit v')"
  shows "k = k'"
proof -
  obtain i where i: "i < length own" "own ! i = k" "new_port v = ntohs (of_nat (port_at e i))" using owned_key [OF o k(1)] by blast
  obtain j where j: "j < length own" "own ! j = k'" "new_port v' = ntohs (of_nat (port_at e j))" using owned_key [OF o k(2)] by blast
  have "new_port v = new_port v'" using arg_cong [OF eq, of st_src_port] by (simp add: translate_def session_hit_def src_rule_def)
  then have "port_at e i = port_at e j" using i j wire_port_eq by metis
  then have "i = j" using i(1) j(1) n by (simp add: port_at_eq)
  then show ?thesis using i j by simp
qed

text \<open>When the allocator comes back to the port of a live session, a packet of another host to the same peer takes its answers over.\<close>

lemma reuse_takes_over:
  assumes v: "egress_session_table t k = Some v" "new_ip v = sm_external_ip r" "new_port v = fst (get_free_port (first_free_port t))"
    and k': "egress_session_table t k' = None" "sm_lookup lk (sm_rules t) (st_src_ip k') = Some r" "src_rule (sm_entry_type r)"
    and peer: "st_dst_ip k' = st_dst_ip k" "st_dst_port k' = st_dst_port k \<or> st_proto k = 1" "st_proto k' = st_proto k" "st_key_ok k" "st_key_ok k'"
  defines "t' \<equiv> snd (nat_step lk NATTYPE_EGRESS k' t)"
  shows "fst (nat_step lk NATTYPE_EGRESS k' t) = translate k (session_hit v) \<and>
    ingress_session_table t' (answer (translate k (session_hit v))) =
      Some \<lparr>new_ip = st_src_ip k', new_port = st_src_port k', originating_rule_type = sm_entry_type r\<rparr> \<and>
    (k \<noteq> k' \<longrightarrow> egress_session_table t' k = Some v)"
  using v k' peer
  by (auto simp: t'_def nat_step_def nat_lookup_def translate_def session_hit_def answer_def st_key_ok_def src_rule_def
      nat_update_sessions_def forward_key_def reverse_key_def reverse_value_def split: prod.splits)

end
