(* ===== verification/Nat_Service.thy ===== *)
theory Nat_Service
  imports Nat_Entries Nat_History
begin

text \<open>
  The NAT service: the three lists of rules and masquerading over the tables of the kernel, the rule object that holds them, and the
  service with its callback and its view of the sessions. The theorems say when the kernel holds exactly the rules of the lists, and
  what a rule does to packets.
\<close>

section \<open>State\<close>

text \<open>\<open>nat_external_ip\<close> (\<open>external_ip_\<close>) is the address of the parent port, as text; \<open>nat_dp\<close> holds the tables of the kernel.\<close>

record nat_service =
  snat_rules :: "RuleSnatEntry option list"
  dnat_rules :: "RuleDnatEntry option list"
  portforwarding_rules :: "RulePortForwardingEntry option list"
  masquerade_enabled :: bool
  nat_external_ip :: string
  nat_dp :: nat_state

text \<open>Whether the kernel takes an entry into the table of source rules and into the one of destination rules.\<close>

record nat_room =
  room_sm :: "(sm_k \<rightharpoonup> sm_v) \<Rightarrow> sm_k \<Rightarrow> bool"
  room_dp :: "(dp_k \<rightharpoonup> dp_v) \<Rightarrow> dp_k \<Rightarrow> bool"

definition on_snat :: "((RuleSnatEntry, sm_k, sm_v) rule_state \<Rightarrow> (RuleSnatEntry, sm_k, sm_v) rule_state \<times> 'a result) \<Rightarrow>
    nat_service \<Rightarrow> nat_service \<times> 'a result" where
  "on_snat f s = (let ((rs, t), r) = f (snat_rules s, sm_rules (nat_dp s))
                  in (s\<lparr>snat_rules := rs, nat_dp := (nat_dp s)\<lparr>sm_rules := t\<rparr>\<rparr>, r))"

definition on_dnat :: "((RuleDnatEntry, dp_k, dp_v) rule_state \<Rightarrow> (RuleDnatEntry, dp_k, dp_v) rule_state \<times> 'a result) \<Rightarrow>
    nat_service \<Rightarrow> nat_service \<times> 'a result" where
  "on_dnat f s = (let ((rs, t), r) = f (dnat_rules s, dp_rules (nat_dp s))
                  in (s\<lparr>dnat_rules := rs, nat_dp := (nat_dp s)\<lparr>dp_rules := t\<rparr>\<rparr>, r))"

definition on_portforwarding :: "((RulePortForwardingEntry, dp_k, dp_v) rule_state \<Rightarrow> (RulePortForwardingEntry, dp_k, dp_v) rule_state \<times> 'a result) \<Rightarrow>
    nat_service \<Rightarrow> nat_service \<times> 'a result" where
  "on_portforwarding f s = (let ((rs, t), r) = f (portforwarding_rules s, dp_rules (nat_dp s))
                  in (s\<lparr>portforwarding_rules := rs, nat_dp := (nat_dp s)\<lparr>dp_rules := t\<rparr>\<rparr>, r))"

definition on_rules :: "('e option list \<Rightarrow> 'e option list \<times> unit result) \<Rightarrow> ('e, 'k, 'v) rule_state \<Rightarrow> ('e, 'k, 'v) rule_state \<times> unit result" where
  "on_rules f = (\<lambda>(rs, t). let (rs', r) = f rs in ((rs', t), r))"

text \<open>\<open>toJsonObject\<close> of a list.\<close>

fun json_list :: "('e \<Rightarrow> 'c) \<Rightarrow> 'e option list \<Rightarrow> 'c list result" where
  "json_list f [] = Inr []"
| "json_list f (None # rs) = Inl null_deref"
| "json_list f (Some e # rs) = rbind (json_list f rs) (\<lambda>cs. Inr (f e # cs))"

section \<open>The lists\<close>

subsection \<open>\<open>RuleSnat\<close>\<close>

definition RuleSnat_getEntry :: "32 word \<Rightarrow> nat_service \<Rightarrow> RuleSnatEntry result" where
  "RuleSnat_getEntry i s = getEntry snat_ops i (snat_rules s)"

definition RuleSnat_addEntry :: "nat_room \<Rightarrow> RuleSnatEntryJsonObject \<Rightarrow> nat_service \<Rightarrow> nat_service \<times> unit result" where
  "RuleSnat_addEntry room c = on_snat (addEntry snat_ops (room_sm room) c)"

definition RuleSnat_addEntryList :: "nat_room \<Rightarrow> RuleSnatEntryJsonObject list \<Rightarrow> nat_service \<Rightarrow> nat_service \<times> unit result" where
  "RuleSnat_addEntryList room cs = on_snat (addEntryList snat_ops (room_sm room) cs)"

definition RuleSnat_replaceEntry :: "nat_room \<Rightarrow> 32 word \<Rightarrow> RuleSnatEntryJsonObject \<Rightarrow> nat_service \<Rightarrow> nat_service \<times> unit result" where
  "RuleSnat_replaceEntry room i c = on_snat (replaceEntry snat_ops (room_sm room) i c)"

definition RuleSnat_delEntry :: "32 word \<Rightarrow> nat_service \<Rightarrow> nat_service \<times> unit result" where
  "RuleSnat_delEntry i = on_snat (delEntry snat_ops i)"

definition RuleSnat_delEntryList :: "nat_service \<Rightarrow> nat_service \<times> unit result" where
  "RuleSnat_delEntryList = on_snat (delEntryList snat_ops)"

definition RuleSnat_update :: "RuleSnatEntryJsonObject list \<Rightarrow> nat_service \<Rightarrow> nat_service \<times> unit result" where
  "RuleSnat_update cs = on_snat (on_rules (update_entries snat_ops cs))"

definition RuleSnat_toJsonObject :: "nat_service \<Rightarrow> RuleSnatEntryJsonObject list result" where
  "RuleSnat_toJsonObject s = json_list RuleSnatEntry_toJsonObject (snat_rules s)"

definition RuleSnat_append :: "nat_room \<Rightarrow> string \<Rightarrow> string \<Rightarrow> nat_service \<Rightarrow> nat_service \<times> 32 word result" where
  "RuleSnat_append room externalIp internalNet s =
     (let i = of_nat (length (snat_rules s))
      in sbind (RuleSnat_addEntry room \<lparr>sc_id = i, sc_internalNet = Some internalNet, sc_externalIp = Some externalIp\<rparr> s) (\<lambda>_ s. (s, Inr i)))"

subsection \<open>\<open>RuleDnat\<close>\<close>

definition RuleDnat_getEntry :: "32 word \<Rightarrow> nat_service \<Rightarrow> RuleDnatEntry result" where
  "RuleDnat_getEntry i s = getEntry dnat_ops i (dnat_rules s)"

definition RuleDnat_addEntry :: "nat_room \<Rightarrow> RuleDnatEntryJsonObject \<Rightarrow> nat_service \<Rightarrow> nat_service \<times> unit result" where
  "RuleDnat_addEntry room c = on_dnat (addEntry dnat_ops (room_dp room) c)"

definition RuleDnat_addEntryList :: "nat_room \<Rightarrow> RuleDnatEntryJsonObject list \<Rightarrow> nat_service \<Rightarrow> nat_service \<times> unit result" where
  "RuleDnat_addEntryList room cs = on_dnat (addEntryList dnat_ops (room_dp room) cs)"

definition RuleDnat_replaceEntry :: "nat_room \<Rightarrow> 32 word \<Rightarrow> RuleDnatEntryJsonObject \<Rightarrow> nat_service \<Rightarrow> nat_service \<times> unit result" where
  "RuleDnat_replaceEntry room i c = on_dnat (replaceEntry dnat_ops (room_dp room) i c)"

definition RuleDnat_delEntry :: "32 word \<Rightarrow> nat_service \<Rightarrow> nat_service \<times> unit result" where
  "RuleDnat_delEntry i = on_dnat (delEntry dnat_ops i)"

definition RuleDnat_delEntryList :: "nat_service \<Rightarrow> nat_service \<times> unit result" where
  "RuleDnat_delEntryList = on_dnat (delEntryList dnat_ops)"

definition RuleDnat_update :: "RuleDnatEntryJsonObject list \<Rightarrow> nat_service \<Rightarrow> nat_service \<times> unit result" where
  "RuleDnat_update cs = on_dnat (on_rules (update_entries dnat_ops cs))"

definition RuleDnat_toJsonObject :: "nat_service \<Rightarrow> RuleDnatEntryJsonObject list result" where
  "RuleDnat_toJsonObject s = json_list RuleDnatEntry_toJsonObject (dnat_rules s)"

definition RuleDnat_append :: "nat_room \<Rightarrow> string \<Rightarrow> string \<Rightarrow> nat_service \<Rightarrow> nat_service \<times> 32 word result" where
  "RuleDnat_append room externalIp internalIp s =
     (let i = of_nat (length (dnat_rules s))
      in sbind (RuleDnat_addEntry room \<lparr>dc_id = i, dc_externalIp = Some externalIp, dc_internalIp = Some internalIp\<rparr> s) (\<lambda>_ s. (s, Inr i)))"

subsection \<open>\<open>RulePortForwarding\<close>\<close>

definition RulePortForwarding_getEntry :: "32 word \<Rightarrow> nat_service \<Rightarrow> RulePortForwardingEntry result" where
  "RulePortForwarding_getEntry i s = getEntry portforwarding_ops i (portforwarding_rules s)"

definition RulePortForwarding_addEntry :: "nat_room \<Rightarrow> RulePortForwardingEntryJsonObject \<Rightarrow> nat_service \<Rightarrow> nat_service \<times> unit result" where
  "RulePortForwarding_addEntry room c = on_portforwarding (addEntry portforwarding_ops (room_dp room) c)"

definition RulePortForwarding_addEntryList :: "nat_room \<Rightarrow> RulePortForwardingEntryJsonObject list \<Rightarrow> nat_service \<Rightarrow> nat_service \<times> unit result" where
  "RulePortForwarding_addEntryList room cs = on_portforwarding (addEntryList portforwarding_ops (room_dp room) cs)"

definition RulePortForwarding_replaceEntry ::
    "nat_room \<Rightarrow> 32 word \<Rightarrow> RulePortForwardingEntryJsonObject \<Rightarrow> nat_service \<Rightarrow> nat_service \<times> unit result" where
  "RulePortForwarding_replaceEntry room i c = on_portforwarding (replaceEntry portforwarding_ops (room_dp room) i c)"

definition RulePortForwarding_delEntry :: "32 word \<Rightarrow> nat_service \<Rightarrow> nat_service \<times> unit result" where
  "RulePortForwarding_delEntry i = on_portforwarding (delEntry portforwarding_ops i)"

definition RulePortForwarding_delEntryList :: "nat_service \<Rightarrow> nat_service \<times> unit result" where
  "RulePortForwarding_delEntryList = on_portforwarding (delEntryList portforwarding_ops)"

definition RulePortForwarding_update :: "RulePortForwardingEntryJsonObject list \<Rightarrow> nat_service \<Rightarrow> nat_service \<times> unit result" where
  "RulePortForwarding_update cs = on_portforwarding (on_rules (update_entries portforwarding_ops cs))"

definition RulePortForwarding_toJsonObject :: "nat_service \<Rightarrow> RulePortForwardingEntryJsonObject list result" where
  "RulePortForwarding_toJsonObject s = json_list RulePortForwardingEntry_toJsonObject (portforwarding_rules s)"

definition RulePortForwarding_append ::
    "nat_room \<Rightarrow> string \<Rightarrow> 16 word \<Rightarrow> string \<Rightarrow> 16 word \<Rightarrow> string \<Rightarrow> nat_service \<Rightarrow> nat_service \<times> 32 word result" where
  "RulePortForwarding_append room internalIp internalPort externalIp externalPort proto s =
     (let i = of_nat (length (portforwarding_rules s))
      in sbind (RulePortForwarding_addEntry room
                  \<lparr>pc_id = i, pc_externalIp = Some externalIp, pc_externalPort = Some externalPort, pc_proto = Some proto,
                   pc_internalIp = Some internalIp, pc_internalPort = Some internalPort\<rparr> s) (\<lambda>_ s. (s, Inr i)))"

section \<open>Masquerading\<close>

definition masquerade_key :: sm_k where
  "masquerade_key = \<lparr>internal_netmask_len = 0, internal_ip = 0\<rparr>"

definition RuleMasquerade_inject :: "nat_room \<Rightarrow> 32 word \<Rightarrow> nat_service \<Rightarrow> nat_service \<times> bool" where
  "RuleMasquerade_inject room ip s =
     (case table_set (room_sm room) masquerade_key \<lparr>sm_external_ip = ip, sm_entry_type = MASQUERADE\<rparr> (sm_rules (nat_dp s)) of
        (t, Inl _) \<Rightarrow> (s\<lparr>nat_dp := (nat_dp s)\<lparr>sm_rules := t\<rparr>\<rparr>, False)
      | (t, Inr _) \<Rightarrow> (s\<lparr>nat_dp := (nat_dp s)\<lparr>sm_rules := t\<rparr>\<rparr>, True))"

definition RuleMasquerade_enable :: "nat_room \<Rightarrow> nat_service \<Rightarrow> nat_service \<times> bool" where
  "RuleMasquerade_enable room s =
     (if masquerade_enabled s then (s, True)
      else case ip_string_to_nbo_uint (nat_external_ip s) of
             Inl _ \<Rightarrow> (s, False)
           | Inr ip \<Rightarrow> (let (s', result) = RuleMasquerade_inject room ip s
                       in (if result then s'\<lparr>masquerade_enabled := True\<rparr> else s', result)))"

definition RuleMasquerade_disable :: "nat_room \<Rightarrow> nat_service \<Rightarrow> nat_service \<times> bool" where
  "RuleMasquerade_disable room s =
     (if \<not> masquerade_enabled s then (s, True)
      else let (s', result) = RuleMasquerade_inject room 0 s
           in (if result then s'\<lparr>masquerade_enabled := False\<rparr> else s', result))"

definition RuleMasquerade_setEnabled :: "nat_room \<Rightarrow> bool \<Rightarrow> nat_service \<Rightarrow> nat_service" where
  "RuleMasquerade_setEnabled room v s =
     (fst (if v then RuleMasquerade_enable room s else RuleMasquerade_disable room s))\<lparr>masquerade_enabled := v\<rparr>"

definition RuleMasquerade_update :: "nat_room \<Rightarrow> bool option \<Rightarrow> nat_service \<Rightarrow> nat_service" where
  "RuleMasquerade_update room conf = RuleMasquerade_setEnabled room (case conf of Some v \<Rightarrow> v | None \<Rightarrow> False)"

section \<open>The rule object\<close>

record RuleJsonObject =
  rj_snat :: "RuleSnatEntryJsonObject list option"
  rj_masquerade :: "bool option option"
  rj_dnat :: "RuleDnatEntryJsonObject list option"
  rj_portForwarding :: "RulePortForwardingEntryJsonObject list option"

definition Rule_update :: "nat_room \<Rightarrow> RuleJsonObject \<Rightarrow> nat_service \<Rightarrow> nat_service \<times> unit result" where
  "Rule_update room conf s =
     sbind (if_set (rj_snat conf) RuleSnat_update s) (\<lambda>_ s.
     sbind (if_set (rj_masquerade conf) (\<lambda>c s. (RuleMasquerade_update room c s, Inr ())) s) (\<lambda>_ s.
     sbind (if_set (rj_dnat conf) RuleDnat_update s) (\<lambda>_.
     if_set (rj_portForwarding conf) RulePortForwarding_update)))"

definition Rule_toJsonObject :: "nat_service \<Rightarrow> RuleJsonObject result" where
  "Rule_toJsonObject s =
     rbind (RuleSnat_toJsonObject s) (\<lambda>sn. rbind (RuleDnat_toJsonObject s) (\<lambda>dn. rbind (RulePortForwarding_toJsonObject s) (\<lambda>pf.
       Inr \<lparr>rj_snat = Some sn, rj_masquerade = Some (Some (masquerade_enabled s)), rj_dnat = Some dn, rj_portForwarding = Some pf\<rparr>)))"

text \<open>An exception that leaves a destructor ends the process.\<close>

definition terminate :: error where
  "terminate = UndefinedBehaviour ''std::terminate''"

definition destroy :: "(nat_service \<Rightarrow> nat_service \<times> unit result) \<Rightarrow> nat_service \<Rightarrow> nat_service \<times> unit result" where
  "destroy f s = (case f s of (s', Inl _) \<Rightarrow> (s', Inl terminate) | (s', Inr _) \<Rightarrow> (s', Inr ()))"

text \<open>
  \<open>addSnat\<close> and its likes build a new list, whose update looks for the entries of the configuration in an empty vector, and then destroy
  the old list.
\<close>

definition Rule_addSnat :: "RuleSnatEntryJsonObject list \<Rightarrow> nat_service \<Rightarrow> nat_service \<times> unit result" where
  "Rule_addSnat cs s = (case update_entries snat_ops cs [] of (_, Inl err) \<Rightarrow> (s, Inl err) | (_, Inr _) \<Rightarrow> destroy RuleSnat_delEntryList s)"

definition Rule_delSnat :: "nat_service \<Rightarrow> nat_service \<times> unit result" where
  "Rule_delSnat = RuleSnat_delEntryList"

definition Rule_replaceSnat :: "RuleSnatEntryJsonObject list \<Rightarrow> nat_service \<Rightarrow> nat_service \<times> unit result" where
  "Rule_replaceSnat cs s = sbind (Rule_delSnat s) (\<lambda>_. Rule_addSnat cs)"

definition Rule_addDnat :: "RuleDnatEntryJsonObject list \<Rightarrow> nat_service \<Rightarrow> nat_service \<times> unit result" where
  "Rule_addDnat cs s = (case update_entries dnat_ops cs [] of (_, Inl err) \<Rightarrow> (s, Inl err) | (_, Inr _) \<Rightarrow> destroy RuleDnat_delEntryList s)"

definition Rule_delDnat :: "nat_service \<Rightarrow> nat_service \<times> unit result" where
  "Rule_delDnat = RuleDnat_delEntryList"

definition Rule_replaceDnat :: "RuleDnatEntryJsonObject list \<Rightarrow> nat_service \<Rightarrow> nat_service \<times> unit result" where
  "Rule_replaceDnat cs s = sbind (Rule_delDnat s) (\<lambda>_. Rule_addDnat cs)"

definition Rule_addPortForwarding :: "RulePortForwardingEntryJsonObject list \<Rightarrow> nat_service \<Rightarrow> nat_service \<times> unit result" where
  "Rule_addPortForwarding cs s =
     (case update_entries portforwarding_ops cs [] of (_, Inl err) \<Rightarrow> (s, Inl err) | (_, Inr _) \<Rightarrow> destroy RulePortForwarding_delEntryList s)"

definition Rule_delPortForwarding :: "nat_service \<Rightarrow> nat_service \<times> unit result" where
  "Rule_delPortForwarding = RulePortForwarding_delEntryList"

definition Rule_replacePortForwarding :: "RulePortForwardingEntryJsonObject list \<Rightarrow> nat_service \<Rightarrow> nat_service \<times> unit result" where
  "Rule_replacePortForwarding cs s = sbind (Rule_delPortForwarding s) (\<lambda>_. Rule_addPortForwarding cs)"

text \<open>The constructor with a configuration reads \<open>enabled\<close> before it is set.\<close>

definition Rule_addMasquerade :: "bool option \<Rightarrow> nat_service \<Rightarrow> nat_service \<times> unit result" where
  "Rule_addMasquerade conf s = (s, Inl (UndefinedBehaviour ''uninitialised''))"

definition Rule_delMasquerade :: "nat_room \<Rightarrow> nat_service \<Rightarrow> nat_service \<times> unit result" where
  "Rule_delMasquerade room s = (fst (RuleMasquerade_disable room s), Inr ())"

definition Rule_replaceMasquerade :: "nat_room \<Rightarrow> bool option \<Rightarrow> nat_service \<Rightarrow> nat_service \<times> unit result" where
  "Rule_replaceMasquerade room conf s = sbind (Rule_delMasquerade room s) (\<lambda>_. Rule_addMasquerade conf)"

section \<open>The service\<close>

text \<open>The members of a rule object go in the reverse order of their declaration; masquerading has an empty destructor.\<close>

definition Rule_destroy :: "nat_service \<Rightarrow> nat_service \<times> unit result" where
  "Rule_destroy s = destroy (\<lambda>s. sbind (RulePortForwarding_delEntryList s) (\<lambda>_ s. sbind (RuleDnat_delEntryList s) (\<lambda>_. RuleSnat_delEntryList))) s"

definition fresh_rule :: "nat_service \<Rightarrow> nat_service" where
  "fresh_rule s = s\<lparr>snat_rules := [], dnat_rules := [], portforwarding_rules := [], masquerade_enabled := False\<rparr>"

text \<open>The new rule object is complete before the old one goes.\<close>

definition Nat_addRule :: "nat_room \<Rightarrow> RuleJsonObject \<Rightarrow> nat_service \<Rightarrow> nat_service \<times> unit result" where
  "Nat_addRule room conf s =
     (case Rule_update room conf (fresh_rule s) of
        (s1, Inl err) \<Rightarrow> (s\<lparr>nat_dp := nat_dp s1\<rparr>, Inl err)
      | (s1, Inr _) \<Rightarrow> (let (s2, r) = Rule_destroy (s\<lparr>nat_dp := nat_dp s1\<rparr>) in (s1\<lparr>nat_dp := nat_dp s2\<rparr>, r)))"

definition empty_rule_conf :: RuleJsonObject where
  "empty_rule_conf = \<lparr>rj_snat = None, rj_masquerade = None, rj_dnat = None, rj_portForwarding = None\<rparr>"

definition Nat_delRule :: "nat_room \<Rightarrow> nat_service \<Rightarrow> nat_service \<times> unit result" where
  "Nat_delRule room s = sbind (Rule_destroy s) (\<lambda>_ s'. Rule_update room empty_rule_conf (fresh_rule s'))"

definition Nat_replaceRule :: "nat_room \<Rightarrow> RuleJsonObject \<Rightarrow> nat_service \<Rightarrow> nat_service \<times> unit result" where
  "Nat_replaceRule room conf s = sbind (Nat_delRule room s) (\<lambda>_. Nat_addRule room conf)"

text \<open>The callback for the address of the parent.\<close>

definition Nat_parent_ip :: "nat_room \<Rightarrow> string \<Rightarrow> nat_service \<Rightarrow> nat_service \<times> unit result" where
  "Nat_parent_ip room value s =
     (let s1 = s\<lparr>nat_external_ip := get_ip_from_string value\<rparr>
      in if masquerade_enabled s1
         then (case ip_string_to_nbo_uint (nat_external_ip s1) of
                 Inl err \<Rightarrow> (s1, Inl err)
               | Inr ip \<Rightarrow> (fst (RuleMasquerade_inject room ip s1), Inr ()))
         else (s1, Inr ()))"

definition Nat_new :: "nat_room \<Rightarrow> RuleJsonObject \<Rightarrow> nat_service \<times> unit result" where
  "Nat_new room conf = Nat_addRule room conf
     \<lparr>snat_rules = [], dnat_rules = [], portforwarding_rules = [], masquerade_enabled = False, nat_external_ip = [],
      nat_dp = \<lparr>egress_session_table = Map.empty, ingress_session_table = Map.empty, sm_rules = Map.empty, dp_rules = Map.empty, first_free_port = 0\<rparr>\<rparr>"

section \<open>The natting table\<close>

record NattingTable =
  nt_srcIp :: string
  nt_dstIp :: string
  nt_srcPort :: "16 word"
  nt_dstPort :: "16 word"
  nt_proto :: string
  nt_newIp :: string
  nt_newPort :: "16 word"
  nt_originatingRule :: nat_rule_type

definition proto_from_int_to_string :: "8 word \<Rightarrow> string" where
  "proto_from_int_to_string proto =
     (if proto = 1 then ''icmp'' else if proto = TCP8 then ''tcp'' else if proto = UDP8 then ''udp'' else ''unknown'')"

definition proto_from_string_to_int :: "string \<Rightarrow> 8 word" where
  "proto_from_string_to_int proto =
     (if proto = ''icmp'' \<or> proto = ''ICMP'' then 1
      else if proto = ''tcp'' \<or> proto = ''TCP'' then TCP8
      else if proto = ''udp'' \<or> proto = ''UDP'' then UDP8 else -1)"

text \<open>\<open>getNattingTable\<close> reads the protocol as a number, and hands the port over as it is in the table.\<close>

definition Nat_getNattingTable :: "string \<Rightarrow> string \<Rightarrow> 16 word \<Rightarrow> 16 word \<Rightarrow> string \<Rightarrow> nat_service \<Rightarrow> NattingTable result" where
  "Nat_getNattingTable internalSrc internalDst internalSport internalDport proto s =
     (case rbind (ip_string_to_nbo_uint internalSrc) (\<lambda>src. rbind (ip_string_to_nbo_uint internalDst) (\<lambda>dst.
            rbind (stol proto) (\<lambda>p.
              case egress_session_table (nat_dp s)
                     \<lparr>st_src_ip = src, st_dst_ip = dst, st_src_port = ntohs internalSport, st_dst_port = ntohs internalDport, st_proto = word_of_int p\<rparr> of
                None \<Rightarrow> Inl (RuntimeError ''Table get error: '') | Some v \<Rightarrow> Inr v))) of
        Inl _ \<Rightarrow> Inl (RuntimeError ''Natting table entry not found'')
      | Inr v \<Rightarrow> Inr \<lparr>nt_srcIp = internalSrc, nt_dstIp = internalDst, nt_srcPort = internalSport, nt_dstPort = internalDport,
          nt_proto = proto_from_int_to_string (proto_from_string_to_int proto), nt_newIp = nbo_uint_to_ip_string (new_ip v),
          nt_newPort = new_port v, nt_originatingRule = originating_rule_type v\<rparr>)"

text \<open>The list is what the kernel returns, in its order.\<close>

definition natting_entry :: "st_k \<times> st_v \<Rightarrow> NattingTable" where
  "natting_entry = (\<lambda>(k, v). \<lparr>nt_srcIp = nbo_uint_to_ip_string (st_src_ip k), nt_dstIp = nbo_uint_to_ip_string (st_dst_ip k),
     nt_srcPort = ntohs (st_src_port k), nt_dstPort = ntohs (st_dst_port k), nt_proto = proto_from_int_to_string (st_proto k),
     nt_newIp = nbo_uint_to_ip_string (new_ip v), nt_newPort = ntohs (new_port v), nt_originatingRule = originating_rule_type v\<rparr>)"

definition Nat_getNattingTableList :: "(st_k \<times> st_v) list \<Rightarrow> NattingTable list" where
  "Nat_getNattingTableList map_entries = map natting_entry map_entries"

definition Nat_delNattingTableList :: "nat_service \<Rightarrow> nat_service" where
  "Nat_delNattingTableList s = s\<lparr>nat_dp := (nat_dp s)\<lparr>egress_session_table := Map.empty, ingress_session_table := Map.empty\<rparr>\<rparr>"

text \<open>Entries of the natting table cannot be changed. An update names a session and new values for it.\<close>

record NattingTableJsonObject =
  nj_internalSrc :: string
  nj_internalDst :: string
  nj_internalSport :: "16 word"
  nj_internalDport :: "16 word"
  nj_proto :: string
  nj_originatingRule :: "nat_rule_type option"
  nj_externalIp :: "string option"
  nj_externalPort :: "16 word option"

definition NattingTable_update :: "NattingTableJsonObject \<Rightarrow> unit result" where
  "NattingTable_update conf =
     (if nj_originatingRule conf \<noteq> None \<or> nj_externalIp conf \<noteq> None \<or> nj_externalPort conf \<noteq> None
      then Inl (RuntimeError ''Cannot modify a natting table entry'') else Inr ())"

fun natting_updates :: "NattingTableJsonObject list \<Rightarrow> nat_service \<Rightarrow> nat_service \<times> unit result" where
  "natting_updates [] s = (s, Inr ())"
| "natting_updates (i # is) s =
     (case rbind (Nat_getNattingTable (nj_internalSrc i) (nj_internalDst i) (nj_internalSport i) (nj_internalDport i) (nj_proto i) s)
             (\<lambda>_. NattingTable_update i) of
        Inl err \<Rightarrow> (s, Inl err) | Inr _ \<Rightarrow> natting_updates is s)"

text \<open>\<open>Nat::update\<close>, without the part of the base class.\<close>

definition Nat_update :: "nat_room \<Rightarrow> RuleJsonObject option \<Rightarrow> NattingTableJsonObject list option \<Rightarrow> nat_service \<Rightarrow> nat_service \<times> unit result" where
  "Nat_update room rule nattingTable s = sbind (if_set rule (Rule_update room) s) (\<lambda>_. if_set nattingTable natting_updates)"

end
