(* ===== verification/Nat_Reach.thy ===== *)
theory Nat_Reach
  imports Nat_Service
begin

text \<open>
  The states the NAT service can reach with the operations that keep its lists and the kernel together: rules added by \<open>append\<close>, or by number
  with the next number, the last rule replaced under its number, rules deleted by number or all together, whole lists and the rule object
  replaced, masquerading turned on and off, new addresses of the parent, packets, and flushes of the session tables. In all of these states
  the kernel holds exactly the rules of the lists. The theorem rests on the contract of \<open>Nat_Rules\<close> for the three lists.

  Left out are the operations after which it does not: adding a rule under another number than the next, replacing a rule that is not the last
  or under another number (two rules then have one number, \<open>replace_number_twice\<close>), updating a rule (only the list changes), deleting the number
  after the last (\<open>delete_past_end\<close>), and an insertion the kernel refuses (the rule is in the list already). A service created with rules does
  not come to exist (\<open>initial_rules_rejected\<close>).
\<close>

section \<open>The invariant\<close>

definition nat_synced :: "RuleSnatEntry list \<Rightarrow> RuleDnatEntry list \<Rightarrow> RulePortForwardingEntry list \<Rightarrow> nat_service \<Rightarrow> bool" where
  "nat_synced ss ds ps s \<longleftrightarrow>
     snat_rules s = map Some ss \<and> dnat_rules s = map Some ds \<and> portforwarding_rules s = map Some ps \<and>
     in_sync snat_ops snat_ok snat_own ss (sm_rules (nat_dp s)) \<and>
     in_sync dnat_ops (\<lambda>_. True) dnat_own ds (dp_rules (nat_dp s)) \<and>
     in_sync portforwarding_ops (\<lambda>_. True) portforwarding_own ps (dp_rules (nat_dp s)) \<and>
     (\<forall>k. \<not> snat_own k \<longrightarrow> k \<noteq> masquerade_key \<longrightarrow> sm_rules (nat_dp s) k = None) \<and>
     (\<forall>v. sm_rules (nat_dp s) masquerade_key = Some v \<longrightarrow> sm_entry_type v = MASQUERADE)"

lemma synced_own_cong: "(\<And>k. own k \<Longrightarrow> t' k = t k) \<Longrightarrow> in_sync ops ok own es t \<Longrightarrow> in_sync ops ok own es t'"
  by (simp add: in_sync_def)

lemma masquerade_not_own [simp]: "\<not> snat_own masquerade_key"
  by (simp add: snat_own_def masquerade_key_def)

lemma own_partition: "dnat_own k \<longleftrightarrow> \<not> portforwarding_own k"
  by (simp add: dnat_own_def portforwarding_own_def)

text \<open>A change of one list with its part of the table.\<close>

lemma synced_snat:
  assumes s: "nat_synced ss ds ps s" and c: "in_sync snat_ops snat_ok snat_own ss' t" "\<And>k. \<not> snat_own k \<Longrightarrow> t k = sm_rules (nat_dp s) k"
  shows "nat_synced ss' ds ps (s\<lparr>snat_rules := map Some ss', nat_dp := (nat_dp s)\<lparr>sm_rules := t\<rparr>\<rparr>)"
  using s c by (simp add: nat_synced_def)

lemma synced_dnat:
  assumes s: "nat_synced ss ds ps s" and c: "in_sync dnat_ops (\<lambda>_. True) dnat_own ds' t" "\<And>k. \<not> dnat_own k \<Longrightarrow> t k = dp_rules (nat_dp s) k"
  shows "nat_synced ss ds' ps (s\<lparr>dnat_rules := map Some ds', nat_dp := (nat_dp s)\<lparr>dp_rules := t\<rparr>\<rparr>)"
proof -
  have "in_sync portforwarding_ops (\<lambda>_. True) portforwarding_own ps t"
    by (rule synced_own_cong [of _ _ "dp_rules (nat_dp s)"]) (use s c(2) in \<open>simp_all add: nat_synced_def own_partition\<close>)
  then show ?thesis using s c(1) by (simp add: nat_synced_def)
qed

lemma synced_portforwarding:
  assumes s: "nat_synced ss ds ps s"
    and c: "in_sync portforwarding_ops (\<lambda>_. True) portforwarding_own ps' t" "\<And>k. \<not> portforwarding_own k \<Longrightarrow> t k = dp_rules (nat_dp s) k"
  shows "nat_synced ss ds ps' (s\<lparr>portforwarding_rules := map Some ps', nat_dp := (nat_dp s)\<lparr>dp_rules := t\<rparr>\<rparr>)"
proof -
  have "in_sync dnat_ops (\<lambda>_. True) dnat_own ds t"
    by (rule synced_own_cong [of _ _ "dp_rules (nat_dp s)"]) (use s c(2) in \<open>simp_all add: nat_synced_def own_partition\<close>)
  then show ?thesis using s c(1) by (simp add: nat_synced_def)
qed

section \<open>Reachable states\<close>

text \<open>What the kernel answers when it has no room.\<close>

definition set_error :: error where
  "set_error = RuntimeError ''Table set error: ''"

text \<open>Replacing the rule \<open>i\<close> of \<open>n\<close>: the last one under its own number, or one that is not there (which is refused).\<close>

definition replaceable :: "32 word \<Rightarrow> 32 word \<Rightarrow> nat \<Rightarrow> bool" where
  "replaceable i ident n \<longleftrightarrow> n < 2 ^ 31 \<and> (Suc (unat i) = n \<and> ident = i \<or> n < unat i)"

inductive nat_reach :: "nat_room \<Rightarrow> nat_lookups \<Rightarrow> nat_service \<Rightarrow> bool" for room lk where
  reach_new: "Nat_new room empty_rule_conf = (s, r) \<Longrightarrow> nat_reach room lk s"
| reach_append_snat: "nat_reach room lk s \<Longrightarrow> RuleSnat_append room externalIp internalNet s = (s', r) \<Longrightarrow> r \<noteq> Inl set_error \<Longrightarrow>
    length (snat_rules s) < 2 ^ 31 \<Longrightarrow> nat_reach room lk s'"
| reach_append_dnat: "nat_reach room lk s \<Longrightarrow> RuleDnat_append room externalIp internalIp s = (s', r) \<Longrightarrow> r \<noteq> Inl set_error \<Longrightarrow>
    length (dnat_rules s) < 2 ^ 31 \<Longrightarrow> nat_reach room lk s'"
| reach_append_portforwarding: "nat_reach room lk s \<Longrightarrow> RulePortForwarding_append room internalIp internalPort externalIp externalPort proto s = (s', r) \<Longrightarrow> r \<noteq> Inl set_error \<Longrightarrow>
    length (portforwarding_rules s) < 2 ^ 31 \<Longrightarrow> nat_reach room lk s'"
| reach_add_snat: "nat_reach room lk s \<Longrightarrow> RuleSnat_addEntry room sc s = (s', u) \<Longrightarrow> u \<noteq> Inl set_error \<Longrightarrow>
    sc_id sc = of_nat (length (snat_rules s)) \<Longrightarrow> length (snat_rules s) < 2 ^ 31 \<Longrightarrow> nat_reach room lk s'"
| reach_add_dnat: "nat_reach room lk s \<Longrightarrow> RuleDnat_addEntry room dc s = (s', u) \<Longrightarrow> u \<noteq> Inl set_error \<Longrightarrow>
    dc_id dc = of_nat (length (dnat_rules s)) \<Longrightarrow> length (dnat_rules s) < 2 ^ 31 \<Longrightarrow> nat_reach room lk s'"
| reach_add_portforwarding: "nat_reach room lk s \<Longrightarrow> RulePortForwarding_addEntry room pc s = (s', u) \<Longrightarrow> u \<noteq> Inl set_error \<Longrightarrow>
    pc_id pc = of_nat (length (portforwarding_rules s)) \<Longrightarrow> length (portforwarding_rules s) < 2 ^ 31 \<Longrightarrow> nat_reach room lk s'"
| reach_replace_snat: "nat_reach room lk s \<Longrightarrow> RuleSnat_replaceEntry room i sc s = (s', u) \<Longrightarrow> u \<noteq> Inl set_error \<Longrightarrow>
    replaceable i (sc_id sc) (length (snat_rules s)) \<Longrightarrow> nat_reach room lk s'"
| reach_replace_dnat: "nat_reach room lk s \<Longrightarrow> RuleDnat_replaceEntry room i dc s = (s', u) \<Longrightarrow> u \<noteq> Inl set_error \<Longrightarrow>
    replaceable i (dc_id dc) (length (dnat_rules s)) \<Longrightarrow> nat_reach room lk s'"
| reach_replace_portforwarding: "nat_reach room lk s \<Longrightarrow> RulePortForwarding_replaceEntry room i pc s = (s', u) \<Longrightarrow> u \<noteq> Inl set_error \<Longrightarrow>
    replaceable i (pc_id pc) (length (portforwarding_rules s)) \<Longrightarrow> nat_reach room lk s'"
| reach_list_snat: "nat_reach room lk s \<Longrightarrow> Rule_addSnat scs s = (s', u) \<or> Rule_replaceSnat scs s = (s', u) \<Longrightarrow> nat_reach room lk s'"
| reach_list_dnat: "nat_reach room lk s \<Longrightarrow> Rule_addDnat dcs s = (s', u) \<or> Rule_replaceDnat dcs s = (s', u) \<Longrightarrow> nat_reach room lk s'"
| reach_list_portforwarding: "nat_reach room lk s \<Longrightarrow> Rule_addPortForwarding pcs s = (s', u) \<or> Rule_replacePortForwarding pcs s = (s', u) \<Longrightarrow>
    nat_reach room lk s'"
| reach_delete_snat: "nat_reach room lk s \<Longrightarrow> RuleSnat_delEntry i s = (s', r) \<Longrightarrow> unat i \<noteq> length (snat_rules s) \<Longrightarrow> nat_reach room lk s'"
| reach_delete_dnat: "nat_reach room lk s \<Longrightarrow> RuleDnat_delEntry i s = (s', r) \<Longrightarrow> unat i \<noteq> length (dnat_rules s) \<Longrightarrow> nat_reach room lk s'"
| reach_delete_portforwarding: "nat_reach room lk s \<Longrightarrow> RulePortForwarding_delEntry i s = (s', r) \<Longrightarrow>
    unat i \<noteq> length (portforwarding_rules s) \<Longrightarrow> nat_reach room lk s'"
| reach_clear_snat: "nat_reach room lk s \<Longrightarrow> RuleSnat_delEntryList s = (s', r) \<Longrightarrow> nat_reach room lk s'"
| reach_clear_dnat: "nat_reach room lk s \<Longrightarrow> RuleDnat_delEntryList s = (s', r) \<Longrightarrow> nat_reach room lk s'"
| reach_clear_portforwarding: "nat_reach room lk s \<Longrightarrow> RulePortForwarding_delEntryList s = (s', r) \<Longrightarrow> nat_reach room lk s'"
| reach_masquerade: "nat_reach room lk s \<Longrightarrow> nat_reach room lk (RuleMasquerade_setEnabled room v s)"
| reach_delMasquerade: "nat_reach room lk s \<Longrightarrow> Rule_delMasquerade room s = (s', u) \<Longrightarrow> nat_reach room lk s'"
| reach_parent: "nat_reach room lk s \<Longrightarrow> Nat_parent_ip room value s = (s', r) \<Longrightarrow> nat_reach room lk s'"
| reach_delRule: "nat_reach room lk s \<Longrightarrow> Nat_delRule room s = (s', r) \<Longrightarrow> nat_reach room lk s'"
| reach_rule: "nat_reach room lk s \<Longrightarrow> Nat_addRule room empty_rule_conf s = (s', u) \<or> Nat_replaceRule room empty_rule_conf s = (s', u) \<Longrightarrow>
    nat_reach room lk s'"
| reach_natting_updates: "nat_reach room lk s \<Longrightarrow> natting_updates njs s = (s', u) \<Longrightarrow> nat_reach room lk s'"
| reach_frame: "nat_reach room lk s \<Longrightarrow> Nat_rx lk dir f (nat_dp s) = (v, f', cs, d) \<Longrightarrow> nat_reach room lk (s\<lparr>nat_dp := d\<rparr>)"
| reach_flush: "nat_reach room lk s \<Longrightarrow> nat_reach room lk (Nat_delNattingTableList s)"

lemma snat_parts: "nat_synced ss ds ps s \<Longrightarrow> snat_rules s = map Some ss \<and> in_sync snat_ops snat_ok snat_own ss (sm_rules (nat_dp s))"
  by (simp add: nat_synced_def)

lemma dnat_parts: "nat_synced ss ds ps s \<Longrightarrow> dnat_rules s = map Some ds \<and> in_sync dnat_ops (\<lambda>_. True) dnat_own ds (dp_rules (nat_dp s))"
  by (simp add: nat_synced_def)

lemma portforwarding_parts: "nat_synced ss ds ps s \<Longrightarrow> portforwarding_rules s = map Some ps \<and>
    in_sync portforwarding_ops (\<lambda>_. True) portforwarding_own ps (dp_rules (nat_dp s))"
  by (simp add: nat_synced_def)

lemma on_snat_keeps:
  assumes s: "nat_synced ss ds ps s" and r: "on_snat f s = (s', r)"
    and f: "\<exists>ss' t. fst (f (map Some ss, sm_rules (nat_dp s))) = (map Some ss', t) \<and> in_sync snat_ops snat_ok snat_own ss' t \<and>
      (\<forall>k. \<not> snat_own k \<longrightarrow> t k = sm_rules (nat_dp s) k)"
  shows "\<exists>ss'. nat_synced ss' ds ps s'"
  using f snat_parts [OF s] r synced_snat [OF s] by (auto simp: on_snat_def split: prod.splits)

lemma on_dnat_keeps:
  assumes s: "nat_synced ss ds ps s" and r: "on_dnat f s = (s', r)"
    and f: "\<exists>ds' t. fst (f (map Some ds, dp_rules (nat_dp s))) = (map Some ds', t) \<and> in_sync dnat_ops (\<lambda>_. True) dnat_own ds' t \<and>
      (\<forall>k. \<not> dnat_own k \<longrightarrow> t k = dp_rules (nat_dp s) k)"
  shows "\<exists>ds'. nat_synced ss ds' ps s'"
  using f dnat_parts [OF s] r synced_dnat [OF s] by (auto simp: on_dnat_def split: prod.splits)

lemma on_portforwarding_keeps:
  assumes s: "nat_synced ss ds ps s" and r: "on_portforwarding f s = (s', r)"
    and f: "\<exists>ps' t. fst (f (map Some ps, dp_rules (nat_dp s))) = (map Some ps', t) \<and> in_sync portforwarding_ops (\<lambda>_. True) portforwarding_own ps' t \<and>
      (\<forall>k. \<not> portforwarding_own k \<longrightarrow> t k = dp_rules (nat_dp s) k)"
  shows "\<exists>ps'. nat_synced ss ds ps' s'"
  using f portforwarding_parts [OF s] r synced_portforwarding [OF s] by (auto simp: on_portforwarding_def split: prod.splits)

text \<open>Steps of the lists.\<close>

lemma sbind_value: "sbind m (\<lambda>_ s. (s, Inr x)) = (s', r) \<Longrightarrow> \<exists>r0. m = (s', r0) \<and> (\<forall>err. r0 = Inl err \<longrightarrow> r = Inl err)"
  by (cases m; cases "snd m") auto

lemma add_snat_keeps:
  assumes s: "nat_synced ss ds ps s" and a: "RuleSnat_addEntry room c s = (s', u)" "u \<noteq> Inl set_error" "sc_id c = of_nat (length (snat_rules s))"
    "length (snat_rules s) < 2 ^ 31"
  shows "\<exists>ss'. nat_synced ss' ds ps s'"
proof -
  have p: "snat_rules s = map Some ss" "in_sync snat_ops snat_ok snat_own ss (sm_rules (nat_dp s))" using snat_parts [OF s] by auto
  have "snd (addEntry snat_ops (room_sm room) c (map Some ss, sm_rules (nat_dp s))) = u"
    using a(1) p(1) by (auto simp: RuleSnat_addEntry_def on_snat_def split: prod.splits)
  then show ?thesis using a p
    by (intro on_snat_keeps [OF s a(1) [unfolded RuleSnat_addEntry_def]] snat.add_keeps) (simp_all add: snat_ops_def set_error_def)
qed

lemma add_dnat_keeps:
  assumes s: "nat_synced ss ds ps s" and a: "RuleDnat_addEntry room c s = (s', u)" "u \<noteq> Inl set_error" "dc_id c = of_nat (length (dnat_rules s))"
    "length (dnat_rules s) < 2 ^ 31"
  shows "\<exists>ds'. nat_synced ss ds' ps s'"
proof -
  have p: "dnat_rules s = map Some ds" "in_sync dnat_ops (\<lambda>_. True) dnat_own ds (dp_rules (nat_dp s))" using dnat_parts [OF s] by auto
  have "snd (addEntry dnat_ops (room_dp room) c (map Some ds, dp_rules (nat_dp s))) = u"
    using a(1) p(1) by (auto simp: RuleDnat_addEntry_def on_dnat_def split: prod.splits)
  then show ?thesis using a p
    by (intro on_dnat_keeps [OF s a(1) [unfolded RuleDnat_addEntry_def]] dnat.add_keeps) (simp_all add: dnat_ops_def set_error_def)
qed

lemma add_portforwarding_keeps:
  assumes s: "nat_synced ss ds ps s" and a: "RulePortForwarding_addEntry room c s = (s', u)" "u \<noteq> Inl set_error"
    "pc_id c = of_nat (length (portforwarding_rules s))" "length (portforwarding_rules s) < 2 ^ 31"
  shows "\<exists>ps'. nat_synced ss ds ps' s'"
proof -
  have p: "portforwarding_rules s = map Some ps" "in_sync portforwarding_ops (\<lambda>_. True) portforwarding_own ps (dp_rules (nat_dp s))"
    using portforwarding_parts [OF s] by auto
  have "snd (addEntry portforwarding_ops (room_dp room) c (map Some ps, dp_rules (nat_dp s))) = u"
    using a(1) p(1) by (auto simp: RulePortForwarding_addEntry_def on_portforwarding_def split: prod.splits)
  then show ?thesis using a p
    by (intro on_portforwarding_keeps [OF s a(1) [unfolded RulePortForwarding_addEntry_def]] portforwarding.add_keeps)
      (simp_all add: portforwarding_ops_def set_error_def)
qed

lemma append_snat_keeps:
  assumes s: "nat_synced ss ds ps s" and a: "RuleSnat_append room externalIp internalNet s = (s', r)" "r \<noteq> Inl set_error" "length (snat_rules s) < 2 ^ 31"
  shows "\<exists>ss'. nat_synced ss' ds ps s'"
proof -
  let ?c = "\<lparr>sc_id = of_nat (length (snat_rules s)), sc_internalNet = Some internalNet, sc_externalIp = Some externalIp\<rparr>"
  obtain r0 where r0: "RuleSnat_addEntry room ?c s = (s', r0)" "\<forall>err. r0 = Inl err \<longrightarrow> r = Inl err"
    using sbind_value [OF a(1) [unfolded RuleSnat_append_def Let_def]] by blast
  then have "r0 \<noteq> Inl set_error" using a(2) by auto
  then show ?thesis by (rule add_snat_keeps [OF s r0(1)]) (use a(3) in simp_all)
qed

lemma append_dnat_keeps:
  assumes s: "nat_synced ss ds ps s" and a: "RuleDnat_append room externalIp internalIp s = (s', r)" "r \<noteq> Inl set_error" "length (dnat_rules s) < 2 ^ 31"
  shows "\<exists>ds'. nat_synced ss ds' ps s'"
proof -
  let ?c = "\<lparr>dc_id = of_nat (length (dnat_rules s)), dc_externalIp = Some externalIp, dc_internalIp = Some internalIp\<rparr>"
  obtain r0 where r0: "RuleDnat_addEntry room ?c s = (s', r0)" "\<forall>err. r0 = Inl err \<longrightarrow> r = Inl err"
    using sbind_value [OF a(1) [unfolded RuleDnat_append_def Let_def]] by blast
  then have "r0 \<noteq> Inl set_error" using a(2) by auto
  then show ?thesis by (rule add_dnat_keeps [OF s r0(1)]) (use a(3) in simp_all)
qed

lemma append_portforwarding_keeps:
  assumes s: "nat_synced ss ds ps s" and a: "RulePortForwarding_append room internalIp internalPort externalIp externalPort proto s = (s', r)" "r \<noteq> Inl set_error"
      "length (portforwarding_rules s) < 2 ^ 31"
  shows "\<exists>ps'. nat_synced ss ds ps' s'"
proof -
  let ?c = "\<lparr>pc_id = of_nat (length (portforwarding_rules s)), pc_externalIp = Some externalIp, pc_externalPort = Some externalPort,
    pc_proto = Some proto, pc_internalIp = Some internalIp, pc_internalPort = Some internalPort\<rparr>"
  obtain r0 where r0: "RulePortForwarding_addEntry room ?c s = (s', r0)" "\<forall>err. r0 = Inl err \<longrightarrow> r = Inl err"
    using sbind_value [OF a(1) [unfolded RulePortForwarding_append_def Let_def]] by blast
  then have "r0 \<noteq> Inl set_error" using a(2) by auto
  then show ?thesis by (rule add_portforwarding_keeps [OF s r0(1)]) (use a(3) in simp_all)
qed

text \<open>Replacing the last rule.\<close>

lemma replace_snat_keeps:
  assumes s: "nat_synced ss ds ps s" and a: "RuleSnat_replaceEntry room i c s = (s', u)" "u \<noteq> Inl set_error"
    "replaceable i (sc_id c) (length (snat_rules s))"
  shows "\<exists>ss'. nat_synced ss' ds ps s'"
proof -
  have p: "snat_rules s = map Some ss" "in_sync snat_ops snat_ok snat_own ss (sm_rules (nat_dp s))" using snat_parts [OF s] by auto
  have "snd (replaceEntry snat_ops (room_sm room) i c (map Some ss, sm_rules (nat_dp s))) = u"
    using a(1) p(1) by (auto simp: RuleSnat_replaceEntry_def on_snat_def split: prod.splits)
  then show ?thesis using a p
    by (intro on_snat_keeps [OF s a(1) [unfolded RuleSnat_replaceEntry_def]] snat.replace_keeps)
      (auto simp: snat_ops_def set_error_def replaceable_def)
qed

lemma replace_dnat_keeps:
  assumes s: "nat_synced ss ds ps s" and a: "RuleDnat_replaceEntry room i c s = (s', u)" "u \<noteq> Inl set_error"
    "replaceable i (dc_id c) (length (dnat_rules s))"
  shows "\<exists>ds'. nat_synced ss ds' ps s'"
proof -
  have p: "dnat_rules s = map Some ds" "in_sync dnat_ops (\<lambda>_. True) dnat_own ds (dp_rules (nat_dp s))" using dnat_parts [OF s] by auto
  have "snd (replaceEntry dnat_ops (room_dp room) i c (map Some ds, dp_rules (nat_dp s))) = u"
    using a(1) p(1) by (auto simp: RuleDnat_replaceEntry_def on_dnat_def split: prod.splits)
  then show ?thesis using a p
    by (intro on_dnat_keeps [OF s a(1) [unfolded RuleDnat_replaceEntry_def]] dnat.replace_keeps)
      (auto simp: dnat_ops_def set_error_def replaceable_def)
qed

lemma replace_portforwarding_keeps:
  assumes s: "nat_synced ss ds ps s" and a: "RulePortForwarding_replaceEntry room i c s = (s', u)" "u \<noteq> Inl set_error"
    "replaceable i (pc_id c) (length (portforwarding_rules s))"
  shows "\<exists>ps'. nat_synced ss ds ps' s'"
proof -
  have p: "portforwarding_rules s = map Some ps" "in_sync portforwarding_ops (\<lambda>_. True) portforwarding_own ps (dp_rules (nat_dp s))"
    using portforwarding_parts [OF s] by auto
  have "snd (replaceEntry portforwarding_ops (room_dp room) i c (map Some ps, dp_rules (nat_dp s))) = u"
    using a(1) p(1) by (auto simp: RulePortForwarding_replaceEntry_def on_portforwarding_def split: prod.splits)
  then show ?thesis using a p
    by (intro on_portforwarding_keeps [OF s a(1) [unfolded RulePortForwarding_replaceEntry_def]] portforwarding.replace_keeps)
      (auto simp: portforwarding_ops_def set_error_def replaceable_def)
qed

lemma snat_ops_keep:
  assumes s: "nat_synced ss ds ps s"
  shows "RuleSnat_delEntry i s = (s', r) \<Longrightarrow> unat i \<noteq> length (snat_rules s) \<Longrightarrow> \<exists>ss'. nat_synced ss' ds ps s'"
    and "RuleSnat_delEntryList s = (s', r) \<Longrightarrow> \<exists>ss'. nat_synced ss' ds ps s'"
  using snat_parts [OF s] unfolding RuleSnat_delEntry_def RuleSnat_delEntryList_def
  by (auto intro!: on_snat_keeps [OF s] snat.del_keeps snat.clear_keeps)

lemma dnat_ops_keep:
  assumes s: "nat_synced ss ds ps s"
  shows "RuleDnat_delEntry i s = (s', r) \<Longrightarrow> unat i \<noteq> length (dnat_rules s) \<Longrightarrow> \<exists>ds'. nat_synced ss ds' ps s'"
    and "RuleDnat_delEntryList s = (s', r) \<Longrightarrow> \<exists>ds'. nat_synced ss ds' ps s'"
  using dnat_parts [OF s] unfolding RuleDnat_delEntry_def RuleDnat_delEntryList_def
  by (auto intro!: on_dnat_keeps [OF s] dnat.del_keeps dnat.clear_keeps)

lemma portforwarding_ops_keep:
  assumes s: "nat_synced ss ds ps s"
  shows "RulePortForwarding_delEntry i s = (s', r) \<Longrightarrow> unat i \<noteq> length (portforwarding_rules s) \<Longrightarrow> \<exists>ps'. nat_synced ss ds ps' s'"
    and "RulePortForwarding_delEntryList s = (s', r) \<Longrightarrow> \<exists>ps'. nat_synced ss ds ps' s'"
  using portforwarding_parts [OF s] unfolding RulePortForwarding_delEntry_def RulePortForwarding_delEntryList_def
  by (auto intro!: on_portforwarding_keeps [OF s] portforwarding.del_keeps portforwarding.clear_keeps)

text \<open>Masquerading writes its own key only.\<close>

lemma synced_dp:
  assumes "nat_synced ss ds ps s" "sm_rules d = sm_rules (nat_dp s)" "dp_rules d = dp_rules (nat_dp s)"
  shows "nat_synced ss ds ps (s\<lparr>nat_dp := d\<rparr>)"
  using assms by (simp add: nat_synced_def)

lemma synced_flags [simp]:
  "nat_synced ss ds ps (s\<lparr>masquerade_enabled := b\<rparr>) = nat_synced ss ds ps s" "nat_synced ss ds ps (s\<lparr>nat_external_ip := a\<rparr>) = nat_synced ss ds ps s"
  by (simp_all add: nat_synced_def)

lemma inject_keeps:
  assumes s: "nat_synced ss ds ps s"
  shows "nat_synced ss ds ps (fst (RuleMasquerade_inject room ip s))"
proof -
  let ?t = "(sm_rules (nat_dp s))(masquerade_key \<mapsto> \<lparr>sm_external_ip = ip, sm_entry_type = MASQUERADE\<rparr>)"
  have "in_sync snat_ops snat_ok snat_own ss ?t"
    by (rule synced_own_cong [of _ _ "sm_rules (nat_dp s)"]) (use s in \<open>auto simp: nat_synced_def\<close>)
  then have "nat_synced ss ds ps (s\<lparr>nat_dp := (nat_dp s)\<lparr>sm_rules := ?t\<rparr>\<rparr>)" using s by (simp add: nat_synced_def)
  then show ?thesis using s by (simp add: RuleMasquerade_inject_def table_set_def synced_dp)
qed

lemma setEnabled_keeps: "nat_synced ss ds ps s \<Longrightarrow> nat_synced ss ds ps (RuleMasquerade_setEnabled room v s)"
  using inject_keeps [of ss ds ps s room]
  by (auto simp: RuleMasquerade_setEnabled_def RuleMasquerade_enable_def RuleMasquerade_disable_def split: sum.splits prod.splits) (metis fst_conv)+

lemma parent_ip_keeps: "nat_synced ss ds ps s \<Longrightarrow> Nat_parent_ip room value s = (s', r) \<Longrightarrow> nat_synced ss ds ps s'"
  using inject_keeps [of ss ds ps "s\<lparr>nat_external_ip := get_ip_from_string value\<rparr>" room]
  by (auto simp: Nat_parent_ip_def Let_def split: if_splits sum.splits)

text \<open>Emptying the lists succeeds and leaves masquerading alone.\<close>

lemma clear_lists:
  assumes s: "nat_synced ss ds ps s"
  shows "\<exists>t. RuleSnat_delEntryList s = (s\<lparr>snat_rules := [], nat_dp := (nat_dp s)\<lparr>sm_rules := t\<rparr>\<rparr>, Inr ()) \<and> t masquerade_key = sm_rules (nat_dp s) masquerade_key \<and>
      nat_synced [] ds ps (s\<lparr>snat_rules := [], nat_dp := (nat_dp s)\<lparr>sm_rules := t\<rparr>\<rparr>)"
    and "\<exists>t. RuleDnat_delEntryList s = (s\<lparr>dnat_rules := [], nat_dp := (nat_dp s)\<lparr>dp_rules := t\<rparr>\<rparr>, Inr ()) \<and>
      nat_synced ss [] ps (s\<lparr>dnat_rules := [], nat_dp := (nat_dp s)\<lparr>dp_rules := t\<rparr>\<rparr>)"
    and "\<exists>t. RulePortForwarding_delEntryList s = (s\<lparr>portforwarding_rules := [], nat_dp := (nat_dp s)\<lparr>dp_rules := t\<rparr>\<rparr>, Inr ()) \<and>
      nat_synced ss ds [] (s\<lparr>portforwarding_rules := [], nat_dp := (nat_dp s)\<lparr>dp_rules := t\<rparr>\<rparr>)"
proof -
  have nil: "in_sync ops ok own [] t" if "\<forall>k. own k \<longrightarrow> t k = None" for ops :: "('a, 'b, 'c, 'd) entry_ops" and ok own t
    using that by (simp add: in_sync_def)
  obtain t where "delEntryList snat_ops (map Some ss, sm_rules (nat_dp s)) = (([], t), Inr ())" "\<forall>k. snat_own k \<longrightarrow> t k = None"
      "\<forall>k. \<not> snat_own k \<longrightarrow> t k = sm_rules (nat_dp s) k" using snat.clear_synced snat_parts [OF s] by blast
  then show "\<exists>t. RuleSnat_delEntryList s = (s\<lparr>snat_rules := [], nat_dp := (nat_dp s)\<lparr>sm_rules := t\<rparr>\<rparr>, Inr ()) \<and> t masquerade_key = sm_rules (nat_dp s) masquerade_key \<and>
      nat_synced [] ds ps (s\<lparr>snat_rules := [], nat_dp := (nat_dp s)\<lparr>sm_rules := t\<rparr>\<rparr>)"
    using snat_parts [OF s] synced_snat [OF s nil, of t] by (intro exI [of _ t]) (simp add: RuleSnat_delEntryList_def on_snat_def)
  obtain t where "delEntryList dnat_ops (map Some ds, dp_rules (nat_dp s)) = (([], t), Inr ())" "\<forall>k. dnat_own k \<longrightarrow> t k = None"
      "\<forall>k. \<not> dnat_own k \<longrightarrow> t k = dp_rules (nat_dp s) k" using dnat.clear_synced dnat_parts [OF s] by blast
  then show "\<exists>t. RuleDnat_delEntryList s = (s\<lparr>dnat_rules := [], nat_dp := (nat_dp s)\<lparr>dp_rules := t\<rparr>\<rparr>, Inr ()) \<and>
      nat_synced ss [] ps (s\<lparr>dnat_rules := [], nat_dp := (nat_dp s)\<lparr>dp_rules := t\<rparr>\<rparr>)"
    using dnat_parts [OF s] synced_dnat [OF s nil, of t] by (intro exI [of _ t]) (simp add: RuleDnat_delEntryList_def on_dnat_def)
  obtain t where "delEntryList portforwarding_ops (map Some ps, dp_rules (nat_dp s)) = (([], t), Inr ())" "\<forall>k. portforwarding_own k \<longrightarrow> t k = None"
      "\<forall>k. \<not> portforwarding_own k \<longrightarrow> t k = dp_rules (nat_dp s) k" using portforwarding.clear_synced portforwarding_parts [OF s] by blast
  then show "\<exists>t. RulePortForwarding_delEntryList s = (s\<lparr>portforwarding_rules := [], nat_dp := (nat_dp s)\<lparr>dp_rules := t\<rparr>\<rparr>, Inr ()) \<and>
      nat_synced ss ds [] (s\<lparr>portforwarding_rules := [], nat_dp := (nat_dp s)\<lparr>dp_rules := t\<rparr>\<rparr>)"
    using portforwarding_parts [OF s] synced_portforwarding [OF s nil, of t]
    by (intro exI [of _ t]) (simp add: RulePortForwarding_delEntryList_def on_portforwarding_def)
qed

text \<open>Whole lists: one with rules is refused, an empty one takes the place of the old list.\<close>

lemma update_entries_new: "update_entries ops (c # cs) [] = ([], Inl (no_rule (conf_id ops c)))"
  by simp

lemma list_snat_keeps:
  assumes s: "nat_synced ss ds ps s" and a: "Rule_addSnat cs s = (s', u) \<or> Rule_replaceSnat cs s = (s', u)"
  shows "\<exists>ss'. nat_synced ss' ds ps s'"
proof -
  have add: "\<exists>ss'. nat_synced ss' ds ps s'" if "nat_synced ss ds ps s" "Rule_addSnat cs s = (s', u)" for s ss
    using that clear_lists(1) [OF that(1)] by (cases cs) (auto simp: Rule_addSnat_def destroy_def)
  show ?thesis using a clear_lists(1) [OF s] add s by (auto simp: Rule_replaceSnat_def Rule_delSnat_def)
qed

lemma list_dnat_keeps:
  assumes s: "nat_synced ss ds ps s" and a: "Rule_addDnat cs s = (s', u) \<or> Rule_replaceDnat cs s = (s', u)"
  shows "\<exists>ds'. nat_synced ss ds' ps s'"
proof -
  have add: "\<exists>ds'. nat_synced ss ds' ps s'" if "nat_synced ss ds ps s" "Rule_addDnat cs s = (s', u)" for s ds
    using that clear_lists(2) [OF that(1)] by (cases cs) (auto simp: Rule_addDnat_def destroy_def)
  show ?thesis using a clear_lists(2) [OF s] add s by (auto simp: Rule_replaceDnat_def Rule_delDnat_def)
qed

lemma list_portforwarding_keeps:
  assumes s: "nat_synced ss ds ps s" and a: "Rule_addPortForwarding cs s = (s', u) \<or> Rule_replacePortForwarding cs s = (s', u)"
  shows "\<exists>ps'. nat_synced ss ds ps' s'"
proof -
  have add: "\<exists>ps'. nat_synced ss ds ps' s'" if "nat_synced ss ds ps s" "Rule_addPortForwarding cs s = (s', u)" for s ps
    using that clear_lists(3) [OF that(1)] by (cases cs) (auto simp: Rule_addPortForwarding_def destroy_def)
  show ?thesis using a clear_lists(3) [OF s] add s by (auto simp: Rule_replacePortForwarding_def Rule_delPortForwarding_def)
qed

lemma Rule_destroy_synced:
  assumes s: "nat_synced ss ds ps s"
  shows "\<exists>s'. Rule_destroy s = (s', Inr ()) \<and> nat_synced [] [] [] s' \<and> masquerade_enabled s' = masquerade_enabled s \<and>
    sm_rules (nat_dp s') masquerade_key = sm_rules (nat_dp s) masquerade_key"
proof -
  from clear_lists(3) [OF s] obtain t1 where 1: "RulePortForwarding_delEntryList s = (s\<lparr>portforwarding_rules := [], nat_dp := (nat_dp s)\<lparr>dp_rules := t1\<rparr>\<rparr>, Inr ())"
    "nat_synced ss ds [] (s\<lparr>portforwarding_rules := [], nat_dp := (nat_dp s)\<lparr>dp_rules := t1\<rparr>\<rparr>)" by blast
  from clear_lists(2) [OF 1(2)] obtain t2 s2 where 2: "RuleDnat_delEntryList (s\<lparr>portforwarding_rules := [], nat_dp := (nat_dp s)\<lparr>dp_rules := t1\<rparr>\<rparr>) = (s2, Inr ())"
    "nat_synced ss [] [] s2" "s2 = s\<lparr>portforwarding_rules := [], dnat_rules := [], nat_dp := (nat_dp s)\<lparr>dp_rules := t2\<rparr>\<rparr>" by auto
  from clear_lists(1) [OF 2(2)] obtain t3 where 3: "RuleSnat_delEntryList s2 = (s2\<lparr>snat_rules := [], nat_dp := (nat_dp s2)\<lparr>sm_rules := t3\<rparr>\<rparr>, Inr ())"
    "t3 masquerade_key = sm_rules (nat_dp s2) masquerade_key" "nat_synced [] [] [] (s2\<lparr>snat_rules := [], nat_dp := (nat_dp s2)\<lparr>sm_rules := t3\<rparr>\<rparr>)" by blast
  have "Rule_destroy s = (s2\<lparr>snat_rules := [], nat_dp := (nat_dp s2)\<lparr>sm_rules := t3\<rparr>\<rparr>, Inr ())"
    using 1(1) 2(1) 3(1) by (simp add: Rule_destroy_def destroy_def)
  moreover have "masquerade_enabled s2 = masquerade_enabled s" "sm_rules (nat_dp s2) = sm_rules (nat_dp s)" by (simp_all add: 2(3))
  ultimately show ?thesis using 3(2,3) by (intro exI [of _ "s2\<lparr>snat_rules := [], nat_dp := (nat_dp s2)\<lparr>sm_rules := t3\<rparr>\<rparr>"]) simp
qed

lemma fresh_synced: "nat_synced [] [] [] s \<Longrightarrow> nat_synced [] [] [] (fresh_rule s)"
  by (simp add: nat_synced_def fresh_rule_def)

lemma empty_update [simp]: "Rule_update room empty_rule_conf s = (s, Inr ())"
  by (simp add: Rule_update_def empty_rule_conf_def if_set_def)

lemma delRule_keeps:
  assumes "nat_synced ss ds ps s"
  shows "\<exists>s'. Nat_delRule room s = (s', Inr ()) \<and> nat_synced [] [] [] s' \<and> \<not> masquerade_enabled s' \<and>
    sm_rules (nat_dp s') masquerade_key = sm_rules (nat_dp s) masquerade_key"
proof -
  obtain s1 where s1: "Rule_destroy s = (s1, Inr ())" "nat_synced [] [] [] s1" "sm_rules (nat_dp s1) masquerade_key = sm_rules (nat_dp s) masquerade_key"
    using Rule_destroy_synced [OF assms] by blast
  have "Nat_delRule room s = (fresh_rule s1, Inr ())" using s1(1) by (simp add: Nat_delRule_def)
  moreover have "\<not> masquerade_enabled (fresh_rule s1)" "nat_dp (fresh_rule s1) = nat_dp s1" by (simp_all add: fresh_rule_def)
  ultimately show ?thesis using fresh_synced [OF s1(2)] s1(3) by metis
qed

lemma addRule_keeps:
  assumes "nat_synced ss ds ps s" "Nat_addRule room empty_rule_conf s = (s', r)"
  shows "nat_synced [] [] [] s'"
proof -
  obtain s1 where s1: "Rule_destroy s = (s1, Inr ())" "nat_synced [] [] [] s1" using Rule_destroy_synced [OF assms(1)] by blast
  have "s' = (fresh_rule s)\<lparr>nat_dp := nat_dp s1\<rparr>" using assms(2) s1(1) by (simp add: Nat_addRule_def fresh_rule_def)
  then show ?thesis using s1(2) by (simp add: nat_synced_def fresh_rule_def)
qed

lemma rule_keeps:
  assumes s: "nat_synced ss ds ps s" and a: "Nat_addRule room empty_rule_conf s = (s', u) \<or> Nat_replaceRule room empty_rule_conf s = (s', u)"
  shows "nat_synced [] [] [] s'"
proof -
  obtain s1 where s1: "Nat_delRule room s = (s1, Inr ())" "nat_synced [] [] [] s1" using delRule_keeps [OF s] by blast
  show ?thesis using a addRule_keeps [OF s] addRule_keeps [OF s1(2)] by (auto simp: Nat_replaceRule_def s1(1))
qed

lemma delMasquerade_keeps: "nat_synced ss ds ps s \<Longrightarrow> Rule_delMasquerade room s = (s', u) \<Longrightarrow> nat_synced ss ds ps s'"
  using inject_keeps [of ss ds ps s room 0]
  by (auto simp: Rule_delMasquerade_def RuleMasquerade_disable_def split: prod.splits if_splits)

lemma natting_updates_same: "natting_updates njs s = (s', u) \<Longrightarrow> s' = s"
  by (induction njs s rule: natting_updates.induct) (auto split: sum.splits)

lemma nat_update_sessions_rules [simp]: "sm_rules (nat_update_sessions k h st) = sm_rules st" "dp_rules (nat_update_sessions k h st) = dp_rules st"
  by (simp_all add: nat_update_sessions_def)

lemma nat_lookup_rules: "nat_lookup lk dir k st = (ho, st') \<Longrightarrow> sm_rules st' = sm_rules st \<and> dp_rules st' = dp_rules st"
  by (auto simp: nat_lookup_def split: nat_type.splits option.splits prod.splits)

lemma Nat_rx_rules: "Nat_rx lk dir f st = (v, f', cs, st') \<Longrightarrow> sm_rules st' = sm_rules st \<and> dp_rules st' = dp_rules st"
  by (auto simp: Nat_rx_def dest!: nat_lookup_rules split: nat_parsed.splits prod.splits option.splits if_splits)

lemma Nat_new_synced:
  assumes "Nat_new room empty_rule_conf = (s, r)"
  shows "nat_synced [] [] [] s"
proof -
  let ?s0 = "\<lparr>snat_rules = [], dnat_rules = [], portforwarding_rules = [], masquerade_enabled = False, nat_external_ip = [],
      nat_dp = \<lparr>egress_session_table = Map.empty, ingress_session_table = Map.empty, sm_rules = Map.empty, dp_rules = Map.empty, first_free_port = 0\<rparr>\<rparr>"
  have s0: "nat_synced [] [] [] ?s0" by (simp add: nat_synced_def in_sync_def)
  obtain s2 where s2: "Rule_destroy ?s0 = (s2, Inr ())" "nat_synced [] [] [] s2" using Rule_destroy_synced [OF s0] by blast
  then have "s = (fresh_rule ?s0)\<lparr>nat_dp := nat_dp s2\<rparr>"
    using assms by (simp add: Nat_new_def Nat_addRule_def fresh_rule_def)
  then show ?thesis using s2(2) by (simp add: nat_synced_def fresh_rule_def)
qed

lemma nat_reach_synced:
  assumes "nat_reach room lk s"
  shows "\<exists>ss ds ps. nat_synced ss ds ps s"
  using assms
proof (induction rule: nat_reach.induct)
  case (reach_frame s dir f v f' cs d)
  then show ?case using Nat_rx_rules [OF reach_frame.hyps(2)] synced_dp by blast
next
  case (reach_flush s)
  then obtain ss ds ps where "nat_synced ss ds ps s" by blast
  then have "nat_synced ss ds ps (Nat_delNattingTableList s)" unfolding Nat_delNattingTableList_def by (rule synced_dp) simp_all
  then show ?case by blast
next
  case (reach_delRule s s' r)
  then show ?case using delRule_keeps by (metis Pair_inject)
next
  case (reach_list_snat s scs s' u)
  then show ?case using list_snat_keeps by blast
next
  case (reach_list_dnat s dcs s' u)
  then show ?case using list_dnat_keeps by blast
next
  case (reach_list_portforwarding s pcs s' u)
  then show ?case using list_portforwarding_keeps by blast
next
  case (reach_rule s s' u)
  then show ?case using rule_keeps by blast
next
  case (reach_natting_updates s njs s' u)
  then show ?case using natting_updates_same by blast
qed (blast dest: Nat_new_synced append_snat_keeps append_dnat_keeps append_portforwarding_keeps add_snat_keeps add_dnat_keeps add_portforwarding_keeps
    replace_snat_keeps replace_dnat_keeps replace_portforwarding_keeps snat_ops_keep dnat_ops_keep portforwarding_ops_keep
    setEnabled_keeps delMasquerade_keeps parent_ip_keeps)+

end
