(* ===== verification/Nat_Tries.thy ===== *)
theory Nat_Tries
  imports Nat_Reach
begin

text \<open>
  Longest-prefix lookups in the rule tables: a key that matches an address is determined by its length, so the rule a lookup returns is
  the most specific one. A lookup that tries the lengths one by one shows that the kernel's promises can be kept.
\<close>

section \<open>Prefixes\<close>

definition prefix_mask :: "nat \<Rightarrow> 32 word" where
  "prefix_mask n = (if n = 0 then 0 else ntohl (push_bit (32 - n) 0xFFFFFFFF))"

definition sm_prefix :: "nat \<Rightarrow> 32 word \<Rightarrow> sm_k" where
  "sm_prefix n a = \<lparr>internal_netmask_len = of_nat n, internal_ip = a AND prefix_mask n\<rparr>"

lemma word_eq_nbit: "(\<And>j. j < 32 \<Longrightarrow> bit a (nbit j) = bit b (nbit j)) \<Longrightarrow> a = (b :: 32 word)"
  using all_nbit [of 32 "\<lambda>j. bit a j = bit b j"] by (intro bit_word_eqI) simp

lemma prefix_mask_bit: "j < 32 \<Longrightarrow> n \<le> 32 \<Longrightarrow> bit (prefix_mask n) (nbit j) \<longleftrightarrow> j < n"
  by (cases "n = 0") (simp_all add: prefix_mask_def mask_bit)

lemma sm_match_prefix:
  assumes "sm_canonical k"
  shows "sm_match k a \<longleftrightarrow> k = sm_prefix (unat (internal_netmask_len k)) a"
proof -
  let ?n = "unat (internal_netmask_len k)"
  have n: "?n \<le> 32" using assms by (simp add: sm_canonical_def word_le_nat_alt)
  have "sm_match k a \<longleftrightarrow> internal_ip k = a AND prefix_mask ?n"
  proof
    assume m: "sm_match k a"
    have zero: "\<not> bit (internal_ip k) (nbit j)" if "?n \<le> j" "j < 32" for j using assms that by (simp add: sm_canonical_def)
    show "internal_ip k = a AND prefix_mask ?n"
    proof (rule word_eq_nbit)
      fix j :: nat assume j: "j < 32"
      show "bit (internal_ip k) (nbit j) = bit (a AND prefix_mask ?n) (nbit j)"
        using m zero [OF _ j] j n by (cases "j < ?n") (simp_all add: sm_match_def bit_and_iff prefix_mask_bit)
    qed
  next
    assume "internal_ip k = a AND prefix_mask ?n"
    then show "sm_match k a" using n by (simp add: sm_match_def bit_and_iff prefix_mask_bit)
  qed
  then show ?thesis by (cases k) (simp add: sm_prefix_def)
qed

lemma same_length: "sm_canonical k \<Longrightarrow> sm_canonical k' \<Longrightarrow> sm_match k a \<Longrightarrow> sm_match k' a \<Longrightarrow>
    internal_netmask_len k = internal_netmask_len k' \<Longrightarrow> k = k'"
  by (metis sm_match_prefix)

text \<open>The most specific rule that matches is the one the kernel finds.\<close>

lemma sm_lookup_best:
  assumes lk: "lookups_spec lk" and c: "\<forall>k \<in> dom t. sm_canonical k" and k: "t k = Some v" "sm_match k a"
    and best: "\<And>k'. k' \<in> dom t \<Longrightarrow> sm_match k' a \<Longrightarrow> internal_netmask_len k' \<le> internal_netmask_len k"
  shows "sm_lookup lk t a = Some v"
proof -
  have spec: "case sm_lookup lk t a of None \<Rightarrow> \<forall>k \<in> dom t. \<not> sm_match k a
      | Some v \<Rightarrow> \<exists>k. t k = Some v \<and> sm_match k a \<and> (\<forall>k' \<in> dom t. sm_match k' a \<longrightarrow> internal_netmask_len k' \<le> internal_netmask_len k)"
    using lk c unfolding lookups_spec_def by blast
  show ?thesis
  proof (cases "sm_lookup lk t a")
    case None
    then show ?thesis using spec k by auto
  next
    case (Some w)
    then obtain k' where k': "t k' = Some w" "sm_match k' a" "\<forall>k'' \<in> dom t. sm_match k'' a \<longrightarrow> internal_netmask_len k'' \<le> internal_netmask_len k'"
      using spec by auto
    then have "internal_netmask_len k = internal_netmask_len k'" using best [of k'] k by fastforce
    then have "k = k'" using same_length [of k k' a] c k k' by blast
    then show ?thesis using Some k k' by simp
  qed
qed

lemma byte_eq_nbit: "(\<forall>j < 8. bit a (nbit j) = bit b (nbit j)) \<longleftrightarrow> a = (b :: 8 word)"
  and half_eq_nbit: "(\<forall>j < 16. bit c (nbit j) = bit d (nbit j)) \<longleftrightarrow> c = (d :: 16 word)"
  using all_nbit [of 8 "\<lambda>j. bit a j = bit b j"] all_nbit [of 16 "\<lambda>j. bit c j = bit d j"] by (auto intro: bit_word_eqI)

lemma dp_bits:
  "(\<forall>j < 32. dp_bit a p q j = dp_bit a' p' q' j) \<longleftrightarrow> a = a'"
  "(\<forall>j < 48. dp_bit a p q j = dp_bit a' p' q' j) \<longleftrightarrow> a = a' \<and> p = p'"
  "(\<forall>j < 56. dp_bit a p q j = dp_bit a' p' q' j) \<longleftrightarrow> a = a' \<and> p = p' \<and> q = q'"
proof -
  have split: "(\<forall>j < m + n. P j) \<longleftrightarrow> (\<forall>j < m. P j) \<and> (\<forall>j < n. P (m + j))" for m n :: nat and P
    by (metis add_less_cancel_left le_Suc_ex not_less trans_less_add1)
  show 32: "(\<forall>j < 32. dp_bit a p q j = dp_bit a' p' q' j) \<longleftrightarrow> a = a'" for a p q a' p' q'
    using word_eq_nbit [of a a'] by (auto simp: dp_bit_def)
  have "(\<forall>j < 16. dp_bit a p q (32 + j) = dp_bit a' p' q' (32 + j)) \<longleftrightarrow> p = p'" for a p q a' p' q'
    using half_eq_nbit [of p p'] by (simp add: dp_bit_def)
  then show 48: "(\<forall>j < 48. dp_bit a p q j = dp_bit a' p' q' j) \<longleftrightarrow> a = a' \<and> p = p'" for a p q a' p' q'
    using split [of 32 16 "\<lambda>j. dp_bit a p q j = dp_bit a' p' q' j"] 32 by simp
  have "(\<forall>j < 8. dp_bit a p q (48 + j) = dp_bit a' p' q' (48 + j)) \<longleftrightarrow> q = q'"
    using byte_eq_nbit [of q q'] by (simp add: dp_bit_def)
  then show "(\<forall>j < 56. dp_bit a p q j = dp_bit a' p' q' j) \<longleftrightarrow> a = a' \<and> p = p' \<and> q = q'"
    using split [of 48 8 "\<lambda>j. dp_bit a p q j = dp_bit a' p' q' j"] 48 by simp
qed

lemma dp_match_conv:
  assumes "dp_canonical k"
  shows "dp_match k ip port proto \<longleftrightarrow>
    k = \<lparr>dp_mask = 56, dp_external_ip = ip, dp_external_port = port, dp_proto = proto\<rparr> \<or>
    k = \<lparr>dp_mask = 48, dp_external_ip = ip, dp_external_port = port, dp_proto = 0\<rparr> \<or>
    k = \<lparr>dp_mask = 32, dp_external_ip = ip, dp_external_port = 0, dp_proto = 0\<rparr>"
proof -
  consider (a) "dp_mask k = 56" | (b) "dp_mask k = 48" "dp_proto k = 0" | (c) "dp_mask k = 32" "dp_proto k = 0" "dp_external_port k = 0"
    using assms unfolding dp_canonical_def by blast
  then show ?thesis
  proof cases
    case a
    then show ?thesis by (cases k) (simp add: dp_match_def dp_bits)
  next
    case b
    then show ?thesis by (cases k) (simp add: dp_match_def dp_bits)
  next
    case c
    then show ?thesis by (cases k) (simp add: dp_match_def dp_bits)
  qed
qed

text \<open>The tables of a reachable state.\<close>

lemma synced_table:
  assumes "in_sync ops ok own es t" "own k" "t k = Some v"
  shows "\<exists>e \<in> set es. ok e \<and> k = entry_key ops e \<and> v = entry_value ops e"
  using assms by (auto simp: in_sync_def dest!: map_of_SomeD)

lemma synced_entry:
  assumes s: "in_sync ops ok own es t" and e: "e \<in> set es" "own (entry_key ops e)"
  shows "t (entry_key ops e) = Some (entry_value ops e)"
proof -
  have "map_of (map (\<lambda>e. (entry_key ops e, entry_value ops e)) es) (entry_key ops e) = Some (entry_value ops e)"
    using s e(1) by (intro map_of_is_SomeI) (auto simp: in_sync_def comp_def)
  then show ?thesis using s e(2) by (simp add: in_sync_def)
qed

lemma synced_sm:
  assumes s: "nat_synced ss ds ps s" and k: "sm_rules (nat_dp s) k = Some v"
  shows "(\<exists>e \<in> set ss. snat_ok e \<and> k = snat_key e \<and> v = snat_value e) \<or> k = masquerade_key \<and> sm_entry_type v = MASQUERADE"
proof (cases "snat_own k")
  case True
  then show ?thesis using synced_table [of snat_ops snat_ok snat_own ss "sm_rules (nat_dp s)" k v] snat_parts [OF s] k by (auto simp: snat_ops_def)
next
  case False
  then show ?thesis using s k by (auto simp: nat_synced_def)
qed

lemma synced_dp_rules:
  assumes s: "nat_synced ss ds ps s" and k: "dp_rules (nat_dp s) k = Some v"
  shows "(\<exists>e \<in> set ds. k = dnat_key e \<and> v = dnat_value e) \<or> (\<exists>e \<in> set ps. k = portforwarding_key e \<and> v = portforwarding_value e)"
proof (cases "dnat_own k")
  case True
  then show ?thesis using synced_table [of dnat_ops "\<lambda>_. True" dnat_own ds "dp_rules (nat_dp s)" k v] dnat_parts [OF s] k by (auto simp: dnat_ops_def)
next
  case False
  then have "portforwarding_own k" by (simp add: own_partition)
  then show ?thesis using synced_table [of portforwarding_ops "\<lambda>_. True" portforwarding_own ps "dp_rules (nat_dp s)" k v] portforwarding_parts [OF s] k
    by (auto simp: portforwarding_ops_def)
qed

lemma sm_canonical_synced: "nat_synced ss ds ps s \<Longrightarrow> \<forall>k \<in> dom (sm_rules (nat_dp s)). sm_canonical k"
  by (auto dest!: synced_sm simp: snat_ok_def) (simp add: sm_canonical_def masquerade_key_def)

lemma dp_canonical_synced: "nat_synced ss ds ps s \<Longrightarrow> \<forall>k \<in> dom (dp_rules (nat_dp s)). dp_canonical k"
  by (auto dest!: synced_dp_rules simp: dp_canonical_def dnat_key_def portforwarding_key_def split: ProtoEnum.splits)

lemma masquerade_match [simp]: "sm_match masquerade_key a"
  by (simp add: sm_match_def masquerade_key_def)

lemma snat_len: "internal_netmask_len (snat_key e) \<le> internal_netmask_len (snat_key e') \<longleftrightarrow> sn_internalNetmask e \<le> sn_internalNetmask e'"
  by (simp add: snat_key_def word_le_nat_alt ucast_8_32)

text \<open>The rule a packet from inside gets: the most specific source rule, or masquerading if no rule matches.\<close>

lemma snat_best:
  assumes s: "nat_synced ss ds ps s" and lk: "lookups_spec lk" and e: "e \<in> set ss" "sm_match (snat_key e) a"
    and best: "\<And>e'. e' \<in> set ss \<Longrightarrow> sm_match (snat_key e') a \<Longrightarrow> sn_internalNetmask e' \<le> sn_internalNetmask e"
  shows "sm_lookup lk (sm_rules (nat_dp s)) a = Some (snat_value e)"
proof (rule sm_lookup_best [OF lk sm_canonical_synced [OF s] _ e(2)])
  have ok: "snat_ok e" using snat_parts [OF s] e(1) by (simp add: in_sync_def)
  show "sm_rules (nat_dp s) (snat_key e) = Some (snat_value e)"
    using synced_entry [of snat_ops snat_ok snat_own ss _ e] snat_parts [OF s] e(1) snat.own_key [OF ok] by (simp add: snat_ops_def)
  fix k
  show "k \<in> dom (sm_rules (nat_dp s)) \<Longrightarrow> sm_match k a \<Longrightarrow> internal_netmask_len k \<le> internal_netmask_len (snat_key e)"
  proof -
    assume d: "k \<in> dom (sm_rules (nat_dp s))" and m: "sm_match k a"
    then obtain v where "sm_rules (nat_dp s) k = Some v" by blast
    from synced_sm [OF s this] show ?thesis
    proof (elim disjE bexE conjE)
      fix e' assume "e' \<in> set ss" "k = snat_key e'"
      then show ?thesis using best m by (simp add: snat_len)
    qed (simp add: masquerade_key_def)
  qed
qed

lemma masquerade_last:
  assumes s: "nat_synced ss ds ps s" and lk: "lookups_spec lk" and m: "sm_rules (nat_dp s) masquerade_key = Some v"
    and none: "\<And>e. e \<in> set ss \<Longrightarrow> \<not> sm_match (snat_key e) a"
  shows "sm_lookup lk (sm_rules (nat_dp s)) a = Some v"
proof (rule sm_lookup_best [OF lk sm_canonical_synced [OF s] m])
  fix k assume "k \<in> dom (sm_rules (nat_dp s))" "sm_match k a"
  then show "internal_netmask_len k \<le> internal_netmask_len masquerade_key" using synced_sm [OF s] none by fastforce
qed simp

text \<open>The rule a packet from outside gets: a forwarding of its protocol comes before every other rule.\<close>

lemma forwarding_first:
  assumes s: "nat_synced ss ds ps s" and lk: "lookups_spec lk" and e: "e \<in> set ps" "pf_proto e \<noteq> PROTO_ALL"
  shows "dp_lookup lk (dp_rules (nat_dp s)) (pf_externalIp e) (ntohs (pf_externalPort e)) (dp_proto (portforwarding_key e)) = Some (portforwarding_value e)"
proof -
  let ?t = "dp_rules (nat_dp s)" and ?k = "portforwarding_key e"
  let ?ip = "pf_externalIp e" and ?port = "ntohs (pf_externalPort e)" and ?proto = "dp_proto (portforwarding_key e)"
  note can = dp_canonical_synced [OF s]
  have k: "?k = \<lparr>dp_mask = 56, dp_external_ip = ?ip, dp_external_port = ?port, dp_proto = ?proto\<rparr>"
    using e(2) by (cases "pf_proto e") (simp_all add: portforwarding_key_def)
  have t: "?t ?k = Some (portforwarding_value e)"
    using synced_entry [of portforwarding_ops "\<lambda>_. True" portforwarding_own ps _ e] portforwarding_parts [OF s] e(1) portforwarding.own_key [of e]
    by (simp add: portforwarding_ops_def)
  have m: "dp_match ?k ?ip ?port ?proto" by (simp add: dp_match_def portforwarding_key_def)
  have spec: "case dp_lookup lk ?t ?ip ?port ?proto of None \<Rightarrow> \<forall>k \<in> dom ?t. \<not> dp_match k ?ip ?port ?proto
      | Some v \<Rightarrow> \<exists>k. ?t k = Some v \<and> dp_match k ?ip ?port ?proto \<and> (\<forall>k' \<in> dom ?t. dp_match k' ?ip ?port ?proto \<longrightarrow> dp_mask k' \<le> dp_mask k)"
    using lk can unfolding lookups_spec_def by blast
  show ?thesis
  proof (cases "dp_lookup lk ?t ?ip ?port ?proto")
    case None
    then show ?thesis using spec t m by auto
  next
    case (Some v)
    then obtain k' where k': "?t k' = Some v" "dp_match k' ?ip ?port ?proto" "\<forall>k'' \<in> dom ?t. dp_match k'' ?ip ?port ?proto \<longrightarrow> dp_mask k'' \<le> dp_mask k'"
      using spec by auto
    have "dp_mask ?k = 56" by (subst k) simp
    moreover have "dp_mask ?k \<le> dp_mask k'" using k'(3) t m by blast
    ultimately have "56 \<le> dp_mask k'" by simp
    moreover have "dp_canonical k'" using can k'(1) by blast
    ultimately have "k' = \<lparr>dp_mask = 56, dp_external_ip = ?ip, dp_external_port = ?port, dp_proto = ?proto\<rparr>"
      using dp_match_conv [of k' ?ip ?port ?proto] k'(2) by auto
    then have "k' = ?k" using k by metis
    then show ?thesis using Some k'(1) t by simp
  qed
qed

section \<open>A lookup that keeps the promises\<close>

fun first_some :: "'a option list \<Rightarrow> 'a option" where
  "first_some [] = None"
| "first_some (None # xs) = first_some xs"
| "first_some (Some x # xs) = Some x"

definition scan_lookups :: nat_lookups where
  "scan_lookups =
     \<lparr>sm_lookup = (\<lambda>t a. first_some (map (\<lambda>n. t (sm_prefix n a)) (rev [0..<33]))),
      dp_lookup = (\<lambda>t ip port proto. first_some
        [t \<lparr>dp_mask = 56, dp_external_ip = ip, dp_external_port = port, dp_proto = proto\<rparr>,
         t \<lparr>dp_mask = 48, dp_external_ip = ip, dp_external_port = port, dp_proto = 0\<rparr>,
         t \<lparr>dp_mask = 32, dp_external_ip = ip, dp_external_port = 0, dp_proto = 0\<rparr>])\<rparr>"

lemma first_some_in: "first_some xs = Some x \<Longrightarrow> Some x \<in> set xs"
  by (induction xs rule: first_some.induct) auto

lemma first_some_scan:
  "first_some (map f (rev [0..<m])) = None \<longleftrightarrow> (\<forall>n < m. f n = None)"
  "first_some (map f (rev [0..<m])) = Some x \<Longrightarrow> \<exists>n < m. f n = Some x \<and> (\<forall>i < m. f i \<noteq> None \<longrightarrow> i \<le> n)"
proof -
  have step: "first_some (map f (rev [0..<Suc m])) = (case f m of None \<Rightarrow> first_some (map f (rev [0..<m])) | Some y \<Rightarrow> Some y)" for m
    by (cases "f m") simp_all
  show "first_some (map f (rev [0..<m])) = None \<longleftrightarrow> (\<forall>n < m. f n = None)"
    by (induction m) (auto simp: step less_Suc_eq simp del: upt_Suc split: option.splits)
  show "first_some (map f (rev [0..<m])) = Some x \<Longrightarrow> \<exists>n < m. f n = Some x \<and> (\<forall>i < m. f i \<noteq> None \<longrightarrow> i \<le> n)"
  proof (induction m)
    case (Suc m)
    show ?case
    proof (cases "f m")
      case None
      then show ?thesis using Suc by (auto simp: step less_Suc_eq simp del: upt_Suc)
    next
      case (Some y)
      then show ?thesis using Suc.prems by (intro exI [of _ m]) (auto simp: step simp del: upt_Suc)
    qed
  qed simp
qed

lemma scan_lookup_in: "lookup_in scan_lookups"
  unfolding lookup_in_def scan_lookups_def by (auto intro: ranI [OF sym] dest!: first_some_in)

lemma scan_sm:
  assumes c: "\<forall>k \<in> dom t. sm_canonical k"
  shows "case sm_lookup scan_lookups t a of None \<Rightarrow> \<forall>k \<in> dom t. \<not> sm_match k a
      | Some v \<Rightarrow> \<exists>k. t k = Some v \<and> sm_match k a \<and> (\<forall>k' \<in> dom t. sm_match k' a \<longrightarrow> internal_netmask_len k' \<le> internal_netmask_len k)"
proof -
  let ?f = "\<lambda>n. t (sm_prefix n a)"
  have l: "sm_lookup scan_lookups t a = first_some (map ?f (rev [0..<33]))" by (simp add: scan_lookups_def del: upt_Suc)
  have key: "unat (internal_netmask_len k) < 33 \<and> ?f (unat (internal_netmask_len k)) = t k" if "k \<in> dom t" "sm_match k a" for k
  proof -
    have k: "sm_canonical k" using c that(1) by blast
    then have "unat (internal_netmask_len k) \<le> 32" by (simp add: sm_canonical_def word_le_nat_alt)
    then show ?thesis using k that(2) sm_match_prefix [OF k, of a] by auto
  qed
  have len: "unat (internal_netmask_len (sm_prefix n a)) = n" if "n < 33" for n using that by (simp add: sm_prefix_def unat_of_nat)
  show ?thesis
  proof (cases "sm_lookup scan_lookups t a")
    case None
    then have none: "\<forall>n < 33. ?f n = None" using first_some_scan(1) [of ?f 33] l by simp
    have "\<not> sm_match k a" if "k \<in> dom t" for k using key [OF that] none that by fastforce
    then show ?thesis using None by simp
  next
    case (Some v)
    then obtain n where n: "n < 33" "?f n = Some v" "\<forall>i < 33. ?f i \<noteq> None \<longrightarrow> i \<le> n" using first_some_scan(2) [of ?f 33 v] l by auto
    have "sm_match (sm_prefix n a) a" using sm_match_prefix [of "sm_prefix n a" a] c n(2) len [OF n(1)] by auto
    moreover have "internal_netmask_len k' \<le> internal_netmask_len (sm_prefix n a)" if "k' \<in> dom t" "sm_match k' a" for k'
      using key [OF that] n(3) that len [OF n(1)] by (auto simp: word_le_nat_alt)
    ultimately show ?thesis using Some n(2) by auto
  qed
qed

lemma scan_dp:
  assumes c: "\<forall>k \<in> dom t. dp_canonical k"
  shows "case dp_lookup scan_lookups t ip port proto of None \<Rightarrow> \<forall>k \<in> dom t. \<not> dp_match k ip port proto
      | Some v \<Rightarrow> \<exists>k. t k = Some v \<and> dp_match k ip port proto \<and> (\<forall>k' \<in> dom t. dp_match k' ip port proto \<longrightarrow> dp_mask k' \<le> dp_mask k)"
proof -
  let ?a = "\<lparr>dp_mask = 56, dp_external_ip = ip, dp_external_port = port, dp_proto = proto\<rparr>"
  let ?b = "\<lparr>dp_mask = 48, dp_external_ip = ip, dp_external_port = port, dp_proto = 0\<rparr>"
  let ?c = "\<lparr>dp_mask = 32, dp_external_ip = ip, dp_external_port = 0, dp_proto = 0\<rparr>"
  have m: "dp_match k ip port proto \<longleftrightarrow> k = ?a \<or> k = ?b \<or> k = ?c" if "k \<in> dom t" for k using dp_match_conv c that by blast
  have l: "dp_lookup scan_lookups t ip port proto = first_some [t ?a, t ?b, t ?c]" by (simp add: scan_lookups_def)
  consider v where "t ?a = Some v" | v where "t ?a = None" "t ?b = Some v" | v where "t ?a = None" "t ?b = None" "t ?c = Some v"
    | "t ?a = None" "t ?b = None" "t ?c = None" by fastforce
  then show ?thesis
  proof cases
    case (1 v)
    then have "t ?a = Some v \<and> dp_match ?a ip port proto \<and> (\<forall>k' \<in> dom t. dp_match k' ip port proto \<longrightarrow> dp_mask k' \<le> dp_mask ?a)"
      using m by auto
    then show ?thesis using l 1 by (simp only: first_some.simps option.case) blast
  next
    case (2 v)
    then have "t ?b = Some v \<and> dp_match ?b ip port proto \<and> (\<forall>k' \<in> dom t. dp_match k' ip port proto \<longrightarrow> dp_mask k' \<le> dp_mask ?b)"
      using m by auto
    then show ?thesis using l 2 by (simp only: first_some.simps option.case) blast
  next
    case (3 v)
    then have "t ?c = Some v \<and> dp_match ?c ip port proto \<and> (\<forall>k' \<in> dom t. dp_match k' ip port proto \<longrightarrow> dp_mask k' \<le> dp_mask ?c)"
      using m by auto
    then show ?thesis using l 3 by (simp only: first_some.simps option.case) blast
  next
    case 4
    then show ?thesis using m l by (auto dest: m)
  qed
qed

lemma scan_lookups_spec: "lookups_spec scan_lookups"
  unfolding lookups_spec_def using scan_sm scan_dp by blast

end
