(* ===== verification/Nat_Theorems.thy ===== *)
theory Nat_Theorems
  imports Nat_Tries
begin

text \<open>
  What the NAT service guarantees, from the configuration to the packets, and where its code does not do what it is meant to. Each theorem
  comes with a concrete instance.
\<close>

section \<open>An example\<close>

text \<open>One rule, from 10.0.0.0/24 to 1.2.3.4, and a TCP segment from 10.0.0.1 to 8.8.8.8.\<close>

definition nx_net :: IpAddr where "nx_net = IpAddr 0x0000000A 24"
definition nx_ext :: IpAddr where "nx_ext = IpAddr 0x04030201 32"

definition nx_room :: nat_room where
  "nx_room = \<lparr>room_sm = (\<lambda>_ _. True), room_dp = (\<lambda>_ _. True)\<rparr>"

definition nx_nat0 :: nat_service where
  "nx_nat0 = \<lparr>snat_rules = [], dnat_rules = [], portforwarding_rules = [], masquerade_enabled = False, nat_external_ip = [],
      nat_dp = \<lparr>egress_session_table = Map.empty, ingress_session_table = Map.empty, sm_rules = Map.empty, dp_rules = Map.empty, first_free_port = 0\<rparr>\<rparr>"

definition nx_entry :: RuleSnatEntry where
  "nx_entry = \<lparr>sn_id = 0, sn_internalIp = 0x0000000A, sn_internalNetmask = 24, sn_externalIp = 0x04030201\<rparr>"

definition nx_nat1 :: nat_service where
  "nx_nat1 = nx_nat0\<lparr>snat_rules := [Some nx_entry], nat_dp := (nat_dp nx_nat0)\<lparr>sm_rules := [snat_key nx_entry \<mapsto> snat_value nx_entry]\<rparr>\<rparr>"

definition nx_segment :: "32 word \<Rightarrow> 32 word \<Rightarrow> 16 word \<Rightarrow> 16 word \<Rightarrow> frame" where
  "nx_segment src dst sport dport =
     replicate 12 0 @ [8, 0, 0x45] @ replicate 8 0 @ [6, 0, 0] @ u32_bytes src @ u32_bytes dst @ u16_bytes sport @ u16_bytes dport @ replicate 16 0"

definition nx_key :: st_k where
  "nx_key = \<lparr>st_src_ip = 0x0100000A, st_dst_ip = 0x08080808, st_src_port = 0x3412, st_dst_port = 0x5000, st_proto = 6\<rparr>"

definition nx_key' :: st_k where
  "nx_key' = \<lparr>st_src_ip = 0x04030201, st_dst_ip = 0x08080808, st_src_port = 0x0004, st_dst_port = 0x5000, st_proto = 6\<rparr>"

definition nx_out :: frame where "nx_out = nx_segment 0x0100000A 0x08080808 0x3412 0x5000"
definition nx_in :: frame where "nx_in = nx_segment 0x08080808 0x04030201 0x5000 0x0004"

lemma fresh_is_nx: "Nat_new nx_room empty_rule_conf = (nx_nat0, Inr ())"
proof -
  have "Rule_destroy nx_nat0 = (nx_nat0, Inr ())"
    by (simp add: Rule_destroy_def destroy_def RulePortForwarding_delEntryList_def RuleDnat_delEntryList_def RuleSnat_delEntryList_def
        on_portforwarding_def on_dnat_def on_snat_def delEntryList_def nx_nat0_def)
  moreover have "fresh_rule nx_nat0 = nx_nat0" by (simp add: fresh_rule_def nx_nat0_def)
  ultimately show ?thesis unfolding Nat_new_def nx_nat0_def [symmetric] by (simp add: Nat_addRule_def)
qed

lemma nx_parse: "Nat_fromString (IpAddr_toString nx_net) = Inr nx_net" "Nat_fromString (IpAddr_toString nx_ext) = Inr nx_ext"
proof -
  have j: "j = 24 \<or> j = 25 \<or> j = 26 \<or> j = 27 \<or> j = 28 \<or> j = 29 \<or> j = 30 \<or> j = 31" if "24 \<le> j" "j < 32" for j :: nat using that by auto
  show "Nat_fromString (IpAddr_toString nx_net) = Inr nx_net"
    by (rule Nat_print_parse) (auto simp: nx_net_def nbit_def dest!: j)
  show "Nat_fromString (IpAddr_toString nx_ext) = Inr nx_ext" by (rule Nat_print_parse) (auto simp: nx_ext_def)
qed

lemma nx_append: "RuleSnat_append nx_room (IpAddr_toString nx_ext) (IpAddr_toString nx_net) nx_nat0 = (nx_nat1, Inr 0)"
proof -
  have "RuleSnatEntry_new \<lparr>sc_id = 0, sc_internalNet = Some (IpAddr_toString nx_net), sc_externalIp = Some (IpAddr_toString nx_ext)\<rparr> = Inr nx_entry"
    by (simp add: RuleSnatEntry_new_def construct_def RuleSnatEntry_update_def RuleSnatEntry_setInternalNet_def RuleSnatEntry_setExternalIp_def
        if_set_def set_with_def nx_parse) (simp add: nx_entry_def nx_net_def nx_ext_def)
  then show ?thesis
    by (simp add: RuleSnat_append_def RuleSnat_addEntry_def on_snat_def addEntry_def snat_ops_def table_set_def nx_room_def nx_nat1_def nx_nat0_def Let_def)
qed

lemma nx_reach: "nat_reach nx_room scan_lookups nx_nat1"
  by (rule reach_append_snat [OF reach_new [OF fresh_is_nx] nx_append]) (simp_all add: nx_nat0_def)

lemma nx_frames: "Nat_parse nx_out = NatKey nx_key" "nat_ihl nx_out = 5" "nat_ihl nx_in = 5"
    "Nat_parse nx_in = NatKey (answer nx_key')"
  by code_simp+

section \<open>Translation\<close>

definition other_dir :: "nat_type \<Rightarrow> nat_type" where
  "other_dir dir = (case dir of NATTYPE_EGRESS \<Rightarrow> NATTYPE_INGRESS | NATTYPE_INGRESS \<Rightarrow> NATTYPE_EGRESS)"

text \<open>
  \<^bold>\<open>C7\<close>. A packet that a rule translates, in either direction, opens a session: the frame that answers the translated frame is translated into
  the answer to the original one, without a further change of the state.
\<close>

theorem nat_answer_back:
  assumes f: "Nat_parse f = NatKey k" "5 \<le> nat_ihl f" and hit: "nat_lookup lk dir k st = (Some h, st1)" "update_session_table h"
    and ok: "rules_typed st" "lookup_in lk"
    and out: "Nat_rx lk dir f st = (v, f', cs, st')" "Nat_parse f' = NatKey k'"
    and g: "Nat_parse g = NatKey (answer k')" "5 \<le> nat_ihl g"
  shows "\<exists>g' cs'. Nat_rx lk (other_dir dir) g st' = (RX_OK, g', cs', st') \<and> Nat_parse g' = NatKey (answer k)"
proof -
  have "nat_step lk dir k st = (translate k h, nat_update_sessions k h st1)" using hit by (simp add: nat_step_def)
  then have k': "k' = translate k h" "st' = nat_update_sessions k h st1" using Nat_rx_step [OF f, of lk dir st] out by auto
  have "nat_step lk (other_dir dir) (answer k') st' = (answer k, st')"
    using nat_roundtrip(1) [OF hit parse_key_ok [OF f(1)] ok] by (simp add: other_dir_def k')
  then show ?thesis using Nat_rx_step [OF g, of lk "other_dir dir" st'] by auto
qed

lemma nx_hit: "nat_lookup scan_lookups NATTYPE_EGRESS nx_key (nat_dp nx_nat1) =
    (Some \<lparr>hit_ip = 0x04030201, hit_port = 0x0004, hit_rule = SNAT, update_session_table = True\<rparr>, (nat_dp nx_nat1)\<lparr>first_free_port := 1025\<rparr>)"
proof -
  have "sm_lookup scan_lookups (sm_rules (nat_dp nx_nat1)) 0x0100000A = Some (snat_value nx_entry)" by code_simp
  moreover have "get_free_port 0 = (0x0004, 1025)" by code_simp
  ultimately show ?thesis
    by (simp add: nat_lookup_def nx_key_def snat_value_def nx_entry_def) (simp add: nx_nat1_def nx_nat0_def)
qed

definition nx_after :: nat_state where
  "nx_after = nat_update_sessions nx_key \<lparr>hit_ip = 0x04030201, hit_port = 0x0004, hit_rule = SNAT, update_session_table = True\<rparr>
     ((nat_dp nx_nat1)\<lparr>first_free_port := 1025\<rparr>)"

lemma nx_step: "nat_step scan_lookups NATTYPE_EGRESS nx_key (nat_dp nx_nat1) = (nx_key', nx_after)"
proof -
  have "nat_step scan_lookups NATTYPE_EGRESS nx_key (nat_dp nx_nat1) =
      (translate nx_key \<lparr>hit_ip = 0x04030201, hit_port = 0x0004, hit_rule = SNAT, update_session_table = True\<rparr>, nx_after)"
    by (simp add: nat_step_def nx_hit nx_after_def)
  then show ?thesis by (simp add: translate_def nx_key_def nx_key'_def src_rule_def)
qed

lemma nx_again: "egress_session_table nx_after nx_key = Some \<lparr>new_ip = 0x04030201, new_port = 0x0004, originating_rule_type = SNAT\<rparr>"
  "fst (nat_step scan_lookups NATTYPE_EGRESS nx_key nx_after) = nx_key'"
proof -
  show e: "egress_session_table nx_after nx_key = Some \<lparr>new_ip = 0x04030201, new_port = 0x0004, originating_rule_type = SNAT\<rparr>"
    by (simp add: nx_after_def nat_update_sessions_def forward_key_def forward_value_def src_rule_def)
  have "fst (nat_step scan_lookups NATTYPE_EGRESS nx_key nx_after) =
      translate nx_key \<lparr>hit_ip = 0x04030201, hit_port = 0x0004, hit_rule = SNAT, update_session_table = False\<rparr>"
    by (simp add: nat_step_def nat_lookup_def e)
  then show "fst (nat_step scan_lookups NATTYPE_EGRESS nx_key nx_after) = nx_key'" by (simp add: translate_def nx_key_def nx_key'_def src_rule_def)
qed

lemma nx_history: "nat_history scan_lookups (nat_dp nx_nat1) 1 nx_after"
proof -
  obtain f' cs where "Nat_rx scan_lookups NATTYPE_EGRESS nx_out (nat_dp nx_nat1) = (RX_OK, f', cs, nx_after)"
    using Nat_rx_step [OF nx_frames(1), of scan_lookups NATTYPE_EGRESS "nat_dp nx_nat1"] nx_frames(2) by (auto simp: nx_step)
  from nat_frame [OF nat_start this] show ?thesis by (simp add: nx_after_def nat_update_sessions_def nx_nat1_def nx_nat0_def)
qed

lemma nx_source_nat: "source_nat (nat_dp nx_nat1)"
  by (simp add: source_nat_def nx_nat1_def nx_nat0_def snat_value_def src_rule_def)

lemma nx_typed: "rules_typed (nat_dp nx_nat1)"
  by (simp add: rules_typed_def nx_nat1_def nx_nat0_def snat_value_def src_rule_def)

theorem nat_answer_back_witness:
  "\<exists>v f' cs st'. Nat_rx scan_lookups NATTYPE_EGRESS nx_out (nat_dp nx_nat1) = (v, f', cs, st') \<and>
     (\<exists>g' cs'. Nat_rx scan_lookups NATTYPE_INGRESS nx_in st' = (RX_OK, g', cs', st') \<and> Nat_parse g' = NatKey (answer nx_key))"
proof -
  obtain v f' cs st' where out: "Nat_rx scan_lookups NATTYPE_EGRESS nx_out (nat_dp nx_nat1) = (v, f', cs, st')" by (metis prod_cases4)
  have p: "Nat_parse f' = NatKey nx_key'"
    using Nat_rx_step [OF nx_frames(1), of scan_lookups NATTYPE_EGRESS "nat_dp nx_nat1"] nx_frames(2) out by (auto simp: nx_step)
  have "\<exists>g' cs'. Nat_rx scan_lookups (other_dir NATTYPE_EGRESS) nx_in st' = (RX_OK, g', cs', st') \<and> Nat_parse g' = NatKey (answer nx_key)"
    by (rule nat_answer_back [OF nx_frames(1) _ nx_hit _ nx_typed scan_lookup_in out p nx_frames(4)]) (simp_all add: nx_frames)
  then show ?thesis using out by (auto simp: other_dir_def)
qed

text \<open>
  \<^bold>\<open>C8\<close>. A NAT without destination rules and without port forwardings (\<open>source_nat\<close>: the kernel holds rules for outgoing
  packets only), as long as its allocator has handed out at most 64511 ports: after any sequence of frames, evictions and changes of source
  rules, the answer to a packet of a session is either given back to the sender of that packet or, when its entry has been evicted, left as
  it is; and frames of different sessions leave with different addresses and ports. With a forwarding this does not hold: the allocator may
  hand out the external port of a forwarding, and the session it opens to the same peer overwrites the entry of the forwarded connection.
\<close>

theorem nat_replies_right:
  assumes h: "nat_history lk s n t" "source_nat s" "lookup_in lk" "n \<le> 64511"
    and f: "Nat_parse f = NatKey k" "5 \<le> nat_ihl f" "egress_session_table t k \<noteq> None"
    and out: "Nat_rx lk NATTYPE_EGRESS f t = (v, f', cs, t')" "Nat_parse f' = NatKey k'"
  shows "(\<forall>g v2 g' cs2 t2. Nat_parse g = NatKey (answer k') \<longrightarrow> 5 \<le> nat_ihl g \<longrightarrow> Nat_rx lk NATTYPE_INGRESS g t = (v2, g', cs2, t2) \<longrightarrow>
            Nat_parse g' = NatKey (answer k) \<or> g' = g) \<and>
    (\<forall>f2 k2 v2 f2' cs2 t2. Nat_parse f2 = NatKey k2 \<longrightarrow> 5 \<le> nat_ihl f2 \<longrightarrow> egress_session_table t k2 \<noteq> None \<longrightarrow>
            Nat_rx lk NATTYPE_EGRESS f2 t = (v2, f2', cs2, t2) \<longrightarrow> Nat_parse f2' = NatKey k' \<longrightarrow> k2 = k)"
proof -
  obtain own where own: "length own = n" "owned (first_free_port s) own t" using nat_history_owned [OF h(1-3)] by blast
  have sent: "\<exists>w. egress_session_table t q = Some w \<and> q' = translate q (session_hit w)"
    if "Nat_parse e = NatKey q" "5 \<le> nat_ihl e" "egress_session_table t q \<noteq> None" "Nat_rx lk NATTYPE_EGRESS e t = (a, e', b, c)" "Nat_parse e' = NatKey q'"
    for e q a e' b c q'
    using Nat_rx_step [OF that(1,2), of lk NATTYPE_EGRESS t] that(3-5) by (auto simp: nat_step_def nat_lookup_def session_hit_def)
  obtain w where w: "egress_session_table t k = Some w" "k' = translate k (session_hit w)" using sent [OF f out] by blast
  show ?thesis
  proof (intro conjI allI impI)
    fix g v2 g' cs2 t2 assume g: "Nat_parse g = NatKey (answer k')" "5 \<le> nat_ihl g" "Nat_rx lk NATTYPE_INGRESS g t = (v2, g', cs2, t2)"
    show "Nat_parse g' = NatKey (answer k) \<or> g' = g"
    proof (cases "ingress_session_table t (answer k')")
      case None
      then show ?thesis using g no_dp_lookup [OF own(2) h(3)] by (simp add: Nat_rx_def nat_lookup_def)
    next
      case (Some u)
      have u: "new_ip u = st_src_ip k" "new_port u = st_src_port k" using owned_answer [OF own(2) _ w(1)] own(1) h(4) Some w(2) by auto
      have "st_key_ok k" by (rule parse_key_ok [OF f(1)])
      then have "fst (nat_step lk NATTYPE_INGRESS (answer k') t) = answer k"
        using Some u by (auto simp: nat_step_def nat_lookup_def w(2) translate_def session_hit_def answer_def src_rule_def st_key_ok_def)
      then show ?thesis using Nat_rx_step [OF g(1,2), of lk NATTYPE_INGRESS t] g(3) by auto
    qed
  next
    fix f2 k2 v2 f2' cs2 t2
    assume a: "Nat_parse f2 = NatKey k2" "5 \<le> nat_ihl f2" "egress_session_table t k2 \<noteq> None" "Nat_rx lk NATTYPE_EGRESS f2 t = (v2, f2', cs2, t2)"
      "Nat_parse f2' = NatKey k'"
    obtain w2 where "egress_session_table t k2 = Some w2" "k' = translate k2 (session_hit w2)" using sent [OF a] by blast
    then show "k2 = k" using owned_distinct [OF own(2) _ _ w(1)] own(1) h(4) w(2) by metis
  qed
qed

theorem nat_replies_right_witness:
  "\<exists>v g' cs t'. Nat_rx scan_lookups NATTYPE_INGRESS nx_in nx_after = (v, g', cs, t') \<and> (Nat_parse g' = NatKey (answer nx_key) \<or> g' = nx_in)"
proof -
  obtain v f' cs t' where out: "Nat_rx scan_lookups NATTYPE_EGRESS nx_out nx_after = (v, f', cs, t')" by (metis prod_cases4)
  have p: "Nat_parse f' = NatKey nx_key'"
    using Nat_rx_step [OF nx_frames(1), of scan_lookups NATTYPE_EGRESS nx_after] nx_frames(2) out by (auto simp: nx_again)
  obtain v2 g' cs2 t2 where ret: "Nat_rx scan_lookups NATTYPE_INGRESS nx_in nx_after = (v2, g', cs2, t2)" by (metis prod_cases4)
  have "Nat_parse g' = NatKey (answer nx_key) \<or> g' = nx_in"
    by (rule nat_replies_right [OF nx_history nx_source_nat scan_lookup_in _ nx_frames(1) _ _ out p, THEN conjunct1, rule_format, OF _ _ _ nx_frames(4) _ ret])
      (simp_all add: nx_frames nx_again)
  then show ?thesis using ret by blast
qed

text \<open>
  \<^bold>\<open>C35\<close>. Ports are handed out from 1024 to 65534 in turn, whatever the state of the allocator: 64511 allocations in a row are all
  different, and the next one repeats the first, free or not.
\<close>

theorem ports_cycle:
  "(\<forall>p \<in> set (allocate n e). 1024 \<le> unat (ntohs p) \<and> unat (ntohs p) \<le> 65534) \<and> (n \<le> 64511 \<longrightarrow> distinct (allocate n e)) \<and>
   (\<forall>i. i + 64511 < n \<longrightarrow> allocate n e ! (i + 64511) = allocate n e ! i)"
proof (intro conjI ballI impI allI)
  fix p assume "p \<in> set (allocate n e)"
  then obtain i where "p = ntohs (of_nat (port_at e i))" unfolding allocate_ports by auto
  then show "1024 \<le> unat (ntohs p)" "unat (ntohs p) \<le> 65534" using port_at_range [of e i] by (simp_all add: unat_port_at)
next
  assume "n \<le> 64511"
  then show "distinct (allocate n e)"
    unfolding allocate_ports distinct_map by (auto intro!: inj_onI simp: port_word_eq port_at_eq)
next
  fix i assume i: "i + 64511 < n"
  have "port_at e (i + 64511) = port_at e i" by (simp add: port_at_eq)
  then show "allocate n e ! (i + 64511) = allocate n e ! i" using i unfolding allocate_ports by simp
qed

theorem ports_cycle_witness: "distinct (allocate 64511 0)"
  using ports_cycle [of 64511 0] by blast

text \<open>
  \<^bold>\<open>C36\<close>. When the allocator comes back to the port of a session that is still in use, a packet of another host to the same peer gets the
  same outer address and port, and from then on the answers of the first session go to the second host.
\<close>

theorem port_reuse_hijacks:
  assumes v: "egress_session_table t k = Some v" "new_ip v = sm_external_ip r" "new_port v = fst (get_free_port (first_free_port t))"
    and k': "egress_session_table t k' = None" "sm_lookup lk (sm_rules t) (st_src_ip k') = Some r" "src_rule (sm_entry_type r)"
    and peer: "st_dst_ip k' = st_dst_ip k" "st_dst_port k' = st_dst_port k \<or> st_proto k = 1" "st_proto k' = st_proto k"
    and f: "Nat_parse f = NatKey k" "Nat_parse f' = NatKey k'" "5 \<le> nat_ihl f'" "Nat_rx lk NATTYPE_EGRESS f' t = (x, out, cs, t')"
    and g: "Nat_parse g = NatKey (answer (translate k (session_hit v)))" "5 \<le> nat_ihl g" "Nat_rx lk NATTYPE_INGRESS g t' = (x2, g', cs2, t2)"
  shows "Nat_parse out = NatKey (translate k (session_hit v)) \<and> Nat_parse g' = NatKey (answer k')"
proof -
  note ok = parse_key_ok [OF f(1)] parse_key_ok [OF f(2)]
  note take = reuse_takes_over [where lk = lk, OF v k' peer ok]
  have s: "Nat_parse out = NatKey (fst (nat_step lk NATTYPE_EGRESS k' t))" "t' = snd (nat_step lk NATTYPE_EGRESS k' t)"
    using Nat_rx_step [OF f(2,3), of lk NATTYPE_EGRESS t] f(4) by auto
  have "nat_step lk NATTYPE_INGRESS (answer (translate k (session_hit v))) t' = (answer k', t')"
    using take ok peer unfolding s(2) [symmetric]
    by (auto simp: nat_step_def nat_lookup_def translate_def session_hit_def answer_def src_rule_def st_key_ok_def)
  then have "Nat_parse g' = NatKey (answer k')" using Nat_rx_step [OF g(1,2), of lk NATTYPE_INGRESS t'] g(3) by auto
  then show ?thesis using s(1) take by simp
qed

definition nx_wrapped :: nat_state where
  "nx_wrapped = nx_after\<lparr>first_free_port := 65535\<rparr>"

definition nx_key2 :: st_k where
  "nx_key2 = nx_key\<lparr>st_src_ip := 0x0200000A\<rparr>"

definition nx_out2 :: frame where "nx_out2 = nx_segment 0x0200000A 0x08080808 0x3412 0x5000"

lemma nx_frame2: "Nat_parse nx_out2 = NatKey nx_key2" "nat_ihl nx_out2 = 5"
  by code_simp+

theorem port_reuse_hijacks_witness:
  "\<exists>x out cs t' x2 g' cs2 t2. Nat_rx scan_lookups NATTYPE_EGRESS nx_out2 nx_wrapped = (x, out, cs, t') \<and>
     Nat_rx scan_lookups NATTYPE_INGRESS nx_in t' = (x2, g', cs2, t2) \<and> Nat_parse g' = NatKey (answer nx_key2)"
proof -
  let ?v = "\<lparr>new_ip = 0x04030201, new_port = 0x0004, originating_rule_type = SNAT\<rparr>"
  obtain x out cs t' where out: "Nat_rx scan_lookups NATTYPE_EGRESS nx_out2 nx_wrapped = (x, out, cs, t')" by (metis prod_cases4)
  obtain x2 g' cs2 t2 where ret: "Nat_rx scan_lookups NATTYPE_INGRESS nx_in t' = (x2, g', cs2, t2)" by (metis prod_cases4)
  have v: "egress_session_table nx_wrapped nx_key = Some ?v" using nx_again by (simp add: nx_wrapped_def)
  have n: "egress_session_table nx_wrapped nx_key2 = None"
    by (simp add: nx_wrapped_def nx_after_def nat_update_sessions_def forward_key_def src_rule_def nx_nat1_def nx_nat0_def nx_key_def nx_key2_def)
  have l: "sm_lookup scan_lookups (sm_rules nx_wrapped) (st_src_ip nx_key2) = Some (snat_value nx_entry)" by code_simp
  have p: "fst (get_free_port 65535) = 0x0004" by code_simp
  have k: "translate nx_key (session_hit ?v) = nx_key'" by (simp add: translate_def session_hit_def src_rule_def nx_key_def nx_key'_def)
  have "Nat_parse out = NatKey (translate nx_key (session_hit ?v)) \<and> Nat_parse g' = NatKey (answer nx_key2)"
    by (rule port_reuse_hijacks [OF v _ _ n l _ _ _ _ nx_frames(1) nx_frame2(1) _ out _ _ ret])
      (simp_all add: snat_value_def nx_entry_def src_rule_def nx_wrapped_def p nx_key2_def nx_frames nx_frame2 k)
  then show ?thesis using out ret by blast
qed

section \<open>Rules\<close>

text \<open>
  \<^bold>\<open>C9\<close>. In every state reached by the operations of \<open>nat_reach\<close> the tables of the kernel hold exactly the rules of the three lists, and
  besides them at most the entry of masquerading; rules are numbered by their position, and every rule can be read and deleted by its number.
  The operations are: creation without rules, \<open>append\<close> and \<open>addEntry\<close> with the next number, \<open>replaceEntry\<close> of the last rule under its number,
  \<open>delEntry\<close> of any number but the one after the last, deleting and replacing whole lists and the rule object, switching masquerading on and off,
  a new address of the parent, updates of the natting table, frames, and flushing the sessions; each of them may succeed or be refused, but for an
  insertion that the kernel refuses, and lists have at most \<open>2 ^ 31\<close> rules. The other operations of the API break the property and are left out:
  \<open>addEntry\<close> under another number, \<open>replaceEntry\<close> otherwise, \<open>update\<close> of a rule, \<open>delEntry\<close> of the number after the last, and refused insertions.
\<close>

theorem nat_rules_in_kernel:
  assumes "nat_reach room lk s"
  shows "\<exists>ss ds ps. nat_synced ss ds ps s \<and>
    (\<forall>i < length ss. RuleSnat_getEntry (of_nat i) s = Inr (ss ! i) \<and> snd (RuleSnat_delEntry (of_nat i) s) = Inr ()) \<and>
    (\<forall>i < length ds. RuleDnat_getEntry (of_nat i) s = Inr (ds ! i) \<and> snd (RuleDnat_delEntry (of_nat i) s) = Inr ()) \<and>
    (\<forall>i < length ps. RulePortForwarding_getEntry (of_nat i) s = Inr (ps ! i) \<and> snd (RulePortForwarding_delEntry (of_nat i) s) = Inr ())"
proof -
  obtain ss ds ps where s: "nat_synced ss ds ps s" using nat_reach_synced [OF assms] by blast
  show ?thesis
  proof (intro exI conjI allI impI)
    show "nat_synced ss ds ps s" by (rule s)
  next
    fix i assume i: "i < length ss"
    note p = snat_parts [OF s]
    show "RuleSnat_getEntry (of_nat i) s = Inr (ss ! i)" using i p snat.get_nth by (auto simp: RuleSnat_getEntry_def)
    show "snd (RuleSnat_delEntry (of_nat i) s) = Inr ()" using p snat.del_synced [of ss _ i] i by (simp add: RuleSnat_delEntry_def on_snat_def)
  next
    fix i assume i: "i < length ds"
    note p = dnat_parts [OF s]
    show "RuleDnat_getEntry (of_nat i) s = Inr (ds ! i)" using i p dnat.get_nth by (auto simp: RuleDnat_getEntry_def)
    show "snd (RuleDnat_delEntry (of_nat i) s) = Inr ()" using p dnat.del_synced [of ds _ i] i by (simp add: RuleDnat_delEntry_def on_dnat_def)
  next
    fix i assume i: "i < length ps"
    note p = portforwarding_parts [OF s]
    show "RulePortForwarding_getEntry (of_nat i) s = Inr (ps ! i)"
      using i p portforwarding.get_nth by (auto simp: RulePortForwarding_getEntry_def)
    show "snd (RulePortForwarding_delEntry (of_nat i) s) = Inr ()"
      using p portforwarding.del_synced [of ps _ i] i by (simp add: RulePortForwarding_delEntry_def on_portforwarding_def)
  qed
qed

theorem nat_rules_in_kernel_witness: "\<exists>ds ps. nat_synced [nx_entry] ds ps nx_nat1 \<and> snd (RuleSnat_delEntry 0 nx_nat1) = Inr ()"
proof -
  obtain ss ds ps where s: "nat_synced ss ds ps nx_nat1" "\<forall>i < length ss. RuleSnat_getEntry (of_nat i) nx_nat1 = Inr (ss ! i) \<and> snd (RuleSnat_delEntry (of_nat i) nx_nat1) = Inr ()"
    using nat_rules_in_kernel [OF nx_reach] by blast
  have ss: "ss = [nx_entry]" using s(1) by (auto simp: nat_synced_def nx_nat1_def)
  then show ?thesis using s by fastforce
qed

text \<open>
  \<^bold>\<open>C10\<close>. A packet from inside without a session gets the external address of the most specific source rule of the list that matches its
  source, and the next port.
\<close>

theorem snat_rule_translates:
  assumes s: "nat_reach room lk s" "lookups_spec lk" and e: "Some e \<in> set (snat_rules s)" "sm_match (snat_key e) (st_src_ip k)"
    and best: "\<forall>e'. Some e' \<in> set (snat_rules s) \<longrightarrow> sm_match (snat_key e') (st_src_ip k) \<longrightarrow> sn_internalNetmask e' \<le> sn_internalNetmask e"
    and f: "Nat_parse f = NatKey k" "5 \<le> nat_ihl f" "egress_session_table (nat_dp s) k = None"
  shows "\<exists>f' cs d port. Nat_rx lk NATTYPE_EGRESS f (nat_dp s) = (RX_OK, f', cs, d) \<and> port = fst (get_free_port (first_free_port (nat_dp s))) \<and>
    Nat_parse f' = NatKey (k\<lparr>st_src_ip := sn_externalIp e, st_src_port := port, st_dst_port := (if st_proto k = 1 then port else st_dst_port k)\<rparr>)"
proof -
  obtain ss ds ps where sy: "nat_synced ss ds ps s" using nat_reach_synced [OF s(1)] by blast
  have rs: "Some x \<in> set (snat_rules s) \<longleftrightarrow> x \<in> set ss" for x using snat_parts [OF sy] by auto
  have "sm_lookup lk (sm_rules (nat_dp s)) (st_src_ip k) = Some (snat_value e)"
    by (rule snat_best [OF sy s(2)]) (use e best in \<open>auto simp: rs\<close>)
  then have "fst (nat_step lk NATTYPE_EGRESS k (nat_dp s)) = k\<lparr>st_src_ip := sn_externalIp e, st_src_port := fst (get_free_port (first_free_port (nat_dp s))),
      st_dst_port := (if st_proto k = 1 then fst (get_free_port (first_free_port (nat_dp s))) else st_dst_port k)\<rparr>"
    using f(3) by (simp add: nat_step_def nat_lookup_def translate_def snat_value_def src_rule_def split: prod.split)
  then show ?thesis using Nat_rx_step [OF f(1,2), of lk NATTYPE_EGRESS "nat_dp s"] by auto
qed

lemma nx_match: "sm_match (snat_key nx_entry) (st_src_ip nx_key)"
proof -
  have "sm_canonical (snat_key nx_entry)" using sm_canonical_synced nat_reach_synced [OF nx_reach] by (fastforce simp: nx_nat1_def)
  then have "sm_match (snat_key nx_entry) (st_src_ip nx_key) \<longleftrightarrow>
      snat_key nx_entry = sm_prefix (unat (internal_netmask_len (snat_key nx_entry))) (st_src_ip nx_key)" by (rule sm_match_prefix)
  moreover have "snat_key nx_entry = sm_prefix (unat (internal_netmask_len (snat_key nx_entry))) (st_src_ip nx_key)" by code_simp
  ultimately show ?thesis by blast
qed

theorem snat_rule_translates_witness:
  "\<exists>f' cs d. Nat_rx scan_lookups NATTYPE_EGRESS nx_out (nat_dp nx_nat1) = (RX_OK, f', cs, d) \<and>
     Nat_parse f' = NatKey (nx_key\<lparr>st_src_ip := 0x04030201, st_src_port := 0x0004\<rparr>)"
proof -
  have p: "fst (get_free_port 0) = 0x0004" by code_simp
  have "\<exists>f' cs d port. Nat_rx scan_lookups NATTYPE_EGRESS nx_out (nat_dp nx_nat1) = (RX_OK, f', cs, d) \<and>
      port = fst (get_free_port (first_free_port (nat_dp nx_nat1))) \<and>
      Nat_parse f' = NatKey (nx_key\<lparr>st_src_ip := sn_externalIp nx_entry, st_src_port := port, st_dst_port := (if st_proto nx_key = 1 then port else st_dst_port nx_key)\<rparr>)"
    by (rule snat_rule_translates [OF nx_reach scan_lookups_spec _ nx_match _ nx_frames(1)]) (auto simp: nx_nat1_def nx_nat0_def nx_frames)
  then show ?thesis by (auto simp: nx_nat1_def nx_nat0_def p nx_entry_def nx_key_def)
qed

text \<open>
  \<^bold>\<open>C11\<close>. A packet from outside without a session, to the address, port and protocol of a forwarding rule, goes to the internal address and port of
  that rule, whatever the destination rules and the forwardings of all protocols say; a forwarding to port 0 keeps the port.
\<close>

theorem forwarding_translates:
  assumes s: "nat_reach room lk s" "lookups_spec lk" and e: "Some e \<in> set (portforwarding_rules s)"
    and f: "Nat_parse f = NatKey k" "5 \<le> nat_ihl f" "ingress_session_table (nat_dp s) k = None"
    and k: "st_dst_ip k = pf_externalIp e" "st_dst_port k = ntohs (pf_externalPort e)"
      "pf_proto e = PROTO_TCP \<and> st_proto k = TCP8 \<or> pf_proto e = PROTO_UDP \<and> st_proto k = UDP8"
  shows "\<exists>f' cs d. Nat_rx lk NATTYPE_INGRESS f (nat_dp s) = (RX_OK, f', cs, d) \<and>
    Nat_parse f' = NatKey (k\<lparr>st_dst_ip := pf_internalIp e,
      st_dst_port := (if pf_internalPort e = 0 then st_dst_port k else ntohs (pf_internalPort e))\<rparr>)"
proof -
  obtain ss ds ps where sy: "nat_synced ss ds ps s" using nat_reach_synced [OF s(1)] by blast
  have e': "e \<in> set ps" using e portforwarding_parts [OF sy] by auto
  have "dp_proto (portforwarding_key e) = st_proto k" "pf_proto e \<noteq> PROTO_ALL" using k(3) by (auto simp: portforwarding_key_def)
  then have l: "dp_lookup lk (dp_rules (nat_dp s)) (st_dst_ip k) (st_dst_port k) (st_proto k) = Some (portforwarding_value e)"
    using forwarding_first [OF sy s(2) e'] k by simp
  have z: "ntohs (pf_internalPort e) = 0 \<longleftrightarrow> pf_internalPort e = 0" by (metis ntohs_0 ntohs_inj)
  have "st_proto k \<noteq> 1" using k(3) by (auto simp: TCP8_def UDP8_def)
  then have "fst (nat_step lk NATTYPE_INGRESS k (nat_dp s)) = k\<lparr>st_dst_ip := pf_internalIp e,
      st_dst_port := (if pf_internalPort e = 0 then st_dst_port k else ntohs (pf_internalPort e))\<rparr>"
    using f(3) l z by (simp add: nat_step_def nat_lookup_def translate_def portforwarding_value_def src_rule_def)
  then show ?thesis using Nat_rx_step [OF f(1,2), of lk NATTYPE_INGRESS "nat_dp s"] by auto
qed

definition nx_forwarding :: RulePortForwardingEntry where
  "nx_forwarding = \<lparr>pf_id = 0, pf_internalIp = 0x0100000A, pf_externalIp = 0x04030201, pf_internalPort = 80, pf_externalPort = 1024, pf_proto = PROTO_TCP\<rparr>"

definition nx_nat2 :: nat_service where
  "nx_nat2 = nx_nat0\<lparr>portforwarding_rules := [Some nx_forwarding], nat_dp := (nat_dp nx_nat0)\<lparr>dp_rules := [portforwarding_key nx_forwarding \<mapsto> portforwarding_value nx_forwarding]\<rparr>\<rparr>"

lemma nx_reach2: "nat_reach nx_room scan_lookups nx_nat2"
proof (rule reach_append_portforwarding [OF reach_new [OF fresh_is_nx], of "IpAddr_toString (IpAddr 0x0100000A 32)" 80 "IpAddr_toString (IpAddr 0x04030201 32)" 1024 "''tcp''" _ "Inr 0"])
  have c: "\<lparr>pc_id = 0, pc_externalIp = Some (IpAddr_toString (IpAddr 0x04030201 32)), pc_externalPort = Some 1024, pc_proto = Some ''tcp'',
      pc_internalIp = Some (IpAddr_toString (IpAddr 0x0100000A 32)), pc_internalPort = Some 80\<rparr> = RulePortForwardingEntry_toJsonObject nx_forwarding"
    by (simp add: RulePortForwardingEntry_toJsonObject_def nx_forwarding_def RulePortForwardingEntry_getExternalIp_def RulePortForwardingEntry_getInternalIp_def)
  have "entry_make portforwarding_ops (RulePortForwardingEntry_toJsonObject nx_forwarding) = Inr nx_forwarding" by (rule portforwarding.read_back) simp
  then show "RulePortForwarding_append nx_room (IpAddr_toString (IpAddr 0x0100000A 32)) 80 (IpAddr_toString (IpAddr 0x04030201 32)) 1024 ''tcp'' nx_nat0 = (nx_nat2, Inr 0)"
    by (simp add: RulePortForwarding_append_def RulePortForwarding_addEntry_def on_portforwarding_def addEntry_def table_set_def nx_room_def nx_nat2_def nx_nat0_def
        Let_def c) (simp add: portforwarding_ops_def)
qed (simp_all add: nx_nat0_def)

theorem forwarding_translates_witness:
  "\<exists>f' cs d. Nat_rx scan_lookups NATTYPE_INGRESS nx_in (nat_dp nx_nat2) = (RX_OK, f', cs, d) \<and>
     Nat_parse f' = NatKey ((answer nx_key')\<lparr>st_dst_ip := 0x0100000A, st_dst_port := ntohs 80\<rparr>)"
proof -
  have p: "ntohs 1024 = 0x0004" by code_simp
  have "\<exists>f' cs d. Nat_rx scan_lookups NATTYPE_INGRESS nx_in (nat_dp nx_nat2) = (RX_OK, f', cs, d) \<and>
    Nat_parse f' = NatKey ((answer nx_key')\<lparr>st_dst_ip := pf_internalIp nx_forwarding,
      st_dst_port := (if pf_internalPort nx_forwarding = 0 then st_dst_port (answer nx_key') else ntohs (pf_internalPort nx_forwarding))\<rparr>)"
    by (rule forwarding_translates [OF nx_reach2 scan_lookups_spec _ nx_frames(4)])
      (simp_all add: nx_nat2_def nx_nat0_def nx_frames nx_forwarding_def answer_def nx_key'_def p TCP8_def)
  then show ?thesis by (simp add: nx_forwarding_def)
qed

text \<open>The lists of a service, added to an empty one, with the tables they leave.\<close>

lemma restored_tables:
  assumes sy: "nat_synced ss ds ps s"
  shows "\<exists>t2. addEntryList snat_ops (\<lambda>_ _. True) (map RuleSnatEntry_toJsonObject ss) ([], Map.empty) =
      ((map Some ss, (sm_rules (nat_dp s))(masquerade_key := None)), Inr ()) \<and>
    addEntryList dnat_ops (\<lambda>_ _. True) (map RuleDnatEntry_toJsonObject ds) ([], Map.empty) = ((map Some ds, t2), Inr ()) \<and>
    addEntryList portforwarding_ops (\<lambda>_ _. True) (map RulePortForwardingEntry_toJsonObject ps) ([], t2) = ((map Some ps, dp_rules (nat_dp s)), Inr ())"
proof -
  note S = snat_parts [OF sy] and D = dnat_parts [OF sy] and P = portforwarding_parts [OF sy]
  obtain t1 where t1: "addEntryList snat_ops (\<lambda>_ _. True) (map RuleSnatEntry_toJsonObject ss) ([], Map.empty) = ((map Some ss, t1), Inr ())"
    "\<forall>k. snat_own k \<longrightarrow> t1 k = sm_rules (nat_dp s) k" "\<forall>k. \<not> snat_own k \<longrightarrow> t1 k = None" using snat.restore [of ss _ Map.empty] S by blast
  obtain t2 where t2: "addEntryList dnat_ops (\<lambda>_ _. True) (map RuleDnatEntry_toJsonObject ds) ([], Map.empty) = ((map Some ds, t2), Inr ())"
    "\<forall>k. dnat_own k \<longrightarrow> t2 k = dp_rules (nat_dp s) k" "\<forall>k. \<not> dnat_own k \<longrightarrow> t2 k = None" using dnat.restore [of ds _ Map.empty] D by blast
  have "\<forall>k. portforwarding_own k \<longrightarrow> t2 k = None" using t2(3) own_partition by blast
  then obtain t3 where t3: "addEntryList portforwarding_ops (\<lambda>_ _. True) (map RulePortForwardingEntry_toJsonObject ps) ([], t2) = ((map Some ps, t3), Inr ())"
    "\<forall>k. portforwarding_own k \<longrightarrow> t3 k = dp_rules (nat_dp s) k" "\<forall>k. \<not> portforwarding_own k \<longrightarrow> t3 k = t2 k"
    using portforwarding.restore [of ps _ t2] P by blast
  have "t1 k = ((sm_rules (nat_dp s))(masquerade_key := None)) k" for k using t1(2,3) sy by (cases "snat_own k") (auto simp: nat_synced_def)
  then have "t1 = (sm_rules (nat_dp s))(masquerade_key := None)" by blast
  moreover have "t3 k = dp_rules (nat_dp s) k" for k using t2(2) t3(2,3) own_partition [of k] by (cases "dnat_own k") auto
  then have "t3 = dp_rules (nat_dp s)" by blast
  ultimately show ?thesis using t1(1) t2(1) t3(1) by blast
qed

text \<open>Masquerading switched on with the address of the parent it had.\<close>

lemma masquerade_again:
  assumes "\<not> masquerade_enabled s3" "ip_string_to_nbo_uint (get_ip_from_string addr) = Inr ip" "sm_rules (nat_dp s3) = t(masquerade_key := None)"
    and "t masquerade_key = Some \<lparr>sm_external_ip = ip, sm_entry_type = MASQUERADE\<rparr>"
  shows "let s4 = RuleMasquerade_setEnabled nx_room True (fst (Nat_parent_ip nx_room addr s3))
    in sm_rules (nat_dp s4) = t \<and> dp_rules (nat_dp s4) = dp_rules (nat_dp s3) \<and> masquerade_enabled s4"
  using assms by (simp add: Nat_parent_ip_def RuleMasquerade_setEnabled_def RuleMasquerade_enable_def RuleMasquerade_inject_def table_set_def
      nx_room_def Let_def fun_upd_idem)

text \<open>
  \<^bold>\<open>C19\<close>. The lists of rules that a NAT service in a state of \<open>nat_reach\<close> prints can be read back: added, list by list with \<open>addEntryList\<close>, to a
  service that was created without rules and whose tables have room, they give the same three lists and the same entries of these lists in the kernel.
  Masquerading is printed but not restored by them: the new service has it off, without an entry. If it is then switched on with the address of
  the parent that the old entry has, the tables of rules are the same altogether. Giving the printed rules to the constructor instead does
  not work: it always throws (\<open>initial_rules_rejected\<close>).
\<close>

theorem nat_config_roundtrip:
  assumes s: "nat_reach room lk s" and s0: "Nat_new nx_room empty_rule_conf = (s0, Inr ())"
  shows "\<exists>sn dn pf s1 s2 s3. Rule_toJsonObject s =
      Inr \<lparr>rj_snat = Some sn, rj_masquerade = Some (Some (masquerade_enabled s)), rj_dnat = Some dn, rj_portForwarding = Some pf\<rparr> \<and>
    RuleSnat_addEntryList nx_room sn s0 = (s1, Inr ()) \<and> RuleDnat_addEntryList nx_room dn s1 = (s2, Inr ()) \<and>
    RulePortForwarding_addEntryList nx_room pf s2 = (s3, Inr ()) \<and>
    snat_rules s3 = snat_rules s \<and> dnat_rules s3 = dnat_rules s \<and> portforwarding_rules s3 = portforwarding_rules s \<and>
    \<not> masquerade_enabled s3 \<and>
    dp_rules (nat_dp s3) = dp_rules (nat_dp s) \<and> sm_rules (nat_dp s3) = (sm_rules (nat_dp s))(masquerade_key := None) \<and>
    (\<forall>addr ip. ip_string_to_nbo_uint (get_ip_from_string addr) = Inr ip \<and>
        sm_rules (nat_dp s) masquerade_key = Some \<lparr>sm_external_ip = ip, sm_entry_type = MASQUERADE\<rparr> \<longrightarrow>
      (let s4 = RuleMasquerade_setEnabled nx_room True (fst (Nat_parent_ip nx_room addr s3))
       in sm_rules (nat_dp s4) = sm_rules (nat_dp s) \<and> dp_rules (nat_dp s4) = dp_rules (nat_dp s) \<and> masquerade_enabled s4))"
proof -
  have s0: "s0 = nx_nat0" using s0 fresh_is_nx by simp
  obtain ss ds ps where sy: "nat_synced ss ds ps s" using nat_reach_synced [OF s] by blast
  have js: "json_list f (map Some xs) = Inr (map f xs)" for f :: "'x \<Rightarrow> 'y" and xs by (induction xs) simp_all
  note S = snat_parts [OF sy] and D = dnat_parts [OF sy] and P = portforwarding_parts [OF sy]
  let ?t1 = "(sm_rules (nat_dp s))(masquerade_key := None)"
  obtain t2 where t: "addEntryList snat_ops (\<lambda>_ _. True) (map RuleSnatEntry_toJsonObject ss) ([], Map.empty) = ((map Some ss, ?t1), Inr ())"
    "addEntryList dnat_ops (\<lambda>_ _. True) (map RuleDnatEntry_toJsonObject ds) ([], Map.empty) = ((map Some ds, t2), Inr ())"
    "addEntryList portforwarding_ops (\<lambda>_ _. True) (map RulePortForwardingEntry_toJsonObject ps) ([], t2) = ((map Some ps, dp_rules (nat_dp s)), Inr ())"
    using restored_tables [OF sy] by blast
  let ?s1 = "nx_nat0\<lparr>snat_rules := map Some ss, nat_dp := (nat_dp nx_nat0)\<lparr>sm_rules := ?t1\<rparr>\<rparr>"
  let ?s2 = "?s1\<lparr>dnat_rules := map Some ds, nat_dp := (nat_dp ?s1)\<lparr>dp_rules := t2\<rparr>\<rparr>"
  let ?s3 = "?s2\<lparr>portforwarding_rules := map Some ps, nat_dp := (nat_dp ?s2)\<lparr>dp_rules := dp_rules (nat_dp s)\<rparr>\<rparr>"
  have "RuleSnat_addEntryList nx_room (map RuleSnatEntry_toJsonObject ss) s0 = (?s1, Inr ())"
    using t(1) by (simp add: s0 RuleSnat_addEntryList_def on_snat_def nx_room_def) (simp add: nx_nat0_def)
  moreover have "RuleDnat_addEntryList nx_room (map RuleDnatEntry_toJsonObject ds) ?s1 = (?s2, Inr ())"
    using t(2) by (simp add: RuleDnat_addEntryList_def on_dnat_def nx_room_def nx_nat0_def)
  moreover have "RulePortForwarding_addEntryList nx_room (map RulePortForwardingEntry_toJsonObject ps) ?s2 = (?s3, Inr ())"
    using t(3) by (simp add: RulePortForwarding_addEntryList_def on_portforwarding_def nx_room_def nx_nat0_def)
  moreover have "Rule_toJsonObject s = Inr \<lparr>rj_snat = Some (map RuleSnatEntry_toJsonObject ss), rj_masquerade = Some (Some (masquerade_enabled s)),
      rj_dnat = Some (map RuleDnatEntry_toJsonObject ds), rj_portForwarding = Some (map RulePortForwardingEntry_toJsonObject ps)\<rparr>"
    using S D P by (simp add: Rule_toJsonObject_def RuleSnat_toJsonObject_def RuleDnat_toJsonObject_def RulePortForwarding_toJsonObject_def js)
  moreover have "snat_rules ?s3 = snat_rules s" "dnat_rules ?s3 = dnat_rules s" "portforwarding_rules ?s3 = portforwarding_rules s"
    "dp_rules (nat_dp ?s3) = dp_rules (nat_dp s)" using S D P by simp_all
  moreover have off: "\<not> masquerade_enabled ?s3" "sm_rules (nat_dp ?s3) = ?t1" by (simp_all add: nx_nat0_def)
  ultimately show ?thesis using masquerade_again [OF off(1) _ off(2)] by metis
qed

theorem nat_config_roundtrip_witness:
  "\<exists>sn dn pf s1 s2 s3. Rule_toJsonObject nx_nat1 =
      Inr \<lparr>rj_snat = Some sn, rj_masquerade = Some (Some False), rj_dnat = Some dn, rj_portForwarding = Some pf\<rparr> \<and>
    RuleSnat_addEntryList nx_room sn nx_nat0 = (s1, Inr ()) \<and> RuleDnat_addEntryList nx_room dn s1 = (s2, Inr ()) \<and>
    RulePortForwarding_addEntryList nx_room pf s2 = (s3, Inr ()) \<and> snat_rules s3 = [Some nx_entry]"
proof -
  have "snat_rules nx_nat1 = [Some nx_entry]" "masquerade_enabled nx_nat1 = False" by (simp_all add: nx_nat1_def nx_nat0_def)
  then show ?thesis using nat_config_roundtrip [OF nx_reach fresh_is_nx] by metis
qed

section \<open>Where the code fails\<close>

text \<open>
  Turning masquerading off does not stop it: the entry stays in the kernel with the address 0, and a new connection that no source rule
  matches leaves with the source 0.0.0.0.
\<close>

theorem masquerade_off_zero:
  assumes s: "nat_reach room lk s" "lookups_spec lk" "masquerade_enabled s" "room_sm room (sm_rules (nat_dp s)) masquerade_key"
    and f: "Nat_parse f = NatKey k" "5 \<le> nat_ihl f" "egress_session_table (nat_dp s) k = None"
    and none: "\<forall>e. Some e \<in> set (snat_rules s) \<longrightarrow> \<not> sm_match (snat_key e) (st_src_ip k)"
    and off: "RuleMasquerade_disable room s = (s', r)"
  shows "r \<and> \<not> masquerade_enabled s' \<and> (\<exists>f' cs d k'. Nat_rx lk NATTYPE_EGRESS f (nat_dp s') = (RX_OK, f', cs, d) \<and> Nat_parse f' = NatKey k' \<and> st_src_ip k' = 0)"
proof -
  let ?v = "\<lparr>sm_external_ip = 0, sm_entry_type = MASQUERADE\<rparr>"
  obtain ss ds ps where sy: "nat_synced ss ds ps s" using nat_reach_synced [OF s(1)] by blast
  have s': "r" "s' = (fst (RuleMasquerade_inject room 0 s))\<lparr>masquerade_enabled := False\<rparr>"
    "sm_rules (nat_dp s') masquerade_key = Some ?v" "egress_session_table (nat_dp s') = egress_session_table (nat_dp s)" "snat_rules s' = snat_rules s"
    using off s(3,4) by (auto simp: RuleMasquerade_disable_def RuleMasquerade_inject_def table_set_def)
  have sy': "nat_synced ss ds ps s'" unfolding s'(2) using inject_keeps [OF sy] by simp
  have "sm_lookup lk (sm_rules (nat_dp s')) (st_src_ip k) = Some ?v"
    by (rule masquerade_last [OF sy' s(2) s'(3)]) (use none snat_parts [OF sy] in auto)
  then have "st_src_ip (fst (nat_step lk NATTYPE_EGRESS k (nat_dp s'))) = 0"
    using f(3) s'(4) by (simp add: nat_step_def nat_lookup_def translate_def src_rule_def split: prod.split)
  then show ?thesis using s'(1,2) Nat_rx_step [OF f(1,2), of lk NATTYPE_EGRESS "nat_dp s'"] by auto
qed

definition nx_masquerading :: nat_service where
  "nx_masquerading = RuleMasquerade_setEnabled nx_room True nx_nat0"

theorem masquerade_off_zero_witness:
  "\<exists>s' f' cs d k'. RuleMasquerade_disable nx_room nx_masquerading = (s', True) \<and>
     Nat_rx scan_lookups NATTYPE_EGRESS nx_out (nat_dp s') = (RX_OK, f', cs, d) \<and> Nat_parse f' = NatKey k' \<and> st_src_ip k' = 0"
proof -
  have r: "nat_reach nx_room scan_lookups nx_masquerading" unfolding nx_masquerading_def by (rule reach_masquerade [OF reach_new [OF fresh_is_nx]])
  obtain s' q where off: "RuleMasquerade_disable nx_room nx_masquerading = (s', q)" by fastforce
  have e: "egress_session_table (nat_dp nx_masquerading) = Map.empty" "snat_rules nx_masquerading = []" "masquerade_enabled nx_masquerading"
    by (auto simp: nx_masquerading_def RuleMasquerade_setEnabled_def RuleMasquerade_enable_def RuleMasquerade_inject_def table_set_def nx_nat0_def nx_room_def
        split: sum.splits)
  have "q \<and> \<not> masquerade_enabled s' \<and> (\<exists>f' cs d k'. Nat_rx scan_lookups NATTYPE_EGRESS nx_out (nat_dp s') = (RX_OK, f', cs, d) \<and> Nat_parse f' = NatKey k' \<and> st_src_ip k' = 0)"
    by (rule masquerade_off_zero [OF r scan_lookups_spec e(3) _ nx_frames(1) _ _ _ off]) (simp_all add: e nx_room_def nx_frames)
  then show ?thesis using off by auto
qed

text \<open>
  Deleting the rule with the number after the last one is not refused: the last rule leaves the list but stays in the kernel, and
  with an empty list the vector is read out of its bounds.
\<close>

theorem delete_past_end:
  assumes s: "nat_reach room lk s"
  shows "RuleSnat_delEntry (of_nat (length (snat_rules s))) s =
    (if snat_rules s = [] then (s, Inl (UndefinedBehaviour ''vector index'')) else (s\<lparr>snat_rules := butlast (snat_rules s)\<rparr>, Inr ()))"
proof -
  obtain ss ds ps where sy: "nat_synced ss ds ps s" using nat_reach_synced [OF s] by blast
  have p: "snat_rules s = map Some ss" "in_sync snat_ops snat_ok snat_own ss (sm_rules (nat_dp s))" using snat_parts [OF sy] by auto
  have len: "length ss < 2 ^ 32" and ids: "\<And>j. j < length ss \<Longrightarrow> sn_id (ss ! j) = of_nat j" using p(2) by (auto simp: in_sync_def snat_ops_def)
  have ne: "sn_id x \<noteq> of_nat (length ss)" if x: "x \<in> set ss" for x
  proof -
    obtain j where j: "j < length ss" "x = ss ! j" using x by (auto simp: in_set_conv_nth)
    have "unat (of_nat j :: 32 word) = j" "unat (of_nat (length ss) :: 32 word) = length ss" using j len by (simp_all add: unat_of_nat)
    then show ?thesis using ids [OF j(1)] j by auto
  qed
  have rm: "remove_matching snat_ops i (map Some xs) t = (t, Inr ())" if "\<forall>x \<in> set xs. sn_id x \<noteq> i" for xs i t
    using that by (induction xs) (simp_all add: snat_ops_def)
  have u: "unat (of_nat (length ss) :: 32 word) = length ss" using len by (simp add: unat_of_nat)
  have "remove_matching snat_ops (of_nat (length ss)) (map Some ss) (sm_rules (nat_dp s)) = (sm_rules (nat_dp s), Inr ())" using ne by (intro rm) blast
  then show ?thesis using u by (auto simp: RuleSnat_delEntry_def on_snat_def delEntry_def p(1) map_butlast)
qed

theorem delete_past_end_witness: "RuleSnat_delEntry 1 nx_nat1 = (nx_nat1\<lparr>snat_rules := []\<rparr>, Inr ())"
proof -
  have "snat_rules nx_nat1 = [Some nx_entry]" by (simp add: nx_nat1_def)
  then show ?thesis using delete_past_end [OF nx_reach] by simp
qed

text \<open>
  Replacing a rule that is not the last one gives two rules the same number: the new rule goes to the end with the number it was asked to have,
  which the rule that moved down into its place has too; reading that number returns the other rule.
\<close>

theorem replace_number_twice:
  assumes s: "nat_reach room lk s" and i: "Suc i < length (snat_rules s)" and c: "RuleSnatEntry_new c = Inr e" "sc_id c = of_nat i"
    and fresh: "\<forall>x. Some x \<in> set (snat_rules s) \<longrightarrow> snat_key x \<noteq> snat_key e" and room: "\<forall>t. room_sm room t (snat_key e)"
    and r: "RuleSnat_replaceEntry room (of_nat i) c s = (s', r)"
  shows "r = Inr () \<and> last (snat_rules s') = Some e \<and>
    (\<exists>x. Some x = snat_rules s' ! i \<and> RuleSnat_getEntry (of_nat i) s' = Inr x \<and> sn_id x = sn_id e \<and> snat_key x \<noteq> snat_key e)"
proof -
  obtain ss ds ps where sy: "nat_synced ss ds ps s" using nat_reach_synced [OF s] by blast
  have p: "snat_rules s = map Some ss" "in_sync snat_ops snat_ok snat_own ss (sm_rules (nat_dp s))" using snat_parts [OF sy] by auto
  have i': "i < length ss" "Suc i < length ss" using i p(1) by auto
  let ?w = "without snat_ops i ss" and ?t = "(sm_rules (nat_dp s))(snat_key (ss ! i) := None)"
  have del: "delEntry snat_ops (of_nat i) (map Some ss, sm_rules (nat_dp s)) = ((map Some ?w, ?t), Inr ())"
    using snat.del_synced [OF p(2) i'(1)] by (simp add: snat_ops_def)
  have sw: "in_sync snat_ops snat_ok snat_own ?w ?t" using snat.without_synced [OF p(2) i'(1)] by (simp add: snat_ops_def)
  have keys: "snat_key ` set ?w \<subseteq> snat_key ` set ss"
  proof -
    have "map snat_key ?w = take i (map snat_key ss) @ drop (Suc i) (map snat_key ss)"
      by (rule snat.map_without [OF i'(1)]) (simp add: snat_ops_def snat_key_def)
    then show ?thesis by (metis list.set_map set_append set_drop_subset set_take_subset Un_least)
  qed
  have nw: "snat_key e \<notin> snat_key ` set ?w" using keys fresh p(1) by auto
  have e: "snat_ok e" "sn_id e = of_nat i" using RuleSnatEntry_new_ok [OF c(1)] c(2) by auto
  have new: "entry_make snat_ops c = Inr e" using c(1) by (simp add: snat_ops_def)
  have "dup_check snat_ops e (map Some ?w) = Inr ()"
    using snat.dup_check_Some [OF e(1), of ?w] sw nw by (auto simp: in_sync_def snat_ops_def)
  then have "addEntry snat_ops (room_sm room) c (map Some ?w, ?t) = ((map Some ?w @ [Some e], ?t(snat_key e \<mapsto> snat_value e)), Inr ())"
    using new room by (simp add: addEntry_def table_set_def) (simp add: snat_ops_def)
  then have rep: "r = Inr ()" "snat_rules s' = map Some (?w @ [e])"
    using r del p(1) by (auto simp: RuleSnat_replaceEntry_def on_snat_def replaceEntry_def)
  have len: "i < length ?w" using i' by (simp add: without_def)
  have get: "getEntry snat_ops (of_nat i) (map Some ?w @ ys) = Inr (?w ! i)" for ys
  proof -
    have "getEntry snat_ops j (map Some xs @ ys) = Inr x" if "getEntry snat_ops j (map Some xs) = Inr x" for j xs x
      using that by (induction xs) (auto split: if_splits)
    then show ?thesis using snat.get_nth [OF sw len] by blast
  qed
  have "sn_id (?w ! i) = of_nat i" using sw len by (simp add: in_sync_def snat_ops_def)
  moreover have "snat_key (?w ! i) \<noteq> snat_key e" using nw len by (metis image_eqI nth_mem)
  ultimately show ?thesis using rep len get e(2) by (auto simp: RuleSnat_getEntry_def nth_append)
qed

definition nx_host :: "32 word \<Rightarrow> 32 word \<Rightarrow> RuleSnatEntry" where
  "nx_host i ip = \<lparr>sn_id = i, sn_internalIp = ip, sn_internalNetmask = 32, sn_externalIp = 0x04030201\<rparr>"

definition nx_nat3 :: nat_service where
  "nx_nat3 = nx_nat1\<lparr>snat_rules := [Some nx_entry, Some (nx_host 1 0x0200000A)],
     nat_dp := (nat_dp nx_nat1)\<lparr>sm_rules := (sm_rules (nat_dp nx_nat1))(snat_key (nx_host 1 0x0200000A) \<mapsto> snat_value (nx_host 1 0x0200000A))\<rparr>\<rparr>"

lemma nx_host_new: "RuleSnatEntry_new \<lparr>sc_id = i, sc_internalNet = Some (IpAddr_toString (IpAddr ip 32)), sc_externalIp = Some (IpAddr_toString (IpAddr 0x04030201 32))\<rparr> =
    Inr (nx_host i ip)"
  by (simp add: RuleSnatEntry_new_def construct_def RuleSnatEntry_update_def RuleSnatEntry_setInternalNet_def RuleSnatEntry_setExternalIp_def
      if_set_def set_with_def nx_host_def)

lemma nx_reach3: "nat_reach nx_room scan_lookups nx_nat3"
proof (rule reach_append_snat [OF nx_reach, of "IpAddr_toString (IpAddr 0x04030201 32)" "IpAddr_toString (IpAddr 0x0200000A 32)" _ "Inr 1"])
  have "RuleSnatEntry_getInternalNet nx_entry \<noteq> RuleSnatEntry_getInternalNet (nx_host 1 0x0200000A)"
    by (simp add: RuleSnatEntry_getInternalNet_def toString_inj nx_entry_def nx_host_def)
  then show "RuleSnat_append nx_room (IpAddr_toString (IpAddr 0x04030201 32)) (IpAddr_toString (IpAddr 0x0200000A 32)) nx_nat1 = (nx_nat3, Inr 1)"
    using nx_host_new [of 1 "0x0200000A"]
    by (simp add: RuleSnat_append_def RuleSnat_addEntry_def on_snat_def addEntry_def snat_ops_def table_set_def nx_room_def nx_nat3_def Let_def)
      (simp add: nx_nat1_def table_set_def)
qed (simp_all add: nx_nat1_def)

theorem replace_number_twice_witness:
  "\<exists>s' x. RuleSnat_replaceEntry nx_room 0 \<lparr>sc_id = 0, sc_internalNet = Some (IpAddr_toString (IpAddr 0x0300000A 32)),
       sc_externalIp = Some (IpAddr_toString (IpAddr 0x04030201 32))\<rparr> nx_nat3 = (s', Inr ()) \<and>
     RuleSnat_getEntry 0 s' = Inr x \<and> sn_id x = 0 \<and> last (snat_rules s') = Some (nx_host 0 0x0300000A)"
proof -
  let ?c = "\<lparr>sc_id = 0, sc_internalNet = Some (IpAddr_toString (IpAddr 0x0300000A 32)), sc_externalIp = Some (IpAddr_toString (IpAddr 0x04030201 32))\<rparr>"
  obtain s' r where rep: "RuleSnat_replaceEntry nx_room (of_nat 0) ?c nx_nat3 = (s', r)" by fastforce
  have "r = Inr () \<and> last (snat_rules s') = Some (nx_host 0 0x0300000A) \<and>
      (\<exists>x. Some x = snat_rules s' ! 0 \<and> RuleSnat_getEntry (of_nat 0) s' = Inr x \<and> sn_id x = sn_id (nx_host 0 0x0300000A) \<and> snat_key x \<noteq> snat_key (nx_host 0 0x0300000A))"
    by (rule replace_number_twice [OF nx_reach3 _ nx_host_new _ _ _ rep])
      (auto simp: nx_nat3_def nx_entry_def nx_host_def snat_key_def nx_room_def)
  then show ?thesis using rep by (auto simp: nx_host_def)
qed

text \<open>
  Rules given with the whole object are always refused: a service whose initial configuration has a source rule cannot be created, and
  replacing the list of source rules of a running service deletes all of them before it fails.
\<close>

theorem initial_rules_rejected:
  assumes s: "nat_reach room lk s" and c: "rj_snat conf = Some (c # cs)"
  shows "snd (Nat_new room conf) = Inl (no_rule (sc_id c)) \<and>
    (\<exists>s'. Rule_replaceSnat (c # cs) s = (s', Inl (no_rule (sc_id c))) \<and> snat_rules s' = [] \<and> (\<forall>k. snat_own k \<longrightarrow> sm_rules (nat_dp s') k = None))"
proof -
  have u: "update_entries snat_ops (c # cs) [] = ([], Inl (no_rule (sc_id c)))" by (simp add: snat_ops_def)
  then have 1: "snd (Nat_new room conf) = Inl (no_rule (sc_id c))"
    using c by (simp add: Nat_new_def Nat_addRule_def Rule_update_def if_set_def RuleSnat_update_def on_snat_def on_rules_def fresh_rule_def)
  obtain ss ds ps where sy: "nat_synced ss ds ps s" using nat_reach_synced [OF s] by blast
  obtain t where t: "RuleSnat_delEntryList s = (s\<lparr>snat_rules := [], nat_dp := (nat_dp s)\<lparr>sm_rules := t\<rparr>\<rparr>, Inr ())"
    "nat_synced [] ds ps (s\<lparr>snat_rules := [], nat_dp := (nat_dp s)\<lparr>sm_rules := t\<rparr>\<rparr>)" using clear_lists(1) [OF sy] by blast
  have "\<forall>k. snat_own k \<longrightarrow> t k = None" using snat_parts [OF t(2)] by (simp add: in_sync_def)
  then show ?thesis using 1 t(1) u by (simp add: Rule_replaceSnat_def Rule_delSnat_def Rule_addSnat_def)
qed

theorem initial_rules_rejected_witness:
  "snd (Nat_new nx_room (empty_rule_conf\<lparr>rj_snat := Some [RuleSnatEntry_toJsonObject nx_entry]\<rparr>)) = Inl (RuntimeError ''There is no rule '')"
  using initial_rules_rejected [OF nx_reach, of "empty_rule_conf\<lparr>rj_snat := Some [RuleSnatEntry_toJsonObject nx_entry]\<rparr>"]
  by (simp add: RuleSnatEntry_toJsonObject_def nx_entry_def no_rule_def)

lemma stol_letter: "65 \<le> code c \<Longrightarrow> stol (c # s) = Inl (InvalidArgument ''stol'')"
  by (simp add: stol_def is_digit_def is_space_def)

text \<open>
  No session can be asked for with the fields the list shows, because the protocol is read as a number; asked for with the number, it
  is returned with the protocol unknown and the port in the order of the network.
\<close>

theorem listed_session_not_found:
  "(let e = natting_entry (k, v) in
     Nat_getNattingTable (nt_srcIp e) (nt_dstIp e) (nt_srcPort e) (nt_dstPort e) (nt_proto e) s = Inl (RuntimeError ''Natting table entry not found'') \<and>
     (egress_session_table (nat_dp s) k = Some v \<longrightarrow>
        Nat_getNattingTable (nt_srcIp e) (nt_dstIp e) (nt_srcPort e) (nt_dstPort e) (dec (unat (st_proto k))) s =
          Inr (e\<lparr>nt_proto := ''unknown'', nt_newPort := new_port v\<rparr>)))"
proof -
  have st: "\<exists>err. stol p = Inl err" if "p \<in> {''icmp'', ''tcp'', ''udp'', ''unknown'', ''ICMP'', ''TCP'', ''UDP''}" for p
    using that unfolding insert_iff empty_iff by (elim disjE FalseE) (simp_all add: stol_letter code_def)
  have p: "proto_from_int_to_string (st_proto k) \<in> {''icmp'', ''tcp'', ''udp'', ''unknown'', ''ICMP'', ''TCP'', ''UDP''}" by (simp add: proto_from_int_to_string_def)
  obtain err where "stol (proto_from_int_to_string (st_proto k)) = Inl err" using st [OF p] by blast
  then have 1: "Nat_getNattingTable (nbo_uint_to_ip_string (st_src_ip k)) (nbo_uint_to_ip_string (st_dst_ip k)) (ntohs (st_src_port k)) (ntohs (st_dst_port k))
      (proto_from_int_to_string (st_proto k)) s = Inl (RuntimeError ''Natting table entry not found'')"
    by (simp add: Nat_getNattingTable_def ip_print_parse)
  have num: "stol (dec (unat (st_proto k))) = Inr (int (unat (st_proto k)))"
    using unsigned_less [of "st_proto k", where ?'a = nat] by (intro stol_dec) simp
  have "dec (unat (st_proto k)) \<notin> {''icmp'', ''tcp'', ''udp'', ''unknown'', ''ICMP'', ''TCP'', ''UDP''}"
  proof
    assume "dec (unat (st_proto k)) \<in> {''icmp'', ''tcp'', ''udp'', ''unknown'', ''ICMP'', ''TCP'', ''UDP''}"
    then obtain err where "stol (dec (unat (st_proto k))) = Inl err" using st by blast
    then show False using num by simp
  qed
  then have "proto_from_string_to_int (dec (unat (st_proto k))) = -1" by (simp add: proto_from_string_to_int_def)
  then have "proto_from_int_to_string (proto_from_string_to_int (dec (unat (st_proto k)))) = ''unknown''"
    by (simp add: proto_from_int_to_string_def TCP8_def UDP8_def)
  then have 2: "Nat_getNattingTable (nbo_uint_to_ip_string (st_src_ip k)) (nbo_uint_to_ip_string (st_dst_ip k)) (ntohs (st_src_port k)) (ntohs (st_dst_port k))
      (dec (unat (st_proto k))) s = Inr ((natting_entry (k, v))\<lparr>nt_proto := ''unknown'', nt_newPort := new_port v\<rparr>)"
    if "egress_session_table (nat_dp s) k = Some v"
    using that num by (cases k) (simp add: Nat_getNattingTable_def natting_entry_def ip_print_parse)
  have e: "nt_srcIp (natting_entry (k, v)) = nbo_uint_to_ip_string (st_src_ip k)" "nt_dstIp (natting_entry (k, v)) = nbo_uint_to_ip_string (st_dst_ip k)"
    "nt_srcPort (natting_entry (k, v)) = ntohs (st_src_port k)" "nt_dstPort (natting_entry (k, v)) = ntohs (st_dst_port k)"
    "nt_proto (natting_entry (k, v)) = proto_from_int_to_string (st_proto k)" by (simp_all add: natting_entry_def)
  show ?thesis unfolding Let_def e using 1 2 by blast
qed

theorem listed_session_not_found_witness:
  "let e = natting_entry (nx_key, \<lparr>new_ip = 0x04030201, new_port = 0x0004, originating_rule_type = SNAT\<rparr>) in
     Nat_getNattingTable (nt_srcIp e) (nt_dstIp e) (nt_srcPort e) (nt_dstPort e) (dec (unat (st_proto nx_key))) (nx_nat1\<lparr>nat_dp := nx_after\<rparr>) =
       Inr (e\<lparr>nt_proto := ''unknown'', nt_newPort := 0x0004\<rparr>)"
  using listed_session_not_found [of nx_key "\<lparr>new_ip = 0x04030201, new_port = 0x0004, originating_rule_type = SNAT\<rparr>" "nx_nat1\<lparr>nat_dp := nx_after\<rparr>"] nx_again(1)
  by (simp add: Let_def)

end
