(* ===== verification/Lb_Array.thy ===== *)
theory Lb_Array
  imports Net_Utils "HOL-Library.List_Lexorder" "HOL-Library.Char_ord" "HOL-Library.Log_Nat"
begin

text \<open>
  The array of backends of a load-balancing service (\<open>pcn-loadbalancer-rp\<close>, \<open>Service.cpp\<close>): the share of each backend, and the walk over
  the matrix of permutations that distributes the entries. The theorems say when the computation of the shares ends, and that the array is
  filled with every backend as often as its share.
\<close>

section \<open>Shares\<close>

text \<open>
  A product or quotient of \<open>float\<close>: 24 bits of precision, rounded to the nearest, to an even last bit if there are two. The numbers here are far
  from the limits of the exponent.
\<close>

definition round_even :: "rat \<Rightarrow> int" where
  "round_even q = (let f = floor q; r = q - of_int f in if r < 1 / 2 \<or> r = 1 / 2 \<and> even f then f else f + 1)"

definition f32_exponent :: "rat \<Rightarrow> int" where
  "f32_exponent q = (let (n, d) = quotient_of q; k = bitlen n - bitlen d in (if q < 2 powi k then k - 1 else k) - 23)"

definition f32 :: "rat \<Rightarrow> rat" where
  "f32 q = (if q \<le> 0 then 0 else let e = f32_exponent q in of_int (round_even (q / 2 powi e)) * 2 powi e)"

definition BACKEND_REPLICAS :: int where "BACKEND_REPLICAS = 3"
definition INITIAL_BACKEND_SIZE :: int where "INITIAL_BACKEND_SIZE = 10"

definition vect_size :: "nat \<Rightarrow> int" where
  "vect_size n = max INITIAL_BACKEND_SIZE (int n) * BACKEND_REPLICAS"

text \<open>The weights come in the order in which the hash table of the backends is walked, as pairs of address and weight.\<close>

type_synonym weights = "(string \<times> int) list"
type_synonym pool = "string \<Rightarrow> int"

definition sum_weight :: "weights \<Rightarrow> int" where
  "sum_weight ws = (\<Sum>(ip, w) \<leftarrow> ws. w)"

definition base_share :: "int \<Rightarrow> weights \<Rightarrow> int \<Rightarrow> int" where
  "base_share vsize ws w = floor (f32 (of_int w * f32 (f32 (of_int vsize) / f32 (of_int (sum_weight ws)))))"

definition weight_backend :: "int \<Rightarrow> weights \<Rightarrow> int \<Rightarrow> int" where
  "weight_backend vsize ws w = (if base_share vsize ws w = 0 then 1 else base_share vsize ws w)"

definition first_pass :: "int \<Rightarrow> weights \<Rightarrow> pool \<times> int" where
  "first_pass vsize ws =
     foldl (\<lambda>(pool, total) (ip, w). if w = 0 then (pool, total) else (pool(ip := weight_backend vsize ws w), total + weight_backend vsize ws w))
       (\<lambda>_. 0, 0) ws"

text \<open>One pass of the loop that hands out what is left, and the loop, which may run forever.\<close>

fun align_pass :: "weights \<Rightarrow> pool \<times> int \<Rightarrow> pool \<times> int" where
  "align_pass [] (pool, res) = (pool, res)"
| "align_pass ((ip, w) # ws) (pool, res) =
     (if w = 0 then align_pass ws (pool, res)
      else let pool' = pool(ip := pool ip + 1); res' = res - 1
           in if res' = 0 then (pool', res') else align_pass ws (pool', res'))"

partial_function (option) align :: "weights \<Rightarrow> pool \<times> int \<Rightarrow> pool option" where
  "align ws st = (if 0 < snd st then align ws (align_pass ws st) else Some (fst st))"

definition get_weight_backend :: "nat \<Rightarrow> weights \<Rightarrow> pool option" where
  "get_weight_backend n ws = (let (pool, total) = first_pass (vect_size n) ws in align ws (pool, vect_size n - total))"

section \<open>The walk over the matrix\<close>

definition unset :: string where "unset = ''-1''"

datatype scan = Skip nat | Place nat

text \<open>
  Going down a column from the row \<open>index\<close>. \<open>elem[index]\<close> past the end of the column is undefined; \<open>at(num)\<close> outside of the array throws. The next
  column starts at the row a skipped one leaves in \<open>index\<close>: \<open>j\<close> again after the last row, and unchanged after \<open>-2\<close>.
\<close>

function scan_column :: "string list \<Rightarrow> int list \<Rightarrow> nat \<Rightarrow> nat \<Rightarrow> nat \<Rightarrow> scan result" where
  "scan_column final col rows j index =
     (if length col \<le> index then Inl (UndefinedBehaviour ''vector index'')
      else let num = col ! index
           in if num = -2 then Inr (Skip index)
              else if num < 0 \<or> int (length final) \<le> num then Inl (OutOfRange ''vector::_M_range_check'')
              else if final ! nat num \<noteq> unset
                   then (if rows \<le> index + 1 then Inr (Skip j) else scan_column final col rows j (index + 1))
                   else Inr (Place (nat num)))"
  by pat_completeness auto
termination
  by (relation "measure (\<lambda>(final, col, rows, j, index). rows - index)") auto

declare scan_column.simps [simp del]

record walk =
  final_backend_list :: "string list"
  weight_backend_list :: pool
  walk_count :: nat
  walk_index :: nat

definition visit :: "nat \<Rightarrow> nat \<Rightarrow> walk \<Rightarrow> string \<times> int list \<Rightarrow> walk result" where
  "visit rows j st = (\<lambda>(ip, col).
     if walk_count st = rows then Inr st
     else rbind (scan_column (final_backend_list st) col rows j (walk_index st)) (\<lambda>s.
       case s of
         Skip index \<Rightarrow> Inr (st\<lparr>walk_index := index\<rparr>)
       | Place num \<Rightarrow>
           if 0 < weight_backend_list st ip
           then Inr \<lparr>final_backend_list = (final_backend_list st)[num := ip],
                     weight_backend_list = (weight_backend_list st)(ip := weight_backend_list st ip - 1), walk_count = walk_count st + 1, walk_index = j\<rparr>
           else Inr (st\<lparr>walk_index := j\<rparr>)))"

fun visit_row :: "nat \<Rightarrow> nat \<Rightarrow> (string \<times> int list) list \<Rightarrow> walk \<Rightarrow> walk result" where
  "visit_row rows j [] st = Inr st"
| "visit_row rows j (c # cs) st = rbind (visit rows j st c) (visit_row rows j cs)"

fun visit_rows :: "nat \<Rightarrow> nat list \<Rightarrow> (string \<times> int list) list \<Rightarrow> walk \<Rightarrow> walk result" where
  "visit_rows rows [] cs st = Inr st"
| "visit_rows rows (j # js) cs st = rbind (visit_row rows j cs (st\<lparr>walk_index := j\<rparr>)) (visit_rows rows js cs)"

text \<open>\<open>getConsistentArray\<close>: \<open>None\<close> if the computation of the shares does not end.\<close>

definition getConsistentArray :: "nat \<Rightarrow> weights \<Rightarrow> (string \<times> int list) list \<Rightarrow> string list result option" where
  "getConsistentArray n ws backend_matrix =
     (case get_weight_backend n ws of
        None \<Rightarrow> None
      | Some pool \<Rightarrow>
          (let rows = nat (vect_size n)
           in Some (rbind (visit_rows rows [0..<rows] backend_matrix \<lparr>final_backend_list = replicate rows unset, weight_backend_list = pool, walk_count = 0, walk_index = 0\<rparr>)
                      (\<lambda>st. Inr (final_backend_list st)))))"

section \<open>The shares\<close>

lemma round_even_nonneg: "0 \<le> q \<Longrightarrow> 0 \<le> round_even q"
  by (auto simp: round_even_def Let_def)

lemma f32_nonneg: "0 \<le> f32 q"
  by (auto simp: f32_def Let_def intro!: mult_nonneg_nonneg round_even_nonneg)

lemma weight_backend_pos: "0 < weight_backend vsize ws w"
proof -
  have "0 \<le> base_share vsize ws w" by (simp add: base_share_def f32_nonneg)
  then show ?thesis by (simp add: weight_backend_def)
qed

definition pool_sum :: "weights \<Rightarrow> pool \<Rightarrow> int" where
  "pool_sum ws pool = (\<Sum>(ip, w) \<leftarrow> ws. pool ip)"

lemma pool_sum_other: "ip \<notin> fst ` set ws \<Longrightarrow> pool_sum ws (pool(ip := v)) = pool_sum ws pool"
  by (induction ws) (auto simp: pool_sum_def)

text \<open>A pass hands out entries to backends with a weight, at least one if there is one.\<close>

lemma align_pass_spec:
  assumes "distinct (map fst ws)" "0 < res" "align_pass ws (pool, res) = (pool', res')"
  shows "pool_sum ws pool' = pool_sum ws pool + (res - res') \<and> 0 \<le> res' \<and> (\<forall>ip. pool ip \<le> pool' ip) \<and>
    (\<forall>ip. (\<forall>w. (ip, w) \<in> set ws \<longrightarrow> w = 0) \<longrightarrow> pool' ip = pool ip) \<and>
    (if \<forall>(ip, w) \<in> set ws. w = 0 then pool' = pool \<and> res' = res else res' < res)"
  using assms
proof (induction ws arbitrary: pool res)
  case Nil
  then show ?case by (simp add: pool_sum_def)
next
  case (Cons a ws)
  obtain ip w where a: "a = (ip, w)" by fastforce
  show ?case
  proof (cases "w = 0")
    case True
    have d: "distinct (map fst ws)" using Cons.prems(1) by simp
    have p: "align_pass ws (pool, res) = (pool', res')" using Cons.prems(3) True by (simp add: a)
    note ih = Cons.IH [OF d Cons.prems(2) p]
    have "\<forall>w. (ip, w) \<in> set ws \<longrightarrow> w = 0" using Cons.prems(1) by (force simp: a)
    then have "pool' ip = pool ip" using ih by blast
    then have "pool_sum (a # ws) pool' = pool_sum (a # ws) pool + (res - res')" using ih by (simp add: a pool_sum_def)
    then show ?thesis using ih True by (simp add: a)
  next
    case False
    let ?p = "pool(ip := pool ip + 1)"
    have fresh: "ip \<notin> fst ` set ws" "distinct (map fst ws)" using Cons.prems(1) by (auto simp: a)
    have sum: "pool_sum (a # ws) ?p = pool_sum (a # ws) pool + 1" using pool_sum_other [OF fresh(1)] by (simp add: a pool_sum_def)
    show ?thesis
    proof (cases "res = 1")
      case True
      then have e: "pool' = ?p" "res' = 0" using Cons.prems(3) False by (auto simp: a)
      have "pool_sum (a # ws) pool' = pool_sum (a # ws) pool + (res - res')" unfolding e using True sum by simp
      moreover have "\<forall>i. pool i \<le> pool' i" "\<forall>i. (\<forall>w. (i, w) \<in> set (a # ws) \<longrightarrow> w = 0) \<longrightarrow> pool' i = pool i" using False by (auto simp: a e(1))
      ultimately show ?thesis using True False e(2) by (auto simp: a)
    next
      case res: False
      then have "0 < res - 1" "align_pass ws (?p, res - 1) = (pool', res')" using Cons.prems(2,3) False by (auto simp: a Let_def)
      note ih = Cons.IH [OF fresh(2) this]
      have "pool' ip = ?p ip" using ih fresh(1) by (metis fst_conv image_eqI)
      then have "pool_sum (a # ws) pool' = pool_sum (a # ws) pool + (res - res')" using ih sum fresh(1) pool_sum_other [OF fresh(1)] by (simp add: a pool_sum_def)
      moreover have "pool i \<le> pool' i" for i using ih by (metis fun_upd_apply order.trans zle_add1_eq_le less_irrefl linorder_le_cases)
      ultimately show ?thesis using ih False by (auto simp: a split: if_splits)
    qed
  qed
qed

lemma align_returns:
  assumes "distinct (map fst ws)" "\<exists>(ip, w) \<in> set ws. w \<noteq> 0" "0 \<le> res"
  shows "\<exists>pool'. align ws (pool, res) = Some pool' \<and> pool_sum ws pool' = pool_sum ws pool + res \<and> (\<forall>ip. pool ip \<le> pool' ip) \<and>
    (\<forall>ip. (\<forall>w. (ip, w) \<in> set ws \<longrightarrow> w = 0) \<longrightarrow> pool' ip = pool ip)"
  using assms(3)
proof (induction "nat res" arbitrary: pool res rule: less_induct)
  case less
  show ?case
  proof (cases "res = 0")
    case True
    then show ?thesis by (subst align.simps) simp
  next
    case False
    obtain p1 r1 where p: "align_pass ws (pool, res) = (p1, r1)" by fastforce
    have pos: "0 < res" using False less.prems by simp
    note spec = align_pass_spec [OF assms(1) pos p]
    have "r1 < res" "0 \<le> r1" using spec assms(2) by (auto split: if_splits)
    then obtain pool' where "align ws (p1, r1) = Some pool'" "pool_sum ws pool' = pool_sum ws p1 + r1" "\<forall>ip. p1 ip \<le> pool' ip"
        "\<forall>ip. (\<forall>w. (ip, w) \<in> set ws \<longrightarrow> w = 0) \<longrightarrow> pool' ip = p1 ip"
      using less.hyps [of r1 p1] pos by auto
    moreover have "align ws (pool, res) = align ws (p1, r1)" using pos p by (subst align.simps) simp
    ultimately show ?thesis using spec by (auto intro: order.trans)
  qed
qed

lemma align_pass_idle: "\<forall>(ip, w) \<in> set ws. w = 0 \<Longrightarrow> align_pass ws st = st"
  by (induction ws st rule: align_pass.induct) auto

lemma align_hangs:
  assumes zero: "\<forall>(ip, w) \<in> set ws. w = 0" and res: "0 < snd st"
  shows "align ws st = None"
proof (rule ccontr)
  assume "align ws st \<noteq> None"
  then obtain p where "align ws st = Some p" by blast
  then have "\<not> ((\<forall>(ip, w) \<in> set ws. w = 0) \<and> 0 < snd st)"
  proof (rule align.raw_induct [where P = "\<lambda>ws st _. \<not> ((\<forall>(ip, w) \<in> set ws. w = 0) \<and> 0 < snd st)", rotated])
    fix f :: "weights \<Rightarrow> pool \<times> int \<Rightarrow> pool option" and ws st y
    assume f: "\<And>ws st y. f ws st = Some y \<Longrightarrow> \<not> ((\<forall>(ip, w) \<in> set ws. w = 0) \<and> 0 < snd st)"
      and s: "(if 0 < snd st then f ws (align_pass ws st) else Some (fst st)) = Some y"
    show "\<not> ((\<forall>(ip, w) \<in> set ws. w = 0) \<and> 0 < snd st)"
    proof
      assume z: "(\<forall>(ip, w) \<in> set ws. w = 0) \<and> 0 < snd st"
      then have "align_pass ws st = st" by (intro align_pass_idle) blast
      then have "f ws st = Some y" using s z by simp
      then show False using f z by blast
    qed
  qed
  then show False using zero res by blast
qed

lemma first_pass_spec:
  assumes "distinct (map fst ws)"
  shows "fst (first_pass vsize ws) ip = (case map_of ws ip of None \<Rightarrow> 0 | Some w \<Rightarrow> if w = 0 then 0 else weight_backend vsize ws w)"
    and "snd (first_pass vsize ws) = pool_sum ws (fst (first_pass vsize ws))"
proof -
  define g where "g = weight_backend vsize ws"
  define F where "F = foldl (\<lambda>(pool, total) (ip, w). if w = 0 then (pool, total) else ((pool :: pool)(ip := g w), total + g w :: int))"
  have F: "fst (F (pool, total) xs) ip = (case map_of xs ip of None \<Rightarrow> pool ip | Some w \<Rightarrow> if w = 0 then pool ip else g w) \<and>
      snd (F (pool, total) xs) = total + (\<Sum>(ip, w) \<leftarrow> xs. if w = 0 then 0 else g w)"
    if "distinct (map fst xs)" for xs pool total ip
    using that
  proof (induction xs arbitrary: pool total)
    case (Cons x xs)
    obtain i w where x: "x = (i, w)" by fastforce
    have none: "map_of xs i = None" using Cons.prems by (simp add: x map_of_eq_None_iff)
    have step: "F (pool, total) (x # xs) = F (if w = 0 then (pool, total) else (pool(i := g w), total + g w)) xs" by (simp add: F_def x)
    show ?case unfolding step using Cons none by (cases "w = 0"; cases "ip = i") (auto simp: x split: option.splits)
  qed (simp add: F_def)
  have e: "first_pass vsize ws = F (\<lambda>_. 0, 0) ws" unfolding first_pass_def F_def g_def ..
  show 1: "fst (first_pass vsize ws) ip = (case map_of ws ip of None \<Rightarrow> 0 | Some w \<Rightarrow> if w = 0 then 0 else weight_backend vsize ws w)" for ip
    using F [OF assms, of "\<lambda>_. 0" 0 ip] unfolding e g_def [symmetric] by simp
  have "(case x of (ip, w) \<Rightarrow> if w = 0 then 0 else g w) = (case x of (ip, w) \<Rightarrow> fst (first_pass vsize ws) ip)" if "x \<in> set ws" for x
  proof -
    obtain i w where x: "x = (i, w)" by fastforce
    then have "map_of ws i = Some w" using that assms by simp
    then show ?thesis by (simp add: x 1 [folded g_def])
  qed
  then have "(\<Sum>(ip, w) \<leftarrow> ws. if w = 0 then 0 else g w) = pool_sum ws (fst (first_pass vsize ws))"
    unfolding pool_sum_def by (metis (no_types, lifting) map_eq_conv)
  then show "snd (first_pass vsize ws) = pool_sum ws (fst (first_pass vsize ws))" using F [OF assms, of "\<lambda>_. 0" 0] by (simp add: e)
qed

lemma vect_size_ge: "30 \<le> vect_size n"
  by (simp add: vect_size_def INITIAL_BACKEND_SIZE_def BACKEND_REPLICAS_def max_def)

text \<open>\<open>get_weight_backend\<close> returns exactly if some backend has a weight; every backend with a weight has an entry, and there are enough entries.\<close>

lemma get_weight_backend_returns:
  assumes d: "distinct (map fst ws)" and w: "(ip0, w0) \<in> set ws" "w0 \<noteq> 0"
  shows "\<exists>pool. get_weight_backend n ws = Some pool \<and> vect_size n \<le> pool_sum ws pool \<and>
    (snd (first_pass (vect_size n) ws) \<le> vect_size n \<longrightarrow> pool_sum ws pool = vect_size n) \<and>
    (\<forall>ip. 0 \<le> pool ip) \<and> (\<forall>(ip, w) \<in> set ws. (0 < pool ip) = (w \<noteq> 0)) \<and> (\<forall>ip. ip \<notin> fst ` set ws \<longrightarrow> pool ip = 0)"
proof -
  obtain p t where fp: "first_pass (vect_size n) ws = (p, t)" by fastforce
  have t: "t = pool_sum ws p" using first_pass_spec(2) [OF d, of "vect_size n"] by (simp add: fp)
  have p: "p ip = (case map_of ws ip of None \<Rightarrow> 0 | Some w \<Rightarrow> if w = 0 then 0 else weight_backend (vect_size n) ws w)" for ip
    using first_pass_spec(1) [OF d, of "vect_size n" ip] by (simp add: fp)
  have nonneg: "0 \<le> p ip" for ip using weight_backend_pos [of "vect_size n" ws] by (auto simp: p less_imp_le split: option.splits)
  have pos: "(0 < p ip) = (w \<noteq> 0)" if "(ip, w) \<in> set ws" for ip w using that d weight_backend_pos [of "vect_size n" ws] by (simp add: p)
  have out: "p ip = 0" if "ip \<notin> fst ` set ws" for ip using that by (simp add: p map_of_eq_None_iff [THEN iffD2])
  have zero: "w = 0" if "\<forall>w. (ip, w) \<in> set ws \<longrightarrow> w = 0" "(ip, w) \<in> set ws" for ip w using that by blast
  show ?thesis
  proof (cases "vect_size n \<le> t")
    case True
    then have "get_weight_backend n ws = Some p" by (simp add: get_weight_backend_def fp align.simps)
    then show ?thesis using True t nonneg pos out by (auto simp: fp)
  next
    case False
    then obtain pool where pool: "align ws (p, vect_size n - t) = Some pool" "pool_sum ws pool = vect_size n" "\<forall>ip. p ip \<le> pool ip"
        "\<forall>ip. (\<forall>w. (ip, w) \<in> set ws \<longrightarrow> w = 0) \<longrightarrow> pool ip = p ip"
      using align_returns [OF d, of "vect_size n - t" p] w t by fastforce
    have "(0 < pool ip) = (w \<noteq> 0)" if m: "(ip, w) \<in> set ws" for ip w
    proof (cases "w = 0")
      case True
      then have "\<forall>w'. (ip, w') \<in> set ws \<longrightarrow> w' = 0" using m d by (metis eq_key_imp_eq_value)
      then show ?thesis using pool(4) pos [OF m] by simp
    next
      case False
      then show ?thesis using pos [OF m] pool(3) by (metis less_le_trans)
    qed
    moreover have "pool ip = 0" if "ip \<notin> fst ` set ws" for ip
    proof -
      have "\<forall>w. (ip, w) \<in> set ws \<longrightarrow> w = 0" using that by force
      then show ?thesis using pool(4) out [OF that] by simp
    qed
    moreover have "0 \<le> pool ip" for ip using pool(3) nonneg order.trans by blast
    ultimately show ?thesis using pool(1,2) by (auto simp: get_weight_backend_def fp)
  qed
qed

lemma get_weight_backend_hangs:
  assumes d: "distinct (map fst ws)" and zero: "\<forall>(ip, w) \<in> set ws. w = 0"
  shows "get_weight_backend n ws = None"
proof -
  obtain p t where fp: "first_pass (vect_size n) ws = (p, t)" by fastforce
  have "p ip = 0" for ip using first_pass_spec(1) [OF d, of "vect_size n" ip] zero by (auto simp: fp split: option.splits dest!: map_of_SomeD)
  then have "t = 0" using first_pass_spec(2) [OF d, of "vect_size n"] by (simp add: fp pool_sum_def case_prod_unfold sum_list_0)
  then show ?thesis using vect_size_ge [of n] align_hangs [OF zero] by (simp add: get_weight_backend_def fp)
qed

section \<open>Equal weights\<close>

text \<open>With the weight every backend has by default, the shares of up to ten backends differ by at most one entry.\<close>

lemma align_pass_at_most_once:
  assumes "distinct (map fst ws)" "align_pass ws (pool, res) = (pool', res')"
  shows "pool' ip \<le> pool ip + 1 \<and> (ip \<notin> fst ` set ws \<longrightarrow> pool' ip = pool ip)"
  using assms
proof (induction ws arbitrary: pool res)
  case (Cons a ws)
  obtain i w where a: "a = (i, w)" by fastforce
  show ?case
  proof (cases "w = 0 \<or> res = 1")
    case True
    then show ?thesis using Cons.IH [of pool res] Cons.prems by (auto simp: a Let_def split: if_splits)
  next
    case False
    then have "align_pass ws (pool(i := pool i + 1), res - 1) = (pool', res')" using Cons.prems(2) by (simp add: a Let_def)
    note ih = Cons.IH [OF _ this]
    have "distinct (map fst ws)" "i \<notin> fst ` set ws" using Cons.prems(1) by (auto simp: a)
    then show ?thesis using ih by (cases "ip = i") (simp_all add: a)
  qed
qed simp

lemma align_pass_all:
  "\<forall>(ip, w) \<in> set ws. w \<noteq> 0 \<Longrightarrow> 0 < res \<Longrightarrow> res \<le> int (length ws) \<Longrightarrow> snd (align_pass ws (pool, res)) = 0"
proof (induction ws arbitrary: pool res)
  case (Cons a ws)
  obtain i w where a: "a = (i, w)" by fastforce
  show ?case using Cons.IH [of "res - 1" "pool(i := pool i + 1)"] Cons.prems by (cases "res = 1") (simp_all add: a Let_def del: fun_upd_apply)
qed simp

lemma unit_shares:
  assumes "1 \<le> n" "n \<le> (10 :: nat)"
  shows "floor (f32 (f32 (f32 30 / f32 (of_int (int n))))) = 30 div int n"
proof -
  have "n \<in> set [1..<11]" using assms by simp
  moreover have "list_all (\<lambda>n. floor (f32 (f32 (f32 30 / f32 (of_int (int n))))) = 30 div int n) [1..<11]"
    by code_simp
  ultimately show ?thesis unfolding list_all_iff by blast
qed

lemma equal_shares:
  assumes d: "distinct (map fst ws)" and one: "\<forall>(ip, w) \<in> set ws. w = 1" and n: "1 \<le> length ws" "length ws \<le> 10"
  shows "\<exists>pool. get_weight_backend (length ws) ws = Some pool \<and> pool_sum ws pool = 30 \<and>
    (\<forall>ip \<in> fst ` set ws. pool ip = 30 div int (length ws) \<or> pool ip = 30 div int (length ws) + 1)"
proof -
  let ?n = "length ws" and ?q = "30 div int (length ws)"
  have V: "vect_size ?n = 30" using n by (simp add: vect_size_def INITIAL_BACKEND_SIZE_def BACKEND_REPLICAS_def)
  have "sum_weight ws = (\<Sum>(ip, w) \<leftarrow> ws. 1)" unfolding sum_weight_def using one by (intro arg_cong [of _ _ sum_list] map_cong refl) auto
  then have "sum_weight ws = int ?n" by (simp add: case_prod_unfold sum_list_triv)
  then have "base_share 30 ws 1 = ?q" using unit_shares [OF n] by (simp add: base_share_def)
  moreover have "0 < int ?n" "int ?n \<le> 30" using n by linarith+
  then have "0 < ?q" by (simp add: pos_imp_zdiv_pos_iff)
  ultimately have wb: "weight_backend 30 ws 1 = ?q" by (simp add: weight_backend_def)
  obtain p t where fp: "first_pass 30 ws = (p, t)" by fastforce
  have p: "p ip = ?q" if ip: "ip \<in> fst ` set ws" for ip
  proof -
    obtain w where "(ip, w) \<in> set ws" using ip by auto
    then show ?thesis using first_pass_spec(1) [OF d, of 30 ip] one d by (auto simp: fp wb)
  qed
  have "pool_sum ws p = (\<Sum>x \<leftarrow> ws. ?q)" unfolding pool_sum_def case_prod_unfold using p by (intro arg_cong [of _ _ sum_list] map_cong refl) simp
  then have t: "t = int ?n * ?q" "pool_sum ws p = int ?n * ?q" using first_pass_spec(2) [OF d, of 30] by (simp_all add: fp sum_list_triv)
  then have res: "30 - t = 30 mod int ?n" by (simp add: minus_mult_div_eq_mod)
  show ?thesis
  proof (cases "30 - t = 0")
    case True
    then have "get_weight_backend ?n ws = Some p" by (simp add: get_weight_backend_def V fp align.simps)
    then show ?thesis using p t True by (intro exI [of _ p]) auto
  next
    case False
    then have r: "0 < 30 - t" "30 - t \<le> int ?n" using res n pos_mod_bound [of "int ?n" 30] pos_mod_sign [of "int ?n" 30] by linarith+
    obtain p1 r1 where p1: "align_pass ws (p, 30 - t) = (p1, r1)" by fastforce
    have "\<forall>(ip, w) \<in> set ws. w \<noteq> 0" using one by auto
    then have r1: "r1 = 0" using align_pass_all [of ws "30 - t" p] r p1 by simp
    have "align ws (p, 30 - t) = Some p1" using r(1) p1 r1 by (subst align.simps, simp, subst align.simps, simp)
    then have "get_weight_backend ?n ws = Some p1" by (simp add: get_weight_backend_def V fp)
    moreover have "pool_sum ws p1 = 30" using align_pass_spec [OF d r(1) p1] t r1 by simp
    moreover have "p1 ip = ?q \<or> p1 ip = ?q + 1" if "ip \<in> fst ` set ws" for ip
      using align_pass_spec [OF d r(1) p1] align_pass_at_most_once [OF d p1, of ip] p [OF that] by (metis add.commute le_less zless_add1_eq antisym)
    ultimately show ?thesis by blast
  qed
qed

end
