(* ===== verification/Lb_Walk.thy ===== *)
theory Lb_Walk
  imports Lb_Array
begin

text \<open>
  The walk over the matrix fills the array. The invariant counts for every backend how often it has been placed, and says that the cells of
  its column it has passed are taken; a backend that still has entries to place finds a free one in every row.
\<close>

section \<open>Columns\<close>

definition live :: "nat \<Rightarrow> int list \<Rightarrow> bool" where
  "live V col \<longleftrightarrow> distinct col \<and> set col = {0..<int V}"

definition dead :: "nat \<Rightarrow> int list \<Rightarrow> bool" where
  "dead V col \<longleftrightarrow> col = replicate V (-2)"

definition matrix_ok :: "nat \<Rightarrow> (string \<times> int list) list \<Rightarrow> bool" where
  "matrix_ok V cs \<longleftrightarrow> distinct (map fst cs) \<and> (\<forall>(ip, col) \<in> set cs. ip \<noteq> unset \<and> (live V col \<or> dead V col))"

definition live_ips :: "nat \<Rightarrow> (string \<times> int list) list \<Rightarrow> string set" where
  "live_ips V cs = {ip. \<exists>col. (ip, col) \<in> set cs \<and> live V col}"

lemma live_length: "live V col \<Longrightarrow> length col = V"
  unfolding live_def using distinct_card [of col] by simp

lemma live_nth: "live V col \<Longrightarrow> i < V \<Longrightarrow> 0 \<le> col ! i \<and> col ! i < int V"
  using live_length [of V col] nth_mem [of i col] unfolding live_def by (metis atLeastLessThan_iff)

lemma live_onto:
  assumes "live V col" "n < V"
  shows "\<exists>i < V. nat (col ! i) = n"
proof -
  have "int n \<in> set col" using assms by (simp add: live_def)
  then show ?thesis using live_length [OF assms(1)] by (auto simp: in_set_conv_nth)
qed

lemma scan_dead: "dead V col \<Longrightarrow> j < V \<Longrightarrow> scan_column final col rows j' j = Inr (Skip j)"
  by (simp add: dead_def scan_column.simps)

text \<open>From a row on, a live column offers its first free cell.\<close>

lemma scan_live:
  assumes c: "live V col" and len: "length final = V" and j: "j < V"
  shows "scan_column final col V j' j = Inr (Skip j') \<and> (\<forall>i. j \<le> i \<longrightarrow> i < V \<longrightarrow> final ! nat (col ! i) \<noteq> unset) \<or>
    (\<exists>i. j \<le> i \<and> i < V \<and> final ! nat (col ! i) = unset \<and> (\<forall>i'. j \<le> i' \<longrightarrow> i' < i \<longrightarrow> final ! nat (col ! i') \<noteq> unset) \<and>
      scan_column final col V j' j = Inr (Place (nat (col ! i))))"
  using j
proof (induction "V - j" arbitrary: j)
  case (Suc n)
  have n: "0 \<le> col ! j" "col ! j < int V" "length col = V" using live_nth [OF c Suc.prems] live_length [OF c] by auto
  show ?case
  proof (cases "final ! nat (col ! j) = unset")
    case True
    have "scan_column final col V j' j = Inr (Place (nat (col ! j)))" using n len Suc.prems True by (subst scan_column.simps) (simp add: Let_def)
    then show ?thesis using True Suc.prems by (intro disjI2 exI [of _ j]) simp
  next
    case taken: False
    show ?thesis
    proof (cases "Suc j < V")
      case True
      have eq: "scan_column final col V j' j = scan_column final col V j' (Suc j)"
        using n len Suc.prems taken True by (subst scan_column.simps) (simp add: Let_def)
      have step: "j \<le> i \<longleftrightarrow> i = j \<or> Suc j \<le> i" for i by auto
      have "n = V - Suc j" using Suc.hyps(2) by simp
      from Suc.hyps(1) [OF this True] show ?thesis
      proof (elim disjE exE conjE)
        assume "scan_column final col V j' (Suc j) = Inr (Skip j')" "\<forall>i. Suc j \<le> i \<longrightarrow> i < V \<longrightarrow> final ! nat (col ! i) \<noteq> unset"
        then show ?thesis using taken step eq by (intro disjI1) auto
      next
        fix i assume "Suc j \<le> i" "i < V" "final ! nat (col ! i) = unset" "\<forall>i'. Suc j \<le> i' \<longrightarrow> i' < i \<longrightarrow> final ! nat (col ! i') \<noteq> unset"
          "scan_column final col V j' (Suc j) = Inr (Place (nat (col ! i)))"
        then show ?thesis using taken step eq by (intro disjI2 exI [of _ i]) auto
      qed
    next
      case False
      have "scan_column final col V j' j = Inr (Skip j')" using n len Suc.prems taken False by (subst scan_column.simps) (simp add: Let_def)
      moreover have "i = j" if "j \<le> i" "i < V" for i using that False by simp
      ultimately show ?thesis using taken by auto
    qed
  qed
qed simp

section \<open>The invariant\<close>

abbreviation placed :: "string list \<Rightarrow> nat" where
  "placed final \<equiv> length (filter (\<lambda>x. x \<noteq> unset) final)"

definition walk_inv :: "nat \<Rightarrow> (string \<times> int list) list \<Rightarrow> pool \<Rightarrow> (string \<Rightarrow> nat) \<Rightarrow> walk \<Rightarrow> bool" where
  "walk_inv V cs pool0 r st \<longleftrightarrow>
     length (final_backend_list st) = V \<and> walk_count st = placed (final_backend_list st) \<and>
     set (final_backend_list st) \<subseteq> insert unset (live_ips V cs) \<and>
     (\<forall>ip. ip \<noteq> unset \<longrightarrow> weight_backend_list st ip = pool0 ip - int (count_list (final_backend_list st) ip) \<and> 0 \<le> weight_backend_list st ip) \<and>
     (\<forall>(ip, col) \<in> set cs. live V col \<longrightarrow> 0 < weight_backend_list st ip \<longrightarrow> (\<forall>i < r ip. i < V \<longrightarrow> final_backend_list st ! nat (col ! i) \<noteq> unset)) \<and>
     (walk_count st < V \<longrightarrow> (\<forall>(ip, col) \<in> set cs. live V col \<longrightarrow> min (int (r ip)) (pool0 ip) \<le> int (count_list (final_backend_list st) ip)))"

lemma placed_full: "placed final = length final \<longleftrightarrow> unset \<notin> set final"
proof -
  have "placed final = length final \<longleftrightarrow> filter (\<lambda>x. x \<noteq> unset) final = final"
    by (metis length_filter_less filter_True less_irrefl filter_id_conv)
  then show ?thesis by (auto simp: filter_id_conv)
qed

lemma placed_update: "n < length final \<Longrightarrow> final ! n = unset \<Longrightarrow> ip \<noteq> unset \<Longrightarrow> placed (final[n := ip]) = Suc (placed final)"
  by (induction final arbitrary: n) (auto simp: nth_Cons' split: nat.splits)

lemma count_list_update:
  "n < length final \<Longrightarrow> final ! n = unset \<Longrightarrow> ip \<noteq> unset \<Longrightarrow> x \<noteq> unset \<Longrightarrow>
   count_list (final[n := ip]) x = count_list final x + (if x = ip then 1 else 0)"
  by (induction final arbitrary: n) (auto simp: nth_Cons' split: nat.splits)

lemma walk_invD:
  assumes "walk_inv V cs pool0 r st"
  shows "length (final_backend_list st) = V" "walk_count st = placed (final_backend_list st)"
    "set (final_backend_list st) \<subseteq> insert unset (live_ips V cs)"
    "\<And>i. i \<noteq> unset \<Longrightarrow> weight_backend_list st i = pool0 i - int (count_list (final_backend_list st) i) \<and> 0 \<le> weight_backend_list st i"
    "\<And>i c n. (i, c) \<in> set cs \<Longrightarrow> live V c \<Longrightarrow> 0 < weight_backend_list st i \<Longrightarrow> n < r i \<Longrightarrow> n < V \<Longrightarrow> final_backend_list st ! nat (c ! n) \<noteq> unset"
    "\<And>i c. walk_count st < V \<Longrightarrow> (i, c) \<in> set cs \<Longrightarrow> live V c \<Longrightarrow> min (int (r i)) (pool0 i) \<le> int (count_list (final_backend_list st) i)"
  using assms unfolding walk_inv_def by blast+

lemma matrix_okD:
  assumes "matrix_ok V cs" "(ip, col) \<in> set cs"
  shows "ip \<noteq> unset" "live V col \<or> dead V col" "\<And>c. (ip, c) \<in> set cs \<Longrightarrow> c = col"
  using assms unfolding matrix_ok_def by (auto dest: eq_key_imp_eq_value)

lemma walk_full: "walk_inv V cs pool0 r st \<Longrightarrow> walk_count st = V \<longleftrightarrow> unset \<notin> set (final_backend_list st)"
  using walk_invD(1,2) [of V cs pool0 r st] placed_full [of "final_backend_list st"] by simp

text \<open>A backend that is not placed in this row has its cell taken, or has no entry left to place.\<close>

lemma walk_stay:
  assumes inv: "walk_inv V cs pool0 r st" and m: "matrix_ok V cs" and c: "(ip, col) \<in> set cs" and j: "r ip = j" "j < V"
    and t: "live V col \<Longrightarrow> 0 < weight_backend_list st ip \<Longrightarrow> final_backend_list st ! nat (col ! j) \<noteq> unset"
    and p: "live V col \<Longrightarrow> walk_count st < V \<Longrightarrow> \<not> 0 < weight_backend_list st ip"
  shows "walk_inv V cs pool0 (r(ip := Suc j)) st"
proof -
  let ?f = "final_backend_list st" and ?w = "weight_backend_list st"
  note D = walk_invD [OF inv] and C = matrix_okD [OF m c]
  have "?f ! nat (c' ! n) \<noteq> unset" if "(i, c') \<in> set cs" "live V c'" "0 < ?w i" "n < (r(ip := Suc j)) i" "n < V" for i c' n
    using that D(5) [of i c' n] t C(3) [of c'] j by (cases "i = ip"; cases "n = j") auto
  moreover have "pool0 ip \<le> int (count_list ?f ip)" if "live V col" "walk_count st < V" using p [OF that] D(4) [OF C(1)] by linarith
  then have "min (int ((r(ip := Suc j)) i)) (pool0 i) \<le> int (count_list ?f i)" if "walk_count st < V" "(i, c') \<in> set cs" "live V c'" for i c'
    using that D(6) [of i c'] C(3) [of c'] by (cases "i = ip") auto
  ultimately show ?thesis unfolding walk_inv_def using D(1-4) by blast
qed

text \<open>A backend with entries left finds a free cell as long as there is one.\<close>

lemma walk_exhausted:
  assumes inv: "walk_inv V cs pool0 r st" and c: "(ip, col) \<in> set cs" "live V col" and pos: "0 < weight_backend_list st ip"
    and rest: "\<forall>i. r ip \<le> i \<longrightarrow> i < V \<longrightarrow> final_backend_list st ! nat (col ! i) \<noteq> unset"
  shows "walk_count st = V"
proof -
  have "final_backend_list st ! n \<noteq> unset" if "n < V" for n
  proof -
    obtain i where i: "i < V" "nat (col ! i) = n" using live_onto [OF c(2) \<open>n < V\<close>] by blast
    then show ?thesis using rest walk_invD(5) [OF inv c pos, of i] by (cases "r ip \<le> i") auto
  qed
  then have "unset \<notin> set (final_backend_list st)" using walk_invD(1) [OF inv] by (metis in_set_conv_nth)
  then show ?thesis using walk_full [OF inv] by simp
qed

lemma walk_place:
  assumes inv: "walk_inv V cs pool0 r st" and m: "matrix_ok V cs" and c: "(ip, col) \<in> set cs" "live V col" and j: "r ip = j" "j < V"
    and less: "walk_count st < V" and pos: "0 < weight_backend_list st ip"
    and i: "j \<le> i" "i < V" "final_backend_list st ! nat (col ! i) = unset"
      "\<forall>i'. j \<le> i' \<longrightarrow> i' < i \<longrightarrow> final_backend_list st ! nat (col ! i') \<noteq> unset"
  shows "walk_inv V cs pool0 (r(ip := Suc j))
    \<lparr>final_backend_list = (final_backend_list st)[nat (col ! i) := ip],
     weight_backend_list = (weight_backend_list st)(ip := weight_backend_list st ip - 1), walk_count = walk_count st + 1, walk_index = j\<rparr>"
    (is "walk_inv _ _ _ _ ?st")
proof -
  let ?f = "final_backend_list st" and ?n = "nat (col ! i)"
  let ?f' = "?f[?n := ip]" and ?w = "weight_backend_list ?st"
  note D = walk_invD [OF inv] and C = matrix_okD [OF m c(1)]
  have n: "?n < V" using live_nth [OF c(2) i(2)] by (simp add: nat_less_iff)
  have cl: "count_list ?f' x = count_list ?f x + (if x = ip then 1 else 0)" if "x \<noteq> unset" for x
    using count_list_update [of ?n ?f ip x] n D(1) i(3) C(1) that by simp
  have more: "?f' ! k \<noteq> unset" if "?f ! k \<noteq> unset" for k using that C(1) n D(1) by (metis nth_list_update_eq nth_list_update_neq)
  have jt: "?f' ! nat (col ! j) \<noteq> unset" using i C(1) n D(1) more by (cases "i = j") auto
  have sub: "set ?f' \<subseteq> insert unset (live_ips V cs)" using D(3) c set_update_subset_insert [of ?f ?n ip] by (auto simp: live_ips_def)
  have w: "?w x = pool0 x - int (count_list ?f' x) \<and> 0 \<le> ?w x" if "x \<noteq> unset" for x
    using D(4) [OF that] cl [OF that] pos by auto
  have past: "?f' ! nat (c' ! k) \<noteq> unset" if "(x, c') \<in> set cs" "live V c'" "0 < ?w x" "k < (r(ip := Suc j)) x" "k < V" for x c' k
    using that D(5) [of x c' k] more jt C(3) [of c'] j pos by (cases "x = ip"; cases "k = j") auto
  have prog: "min (int ((r(ip := Suc j)) x)) (pool0 x) \<le> int (count_list ?f' x)" if "(x, c') \<in> set cs" "live V c'" for x c'
    using D(6) [OF less that] cl [OF matrix_okD(1) [OF m that(1)]] j by (cases "x = ip") auto
  have "placed ?f' = Suc (placed ?f)" using placed_update [of ?n ?f ip] n i(3) C(1) D(1) by simp
  then have "length (final_backend_list ?st) = V" "walk_count ?st = placed (final_backend_list ?st)" using D(1,2) by simp_all
  moreover have "\<forall>x. x \<noteq> unset \<longrightarrow> ?w x = pool0 x - int (count_list (final_backend_list ?st) x) \<and> 0 \<le> ?w x" using w by (clarify, simp only: walk.simps)
  moreover have "\<forall>(x, c') \<in> set cs. live V c' \<longrightarrow> 0 < ?w x \<longrightarrow> (\<forall>k < (r(ip := Suc j)) x. k < V \<longrightarrow> final_backend_list ?st ! nat (c' ! k) \<noteq> unset)"
    using past by (clarify, simp only: walk.simps)
  moreover have "\<forall>(x, c') \<in> set cs. live V c' \<longrightarrow> min (int ((r(ip := Suc j)) x)) (pool0 x) \<le> int (count_list (final_backend_list ?st) x)"
    using prog by (clarify, simp only: walk.simps)
  ultimately show ?thesis unfolding walk_inv_def using sub by (intro conjI impI) (assumption | simp only: walk.simps simp_thms)+
qed

lemma visit_keeps:
  assumes inv: "walk_inv V cs pool0 r st" and m: "matrix_ok V cs" and c: "(ip, col) \<in> set cs" and j: "r ip = j" "j < V" and ix: "walk_index st = j"
  shows "\<exists>st'. visit V j st (ip, col) = Inr st' \<and> walk_inv V cs pool0 (r(ip := Suc j)) st' \<and> walk_index st' = j \<and>
    walk_count st' \<le> walk_count st + (if live V col then 1 else 0)"
proof -
  let ?f = "final_backend_list st" and ?w = "weight_backend_list st"
  note D = walk_invD [OF inv] and stay = walk_stay [OF inv m c j]
  consider (full) "walk_count st = V" | (dead) "walk_count st \<noteq> V" "dead V col" "\<not> live V col" | (live) "walk_count st < V" "live V col"
    using matrix_okD(2) [OF m c] D(1,2) by (metis length_filter_le le_neq_implies_less)
  then show ?thesis
  proof cases
    case full
    then have "?f ! nat (col ! j) \<noteq> unset" if "live V col"
      using live_nth [OF that j(2)] D(1) walk_full [OF inv] by (metis nat_less_iff nth_mem)
    then show ?thesis using full stay by (intro exI [of _ st]) (simp add: visit_def ix)
  next
    case dead
    then have "visit V j st (ip, col) = Inr st" using scan_dead [of V col j] j by (simp add: visit_def ix)
    then show ?thesis using stay dead ix by auto
  next
    case live
    from scan_live [OF live(2) D(1) j(2), of j] show ?thesis
    proof (elim disjE conjE exE)
      assume skip: "scan_column ?f col V j j = Inr (Skip j)" and rest: "\<forall>i. j \<le> i \<longrightarrow> i < V \<longrightarrow> ?f ! nat (col ! i) \<noteq> unset"
      have "\<not> 0 < ?w ip" using walk_exhausted [OF inv c live(2)] rest j(1) live(1) by auto
      moreover have "visit V j st (ip, col) = Inr st" using skip live by (simp add: visit_def ix)
      ultimately show ?thesis using stay ix by auto
    next
      fix i assume i: "j \<le> i" "i < V" "?f ! nat (col ! i) = unset" "\<forall>i'. j \<le> i' \<longrightarrow> i' < i \<longrightarrow> ?f ! nat (col ! i') \<noteq> unset"
        and place: "scan_column ?f col V j j = Inr (Place (nat (col ! i)))"
      show ?thesis
      proof (cases "0 < ?w ip")
        case True
        note walk_place [OF inv m c live(2) j live(1) True i]
        then show ?thesis using place True live by (simp add: visit_def ix)
      next
        case False
        then have "visit V j st (ip, col) = Inr st" using place by (simp add: visit_def ix)
        then show ?thesis using stay False ix by auto
      qed
    qed
  qed
qed

section \<open>Rows\<close>

lemma visit_row_keeps:
  assumes "walk_inv V cs pool0 r st" "matrix_ok V cs" "set ds \<subseteq> set cs" "distinct (map fst ds)" "\<forall>(ip, col) \<in> set ds. r ip = j" "j < V" "walk_index st = j"
  shows "\<exists>st'. visit_row V j ds st = Inr st' \<and> walk_inv V cs pool0 (\<lambda>ip. if ip \<in> fst ` set ds then Suc j else r ip) st' \<and>
    walk_count st' \<le> walk_count st + length (filter (\<lambda>(ip, col). live V col) ds)"
  using assms
proof (induction ds arbitrary: st r)
  case (Cons d ds)
  obtain ip col where d: "d = (ip, col)" by fastforce
  have "(ip, col) \<in> set cs" "r ip = j" using Cons.prems(3,5) by (auto simp: d)
  from visit_keeps [OF Cons.prems(1,2) this Cons.prems(6,7)] obtain st1
    where st1: "visit V j st (ip, col) = Inr st1" "walk_inv V cs pool0 (r(ip := Suc j)) st1" "walk_index st1 = j"
      "walk_count st1 \<le> walk_count st + (if live V col then 1 else 0)" by blast
  have "\<forall>(ip', col) \<in> set ds. (r(ip := Suc j)) ip' = j" using Cons.prems(4,5) by (force simp: d)
  then obtain st' where st': "visit_row V j ds st1 = Inr st'"
      "walk_inv V cs pool0 (\<lambda>i. if i \<in> fst ` set ds then Suc j else (r(ip := Suc j)) i) st'"
      "walk_count st' \<le> walk_count st1 + length (filter (\<lambda>(ip, col). live V col) ds)"
    using Cons.IH [OF st1(2)] Cons.prems st1(3) by auto
  have "(\<lambda>i. if i \<in> fst ` set ds then Suc j else (r(ip := Suc j)) i) = (\<lambda>i. if i \<in> fst ` set (d # ds) then Suc j else r i)"
    by (auto simp: d)
  then show ?case using st1(1,4) st' by (simp add: d split: if_splits)
qed simp

lemma walk_inv_cong:
  assumes "walk_inv V cs pool0 r st" "\<forall>ip \<in> fst ` set cs. r' ip = r ip"
  shows "walk_inv V cs pool0 r' st"
  using assms unfolding walk_inv_def by (auto split: prod.splits) (force+)?

lemma walk_inv_index: "walk_inv V cs pool0 r (st\<lparr>walk_index := j\<rparr>) \<longleftrightarrow> walk_inv V cs pool0 r st"
  by (simp add: walk_inv_def)

lemma visit_rows_keeps:
  assumes "walk_inv V cs pool0 (\<lambda>_. j) st" "matrix_ok V cs" "j \<le> V"
  shows "\<exists>st'. visit_rows V [j..<V] cs st = Inr st' \<and> walk_inv V cs pool0 (\<lambda>_. V) st'"
  using assms
proof (induction "V - j" arbitrary: j st)
  case (Suc n)
  then have j: "j < V" "n = V - Suc j" by auto
  have "distinct (map fst cs)" using Suc.prems(2) by (simp add: matrix_ok_def)
  then obtain st1 where st1: "visit_row V j cs (st\<lparr>walk_index := j\<rparr>) = Inr st1" "walk_inv V cs pool0 (\<lambda>ip. if ip \<in> fst ` set cs then Suc j else j) st1"
    using visit_row_keeps [of V cs pool0 "\<lambda>_. j" "st\<lparr>walk_index := j\<rparr>" cs j] Suc.prems(1,2) j(1) by (auto simp: walk_inv_index)
  have "walk_inv V cs pool0 (\<lambda>_. Suc j) st1" by (rule walk_inv_cong [OF st1(2)]) simp
  then obtain st' where "visit_rows V [Suc j..<V] cs st1 = Inr st'" "walk_inv V cs pool0 (\<lambda>_. V) st'"
    using Suc.hyps(1) [OF j(2) _ Suc.prems(2)] j(1) by auto
  then show ?case using st1(1) j(1) by (simp add: upt_conv_Cons)
qed simp

section \<open>The array\<close>

lemma walk_start:
  assumes "\<forall>ip. 0 \<le> pool0 ip"
  shows "walk_inv V cs pool0 (\<lambda>_. 0) \<lparr>final_backend_list = replicate V unset, weight_backend_list = pool0, walk_count = 0, walk_index = 0\<rparr>"
  using assms by (auto simp: walk_inv_def count_list_0_iff)

lemma count_filter_unset: "x \<noteq> unset \<Longrightarrow> count_list (filter (\<lambda>x. x \<noteq> unset) final) x = count_list final x"
  by (induction final) auto

lemma live_ips_finite: "finite (live_ips V cs)"
  by (rule finite_subset [of _ "fst ` set cs"]) (force simp: live_ips_def)+

lemma live_ips_set: "matrix_ok V cs \<Longrightarrow> unset \<notin> live_ips V cs"
  by (auto simp: live_ips_def matrix_ok_def)

lemma placed_sum:
  assumes "matrix_ok V cs" "set final \<subseteq> insert unset (live_ips V cs)"
  shows "placed final = (\<Sum>ip \<in> live_ips V cs. count_list final ip)"
proof -
  have "placed final = (\<Sum>ip \<in> live_ips V cs. count_list (filter (\<lambda>x. x \<noteq> unset) final) ip)"
    using assms(2) by (intro sum_count_set [OF _ live_ips_finite, symmetric]) auto
  also have "\<dots> = (\<Sum>ip \<in> live_ips V cs. count_list final ip)"
    using live_ips_set [OF assms(1)] by (intro sum.cong refl count_filter_unset) auto
  finally show ?thesis .
qed

lemma walk_end_full:
  assumes inv: "walk_inv V cs pool0 (\<lambda>_. V) st" and m: "matrix_ok V cs" and enough: "int V \<le> (\<Sum>ip \<in> live_ips V cs. pool0 ip)"
  shows "walk_count st = V"
proof (rule ccontr)
  let ?f = "final_backend_list st"
  note D = walk_invD [OF inv]
  assume "walk_count st \<noteq> V"
  then have less: "walk_count st < V" using D(1,2) by (metis length_filter_le le_neq_implies_less)
  have "pool0 ip \<le> int (count_list ?f ip)" if ip: "ip \<in> live_ips V cs" for ip
  proof -
    obtain col where col: "(ip, col) \<in> set cs" "live V col" using ip by (auto simp: live_ips_def)
    have "count_list ?f ip \<le> placed ?f" unfolding placed_sum [OF m D(3)] using ip live_ips_finite by (intro member_le_sum) auto
    then have "count_list ?f ip < V" using less D(2) by linarith
    then show ?thesis using D(6) [OF less col] by linarith
  qed
  then have "(\<Sum>ip \<in> live_ips V cs. pool0 ip) \<le> (\<Sum>ip \<in> live_ips V cs. int (count_list ?f ip))" by (rule sum_mono)
  also have "\<dots> = int (walk_count st)" unfolding D(2) placed_sum [OF m D(3)] by simp
  finally show False using enough less by simp
qed

text \<open>A cell that is taken stays taken: the entries of a backend only grow, and the first row gives every backend with a share one.\<close>

lemma scan_place: "scan_column final col rows j i = Inr (Place n) \<Longrightarrow> n < length final \<and> final ! n = unset"
proof (induction final col rows j i rule: scan_column.induct)
  case (1 final col rows j index)
  let ?num = "col ! index"
  have step: "\<not> length col \<le> index" "?num \<noteq> -2" "\<not> (?num < 0 \<or> int (length final) \<le> ?num)"
      "if final ! nat ?num \<noteq> unset then index + 1 < rows \<and> scan_column final col rows j (index + 1) = Inr (Place n) else nat ?num = n"
    using "1.prems" by (subst (asm) scan_column.simps, simp add: Let_def split: if_splits)+
  show ?case
  proof (cases "final ! nat ?num = unset")
    case True
    then show ?thesis using step by auto
  next
    case False
    then show ?thesis using step "1.IH" [of ?num] by auto
  qed
qed

lemma visit_grows:
  assumes "visit V j st (ip, col) = Inr st'" "ip \<noteq> unset" "x \<noteq> unset"
  shows "count_list (final_backend_list st) x \<le> count_list (final_backend_list st') x"
proof -
  consider "final_backend_list st' = final_backend_list st"
    | n where "scan_column (final_backend_list st) col V j (walk_index st) = Inr (Place n)" "final_backend_list st' = (final_backend_list st)[n := ip]"
  proof (cases "walk_count st = V")
    case True
    then show ?thesis using assms(1) that(1) by (simp add: visit_def)
  next
    case False
    then obtain s where s: "scan_column (final_backend_list st) col V j (walk_index st) = Inr s" using assms(1) by (auto simp: visit_def rbind_Inr_conv)
    show ?thesis
    proof (cases s)
      case (Skip i)
      then have "st' = st\<lparr>walk_index := i\<rparr>" using assms(1) s False by (simp add: visit_def)
      then show ?thesis using that(1) by simp
    next
      case (Place n)
      then have "st' = (if 0 < weight_backend_list st ip then \<lparr>final_backend_list = (final_backend_list st)[n := ip],
          weight_backend_list = (weight_backend_list st)(ip := weight_backend_list st ip - 1), walk_count = walk_count st + 1, walk_index = j\<rparr> else st\<lparr>walk_index := j\<rparr>)"
        using assms(1) s False by (simp add: visit_def split: if_splits)
      then show ?thesis using that s Place by (cases "0 < weight_backend_list st ip") simp_all
    qed
  qed
  then show ?thesis
  proof cases
    case 2
    then show ?thesis using scan_place [OF 2(1)] assms(2,3) by (simp add: count_list_update)
  qed simp
qed

lemma visit_row_grows:
  assumes "visit_row V j ds st = Inr st'" "\<forall>(ip, col) \<in> set ds. ip \<noteq> unset" "x \<noteq> unset"
  shows "count_list (final_backend_list st) x \<le> count_list (final_backend_list st') x"
  using assms
proof (induction ds arbitrary: st)
  case (Cons d ds)
  obtain ip col where d: "d = (ip, col)" by fastforce
  obtain st1 where "visit V j st d = Inr st1" "visit_row V j ds st1 = Inr st'" using Cons.prems(1) by (auto simp: rbind_Inr_conv)
  then show ?case using Cons.IH [of st1] Cons.prems visit_grows [of V j st ip col st1 x] by (auto simp: d)
qed simp

lemma visit_rows_grows:
  assumes "visit_rows V js ds st = Inr st'" "\<forall>(ip, col) \<in> set ds. ip \<noteq> unset" "x \<noteq> unset"
  shows "count_list (final_backend_list st) x \<le> count_list (final_backend_list st') x"
  using assms
proof (induction js arbitrary: st)
  case (Cons j js)
  obtain st1 where "visit_row V j ds (st\<lparr>walk_index := j\<rparr>) = Inr st1" "visit_rows V js ds st1 = Inr st'" using Cons.prems(1) by (auto simp: rbind_Inr_conv)
  then show ?case using Cons.IH [of st1] Cons.prems visit_row_grows [of V j ds "st\<lparr>walk_index := j\<rparr>" st1 x] by auto
qed simp

lemma walk_serves:
  assumes m: "matrix_ok V cs" and nonneg: "\<forall>ip. 0 \<le> pool0 ip" and few: "length (filter (\<lambda>(ip, col). live V col) cs) < V"
    and run: "visit_rows V [0..<V] cs \<lparr>final_backend_list = replicate V unset, weight_backend_list = pool0, walk_count = 0, walk_index = 0\<rparr> = Inr st"
    and ip: "ip \<in> live_ips V cs" "0 < pool0 ip"
  shows "0 < count_list (final_backend_list st) ip"
proof -
  let ?st = "\<lparr>final_backend_list = replicate V unset, weight_backend_list = pool0, walk_count = 0, walk_index = 0\<rparr>"
  have inv: "walk_inv V cs pool0 (\<lambda>_. 0) ?st" by (rule walk_start [OF nonneg])
  have "distinct (map fst cs)" using m by (simp add: matrix_ok_def)
  then obtain st1 where st1: "visit_row V 0 cs ?st = Inr st1" "walk_inv V cs pool0 (\<lambda>ip. if ip \<in> fst ` set cs then Suc 0 else 0) st1" "walk_count st1 < V"
    using visit_row_keeps [OF inv m order.refl, of 0] few by fastforce
  have "visit_rows V [1..<V] cs st1 = Inr st"
    using run few st1(1) by (simp add: upt_rec [of 0] split: if_splits)
  then have grow: "count_list (final_backend_list st1) ip \<le> count_list (final_backend_list st) ip"
    using m live_ips_set [OF m] ip(1) by (intro visit_rows_grows) (auto simp: matrix_ok_def)
  obtain col where col: "(ip, col) \<in> set cs" "live V col" using ip(1) by (auto simp: live_ips_def)
  then have "ip \<in> fst ` set cs" by force
  then show ?thesis using walk_invD(6) [OF st1(2,3) col] ip(2) grow by simp
qed

text \<open>The walk ends with a full array, in which no backend has more entries than its share; with as many shares as entries it has exactly its share.\<close>

lemma walk_fills:
  assumes m: "matrix_ok V cs" and nonneg: "\<forall>ip. 0 \<le> pool0 ip" and enough: "int V \<le> (\<Sum>ip \<in> live_ips V cs. pool0 ip)"
  shows "\<exists>st. visit_rows V [0..<V] cs \<lparr>final_backend_list = replicate V unset, weight_backend_list = pool0, walk_count = 0, walk_index = 0\<rparr> = Inr st \<and>
    length (final_backend_list st) = V \<and> set (final_backend_list st) \<subseteq> live_ips V cs \<and>
    (\<forall>ip \<in> live_ips V cs. int (count_list (final_backend_list st) ip) \<le> pool0 ip) \<and>
    ((\<Sum>ip \<in> live_ips V cs. pool0 ip) = int V \<longrightarrow> (\<forall>ip \<in> live_ips V cs. int (count_list (final_backend_list st) ip) = pool0 ip))"
proof -
  obtain st where st: "visit_rows V [0..<V] cs \<lparr>final_backend_list = replicate V unset, weight_backend_list = pool0, walk_count = 0, walk_index = 0\<rparr> = Inr st"
      and inv: "walk_inv V cs pool0 (\<lambda>_. V) st"
    using visit_rows_keeps [OF walk_start [OF nonneg] m] by blast
  let ?f = "final_backend_list st"
  note D = walk_invD [OF inv] and full = walk_end_full [OF inv m enough]
  have sub: "set ?f \<subseteq> live_ips V cs" using D(3) full walk_full [OF inv] by auto
  have le: "int (count_list ?f ip) \<le> pool0 ip" if "ip \<in> live_ips V cs" for ip
  proof -
    have "ip \<noteq> unset" using that live_ips_set [OF m] by blast
    from D(4) [OF this] show ?thesis by linarith
  qed
  have sum: "(\<Sum>ip \<in> live_ips V cs. int (count_list ?f ip)) = int V" using full D(2) placed_sum [OF m D(3)] by (metis of_nat_sum)
  have "int (count_list ?f ip) = pool0 ip" if "(\<Sum>ip \<in> live_ips V cs. pool0 ip) = int V" "ip \<in> live_ips V cs" for ip
    using sum_mono_inv [of "\<lambda>ip. int (count_list ?f ip)" "live_ips V cs" pool0 ip] sum that le live_ips_finite by simp
  then show ?thesis using st D(1) sub le by blast
qed

end
