(* ===== verification/Lb_Datapath.thy ===== *)
theory Lb_Datapath
  imports Nat_Datapath
begin

text \<open>
  The load balancer in the kernel: \<open>Lbrp_dp.c\<close> of \<open>pcn-loadbalancer-rp\<close>. A packet from a frontend to the address of a service goes to one of
  its backends, chosen by a hash of its session; the answer gets the address of the service back as its source.
\<close>

section \<open>Tables\<close>

record vip =
  vip_ip :: "32 word"
  vip_port :: "16 word"
  vip_proto :: "16 word"
  vip_index :: "16 word"

record backend =
  bck_ip :: "32 word"
  bck_port :: "16 word"
  bck_proto :: "16 word"

record sessions =
  ses_ip_src :: "32 word"
  ses_ip_dst :: "32 word"
  ses_port_src :: "16 word"
  ses_port_dst :: "16 word"
  ses_proto :: "16 word"

datatype sense = FROM_FRONTEND | FROM_BACKEND

record src_ip_r_key =
  netmask_len :: "32 word"
  network :: "32 word"

record src_ip_r_value =
  rw_sense :: sense
  rw_net :: "32 word"
  rw_mask :: "32 word"

record lb_kernel =
  services :: "vip \<rightharpoonup> backend"
  hash_session :: "32 word \<rightharpoonup> vip"
  src_ip_rewrite :: "src_ip_r_key \<rightharpoonup> src_ip_r_value"
  backend_to_service :: "backend \<rightharpoonup> vip"
  ip_to_frontend_port :: "32 word \<rightharpoonup> 16 word"

text \<open>
  The macros the control plane defines in front of the program, and the code the program calls that is not its own: the hash of the kernel and the
  lookup in the longest-prefix trie.
\<close>

record lb_program =
  SINGLE_PORT_MODE :: bool
  BACKEND_PORT :: "16 word"
  FRONTEND_PORT :: "16 word"

record lb_params =
  jhash :: "sessions \<Rightarrow> 32 word"
  rewrite_lookup :: "(src_ip_r_key \<rightharpoonup> src_ip_r_value) \<Rightarrow> 32 word \<Rightarrow> src_ip_r_value option"

definition lb_params_ok :: "lb_params \<Rightarrow> bool" where
  "lb_params_ok ps \<longleftrightarrow> (\<forall>t a v. rewrite_lookup ps t a = Some v \<longrightarrow> v \<in> ran t)"

datatype lb_verdict = LB_DROP | LB_REDIRECT "16 word" | LB_CONTROLLER nat

type_synonym lb_outcome = "lb_verdict \<times> frame \<times> csum_call list \<times> lb_kernel"

definition REASON_ARP_REPLY :: nat where "REASON_ARP_REPLY = 0"
definition REASON_FLOODING :: nat where "REASON_FLOODING = 1"

section \<open>Choosing a backend\<close>

text \<open>\<open>proto_nbo\<close> is \<open>htons\<close> of the number of a protocol.\<close>

definition proto_nbo :: "8 word \<Rightarrow> 16 word" where
  "proto_nbo p = ntohs (ucast p)"

definition session_key :: "32 word \<Rightarrow> 32 word \<Rightarrow> 16 word \<Rightarrow> 16 word \<Rightarrow> 16 word \<Rightarrow> sessions" where
  "session_key src dst sport dport proto =
     \<lparr>ses_ip_src = src, ses_ip_dst = dst, ses_port_src = sport, ses_port_dst = dport, ses_proto = proto\<rparr>"

text \<open>The key under which the session is remembered has the address of the backend, and its port unless the packet is ICMP.\<close>

definition translated_key :: "sessions \<Rightarrow> backend \<Rightarrow> sessions" where
  "translated_key k b = k\<lparr>ses_ip_dst := bck_ip b, ses_port_dst := (if ses_proto k = proto_nbo 1 then ses_port_dst k else bck_port b)\<rparr>"

definition service_index :: "sessions \<Rightarrow> 16 word \<Rightarrow> vip" where
  "service_index k index = \<lparr>vip_ip = ses_ip_dst k, vip_port = ses_port_dst k, vip_proto = ses_proto k, vip_index = index\<rparr>"

definition backend_id :: "lb_params \<Rightarrow> sessions \<Rightarrow> 16 word \<Rightarrow> 16 word" where
  "backend_id ps k pool_size = ucast (jhash ps k mod ucast pool_size + 1)"

definition get_bck_ip :: "lb_params \<Rightarrow> sessions \<Rightarrow> 16 word \<Rightarrow> lb_kernel \<Rightarrow> backend option \<times> lb_kernel" where
  "get_bck_ip ps k pool_size kn =
     (if pool_size = 0 then (None, kn)
      else case services kn (service_index k (backend_id ps k pool_size)) of
             None \<Rightarrow> (None, kn)
           | Some b \<Rightarrow>
               (case rewrite_lookup ps (src_ip_rewrite kn) (ses_ip_dst k) of
                  Some _ \<Rightarrow> (Some b, kn)
                | None \<Rightarrow> (Some b, kn\<lparr>hash_session := (hash_session kn)(jhash ps (translated_key k b) \<mapsto> service_index k 0)\<rparr>)))"

section \<open>The program\<close>

definition checksum :: "16 word \<Rightarrow> 16 word \<Rightarrow> 32 word \<Rightarrow> 32 word \<Rightarrow> 32 word \<Rightarrow> 32 word \<Rightarrow> nat \<Rightarrow> csum_call list" where
  "checksum from_port to_port old_dip new_dip old_sip new_sip flag =
     [L3_csum_replace IP_CSUM_OFFSET old_dip new_dip, L4_csum_replace flag (ucast from_port) (ucast to_port) False,
      L4_csum_replace flag old_dip new_dip True] @
     (if new_sip \<noteq> 0 then [L3_csum_replace IP_CSUM_OFFSET old_sip new_sip, L4_csum_replace flag old_sip new_sip True] else [])"

definition send_to_frontend :: "lb_program \<Rightarrow> lb_kernel \<Rightarrow> 32 word \<Rightarrow> lb_verdict" where
  "send_to_frontend pg kn ip_daddr =
     (if SINGLE_PORT_MODE pg then LB_REDIRECT (FRONTEND_PORT pg)
      else case ip_to_frontend_port kn ip_daddr of None \<Rightarrow> LB_DROP | Some fe \<Rightarrow> LB_REDIRECT fe)"

text \<open>
  Parsing. The transport header is taken to start after 20 bytes of IP header. The identifier of an ICMP echo is the source port, the
  destination port is 0.
\<close>

record lb_ports =
  l4_source :: "16 word"
  l4_dest :: "16 word"
  l4_proto :: "8 word"

datatype lb_parsed = LbDrop | LbArp | LbNoIp | LbIp lb_ports

definition lb_parse_ip :: "frame \<Rightarrow> lb_parsed" where
  "lb_parse_ip f =
     (if length f < 34 then LbDrop
      else if ip_protocol f = 1 then
        (if length f < 42 then LbDrop
         else if f ! 34 \<noteq> 8 \<and> f ! 34 \<noteq> 0 then LbDrop
         else LbIp \<lparr>l4_source = u16_at f 38, l4_dest = 0, l4_proto = 1\<rparr>)
      else if ip_protocol f = UDP8 then
        (if length f < 42 then LbDrop else LbIp \<lparr>l4_source = u16_at f 34, l4_dest = u16_at f 36, l4_proto = UDP8\<rparr>)
      else if ip_protocol f = TCP8 then
        (if length f < 54 then LbDrop else LbIp \<lparr>l4_source = u16_at f 34, l4_dest = u16_at f 36, l4_proto = TCP8\<rparr>)
      else LbDrop)"

definition lb_parse :: "frame \<Rightarrow> lb_parsed" where
  "lb_parse f =
     (if length f < 14 then LbDrop
      else if u16_at f 12 = ntohs ETH_P_IP then lb_parse_ip f
      else if u16_at f 12 = ntohs ETH_P_ARP then (if length f < 42 then LbDrop else LbArp)
      else LbNoIp)"

definition l4csum_offset :: "8 word \<Rightarrow> nat" where
  "l4csum_offset p = (if p = TCP8 then TCP_CSUM_OFFSET else if p = UDP8 then UDP_CSUM_OFFSET else ICMP_CSUM_OFFSET)"

definition rewrite_addr :: "src_ip_r_value \<Rightarrow> 32 word \<Rightarrow> 32 word" where
  "rewrite_addr v a = (a AND ntohl (rw_mask v)) OR ntohl (rw_net v)"

text \<open>From a frontend. The new source address is 0 if the source is not rewritten.\<close>

definition lb_frontend_src :: "lb_params \<Rightarrow> lb_kernel \<Rightarrow> 32 word \<Rightarrow> 32 word \<times> 32 word" where
  "lb_frontend_src ps kn saddr =
     (case rewrite_lookup ps (src_ip_rewrite kn) saddr of
        Some v \<Rightarrow> if rw_sense v = FROM_FRONTEND then (rewrite_addr v saddr, rewrite_addr v saddr) else (saddr, 0)
      | None \<Rightarrow> (saddr, 0))"

definition lb_frontend :: "lb_params \<Rightarrow> lb_program \<Rightarrow> frame \<Rightarrow> lb_ports \<Rightarrow> lb_kernel \<Rightarrow> lb_outcome" where
  "lb_frontend ps pg f p kn =
     (let k = session_key (u32_at f 26) (u32_at f 30) (l4_source p) (l4_dest p) (proto_nbo (l4_proto p))
      in case services kn (service_index k 0) of
           None \<Rightarrow> (LB_REDIRECT (BACKEND_PORT pg), f, [], kn)
         | Some pool \<Rightarrow>
             (case get_bck_ip ps k (bck_port pool) kn of
                (None, kn') \<Rightarrow> (LB_DROP, f, [], kn')
              | (Some b, kn') \<Rightarrow>
                  (let (saddr, new_sip) = lb_frontend_src ps kn' (ses_ip_src k);
                       f' = store_u32 (store_u32 f 30 (bck_ip b)) 26 saddr;
                       off = l4csum_offset (l4_proto p)
                   in if off = ICMP_CSUM_OFFSET
                      then (LB_REDIRECT (BACKEND_PORT pg), f', [L3_csum_replace IP_CSUM_OFFSET (ses_ip_dst k) (bck_ip b)], kn')
                      else (LB_REDIRECT (BACKEND_PORT pg), store_u16 f' 36 (bck_port b),
                            checksum (l4_dest p) (bck_port b) (ses_ip_dst k) (bck_ip b) (ses_ip_src k) new_sip off, kn'))))"

text \<open>
  From the backend port: the addresses after the translation, with the old and new values the checksums are updated with
  (\<open>old_ip\<close>, \<open>new_ip\<close>, \<open>new_sip\<close>) and the new port.
\<close>

record lb_reverse =
  rev_saddr :: "32 word"
  rev_daddr :: "32 word"
  rev_port :: "16 word"
  rev_old_ip :: "32 word"
  rev_new_ip :: "32 word"
  rev_new_sip :: "32 word"

datatype lb_lookup = RevDrop | RevMiss | RevHit lb_reverse

definition lb_reply_key :: "32 word \<Rightarrow> 32 word \<Rightarrow> lb_ports \<Rightarrow> sessions" where
  "lb_reply_key saddr daddr p =
     (if l4_proto p = 1 then session_key daddr saddr (l4_source p) (l4_dest p) (proto_nbo (l4_proto p))
      else session_key daddr saddr (l4_dest p) (l4_source p) (proto_nbo (l4_proto p)))"

definition lb_reverse_lookup :: "lb_params \<Rightarrow> lb_kernel \<Rightarrow> 32 word \<Rightarrow> 32 word \<Rightarrow> lb_ports \<Rightarrow> lb_lookup" where
  "lb_reverse_lookup ps kn saddr daddr p =
     (let session =
            (case hash_session kn (jhash ps (lb_reply_key saddr daddr p)) of
               None \<Rightarrow> RevMiss
             | Some v \<Rightarrow> RevHit \<lparr>rev_saddr = vip_ip v, rev_daddr = daddr, rev_port = vip_port v, rev_old_ip = saddr, rev_new_ip = vip_ip v, rev_new_sip = 0\<rparr>)
      in case rewrite_lookup ps (src_ip_rewrite kn) daddr of
           Some rw \<Rightarrow>
             if rw_sense rw = FROM_BACKEND
             then (case backend_to_service kn \<lparr>bck_ip = saddr, bck_port = l4_source p, bck_proto = proto_nbo (l4_proto p)\<rparr> of
                     None \<Rightarrow> RevDrop
                   | Some v \<Rightarrow> RevHit \<lparr>rev_saddr = vip_ip v, rev_daddr = rewrite_addr rw daddr, rev_port = vip_port v, rev_old_ip = daddr,
                       rev_new_ip = rewrite_addr rw daddr, rev_new_sip = vip_ip v\<rparr>)
             else session
         | None \<Rightarrow> session)"

definition lb_backend :: "lb_params \<Rightarrow> lb_program \<Rightarrow> frame \<Rightarrow> lb_ports \<Rightarrow> lb_kernel \<Rightarrow> lb_outcome" where
  "lb_backend ps pg f p kn =
     (let saddr = u32_at f 26; daddr = u32_at f 30
      in case lb_reverse_lookup ps kn saddr daddr p of
           RevDrop \<Rightarrow> (LB_DROP, f, [], kn)
         | RevMiss \<Rightarrow> (send_to_frontend pg kn daddr, f, [], kn)
         | RevHit r \<Rightarrow>
             (let f' = store_u32 (store_u32 f 30 (rev_daddr r)) 26 (rev_saddr r); off = l4csum_offset (l4_proto p)
              in case send_to_frontend pg kn (rev_daddr r) of
                   LB_REDIRECT fe \<Rightarrow>
                     if off = ICMP_CSUM_OFFSET
                     then (LB_REDIRECT fe, f', [L3_csum_replace IP_CSUM_OFFSET (rev_old_ip r) (rev_new_ip r)], kn)
                     else (LB_REDIRECT fe, store_u16 f' 34 (rev_port r),
                           checksum (l4_source p) (rev_port r) (rev_old_ip r) (rev_new_ip r) saddr (rev_new_sip r) off, kn)
                 | v \<Rightarrow> (v, f', [], kn)))"

text \<open>ARP: the operation is at offset 20, the address of the sender at 28 and of the target at 38.\<close>

definition lb_arp :: "lb_params \<Rightarrow> lb_program \<Rightarrow> 16 word \<Rightarrow> frame \<Rightarrow> lb_kernel \<Rightarrow> lb_outcome" where
  "lb_arp ps pg in_port f kn =
     (if in_port = BACKEND_PORT pg
      then (let tip = u32_at f 38;
                tip' = (if u16_at f 20 = ntohs 1
                        then (case rewrite_lookup ps (src_ip_rewrite kn) tip of
                                Some v \<Rightarrow> if rw_sense v = FROM_BACKEND then rewrite_addr v tip else tip
                              | None \<Rightarrow> tip)
                        else tip)
            in (send_to_frontend pg kn tip', store_u32 f 38 tip', [], kn))
      else if u16_at f 20 = ntohs 2 \<and>
              (case rewrite_lookup ps (src_ip_rewrite kn) (u32_at f 28) of Some v \<Rightarrow> rw_sense v = FROM_FRONTEND | None \<Rightarrow> False)
      then (LB_CONTROLLER REASON_ARP_REPLY, f, [], kn)
      else (LB_REDIRECT (BACKEND_PORT pg), f, [], kn))"

definition lb_noip :: "lb_program \<Rightarrow> 16 word \<Rightarrow> lb_verdict" where
  "lb_noip pg in_port =
     (if in_port = BACKEND_PORT pg
      then (if SINGLE_PORT_MODE pg then LB_REDIRECT (FRONTEND_PORT pg) else LB_CONTROLLER REASON_FLOODING)
      else LB_REDIRECT (BACKEND_PORT pg))"

definition Lbrp_rx :: "lb_params \<Rightarrow> lb_program \<Rightarrow> 16 word \<Rightarrow> frame \<Rightarrow> lb_kernel \<Rightarrow> lb_outcome" where
  "Lbrp_rx ps pg in_port f kn =
     (case lb_parse f of
        LbDrop \<Rightarrow> (LB_DROP, f, [], kn)
      | LbArp \<Rightarrow> lb_arp ps pg in_port f kn
      | LbNoIp \<Rightarrow> (lb_noip pg in_port, f, [], kn)
      | LbIp p \<Rightarrow> if in_port \<noteq> BACKEND_PORT pg then lb_frontend ps pg f p kn else lb_backend ps pg f p kn)"

end
