(* ===== verification/Lb_Service.thy ===== *)
theory Lb_Service
  imports Lb_Walk Lb_Datapath Nat_Rules "HOL-Library.Multiset"
begin

text \<open>
  A load-balancing service in user space: \<open>Service.cpp\<close> and \<open>ServiceBackend.cpp\<close> of \<open>pcn-loadbalancer-rp\<close>. The service keeps its backends, a matrix with
  a column of cells for every backend it has ever had, and writes the array of backends to the tables of the kernel after every change. An operation
  returns no value if it does not end.
\<close>

section \<open>Operations that may not end\<close>

type_synonym ('s, 'a) lb_run = "('s \<times> 'a result) option"

definition run_bind :: "('s, 'a) lb_run \<Rightarrow> ('a \<Rightarrow> 's \<Rightarrow> ('s, 'b) lb_run) \<Rightarrow> ('s, 'b) lb_run" where
  "run_bind m f = (case m of None \<Rightarrow> None | Some (s, Inl e) \<Rightarrow> Some (s, Inl e) | Some (s, Inr x) \<Rightarrow> f x s)"

lemma run_bind_simps [simp]:
  "run_bind None f = None" "run_bind (Some (s, Inl e)) f = Some (s, Inl e)" "run_bind (Some (s, Inr x)) f = f x s"
  by (simp_all add: run_bind_def)

lemma run_bind_Inr: "run_bind m f = Some (s', Inr y) \<longleftrightarrow> (\<exists>s x. m = Some (s, Inr x) \<and> f x s = Some (s', Inr y))"
  by (auto simp: run_bind_def split: option.splits sum.splits)

definition when_given :: "'c option \<Rightarrow> ('c \<Rightarrow> 's \<Rightarrow> ('s, unit) lb_run) \<Rightarrow> 's \<Rightarrow> ('s, unit) lb_run" where
  "when_given c f s = (case c of None \<Rightarrow> Some (s, Inr ()) | Some x \<Rightarrow> f x s)"

fun run_list :: "('c \<Rightarrow> 's \<Rightarrow> ('s, unit) lb_run) \<Rightarrow> 'c list \<Rightarrow> 's \<Rightarrow> ('s, unit) lb_run" where
  "run_list f [] s = Some (s, Inr ())"
| "run_list f (c # cs) s = run_bind (f c s) (\<lambda>_. run_list f cs)"

section \<open>State\<close>

datatype ServiceProtoEnum = LB_ICMP | LB_TCP | LB_UDP | LB_ALL

definition convertProtoToNumber :: "ServiceProtoEnum \<Rightarrow> 8 word" where
  "convertProtoToNumber proto = (case proto of LB_ICMP \<Rightarrow> 1 | LB_TCP \<Rightarrow> 6 | LB_UDP \<Rightarrow> 17 | LB_ALL \<Rightarrow> 143)"

definition convertNumberToProto :: "8 word \<Rightarrow> ServiceProtoEnum" where
  "convertNumberToProto proto =
     (if proto = 1 then LB_ICMP else if proto = 6 then LB_TCP else if proto = 17 then LB_UDP else if proto = 143 then LB_ALL else LB_ALL)"

text \<open>
  \<open>sb_local\<close>: the reference \<open>parent_\<close> of the backend is to the local variable of \<open>Lbrp::addService\<close> that the stored service is copied from. A port or
  weight that is not set in a configuration object is not initialised.
\<close>

record ServiceBackendJsonObject =
  bj_ip :: string
  bj_port :: "16 word option"
  bj_weight :: "16 word option"
  bj_name :: "string option"

record ServiceBackend =
  sb_ip :: string
  sb_port :: "16 word"
  sb_weight :: "16 word"
  sb_name :: string
  sb_local :: bool

record Service =
  service_vip :: string
  service_vport :: "16 word"
  service_proto :: ServiceProtoEnum
  service_name :: string
  service_backends :: "(string \<times> ServiceBackend) list"
  backend_matrix :: "(string \<times> int list) list"

text \<open>The kernel, and how many vectors have been shuffled.\<close>

record lb_world =
  lb_kn :: lb_kernel
  draws :: nat

type_synonym service_state = "Service \<times> lb_world"

text \<open>
  What is not determined by the code: the order in which an \<open>unordered_map\<close> is walked, the permutation of the \<open>n\<close>-th call of \<open>std::shuffle\<close>, and
  whether the kernel takes a new entry.
\<close>

record lb_env =
  hash_order :: "(string \<times> ServiceBackend) list \<Rightarrow> (string \<times> ServiceBackend) list"
  shuffle :: "nat \<Rightarrow> int list \<Rightarrow> int list"
  room_services :: "(vip \<rightharpoonup> backend) \<Rightarrow> vip \<Rightarrow> bool"
  room_backends :: "(backend \<rightharpoonup> vip) \<Rightarrow> backend \<Rightarrow> bool"

definition lb_env_ok :: "lb_env \<Rightarrow> bool" where
  "lb_env_ok env \<longleftrightarrow> (\<forall>xs. mset (hash_order env xs) = mset xs) \<and> (\<forall>n xs. mset (shuffle env n xs) = mset xs)"

definition uninitialised :: error where
  "uninitialised = UndefinedBehaviour ''uninitialised member''"

definition no_entry :: error where
  "no_entry = RuntimeError ''There are no entries associated with that key''"

section \<open>Backends\<close>

definition ServiceBackend_new :: "bool \<Rightarrow> ServiceBackendJsonObject \<Rightarrow> ServiceBackend result" where
  "ServiceBackend_new loc conf =
     (case bj_port conf of
        None \<Rightarrow> Inl uninitialised
      | Some port \<Rightarrow>
          Inr \<lparr>sb_ip = bj_ip conf, sb_port = port, sb_weight = (case bj_weight conf of Some w \<Rightarrow> w | None \<Rightarrow> 1),
               sb_name = (case bj_name conf of Some n \<Rightarrow> n | None \<Rightarrow> []), sb_local = loc\<rparr>)"

definition ServiceBackend_toJsonObject :: "ServiceBackend \<Rightarrow> ServiceBackendJsonObject" where
  "ServiceBackend_toJsonObject b = \<lparr>bj_ip = sb_ip b, bj_port = Some (sb_port b), bj_weight = Some (sb_weight b), bj_name = Some (sb_name b)\<rparr>"

definition getBackend :: "Service \<Rightarrow> string \<Rightarrow> ServiceBackend result" where
  "getBackend s ip = (case map_of (service_backends s) ip of None \<Rightarrow> Inl no_entry | Some b \<Rightarrow> Inr b)"

text \<open>A change through the pointer that \<open>getBackend\<close> returns.\<close>

definition put_backend :: "string \<Rightarrow> ServiceBackend \<Rightarrow> Service \<Rightarrow> Service" where
  "put_backend ip b s = s\<lparr>service_backends := map (\<lambda>(i, x). (i, if i = ip then b else x)) (service_backends s)\<rparr>"

section \<open>The matrix\<close>

text \<open>\<open>std::map::operator[]\<close>, whose entries are in the order of the keys.\<close>

fun matrix_put :: "string \<Rightarrow> int list \<Rightarrow> (string \<times> int list) list \<Rightarrow> (string \<times> int list) list" where
  "matrix_put k v [] = [(k, v)]"
| "matrix_put k v ((k', v') # m) = (if k = k' then (k, v) # m else if k < k' then (k, v) # (k', v') # m else (k', v') # matrix_put k v m)"

definition getEmptyIntVector :: "int \<Rightarrow> int list" where
  "getEmptyIntVector n = replicate (nat n) (-2)"

definition getRandomIntVector :: "lb_env \<Rightarrow> nat \<Rightarrow> int \<Rightarrow> int list" where
  "getRandomIntVector env n len = shuffle env n (map int [0..<nat len])"

definition service_vect_size :: "Service \<Rightarrow> int" where
  "service_vect_size s = vect_size (length (service_backends s))"

definition removeBackendFromServiceMatrix :: "string \<Rightarrow> Service \<Rightarrow> Service" where
  "removeBackendFromServiceMatrix ip s = s\<lparr>backend_matrix := matrix_put ip (getEmptyIntVector (service_vect_size s)) (backend_matrix s)\<rparr>"

definition addBackendToServiceMatrix :: "lb_env \<Rightarrow> string \<Rightarrow> service_state \<Rightarrow> service_state" where
  "addBackendToServiceMatrix env ip = (\<lambda>(s, w).
     (s\<lparr>backend_matrix := matrix_put ip (getRandomIntVector env (draws w) (service_vect_size s)) (backend_matrix s)\<rparr>, w\<lparr>draws := draws w + 1\<rparr>))"

section \<open>The tables of the kernel\<close>

definition service_vip_key :: "Service \<Rightarrow> 32 word \<Rightarrow> 16 word \<Rightarrow> vip" where
  "service_vip_key s ip index =
     \<lparr>vip_ip = ip, vip_port = ntohs (service_vport s), vip_proto = proto_nbo (convertProtoToNumber (service_proto s)), vip_index = index\<rparr>"

definition backend_value :: "Service \<Rightarrow> 32 word \<Rightarrow> ServiceBackend \<Rightarrow> backend" where
  "backend_value s ip b = \<lparr>bck_ip = ip, bck_port = ntohs (sb_port b), bck_proto = proto_nbo (convertProtoToNumber (service_proto s))\<rparr>"

definition set_services :: "lb_env \<Rightarrow> vip \<Rightarrow> backend \<Rightarrow> lb_kernel \<Rightarrow> lb_kernel \<times> unit result" where
  "set_services env k v kn = (let (t, r) = table_set (room_services env) k v (services kn) in (kn\<lparr>services := t\<rparr>, r))"

definition set_backend_to_service :: "lb_env \<Rightarrow> backend \<Rightarrow> vip \<Rightarrow> lb_kernel \<Rightarrow> lb_kernel \<times> unit result" where
  "set_backend_to_service env k v kn = (let (t, r) = table_set (room_backends env) k v (backend_to_service kn) in (kn\<lparr>backend_to_service := t\<rparr>, r))"

fun write_entries :: "lb_env \<Rightarrow> Service \<Rightarrow> 16 word \<Rightarrow> string list \<Rightarrow> lb_kernel \<Rightarrow> lb_kernel \<times> unit result" where
  "write_entries env s index [] kn = (kn, Inr ())"
| "write_entries env s index (ip # ips) kn =
     (case rbind (getBackend s ip) (\<lambda>b. rbind (ip_string_to_nbo_uint (service_vip s)) (\<lambda>v. rbind (ip_string_to_nbo_uint (sb_ip b)) (\<lambda>a. Inr (b, v, a)))) of
        Inl e \<Rightarrow> (kn, Inl e)
      | Inr (b, v, a) \<Rightarrow>
          sbind (set_services env (service_vip_key s v (index + 1)) (backend_value s a b) kn) (\<lambda>_ kn.
          sbind (set_backend_to_service env (backend_value s a b) (service_vip_key s v (index + 1)) kn) (\<lambda>_.
          write_entries env s (index + 1) ips)))"

definition updateKernelServiceMap :: "lb_env \<Rightarrow> Service \<Rightarrow> string list \<Rightarrow> lb_kernel \<Rightarrow> lb_kernel \<times> unit result" where
  "updateKernelServiceMap env s arr kn =
     (case ip_string_to_nbo_uint (service_vip s) of
        Inl e \<Rightarrow> (kn, Inl e)
      | Inr v \<Rightarrow>
          sbind (set_services env (service_vip_key s v 0) \<lparr>bck_ip = v, bck_port = of_nat (length arr), bck_proto = 0\<rparr> kn) (\<lambda>_.
          write_entries env s 0 arr))"

text \<open>\<open>backend_size_\<close> is 10 and never changes: the loop runs over the indexes 0 to 29.\<close>

fun remove_indexes :: "Service \<Rightarrow> nat list \<Rightarrow> lb_kernel \<Rightarrow> lb_kernel \<times> unit result" where
  "remove_indexes s [] kn = (kn, Inr ())"
| "remove_indexes s (i # is) kn =
     (case ip_string_to_nbo_uint (service_vip s) of
        Inl e \<Rightarrow> (kn, Inl e)
      | Inr v \<Rightarrow>
          (let (t, r) = table_remove (service_vip_key s v (of_nat i)) (services kn)
           in sbind (kn\<lparr>services := t\<rparr>, r) (\<lambda>_. remove_indexes s is)))"

definition removeServiceFromKernelMap :: "Service \<Rightarrow> lb_kernel \<Rightarrow> lb_kernel \<times> unit result" where
  "removeServiceFromKernelMap s = remove_indexes s [0..<nat (INITIAL_BACKEND_SIZE * BACKEND_REPLICAS)]"

definition service_weights :: "lb_env \<Rightarrow> Service \<Rightarrow> weights" where
  "service_weights env s = map (\<lambda>(ip, b). (ip, uint (sb_weight b))) (hash_order env (service_backends s))"

definition service_array :: "lb_env \<Rightarrow> Service \<Rightarrow> string list result option" where
  "service_array env s = getConsistentArray (length (service_backends s)) (service_weights env s) (backend_matrix s)"

definition in_kernel :: "(lb_kernel \<Rightarrow> lb_kernel \<times> unit result) \<Rightarrow> service_state \<Rightarrow> service_state \<times> unit result" where
  "in_kernel f = (\<lambda>(s, w). let (kn, r) = f (lb_kn w) in ((s, w\<lparr>lb_kn := kn\<rparr>), r))"

definition updateConsistentHashMap :: "lb_env \<Rightarrow> service_state \<Rightarrow> (service_state, unit) lb_run" where
  "updateConsistentHashMap env = (\<lambda>(s, w).
     case service_array env s of
       None \<Rightarrow> None
     | Some (Inl e) \<Rightarrow> Some ((s, w), Inl e)
     | Some (Inr arr) \<Rightarrow> Some (in_kernel (updateKernelServiceMap env s arr) (s, w)))"

section \<open>The operations\<close>

definition wrong_weight :: error where
  "wrong_weight = RuntimeError ''Variable weight is in a wrong range. Supported range is from 1 to 100''"

definition addBackend :: "lb_env \<Rightarrow> bool \<Rightarrow> string \<Rightarrow> ServiceBackendJsonObject \<Rightarrow> service_state \<Rightarrow> (service_state, unit) lb_run" where
  "addBackend env loc ip conf = (\<lambda>(s, w).
     if map_of (service_backends s) ip \<noteq> None
     then Some ((s, w), Inl (RuntimeError (''Backend '' @ ip @ '' already exists in the service map'')))
     else if (case bj_weight conf of Some x \<Rightarrow> x < 1 \<and> x \<noteq> 0 | None \<Rightarrow> False) then Some ((s, w), Inl wrong_weight)
     else case ServiceBackend_new loc conf of
            Inl e \<Rightarrow> Some ((s, w), Inl e)
          | Inr b \<Rightarrow>
              if map_of (service_backends s) (bj_ip conf) \<noteq> None
              then Some ((s, w), Inl (RuntimeError ''Unable to create the backend instance''))
              else updateConsistentHashMap env
                     (addBackendToServiceMatrix env ip (s\<lparr>service_backends := service_backends s @ [(bj_ip conf, b)]\<rparr>, w)))"

definition addBackendList :: "lb_env \<Rightarrow> bool \<Rightarrow> ServiceBackendJsonObject list \<Rightarrow> service_state \<Rightarrow> (service_state, unit) lb_run" where
  "addBackendList env loc = run_list (\<lambda>c. addBackend env loc (bj_ip c) c)"

definition delBackend :: "lb_env \<Rightarrow> string \<Rightarrow> service_state \<Rightarrow> (service_state, unit) lb_run" where
  "delBackend env ip = (\<lambda>(s, w).
     if map_of (service_backends s) ip = None then Some ((s, w), Inl no_entry)
     else let s' = removeBackendFromServiceMatrix ip (s\<lparr>service_backends := filter (\<lambda>(i, b). i \<noteq> ip) (service_backends s)\<rparr>)
          in if service_backends s' = []
             then Some (in_kernel (removeServiceFromKernelMap s') (s'\<lparr>backend_matrix := []\<rparr>, w))
             else updateConsistentHashMap env (s', w))"

definition delBackendList :: "service_state \<Rightarrow> service_state \<times> unit result" where
  "delBackendList = (\<lambda>(s, w).
     if service_backends s = [] then ((s, w), Inr ())
     else in_kernel (removeServiceFromKernelMap s) (s\<lparr>service_backends := [], backend_matrix := []\<rparr>, w))"

definition replaceBackend :: "lb_env \<Rightarrow> string \<Rightarrow> ServiceBackendJsonObject \<Rightarrow> service_state \<Rightarrow> (service_state, unit) lb_run" where
  "replaceBackend env ip conf st = run_bind (delBackend env ip st) (\<lambda>_. addBackend env False (bj_ip conf) conf)"

definition replaceBackendList :: "lb_env \<Rightarrow> ServiceBackendJsonObject list \<Rightarrow> service_state \<Rightarrow> (service_state, unit) lb_run" where
  "replaceBackendList env confs st = run_bind (Some (delBackendList st)) (\<lambda>_. addBackendList env False confs)"

text \<open>\<open>ServiceBackend::setPort\<close> calls \<open>updateConsistentHashMap\<close> of the service \<open>parent_\<close> refers to.\<close>

definition ServiceBackend_setPort :: "lb_env \<Rightarrow> string \<Rightarrow> 16 word \<Rightarrow> service_state \<Rightarrow> (service_state, unit) lb_run" where
  "ServiceBackend_setPort env ip port = (\<lambda>(s, w).
     case getBackend s ip of
       Inl e \<Rightarrow> Some ((s, w), Inl e)
     | Inr b \<Rightarrow>
         (let s' = put_backend ip (b\<lparr>sb_port := port\<rparr>) s
          in if sb_local b then Some ((s', w), Inl (UndefinedBehaviour ''dangling reference'')) else updateConsistentHashMap env (s', w)))"

definition ServiceBackend_update :: "lb_env \<Rightarrow> string \<Rightarrow> ServiceBackendJsonObject \<Rightarrow> service_state \<Rightarrow> (service_state, unit) lb_run" where
  "ServiceBackend_update env ip conf = (\<lambda>(s, w).
     case getBackend s ip of
       Inl e \<Rightarrow> Some ((s, w), Inl e)
     | Inr b \<Rightarrow>
         (let b1 = (case bj_name conf of Some n \<Rightarrow> b\<lparr>sb_name := n\<rparr> | None \<Rightarrow> b);
              b2 = b1\<lparr>sb_weight := (case bj_weight conf of Some x \<Rightarrow> x | None \<Rightarrow> 1)\<rparr>
          in when_given (bj_port conf) (ServiceBackend_setPort env ip) (put_backend ip b2 s, w)))"

record ServiceJsonObject =
  sj_vip :: string
  sj_vport :: "16 word"
  sj_proto :: ServiceProtoEnum
  sj_name :: "string option"
  sj_backend :: "ServiceBackendJsonObject list option"

definition Service_new :: "lb_env \<Rightarrow> ServiceJsonObject \<Rightarrow> lb_world \<Rightarrow> (service_state, unit) lb_run" where
  "Service_new env conf w =
     addBackendList env True (case sj_backend conf of Some bs \<Rightarrow> bs | None \<Rightarrow> [])
       (\<lparr>service_vip = sj_vip conf, service_vport = sj_vport conf, service_proto = sj_proto conf,
         service_name = (case sj_name conf of Some n \<Rightarrow> n | None \<Rightarrow> []), service_backends = [], backend_matrix = []\<rparr>, w)"

definition Service_update :: "lb_env \<Rightarrow> ServiceJsonObject \<Rightarrow> service_state \<Rightarrow> (service_state, unit) lb_run" where
  "Service_update env conf = (\<lambda>(s, w).
     when_given (sj_backend conf) (run_list (\<lambda>c. ServiceBackend_update env (bj_ip c) c))
       (case sj_name conf of Some n \<Rightarrow> s\<lparr>service_name := n\<rparr> | None \<Rightarrow> s, w))"

definition Service_toJsonObject :: "lb_env \<Rightarrow> Service \<Rightarrow> ServiceJsonObject" where
  "Service_toJsonObject env s =
     \<lparr>sj_vip = service_vip s, sj_vport = service_vport s, sj_proto = service_proto s, sj_name = Some (service_name s),
      sj_backend = (if service_backends s = [] then None
                    else Some (map (\<lambda>(ip, b). ServiceBackend_toJsonObject b) (hash_order env (service_backends s))))\<rparr>"

end
