(* ===== verification/Lb_Sync.thy ===== *)
theory Lb_Sync
  imports Lb_Service
begin

text \<open>
  The tables of the kernel after a change of the backends of a service: the array has thirty entries, of exactly the backends with a weight, and
  every entry is in the kernel under its index.
\<close>

section \<open>Well-formed services\<close>

definition valid_ip :: "string \<Rightarrow> bool" where
  "valid_ip ip \<longleftrightarrow> is_value (ip_string_to_nbo_uint ip)"

definition ip_num :: "string \<Rightarrow> 32 word" where
  "ip_num ip = (case ip_string_to_nbo_uint ip of Inr a \<Rightarrow> a | Inl _ \<Rightarrow> 0)"

definition serving_ips :: "Service \<Rightarrow> string set" where
  "serving_ips s = {ip. \<exists>b. (ip, b) \<in> set (service_backends s) \<and> sb_weight b \<noteq> 0}"

definition service_ok :: "Service \<Rightarrow> bool" where
  "service_ok s \<longleftrightarrow>
     valid_ip (service_vip s) \<and> distinct (map fst (service_backends s)) \<and> (\<forall>(ip, b) \<in> set (service_backends s). valid_ip ip \<and> sb_ip b = ip) \<and>
     length (service_backends s) \<le> 10 \<and> sorted_wrt (<) (map fst (backend_matrix s)) \<and> matrix_ok 30 (backend_matrix s) \<and>
     live_ips 30 (backend_matrix s) = fst ` set (service_backends s)"

lemma valid_ip_num: "valid_ip ip \<Longrightarrow> ip_string_to_nbo_uint ip = Inr (ip_num ip)"
  by (auto simp: valid_ip_def ip_num_def res_simps)

lemma valid_ip_set: "valid_ip ip \<Longrightarrow> ip \<noteq> unset"
proof -
  have "scan_dotted ''-1'' = None"
    by (simp add: scan_dotted_def scan_hhu_def strtoul_dec_def code_def is_space_def is_digit_def dec_val_def)
  then have "\<not> valid_ip unset" by (simp add: valid_ip_def unset_def ip_string_to_nbo_uint_def get_ip_from_string_def)
  then show "valid_ip ip \<Longrightarrow> ip \<noteq> unset" by blast
qed

lemma vect_size_few: "n \<le> 10 \<Longrightarrow> vect_size n = 30"
  by (simp add: vect_size_def INITIAL_BACKEND_SIZE_def BACKEND_REPLICAS_def)

section \<open>The array\<close>

lemma service_weights_keys:
  assumes "lb_env_ok env"
  shows "mset (map fst (service_weights env s)) = mset (map fst (service_backends s))"
    and "(ip, x) \<in> set (service_weights env s) \<longleftrightarrow> (\<exists>b. (ip, b) \<in> set (service_backends s) \<and> x = uint (sb_weight b))"
proof -
  have perm: "mset (hash_order env (service_backends s)) = mset (service_backends s)" using assms by (simp add: lb_env_ok_def)
  have "map fst (service_weights env s) = map fst (hash_order env (service_backends s))" by (simp add: service_weights_def case_prod_unfold comp_def)
  then show "mset (map fst (service_weights env s)) = mset (map fst (service_backends s))" using perm by (metis mset_map)
  have "set (hash_order env (service_backends s)) = set (service_backends s)" using perm by (metis set_mset_mset)
  then show "(ip, x) \<in> set (service_weights env s) \<longleftrightarrow> (\<exists>b. (ip, b) \<in> set (service_backends s) \<and> x = uint (sb_weight b))"
    by (force simp: service_weights_def)
qed

lemma live_columns: "distinct (map fst cs) \<Longrightarrow> length (filter (\<lambda>(ip, col). live V col) cs) = card (live_ips V cs)"
proof -
  assume d: "distinct (map fst cs)"
  let ?l = "filter (\<lambda>(ip, col). live V col) cs"
  have "live_ips V cs = fst ` set ?l" by (force simp: live_ips_def)
  moreover have "distinct (map fst ?l)" using d by (rule distinct_map_filter)
  ultimately show ?thesis by (metis distinct_card length_map set_map)
qed

text \<open>The shares of a service cover the array, and a backend has a share exactly if it has a weight.\<close>

lemma service_pool:
  assumes env: "lb_env_ok env" and ok: "service_ok s" and some: "serving_ips s \<noteq> {}"
  shows "\<exists>pool. get_weight_backend (length (service_backends s)) (service_weights env s) = Some pool \<and>
    30 \<le> (\<Sum>ip \<in> fst ` set (service_backends s). pool ip) \<and> (\<forall>ip. 0 \<le> pool ip) \<and>
    (\<forall>ip \<in> fst ` set (service_backends s). 0 < pool ip \<longleftrightarrow> ip \<in> serving_ips s)"
proof -
  let ?ws = "service_weights env s" and ?n = "length (service_backends s)" and ?L = "fst ` set (service_backends s)"
  note W = service_weights_keys [OF env, where s = s]
  have V: "vect_size ?n = 30" and dk: "distinct (map fst (service_backends s))" using ok vect_size_few by (auto simp: service_ok_def)
  have d: "distinct (map fst ?ws)" using dk mset_eq_imp_distinct_iff [OF W(1)] by simp
  have keys: "fst ` set ?ws = ?L" using arg_cong [OF W(1), of set_mset] by simp
  obtain ip0 b0 where "(ip0, b0) \<in> set (service_backends s)" "sb_weight b0 \<noteq> 0" using some by (auto simp: serving_ips_def)
  then have "(ip0, uint (sb_weight b0)) \<in> set ?ws" "uint (sb_weight b0) \<noteq> 0" using W(2) by (auto simp: uint_0_iff)
  from get_weight_backend_returns [OF d this, of ?n] obtain pool where pool: "get_weight_backend ?n ?ws = Some pool" "30 \<le> pool_sum ?ws pool" "\<forall>ip. 0 \<le> pool ip"
      "\<forall>(ip, w) \<in> set ?ws. (0 < pool ip) = (w \<noteq> 0)"
    unfolding V by blast
  have "pool_sum ?ws pool = (\<Sum>ip \<in> ?L. pool ip)"
    using d sum.distinct_set_conv_list [of "map fst ?ws" pool] keys by (simp add: pool_sum_def case_prod_unfold comp_def)
  moreover have "0 < pool ip \<longleftrightarrow> ip \<in> serving_ips s" if ip: "ip \<in> ?L" for ip
  proof -
    obtain b where b: "(ip, b) \<in> set (service_backends s)" using ip by auto
    then have "(0 < pool ip) = (uint (sb_weight b) \<noteq> 0)" using pool(4) W(2) by blast
    moreover have "ip \<in> serving_ips s \<longleftrightarrow> sb_weight b \<noteq> 0" using b dk by (auto simp: serving_ips_def dest: eq_key_imp_eq_value)
    ultimately show ?thesis by (simp add: uint_0_iff)
  qed
  ultimately show ?thesis using pool by auto
qed

lemma service_array_ok:
  assumes env: "lb_env_ok env" and ok: "service_ok s" and some: "serving_ips s \<noteq> {}"
  shows "\<exists>arr pool. service_array env s = Some (Inr arr) \<and> length arr = 30 \<and> set arr = serving_ips s \<and>
    get_weight_backend (length (service_backends s)) (service_weights env s) = Some pool \<and>
    (\<forall>ip \<in> serving_ips s. int (count_list arr ip) \<le> pool ip) \<and>
    ((\<Sum>ip \<in> fst ` set (service_backends s). pool ip) = 30 \<longrightarrow> (\<forall>ip \<in> serving_ips s. int (count_list arr ip) = pool ip))"
proof -
  let ?n = "length (service_backends s)" and ?m = "backend_matrix s" and ?L = "live_ips 30 (backend_matrix s)"
  obtain pool where pool: "get_weight_backend ?n (service_weights env s) = Some pool"
      "30 \<le> (\<Sum>ip \<in> fst ` set (service_backends s). pool ip)" "\<forall>ip. 0 \<le> pool ip"
      "\<And>ip. ip \<in> fst ` set (service_backends s) \<Longrightarrow> 0 < pool ip \<longleftrightarrow> ip \<in> serving_ips s"
    using service_pool [OF assms] by blast
  have m: "matrix_ok 30 ?m" and L: "?L = fst ` set (service_backends s)" and len: "?n \<le> 10" using ok by (auto simp: service_ok_def)
  have "int 30 \<le> (\<Sum>ip \<in> ?L. pool ip)" using pool(2) L by simp
  from walk_fills [OF m pool(3) this] obtain st
    where st: "visit_rows 30 [0..<30] ?m \<lparr>final_backend_list = replicate 30 unset, weight_backend_list = pool, walk_count = 0, walk_index = 0\<rparr> = Inr st"
      "length (final_backend_list st) = 30" "set (final_backend_list st) \<subseteq> ?L" "\<forall>ip \<in> ?L. int (count_list (final_backend_list st) ip) \<le> pool ip"
      "(\<Sum>ip \<in> ?L. pool ip) = 30 \<longrightarrow> (\<forall>ip \<in> ?L. int (count_list (final_backend_list st) ip) = pool ip)"
    by auto
  have few: "length (filter (\<lambda>(ip, col). live 30 col) ?m) < 30"
    using live_columns [of ?m 30] m card_image_le [of "set (service_backends s)" fst] card_length [of "service_backends s"] len L by (simp add: matrix_ok_def)
  have sub: "serving_ips s \<subseteq> ?L" by (force simp: serving_ips_def L)
  have "ip \<in> serving_ips s" if ip: "ip \<in> set (final_backend_list st)" for ip
  proof -
    have "ip \<in> ?L" "0 < count_list (final_backend_list st) ip" using ip st(3) count_list_0_iff [of "final_backend_list st" ip] by auto
    then show ?thesis using st(4) pool(4) [of ip] L by force
  qed
  moreover have "ip \<in> set (final_backend_list st)" if "ip \<in> serving_ips s" for ip
    using walk_serves [OF m pool(3) few st(1)] that sub pool(4) L by (metis count_list_0_iff less_irrefl subsetD)
  ultimately have "set (final_backend_list st) = serving_ips s" by blast
  moreover have "service_array env s = Some (Inr (final_backend_list st))"
    using st(1) by (simp add: service_array_def getConsistentArray_def pool(1) vect_size_few [OF len])
  moreover have "\<forall>ip \<in> serving_ips s. int (count_list (final_backend_list st) ip) \<le> pool ip" using st(4) sub by blast
  moreover have "(\<Sum>ip \<in> fst ` set (service_backends s). pool ip) = 30 \<longrightarrow> (\<forall>ip \<in> serving_ips s. int (count_list (final_backend_list st) ip) = pool ip)"
    using st(5) sub L by auto
  ultimately show ?thesis using st(2) pool(1) by (intro exI [of _ "final_backend_list st"] exI [of _ pool] conjI)
qed

section \<open>Writing the array\<close>

definition MAX_SERVICES :: nat where "MAX_SERVICES = 1024"

text \<open>A hash table of the kernel takes an entry if the key is there or the table is not full.\<close>

definition lb_room_ok :: "lb_env \<Rightarrow> bool" where
  "lb_room_ok env \<longleftrightarrow>
     (\<forall>t k. k \<in> dom t \<or> finite (dom t) \<and> card (dom t) < MAX_SERVICES \<longrightarrow> room_services env t k) \<and>
     (\<forall>t k. k \<in> dom t \<or> finite (dom t) \<and> card (dom t) < MAX_SERVICES \<longrightarrow> room_backends env t k)"

abbreviation vkey :: "Service \<Rightarrow> nat \<Rightarrow> vip" where
  "vkey s i \<equiv> service_vip_key s (ip_num (service_vip s)) (of_nat i)"

definition lb_entry_of :: "Service \<Rightarrow> string \<Rightarrow> backend" where
  "lb_entry_of s ip = (case map_of (service_backends s) ip of Some b \<Rightarrow> backend_value s (ip_num ip) b | None \<Rightarrow> backend_value s 0 undefined)"

text \<open>The keys of a service in the two tables, and that they have room.\<close>

definition service_keys :: "Service \<Rightarrow> vip set" where
  "service_keys s = vkey s ` {0..30}"

definition backend_keys :: "Service \<Rightarrow> backend set" where
  "backend_keys s = lb_entry_of s ` fst ` set (service_backends s)"

definition fits :: "Service \<Rightarrow> lb_kernel \<Rightarrow> bool" where
  "fits s kn \<longleftrightarrow>
     finite (dom (services kn)) \<and> card (dom (services kn) \<union> service_keys s) \<le> MAX_SERVICES \<and>
     finite (dom (backend_to_service kn)) \<and> card (dom (backend_to_service kn) \<union> backend_keys s) \<le> MAX_SERVICES"

lemma room_below:
  assumes U: "finite U" "card U \<le> MAX_SERVICES" "dom t \<subseteq> U" "k \<in> U"
  shows "k \<in> dom t \<or> finite (dom t) \<and> card (dom t) < MAX_SERVICES"
proof (cases "k \<in> dom t")
  case False
  then have "dom t \<subset> U" using U by blast
  then show ?thesis using U finite_subset psubset_card_mono by (metis order_less_le_trans psubset_imp_subset)
qed simp

lemma of_nat_16_inj: "m < 65536 \<Longrightarrow> n < 65536 \<Longrightarrow> (of_nat m :: 16 word) = of_nat n \<longleftrightarrow> m = n"
  by (simp add: word_of_nat_eq_iff take_bit_nat_eq_self)

lemma vkey_inj: "m < 65536 \<Longrightarrow> n < 65536 \<Longrightarrow> vkey s m = vkey s n \<longleftrightarrow> m = n"
  by (auto simp: service_vip_key_def of_nat_16_inj)

lemma write_entries_ok:
  assumes room: "lb_room_ok env" and v: "valid_ip (service_vip s)"
    and ips: "\<forall>ip \<in> set arr. \<exists>b. map_of (service_backends s) ip = Some b \<and> sb_ip b = ip \<and> valid_ip ip"
    and n: "n + length arr \<le> 30"
    and U1: "finite U1" "card U1 \<le> MAX_SERVICES" "dom (services kn) \<subseteq> U1" "service_keys s \<subseteq> U1"
    and U2: "finite U2" "card U2 \<le> MAX_SERVICES" "dom (backend_to_service kn) \<subseteq> U2" "backend_keys s \<subseteq> U2"
  shows "\<exists>t b2s. write_entries env s (of_nat n) arr kn = (kn\<lparr>services := t, backend_to_service := b2s\<rparr>, Inr ()) \<and>
    (\<forall>i < length arr. t (vkey s (n + Suc i)) = Some (lb_entry_of s (arr ! i))) \<and>
    (\<forall>k. (\<forall>i < length arr. k \<noteq> vkey s (n + Suc i)) \<longrightarrow> t k = services kn k) \<and> dom t \<subseteq> U1 \<and> dom b2s \<subseteq> U2"
  using ips n U1(3) U2(3)
proof (induction arr arbitrary: n kn)
  case Nil
  then show ?case by (intro exI [of _ "services kn"] exI [of _ "backend_to_service kn"]) simp
next
  case (Cons ip arr)
  let ?k = "vkey s (Suc n)" and ?e = "lb_entry_of s ip"
  obtain b where b: "map_of (service_backends s) ip = Some b" "sb_ip b = ip" "valid_ip ip" using Cons.prems(1) by auto
  have e: "?e = backend_value s (ip_num ip) b" by (simp add: lb_entry_of_def b(1))
  have "?k \<in> service_keys s" unfolding service_keys_def using Cons.prems(2) by (intro imageI) simp
  moreover have "?e \<in> backend_keys s" unfolding backend_keys_def using map_of_SomeD [OF b(1)] by (intro imageI) (auto intro: rev_image_eqI)
  ultimately have mem: "?k \<in> U1" "?e \<in> U2" using U1(4) U2(4) by auto
  define kn1 where "kn1 = kn\<lparr>services := (services kn)(?k \<mapsto> ?e), backend_to_service := (backend_to_service kn)(?e \<mapsto> ?k)\<rparr>"
  have "room_services env (services kn) ?k" "room_backends env (backend_to_service kn) ?e"
    using room room_below [OF U1(1,2) Cons.prems(3) mem(1)] room_below [OF U2(1,2) Cons.prems(4) mem(2)] unfolding lb_room_ok_def by blast+
  then have step: "write_entries env s (of_nat n) (ip # arr) kn = write_entries env s (of_nat (Suc n)) arr kn1"
    using b valid_ip_num [OF v] valid_ip_num [OF b(3)]
    by (simp add: getBackend_def set_services_def set_backend_to_service_def table_set_def kn1_def e add.commute)
  have "\<forall>ip \<in> set arr. \<exists>b. map_of (service_backends s) ip = Some b \<and> sb_ip b = ip \<and> valid_ip ip" "Suc n + length arr \<le> 30"
      "dom (services kn1) \<subseteq> U1" "dom (backend_to_service kn1) \<subseteq> U2"
    using Cons.prems mem by (auto simp: kn1_def)
  from Cons.IH [OF this] obtain t b2s where t: "write_entries env s (of_nat (Suc n)) arr kn1 = (kn1\<lparr>services := t, backend_to_service := b2s\<rparr>, Inr ())"
      "\<forall>i < length arr. t (vkey s (Suc n + Suc i)) = Some (lb_entry_of s (arr ! i))"
      "\<forall>k. (\<forall>i < length arr. k \<noteq> vkey s (Suc n + Suc i)) \<longrightarrow> t k = services kn1 k" "dom t \<subseteq> U1" "dom b2s \<subseteq> U2" by blast
  have "\<forall>i < length arr. ?k \<noteq> vkey s (Suc n + Suc i)" using Cons.prems(2) by (auto simp: vkey_inj simp del: of_nat_Suc of_nat_add)
  then have head: "t ?k = Some ?e" using t(3) by (simp add: kn1_def del: of_nat_Suc of_nat_add)
  have "t (vkey s (n + Suc i)) = Some (lb_entry_of s ((ip # arr) ! i))" if "i < length (ip # arr)" for i
    using that head t(2) by (cases i) (simp_all del: of_nat_Suc of_nat_add)
  moreover have "t k = services kn k" if "\<forall>i < length (ip # arr). k \<noteq> vkey s (n + Suc i)" for k
  proof -
    have "k \<noteq> ?k" "\<forall>i < length arr. k \<noteq> vkey s (Suc n + Suc i)"
      using that spec [OF that, of 0] by (auto simp del: of_nat_Suc of_nat_add)
    then show ?thesis using t(3) by (simp add: kn1_def del: of_nat_Suc of_nat_add)
  qed
  ultimately show ?case using t(1,4,5) unfolding step by (intro exI [of _ t] exI [of _ b2s]) (simp add: kn1_def del: of_nat_Suc of_nat_add)
qed

text \<open>The kernel holds an array of thirty entries of exactly the backends with a weight.\<close>

definition kernel_has :: "Service \<Rightarrow> string list \<Rightarrow> lb_kernel \<Rightarrow> bool" where
  "kernel_has s arr kn \<longleftrightarrow>
     services kn (vkey s 0) = Some \<lparr>bck_ip = ip_num (service_vip s), bck_port = of_nat (length arr), bck_proto = 0\<rparr> \<and>
     (\<forall>i < length arr. services kn (vkey s (Suc i)) = Some (lb_entry_of s (arr ! i)))"

definition synced_service :: "Service \<Rightarrow> lb_kernel \<Rightarrow> bool" where
  "synced_service s kn \<longleftrightarrow> (\<exists>arr. length arr = 30 \<and> set arr = serving_ips s \<and> kernel_has s arr kn)"

definition others_kept :: "Service \<Rightarrow> lb_kernel \<Rightarrow> lb_kernel \<Rightarrow> bool" where
  "others_kept s kn kn' \<longleftrightarrow>
     (\<forall>k. k \<notin> service_keys s \<longrightarrow> services kn' k = services kn k) \<and> hash_session kn' = hash_session kn \<and>
     src_ip_rewrite kn' = src_ip_rewrite kn \<and> ip_to_frontend_port kn' = ip_to_frontend_port kn"

lemma updateKernelServiceMap_ok:
  assumes room: "lb_room_ok env" and ok: "service_ok s" and arr: "length arr = 30" "set arr \<subseteq> fst ` set (service_backends s)" and fits: "fits s kn"
  shows "\<exists>kn'. updateKernelServiceMap env s arr kn = (kn', Inr ()) \<and> kernel_has s arr kn' \<and> others_kept s kn kn'"
proof -
  let ?k = "vkey s 0" and ?e = "\<lparr>bck_ip = ip_num (service_vip s), bck_port = of_nat (length arr), bck_proto = 0\<rparr>"
  let ?U1 = "dom (services kn) \<union> service_keys s" and ?U2 = "dom (backend_to_service kn) \<union> backend_keys s"
  define kn1 where "kn1 = kn\<lparr>services := (services kn)(?k \<mapsto> ?e)\<rparr>"
  have v: "valid_ip (service_vip s)" using ok by (simp add: service_ok_def)
  have U: "finite ?U1" "card ?U1 \<le> MAX_SERVICES" "finite ?U2" "card ?U2 \<le> MAX_SERVICES"
    using fits by (auto simp: fits_def service_keys_def backend_keys_def)
  have mem: "?k \<in> service_keys s" unfolding service_keys_def by (intro imageI) simp
  then have "room_services env (services kn) ?k" using room room_below [OF U(1,2), of "services kn" ?k] unfolding lb_room_ok_def by blast
  then have step: "updateKernelServiceMap env s arr kn = write_entries env s (of_nat 0) arr kn1"
    using valid_ip_num [OF v] by (simp add: updateKernelServiceMap_def set_services_def table_set_def kn1_def)
  have "\<forall>ip \<in> set arr. \<exists>b. map_of (service_backends s) ip = Some b \<and> sb_ip b = ip \<and> valid_ip ip"
  proof
    fix ip assume "ip \<in> set arr"
    then obtain b where b: "(ip, b) \<in> set (service_backends s)" using arr(2) by auto
    then have "map_of (service_backends s) ip = Some b" "sb_ip b = ip" "valid_ip ip" using ok by (auto simp: service_ok_def)
    then show "\<exists>b. map_of (service_backends s) ip = Some b \<and> sb_ip b = ip \<and> valid_ip ip" by blast
  qed
  moreover have "dom (services kn1) \<subseteq> ?U1" "dom (backend_to_service kn1) \<subseteq> ?U2" using mem by (auto simp: kn1_def)
  ultimately obtain t b2s where t: "write_entries env s (of_nat 0) arr kn1 = (kn1\<lparr>services := t, backend_to_service := b2s\<rparr>, Inr ())"
      "\<forall>i < length arr. t (vkey s (0 + Suc i)) = Some (lb_entry_of s (arr ! i))"
      "\<forall>k. (\<forall>i < length arr. k \<noteq> vkey s (0 + Suc i)) \<longrightarrow> t k = services kn1 k"
    using write_entries_ok [OF room v, of arr 0 ?U1 kn1 ?U2] U arr(1) by auto
  have "?k \<noteq> vkey s (0 + Suc i)" if "i < length arr" for i using vkey_inj [of 0 "0 + Suc i" s] that arr(1) by (simp del: of_nat_Suc)
  then have "t ?k = Some ?e" using t(3) by (simp add: kn1_def)
  moreover have "t k = services kn k" if k: "k \<notin> service_keys s" for k
  proof -
    have ne: "k \<noteq> vkey s i" if "i \<le> 30" for i using k that unfolding service_keys_def by (auto simp del: of_nat_Suc)
    have "k \<noteq> ?k" by (rule ne) simp
    moreover have "\<forall>i < length arr. k \<noteq> vkey s (0 + Suc i)" unfolding arr(1) by (intro allI impI ne) simp
    ultimately show ?thesis using t(3) by (simp add: kn1_def)
  qed
  ultimately show ?thesis unfolding step t(1)
    by (intro exI [of _ "kn1\<lparr>services := t, backend_to_service := b2s\<rparr>"]) (use t(2) in \<open>simp add: kernel_has_def others_kept_def kn1_def\<close>)
qed

lemma updateConsistentHashMap_ok:
  assumes "lb_env_ok env" "lb_room_ok env" "service_ok s" "serving_ips s \<noteq> {}" "fits s (lb_kn w)"
  shows "\<exists>kn'. updateConsistentHashMap env (s, w) = Some ((s, w\<lparr>lb_kn := kn'\<rparr>), Inr ()) \<and> synced_service s kn' \<and> others_kept s (lb_kn w) kn'"
proof -
  obtain arr where arr: "service_array env s = Some (Inr arr)" "length arr = 30" "set arr = serving_ips s"
    using service_array_ok [OF assms(1,3,4)] by blast
  have "set arr \<subseteq> fst ` set (service_backends s)" unfolding arr(3) by (force simp: serving_ips_def)
  from updateKernelServiceMap_ok [OF assms(2,3) arr(2) this assms(5)] show ?thesis
    using arr by (auto simp: updateConsistentHashMap_def in_kernel_def synced_service_def)
qed

section \<open>The operations\<close>

lemma matrix_put_spec:
  assumes "sorted_wrt (<) (map fst m)"
  shows "set (matrix_put k v m) = insert (k, v) {(k', v') \<in> set m. k' \<noteq> k} \<and> sorted_wrt (<) (map fst (matrix_put k v m))"
  using assms
proof (induction m)
  case (Cons a m)
  obtain k' v' where a: "a = (k', v')" by fastforce
  have lt: "\<forall>x \<in> set m. k' < fst x" using Cons.prems by (auto simp: a)
  consider "k = k'" | "k < k'" | "k' < k" using less_linear by blast
  then show ?case
  proof cases
    case 3
    then show ?thesis using Cons lt by (auto simp: a)
  qed (use Cons.prems lt in \<open>auto simp: a\<close>)
qed simp

lemma random_live: "lb_env_ok env \<Longrightarrow> live 30 (getRandomIntVector env n 30)"
proof -
  assume "lb_env_ok env"
  then have perm: "mset (getRandomIntVector env n 30) = mset (map int [0..<30])" unfolding getRandomIntVector_def lb_env_ok_def by simp
  have "distinct (map int [0..<30])" "set (map int [0..<30]) = {0..<int 30}" by (simp_all add: distinct_map image_int_atLeastLessThan del: upt_rec_numeral lessThan_atLeast0)
  then show ?thesis using perm unfolding live_def by (metis mset_eq_imp_distinct_iff mset_eq_setD)
qed

text \<open>A column set in the matrix.\<close>

lemma matrix_put_ok:
  assumes m: "sorted_wrt (<) (map fst m)" "matrix_ok 30 m" and ip: "ip \<noteq> unset" and col: "live 30 col \<or> dead 30 col"
  shows "sorted_wrt (<) (map fst (matrix_put ip col m))" "matrix_ok 30 (matrix_put ip col m)"
    "live_ips 30 (matrix_put ip col m) = (if live 30 col then insert ip (live_ips 30 m) else live_ips 30 m - {ip})"
proof -
  note S = matrix_put_spec [OF m(1), of ip col]
  show "sorted_wrt (<) (map fst (matrix_put ip col m))" using S by simp
  then have "distinct (map fst (matrix_put ip col m))" by (simp add: strict_sorted_iff)
  then show "matrix_ok 30 (matrix_put ip col m)" using S m(2) ip col unfolding matrix_ok_def by auto
  show "live_ips 30 (matrix_put ip col m) = (if live 30 col then insert ip (live_ips 30 m) else live_ips 30 m - {ip})"
    using S by (auto simp: live_ips_def)
qed

lemma not_both: "dead 30 col \<Longrightarrow> \<not> live 30 col"
  unfolding dead_def live_def using distinct_card [of col] by auto

lemma service_okI:
  assumes "service_backends s = bs" "backend_matrix s = m" "valid_ip (service_vip s)" "distinct (map fst bs)"
    "\<forall>(ip, b) \<in> set bs. valid_ip ip \<and> sb_ip b = ip" "length bs \<le> 10" "sorted_wrt (<) (map fst m)" "matrix_ok 30 m" "live_ips 30 m = fst ` set bs"
  shows "service_ok s"
  unfolding service_ok_def assms(1,2) using assms(3-) by blast

lemma service_okD:
  assumes "service_ok s"
  shows "valid_ip (service_vip s)" "distinct (map fst (service_backends s))" "\<forall>(ip, b) \<in> set (service_backends s). valid_ip ip \<and> sb_ip b = ip"
    "length (service_backends s) \<le> 10" "sorted_wrt (<) (map fst (backend_matrix s))" "matrix_ok 30 (backend_matrix s)"
    "live_ips 30 (backend_matrix s) = fst ` set (service_backends s)"
  using assms unfolding service_ok_def by blast+

lemma new_service_ok:
  assumes env: "lb_env_ok env" and ok: "service_ok s" and ip: "valid_ip ip" "ip \<notin> fst ` set (service_backends s)" "sb_ip b = ip"
    and len: "length (service_backends s) < 10"
  shows "service_ok (fst (addBackendToServiceMatrix env ip (s\<lparr>service_backends := service_backends s @ [(ip, b)]\<rparr>, w)))"
proof -
  let ?s = "s\<lparr>service_backends := service_backends s @ [(ip, b)]\<rparr>"
  have V: "service_vect_size ?s = 30" using len vect_size_few [of "Suc (length (service_backends s))"] by (simp add: service_vect_size_def)
  let ?m = "matrix_put ip (getRandomIntVector env (draws w) 30) (backend_matrix s)"
  have new: "fst (addBackendToServiceMatrix env ip (?s, w)) = ?s\<lparr>backend_matrix := ?m\<rparr>" using V by (simp add: addBackendToServiceMatrix_def)
  note D = service_okD [OF ok]
  note P = matrix_put_ok [OF D(5,6) valid_ip_set [OF ip(1)] disjI1 [OF random_live [OF env]], of "draws w"]
  show ?thesis unfolding new
  proof (rule service_okI [OF _ _ _ _ _ _ P(1,2)])
    show "live_ips 30 ?m = fst ` set (service_backends s @ [(ip, b)])" unfolding P(3) D(7) using random_live [OF env, of "draws w"] by simp
  qed (use D(1-4) ip len in auto)
qed

lemma rest_service_ok:
  assumes ok: "service_ok s" and ip: "ip \<in> fst ` set (service_backends s)"
  shows "service_ok (removeBackendFromServiceMatrix ip (s\<lparr>service_backends := filter (\<lambda>(i, b). i \<noteq> ip) (service_backends s)\<rparr>))"
proof -
  let ?bs = "filter (\<lambda>(i, b). i \<noteq> ip) (service_backends s)" and ?m = "matrix_put ip (getEmptyIntVector 30) (backend_matrix s)"
  note D = service_okD [OF ok]
  have len: "length ?bs \<le> 10" using D(4) length_filter_le order.trans by blast
  then have "service_vect_size (s\<lparr>service_backends := ?bs\<rparr>) = 30" using vect_size_few by (simp add: service_vect_size_def)
  then have rest: "removeBackendFromServiceMatrix ip (s\<lparr>service_backends := ?bs\<rparr>) = s\<lparr>service_backends := ?bs, backend_matrix := ?m\<rparr>"
    by (simp add: removeBackendFromServiceMatrix_def)
  have v: "ip \<noteq> unset" using D(3) ip valid_ip_set by auto
  have d: "dead 30 (getEmptyIntVector 30)" by (simp add: dead_def getEmptyIntVector_def)
  note P = matrix_put_ok [OF D(5,6) v disjI2 [OF d]]
  show ?thesis unfolding rest
  proof (rule service_okI [OF _ _ _ _ _ len P(1,2)])
    have "fst ` set ?bs = fst ` set (service_backends s) - {ip}" by force
    then show "live_ips 30 ?m = fst ` set ?bs" unfolding P(3) D(7) using not_both [OF d] by simp
  qed (use D(1-3) in \<open>auto simp: distinct_map_filter\<close>)
qed

definition room_for_one :: "Service \<Rightarrow> lb_kernel \<Rightarrow> bool" where
  "room_for_one s kn \<longleftrightarrow>
     finite (dom (services kn)) \<and> card (dom (services kn) \<union> service_keys s) \<le> MAX_SERVICES \<and>
     finite (dom (backend_to_service kn)) \<and> card (dom (backend_to_service kn) \<union> backend_keys s) < MAX_SERVICES"

lemma entry_of_cong:
  assumes "map_of (service_backends s') ip = map_of (service_backends s) ip" "service_proto s' = service_proto s"
  shows "lb_entry_of s' ip = lb_entry_of s ip"
  using assms by (simp add: lb_entry_of_def backend_value_def split: option.splits)

lemma fits_added:
  assumes r: "room_for_one s kn" and new: "service_backends s' = service_backends s @ [(ip, b)]" "ip \<notin> fst ` set (service_backends s)"
    and same: "service_vip s' = service_vip s" "service_vport s' = service_vport s" "service_proto s' = service_proto s"
  shows "fits s' kn"
proof -
  have keys: "service_keys s' = service_keys s" using same by (simp add: service_keys_def service_vip_key_def)
  have "map_of (service_backends s @ [(ip, b)]) i = map_of (service_backends s) i" if "i \<in> fst ` set (service_backends s)" for i
    using that new(2) by (auto simp: map_add_def split: option.splits)
  then have "lb_entry_of s' i = lb_entry_of s i" if "i \<in> fst ` set (service_backends s)" for i using that entry_of_cong [of s' i s] new(1) same(3) by simp
  then have bk: "backend_keys s' = insert (lb_entry_of s' ip) (backend_keys s)" using new(1) by (auto simp: backend_keys_def)
  have "card (dom (backend_to_service kn) \<union> backend_keys s') \<le> Suc (card (dom (backend_to_service kn) \<union> backend_keys s))"
    unfolding bk Un_insert_right using r by (intro card_insert_le_m1) (auto simp: room_for_one_def backend_keys_def)
  then show ?thesis using r keys by (auto simp: fits_def room_for_one_def)
qed

lemma fits_removed:
  assumes f: "fits s kn" and rest: "service_backends s' = filter (\<lambda>(i, b). i \<noteq> ip) (service_backends s)"
    and same: "service_vip s' = service_vip s" "service_vport s' = service_vport s" "service_proto s' = service_proto s"
  shows "fits s' kn"
proof -
  have keys: "service_keys s' = service_keys s" using same by (simp add: service_keys_def service_vip_key_def)
  have "map_of (filter (\<lambda>(i, b). i \<noteq> ip) bs) i = map_of bs i" if "i \<noteq> ip" for i and bs :: "(string \<times> ServiceBackend) list"
    using that by (induction bs) auto
  then have "lb_entry_of s' i = lb_entry_of s i" if "i \<noteq> ip" for i using that entry_of_cong [of s' i s] rest same(3) by simp
  then have "backend_keys s' \<subseteq> backend_keys s" using rest by (force simp: backend_keys_def)
  then have "card (dom (backend_to_service kn) \<union> backend_keys s') \<le> card (dom (backend_to_service kn) \<union> backend_keys s)"
    using f by (intro card_mono) (auto simp: fits_def backend_keys_def)
  then show ?thesis using f keys by (auto simp: fits_def)
qed

text \<open>After adding a backend, and after deleting one that is not the last with a weight, the kernel holds the array of the new backends.\<close>

lemma addBackend_syncs:
  assumes env: "lb_env_ok env" "lb_room_ok env" and ok: "service_ok s" and ip: "valid_ip (bj_ip conf)" "bj_ip conf \<notin> fst ` set (service_backends s)"
    and len: "length (service_backends s) < 10" and b: "ServiceBackend_new loc conf = Inr b" and some: "sb_weight b \<noteq> 0 \<or> serving_ips s \<noteq> {}"
    and r: "room_for_one s (lb_kn w)"
  shows "\<exists>s' w'. addBackend env loc (bj_ip conf) conf (s, w) = Some ((s', w'), Inr ()) \<and>
    service_backends s' = service_backends s @ [(bj_ip conf, b)] \<and> service_ok s' \<and> synced_service s' (lb_kn w') \<and> others_kept s (lb_kn w) (lb_kn w')"
proof -
  let ?ip = "bj_ip conf"
  obtain s' w1 where sw: "addBackendToServiceMatrix env ?ip (s\<lparr>service_backends := service_backends s @ [(?ip, b)]\<rparr>, w) = (s', w1)" by fastforce
  then have s': "service_backends s' = service_backends s @ [(?ip, b)]" "service_vip s' = service_vip s" "service_vport s' = service_vport s"
      "service_proto s' = service_proto s" "lb_kn w1 = lb_kn w" by (auto simp: addBackendToServiceMatrix_def)
  have "sb_ip b = ?ip" using b by (auto simp: ServiceBackend_new_def split: option.splits)
  then have ok': "service_ok s'" using new_service_ok [OF env(1) ok ip _ len, of b w] sw by simp
  have "serving_ips s' \<noteq> {}" using some s'(1) by (auto simp: serving_ips_def)
  moreover have "fits s' (lb_kn w1)" using fits_added [OF r s'(1) ip(2)] s' by simp
  ultimately obtain kn' where kn': "updateConsistentHashMap env (s', w1) = Some ((s', w1\<lparr>lb_kn := kn'\<rparr>), Inr ())" "synced_service s' kn'"
      "others_kept s' (lb_kn w1) kn'"
    using updateConsistentHashMap_ok [OF env ok'] by blast
  have new: "map_of (service_backends s) ?ip = None" using ip(2) by (simp add: map_of_eq_None_iff)
  have "(case bj_weight conf of Some x \<Rightarrow> x < 1 \<and> x \<noteq> 0 | None \<Rightarrow> False) = False" by (auto simp: word_less_1 split: option.splits)
  then have "addBackend env loc ?ip conf (s, w) = updateConsistentHashMap env (s', w1)" using new b sw by (simp add: addBackend_def)
  moreover have "others_kept s (lb_kn w) kn'" using kn'(3) s' by (simp add: others_kept_def service_keys_def service_vip_key_def)
  ultimately show ?thesis using kn' s'(1) ok' by (intro exI [of _ s'] exI [of _ "w1\<lparr>lb_kn := kn'\<rparr>"]) simp
qed

lemma delBackend_syncs:
  assumes env: "lb_env_ok env" "lb_room_ok env" and ok: "service_ok s" and ip: "ip \<in> fst ` set (service_backends s)"
    and some: "serving_ips s - {ip} \<noteq> {}" and f: "fits s (lb_kn w)"
  shows "\<exists>s' w'. delBackend env ip (s, w) = Some ((s', w'), Inr ()) \<and>
    service_backends s' = filter (\<lambda>(i, b). i \<noteq> ip) (service_backends s) \<and> service_ok s' \<and> synced_service s' (lb_kn w') \<and>
    others_kept s (lb_kn w) (lb_kn w')"
proof -
  define s' where "s' = removeBackendFromServiceMatrix ip (s\<lparr>service_backends := filter (\<lambda>(i, b). i \<noteq> ip) (service_backends s)\<rparr>)"
  have s': "service_backends s' = filter (\<lambda>(i, b). i \<noteq> ip) (service_backends s)" "service_vip s' = service_vip s" "service_vport s' = service_vport s"
      "service_proto s' = service_proto s" by (auto simp: s'_def removeBackendFromServiceMatrix_def)
  have ok': "service_ok s'" unfolding s'_def by (rule rest_service_ok [OF ok ip])
  have serving_ips: "serving_ips s' = serving_ips s - {ip}" using s'(1) by (auto simp: serving_ips_def)
  then have ne: "service_backends s' \<noteq> []" using some by (auto simp: serving_ips_def)
  obtain kn' where kn': "updateConsistentHashMap env (s', w) = Some ((s', w\<lparr>lb_kn := kn'\<rparr>), Inr ())" "synced_service s' kn'"
      "others_kept s' (lb_kn w) kn'"
    using updateConsistentHashMap_ok [OF env ok' _ fits_removed [OF f s']] some serving_ips by auto
  obtain b where "map_of (service_backends s) ip = Some b" using ip by (metis map_of_eq_None_iff not_None_eq)
  then have "delBackend env ip (s, w) = updateConsistentHashMap env (s', w)" using ne unfolding delBackend_def s'_def by (simp add: Let_def)
  moreover have "others_kept s (lb_kn w) kn'" using kn'(3) s' by (simp add: others_kept_def service_keys_def service_vip_key_def)
  ultimately show ?thesis using kn' s'(1) ok' by (intro exI [of _ s'] exI [of _ "w\<lparr>lb_kn := kn'\<rparr>"]) simp
qed

end
