(* ===== verification/Lb_Flow.thy ===== *)
theory Lb_Flow
  imports Lb_Sync Nat_Sessions
begin

text \<open>
  Packets through the load balancer: what a synchronised service does with the packets of its clients, and that the answers of the backends get the
  address of the service, over histories of frames with evictions from the session table.
\<close>

section \<open>Histories\<close>

text \<open>Frames arrive at ports; an entry of the session table, which is of the least-recently-used kind, may be evicted at any time.\<close>

datatype lb_event = Arrive "16 word" frame | Evict "32 word"

definition outcome_kernel :: "lb_outcome \<Rightarrow> lb_kernel" where
  "outcome_kernel = (\<lambda>(v, f, cs, kn). kn)"

fun lb_step :: "lb_params \<Rightarrow> lb_program \<Rightarrow> lb_event \<Rightarrow> lb_kernel \<Rightarrow> lb_kernel" where
  "lb_step ps pg (Arrive port f) kn = outcome_kernel (Lbrp_rx ps pg port f kn)"
| "lb_step ps pg (Evict h) kn = kn\<lparr>hash_session := (hash_session kn)(h := None)\<rparr>"

definition lb_history :: "lb_params \<Rightarrow> lb_program \<Rightarrow> lb_event list \<Rightarrow> lb_kernel \<Rightarrow> lb_kernel" where
  "lb_history ps pg evs kn = fold (lb_step ps pg) evs kn"

text \<open>The entry of the session table that a frame writes, if it writes one.\<close>

definition frame_session :: "frame \<Rightarrow> lb_ports \<Rightarrow> sessions" where
  "frame_session f p = session_key (u32_at f 26) (u32_at f 30) (l4_source p) (l4_dest p) (proto_nbo (l4_proto p))"

definition session_claim :: "lb_params \<Rightarrow> lb_program \<Rightarrow> 16 word \<Rightarrow> frame \<Rightarrow> lb_kernel \<Rightarrow> (32 word \<times> vip) option" where
  "session_claim ps pg port f kn =
     (case lb_parse f of
        LbIp p \<Rightarrow>
          (let k = frame_session f p
           in if port = BACKEND_PORT pg then None
              else case services kn (service_index k 0) of
                     None \<Rightarrow> None
                   | Some pool \<Rightarrow>
                       (case get_bck_ip ps k (bck_port pool) kn of
                          (None, _) \<Rightarrow> None
                        | (Some b, _) \<Rightarrow>
                            if rewrite_lookup ps (src_ip_rewrite kn) (ses_ip_dst k) = None
                            then Some (jhash ps (translated_key k b), service_index k 0) else None))
      | _ \<Rightarrow> None)"

text \<open>No event takes the entry \<open>h\<close> away or gives it to another service.\<close>

fun undisturbed :: "lb_params \<Rightarrow> lb_program \<Rightarrow> 32 word \<Rightarrow> vip \<Rightarrow> lb_event list \<Rightarrow> lb_kernel \<Rightarrow> bool" where
  "undisturbed ps pg h v [] kn = True"
| "undisturbed ps pg h v (Evict h' # evs) kn = (h' \<noteq> h \<and> undisturbed ps pg h v evs (lb_step ps pg (Evict h') kn))"
| "undisturbed ps pg h v (Arrive port f # evs) kn =
     ((case session_claim ps pg port f kn of Some (h', v') \<Rightarrow> h' = h \<longrightarrow> v' = v | None \<Rightarrow> True) \<and>
      undisturbed ps pg h v evs (lb_step ps pg (Arrive port f) kn))"

definition with_sessions :: "(32 word \<rightharpoonup> vip) \<Rightarrow> lb_kernel \<Rightarrow> lb_kernel" where
  "with_sessions t kn = kn\<lparr>hash_session := t\<rparr>"

lemma get_bck_ip_kernel:
  "snd (get_bck_ip ps k n kn) =
    (case fst (get_bck_ip ps k n kn) of
       None \<Rightarrow> kn
     | Some b \<Rightarrow> if rewrite_lookup ps (src_ip_rewrite kn) (ses_ip_dst k) = None
                then with_sessions ((hash_session kn)(jhash ps (translated_key k b) \<mapsto> service_index k 0)) kn else kn)"
  by (auto simp: get_bck_ip_def with_sessions_def split: option.splits)

lemma outcome_kernel_simps [simp]: "outcome_kernel (v, f, cs, kn) = kn"
  by (simp add: outcome_kernel_def)

lemma lb_backend_kernel: "outcome_kernel (lb_backend ps pg f p kn) = kn"
  by (simp add: lb_backend_def Let_def split: lb_lookup.splits lb_verdict.splits)

lemma lb_arp_kernel: "outcome_kernel (lb_arp ps pg port f kn) = kn"
  by (simp add: lb_arp_def Let_def)

lemma lb_frontend_kernel:
  "outcome_kernel (lb_frontend ps pg f p kn) =
    (case services kn (service_index (frame_session f p) 0) of
       None \<Rightarrow> kn
     | Some pool \<Rightarrow> snd (get_bck_ip ps (frame_session f p) (bck_port pool) kn))"
  by (simp add: lb_frontend_def frame_session_def Let_def split: option.splits prod.splits)

text \<open>Frames and evictions change the session table only, and a frame only the entry it writes.\<close>

lemma Lbrp_rx_kernel:
  "lb_step ps pg (Arrive port f) kn =
    (case session_claim ps pg port f kn of None \<Rightarrow> kn | Some (h, v) \<Rightarrow> with_sessions ((hash_session kn)(h \<mapsto> v)) kn)"
proof (cases "lb_parse f")
  case (LbIp p)
  show ?thesis
  proof (cases "port = BACKEND_PORT pg \<or> services kn (service_index (frame_session f p) 0) = None")
    case True
    then show ?thesis using LbIp by (auto simp: Lbrp_rx_def session_claim_def lb_backend_kernel lb_frontend_kernel Let_def)
  next
    case False
    then obtain pool where pool: "port \<noteq> BACKEND_PORT pg" "services kn (service_index (frame_session f p) 0) = Some pool" by blast
    obtain r kn' where r: "get_bck_ip ps (frame_session f p) (bck_port pool) kn = (r, kn')" by fastforce
    show ?thesis using LbIp pool r get_bck_ip_kernel [of ps "frame_session f p" "bck_port pool" kn]
      by (cases r) (simp_all add: Lbrp_rx_def session_claim_def lb_frontend_kernel Let_def)
  qed
qed (simp_all add: Lbrp_rx_def session_claim_def lb_arp_kernel)

lemma lb_step_kernel: "\<exists>t. lb_step ps pg ev kn = with_sessions t kn"
proof (cases ev)
  case (Arrive port f)
  then show ?thesis unfolding Arrive Lbrp_rx_kernel
    by (cases "session_claim ps pg port f kn") (auto simp: with_sessions_def intro: exI [of _ "hash_session kn"])
next
  case (Evict h)
  then show ?thesis by (auto simp: with_sessions_def)
qed

lemma lb_history_kernel: "\<exists>t. lb_history ps pg evs kn = with_sessions t kn"
proof (induction evs arbitrary: kn)
  case Nil
  then show ?case by (auto simp: lb_history_def with_sessions_def intro: exI [of _ "hash_session kn"])
next
  case (Cons ev evs)
  obtain t where t: "lb_step ps pg ev kn = with_sessions t kn" using lb_step_kernel by blast
  obtain t' where "lb_history ps pg evs (with_sessions t kn) = with_sessions t' (with_sessions t kn)" using Cons.IH by blast
  then show ?case using t by (auto simp: lb_history_def with_sessions_def)
qed

lemma undisturbed_keeps:
  "undisturbed ps pg h v evs kn \<Longrightarrow> hash_session kn h = Some v \<Longrightarrow> hash_session (lb_history ps pg evs kn) h = Some v"
proof (induction ps pg h v evs kn rule: undisturbed.induct)
  case (3 ps pg h v port f evs kn)
  let ?kn = "lb_step ps pg (Arrive port f) kn"
  have "hash_session ?kn h = Some v" using "3.prems" unfolding Lbrp_rx_kernel
    by (auto simp: with_sessions_def split: option.splits prod.splits)
  then show ?case using "3.IH" "3.prems"(1) by (simp add: lb_history_def)
qed (auto simp: lb_history_def)

section \<open>From the client to a backend\<close>

definition to_service :: "Service \<Rightarrow> sessions \<Rightarrow> bool" where
  "to_service s k \<longleftrightarrow> ses_ip_dst k = ip_num (service_vip s) \<and> ses_port_dst k = ntohs (service_vport s) \<and>
     ses_proto k = proto_nbo (convertProtoToNumber (service_proto s))"

lemma to_service_index: "to_service s k \<Longrightarrow> service_index k i = service_vip_key s (ip_num (service_vip s)) i"
  by (simp add: to_service_def service_index_def service_vip_key_def)

lemma no_rewrite: "lb_params_ok ps \<Longrightarrow> src_ip_rewrite kn = Map.empty \<Longrightarrow> rewrite_lookup ps (src_ip_rewrite kn) a = None"
  unfolding lb_params_ok_def by (metis empty_iff not_None_eq ran_empty)

lemma backend_id_30: "backend_id ps k 30 = of_nat (Suc (unat (jhash ps k) mod 30))"
proof -
  let ?n = "unat (jhash ps k) mod 30"
  have e: "jhash ps k mod 30 + 1 = of_nat (Suc ?n)" by (simp add: word_arith_nat_mod)
  have "Suc ?n < 2 ^ 16" "Suc ?n < 2 ^ 32" by (simp_all add: less_Suc_eq_le Suc_le_eq order_less_le_trans [OF mod_less_divisor])
  then have "(ucast (of_nat (Suc ?n) :: 32 word) :: 16 word) = of_nat (Suc ?n)"
    by (simp add: unsigned_of_nat take_bit_nat_eq_self del: of_nat_Suc)
  then show ?thesis by (simp add: backend_id_def e del: of_nat_Suc)
qed

lemma get_bck_ip_synced:
  assumes "kernel_has s arr kn" "length arr = 30" "to_service s k" "rewrite_lookup ps (src_ip_rewrite kn) (ses_ip_dst k) = None"
  shows "get_bck_ip ps k 30 kn =
    (Some (lb_entry_of s (arr ! (unat (jhash ps k) mod 30))),
     with_sessions ((hash_session kn)(jhash ps (translated_key k (lb_entry_of s (arr ! (unat (jhash ps k) mod 30)))) \<mapsto> vkey s 0)) kn)"
proof -
  have "services kn (service_index k (backend_id ps k 30)) = Some (lb_entry_of s (arr ! (unat (jhash ps k) mod 30)))"
    using assms(1,2) unfolding backend_id_30 to_service_index [OF assms(3)] kernel_has_def by simp
  then show ?thesis using assms(4) by (simp add: get_bck_ip_def with_sessions_def to_service_index [OF assms(3)])
qed

lemma parse_length: "lb_parse f = LbIp p \<Longrightarrow> 42 \<le> length f \<and> (l4_proto p = 1 \<or> l4_proto p = UDP8 \<or> l4_proto p = TCP8)"
  by (auto simp: lb_parse_def lb_parse_ip_def split: if_splits)

lemma l4csum_icmp: "l4_proto p = 1 \<or> l4_proto p = UDP8 \<or> l4_proto p = TCP8 \<Longrightarrow> l4csum_offset (l4_proto p) = ICMP_CSUM_OFFSET \<longleftrightarrow> l4_proto p = 1"
  by (auto simp: l4csum_offset_def TCP_CSUM_OFFSET_def UDP_CSUM_OFFSET_def ICMP_CSUM_OFFSET_def TCP8_def UDP8_def)

definition sent_to :: "lb_program \<Rightarrow> frame \<Rightarrow> lb_ports \<Rightarrow> backend \<Rightarrow> lb_verdict \<Rightarrow> frame \<Rightarrow> bool" where
  "sent_to pg f p b v g \<longleftrightarrow> v = LB_REDIRECT (BACKEND_PORT pg) \<and> u32_at g 30 = bck_ip b \<and> u32_at g 26 = u32_at f 26 \<and>
     (l4_proto p \<noteq> 1 \<longrightarrow> u16_at g 36 = bck_port b \<and> u16_at g 34 = u16_at f 34)"

lemma lb_frontend_synced:
  assumes has: "kernel_has s arr kn" "length arr = 30" and to: "to_service s (frame_session f p)" and ps: "lb_params_ok ps" "src_ip_rewrite kn = Map.empty"
    and f: "lb_parse f = LbIp p" "port \<noteq> BACKEND_PORT pg"
  shows "\<exists>v g cs. Lbrp_rx ps pg port f kn = (v, g, cs,
      with_sessions ((hash_session kn)(jhash ps (translated_key (frame_session f p) (lb_entry_of s (arr ! (unat (jhash ps (frame_session f p)) mod 30)))) \<mapsto> vkey s 0)) kn) \<and>
    sent_to pg f p (lb_entry_of s (arr ! (unat (jhash ps (frame_session f p)) mod 30))) v g"
proof -
  let ?k = "frame_session f p"
  let ?b = "lb_entry_of s (arr ! (unat (jhash ps ?k) mod 30))"
  have rw: "rewrite_lookup ps (src_ip_rewrite kn) a = None" for a by (rule no_rewrite [OF ps])
  have k0: "services kn (service_index ?k 0) = Some \<lparr>bck_ip = ip_num (service_vip s), bck_port = 30, bck_proto = 0\<rparr>"
    using has to_service_index [OF to] by (simp add: kernel_has_def)
  note G = get_bck_ip_synced [OF has to rw]
  have src: "lb_frontend_src ps (with_sessions t kn) a = (a, 0)" for t a using rw [of a] by (simp add: lb_frontend_src_def with_sessions_def)
  have key: "session_key (u32_at f 26) (u32_at f 30) (l4_source p) (l4_dest p) (proto_nbo (l4_proto p)) = ?k" "ses_ip_src ?k = u32_at f 26"
    by (simp_all add: frame_session_def session_key_def)
  let ?g = "store_u32 (store_u32 f 30 (bck_ip ?b)) 26 (u32_at f 26)"
  let ?kn = "with_sessions ((hash_session kn)(jhash ps (translated_key ?k ?b) \<mapsto> vkey s 0)) kn"
  have run: "Lbrp_rx ps pg port f kn =
      (if l4csum_offset (l4_proto p) = ICMP_CSUM_OFFSET
       then (LB_REDIRECT (BACKEND_PORT pg), ?g, [L3_csum_replace IP_CSUM_OFFSET (ses_ip_dst ?k) (bck_ip ?b)], ?kn)
       else (LB_REDIRECT (BACKEND_PORT pg), store_u16 ?g 36 (bck_port ?b),
         checksum (l4_dest p) (bck_port ?b) (ses_ip_dst ?k) (bck_ip ?b) (u32_at f 26) 0 (l4csum_offset (l4_proto p)), ?kn))"
    using f k0 G src key by (simp add: Lbrp_rx_def lb_frontend_def Let_def)
  have len: "42 \<le> length f" and icmp: "l4csum_offset (l4_proto p) = ICMP_CSUM_OFFSET \<longleftrightarrow> l4_proto p = 1"
    using parse_length [OF f(1)] l4csum_icmp by auto
  show ?thesis unfolding run icmp using len
    by (cases "l4_proto p = 1") (simp_all add: sent_to_def u32_at_other u16_at_other)
qed

lemma with_sessions_simps [simp]:
  "services (with_sessions t kn) = services kn" "src_ip_rewrite (with_sessions t kn) = src_ip_rewrite kn"
  "ip_to_frontend_port (with_sessions t kn) = ip_to_frontend_port kn" "hash_session (with_sessions t kn) = t"
  "backend_to_service (with_sessions t kn) = backend_to_service kn"
  by (simp_all add: with_sessions_def)

lemma history_tables:
  "services (lb_history ps pg evs kn) = services kn" "src_ip_rewrite (lb_history ps pg evs kn) = src_ip_rewrite kn"
  "ip_to_frontend_port (lb_history ps pg evs kn) = ip_to_frontend_port kn"
  using lb_history_kernel [of ps pg evs kn] by auto

section \<open>From the backend to the client\<close>

definition answers :: "frame \<Rightarrow> lb_ports \<Rightarrow> backend \<Rightarrow> frame \<Rightarrow> lb_ports \<Rightarrow> bool" where
  "answers f p b g q \<longleftrightarrow> u32_at g 26 = bck_ip b \<and> u32_at g 30 = u32_at f 26 \<and> l4_proto q = l4_proto p \<and>
     (if l4_proto p = 1 then l4_source q = l4_source p else l4_source q = bck_port b \<and> l4_dest q = l4_source p)"

lemma proto_nbo_inj [simp]: "proto_nbo a = proto_nbo b \<longleftrightarrow> a = b"
proof -
  have "ucast (ucast a :: 16 word) = a" for a :: "8 word" by (simp add: unsigned_ucast_eq take_bit_word_eq_self)
  then show ?thesis unfolding proto_nbo_def ntohs_inj by metis
qed

lemma parse_icmp: "lb_parse f = LbIp p \<Longrightarrow> l4_proto p = 1 \<Longrightarrow> l4_dest p = 0"
  by (auto simp: lb_parse_def lb_parse_ip_def UDP8_def TCP8_def split: if_splits)

lemma answer_key:
  assumes "lb_parse f = LbIp p" "lb_parse g = LbIp q" "answers f p b g q"
  shows "lb_reply_key (u32_at g 26) (u32_at g 30) q = translated_key (frame_session f p) b"
  using assms parse_icmp [OF assms(1)] parse_icmp [OF assms(2)]
  by (cases "l4_proto p = 1") (simp_all add: answers_def lb_reply_key_def translated_key_def frame_session_def session_key_def)

definition shown_as :: "vip \<Rightarrow> 16 word \<Rightarrow> frame \<Rightarrow> lb_ports \<Rightarrow> lb_verdict \<Rightarrow> frame \<Rightarrow> bool" where
  "shown_as vp fe g q v h \<longleftrightarrow> v = LB_REDIRECT fe \<and> u32_at h 26 = vip_ip vp \<and> u32_at h 30 = u32_at g 30 \<and>
     (l4_proto q \<noteq> 1 \<longrightarrow> u16_at h 34 = vip_port vp \<and> u16_at h 36 = u16_at g 36)"

lemma lb_backend_reply:
  assumes g: "lb_parse g = LbIp q" and ps: "lb_params_ok ps" "src_ip_rewrite kn = Map.empty"
    and ses: "hash_session kn (jhash ps (lb_reply_key (u32_at g 26) (u32_at g 30) q)) = Some vp"
    and fe: "send_to_frontend pg kn (u32_at g 30) = LB_REDIRECT fe"
  shows "\<exists>v h cs. Lbrp_rx ps pg (BACKEND_PORT pg) g kn = (v, h, cs, kn) \<and> shown_as vp fe g q v h"
proof -
  have rw: "rewrite_lookup ps (src_ip_rewrite kn) a = None" for a by (rule no_rewrite [OF ps])
  have len: "42 \<le> length g" and icmp: "l4csum_offset (l4_proto q) = ICMP_CSUM_OFFSET \<longleftrightarrow> l4_proto q = 1"
    using parse_length [OF g] l4csum_icmp by auto
  let ?h = "store_u32 (store_u32 g 30 (u32_at g 30)) 26 (vip_ip vp)"
  have "lb_reverse_lookup ps kn (u32_at g 26) (u32_at g 30) q =
      RevHit \<lparr>rev_saddr = vip_ip vp, rev_daddr = u32_at g 30, rev_port = vip_port vp, rev_old_ip = u32_at g 26, rev_new_ip = vip_ip vp, rev_new_sip = 0\<rparr>"
    using ses rw [of "u32_at g 30"] by (simp add: lb_reverse_lookup_def Let_def)
  then have run: "Lbrp_rx ps pg (BACKEND_PORT pg) g kn =
      (if l4_proto q = 1 then (LB_REDIRECT fe, ?h, [L3_csum_replace IP_CSUM_OFFSET (u32_at g 26) (vip_ip vp)], kn)
       else (LB_REDIRECT fe, store_u16 ?h 34 (vip_port vp),
         checksum (l4_source q) (vip_port vp) (u32_at g 26) (vip_ip vp) (u32_at g 26) 0 (l4csum_offset (l4_proto q)), kn))"
    using g fe icmp by (simp add: Lbrp_rx_def lb_backend_def Let_def)
  show ?thesis unfolding run using len
    by (cases "l4_proto q = 1") (simp_all add: shown_as_def u32_at_other u16_at_other)
qed

text \<open>The answer to a frame that was sent to a backend, after any undisturbed history, is shown as coming from the service.\<close>

lemma reply_shown:
  assumes f: "lb_parse f = LbIp p" and g: "lb_parse g = LbIp q" and ans: "answers f p b g q" and ps: "lb_params_ok ps" "src_ip_rewrite kn = Map.empty"
    and ses: "hash_session kn (jhash ps (translated_key (frame_session f p) b)) = Some vp"
    and und: "undisturbed ps pg (jhash ps (translated_key (frame_session f p) b)) vp evs kn"
    and fe: "send_to_frontend pg kn (u32_at g 30) = LB_REDIRECT fe"
  shows "\<exists>v h cs. Lbrp_rx ps pg (BACKEND_PORT pg) g (lb_history ps pg evs kn) = (v, h, cs, lb_history ps pg evs kn) \<and> shown_as vp fe g q v h"
proof (rule lb_backend_reply [OF g ps(1)])
  show "src_ip_rewrite (lb_history ps pg evs kn) = Map.empty" using ps(2) by (simp add: history_tables)
  show "hash_session (lb_history ps pg evs kn) (jhash ps (lb_reply_key (u32_at g 26) (u32_at g 30) q)) = Some vp"
    using undisturbed_keeps [OF und ses] answer_key [OF f g ans] by simp
  show "send_to_frontend pg (lb_history ps pg evs kn) (u32_at g 30) = LB_REDIRECT fe"
    using fe unfolding send_to_frontend_def history_tables .
qed

section \<open>Removing a service\<close>

lemma remove_indexes_ok:
  assumes v: "valid_ip (service_vip s)" and idx: "distinct ixs" "\<forall>i \<in> set ixs. i < 65536 \<and> services kn (vkey s i) \<noteq> None"
  shows "remove_indexes s ixs kn = (kn\<lparr>services := (services kn) |` (- vkey s ` set ixs)\<rparr>, Inr ())"
  using idx
proof (induction ixs arbitrary: kn)
  case (Cons i ixs)
  let ?kn = "kn\<lparr>services := (services kn)(vkey s i := None)\<rparr>"
  have "vkey s j \<noteq> vkey s i" if "j \<in> set ixs" for j using that Cons.prems vkey_inj [of j i s] by auto
  then have "\<forall>j \<in> set ixs. j < 65536 \<and> services ?kn (vkey s j) \<noteq> None" using Cons.prems by auto
  then have "remove_indexes s ixs ?kn = (?kn\<lparr>services := (services ?kn) |` (- vkey s ` set ixs)\<rparr>, Inr ())" using Cons by (intro Cons.IH) auto
  moreover have "(services kn)(vkey s i := None) |` (- vkey s ` set ixs) = (services kn) |` (- vkey s ` set (i # ixs))"
    by (rule ext) (simp add: restrict_map_def)
  ultimately show ?case using Cons.prems valid_ip_num [OF v] by (auto simp: table_remove_def Let_def)
qed (simp add: restrict_map_def)

lemma removeServiceFromKernelMap_ok:
  assumes "valid_ip (service_vip s)" "kernel_has s arr kn" "length arr = 30"
  shows "removeServiceFromKernelMap s kn = (kn\<lparr>services := (services kn) |` (- vkey s ` {0..<30})\<rparr>, Inr ())"
proof -
  have "services kn (vkey s i) \<noteq> None" if "i < 30" for i
    using assms(2,3) that unfolding kernel_has_def by (cases i) (simp_all del: of_nat_Suc)
  then show ?thesis using remove_indexes_ok [OF assms(1), of "[0..<30]" kn]
    by (simp add: removeServiceFromKernelMap_def INITIAL_BACKEND_SIZE_def BACKEND_REPLICAS_def del: upt_rec_numeral)
qed

end
