(* ===== verification/Cube_Ports.thy ===== *)
theory Cube_Ports
  imports Cube_Programs "HOL-Library.List_Lexorder" "HOL-Library.Char_ord"
begin

text \<open>
  The ports of a cube without a shadow namespace: the numbers the daemon hands out (\<open>polycubed/src/cube.cpp\<close>) and the two tables of ports, one in the
  daemon and one in the library a service is linked with (\<open>libs/polycube/include/polycube/services/cube.h\<close>). A port of the service is a value
  \<open>'p\<close>. Whether a port can be connected to its peer, and whether its further configuration succeeds, are parameters.
\<close>

section \<open>State\<close>

record 'p cube_ports =
  free_ports :: "nat list"
  daemon_ports :: "(string, nat) smap"
  lib_ports :: "(string, nat \<times> 'p) smap"

record port_env =
  connects :: "string \<Rightarrow> unit result"
  configures :: "string \<Rightarrow> unit result"

definition POLYCUBE_MAX_PORTS :: nat where "POLYCUBE_MAX_PORTS = 128"

definition new_cube_ports :: "'p cube_ports" where
  "new_cube_ports = \<lparr>free_ports = [0..<POLYCUBE_MAX_PORTS], daemon_ports = [], lib_ports = []\<rparr>"

definition smap_erase :: "'k \<Rightarrow> ('k, 'v) smap \<Rightarrow> ('k, 'v) smap" where
  "smap_erase k m = filter (\<lambda>(a, b). a \<noteq> k) m"

section \<open>The daemon\<close>

definition allocate_port_id :: "'p cube_ports \<Rightarrow> 'p cube_ports \<times> nat result" where
  "allocate_port_id st =
     (case free_ports st of
        [] \<Rightarrow> (st, Inl (RuntimeError ''No free ports''))
      | p # _ \<Rightarrow> (st\<lparr>free_ports := oset_erase p (free_ports st)\<rparr>, Inr p))"

definition release_port_id :: "nat \<Rightarrow> 'p cube_ports \<Rightarrow> 'p cube_ports" where
  "release_port_id i st = st\<lparr>free_ports := oset_insert i (free_ports st)\<rparr>"

text \<open>If the peer cannot be connected, the port leaves the tables again; its number is not given back.\<close>

definition Cube_add_port :: "port_env \<Rightarrow> string \<Rightarrow> 'p cube_ports \<Rightarrow> 'p cube_ports \<times> nat result" where
  "Cube_add_port pe name st =
     (if smap_find (daemon_ports st) name \<noteq> None then (st, Inl (RuntimeError (''Port '' @ name @ '' already exists'')))
      else sbind (allocate_port_id st) (\<lambda>i st.
             case connects pe name of
               Inl e \<Rightarrow> (st\<lparr>daemon_ports := smap_erase name (smap_insert name i (daemon_ports st))\<rparr>, Inl e)
             | Inr _ \<Rightarrow> (st\<lparr>daemon_ports := smap_insert name i (daemon_ports st)\<rparr>, Inr i)))"

definition no_port :: "string \<Rightarrow> error" where
  "no_port name = RuntimeError (''Port '' @ name @ '' does not exist'')"

definition Cube_remove_port :: "string \<Rightarrow> 'p cube_ports \<Rightarrow> 'p cube_ports \<times> unit result" where
  "Cube_remove_port name st =
     (case smap_find (daemon_ports st) name of
        None \<Rightarrow> (st, Inl (no_port name))
      | Some i \<Rightarrow> (release_port_id i (st\<lparr>daemon_ports := smap_erase name (daemon_ports st)\<rparr>), Inr ()))"

section \<open>The library\<close>

definition port_remove :: "string \<Rightarrow> error \<Rightarrow> 'p cube_ports \<Rightarrow> 'p cube_ports \<times> 'a result" where
  "port_remove name e st = sbind (Cube_remove_port name st) (\<lambda>_ st. (st, Inl e))"

text \<open>The new port is in the table of the library before its configuration is applied; a failure removes it from the daemon only.\<close>

definition add_port :: "port_env \<Rightarrow> string \<Rightarrow> 'p result \<Rightarrow> 'p cube_ports \<Rightarrow> 'p cube_ports \<times> nat result" where
  "add_port pe name mk st =
     (if smap_find (lib_ports st) name \<noteq> None then (st, Inl (RuntimeError (''Port '' @ name @ '' already exists'')))
      else sbind (Cube_add_port pe name st) (\<lambda>i st.
             case mk of
               Inl e \<Rightarrow> port_remove name e st
             | Inr p \<Rightarrow>
                 (let st' = st\<lparr>lib_ports := smap_insert name (i, p) (lib_ports st)\<rparr>
                  in case configures pe name of Inl e \<Rightarrow> port_remove name e st' | Inr _ \<Rightarrow> (st', Inr i))))"

definition get_ports :: "'p cube_ports \<Rightarrow> (nat \<times> 'p) list" where
  "get_ports st = map snd (lib_ports st)"

definition get_port :: "string \<Rightarrow> 'p cube_ports \<Rightarrow> (nat \<times> 'p) result" where
  "get_port name st = (case smap_find (lib_ports st) name of None \<Rightarrow> Inl (no_port name) | Some p \<Rightarrow> Inr p)"

definition remove_port :: "string \<Rightarrow> 'p cube_ports \<Rightarrow> 'p cube_ports \<times> unit result" where
  "remove_port name st =
     (if smap_find (lib_ports st) name = None then (st, Inl (no_port name))
      else sbind (Cube_remove_port name st) (\<lambda>_ st. (st\<lparr>lib_ports := smap_erase name (lib_ports st)\<rparr>, Inr ())))"

section \<open>The invariant\<close>

text \<open>The two tables agree, no number is given to two ports or is free and in use.\<close>

definition ports_ok :: "'p cube_ports \<Rightarrow> bool" where
  "ports_ok st \<longleftrightarrow> sorted_wrt (<) (free_ports st) \<and> smap_ok (daemon_ports st) \<and> smap_ok (lib_ports st) \<and>
     map_option fst \<circ> map_of (lib_ports st) = map_of (daemon_ports st) \<and>
     (\<forall>n n' i. map_of (daemon_ports st) n = Some i \<longrightarrow> map_of (daemon_ports st) n' = Some i \<longrightarrow> n = n') \<and>
     set (free_ports st) \<inter> ran (map_of (daemon_ports st)) = {} \<and>
     set (free_ports st) \<union> ran (map_of (daemon_ports st)) \<subseteq> {0..<POLYCUBE_MAX_PORTS}"

lemma smap_ok_erase [intro]: "smap_ok m \<Longrightarrow> smap_ok (smap_erase k m)"
  by (auto simp: smap_ok_def smap_erase_def sorted_wrt_map intro: sorted_wrt_filter)

lemma map_of_smap_erase [smap_simps]: "map_of (smap_erase k m) = (map_of m)(k := None)"
  by (rule ext, induction m) (auto simp: smap_erase_def)

lemma smap_erase_insert: "smap_ok m \<Longrightarrow> map_of m k = None \<Longrightarrow> smap_erase k (smap_insert k v m) = m"
proof (induction m)
  case (Cons a m)
  obtain b c where a: "a = (b, c)" by fastforce
  have ok: "smap_ok m" and keys: "k \<noteq> b" "map_of m k = None" using Cons.prems by (auto simp: a smap_ok_def split: if_splits)
  have "filter (\<lambda>(x, y). x \<noteq> k) m = m" using keys(2) by (force simp: filter_id_conv map_of_eq_None_iff)
  then show ?case using Cons.IH [OF ok keys(2)] keys by (auto simp: a smap_erase_def)
qed (simp add: smap_erase_def)

lemma ports_okD:
  assumes "ports_ok st"
  shows "sorted_wrt (<) (free_ports st)" "smap_ok (daemon_ports st)" "smap_ok (lib_ports st)"
    "map_option fst (map_of (lib_ports st) n) = map_of (daemon_ports st) n"
    "map_of (daemon_ports st) n = Some i \<Longrightarrow> map_of (daemon_ports st) n' = Some i \<Longrightarrow> n = n'"
    "map_of (daemon_ports st) n = Some i \<Longrightarrow> i \<notin> set (free_ports st) \<and> i < POLYCUBE_MAX_PORTS"
    "i \<in> set (free_ports st) \<Longrightarrow> i < POLYCUBE_MAX_PORTS"
  using assms unfolding ports_ok_def by (auto simp: fun_eq_iff ran_def)

lemma ports_okI:
  assumes "sorted_wrt (<) (free_ports st)" "smap_ok (daemon_ports st)" "smap_ok (lib_ports st)"
    "\<And>n. map_option fst (map_of (lib_ports st) n) = map_of (daemon_ports st) n"
    "\<And>n n' i. map_of (daemon_ports st) n = Some i \<Longrightarrow> map_of (daemon_ports st) n' = Some i \<Longrightarrow> n = n'"
    "\<And>n i. map_of (daemon_ports st) n = Some i \<Longrightarrow> i \<notin> set (free_ports st) \<and> i < POLYCUBE_MAX_PORTS"
    "\<And>i. i \<in> set (free_ports st) \<Longrightarrow> i < POLYCUBE_MAX_PORTS"
  shows "ports_ok st"
  using assms unfolding ports_ok_def by (fastforce simp: fun_eq_iff ran_def)

lemma new_cube_ports_ok: "ports_ok new_cube_ports"
  by (rule ports_okI) (auto simp: new_cube_ports_def strict_sorted_iff smap_ok_def)

text \<open>Adding a port that works, which gets the least free number, and removing one.\<close>

definition with_port :: "string \<Rightarrow> 'p \<Rightarrow> 'p cube_ports \<Rightarrow> 'p cube_ports" where
  "with_port name p st =
     st\<lparr>free_ports := oset_erase (hd (free_ports st)) (free_ports st), daemon_ports := smap_insert name (hd (free_ports st)) (daemon_ports st),
        lib_ports := smap_insert name (hd (free_ports st), p) (lib_ports st)\<rparr>"

definition without_port :: "string \<Rightarrow> nat \<Rightarrow> 'p cube_ports \<Rightarrow> 'p cube_ports" where
  "without_port name i st =
     st\<lparr>free_ports := oset_insert i (free_ports st), daemon_ports := smap_erase name (daemon_ports st), lib_ports := smap_erase name (lib_ports st)\<rparr>"

lemma add_port_ok:
  assumes ok: "ports_ok st" and new: "map_of (lib_ports st) name = None" and free: "free_ports st \<noteq> []"
    and env: "connects pe name = Inr ()" "configures pe name = Inr ()"
  shows "add_port pe name (Inr p) st = (with_port name p st, Inr (hd (free_ports st)))" and "ports_ok (with_port name p st)"
proof -
  note D = ports_okD [OF ok]
  have none: "map_of (daemon_ports st) name = None" using D(4) [of name] new by simp
  show "add_port pe name (Inr p) st = (with_port name p st, Inr (hd (free_ports st)))"
    using new none free env by (cases "free_ports st") (simp_all add: add_port_def Cube_add_port_def allocate_port_id_def with_port_def Let_def)
  have hd: "hd (free_ports st) \<in> set (free_ports st)" using free by simp
  show "ports_ok (with_port name p st)"
  proof (rule ports_okI)
    show "n = n'" if "map_of (daemon_ports (with_port name p st)) n = Some i" "map_of (daemon_ports (with_port name p st)) n' = Some i" for n n' i
      using that D(5) [of n i n'] D(6) [of n i] D(6) [of n' i] hd map_of_smap_insert [OF D(2)] none by (auto simp: with_port_def split: if_splits)
  qed (use D hd map_of_smap_insert [OF D(2)] map_of_smap_insert [OF D(3)] none new in \<open>auto simp: with_port_def split: if_splits\<close>)
qed

lemma remove_port_ok:
  assumes ok: "ports_ok st" and here: "map_of (lib_ports st) name = Some (i, p)"
  shows "remove_port name st = (without_port name i st, Inr ())" and "ports_ok (without_port name i st)"
proof -
  note D = ports_okD [OF ok]
  have d: "map_of (daemon_ports st) name = Some i" using D(4) [of name] here by simp
  show "remove_port name st = (without_port name i st, Inr ())"
    using here d by (simp add: remove_port_def Cube_remove_port_def release_port_id_def without_port_def)
  show "ports_ok (without_port name i st)"
  proof (rule ports_okI)
    show "j \<notin> set (free_ports (without_port name i st)) \<and> j < POLYCUBE_MAX_PORTS" if "map_of (daemon_ports (without_port name i st)) n = Some j" for n j
      using that D(5) [of n i name] D(6) [of n j] d by (auto simp: without_port_def smap_simps split: if_splits)
    show "n = n'" if "map_of (daemon_ports (without_port name i st)) n = Some j" "map_of (daemon_ports (without_port name i st)) n' = Some j" for n n' j
      using that D(5) [of n j n'] by (auto simp: without_port_def smap_simps split: if_splits)
  qed (use D(1-4,7) D(6) [OF d] in \<open>auto simp: without_port_def smap_simps\<close>)
qed

end
