(* ===== verification/Lb_Cube.thy ===== *)
theory Lb_Cube
  imports Lb_Flow Cube_Ports
begin

text \<open>
  The load balancer as a cube: \<open>Lbrp.cpp\<close>, \<open>Ports.cpp\<close> and \<open>SrcIpRewrite.cpp\<close>. It holds the services, the ports with the table of frontends in the kernel, and
  the macros of the loaded program.
\<close>

section \<open>State\<close>

datatype PortsTypeEnum = PORT_FRONTEND | PORT_BACKEND
datatype LbrpPortModeEnum = MODE_SINGLE | MODE_MULTI

record PortsJsonObject =
  pj_name :: string
  pj_type :: "PortsTypeEnum option"
  pj_ip :: "string option"

record Ports =
  lp_type :: PortsTypeEnum
  lp_ip :: string

text \<open>\<open>net\<close> and \<open>mask\<close> are \<open>None\<close> while they are not initialised.\<close>

record SrcIpRewrite =
  sr_ip_range :: string
  sr_new_ip_range :: string
  sr_net :: "32 word option"
  sr_mask :: "32 word option"

record SrcIpRewriteJsonObject =
  rwj_ip_range :: "string option"
  rwj_new_ip_range :: "string option"

type_synonym ServiceKey = "string \<times> 16 word \<times> 8 word"

record lbrp =
  service_map :: "(ServiceKey \<times> Service) list"
  lb_ports_of :: "Ports cube_ports"
  frontend_ip_set :: "string list"
  port_mode :: LbrpPortModeEnum
  lb_program_of :: lb_program
  src_ip_rewrite_obj :: SrcIpRewrite
  lb_world_of :: lb_world

record cube_env =
  ce_ports :: port_env
  room_frontends :: "(32 word \<rightharpoonup> 16 word) \<Rightarrow> 32 word \<Rightarrow> bool"
  room_rewrite :: "(src_ip_r_key \<rightharpoonup> src_ip_r_value) \<Rightarrow> src_ip_r_key \<Rightarrow> bool"

section \<open>Services\<close>

definition ICMP_EBPF_PORT :: "16 word" where "ICMP_EBPF_PORT = 0"

definition service_key :: "string \<Rightarrow> 16 word \<Rightarrow> ServiceProtoEnum \<Rightarrow> ServiceKey" where
  "service_key vip vport proto = (vip, vport, convertProtoToNumber proto)"

definition getService :: "lbrp \<Rightarrow> string \<Rightarrow> 16 word \<Rightarrow> ServiceProtoEnum \<Rightarrow> Service result" where
  "getService lb vip vport proto = (case map_of (service_map lb) (service_key vip vport proto) of None \<Rightarrow> Inl no_entry | Some s \<Rightarrow> Inr s)"

definition icmp_port :: error where
  "icmp_port = RuntimeError ''ICMP Service requires 0 as virtual port. Since this parameter is useless for ICMP services''"

definition put_service :: "ServiceKey \<Rightarrow> Service \<Rightarrow> lbrp \<Rightarrow> lbrp" where
  "put_service k s lb = lb\<lparr>service_map := map (\<lambda>(i, x). (i, if i = k then s else x)) (service_map lb)\<rparr>"

text \<open>An operation on a stored service.\<close>

definition on_service :: "ServiceKey \<Rightarrow> (service_state \<Rightarrow> (service_state, unit) lb_run) \<Rightarrow> lbrp \<Rightarrow> (lbrp, unit) lb_run" where
  "on_service k f lb =
     (case map_of (service_map lb) k of
        None \<Rightarrow> Some (lb, Inl no_entry)
      | Some s \<Rightarrow>
          (case f (s, lb_world_of lb) of
             None \<Rightarrow> None
           | Some ((s', w'), r) \<Rightarrow> Some ((put_service k s' lb)\<lparr>lb_world_of := w'\<rparr>, r)))"

text \<open>The branch of \<open>addService\<close> for one protocol. The service is built in a local variable and copied into the map.\<close>

definition addService_one :: "lb_env \<Rightarrow> string \<Rightarrow> 16 word \<Rightarrow> ServiceProtoEnum \<Rightarrow> ServiceJsonObject \<Rightarrow> lbrp \<Rightarrow> (lbrp, unit) lb_run" where
  "addService_one env vip vport proto conf lb =
     (if proto = LB_ICMP \<and> sj_vport conf \<noteq> ICMP_EBPF_PORT then Some (lb, Inl icmp_port)
      else if map_of (service_map lb) (service_key vip vport proto) \<noteq> None then Some (lb, Inl (RuntimeError ''This service already exists''))
      else case Service_new env conf (lb_world_of lb) of
             None \<Rightarrow> None
           | Some ((s, w'), Inl e) \<Rightarrow> Some (lb\<lparr>lb_world_of := w'\<rparr>, Inl e)
           | Some ((s, w'), Inr _) \<Rightarrow>
               Some (lb\<lparr>service_map := service_map lb @ [(service_key vip vport proto, s)], lb_world_of := w'\<rparr>, Inr ()))"

definition addService :: "lb_env \<Rightarrow> string \<Rightarrow> 16 word \<Rightarrow> ServiceProtoEnum \<Rightarrow> ServiceJsonObject \<Rightarrow> lbrp \<Rightarrow> (lbrp, unit) lb_run" where
  "addService env vip vport proto conf lb =
     (if proto = LB_ALL
      then run_bind (addService_one env vip vport LB_TCP (conf\<lparr>sj_proto := LB_TCP\<rparr>) lb) (\<lambda>_ lb.
           run_bind (addService_one env vip vport LB_UDP (conf\<lparr>sj_proto := LB_UDP\<rparr>) lb) (\<lambda>_.
           addService_one env vip ICMP_EBPF_PORT LB_ICMP (conf\<lparr>sj_proto := LB_ICMP, sj_vport := ICMP_EBPF_PORT\<rparr>)))
      else addService_one env vip vport proto conf lb)"

definition addServiceList :: "lb_env \<Rightarrow> ServiceJsonObject list \<Rightarrow> lbrp \<Rightarrow> (lbrp, unit) lb_run" where
  "addServiceList env = run_list (\<lambda>c. addService env (sj_vip c) (sj_vport c) (sj_proto c) c)"

definition delService_one :: "string \<Rightarrow> 16 word \<Rightarrow> ServiceProtoEnum \<Rightarrow> lbrp \<Rightarrow> (lbrp, unit) lb_run" where
  "delService_one vip vport proto lb =
     (if proto = LB_ICMP \<and> vport \<noteq> ICMP_EBPF_PORT then Some (lb, Inl icmp_port)
      else run_bind (on_service (service_key vip vport proto) (\<lambda>st. Some (delBackendList st)) lb) (\<lambda>_ lb.
             Some (lb\<lparr>service_map := filter (\<lambda>(k, s). k \<noteq> service_key vip vport proto) (service_map lb)\<rparr>, Inr ())))"

definition delService :: "string \<Rightarrow> 16 word \<Rightarrow> ServiceProtoEnum \<Rightarrow> lbrp \<Rightarrow> (lbrp, unit) lb_run" where
  "delService vip vport proto lb =
     (if proto = LB_ALL
      then run_bind (delService_one vip vport LB_TCP lb) (\<lambda>_ lb.
           run_bind (delService_one vip vport LB_UDP lb) (\<lambda>_.
           delService_one vip ICMP_EBPF_PORT LB_ICMP))
      else delService_one vip vport proto lb)"

definition replaceService :: "lb_env \<Rightarrow> string \<Rightarrow> 16 word \<Rightarrow> ServiceProtoEnum \<Rightarrow> ServiceJsonObject \<Rightarrow> lbrp \<Rightarrow> (lbrp, unit) lb_run" where
  "replaceService env vip vport proto conf lb =
     run_bind (delService vip vport proto lb) (\<lambda>_. addService env (sj_vip conf) (sj_vport conf) (sj_proto conf) conf)"

text \<open>The list of the services is a parameter \<open>order\<close> of the walk over the map.\<close>

definition delServiceList :: "(ServiceKey \<times> Service) list \<Rightarrow> lbrp \<Rightarrow> (lbrp, unit) lb_run" where
  "delServiceList order = run_list (\<lambda>(k, s). delService (service_vip s) (service_vport s) (service_proto s)) order"

definition getServiceList :: "lbrp \<Rightarrow> Service result list" where
  "getServiceList lb = map (\<lambda>((vip, vport, proto), s). getService lb vip vport (convertNumberToProto proto)) (service_map lb)"

section \<open>The range of source addresses\<close>

text \<open>\<open>substr(0, find('/'))\<close> and \<open>substr(find('/') + 1)\<close>: without a slash both are the whole text.\<close>

definition range_len :: "string \<Rightarrow> string" where
  "range_len r = (if CHR ''/'' \<in> set r then drop 1 (dropWhile (\<lambda>c. c \<noteq> CHR ''/'') r) else r)"

definition stoi :: "string \<Rightarrow> int result" where
  "stoi s = rbind (stol s) (\<lambda>v. if v < - (2 ^ 31) \<or> 2 ^ 31 \<le> v then Inl (OutOfRange ''stoi'') else Inr v)"

definition host_mask :: "int \<Rightarrow> 32 word result" where
  "host_mask len = (if 1 \<le> len \<and> len \<le> 32 then Inr (NOT (push_bit (nat (32 - len)) (- 1))) else Inl (UndefinedBehaviour ''shift amount''))"

definition SrcIpRewrite_new :: "SrcIpRewriteJsonObject \<Rightarrow> SrcIpRewrite" where
  "SrcIpRewrite_new conf =
     \<lparr>sr_ip_range = (case rwj_ip_range conf of Some r \<Rightarrow> r | None \<Rightarrow> []), sr_new_ip_range = (case rwj_new_ip_range conf of Some r \<Rightarrow> r | None \<Rightarrow> []),
      sr_net = None, sr_mask = None\<rparr>"

definition set_rewrite :: "cube_env \<Rightarrow> src_ip_r_key \<Rightarrow> src_ip_r_value \<Rightarrow> lbrp \<Rightarrow> lbrp \<times> unit result" where
  "set_rewrite ce k v lb =
     (let kn = lb_kn (lb_world_of lb); (t, r) = table_set (room_rewrite ce) k v (src_ip_rewrite kn)
      in (lb\<lparr>lb_world_of := (lb_world_of lb)\<lparr>lb_kn := kn\<lparr>src_ip_rewrite := t\<rparr>\<rparr>\<rparr>, r))"

definition SrcIpRewrite_update :: "cube_env \<Rightarrow> SrcIpRewriteJsonObject \<Rightarrow> lbrp \<Rightarrow> lbrp \<times> unit result" where
  "SrcIpRewrite_update ce conf lb =
     (case (rwj_ip_range conf, rwj_new_ip_range conf) of
        (Some r, Some n) \<Rightarrow>
          (let lb = lb\<lparr>src_ip_rewrite_obj := (src_ip_rewrite_obj lb)\<lparr>sr_ip_range := r, sr_new_ip_range := n\<rparr>\<rparr>
           in if range_len r \<noteq> range_len n then (lb, Inl (RuntimeError ''both masks have to be the same''))
              else case rbind (stoi (range_len n)) (\<lambda>nlen. rbind (host_mask nlen) (\<lambda>new_mask_dec.
                        rbind (stoi (range_len r)) (\<lambda>rlen. rbind (host_mask rlen) (\<lambda>old_mask_dec.
                        rbind (ip_string_to_nbo_uint (get_ip_from_string r)) (\<lambda>from_ip.
                        rbind (ip_string_to_nbo_uint (get_ip_from_string n)) (\<lambda>to_ip. Inr (nlen, new_mask_dec, rlen, old_mask_dec, from_ip, to_ip))))))) of
                     Inl e \<Rightarrow> (lb, Inl e)
                   | Inr (nlen, new_mask_dec, rlen, old_mask_dec, from_ip, to_ip) \<Rightarrow>
                       sbind (set_rewrite ce \<lparr>netmask_len = of_int rlen, network = from_ip\<rparr>
                                \<lparr>rw_sense = FROM_BACKEND, rw_net = to_ip, rw_mask = new_mask_dec\<rparr> lb) (\<lambda>_ lb.
                       sbind (set_rewrite ce \<lparr>netmask_len = of_int nlen, network = to_ip\<rparr>
                                \<lparr>rw_sense = FROM_BACKEND, rw_net = from_ip, rw_mask = old_mask_dec\<rparr> lb) (\<lambda>_ lb.
                       (lb\<lparr>src_ip_rewrite_obj := (src_ip_rewrite_obj lb)\<lparr>sr_mask := Some new_mask_dec, sr_net := None\<rparr>\<rparr>, Inr ()))))
      | _ \<Rightarrow> (lb, Inr ()))"

definition addSrcIpRewrite :: "cube_env \<Rightarrow> SrcIpRewriteJsonObject \<Rightarrow> lbrp \<Rightarrow> lbrp \<times> unit result" where
  "addSrcIpRewrite ce conf lb = SrcIpRewrite_update ce conf (lb\<lparr>src_ip_rewrite_obj := SrcIpRewrite_new conf\<rparr>)"

definition delSrcIpRewrite :: "lbrp \<Rightarrow> lbrp" where
  "delSrcIpRewrite lb = lb"

definition replaceSrcIpRewrite :: "cube_env \<Rightarrow> SrcIpRewriteJsonObject \<Rightarrow> lbrp \<Rightarrow> lbrp \<times> unit result" where
  "replaceSrcIpRewrite ce conf lb = addSrcIpRewrite ce conf (delSrcIpRewrite lb)"

section \<open>Ports\<close>

definition Ports_new :: "PortsJsonObject \<Rightarrow> Ports result" where
  "Ports_new conf =
     (case pj_type conf of
        None \<Rightarrow> Inl uninitialised
      | Some t \<Rightarrow> Inr \<lparr>lp_type = t, lp_ip = (case pj_ip conf of Some ip \<Rightarrow> ip | None \<Rightarrow> [])\<rparr>)"

definition lb_get_ports :: "lbrp \<Rightarrow> (nat \<times> Ports) list" where
  "lb_get_ports lb = get_ports (lb_ports_of lb)"

definition getFrontendPorts :: "lbrp \<Rightarrow> (nat \<times> Ports) list" where
  "getFrontendPorts lb = filter (\<lambda>(i, p). lp_type p = PORT_FRONTEND) (lb_get_ports lb)"

definition getBackendPort :: "lbrp \<Rightarrow> (nat \<times> Ports) option" where
  "getBackendPort lb = find (\<lambda>(i, p). lp_type p = PORT_BACKEND) (lb_get_ports lb)"

definition lb_add_port :: "cube_env \<Rightarrow> string \<Rightarrow> PortsJsonObject \<Rightarrow> lbrp \<Rightarrow> lbrp \<times> nat result" where
  "lb_add_port ce name conf lb = (let (cp, r) = add_port (ce_ports ce) name (Ports_new conf) (lb_ports_of lb) in (lb\<lparr>lb_ports_of := cp\<rparr>, r))"

text \<open>The programs are reloaded with new macros; the tables stay.\<close>

definition buildLbrpCode :: "LbrpPortModeEnum \<Rightarrow> lb_program" where
  "buildLbrpCode m = \<lparr>SINGLE_PORT_MODE = (m = MODE_SINGLE), BACKEND_PORT = 0, FRONTEND_PORT = 1\<rparr>"

definition reloadCodeWithNewPorts :: "lbrp \<Rightarrow> lbrp" where
  "reloadCodeWithNewPorts lb =
     (let (fe, be) = foldl (\<lambda>(fe, be) (i, p). if lp_type p = PORT_FRONTEND then (of_nat i, be) else (fe, of_nat i)) (0, 1) (lb_get_ports lb)
      in lb\<lparr>lb_program_of := (buildLbrpCode (port_mode lb))\<lparr>FRONTEND_PORT := fe, BACKEND_PORT := be\<rparr>\<rparr>)"

definition reloadCodeWithNewBackendPort :: "nat \<Rightarrow> lbrp \<Rightarrow> lbrp" where
  "reloadCodeWithNewBackendPort i lb = lb\<lparr>lb_program_of := (buildLbrpCode (port_mode lb))\<lparr>BACKEND_PORT := of_nat i\<rparr>\<rparr>"

definition addPortsInSinglePortMode :: "cube_env \<Rightarrow> string \<Rightarrow> PortsJsonObject \<Rightarrow> lbrp \<Rightarrow> lbrp \<times> unit result" where
  "addPortsInSinglePortMode ce name conf lb =
     (case pj_type conf of
        None \<Rightarrow> (lb, Inl uninitialised)
      | Some t \<Rightarrow>
          if length (lb_get_ports lb) = 2 then (lb, Inl (RuntimeError ''Reached maximum number of ports''))
          else if t = PORT_FRONTEND \<and> length (getFrontendPorts lb) = 1
          then (lb, Inl (RuntimeError ''There is already a FRONTEND port. Only a FRONTEND port is allowed in SINGLE port mode''))
          else if t = PORT_FRONTEND \<and> pj_ip conf \<noteq> None
          then (lb, Inl (RuntimeError ''The ip address in not allow in SINGLE port mode for a FRONTEND port''))
          else if t = PORT_BACKEND \<and> getBackendPort lb \<noteq> None then (lb, Inl (RuntimeError ''There is already a BACKEND port''))
          else if t = PORT_BACKEND \<and> pj_ip conf \<noteq> None then (lb, Inl (RuntimeError ''The ip address in not allowed in BACKEND port''))
          else sbind (lb_add_port ce name conf lb) (\<lambda>_ lb. (if length (lb_get_ports lb) = 2 then reloadCodeWithNewPorts lb else lb, Inr ())))"

definition set_frontend :: "cube_env \<Rightarrow> 32 word \<Rightarrow> nat \<Rightarrow> lbrp \<Rightarrow> lbrp \<times> unit result" where
  "set_frontend ce a i lb =
     (let kn = lb_kn (lb_world_of lb); (t, r) = table_set (room_frontends ce) a (of_nat i) (ip_to_frontend_port kn)
      in (lb\<lparr>lb_world_of := (lb_world_of lb)\<lparr>lb_kn := kn\<lparr>ip_to_frontend_port := t\<rparr>\<rparr>\<rparr>, r))"

definition addPortsInMultiPortMode :: "cube_env \<Rightarrow> string \<Rightarrow> PortsJsonObject \<Rightarrow> lbrp \<Rightarrow> lbrp \<times> unit result" where
  "addPortsInMultiPortMode ce name conf lb =
     (case pj_type conf of
        None \<Rightarrow> (lb, Inl uninitialised)
      | Some PORT_FRONTEND \<Rightarrow>
          (case pj_ip conf of
             None \<Rightarrow> (lb, Inl (RuntimeError ''The IP address is mandatory in MULTI port mode for a FRONTEND port''))
           | Some ip \<Rightarrow>
               if ip \<in> set (frontend_ip_set lb)
               then (lb, Inl (RuntimeError (''A FRONTEND port with the provided IP address ('' @ ip @ '') already exist'')))
               else (case sbind (lb_add_port ce name conf (lb\<lparr>frontend_ip_set := ip # frontend_ip_set lb\<rparr>)) (\<lambda>i lb.
                            case ip_string_to_nbo_uint ip of Inl e \<Rightarrow> (lb, Inl e) | Inr a \<Rightarrow> set_frontend ce a i lb) of
                       (lb', Inl e) \<Rightarrow> (lb'\<lparr>frontend_ip_set := filter (\<lambda>x. x \<noteq> ip) (frontend_ip_set lb')\<rparr>, Inl e)
                     | (lb', Inr _) \<Rightarrow> (lb', Inr ())))
      | Some PORT_BACKEND \<Rightarrow>
          if getBackendPort lb \<noteq> None then (lb, Inl (RuntimeError ''There is already a BACKEND port''))
          else if pj_ip conf \<noteq> None then (lb, Inl (RuntimeError ''The ip address in not allowed in BACKEND port''))
          else sbind (lb_add_port ce name conf lb) (\<lambda>i lb. (reloadCodeWithNewBackendPort i lb, Inr ())))"

definition addPorts :: "cube_env \<Rightarrow> string \<Rightarrow> PortsJsonObject \<Rightarrow> lbrp \<Rightarrow> lbrp \<times> unit result" where
  "addPorts ce name conf lb = (if port_mode lb = MODE_SINGLE then addPortsInSinglePortMode ce name conf lb else addPortsInMultiPortMode ce name conf lb)"

fun addPortsList :: "cube_env \<Rightarrow> PortsJsonObject list \<Rightarrow> lbrp \<Rightarrow> lbrp \<times> unit result" where
  "addPortsList ce [] lb = (lb, Inr ())"
| "addPortsList ce (c # cs) lb = sbind (addPorts ce (pj_name c) c lb) (\<lambda>_. addPortsList ce cs)"

definition remove_frontend :: "string \<Rightarrow> lbrp \<Rightarrow> lbrp \<times> unit result" where
  "remove_frontend ip lb =
     (case ip_string_to_nbo_uint ip of
        Inl e \<Rightarrow> (lb, Inl e)
      | Inr a \<Rightarrow>
          (let kn = lb_kn (lb_world_of lb); (t, r) = table_remove a (ip_to_frontend_port kn)
           in sbind (lb\<lparr>lb_world_of := (lb_world_of lb)\<lparr>lb_kn := kn\<lparr>ip_to_frontend_port := t\<rparr>\<rparr>\<rparr>, r) (\<lambda>_ lb.
                if ip \<in> set (frontend_ip_set lb) then (lb\<lparr>frontend_ip_set := filter (\<lambda>x. x \<noteq> ip) (frontend_ip_set lb)\<rparr>, Inr ())
                else (lb, Inl (RuntimeError ''Failed to delete the port IP address for the new FRONTEND port'')))))"

definition delPorts :: "string \<Rightarrow> lbrp \<Rightarrow> lbrp \<times> unit result" where
  "delPorts name lb =
     (case get_port name (lb_ports_of lb) of
        Inl e \<Rightarrow> (lb, Inl e)
      | Inr (i, p) \<Rightarrow>
          sbind (if port_mode lb = MODE_MULTI \<and> lp_type p = PORT_FRONTEND then remove_frontend (lp_ip p) lb else (lb, Inr ())) (\<lambda>_ lb.
          let (cp, r) = remove_port name (lb_ports_of lb) in (lb\<lparr>lb_ports_of := cp\<rparr>, r)))"

definition replacePorts :: "cube_env \<Rightarrow> string \<Rightarrow> PortsJsonObject \<Rightarrow> lbrp \<Rightarrow> lbrp \<times> unit result" where
  "replacePorts ce name conf lb = sbind (delPorts name lb) (\<lambda>_. addPorts ce (pj_name conf) conf)"

fun del_ports :: "string list \<Rightarrow> lbrp \<Rightarrow> lbrp \<times> unit result" where
  "del_ports [] lb = (lb, Inr ())"
| "del_ports (n # ns) lb = sbind (delPorts n lb) (\<lambda>_. del_ports ns)"

definition delPortsList :: "lbrp \<Rightarrow> lbrp \<times> unit result" where
  "delPortsList lb = del_ports (map fst (lib_ports (lb_ports_of lb))) lb"

definition Ports_update :: "PortsJsonObject \<Rightarrow> unit result" where
  "Ports_update conf = (if pj_type conf = None then Inr () else Inl (RuntimeError ''Error: Port type cannot be changed at runtime.''))"

definition setPortMode :: "LbrpPortModeEnum \<Rightarrow> unit result" where
  "setPortMode m = Inl (RuntimeError ''Port mode cannot be changed at runtime'')"

section \<open>The slow path\<close>

definition flood_packet :: "nat \<Rightarrow> frame \<Rightarrow> lbrp \<Rightarrow> (nat \<times> frame) list" where
  "flood_packet port f lb = map (\<lambda>(i, p). (i, f)) (filter (\<lambda>(i, p). i \<noteq> port) (lb_get_ports lb))"

definition packet_in :: "nat \<Rightarrow> nat \<Rightarrow> frame \<Rightarrow> lbrp \<Rightarrow> (nat \<times> frame) list result" where
  "packet_in reason port f lb =
     (if reason = REASON_ARP_REPLY then
        (case getBackendPort lb of
           None \<Rightarrow> Inr []
         | Some (b, _) \<Rightarrow>
             (case (sr_mask (src_ip_rewrite_obj lb), sr_net (src_ip_rewrite_obj lb)) of
                (Some m, Some n) \<Rightarrow> Inr [(b, f), (b, store_u32 f 28 ((u32_at f 28 AND ntohl m) OR ntohl n))]
              | _ \<Rightarrow> Inl uninitialised))
      else if reason = REASON_FLOODING then Inr (flood_packet port f lb)
      else Inr [])"

section \<open>The cube\<close>

record LbrpJsonObject =
  lj_port_mode :: LbrpPortModeEnum
  lj_service :: "ServiceJsonObject list option"
  lj_src_ip_rewrite :: "SrcIpRewriteJsonObject option"
  lj_ports :: "PortsJsonObject list option"

definition empty_lbrp :: "LbrpPortModeEnum \<Rightarrow> lbrp" where
  "empty_lbrp m =
     \<lparr>service_map = [], lb_ports_of = new_cube_ports, frontend_ip_set = [], port_mode = m, lb_program_of = buildLbrpCode m,
      src_ip_rewrite_obj = SrcIpRewrite_new \<lparr>rwj_ip_range = None, rwj_new_ip_range = None\<rparr>,
      lb_world_of = \<lparr>lb_kn = \<lparr>services = Map.empty, hash_session = Map.empty, src_ip_rewrite = Map.empty, backend_to_service = Map.empty,
        ip_to_frontend_port = Map.empty\<rparr>, draws = 0\<rparr>\<rparr>"

definition Lbrp_new :: "lb_env \<Rightarrow> cube_env \<Rightarrow> LbrpJsonObject \<Rightarrow> (lbrp, unit) lb_run" where
  "Lbrp_new env ce conf =
     run_bind (addServiceList env (case lj_service conf of Some ss \<Rightarrow> ss | None \<Rightarrow> []) (empty_lbrp (lj_port_mode conf))) (\<lambda>_ lb.
     run_bind (Some (addSrcIpRewrite ce (case lj_src_ip_rewrite conf of Some c \<Rightarrow> c | None \<Rightarrow> \<lparr>rwj_ip_range = None, rwj_new_ip_range = None\<rparr>) lb)) (\<lambda>_ lb.
     Some (addPortsList ce (case lj_ports conf of Some cs \<Rightarrow> cs | None \<Rightarrow> []) lb)))"

text \<open>\<open>Lbrp::update\<close>; the base configuration of the cube is left out.\<close>

fun update_ports :: "PortsJsonObject list \<Rightarrow> lbrp \<Rightarrow> lbrp \<times> unit result" where
  "update_ports [] lb = (lb, Inr ())"
| "update_ports (c # cs) lb =
     (case rbind (get_port (pj_name c) (lb_ports_of lb)) (\<lambda>_. Ports_update c) of Inl e \<Rightarrow> (lb, Inl e) | Inr _ \<Rightarrow> update_ports cs lb)"

definition Lbrp_update :: "lb_env \<Rightarrow> cube_env \<Rightarrow> LbrpJsonObject \<Rightarrow> lbrp \<Rightarrow> (lbrp, unit) lb_run" where
  "Lbrp_update env ce conf lb =
     run_bind (when_given (lj_service conf) (run_list (\<lambda>c. on_service (service_key (sj_vip c) (sj_vport c) (sj_proto c)) (Service_update env c))) lb) (\<lambda>_ lb.
     run_bind (when_given (lj_src_ip_rewrite conf) (\<lambda>c lb. Some (SrcIpRewrite_update ce c lb)) lb) (\<lambda>_.
     when_given (lj_ports conf) (\<lambda>cs lb. Some (update_ports cs lb))))"

end
