(* ===== verification/Lb_Ports.thy ===== *)
theory Lb_Ports
  imports Lb_Cube
begin

text \<open>
  The ports of the load balancer over sequences of operations: the table of frontends in the kernel holds exactly the frontend ports, and the program is
  compiled with the numbers of the ports there are.
\<close>

section \<open>Adding and removing\<close>

abbreviation port_of :: "lbrp \<Rightarrow> string \<Rightarrow> (nat \<times> Ports) option" where
  "port_of lb \<equiv> map_of (lib_ports (lb_ports_of lb))"

abbreviation frontends :: "lbrp \<Rightarrow> 32 word \<rightharpoonup> 16 word" where
  "frontends lb \<equiv> ip_to_frontend_port (lb_kn (lb_world_of lb))"

definition MAX_FRONTENDS :: nat where "MAX_FRONTENDS = 1024"

text \<open>Peers can be connected, and the table of frontends takes an entry unless it is full.\<close>

definition cube_env_ok :: "cube_env \<Rightarrow> bool" where
  "cube_env_ok ce \<longleftrightarrow> (\<forall>n. connects (ce_ports ce) n = Inr () \<and> configures (ce_ports ce) n = Inr ()) \<and>
     (\<forall>t k. finite (dom t) \<and> card (dom t) < MAX_FRONTENDS \<longrightarrow> room_frontends ce t k)"

lemma add_port_cases:
  assumes ok: "ports_ok st" and env: "connects pe name = Inr ()" "configures pe name = Inr ()"
  obtains (refused) e where "add_port pe name (Inr p) st = (st, Inl e)"
  | (added) "map_of (lib_ports st) name = None" "free_ports st \<noteq> []" "add_port pe name (Inr p) st = (with_port name p st, Inr (hd (free_ports st)))"
      "ports_ok (with_port name p st)"
proof (cases "map_of (lib_ports st) name = None")
  case new: True
  then have d: "map_of (daemon_ports st) name = None" using ports_okD(4) [OF ok, of name] by simp
  show thesis
  proof (cases "free_ports st")
    case Nil
    then show thesis using new d refused by (simp add: add_port_def Cube_add_port_def allocate_port_id_def)
  next
    case (Cons i is')
    then show thesis using added [OF new _ add_port_ok [OF ok new _ env]] by simp
  qed
next
  case False
  then show thesis using refused by (auto simp: add_port_def)
qed

lemma with_port_of:
  assumes "ports_ok st" "map_of (lib_ports st) name = None"
  shows "map_of (lib_ports (with_port name p st)) = (map_of (lib_ports st))(name \<mapsto> (hd (free_ports st), p))"
  using map_of_smap_insert [OF ports_okD(3) [OF assms(1)]] assms(2) by (simp add: with_port_def)

lemma without_port_of: "map_of (lib_ports (without_port name i st)) = (map_of (lib_ports st))(name := None)"
  by (simp add: without_port_def smap_simps)

text \<open>There are at most 128 ports.\<close>

lemma ports_few:
  assumes ok: "ports_ok st"
  shows "card (dom (map_of (lib_ports st))) \<le> POLYCUBE_MAX_PORTS"
proof -
  let ?d = "map_of (daemon_ports st)"
  note D = ports_okD [OF ok]
  have dom: "dom (map_of (lib_ports st)) = dom ?d"
  proof (rule set_eqI)
    show "n \<in> dom (map_of (lib_ports st)) \<longleftrightarrow> n \<in> dom ?d" for n using D(4) [of n] by (metis domIff option.map_disc_iff)
  qed
  have "inj_on (the \<circ> ?d) (dom ?d)" using D(5) by (auto simp: inj_on_def)
  moreover have "(the \<circ> ?d) ` dom ?d \<subseteq> {0..<POLYCUBE_MAX_PORTS}" using D(6) by auto
  ultimately show ?thesis unfolding dom by (metis card_atLeastLessThan card_inj_on_le diff_zero finite_atLeastLessThan)
qed

section \<open>Many frontends\<close>

definition canonical_ip :: "string \<Rightarrow> bool" where
  "canonical_ip ip \<longleftrightarrow> ip = nbo_uint_to_ip_string (ip_num ip)"

lemma canonical_valid: "canonical_ip ip \<Longrightarrow> ip_string_to_nbo_uint ip = Inr (ip_num ip)"
  unfolding canonical_ip_def by (metis ip_print_parse)

lemma canonical_inj: "canonical_ip a \<Longrightarrow> canonical_ip b \<Longrightarrow> ip_num a = ip_num b \<Longrightarrow> a = b"
  unfolding canonical_ip_def by metis

definition is_frontend :: "lbrp \<Rightarrow> string \<Rightarrow> nat \<Rightarrow> string \<Rightarrow> bool" where
  "is_frontend lb name i ip \<longleftrightarrow> (\<exists>p. port_of lb name = Some (i, p) \<and> lp_type p = PORT_FRONTEND \<and> lp_ip p = ip)"

definition is_backend :: "lbrp \<Rightarrow> string \<Rightarrow> nat \<Rightarrow> bool" where
  "is_backend lb name i \<longleftrightarrow> (\<exists>p. port_of lb name = Some (i, p) \<and> lp_type p = PORT_BACKEND)"

definition multi_ok :: "lbrp \<Rightarrow> bool" where
  "multi_ok lb \<longleftrightarrow> port_mode lb = MODE_MULTI \<and> \<not> SINGLE_PORT_MODE (lb_program_of lb) \<and> ports_ok (lb_ports_of lb) \<and>
     (\<forall>n i ip. is_frontend lb n i ip \<longrightarrow> canonical_ip ip \<and> ip \<in> set (frontend_ip_set lb) \<and> frontends lb (ip_num ip) = Some (of_nat i)) \<and>
     (\<forall>n n' i i' ip. is_frontend lb n i ip \<longrightarrow> is_frontend lb n' i' ip \<longrightarrow> n = n') \<and>
     (\<forall>a. frontends lb a \<noteq> None \<longrightarrow> (\<exists>n i ip. is_frontend lb n i ip \<and> ip_num ip = a)) \<and>
     (\<forall>ip \<in> set (frontend_ip_set lb). \<exists>n i. is_frontend lb n i ip) \<and>
     (\<forall>n n' i i'. is_backend lb n i \<longrightarrow> is_backend lb n' i' \<longrightarrow> n = n') \<and>
     (\<forall>n i. is_backend lb n i \<longrightarrow> BACKEND_PORT (lb_program_of lb) = of_nat i)"

lemma multi_okD:
  assumes "multi_ok lb"
  shows "port_mode lb = MODE_MULTI" "\<not> SINGLE_PORT_MODE (lb_program_of lb)" "ports_ok (lb_ports_of lb)"
    "is_frontend lb n i ip \<Longrightarrow> canonical_ip ip \<and> ip \<in> set (frontend_ip_set lb) \<and> frontends lb (ip_num ip) = Some (of_nat i)"
    "is_frontend lb n i ip \<Longrightarrow> is_frontend lb n' i' ip \<Longrightarrow> n = n'"
    "frontends lb a \<noteq> None \<Longrightarrow> \<exists>n i ip. is_frontend lb n i ip \<and> ip_num ip = a"
    "ip \<in> set (frontend_ip_set lb) \<Longrightarrow> \<exists>n i. is_frontend lb n i ip"
    "is_backend lb n i \<Longrightarrow> is_backend lb n' j \<Longrightarrow> n = n'"
    "is_backend lb n i \<Longrightarrow> BACKEND_PORT (lb_program_of lb) = of_nat i"
  using assms unfolding multi_ok_def by blast+

lemma multi_okI:
  assumes "port_mode lb = MODE_MULTI" "\<not> SINGLE_PORT_MODE (lb_program_of lb)" "ports_ok (lb_ports_of lb)"
    "\<And>n i ip. is_frontend lb n i ip \<Longrightarrow> canonical_ip ip \<and> ip \<in> set (frontend_ip_set lb) \<and> frontends lb (ip_num ip) = Some (of_nat i)"
    "\<And>n n' i i' ip. is_frontend lb n i ip \<Longrightarrow> is_frontend lb n' i' ip \<Longrightarrow> n = n'"
    "\<And>a. frontends lb a \<noteq> None \<Longrightarrow> \<exists>n i ip. is_frontend lb n i ip \<and> ip_num ip = a"
    "\<And>ip. ip \<in> set (frontend_ip_set lb) \<Longrightarrow> \<exists>n i. is_frontend lb n i ip"
    "\<And>n n' i j. is_backend lb n i \<Longrightarrow> is_backend lb n' j \<Longrightarrow> n = n'"
    "\<And>n i. is_backend lb n i \<Longrightarrow> BACKEND_PORT (lb_program_of lb) = of_nat i"
  shows "multi_ok lb"
  using assms unfolding multi_ok_def by blast

lemma frontends_few:
  assumes ok: "multi_ok lb"
  shows "finite (dom (frontends lb)) \<and> card (dom (frontends lb)) < MAX_FRONTENDS"
proof -
  let ?f = "\<lambda>n. ip_num (lp_ip (snd (the (port_of lb n))))"
  have sub: "dom (frontends lb) \<subseteq> ?f ` dom (port_of lb)"
  proof
    fix a assume "a \<in> dom (frontends lb)"
    then obtain n i ip where "is_frontend lb n i ip" "ip_num ip = a" using multi_okD(6) [OF ok, of a] by auto
    then have "n \<in> dom (port_of lb)" "?f n = a" by (auto simp: is_frontend_def)
    then show "a \<in> ?f ` dom (port_of lb)" by blast
  qed
  have fin: "finite (dom (port_of lb))" by (simp add: finite_dom_map_of)
  have img: "finite (?f ` dom (port_of lb))" using fin by (rule finite_imageI)
  have "card (dom (frontends lb)) \<le> card (?f ` dom (port_of lb))" by (rule card_mono [OF img sub])
  also have "\<dots> \<le> card (dom (port_of lb))" by (rule card_image_le [OF fin])
  also have "\<dots> \<le> POLYCUBE_MAX_PORTS" by (rule ports_few [OF multi_okD(3) [OF ok]])
  also have "\<dots> < MAX_FRONTENDS" by (simp add: POLYCUBE_MAX_PORTS_def MAX_FRONTENDS_def)
  finally show ?thesis using finite_subset [OF sub img] by blast
qed

text \<open>A new frontend, a new backend port, and a port less.\<close>

lemma multi_add_frontend:
  assumes ok: "multi_ok lb" and new: "port_of lb name = None" "free_ports (lb_ports_of lb) \<noteq> []" and ip: "canonical_ip ip" "ip \<notin> set (frontend_ip_set lb)"
    and cp: "ports_ok (with_port name p (lb_ports_of lb))" and p: "lp_type p = PORT_FRONTEND" "lp_ip p = ip"
    and lb': "lb_ports_of lb' = with_port name p (lb_ports_of lb)" "frontend_ip_set lb' = ip # frontend_ip_set lb" "port_mode lb' = port_mode lb"
      "lb_program_of lb' = lb_program_of lb" "frontends lb' = (frontends lb)(ip_num ip \<mapsto> of_nat (hd (free_ports (lb_ports_of lb))))"
  shows "multi_ok lb'"
proof -
  note D = multi_okD [OF ok]
  let ?i = "hd (free_ports (lb_ports_of lb))"
  have po: "port_of lb' = (port_of lb)(name \<mapsto> (?i, p))" using with_port_of [OF D(3) new(1)] lb'(1) by simp
  have fe: "is_frontend lb' n i x \<longleftrightarrow> (if n = name then i = ?i \<and> x = ip else is_frontend lb n i x)" for n i x using p by (auto simp: is_frontend_def po)
  have be: "is_backend lb' n i \<longleftrightarrow> n \<noteq> name \<and> is_backend lb n i" for n i using p by (auto simp: is_backend_def po)
  have old: "x \<noteq> ip \<and> ip_num x \<noteq> ip_num ip" if "is_frontend lb n i x" for n i x using D(4) [OF that] ip canonical_inj by metis
  have names: "n \<noteq> name" if "is_frontend lb n i x" for n i x using that new(1) by (auto simp: is_frontend_def)
  show ?thesis
  proof (rule multi_okI)
    show "\<exists>n i x. is_frontend lb' n i x \<and> ip_num x = a" if "frontends lb' a \<noteq> None" for a
    proof (cases "a = ip_num ip")
      case True
      then show ?thesis using fe by auto
    next
      case False
      then obtain n i x where "is_frontend lb n i x" "ip_num x = a" using \<open>frontends lb' a \<noteq> None\<close> D(6) [of a] lb'(5) by auto
      then show ?thesis using fe names by metis
    qed
    show "\<exists>n i. is_frontend lb' n i x" if "x \<in> set (frontend_ip_set lb')" for x
      using that lb'(2) fe names D(7) [of x] by (metis set_ConsD)
    show "canonical_ip x \<and> x \<in> set (frontend_ip_set lb') \<and> frontends lb' (ip_num x) = Some (of_nat i)" if "is_frontend lb' n i x" for n i x
      using that old [of n i x] D(4) [of n i x] ip(1) by (auto simp: fe lb'(2,5) split: if_splits)
    show "n = n'" if "is_frontend lb' n i x" "is_frontend lb' n' i' x" for n n' i i' x
      using that old D(5) by (auto simp: fe split: if_splits)
  qed (use D lb' cp be in \<open>auto\<close>)
qed

lemma multi_add_backend:
  assumes ok: "multi_ok lb" and new: "port_of lb name = None" "free_ports (lb_ports_of lb) \<noteq> []" and none: "\<forall>n i. \<not> is_backend lb n i"
    and cp: "ports_ok (with_port name p (lb_ports_of lb))" and p: "lp_type p = PORT_BACKEND"
    and lb': "lb_ports_of lb' = with_port name p (lb_ports_of lb)" "frontend_ip_set lb' = frontend_ip_set lb" "port_mode lb' = port_mode lb"
      "lb_program_of lb' = (buildLbrpCode MODE_MULTI)\<lparr>BACKEND_PORT := of_nat (hd (free_ports (lb_ports_of lb)))\<rparr>" "frontends lb' = frontends lb"
  shows "multi_ok lb'"
proof -
  note D = multi_okD [OF ok]
  let ?i = "hd (free_ports (lb_ports_of lb))"
  have po: "port_of lb' = (port_of lb)(name \<mapsto> (?i, p))" using with_port_of [OF D(3) new(1)] lb'(1) by simp
  have fe: "is_frontend lb' n i x \<longleftrightarrow> is_frontend lb n i x" for n i x using p new(1) by (auto simp: is_frontend_def po)
  have be: "is_backend lb' n i \<longleftrightarrow> n = name \<and> i = ?i" for n i using p none by (auto simp: is_backend_def po)
  show ?thesis
    by (rule multi_okI) (use D lb' cp in \<open>auto simp: fe be buildLbrpCode_def\<close>)
qed

lemma multi_remove:
  assumes ok: "multi_ok lb" and here: "port_of lb name = Some (i, p)" and cp: "ports_ok (without_port name i (lb_ports_of lb))"
    and lb': "lb_ports_of lb' = without_port name i (lb_ports_of lb)" "port_mode lb' = port_mode lb" "lb_program_of lb' = lb_program_of lb"
      "if lp_type p = PORT_FRONTEND
       then frontends lb' = (frontends lb)(ip_num (lp_ip p) := None) \<and> set (frontend_ip_set lb') = set (frontend_ip_set lb) - {lp_ip p}
       else frontends lb' = frontends lb \<and> frontend_ip_set lb' = frontend_ip_set lb"
  shows "multi_ok lb'"
proof -
  note D = multi_okD [OF ok]
  have po: "port_of lb' = (port_of lb)(name := None)" using without_port_of lb'(1) by simp
  have fe: "is_frontend lb' n j x \<longleftrightarrow> n \<noteq> name \<and> is_frontend lb n j x" for n j x by (auto simp: is_frontend_def po)
  have be: "is_backend lb' n j \<longleftrightarrow> n \<noteq> name \<and> is_backend lb n j" for n j by (auto simp: is_backend_def po)
  have gone: "is_frontend lb name j x \<longleftrightarrow> lp_type p = PORT_FRONTEND \<and> j = i \<and> x = lp_ip p" for j x using here by (auto simp: is_frontend_def)
  have other: "x \<noteq> lp_ip p \<and> ip_num x \<noteq> ip_num (lp_ip p)" if "is_frontend lb n j x" "n \<noteq> name" "lp_type p = PORT_FRONTEND" for n j x
    using that D(4) D(5) gone canonical_inj by metis
  show ?thesis
  proof (rule multi_okI)
    show "\<exists>n j x. is_frontend lb' n j x \<and> ip_num x = a" if a: "frontends lb' a \<noteq> None" for a
    proof -
      have "frontends lb a \<noteq> None" "lp_type p = PORT_FRONTEND \<Longrightarrow> a \<noteq> ip_num (lp_ip p)" using a lb'(4) by (auto split: if_splits)
      then show ?thesis using D(6) [of a] fe gone by metis
    qed
    show "\<exists>n j. is_frontend lb' n j x" if x: "x \<in> set (frontend_ip_set lb')" for x
    proof -
      have "x \<in> set (frontend_ip_set lb)" "lp_type p = PORT_FRONTEND \<Longrightarrow> x \<noteq> lp_ip p" using x lb'(4) by (auto split: if_splits)
      then show ?thesis using D(7) [of x] fe gone by metis
    qed
    show "canonical_ip x \<and> x \<in> set (frontend_ip_set lb') \<and> frontends lb' (ip_num x) = Some (of_nat j)" if "is_frontend lb' n j x" for n j x
      using that other [of n j x] D(4) [of n j x] lb'(4) by (auto simp: fe split: if_splits)
  qed (use D lb' cp fe be in auto)
qed

lemma get_ports_of:
  assumes "ports_ok (lb_ports_of lb)"
  shows "(i, p) \<in> set (lb_get_ports lb) \<longleftrightarrow> (\<exists>n. port_of lb n = Some (i, p))"
proof -
  have "distinct (map fst (lib_ports (lb_ports_of lb)))" using ports_okD(3) [OF assms] by (rule smap_ok_distinct)
  then have "(n, x) \<in> set (lib_ports (lb_ports_of lb)) \<longleftrightarrow> port_of lb n = Some x" for n x by simp
  then show ?thesis by (force simp: lb_get_ports_def get_ports_def)
qed

lemma getBackendPort_None:
  assumes "ports_ok (lb_ports_of lb)"
  shows "getBackendPort lb = None \<longleftrightarrow> (\<forall>n i. \<not> is_backend lb n i)"
  unfolding getBackendPort_def find_None_iff is_backend_def using get_ports_of [OF assms] by fastforce

lemma addPortsInMultiPortMode_keeps:
  assumes ok: "multi_ok lb" and env: "cube_env_ok ce" and ip: "\<forall>ip. pj_ip conf = Some ip \<longrightarrow> canonical_ip ip"
  shows "multi_ok (fst (addPortsInMultiPortMode ce name conf lb))"
proof (cases "pj_type conf")
  case None
  then show ?thesis using ok by (simp add: addPortsInMultiPortMode_def)
next
  case (Some t)
  note D = multi_okD [OF ok]
  have conn: "connects (ce_ports ce) name = Inr ()" "configures (ce_ports ce) name = Inr ()" using env by (auto simp: cube_env_ok_def)
  obtain p where p: "Ports_new conf = Inr p" "lp_type p = t" "\<And>x. pj_ip conf = Some x \<Longrightarrow> lp_ip p = x" using Some by (auto simp: Ports_new_def)
  show ?thesis
  proof (cases t)
    case PORT_BACKEND
    show ?thesis
    proof (cases "getBackendPort lb = None \<and> pj_ip conf = None")
      case True
      then have none: "\<forall>n i. \<not> is_backend lb n i" using getBackendPort_None [OF D(3)] by blast
      show ?thesis using D(3) conn
      proof (cases rule: add_port_cases [where p = p])
        case refused
        then show ?thesis using Some PORT_BACKEND True p ok by (simp add: addPortsInMultiPortMode_def lb_add_port_def)
      next
        case added
        then have "fst (addPortsInMultiPortMode ce name conf lb) =
            reloadCodeWithNewBackendPort (hd (free_ports (lb_ports_of lb))) (lb\<lparr>lb_ports_of := with_port name p (lb_ports_of lb)\<rparr>)"
          using Some PORT_BACKEND True p by (simp add: addPortsInMultiPortMode_def lb_add_port_def)
        then show ?thesis using p(2) PORT_BACKEND D(1)
          by (intro multi_add_backend [OF ok added(1,2) none added(4)]) (simp_all add: reloadCodeWithNewBackendPort_def)
      qed
    qed (use Some PORT_BACKEND ok in \<open>auto simp: addPortsInMultiPortMode_def\<close>)
  next
    case PORT_FRONTEND
    show ?thesis
    proof (cases "\<exists>x. pj_ip conf = Some x \<and> x \<notin> set (frontend_ip_set lb)")
      case True
      then obtain x where x: "pj_ip conf = Some x" "x \<notin> set (frontend_ip_set lb)" "canonical_ip x" using ip by blast
      have keep: "filter (\<lambda>y. y \<noteq> x) (frontend_ip_set lb) = frontend_ip_set lb" using x(2) by (auto simp: filter_id_conv)
      show ?thesis using D(3) conn
      proof (cases rule: add_port_cases [where p = p])
        case refused
        then show ?thesis using Some PORT_FRONTEND x p ok keep by (simp add: addPortsInMultiPortMode_def lb_add_port_def)
      next
        case added
        let ?i = "hd (free_ports (lb_ports_of lb))"
        have room: "room_frontends ce (frontends lb) (ip_num x)" using env frontends_few [OF ok] by (simp add: cube_env_ok_def)
        define lb' where "lb' = fst (addPortsInMultiPortMode ce name conf lb)"
        have "lb_ports_of lb' = with_port name p (lb_ports_of lb)" "frontend_ip_set lb' = x # frontend_ip_set lb" "port_mode lb' = port_mode lb"
            "lb_program_of lb' = lb_program_of lb" "frontends lb' = (frontends lb)(ip_num x \<mapsto> of_nat ?i)"
          unfolding lb'_def using Some PORT_FRONTEND x p added(3) room canonical_valid [OF x(3)]
          by (simp_all add: addPortsInMultiPortMode_def lb_add_port_def set_frontend_def table_set_def Let_def)
        from multi_add_frontend [OF ok added(1,2) x(3,2) added(4) _ p(3) [OF x(1)] this] show ?thesis
          using p(2) PORT_FRONTEND by (simp add: lb'_def)
      qed
    qed (use Some PORT_FRONTEND ok in \<open>auto simp: addPortsInMultiPortMode_def split: option.splits\<close>)
  qed
qed

lemma delPorts_keeps_multi:
  assumes ok: "multi_ok lb"
  shows "multi_ok (fst (delPorts name lb))"
proof (cases "port_of lb name")
  case None
  then show ?thesis using ok by (simp add: delPorts_def get_port_def)
next
  case (Some ip)
  then obtain i p where here: "port_of lb name = Some (i, p)" by (cases ip) simp
  note D = multi_okD [OF ok]
  note R = remove_port_ok [OF D(3) here]
  define lb' where "lb' = fst (delPorts name lb)"
  have "lb_ports_of lb' = without_port name i (lb_ports_of lb) \<and> port_mode lb' = port_mode lb \<and> lb_program_of lb' = lb_program_of lb \<and>
      (if lp_type p = PORT_FRONTEND
       then frontends lb' = (frontends lb)(ip_num (lp_ip p) := None) \<and> set (frontend_ip_set lb') = set (frontend_ip_set lb) - {lp_ip p}
       else frontends lb' = frontends lb \<and> frontend_ip_set lb' = frontend_ip_set lb)"
  proof (cases "lp_type p = PORT_FRONTEND")
    case True
    then have "is_frontend lb name i (lp_ip p)" using here by (auto simp: is_frontend_def)
    from D(4) [OF this] show ?thesis unfolding lb'_def using True here R(1) D(1) canonical_valid
      by (auto simp: delPorts_def get_port_def remove_frontend_def table_remove_def Let_def)
  next
    case False
    then show ?thesis unfolding lb'_def using here R(1) by (simp add: delPorts_def get_port_def)
  qed
  then have "multi_ok lb'" using multi_remove [OF ok here R(2)] by blast
  then show ?thesis by (simp add: lb'_def)
qed

section \<open>One frontend\<close>

definition single_ok :: "lbrp \<Rightarrow> bool" where
  "single_ok lb \<longleftrightarrow> port_mode lb = MODE_SINGLE \<and> SINGLE_PORT_MODE (lb_program_of lb) \<and> ports_ok (lb_ports_of lb) \<and>
     distinct (map (\<lambda>(i, p). lp_type p) (lb_get_ports lb)) \<and>
     (length (lb_get_ports lb) = 2 \<longrightarrow> (\<forall>(i, p) \<in> set (lb_get_ports lb).
        (if lp_type p = PORT_FRONTEND then FRONTEND_PORT (lb_program_of lb) else BACKEND_PORT (lb_program_of lb)) = of_nat i))"

lemma mset_smap_insert: "smap_ok m \<Longrightarrow> map_of m k = None \<Longrightarrow> mset (smap_insert k v m) = add_mset (k, v) (mset m)"
  by (induction k v m rule: smap_insert.induct) (auto simp: smap_ok_def split: if_splits)

lemma with_port_ports:
  assumes "ports_ok (lb_ports_of lb)" "port_of lb name = None" "lb_ports_of lb' = with_port name p (lb_ports_of lb)"
  shows "mset (lb_get_ports lb') = add_mset (hd (free_ports (lb_ports_of lb)), p) (mset (lb_get_ports lb))"
  using mset_smap_insert [OF ports_okD(3) [OF assms(1)] assms(2)] assms(3) by (simp add: lb_get_ports_def get_ports_def with_port_def)

lemma reload_two:
  assumes "length ps = 2" "distinct (map (\<lambda>(i, p). lp_type p) ps)" "(i, p) \<in> set ps"
    and "foldl (\<lambda>(fe, be) (i, p). if lp_type p = PORT_FRONTEND then (of_nat i, be) else (fe, of_nat i)) (0, 1) ps = (fe :: 16 word, be :: 16 word)"
  shows "(if lp_type p = PORT_FRONTEND then fe else be) = of_nat i"
proof -
  obtain i1 p1 i2 p2 where ps: "ps = [(i1, p1), (i2, p2)]" using assms(1) by (auto simp: length_Suc_conv numeral_2_eq_2)
  then show ?thesis using assms(2-) by (cases "lp_type p1"; cases "lp_type p2") auto
qed

lemma addPortsInSinglePortMode_keeps:
  assumes ok: "single_ok lb" and env: "cube_env_ok ce"
  shows "single_ok (fst (addPortsInSinglePortMode ce name conf lb))"
proof (cases "snd (addPortsInSinglePortMode ce name conf lb)")
  case (Inl e)
  have conn: "connects (ce_ports ce) name = Inr ()" "configures (ce_ports ce) name = Inr ()" using env by (auto simp: cube_env_ok_def)
  have pk: "ports_ok (lb_ports_of lb)" using ok by (simp add: single_ok_def)
  have "fst (addPortsInSinglePortMode ce name conf lb) = lb"
  proof (cases "pj_type conf")
    case (Some t)
    then obtain p where p: "Ports_new conf = Inr p" by (auto simp: Ports_new_def)
    show ?thesis using pk conn
      by (cases rule: add_port_cases [where p = p]) (use Inl Some p in \<open>auto simp: addPortsInSinglePortMode_def lb_add_port_def split: if_splits\<close>)
  qed (simp add: addPortsInSinglePortMode_def)
  then show ?thesis using ok by simp
next
  case (Inr u)
  have conn: "connects (ce_ports ce) name = Inr ()" "configures (ce_ports ce) name = Inr ()" using env by (auto simp: cube_env_ok_def)
  have pk: "ports_ok (lb_ports_of lb)" using ok by (simp add: single_ok_def)
  obtain t where t: "pj_type conf = Some t" using Inr by (cases "pj_type conf") (auto simp: addPortsInSinglePortMode_def)
  obtain p where p: "Ports_new conf = Inr p" "lp_type p = t" using t by (auto simp: Ports_new_def)
  have len: "length (lb_get_ports lb) \<noteq> 2" and fe: "t = PORT_FRONTEND \<Longrightarrow> length (getFrontendPorts lb) \<noteq> 1" and be: "t = PORT_BACKEND \<Longrightarrow> getBackendPort lb = None"
    using Inr t by (cases "getBackendPort lb"; auto simp: addPortsInSinglePortMode_def split: if_splits)+
  show ?thesis using pk conn
  proof (cases rule: add_port_cases [where p = p])
    case refused
    then show ?thesis using Inr t p by (auto simp: addPortsInSinglePortMode_def lb_add_port_def split: if_splits)
  next
    case added
    define lb1 where "lb1 = lb\<lparr>lb_ports_of := with_port name p (lb_ports_of lb)\<rparr>"
    have run: "fst (addPortsInSinglePortMode ce name conf lb) = (if length (lb_get_ports lb1) = 2 then reloadCodeWithNewPorts lb1 else lb1)"
      using Inr t p added by (auto simp: addPortsInSinglePortMode_def lb_add_port_def lb1_def split: if_splits)
    have ms: "mset (lb_get_ports lb1) = add_mset (hd (free_ports (lb_ports_of lb)), p) (mset (lb_get_ports lb))"
      by (rule with_port_ports [OF pk added(1)]) (simp add: lb1_def)
    have "t \<notin> lp_type ` snd ` set (lb_get_ports lb)"
    proof (cases t)
      case PORT_FRONTEND
      have "distinct (map (\<lambda>(i, p). lp_type p) (getFrontendPorts lb))" using ok by (simp add: single_ok_def getFrontendPorts_def distinct_map_filter)
      moreover have "set (map (\<lambda>(i, p). lp_type p) (getFrontendPorts lb)) \<subseteq> {PORT_FRONTEND}" by (auto simp: getFrontendPorts_def)
      ultimately have "length (getFrontendPorts lb) \<le> 1" by (metis card_mono distinct_card finite.emptyI finite.insertI is_singletonI is_singleton_altdef length_map)
      then have "getFrontendPorts lb = []" using fe [OF PORT_FRONTEND] by (cases "getFrontendPorts lb") auto
      then show ?thesis using PORT_FRONTEND by (auto simp: getFrontendPorts_def filter_empty_conv)
    next
      case PORT_BACKEND
      then show ?thesis using be by (fastforce simp: getBackendPort_def find_None_iff)
    qed
    then have "distinct (map (\<lambda>(i, p). lp_type p) ((hd (free_ports (lb_ports_of lb)), p) # lb_get_ports lb))"
      using ok p(2) by (auto simp: single_ok_def image_iff)
    moreover have "mset (map (\<lambda>(i, p). lp_type p) (lb_get_ports lb1)) = mset (map (\<lambda>(i, p). lp_type p) ((hd (free_ports (lb_ports_of lb)), p) # lb_get_ports lb))"
      using ms by simp
    ultimately have d: "distinct (map (\<lambda>(i, p). lp_type p) (lb_get_ports lb1))" by (metis mset_eq_imp_distinct_iff)
    have ok1: "ports_ok (lb_ports_of lb1)" "port_mode lb1 = MODE_SINGLE" "SINGLE_PORT_MODE (lb_program_of lb1)" using added(4) ok by (simp_all add: lb1_def single_ok_def)
    show ?thesis
    proof (cases "length (lb_get_ports lb1) = 2")
      case True
      obtain fe be where fb: "foldl (\<lambda>(fe, be) (i, p). if lp_type p = PORT_FRONTEND then (of_nat i, be) else (fe, of_nat i)) (0, 1) (lb_get_ports lb1) = (fe :: 16 word, be :: 16 word)"
        by fastforce
      have ports: "lb_get_ports (reloadCodeWithNewPorts lb1) = lb_get_ports lb1" by (simp add: reloadCodeWithNewPorts_def lb_get_ports_def case_prod_unfold Let_def)
      have pg: "FRONTEND_PORT (lb_program_of (reloadCodeWithNewPorts lb1)) = fe" "BACKEND_PORT (lb_program_of (reloadCodeWithNewPorts lb1)) = be"
        unfolding reloadCodeWithNewPorts_def fb by simp_all
      have rest: "port_mode (reloadCodeWithNewPorts lb1) = MODE_SINGLE" "lb_ports_of (reloadCodeWithNewPorts lb1) = lb_ports_of lb1"
          "SINGLE_PORT_MODE (lb_program_of (reloadCodeWithNewPorts lb1))"
        unfolding reloadCodeWithNewPorts_def fb using ok1(2) by (simp_all add: buildLbrpCode_def)
      have "single_ok (reloadCodeWithNewPorts lb1)" unfolding single_ok_def ports pg rest
        using ok1(1) d rest(3) reload_two [OF True d _ fb] by blast
      then show ?thesis using run True by simp
    next
      case False
      then show ?thesis using run ok1 d by (simp add: single_ok_def)
    qed
  qed
qed

lemma delPorts_keeps_single:
  assumes ok: "single_ok lb"
  shows "single_ok (fst (delPorts name lb))"
proof (cases "port_of lb name")
  case None
  then show ?thesis using ok by (simp add: delPorts_def get_port_def)
next
  case (Some ip)
  then obtain i p where here: "port_of lb name = Some (i, p)" by (cases ip) simp
  have pk: "ports_ok (lb_ports_of lb)" and mode: "port_mode lb = MODE_SINGLE" using ok by (simp_all add: single_ok_def)
  note R = remove_port_ok [OF pk here]
  define lb' where "lb' = lb\<lparr>lb_ports_of := without_port name i (lb_ports_of lb)\<rparr>"
  have run: "fst (delPorts name lb) = lb'" using here R(1) mode by (simp add: delPorts_def get_port_def lb'_def)
  let ?l = "lib_ports (lb_ports_of lb)"
  have ports: "lb_get_ports lb' = map snd (smap_erase name ?l)" by (simp add: lb'_def lb_get_ports_def get_ports_def without_port_def)
  have d: "distinct (map (\<lambda>(n, i, p). lp_type p) ?l)" using ok by (simp add: single_ok_def lb_get_ports_def get_ports_def comp_def case_prod_unfold)
  then have d': "distinct (map (\<lambda>(i, p). lp_type p) (lb_get_ports lb'))"
    unfolding ports smap_erase_def using distinct_map_filter [of "\<lambda>(n, i, p). lp_type p" ?l] by (simp add: comp_def case_prod_unfold)
  have "card (set (map (\<lambda>(n, i, p). lp_type p) ?l)) \<le> card {PORT_FRONTEND, PORT_BACKEND}"
    by (rule card_mono) (use PortsTypeEnum.exhaust in blast)+
  then have "length ?l \<le> 2" using distinct_card [OF d] by simp
  moreover have "length (smap_erase name ?l) < length ?l"
    using map_of_SomeD [OF here] unfolding smap_erase_def by (intro length_filter_less [of "(name, (i, p))"]) auto
  ultimately have "length (lb_get_ports lb') \<noteq> 2" by (simp add: ports)
  then show ?thesis unfolding run using ok R(2) d' by (simp add: single_ok_def lb'_def)
qed

section \<open>Sequences of operations\<close>

datatype port_op = AddPort string PortsJsonObject | DelPort string | ReplacePort string PortsJsonObject

definition port_step :: "cube_env \<Rightarrow> port_op \<Rightarrow> lbrp \<Rightarrow> lbrp" where
  "port_step ce op lb =
     fst (case op of
            AddPort name conf \<Rightarrow> addPorts ce name conf lb
          | DelPort name \<Rightarrow> delPorts name lb
          | ReplacePort name conf \<Rightarrow> replacePorts ce name conf lb)"

definition port_run :: "cube_env \<Rightarrow> port_op list \<Rightarrow> lbrp \<Rightarrow> lbrp" where
  "port_run ce ops lb = fold (port_step ce) ops lb"

fun op_canonical :: "port_op \<Rightarrow> bool" where
  "op_canonical (AddPort name conf) = (case pj_ip conf of Some ip \<Rightarrow> canonical_ip ip | None \<Rightarrow> True)"
| "op_canonical (ReplacePort name conf) = (case pj_ip conf of Some ip \<Rightarrow> canonical_ip ip | None \<Rightarrow> True)"
| "op_canonical (DelPort name) = True"

lemma addPorts_keeps_multi:
  assumes "multi_ok lb" "cube_env_ok ce" "\<forall>ip. pj_ip conf = Some ip \<longrightarrow> canonical_ip ip"
  shows "multi_ok (fst (addPorts ce name conf lb))"
  using addPortsInMultiPortMode_keeps [OF assms] multi_okD(1) [OF assms(1)] by (simp add: addPorts_def)

lemma port_step_multi:
  assumes "multi_ok lb" "cube_env_ok ce" "op_canonical op"
  shows "multi_ok (port_step ce op lb)"
proof (cases op)
  case (ReplacePort name conf)
  obtain lb1 r where d: "delPorts name lb = (lb1, r)" by fastforce
  have "multi_ok lb1" using delPorts_keeps_multi [OF assms(1), of name] d by simp
  then have "multi_ok (fst (addPorts ce (pj_name conf) conf lb1))" using addPorts_keeps_multi assms(2,3) ReplacePort by (auto split: option.splits)
  then show ?thesis using \<open>multi_ok lb1\<close> d by (cases r) (simp_all add: port_step_def replacePorts_def ReplacePort)
qed (use assms addPorts_keeps_multi delPorts_keeps_multi in \<open>auto simp: port_step_def split: option.splits\<close>)

lemma port_run_multi: "multi_ok lb \<Longrightarrow> cube_env_ok ce \<Longrightarrow> list_all op_canonical ops \<Longrightarrow> multi_ok (port_run ce ops lb)"
  by (induction ops arbitrary: lb) (auto simp: port_run_def port_step_multi)

lemma multi_empty: "multi_ok (empty_lbrp MODE_MULTI)"
  using new_cube_ports_ok by (intro multi_okI) (auto simp: empty_lbrp_def buildLbrpCode_def new_cube_ports_def is_frontend_def is_backend_def)

lemma addPorts_keeps_single:
  assumes "single_ok lb" "cube_env_ok ce"
  shows "single_ok (fst (addPorts ce name conf lb))"
  using addPortsInSinglePortMode_keeps [OF assms] assms(1) by (simp add: addPorts_def single_ok_def)

lemma port_step_single:
  assumes "single_ok lb" "cube_env_ok ce"
  shows "single_ok (port_step ce op lb)"
proof (cases op)
  case (ReplacePort name conf)
  obtain lb1 r where d: "delPorts name lb = (lb1, r)" by fastforce
  have "single_ok lb1" using delPorts_keeps_single [OF assms(1), of name] d by simp
  then show ?thesis using d addPorts_keeps_single [OF _ assms(2)] by (cases r) (simp_all add: port_step_def replacePorts_def ReplacePort)
qed (use assms addPorts_keeps_single delPorts_keeps_single in \<open>auto simp: port_step_def\<close>)

lemma port_run_single: "single_ok lb \<Longrightarrow> cube_env_ok ce \<Longrightarrow> single_ok (port_run ce ops lb)"
  by (induction ops arbitrary: lb) (auto simp: port_run_def port_step_single)

lemma single_empty: "single_ok (empty_lbrp MODE_SINGLE)"
  using new_cube_ports_ok by (simp add: single_ok_def empty_lbrp_def buildLbrpCode_def lb_get_ports_def get_ports_def new_cube_ports_def)

end
