(* ===== verification/Lb_Example.thy ===== *)
theory Lb_Example
  imports Lb_Ports
begin

text \<open>
  What the properties of the load balancer share, and a concrete service, kernel and frame for their witnesses (names \<open>lx_\<close>).
\<close>

section \<open>Lemmas on the operations\<close>

lemma service_array_hangs:
  assumes env: "lb_env_ok env" and d: "distinct (map fst (service_backends s))" and none: "serving_ips s = {}"
  shows "service_array env s = None"
proof -
  note W = service_weights_keys [OF env, where s = s]
  have "distinct (map fst (service_weights env s))" using d mset_eq_imp_distinct_iff [OF W(1)] by simp
  moreover have "\<forall>(ip, w) \<in> set (service_weights env s). w = 0"
  proof (clarify)
    fix ip w assume "(ip, w) \<in> set (service_weights env s)"
    then obtain b where "(ip, b) \<in> set (service_backends s)" "w = uint (sb_weight b)" using W(2) by blast
    then show "w = 0" using none by (auto simp: serving_ips_def)
  qed
  ultimately show ?thesis by (simp add: service_array_def getConsistentArray_def get_weight_backend_hangs)
qed

lemma updateConsistentHashMap_ends:
  "updateConsistentHashMap env (s, w) = None \<longleftrightarrow> service_array env s = None"
  by (auto simp: updateConsistentHashMap_def in_kernel_def split: option.splits sum.splits prod.splits)

lemma addBackend_state:
  assumes "bj_ip conf \<notin> fst ` set (service_backends s)" "ServiceBackend_new loc conf = Inr b"
  shows "addBackend env loc (bj_ip conf) conf (s, w) =
    updateConsistentHashMap env (addBackendToServiceMatrix env (bj_ip conf) (s\<lparr>service_backends := service_backends s @ [(bj_ip conf, b)]\<rparr>, w))"
proof -
  have "map_of (service_backends s) (bj_ip conf) = None" using assms(1) by (simp add: map_of_eq_None_iff)
  moreover have "(case bj_weight conf of Some x \<Rightarrow> x < 1 \<and> x \<noteq> 0 | None \<Rightarrow> False) = False" by (auto simp: word_less_1 split: option.splits)
  ultimately show ?thesis using assms(2) by (simp add: addBackend_def)
qed

text \<open>The parent of every backend that \<open>addBackend\<close> makes.\<close>

lemma updateConsistentHashMap_service: "updateConsistentHashMap env (s, w) = Some ((s', w'), r) \<Longrightarrow> s' = s"
  by (auto simp: updateConsistentHashMap_def in_kernel_def Let_def split: option.splits sum.splits prod.splits)

lemma addBackend_local:
  assumes "addBackend env True ip conf (s, w) = Some ((s', w'), r)" "\<forall>(i, b) \<in> set (service_backends s). sb_local b"
  shows "\<forall>(i, b) \<in> set (service_backends s'). sb_local b"
proof (cases "service_backends s' = service_backends s")
  case False
  then obtain b where b: "ServiceBackend_new True conf = Inr b" and
      u: "updateConsistentHashMap env (addBackendToServiceMatrix env ip (s\<lparr>service_backends := service_backends s @ [(bj_ip conf, b)]\<rparr>, w)) = Some ((s', w'), r)"
    using assms(1) by (auto simp: addBackend_def split: if_splits sum.splits)
  obtain s1 w1 where a: "addBackendToServiceMatrix env ip (s\<lparr>service_backends := service_backends s @ [(bj_ip conf, b)]\<rparr>, w) = (s1, w1)" by fastforce
  have "s' = s1" using updateConsistentHashMap_service u a by simp
  moreover have "service_backends s1 = service_backends s @ [(bj_ip conf, b)]" using a by (auto simp: addBackendToServiceMatrix_def)
  moreover have "sb_local b" using b by (auto simp: ServiceBackend_new_def split: option.splits)
  ultimately show ?thesis using assms(2) by simp
qed (use assms(2) in simp)

lemma addBackendList_local:
  assumes "addBackendList env True confs (s, w) = Some ((s', w'), r)" "\<forall>(i, b) \<in> set (service_backends s). sb_local b"
  shows "\<forall>(i, b) \<in> set (service_backends s'). sb_local b"
  using assms
proof (induction confs arbitrary: s w)
  case (Cons c cs)
  obtain s1 w1 r1 where c: "addBackend env True (bj_ip c) c (s, w) = Some ((s1, w1), r1)"
    using Cons.prems(1) by (cases "addBackend env True (bj_ip c) c (s, w)") (auto simp: addBackendList_def)
  note l = addBackend_local [OF c Cons.prems(2)]
  show ?case
  proof (cases r1)
    case (Inl e)
    then show ?thesis using Cons.prems(1) c l by (simp add: addBackendList_def)
  next
    case (Inr x)
    then have "addBackendList env True cs (s1, w1) = Some ((s', w'), r)" using Cons.prems(1) c by (simp add: addBackendList_def)
    then show ?thesis using Cons.IH l by blast
  qed
qed (simp add: addBackendList_def)

text \<open>A rule of the trie after an update of the range.\<close>

definition senses :: "lb_kernel \<Rightarrow> sense set" where
  "senses kn = rw_sense ` ran (src_ip_rewrite kn)"

lemma set_rewrite_senses:
  "set_rewrite ce k v lb = (lb', r) \<Longrightarrow> senses (lb_kn (lb_world_of lb')) \<subseteq> insert (rw_sense v) (senses (lb_kn (lb_world_of lb)))"
proof -
  assume r: "set_rewrite ce k v lb = (lb', r)"
  have "ran (t(k \<mapsto> v)) \<subseteq> insert v (ran t)" for t by (auto simp: ran_def)
  then have "rw_sense ` ran (t(k \<mapsto> v)) \<subseteq> insert (rw_sense v) (rw_sense ` ran t)" for t by blast
  note le = this [of "src_ip_rewrite (lb_kn (lb_world_of lb))"]
  show ?thesis
  proof (cases "room_rewrite ce (src_ip_rewrite (lb_kn (lb_world_of lb))) k")
    case True
    then have "src_ip_rewrite (lb_kn (lb_world_of lb')) = (src_ip_rewrite (lb_kn (lb_world_of lb)))(k \<mapsto> v)"
      using r by (auto simp: set_rewrite_def table_set_def Let_def)
    then show ?thesis using le by (simp only: senses_def)
  next
    case False
    then have "src_ip_rewrite (lb_kn (lb_world_of lb')) = src_ip_rewrite (lb_kn (lb_world_of lb))"
      using r by (auto simp: set_rewrite_def table_set_def Let_def)
    then show ?thesis by (auto simp: senses_def)
  qed
qed

lemma SrcIpRewrite_update_senses:
  assumes "SrcIpRewrite_update ce conf lb = (lb', r)"
  shows "senses (lb_kn (lb_world_of lb')) \<subseteq> insert FROM_BACKEND (senses (lb_kn (lb_world_of lb)))"
proof -
  let ?K = "\<lambda>lb. senses (lb_kn (lb_world_of lb))"
  define P where "P = (\<lambda>lb2 :: lbrp. ?K lb2 \<subseteq> insert FROM_BACKEND (?K lb))"
  have step: "P (fst (sbind (set_rewrite ce k v lb2) f))"
    if "P lb2" "rw_sense v = FROM_BACKEND" "\<And>x lb3. P lb3 \<Longrightarrow> P (fst (f x lb3))" for k v f and lb2 :: lbrp
  proof -
    obtain lb3 r3 where s: "set_rewrite ce k v lb2 = (lb3, r3)" by fastforce
    have "P lb3" using set_rewrite_senses [OF s] that(1,2) by (auto simp: P_def)
    then show ?thesis using that(3) s by (cases r3) simp_all
  qed
  have "P (fst (SrcIpRewrite_update ce conf lb))"
    unfolding SrcIpRewrite_update_def Let_def
    by (auto split: option.splits sum.splits intro!: step simp del: sbind.simps) (simp_all add: P_def subset_insertI)
  then show ?thesis using assms by (simp add: P_def)
qed

section \<open>The example\<close>

definition lx_env :: lb_env where
  "lx_env = \<lparr>hash_order = \<lambda>xs. xs, shuffle = \<lambda>n xs. xs, room_services = \<lambda>t k. True, room_backends = \<lambda>t k. True\<rparr>"

definition lx_vip :: string where "lx_vip = nbo_uint_to_ip_string 0x0100000A"
definition lx_ip :: string where "lx_ip = nbo_uint_to_ip_string 0x0200000A"
definition lx_ip2 :: string where "lx_ip2 = nbo_uint_to_ip_string 0x0300000A"

definition lx_conf :: "string \<Rightarrow> 16 word option \<Rightarrow> ServiceBackendJsonObject" where
  "lx_conf ip x = \<lparr>bj_ip = ip, bj_port = Some 8080, bj_weight = x, bj_name = None\<rparr>"

definition lx_backend :: "string \<Rightarrow> ServiceBackend" where
  "lx_backend ip = \<lparr>sb_ip = ip, sb_port = 8080, sb_weight = 1, sb_name = [], sb_local = False\<rparr>"

definition lx_service :: "string list \<Rightarrow> Service" where
  "lx_service ips = \<lparr>service_vip = lx_vip, service_vport = 80, service_proto = LB_TCP, service_name = [],
     service_backends = map (\<lambda>ip. (ip, lx_backend ip)) ips, backend_matrix = foldr (\<lambda>ip. matrix_put ip (map int [0..<30])) ips []\<rparr>"

definition lx_empty :: lb_kernel where
  "lx_empty = \<lparr>services = Map.empty, hash_session = Map.empty, src_ip_rewrite = Map.empty, backend_to_service = Map.empty, ip_to_frontend_port = Map.empty\<rparr>"

definition lx_world :: lb_world where "lx_world = \<lparr>lb_kn = lx_empty, draws = 0\<rparr>"

lemma lx_ip_num [simp]: "ip_num (nbo_uint_to_ip_string a) = a" "valid_ip (nbo_uint_to_ip_string a)"
  by (simp_all add: ip_num_def valid_ip_def ip_print_parse)

lemma lx_ips [simp]: "valid_ip lx_vip" "valid_ip lx_ip" "valid_ip lx_ip2" "ip_num lx_vip = 0x0100000A" "ip_num lx_ip = 0x0200000A" "ip_num lx_ip2 = 0x0300000A"
  by (simp_all add: lx_vip_def lx_ip_def lx_ip2_def)

lemma lx_ip_neq [simp]: "lx_ip \<noteq> lx_ip2" "lx_ip2 \<noteq> lx_ip"
  using lx_ips(5,6) by fastforce+

lemma lx_env_ok [simp]: "lb_env_ok lx_env" "lb_room_ok lx_env"
  by (simp_all add: lb_env_ok_def lb_room_ok_def lx_env_def)

lemma lx_live: "live 30 (map int [0..<30])"
  using random_live [OF lx_env_ok(1), of 0] by (simp add: getRandomIntVector_def lx_env_def del: upt_rec_numeral)

lemma lx_service_ok: "distinct ips \<Longrightarrow> length ips \<le> 10 \<Longrightarrow> \<forall>ip \<in> set ips. valid_ip ip \<Longrightarrow> service_ok (lx_service ips)"
proof -
  assume d: "distinct ips" and len: "length ips \<le> 10" and v: "\<forall>ip \<in> set ips. valid_ip ip"
  let ?m = "\<lambda>ips. foldr (\<lambda>ip. matrix_put ip (map int [0..<30])) ips []"
  have "sorted_wrt (<) (map fst (?m ips)) \<and> matrix_ok 30 (?m ips) \<and> live_ips 30 (?m ips) = set ips" if "\<forall>ip \<in> set ips. valid_ip ip" for ips
    using that
  proof (induction ips)
    case (Cons ip ips)
    then have ih: "sorted_wrt (<) (map fst (?m ips))" "matrix_ok 30 (?m ips)" "live_ips 30 (?m ips) = set ips" and ip: "ip \<noteq> unset" using valid_ip_set by auto
    show ?case using matrix_put_ok [OF ih(1,2) ip disjI1 [OF lx_live]] ih(3) lx_live by (simp del: upt_rec_numeral)
  qed (simp add: matrix_ok_def live_ips_def)
  then have m: "sorted_wrt (<) (map fst (?m ips))" "matrix_ok 30 (?m ips)" "live_ips 30 (?m ips) = set ips" using v by auto
  show ?thesis
    by (rule service_okI [OF _ _ _ _ _ _ m(1,2)]) (use d len v m(3) in \<open>auto simp: lx_service_def lx_backend_def comp_def image_image\<close>)
qed

lemma lx_service_simps [simp]:
  "service_vip (lx_service ips) = lx_vip" "service_vport (lx_service ips) = 80" "service_proto (lx_service ips) = LB_TCP"
  "service_backends (lx_service ips) = map (\<lambda>ip. (ip, lx_backend ip)) ips"
  by (simp_all add: lx_service_def)

lemma lx_serving [simp]: "serving_ips (lx_service ips) = set ips"
  by (auto simp: serving_ips_def lx_backend_def)

lemma lx_keys: "finite (service_keys s)" "card (service_keys s) \<le> 31" "finite (backend_keys s)"
proof -
  show "finite (service_keys s)" "finite (backend_keys s)" by (simp_all add: service_keys_def backend_keys_def)
  have "card (service_keys s) \<le> card {0..30 :: nat}" unfolding service_keys_def by (rule card_image_le) simp
  then show "card (service_keys s) \<le> 31" by simp
qed

lemma lx_room: "length ips < 1000 \<Longrightarrow> room_for_one (lx_service ips) lx_empty" "length ips < 1000 \<Longrightarrow> fits (lx_service ips) lx_empty"
proof -
  assume len: "length ips < 1000"
  have "card (backend_keys (lx_service ips)) \<le> card (fst ` set (service_backends (lx_service ips)))"
    unfolding backend_keys_def by (rule card_image_le) simp
  also have "\<dots> \<le> length ips" using card_length [of ips] by (simp add: image_image)
  finally have "card (backend_keys (lx_service ips)) \<le> length ips" .
  then show "room_for_one (lx_service ips) lx_empty" "fits (lx_service ips) lx_empty"
    using len lx_keys [of "lx_service ips"] by (simp_all add: room_for_one_def fits_def lx_empty_def MAX_SERVICES_def)
qed

text \<open>A kernel that holds the service with one backend, and a frame of a client with the answer of the backend.\<close>

definition lx_one :: Service where "lx_one = lx_service [lx_ip]"

definition lx_kernel :: lb_kernel where
  "lx_kernel = lx_empty\<lparr>services := (\<lambda>k. if k = vkey lx_one 0 then Some \<lparr>bck_ip = 0x0100000A, bck_port = 30, bck_proto = 0\<rparr>
     else if k \<in> vkey lx_one ` {1..30} then Some (lb_entry_of lx_one lx_ip) else None)\<rparr>"

lemma lx_synced: "synced_service lx_one lx_kernel"
proof -
  have "services lx_kernel (vkey lx_one (Suc i)) = Some (lb_entry_of lx_one lx_ip)" if "i < 30" for i
  proof -
    have "vkey lx_one (Suc i) \<noteq> vkey lx_one 0" using that vkey_inj [of "Suc i" 0 lx_one] by (simp del: of_nat_Suc)
    moreover have "vkey lx_one (Suc i) \<in> vkey lx_one ` {1..30}" using that by (intro imageI) simp
    ultimately show ?thesis by (simp add: lx_kernel_def lx_empty_def)
  qed
  then have "kernel_has lx_one (replicate 30 lx_ip) lx_kernel"
    unfolding kernel_has_def by (simp add: lx_one_def lx_kernel_def lx_empty_def del: of_nat_Suc)
  then show ?thesis unfolding synced_service_def by (intro exI [of _ "replicate 30 lx_ip"]) (simp add: lx_one_def)
qed

lemma lx_one_ok: "service_ok lx_one"
  unfolding lx_one_def by (rule lx_service_ok) simp_all

definition lx_frame :: "32 word \<Rightarrow> 32 word \<Rightarrow> 16 word \<Rightarrow> 16 word \<Rightarrow> frame" where
  "lx_frame src dst sport dport =
     replicate 12 0 @ [8, 0] @ replicate 9 0 @ [6, 0, 0] @ u32_bytes src @ u32_bytes dst @ u16_bytes sport @ u16_bytes dport @ replicate 16 0"

definition lx_params :: lb_params where
  "lx_params = \<lparr>jhash = \<lambda>k. ses_ip_src k + ses_ip_dst k + ucast (ses_port_src k), rewrite_lookup = \<lambda>t a. None\<rparr>"

definition lx_program :: lb_program where
  "lx_program = \<lparr>SINGLE_PORT_MODE = True, BACKEND_PORT = 0, FRONTEND_PORT = 1\<rparr>"

lemma lx_params_ok: "lb_params_ok lx_params"
  by (simp add: lb_params_ok_def lx_params_def)

lemma lx_frame_fields:
  "length (lx_frame src dst sport dport) = 54" "u32_at (lx_frame src dst sport dport) 26 = src" "u32_at (lx_frame src dst sport dport) 30 = dst"
  "u16_at (lx_frame src dst sport dport) 34 = sport" "u16_at (lx_frame src dst sport dport) 36 = dport"
  "u16_at (lx_frame src dst sport dport) 12 = 8" "ip_protocol (lx_frame src dst sport dport) = 6"
proof -
  have w: "ucast (ucast s :: 8 word) OR push_bit 8 (ucast (ucast (drop_bit 8 s) :: 8 word)) = s" for s :: "16 word"
    using u16_bytes_load [of s "[]"] by (simp add: u16_at_def u16_bytes_def)
  have o: "octets_to_nbo (octet a 0) (octet a (Suc 0)) (octet a 2) (octet a 3) = a" for a :: "32 word" using octets_roundtrip [of a] by simp
  show "length (lx_frame src dst sport dport) = 54" "u32_at (lx_frame src dst sport dport) 26 = src" "u32_at (lx_frame src dst sport dport) 30 = dst"
    "u16_at (lx_frame src dst sport dport) 34 = sport" "u16_at (lx_frame src dst sport dport) 36 = dport"
    "u16_at (lx_frame src dst sport dport) 12 = 8" "ip_protocol (lx_frame src dst sport dport) = 6"
    by (simp_all add: lx_frame_def u32_bytes_def u16_bytes_def u32_at_def u16_at_def ip_protocol_def nth_append o w)
qed

lemma lx_frame_parse: "lb_parse (lx_frame src dst sport dport) = LbIp \<lparr>l4_source = sport, l4_dest = dport, l4_proto = TCP8\<rparr>"
proof -
  have "ntohs ETH_P_IP = 8" by (simp add: ETH_P_IP_def) code_simp
  then show ?thesis by (simp add: lb_parse_def lb_parse_ip_def lx_frame_fields UDP8_def TCP8_def)
qed

lemma lx_to_service: "to_service lx_one (frame_session (lx_frame src 0x0100000A sport (ntohs 80)) \<lparr>l4_source = sport, l4_dest = ntohs 80, l4_proto = TCP8\<rparr>)"
  by (simp add: to_service_def frame_session_def session_key_def lx_frame_fields lx_one_def convertProtoToNumber_def TCP8_def)

lemma lx_add_one:
  "ServiceBackend_new loc (lx_conf lx_ip None) = Inr ((lx_backend lx_ip)\<lparr>sb_local := loc\<rparr>)" "bj_ip (lx_conf lx_ip None) = lx_ip"
  by (simp_all add: ServiceBackend_new_def lx_conf_def lx_backend_def)

end
