(* ===== verification/Lb_Properties.thy ===== *)
theory Lb_Properties
  imports Lb_Example
begin

text \<open>
  The properties of the load balancer \<open>pcn-loadbalancer-rp\<close>: the array of a service, what reaches the kernel, what packets see, and the ports.
\<close>

section \<open>The array\<close>

lemma service_array_ends:
  assumes "lb_env_ok env" "distinct (map fst (service_backends s))"
  shows "service_array env s = None \<longleftrightarrow> serving_ips s = {}"
proof
  show "service_array env s = None" if "serving_ips s = {}" using service_array_hangs [OF assms that] .
next
  assume none: "service_array env s = None"
  show "serving_ips s = {}"
  proof (rule ccontr)
    assume "serving_ips s \<noteq> {}"
    then obtain ip b where b: "(ip, b) \<in> set (service_backends s)" "sb_weight b \<noteq> 0" by (auto simp: serving_ips_def)
    note W = service_weights_keys [OF assms(1), where s = s]
    have "distinct (map fst (service_weights env s))" using assms(2) mset_eq_imp_distinct_iff [OF W(1)] by simp
    moreover have "(ip, uint (sb_weight b)) \<in> set (service_weights env s)" "uint (sb_weight b) \<noteq> 0" using b W(2) by (auto simp: uint_0_iff)
    ultimately obtain pool where "get_weight_backend (length (service_backends s)) (service_weights env s) = Some pool"
      using get_weight_backend_returns by blast
    then show False using none by (simp add: service_array_def getConsistentArray_def Let_def)
  qed
qed

text \<open>
  \<^bold>\<open>C17\<close>. \<open>Service::addBackend\<close> with a valid, new backend returns if and only if afterwards some backend has a weight other than 0. Adding a backend with
  weight 0 to a service without weights, which the check of the weight lets through, never returns: the loop that hands out the remaining entries
  (\<open>while (res > 0)\<close> in \<open>get_weight_backend\<close>) skips every backend.
\<close>

theorem addBackend_ends:
  assumes "lb_env_ok env" "distinct (map fst (service_backends s))" "bj_ip conf \<notin> fst ` set (service_backends s)" "ServiceBackend_new loc conf = Inr b"
  shows "addBackend env loc (bj_ip conf) conf (s, w) \<noteq> None \<longleftrightarrow> sb_weight b \<noteq> 0 \<or> serving_ips s \<noteq> {}"
proof -
  obtain s1 w1 where a: "addBackendToServiceMatrix env (bj_ip conf) (s\<lparr>service_backends := service_backends s @ [(bj_ip conf, b)]\<rparr>, w) = (s1, w1)" by fastforce
  then have bs: "service_backends s1 = service_backends s @ [(bj_ip conf, b)]" by (auto simp: addBackendToServiceMatrix_def)
  then have "distinct (map fst (service_backends s1))" using assms(2,3) by simp
  from service_array_ends [OF assms(1) this] show ?thesis
    unfolding addBackend_state [OF assms(3,4)] a updateConsistentHashMap_ends using bs by (auto simp: serving_ips_def)
qed

theorem addBackend_ends_witness:
  "addBackend lx_env False lx_ip (lx_conf lx_ip (Some 0)) (lx_service [], lx_world) = None \<and>
   addBackend lx_env False lx_ip (lx_conf lx_ip None) (lx_service [], lx_world) \<noteq> None"
proof
  have new: "ServiceBackend_new False (lx_conf lx_ip x) = Inr ((lx_backend lx_ip)\<lparr>sb_weight := case x of Some y \<Rightarrow> y | None \<Rightarrow> 1\<rparr>)" for x
    by (simp add: ServiceBackend_new_def lx_conf_def lx_backend_def)
  note T = addBackend_ends [OF lx_env_ok(1) _ _ new, of "lx_service []"]
  have ip: "bj_ip (lx_conf lx_ip x) = lx_ip" for x by (simp add: lx_conf_def)
  show "addBackend lx_env False lx_ip (lx_conf lx_ip (Some 0)) (lx_service [], lx_world) = None" using T [of "Some 0" lx_world] by (simp add: ip del: not_None_eq)
  show "addBackend lx_env False lx_ip (lx_conf lx_ip None) (lx_service [], lx_world) \<noteq> None" using T [of None lx_world] by (simp add: ip lx_backend_def del: not_None_eq)
qed

text \<open>
  \<^bold>\<open>C16\<close>. The array of a service with up to ten backends has thirty entries, all of them backends with a weight, and each of these has one. With the weight
  every backend has by default, the numbers of entries of two backends differ by at most one: rounding and the order of the hash table do not matter.
\<close>

theorem array_shares:
  assumes "lb_env_ok env" "service_ok s" "serving_ips s \<noteq> {}"
  shows "\<exists>arr. service_array env s = Some (Inr arr) \<and> length arr = 30 \<and> set arr = serving_ips s \<and>
    ((\<forall>(ip, b) \<in> set (service_backends s). sb_weight b = 1) \<longrightarrow>
     (\<forall>ip \<in> serving_ips s. 30 div length (service_backends s) \<le> count_list arr ip \<and> count_list arr ip \<le> 30 div length (service_backends s) + 1))"
proof -
  let ?ws = "service_weights env s" and ?n = "length (service_backends s)"
  note W = service_weights_keys [OF assms(1), where s = s]
  obtain arr pool where arr: "service_array env s = Some (Inr arr)" "length arr = 30" "set arr = serving_ips s"
      and pool: "get_weight_backend ?n ?ws = Some pool"
      "(\<Sum>ip \<in> fst ` set (service_backends s). pool ip) = 30 \<longrightarrow> (\<forall>ip \<in> serving_ips s. int (count_list arr ip) = pool ip)"
    using service_array_ok [OF assms] by blast
  have "30 div ?n \<le> count_list arr ip \<and> count_list arr ip \<le> 30 div ?n + 1"
    if one: "\<forall>(ip, b) \<in> set (service_backends s). sb_weight b = 1" and ip: "ip \<in> serving_ips s" for ip
  proof -
    have d: "distinct (map fst ?ws)" using service_okD(2) [OF assms(2)] mset_eq_imp_distinct_iff [OF W(1)] by simp
    have len: "length ?ws = ?n" using arg_cong [OF W(1), of size] by simp
    have keys: "fst ` set ?ws = fst ` set (service_backends s)" using arg_cong [OF W(1), of set_mset] by simp
    have n: "1 \<le> length ?ws" "length ?ws \<le> 10" using assms(3) service_okD(4) [OF assms(2)] unfolding len by (auto simp: serving_ips_def Suc_le_eq)
    have w1: "\<forall>(ip, w) \<in> set ?ws. w = 1"
    proof (clarify)
      fix i w assume "(i, w) \<in> set ?ws"
      then obtain b where "(i, b) \<in> set (service_backends s)" "w = uint (sb_weight b)" using W(2) by blast
      then show "w = 1" using one by auto
    qed
    have p: "pool_sum ?ws pool = 30" "\<forall>ip \<in> fst ` set ?ws. pool ip = 30 div int ?n \<or> pool ip = 30 div int ?n + 1"
      using equal_shares [OF d w1 n] pool(1) unfolding len by auto
    have "pool_sum ?ws pool = (\<Sum>ip \<in> fst ` set (service_backends s). pool ip)"
      using d sum.distinct_set_conv_list [of "map fst ?ws" pool] keys by (simp add: pool_sum_def case_prod_unfold comp_def)
    then have "int (count_list arr ip) = pool ip" using pool(2) p(1) ip by simp
    moreover have "ip \<in> fst ` set ?ws" using ip unfolding keys by (force simp: serving_ips_def)
    ultimately have "int (count_list arr ip) = 30 div int ?n \<or> int (count_list arr ip) = 30 div int ?n + 1" using p(2) by auto
    moreover have "30 div int ?n = int (30 div ?n)" by (simp add: zdiv_int)
    ultimately show ?thesis by linarith
  qed
  then show ?thesis using arr by blast
qed

theorem array_shares_witness:
  "\<exists>arr. service_array lx_env (lx_service [lx_ip, lx_ip2]) = Some (Inr arr) \<and> length arr = 30 \<and> set arr = {lx_ip, lx_ip2} \<and>
    15 \<le> count_list arr lx_ip \<and> count_list arr lx_ip2 \<le> 16"
proof -
  have "service_ok (lx_service [lx_ip, lx_ip2])" by (rule lx_service_ok) simp_all
  from array_shares [OF lx_env_ok(1) this] obtain arr where "service_array lx_env (lx_service [lx_ip, lx_ip2]) = Some (Inr arr)" "length arr = 30"
      "set arr = {lx_ip, lx_ip2}" "15 \<le> count_list arr lx_ip \<and> count_list arr lx_ip \<le> 16" "15 \<le> count_list arr lx_ip2 \<and> count_list arr lx_ip2 \<le> 16"
    by (auto simp: lx_backend_def numeral_2_eq_2 [symmetric])
  then show ?thesis by blast
qed

section \<open>What reaches the kernel\<close>

text \<open>
  \<^bold>\<open>C14\<close>. After \<open>Service::addBackend\<close> the kernel holds the array of the service with the new backend: thirty entries under the indexes 1 to 30, each the
  address and port of a backend with a weight, every such backend among them, and the number of entries under index 0. The tables of the other
  services are as before. The assumptions are a valid new address, at most ten backends, and room in the two tables (1024 entries each).
\<close>

theorem addBackend_refines:
  assumes "lb_env_ok env" "lb_room_ok env" "service_ok s" "valid_ip (bj_ip conf)" "bj_ip conf \<notin> fst ` set (service_backends s)"
    and "length (service_backends s) < 10" "ServiceBackend_new loc conf = Inr b" "sb_weight b \<noteq> 0 \<or> serving_ips s \<noteq> {}" "room_for_one s (lb_kn w)"
  shows "\<exists>s' w'. addBackend env loc (bj_ip conf) conf (s, w) = Some ((s', w'), Inr ()) \<and>
    service_backends s' = service_backends s @ [(bj_ip conf, b)] \<and> service_ok s' \<and> synced_service s' (lb_kn w') \<and> others_kept s (lb_kn w) (lb_kn w')"
  using assms by (rule addBackend_syncs)

theorem addBackend_refines_witness:
  "\<exists>s' w'. addBackend lx_env False lx_ip (lx_conf lx_ip None) (lx_service [], lx_world) = Some ((s', w'), Inr ()) \<and> synced_service s' (lb_kn w') \<and> serving_ips s' = {lx_ip}"
proof -
  have "service_ok (lx_service [])" "room_for_one (lx_service []) (lb_kn lx_world)" using lx_service_ok [of "[]"] lx_room(1) [of "[]"] by (simp_all add: lx_world_def)
  then obtain s' w' where "addBackend lx_env False lx_ip (lx_conf lx_ip None) (lx_service [], lx_world) = Some ((s', w'), Inr ())"
      "service_backends s' = [(lx_ip, lx_backend lx_ip)]" "synced_service s' (lb_kn w')"
    using addBackend_refines [OF lx_env_ok, of "lx_service []" "lx_conf lx_ip None" False "lx_backend lx_ip" lx_world] lx_add_one(1) [of False] lx_add_one(2)
    by (auto simp: lx_backend_def)
  then show ?thesis by (auto simp: serving_ips_def lx_backend_def)
qed

text \<open>
  \<^bold>\<open>C15\<close>. After \<open>Service::delBackend\<close> of a backend that is not the last one with a weight, the kernel holds the array of the remaining backends: no packet
  goes to the deleted one any more.
\<close>

theorem delBackend_refines:
  assumes "lb_env_ok env" "lb_room_ok env" "service_ok s" "ip \<in> fst ` set (service_backends s)" "serving_ips s - {ip} \<noteq> {}" "fits s (lb_kn w)"
  shows "\<exists>s' w'. delBackend env ip (s, w) = Some ((s', w'), Inr ()) \<and>
    service_backends s' = filter (\<lambda>(i, b). i \<noteq> ip) (service_backends s) \<and> service_ok s' \<and> synced_service s' (lb_kn w') \<and> others_kept s (lb_kn w) (lb_kn w')"
  using assms by (rule delBackend_syncs)

theorem delBackend_refines_witness:
  "\<exists>s' w'. delBackend lx_env lx_ip2 (lx_service [lx_ip, lx_ip2], lx_world) = Some ((s', w'), Inr ()) \<and> synced_service s' (lb_kn w') \<and> serving_ips s' = {lx_ip}"
proof -
  have "service_ok (lx_service [lx_ip, lx_ip2])" by (rule lx_service_ok) simp_all
  moreover have "fits (lx_service [lx_ip, lx_ip2]) (lb_kn lx_world)" using lx_room(2) [of "[lx_ip, lx_ip2]"] by (simp add: lx_world_def)
  ultimately obtain s' w' where "delBackend lx_env lx_ip2 (lx_service [lx_ip, lx_ip2], lx_world) = Some ((s', w'), Inr ())"
      "service_backends s' = [(lx_ip, lx_backend lx_ip)]" "synced_service s' (lb_kn w')"
    using delBackend_refines [OF lx_env_ok, of "lx_service [lx_ip, lx_ip2]" lx_ip2 lx_world] by auto
  then show ?thesis by (auto simp: serving_ips_def lx_backend_def)
qed

text \<open>
  \<^bold>\<open>C38\<close>. Deleting the backends of a service takes the indexes 0 to 29 out of the kernel; the entry under index 30 stays: the loop of
  \<open>removeServiceFromKernelMap\<close> runs over as many indexes as there are backends in the array, but the array starts at index 1.
\<close>

theorem delBackendList_leaves_last:
  assumes "service_ok s" "service_backends s \<noteq> []" "synced_service s (lb_kn w)"
  shows "\<exists>w'. delBackendList (s, w) = ((s\<lparr>service_backends := [], backend_matrix := []\<rparr>, w'), Inr ()) \<and>
    services (lb_kn w') = (services (lb_kn w)) |` (- vkey s ` {0..<30}) \<and> services (lb_kn w') (vkey s 30) \<noteq> None"
proof -
  obtain arr where arr: "length arr = 30" "kernel_has s arr (lb_kn w)" using assms(3) by (auto simp: synced_service_def)
  note R = removeServiceFromKernelMap_ok [OF service_okD(1) [OF assms(1)] arr(2,1)]
  have "\<forall>i < 30. services (lb_kn w) (vkey s (Suc i)) = Some (lb_entry_of s (arr ! i))" using arr(2) unfolding kernel_has_def arr(1) by blast
  from spec [OF this, of 29] have "services (lb_kn w) (vkey s 30) \<noteq> None" by simp
  moreover have "vkey s 30 \<notin> vkey s ` {0..<30}"
  proof
    assume "vkey s 30 \<in> vkey s ` {0..<30}"
    then obtain i where "i < 30" "vkey s 30 = vkey s i" by auto
    then show False using vkey_inj [of 30 i s] by (simp del: of_nat_numeral)
  qed
  ultimately have "((services (lb_kn w)) |` (- vkey s ` {0..<30})) (vkey s 30) \<noteq> None" by (simp add: restrict_map_def)
  then show ?thesis using R assms(2)
    by (intro exI [of _ "w\<lparr>lb_kn := (lb_kn w)\<lparr>services := (services (lb_kn w)) |` (- vkey s ` {0..<30})\<rparr>\<rparr>"]) (simp add: delBackendList_def in_kernel_def)
qed

theorem delBackendList_leaves_last_witness:
  "\<exists>s' w'. delBackendList (lx_one, \<lparr>lb_kn = lx_kernel, draws = 0\<rparr>) = ((s', w'), Inr ()) \<and> services (lb_kn w') (vkey lx_one 30) \<noteq> None"
proof -
  have "service_backends lx_one \<noteq> []" by (simp add: lx_one_def)
  from delBackendList_leaves_last [OF lx_one_ok this, of "\<lparr>lb_kn = lx_kernel, draws = 0\<rparr>"] lx_synced show ?thesis by auto
qed

section \<open>What packets see\<close>

text \<open>
  \<^bold>\<open>C12\<close>. A frame of a client to a synchronised service goes to the backend port with the address and port of one backend that has a weight, its source
  unchanged; the same session goes to the same backend after every history of frames and evictions, as long as the service is not reconfigured. The
  transport protocol is TCP, UDP or ICMP echo, and no range of source addresses is configured.
\<close>

theorem client_reaches_backend:
  assumes "service_ok s" "synced_service s kn" "src_ip_rewrite kn = Map.empty" "lb_params_ok ps" "lb_parse f = LbIp p" "port \<noteq> BACKEND_PORT pg"
    and "to_service s (frame_session f p)"
  shows "\<exists>ip b. (ip, b) \<in> set (service_backends s) \<and> sb_weight b \<noteq> 0 \<and>
    (\<forall>evs. \<exists>v g cs kn'. Lbrp_rx ps pg port f (lb_history ps pg evs kn) = (v, g, cs, kn') \<and> sent_to pg f p (backend_value s (ip_num ip) b) v g)"
proof -
  obtain arr where arr: "length arr = 30" "set arr = serving_ips s" "kernel_has s arr kn" using assms(2) by (auto simp: synced_service_def)
  let ?ip = "arr ! (unat (jhash ps (frame_session f p)) mod 30)"
  have "?ip \<in> serving_ips s" using arr(1,2) by (metis mod_less_divisor nth_mem zero_less_numeral)
  then obtain b where b: "(?ip, b) \<in> set (service_backends s)" "sb_weight b \<noteq> 0" by (auto simp: serving_ips_def)
  then have e: "lb_entry_of s ?ip = backend_value s (ip_num ?ip) b" using service_okD(2) [OF assms(1)] by (simp add: lb_entry_of_def)
  have "\<exists>v g cs kn'. Lbrp_rx ps pg port f (lb_history ps pg evs kn) = (v, g, cs, kn') \<and> sent_to pg f p (backend_value s (ip_num ?ip) b) v g" for evs
  proof -
    have "kernel_has s arr (lb_history ps pg evs kn)" using arr(3) unfolding kernel_has_def history_tables .
    moreover have "src_ip_rewrite (lb_history ps pg evs kn) = Map.empty" using assms(3) by (simp add: history_tables)
    ultimately show ?thesis using lb_frontend_synced [OF _ arr(1) assms(7,4) _ assms(5,6)] unfolding e by blast
  qed
  then show ?thesis using b by blast
qed

abbreviation lx_request :: frame where
  "lx_request \<equiv> lx_frame 0x0900000A 0x0100000A 4242 (ntohs 80)"

abbreviation lx_ports :: lb_ports where
  "lx_ports \<equiv> \<lparr>l4_source = 4242, l4_dest = ntohs 80, l4_proto = TCP8\<rparr>"

lemma lx_no_rewrite: "src_ip_rewrite lx_kernel = Map.empty" "1 \<noteq> BACKEND_PORT lx_program"
  by (simp_all add: lx_kernel_def lx_empty_def lx_program_def)

lemmas lx_arrives = lx_one_ok lx_synced lx_no_rewrite(1) lx_params_ok lx_frame_parse [of "0x0900000A" "0x0100000A" 4242 "ntohs 80"] lx_no_rewrite(2)
  lx_to_service [of "0x0900000A" 4242]

theorem client_reaches_backend_witness:
  "\<exists>g cs kn'. Lbrp_rx lx_params lx_program 1 lx_request lx_kernel = (LB_REDIRECT 0, g, cs, kn') \<and> u32_at g 30 = 0x0200000A \<and> u16_at g 36 = ntohs 8080"
proof -
  obtain ip b where b: "(ip, b) \<in> set (service_backends lx_one)" "sb_weight b \<noteq> 0"
      "\<forall>evs. \<exists>v g cs kn'. Lbrp_rx lx_params lx_program 1 lx_request (lb_history lx_params lx_program evs lx_kernel) = (v, g, cs, kn') \<and>
        sent_to lx_program lx_request lx_ports (backend_value lx_one (ip_num ip) b) v g"
    using client_reaches_backend [OF lx_arrives] by blast
  obtain v g cs kn' where run: "Lbrp_rx lx_params lx_program 1 lx_request lx_kernel = (v, g, cs, kn')"
      "sent_to lx_program lx_request lx_ports (backend_value lx_one (ip_num ip) b) v g"
    using spec [OF b(3), of "[]"] by (auto simp: lb_history_def)
  have "ip = lx_ip" "b = lx_backend lx_ip" using b(1) by (simp_all add: lx_one_def)
  then have "v = LB_REDIRECT 0 \<and> u32_at g 30 = 0x0200000A \<and> u16_at g 36 = ntohs 8080"
    using run(2) by (simp add: sent_to_def backend_value_def lx_program_def TCP8_def lx_backend_def)
  then show ?thesis using run(1) by blast
qed

definition answer_to :: "frame \<Rightarrow> lb_ports \<Rightarrow> frame \<Rightarrow> lb_ports \<Rightarrow> bool" where
  "answer_to h p g q \<longleftrightarrow> u32_at g 26 = u32_at h 30 \<and> u32_at g 30 = u32_at h 26 \<and> l4_proto q = l4_proto p \<and>
     (if l4_proto p = 1 then l4_source q = l4_source p else l4_source q = u16_at h 36 \<and> l4_dest q = u16_at h 34)"

lemma parse_ports: "lb_parse f = LbIp p \<Longrightarrow> l4_proto p \<noteq> 1 \<Longrightarrow> l4_source p = u16_at f 34 \<and> l4_dest p = u16_at f 36"
  by (auto simp: lb_parse_def lb_parse_ip_def split: if_splits)

lemma answer_to_answers:
  assumes "lb_parse f = LbIp p" "sent_to pg f p b v h" "answer_to h p g q"
  shows "answers f p b g q"
  using assms(2,3) parse_ports [OF assms(1)] by (auto simp: answers_def answer_to_def sent_to_def split: if_splits)

text \<open>
  \<^bold>\<open>C13\<close>. The answer of the backend to such a frame, after any history that neither evicts the entry of the session nor gives it to another service, is
  sent to the client with the address and port of the service as its source, whichever backend had been chosen: client and service see one connection.
\<close>

theorem reply_from_service:
  assumes "synced_service s kn" "src_ip_rewrite kn = Map.empty" "lb_params_ok ps" "lb_parse f = LbIp p" "port \<noteq> BACKEND_PORT pg"
    and "to_service s (frame_session f p)" "Lbrp_rx ps pg port f kn = (v, h, cs, kn')" "lb_parse g = LbIp q" "answer_to h p g q"
    and "undisturbed ps pg (jhash ps (lb_reply_key (u32_at g 26) (u32_at g 30) q)) (vkey s 0) evs kn'" "send_to_frontend pg kn (u32_at g 30) = LB_REDIRECT fe"
  shows "\<exists>r cs'. Lbrp_rx ps pg (BACKEND_PORT pg) g (lb_history ps pg evs kn') = (LB_REDIRECT fe, r, cs', lb_history ps pg evs kn') \<and>
    u32_at r 26 = ip_num (service_vip s) \<and> u32_at r 30 = u32_at f 26 \<and>
    (l4_proto p \<noteq> 1 \<longrightarrow> u16_at r 34 = ntohs (service_vport s) \<and> u16_at r 36 = u16_at f 34)"
proof -
  obtain arr where arr: "length arr = 30" "kernel_has s arr kn" using assms(1) by (auto simp: synced_service_def)
  let ?b = "lb_entry_of s (arr ! (unat (jhash ps (frame_session f p)) mod 30))"
  have kn': "kn' = with_sessions ((hash_session kn)(jhash ps (translated_key (frame_session f p) ?b) \<mapsto> vkey s 0)) kn" and sent: "sent_to pg f p ?b v h"
    using lb_frontend_synced [OF arr(2,1) assms(6,3,2,4,5)] assms(7) by auto
  have ans: "answers f p ?b g q" by (rule answer_to_answers [OF assms(4) sent assms(9)])
  have key: "lb_reply_key (u32_at g 26) (u32_at g 30) q = translated_key (frame_session f p) ?b" by (rule answer_key [OF assms(4,8) ans])
  have "src_ip_rewrite kn' = Map.empty" "hash_session kn' (jhash ps (translated_key (frame_session f p) ?b)) = Some (vkey s 0)"
    using assms(2) by (simp_all add: kn')
  moreover have "send_to_frontend pg kn' (u32_at g 30) = send_to_frontend pg kn (u32_at g 30)" by (simp add: kn' send_to_frontend_def)
  ultimately have tables: "src_ip_rewrite kn' = Map.empty" "hash_session kn' (jhash ps (translated_key (frame_session f p) ?b)) = Some (vkey s 0)"
      "send_to_frontend pg kn' (u32_at g 30) = LB_REDIRECT fe"
    using assms(11) by simp_all
  from reply_shown [OF assms(4,8) ans assms(3) tables(1,2) assms(10) [unfolded key] tables(3)]
  obtain v' r cs' where r: "Lbrp_rx ps pg (BACKEND_PORT pg) g (lb_history ps pg evs kn') = (v', r, cs', lb_history ps pg evs kn')"
      "shown_as (vkey s 0) fe g q v' r" by blast
  have "u32_at g 30 = u32_at f 26" "l4_proto q = l4_proto p" using ans by (simp_all add: answers_def)
  moreover have "u16_at g 36 = u16_at f 34" if "l4_proto p \<noteq> 1"
    using that ans parse_ports [OF assms(8)] parse_ports [OF assms(4)] by (simp add: answers_def)
  ultimately show ?thesis using r by (auto simp: shown_as_def service_vip_key_def)
qed

theorem reply_from_service_witness:
  "\<exists>v h cs kn' r cs'. Lbrp_rx lx_params lx_program 1 lx_request lx_kernel = (v, h, cs, kn') \<and>
     Lbrp_rx lx_params lx_program 0 (lx_frame 0x0200000A 0x0900000A (ntohs 8080) 4242) kn' = (LB_REDIRECT 1, r, cs', kn') \<and>
     u32_at r 26 = 0x0100000A \<and> u16_at r 34 = ntohs 80"
proof -
  obtain v h cs kn' where run: "Lbrp_rx lx_params lx_program 1 lx_request lx_kernel = (v, h, cs, kn')" by (metis prod_cases4)
  obtain arr where arr: "length arr = 30" "kernel_has lx_one arr lx_kernel" "set arr = serving_ips lx_one" using lx_synced by (auto simp: synced_service_def)
  have "arr ! (n mod 30) = lx_ip" for n
  proof -
    have "arr ! (n mod 30) \<in> set arr" using arr(1) by simp
    then show ?thesis unfolding arr(3) by (simp add: lx_one_def)
  qed
  then have sent: "sent_to lx_program lx_request lx_ports (lb_entry_of lx_one lx_ip) v h"
    using lb_frontend_synced [OF arr(2,1) lx_to_service [of "0x0900000A" 4242] lx_params_ok lx_no_rewrite(1) lx_frame_parse lx_no_rewrite(2)] run by auto
  have "lb_entry_of lx_one lx_ip = \<lparr>bck_ip = 0x0200000A, bck_port = ntohs 8080, bck_proto = proto_nbo 6\<rparr>"
    by (simp add: lb_entry_of_def lx_one_def backend_value_def lx_backend_def convertProtoToNumber_def)
  then have ans: "answer_to h lx_ports (lx_frame 0x0200000A 0x0900000A (ntohs 8080) 4242) \<lparr>l4_source = ntohs 8080, l4_dest = 4242, l4_proto = TCP8\<rparr>"
    using sent by (simp add: answer_to_def sent_to_def lx_frame_fields TCP8_def)
  have fe: "send_to_frontend lx_program lx_kernel (u32_at (lx_frame 0x0200000A 0x0900000A (ntohs 8080) 4242) 30) = LB_REDIRECT 1"
    by (simp add: send_to_frontend_def lx_program_def)
  have und: "undisturbed lx_params lx_program x y [] kn'" for x y by simp
  have "BACKEND_PORT lx_program = 0" by (simp add: lx_program_def)
  with reply_from_service [OF lx_synced lx_no_rewrite(1) lx_params_ok lx_frame_parse lx_no_rewrite(2) lx_to_service [of "0x0900000A" 4242] run
      lx_frame_parse ans und fe] show ?thesis
    using run by (force simp: lb_history_def lx_one_def TCP8_def)
qed

end
