(* ===== verification/Lb_Control.thy ===== *)
theory Lb_Control
  imports Lb_Example
begin

text \<open>
  The properties of the load balancer as a cube: its ports over sequences of operations, and what the model shows to go wrong in the services, in the
  range of source addresses and in the ports of the library.
\<close>

section \<open>Ports\<close>

text \<open>
  \<^bold>\<open>C18\<close>. In the mode with many frontends, after any sequence of additions, deletions and replacements of ports, failed ones included: a packet for the
  address of a frontend port leaves through that port, a packet for any other address is dropped, no two frontends have the same address, and the
  program is compiled with the number of the backend port. Addresses are written the way \<open>inet_ntoa\<close> does, and the peers of ports can be connected.
\<close>

theorem frontends_wired:
  assumes "cube_env_ok ce" "list_all op_canonical ops" "lb = port_run ce ops (empty_lbrp MODE_MULTI)"
  shows "(\<forall>n i ip. is_frontend lb n i ip \<longrightarrow> send_to_frontend (lb_program_of lb) (lb_kn (lb_world_of lb)) (ip_num ip) = LB_REDIRECT (of_nat i)) \<and>
    (\<forall>a. (\<forall>n i ip. is_frontend lb n i ip \<longrightarrow> ip_num ip \<noteq> a) \<longrightarrow> send_to_frontend (lb_program_of lb) (lb_kn (lb_world_of lb)) a = LB_DROP) \<and>
    (\<forall>n n' i i' ip. is_frontend lb n i ip \<longrightarrow> is_frontend lb n' i' ip \<longrightarrow> n = n') \<and>
    (\<forall>n i. is_backend lb n i \<longrightarrow> BACKEND_PORT (lb_program_of lb) = of_nat i)"
proof -
  have ok: "multi_ok lb" unfolding assms(3) by (rule port_run_multi [OF multi_empty assms(1,2)])
  note D = multi_okD [OF ok]
  have "send_to_frontend (lb_program_of lb) (lb_kn (lb_world_of lb)) (ip_num ip) = LB_REDIRECT (of_nat i)" if "is_frontend lb n i ip" for n i ip
    using D(2) D(4) [OF that] by (simp add: send_to_frontend_def)
  moreover have "send_to_frontend (lb_program_of lb) (lb_kn (lb_world_of lb)) a = LB_DROP" if "\<forall>n i ip. is_frontend lb n i ip \<longrightarrow> ip_num ip \<noteq> a" for a
  proof -
    have "frontends lb a = None" using D(6) [of a] that by blast
    then show ?thesis using D(2) by (simp add: send_to_frontend_def)
  qed
  ultimately show ?thesis using D(5,9) by blast
qed

definition lx_cube_env :: cube_env where
  "lx_cube_env = \<lparr>ce_ports = \<lparr>connects = \<lambda>n. Inr (), configures = \<lambda>n. Inr ()\<rparr>, room_frontends = \<lambda>t k. True, room_rewrite = \<lambda>t k. True\<rparr>"

lemma lx_cube_env_ok: "cube_env_ok lx_cube_env"
  by (simp add: cube_env_ok_def lx_cube_env_def)

definition lx_port_ops :: "port_op list" where
  "lx_port_ops = [AddPort ''to_srv'' \<lparr>pj_name = ''to_srv'', pj_type = Some PORT_BACKEND, pj_ip = None\<rparr>,
     AddPort ''cl'' \<lparr>pj_name = ''cl'', pj_type = Some PORT_FRONTEND, pj_ip = Some lx_ip\<rparr>]"

lemma lx_ports_ops_ok: "list_all op_canonical lx_port_ops"
  by (simp add: lx_port_ops_def canonical_ip_def lx_ip_def)

lemma free_two: "[0..<POLYCUBE_MAX_PORTS] = 0 # 1 # [2..<POLYCUBE_MAX_PORTS]"
  by (simp add: POLYCUBE_MAX_PORTS_def upt_conv_Cons del: upt_rec_numeral)

lemma lx_wired: "is_frontend (port_run lx_cube_env lx_port_ops (empty_lbrp MODE_MULTI)) ''cl'' 1 lx_ip"
proof -
  have ip: "ip_string_to_nbo_uint lx_ip = Inr 0x0200000A" by (simp add: lx_ip_def ip_print_parse)
  show ?thesis
    by (simp add: port_run_def lx_port_ops_def port_step_def addPorts_def empty_lbrp_def addPortsInMultiPortMode_def getBackendPort_def lb_get_ports_def
        get_ports_def new_cube_ports_def lb_add_port_def add_port_def Ports_new_def Cube_add_port_def allocate_port_id_def free_two lx_cube_env_def
        reloadCodeWithNewBackendPort_def Let_def oset_erase_def set_frontend_def table_set_def ip is_frontend_def)
qed

theorem frontends_wired_witness:
  "send_to_frontend (lb_program_of (port_run lx_cube_env lx_port_ops (empty_lbrp MODE_MULTI)))
     (lb_kn (lb_world_of (port_run lx_cube_env lx_port_ops (empty_lbrp MODE_MULTI)))) 0x0200000A = LB_REDIRECT 1"
  using frontends_wired [OF lx_cube_env_ok lx_ports_ops_ok refl] lx_wired lx_ips(5) by fastforce

text \<open>
  \<^bold>\<open>C37\<close>. In the mode with one frontend, after any sequence of such operations: when there are a frontend and a backend port, there is no third one, a frame
  that is neither IP nor ARP leaves through the other port than it came in by, and all that goes to the clients leaves through the frontend.
\<close>

theorem single_mode_wired:
  assumes "cube_env_ok ce" "lb = port_run ce ops (empty_lbrp MODE_SINGLE)" "is_frontend lb n i ip" "is_backend lb n' j"
  shows "length (lb_get_ports lb) = 2 \<and> send_to_frontend (lb_program_of lb) (lb_kn (lb_world_of lb)) a = LB_REDIRECT (of_nat i) \<and>
    lb_noip (lb_program_of lb) (of_nat i) = LB_REDIRECT (of_nat j) \<and> lb_noip (lb_program_of lb) (of_nat j) = LB_REDIRECT (of_nat i)"
proof -
  have ok: "single_ok lb" unfolding assms(2) by (rule port_run_single [OF single_empty assms(1)])
  then have pk: "ports_ok (lb_ports_of lb)" by (simp add: single_ok_def)
  obtain p q where p: "port_of lb n = Some (i, p)" "lp_type p = PORT_FRONTEND" and q: "port_of lb n' = Some (j, q)" "lp_type q = PORT_BACKEND"
    using assms(3,4) by (auto simp: is_frontend_def is_backend_def)
  have mem: "(i, p) \<in> set (lb_get_ports lb)" "(j, q) \<in> set (lb_get_ports lb)" using get_ports_of [OF pk] p(1) q(1) by blast+
  have two: "length (lb_get_ports lb) = 2"
  proof (rule antisym)
    have d: "distinct (map (\<lambda>(i, p). lp_type p) (lb_get_ports lb))" using ok by (simp add: single_ok_def)
    have "card (set (map (\<lambda>(i, p). lp_type p) (lb_get_ports lb))) \<le> card {PORT_FRONTEND, PORT_BACKEND}"
      by (rule card_mono) (use PortsTypeEnum.exhaust in blast)+
    then show "length (lb_get_ports lb) \<le> 2" using distinct_card [OF d] by simp
    have "card {(i, p), (j, q)} \<le> card (set (lb_get_ports lb))" by (rule card_mono) (use mem in auto)
    moreover have "(i, p) \<noteq> (j, q)" using p(2) q(2) by auto
    ultimately show "2 \<le> length (lb_get_ports lb)" using card_length [of "lb_get_ports lb"] by simp
  qed
  then have pg: "FRONTEND_PORT (lb_program_of lb) = of_nat i" "BACKEND_PORT (lb_program_of lb) = of_nat j" "SINGLE_PORT_MODE (lb_program_of lb)"
    using ok mem p(2) q(2) by (fastforce simp: single_ok_def)+
  note D = ports_okD [OF pk]
  have di: "map_of (daemon_ports (lb_ports_of lb)) n = Some i" "map_of (daemon_ports (lb_ports_of lb)) n' = Some j" using D(4) [of n] D(4) [of n'] p(1) q(1) by auto
  have "n \<noteq> n'" using p q by auto
  then have "i \<noteq> j" "i < 128" "j < 128" using D(5) [OF di(1), of n'] di(2) D(6) [OF di(1)] D(6) [OF di(2)] by (auto simp: POLYCUBE_MAX_PORTS_def)
  then have "(of_nat i :: 16 word) \<noteq> of_nat j" by (simp add: word_of_nat_eq_iff take_bit_nat_eq_self)
  then show ?thesis using two pg by (simp add: send_to_frontend_def lb_noip_def)
qed

definition lx_single_ops :: "port_op list" where
  "lx_single_ops = map (\<lambda>(n, t). AddPort n \<lparr>pj_name = n, pj_type = Some t, pj_ip = None\<rparr>) [(''to_srv'', PORT_BACKEND), (''cl'', PORT_FRONTEND)]"

lemma lx_single: "is_frontend (port_run lx_cube_env lx_single_ops (empty_lbrp MODE_SINGLE)) ''cl'' 1 [] \<and>
    is_backend (port_run lx_cube_env lx_single_ops (empty_lbrp MODE_SINGLE)) ''to_srv'' 0"
  by (simp add: port_run_def lx_single_ops_def port_step_def addPorts_def empty_lbrp_def addPortsInSinglePortMode_def getBackendPort_def getFrontendPorts_def
      lb_get_ports_def get_ports_def new_cube_ports_def lb_add_port_def add_port_def Ports_new_def Cube_add_port_def allocate_port_id_def free_two
      lx_cube_env_def reloadCodeWithNewPorts_def Let_def oset_erase_def is_frontend_def is_backend_def split: prod.split)

theorem single_mode_wired_witness:
  "lb_noip (lb_program_of (port_run lx_cube_env lx_single_ops (empty_lbrp MODE_SINGLE))) 1 = LB_REDIRECT 0 \<and>
   lb_noip (lb_program_of (port_run lx_cube_env lx_single_ops (empty_lbrp MODE_SINGLE))) 0 = LB_REDIRECT 1"
  using single_mode_wired [OF lx_cube_env_ok refl conjunct1 [OF lx_single] conjunct2 [OF lx_single]] by simp

text \<open>
  A port whose configuration fails after the daemon has made it is taken out of the daemon but stays in the table of the library: the name can be
  read, is refused when it is added again, and cannot be removed.
\<close>

theorem failed_port_stays:
  assumes "ports_ok st" "map_of (lib_ports st) name = None" "free_ports st \<noteq> []" "connects pe name = Inr ()" "configures pe name = Inl e"
  shows "\<exists>st'. add_port pe name (Inr p) st = (st', Inl e) \<and> daemon_ports st' = daemon_ports st \<and> get_port name st' = Inr (hd (free_ports st), p) \<and>
    (\<forall>pe' mk. \<exists>e'. add_port pe' name mk st' = (st', Inl e')) \<and> remove_port name st' = (st', Inl (no_port name))"
proof -
  note D = ports_okD [OF assms(1)]
  have d: "map_of (daemon_ports st) name = None" using D(4) [of name] assms(2) by simp
  obtain i rest where free: "free_ports st = i # rest" using assms(3) by (cases "free_ports st") auto
  define st' where "st' = st\<lparr>free_ports := oset_insert i (oset_erase i (free_ports st)), lib_ports := smap_insert name (i, p) (lib_ports st)\<rparr>"
  have ins: "map_of (smap_insert name i (daemon_ports st)) name = Some i" "map_of (smap_insert name (i, p) (lib_ports st)) name = Some (i, p)"
    using map_of_smap_insert [OF D(2)] map_of_smap_insert [OF D(3)] d assms(2) by simp_all
  have "add_port pe name (Inr p) st = (st', Inl e)"
    using assms(2,4,5) d ins(1) by (simp add: add_port_def Cube_add_port_def allocate_port_id_def free port_remove_def Cube_remove_port_def release_port_id_def
        st'_def Let_def smap_erase_insert [OF D(2) d])
  moreover have "map_of (lib_ports st') name = Some (i, p)" "map_of (daemon_ports st') name = None" using ins(2) d by (simp_all add: st'_def)
  moreover have "daemon_ports st' = daemon_ports st" by (simp add: st'_def)
  ultimately show ?thesis by (intro exI [of _ st']) (simp add: free get_port_def add_port_def remove_port_def Cube_remove_port_def)
qed

theorem failed_port_stays_witness:
  "\<exists>st'. add_port \<lparr>connects = \<lambda>n. Inr (), configures = \<lambda>n. Inl (RuntimeError ''peer'')\<rparr> ''eth0'' (Inr ()) new_cube_ports = (st', Inl (RuntimeError ''peer'')) \<and>
     remove_port ''eth0'' st' = (st', Inl (no_port ''eth0'')) \<and> get_port ''eth0'' st' = Inr (0, ())"
  using failed_port_stays [OF new_cube_ports_ok, of "''eth0''" "\<lparr>connects = \<lambda>n. Inr (), configures = \<lambda>n. Inl (RuntimeError ''peer'')\<rparr>" "RuntimeError ''peer''" "()"]
  by (auto simp: new_cube_ports_def free_two)

section \<open>What goes wrong in the services\<close>

lemma map_of_put_backend: "map_of (service_backends (put_backend ip b s)) ip = map_option (\<lambda>_. b) (map_of (service_backends s) ip)"
proof -
  have "map_of (map (\<lambda>(i, x). (i, if i = ip then b else x)) bs) ip = map_option (\<lambda>_. b) (map_of bs ip)" for bs by (induction bs) auto
  then show ?thesis by (simp add: put_backend_def)
qed

lemma addService_oneD:
  assumes "addService_one env vip vport proto conf lb = Some (lb', Inr ())"
  shows "\<exists>s0 w0. Service_new env conf (lb_world_of lb) = Some ((s0, w0), Inr ()) \<and> map_of (service_map lb) (service_key vip vport proto) = None \<and>
    service_map lb' = service_map lb @ [(service_key vip vport proto, s0)]"
proof (cases "Service_new env conf (lb_world_of lb)")
  case (Some a)
  obtain s0 w0 r where a: "a = ((s0, w0), r)" by (metis surj_pair)
  show ?thesis using assms Some by (cases r) (auto simp: addService_one_def a split: if_splits)
qed (use assms in \<open>auto simp: addService_one_def split: if_splits\<close>)

text \<open>
  \<^bold>\<open>C39\<close>. After \<open>Lbrp::addService\<close> has succeeded, setting the port of any backend of the stored service follows a reference to the local variable
  \<open>addService\<close> built the service in: the service was copied into the map, and the backends in the copy still refer to the original.
\<close>

theorem stored_service_dangles:
  assumes "proto \<noteq> LB_ALL" "addService env vip vport proto conf lb = Some (lb', Inr ())" "map_of (service_map lb') (service_key vip vport proto) = Some s"
    and "ip \<in> fst ` set (service_backends s)" "bj_port c = Some port"
  shows "\<exists>lb''. on_service (service_key vip vport proto) (ServiceBackend_update env ip c) lb' = Some (lb'', Inl (UndefinedBehaviour ''dangling reference''))"
proof -
  let ?k = "service_key vip vport proto"
  obtain s0 w0 where new: "Service_new env conf (lb_world_of lb) = Some ((s0, w0), Inr ())" "map_of (service_map lb) ?k = None"
      "service_map lb' = service_map lb @ [(?k, s0)]"
    using addService_oneD [of env vip vport proto conf lb lb'] assms(1,2) by (auto simp: addService_def)
  then have "s = s0" using assms(3) by (auto simp: map_add_def)
  then have loc: "\<forall>(i, b) \<in> set (service_backends s). sb_local b"
    using addBackendList_local [OF new(1) [unfolded Service_new_def]] by simp
  obtain b where b: "map_of (service_backends s) ip = Some b" using assms(4) by (cases "map_of (service_backends s) ip") (auto simp: map_of_eq_None_iff)
  then have "sb_local b" using loc map_of_SomeD [OF b] by blast
  then have "\<exists>s' w'. ServiceBackend_update env ip c (s, w) = Some ((s', w'), Inl (UndefinedBehaviour ''dangling reference''))" for w
    using b assms(5) by (auto simp: ServiceBackend_update_def getBackend_def when_given_def ServiceBackend_setPort_def map_of_put_backend Let_def split: option.splits)
  then obtain s' w' where "ServiceBackend_update env ip c (s, lb_world_of lb') = Some ((s', w'), Inl (UndefinedBehaviour ''dangling reference''))" by blast
  then show ?thesis using assms(3) by (simp add: on_service_def)
qed

text \<open>
  \<^bold>\<open>C40\<close>. Whatever range of source addresses is configured, the program never rewrites the source of a packet from a client: \<open>SrcIpRewrite::update\<close> writes
  both rules with the sense of packets from the backends. The lookup in the trie returns an entry of the trie.
\<close>

theorem range_spares_clients:
  assumes "lb_params_ok ps" "senses (lb_kn (lb_world_of lb)) \<subseteq> {FROM_BACKEND}" "SrcIpRewrite_update ce conf lb = (lb', r)"
  shows "lb_frontend_src ps (lb_kn (lb_world_of lb')) a = (a, 0) \<and> senses (lb_kn (lb_world_of lb')) \<subseteq> {FROM_BACKEND}"
proof -
  have le: "senses (lb_kn (lb_world_of lb')) \<subseteq> {FROM_BACKEND}" using SrcIpRewrite_update_senses [OF assms(3)] assms(2) by blast
  have "rw_sense v = FROM_BACKEND" if "rewrite_lookup ps (src_ip_rewrite (lb_kn (lb_world_of lb'))) a = Some v" for v
    using that assms(1) le unfolding lb_params_ok_def senses_def by blast
  then have "lb_frontend_src ps (lb_kn (lb_world_of lb')) a = (a, 0)" by (auto simp: lb_frontend_src_def split: option.splits)
  then show ?thesis using le by blast
qed

lemma lx_senses: "senses (lb_kn (lb_world_of (empty_lbrp m))) \<subseteq> {FROM_BACKEND}"
  by (simp add: senses_def empty_lbrp_def)

definition lx_range :: SrcIpRewriteJsonObject where
  "lx_range = \<lparr>rwj_ip_range = Some ''10.0.0.0/8'', rwj_new_ip_range = Some ''11.0.0.0/8''\<rparr>"

theorem range_spares_clients_witness:
  "\<exists>lb' r. SrcIpRewrite_update lx_cube_env lx_range (empty_lbrp MODE_MULTI) = (lb', r) \<and> lb_frontend_src lx_params (lb_kn (lb_world_of lb')) 0x0900000A = (0x0900000A, 0)"
  using range_spares_clients [OF lx_params_ok lx_senses] by (metis surj_pair)

definition lx_service_conf :: ServiceJsonObject where
  "lx_service_conf = \<lparr>sj_vip = lx_vip, sj_vport = 80, sj_proto = LB_TCP, sj_name = None, sj_backend = Some [lx_conf lx_ip None]\<rparr>"

theorem stored_service_dangles_witness:
  "\<exists>lb' lb''. addService lx_env lx_vip 80 LB_TCP lx_service_conf (empty_lbrp MODE_SINGLE) = Some (lb', Inr ()) \<and>
     on_service (service_key lx_vip 80 LB_TCP) (ServiceBackend_update lx_env lx_ip (lx_conf lx_ip None)) lb' = Some (lb'', Inl (UndefinedBehaviour ''dangling reference''))"
proof -
  have w: "lb_world_of (empty_lbrp MODE_SINGLE) = lx_world" by (simp add: empty_lbrp_def lx_world_def lx_empty_def)
  have "service_ok (lx_service [])" "room_for_one (lx_service []) (lb_kn lx_world)" using lx_service_ok [of "[]"] lx_room(1) [of "[]"] by (simp_all add: lx_world_def)
  then obtain s w' where a: "addBackend lx_env True lx_ip (lx_conf lx_ip None) (lx_service [], lx_world) = Some ((s, w'), Inr ())"
      "service_backends s = [(lx_ip, (lx_backend lx_ip)\<lparr>sb_local := True\<rparr>)]"
    using addBackend_syncs [OF lx_env_ok, of "lx_service []" "lx_conf lx_ip None" True "(lx_backend lx_ip)\<lparr>sb_local := True\<rparr>" lx_world]
      lx_add_one(1) [of True] lx_add_one(2) by (auto simp: lx_backend_def)
  have new: "Service_new lx_env lx_service_conf lx_world = Some ((s, w'), Inr ())"
    using a(1) by (simp add: Service_new_def lx_service_conf_def addBackendList_def lx_service_def lx_add_one(2))
  define lb' where "lb' = (empty_lbrp MODE_SINGLE)\<lparr>service_map := [(service_key lx_vip 80 LB_TCP, s)], lb_world_of := w'\<rparr>"
  have add: "addService lx_env lx_vip 80 LB_TCP lx_service_conf (empty_lbrp MODE_SINGLE) = Some (lb', Inr ())"
    unfolding addService_def addService_one_def w using new by (simp add: lb'_def) (simp add: empty_lbrp_def)
  have "LB_TCP \<noteq> LB_ALL" "bj_port (lx_conf lx_ip None) = Some 8080" by (simp_all add: lx_conf_def)
  from stored_service_dangles [OF this(1) add _ _ this(2), of s lx_ip] a(2) add show ?thesis by (auto simp: lb'_def)
qed

end
