(* ===== verification/Spec2Isabelle.thy ===== *)
theory Spec2Isabelle
  imports Fw_Example Fw_Session Nat_Theorems Lb_Properties Lb_Control
begin

text \<open>
  A verification development for three services of Polycube, the firewall (\<open>src/src/services/pcn-firewall\<close>), the NAT
  (\<open>src/src/services/pcn-nat\<close>) and the load balancer (\<open>src/src/services/pcn-loadbalancer-rp\<close>), and the parts of the daemon and of the library
  they stand on. Each service has a control plane in C++ that keeps objects and writes tables of the kernel, and eBPF programs that
  read the tables; the theorems are mostly about the two together.

  \<^bold>\<open>The firewall.\<close> A firewall service holds one chain of rules per direction. An operation on a chain (API call) changes the list of rules
  and its counters (\<open>Chain.cpp\<close>, \<open>ChainStats.cpp\<close>) and then \<open>Chain::updateChain\<close> compiles the rules to tables (\<open>Utils.cpp\<close>): one table per
  header field, from a field value to the bit vector of the rules that accept it. It loads up to nine eBPF programs with these tables
  into one of two banks of program indexes, reloads the programs in front of the chain and frees the other bank.
  In the kernel a frame goes through tail calls: parser, mitigator (\<open>Horus\<close>, a table of exact matches), label of the connection, chain
  forwarder, match programs (each ands a vector into the shared one), bit scan, action, and the update of the connection table.

  \<^bold>\<open>The NAT.\<close> The rules (source, destination, port forwarding, masquerading) are lists of objects with a number each, mirrored in two tries of
  the kernel. A program in both directions looks a packet up in the table of its sessions and then in the tries, allocates a port,
  stores a session and its reverse, and rewrites addresses, ports and checksums.

  \<^bold>\<open>The load balancer.\<close> A service (address, port, protocol) has backends with weights. Every change computes an array of 30
  entries from a matrix of random permutations, each backend as often as its weight gives it a share (\<open>Service::getConsistentArray\<close>), and
  writes it to the kernel under the indexes 1 to 30. The program sends a client to the entry its session hashes to, remembers the session
  under the hash of its translated form, and gives the answers the address of the service back. Frontend and backend ports are macros
  of the program or a table, written when ports are added and deleted.

  \<^bold>\<open>Theories.\<close>
  \<^item> \<open>Prelude\<close>: exceptions as values, ordered maps, list and word lemmas. \<open>Bitvec\<close>: vectors of 63 rules per word, De Bruijn
    bit scan (\<open>Firewall_BitScan_dp.c\<close>, \<open>modules/BitScan.cpp\<close>). \<open>Net_Utils\<close>: IPv4 text and byte order (\<open>libs/polycube/src/utils.cpp\<close>).
  \<^item> \<open>Fw_Rule\<close>: rules, their JSON form and the constructor (\<open>ChainRule.cpp\<close>, \<open>defines.h\<close>). \<open>Fw_Maps\<close>: the rule compiler
    (\<open>Utils.cpp\<close>). \<open>Fw_Datapath\<close>: the match programs (\<open>datapaths/*_dp.c\<close>) with the tables of \<open>modules/*.cpp\<close>; the locale
    \<open>match_stage\<close> is what a chain relies on, each program interprets it. \<open>Fw_Horus\<close>: the mitigator.
  \<^item> \<open>Cube_Programs\<close>: identifiers, patch panel and the program table of a cube (\<open>polycubed/src\<close>: \<open>id_generator.cpp\<close>,
    \<open>patchpanel.cpp\<close>, \<open>base_cube.cpp\<close>).
  \<^item> \<open>Fw_Pipeline\<close>: programs, tail calls and the layout of a chain. \<open>Fw_Chain\<close>: the operations of \<open>Chain.cpp\<close> and
    \<open>ChainStats.cpp\<close>. \<open>Fw_Update\<close>: what \<open>updateChain\<close> achieves. \<open>Fw_Firewall\<close>: constructor and switches of \<open>Firewall.cpp\<close>.
    \<open>Fw_Ops\<close>: every operation refines an operation on lists and keeps the counts. \<open>Fw_Service\<close>: sessions of requests (locale
    \<open>configured_service\<close>).
  \<^item> \<open>Fw_Packet\<close>: frames as bytes and \<open>Firewall_Parser_dp.c\<close>. \<open>Fw_Conntrack\<close>: \<open>Firewall_ConntrackLabel_dp.c\<close> and
    \<open>Firewall_ConntrackTableUpdate_dp.c\<close>. \<open>Fw_Tcp\<close>: handshakes, expiry, echo. \<open>Fw_Stateful\<close>: whole frames through the loaded programs
    with the connection table, and histories of frames. \<open>Fw_Session\<close>: \<open>SessionTable.cpp\<close>.
  \<^item> \<open>Fw_Example\<close>: a concrete firewall, rules, packets and frames for the witnesses.
  \<^item> \<open>Nat_Datapath\<close>: \<open>Nat_dp_common.c\<close>, \<open>Nat_dp_egress.c\<close>, \<open>Nat_dp_ingress.c\<close>. \<open>Nat_Sessions\<close>, \<open>Nat_History\<close>: the session tables over histories
    of frames and evictions. \<open>Nat_Rules\<close>: what the three rule lists have in common, over a record of the operations of an
    entry (locales \<open>rule_class\<close> and \<open>saved_rules\<close>). \<open>Nat_Entries\<close>: \<open>RuleSnatEntry.cpp\<close>, \<open>RuleDnatEntry.cpp\<close>,
    \<open>RulePortForwardingEntry.cpp\<close>. \<open>Nat_Service\<close>: \<open>Rule*.cpp\<close>, \<open>Nat.cpp\<close>, \<open>NattingTable.cpp\<close>. \<open>Nat_Reach\<close>: the reachable states. \<open>Nat_Tries\<close>: the rules
    in the tries. \<open>Nat_Theorems\<close>: the properties.
  \<^item> \<open>Cube_Ports\<close>: port numbers and the two tables of ports (\<open>polycubed/src/cube.cpp\<close>, \<open>services/cube.h\<close>). \<open>Lb_Array\<close>, \<open>Lb_Walk\<close>: shares and the walk over
    the matrix. \<open>Lb_Datapath\<close>: \<open>Lbrp_dp.c\<close>. \<open>Lb_Service\<close>: \<open>Service.cpp\<close>, \<open>ServiceBackend.cpp\<close>. \<open>Lb_Sync\<close>: what the operations leave in the kernel.
    \<open>Lb_Flow\<close>: frames and their answers over histories. \<open>Lb_Cube\<close>: \<open>Lbrp.cpp\<close>, \<open>Ports.cpp\<close>, \<open>SrcIpRewrite.cpp\<close>. \<open>Lb_Ports\<close>: sequences of port
    operations. \<open>Lb_Example\<close>, \<open>Lb_Properties\<close>, \<open>Lb_Control\<close>: the example and the properties.

  \<^bold>\<open>What is shown.\<close> The state of a direction is the record \<open>chain\<close>; \<open>fw_ok\<close> is its invariant, \<open>synced\<close> says that the kernel holds the
  programs of the current rules. Every operation keeps the first and ends in the second, or reports an error; \<open>packet_verdict\<close>
  runs the kernel's programs. With connection tracking it is the decision \<open>chain_decision\<close> of the configuration: the mitigator, established
  connections, and the first matching rule (\<open>first_match\<close>), in whatever order the two passes of \<open>updateChain\<close> lay out the programs. The match programs
  are right for chains in \<open>chain_wf\<close> (prefixes of whole bytes, no port 0, a set flag in every rule on flags, at most 1024 prefixes), and the mitigator
  agrees with the rules under \<open>mitigator_exact\<close> (\<open>/32\<close> addresses, no TCP flags, ports on TCP and UDP packets only, no \<open>LOG\<close>); outside these the code decides
  differently, as the findings say. A run is three steps (label, verdict, update); over histories of frames an
  established packet is traced back to one the programs let through. For the NAT, the kernel holds the rules of the lists in every
  state of \<open>nat_reach\<close> (the operations that keep numbers and positions together; those that do not are listed in \<open>Nat_Reach\<close>), and answers go back to
  the host whose session they belong to as long as the ports do not run out and there are no rules for incoming packets. For the load
  balancer, \<open>synced_service\<close> says that the kernel holds an array of exactly the weighted backends; the operations that end establish it, and it is
  all that the theorems on clients and answers need. The places where code and intent part ways are stated as theorems too.

  \<^bold>\<open>Bounds.\<close> The kernel allows 32 tail calls (\<open>MAX_TAIL_CALL_CNT\<close>); a chain needs at most 10, a whole run 15. A chain has at most
  8192 rules (\<open>maxRules\<close>), a prefix table 1024 entries (\<open>lpm_capacity\<close>), the counters of the action program 8000 places and those of the
  mitigator 2048. The NAT allocates 64511 ports in turn. A service of the load balancer keeps its array at 30 entries up to ten backends, its tables take
  1024 entries, a cube has 128 ports. Machine integers are words of their width; counters, times and sequence numbers wrap. The shares of backends are computed
  in single precision (\<open>f32\<close>: 24 bits, round to nearest even). An operation of the load balancer whose loop does not end has the value \<open>None\<close>.

  \<^bold>\<open>Parameters.\<close> The longest-prefix lookup of the kernel (\<open>lpm\<close>, with its documented behaviour \<open>lpm_spec\<close>), whether a program compiles
  (\<open>compiles\<close>, code of BCC), the bytes of a structure the code does not initialise (\<open>stack_key\<close>, \<open>stack_value\<close>), the
  time, the contents of the per-CPU entries before a frame, the uptime of the machine. For the NAT and the load balancer: lookups in the tries of
  the kernel (\<open>nat_lookups\<close> with \<open>lookups_spec\<close>, \<open>rewrite_lookup\<close> with \<open>lb_params_ok\<close>), whether a table takes a new entry (\<open>nat_room\<close>, the \<open>room\<close> fields of
  \<open>lb_env\<close> and \<open>cube_env\<close>), the hash \<open>jhash\<close>, the order of a hash table, the shuffles, and whether a port can be connected. Entries an LRU table
  evicts are steps of the histories. The checksum helpers of the kernel are recorded as calls.

  \<^bold>\<open>Not modelled.\<close> The API classes and serializers (generated from the YANG model), logging, the text of the eBPF
  programs before macro substitution (the macro values are arguments of the programs), concurrency between a packet and an update (an operation is one
  step), the thread that writes the time, the base classes \<open>TransparentCube\<close> and \<open>BaseCube\<close> as far as they only pass configuration on, shadow
  namespaces, peers and interfaces of the daemon (netlink), the REST server, and the other services (bridge, router, iptables, the other load balancers,
  and the smaller ones). Of the load balancer, packets the slow path builds with libtins are the bytes it writes, and printing the whole configuration
  is left out.
\<close>

section \<open>Rules reach packets\<close>

text \<open>
  \<^bold>\<open>C1\<close>. \<open>Chain::updateChain\<close>, with connection tracking on, on a chain whose rules fit the tables and have no \<open>LOG\<close> action
  (\<open>loadable\<close>), returns normally, keeps the invariant of the firewall, and afterwards the programs in the kernel take the decision
  \<open>chain_decision\<close>: the mitigator decides first if it is enabled and has entries; otherwise a packet labelled \<open>ESTABLISHED\<close> passes in
  automatic mode, and every other packet is decided by the first matching rule, or the default action when no rule matches. Parser,
  mitigator, labels, forwarder, the match programs in whatever order the two passes put them, bit scan and action lookup are run together.

  The mitigator does not always agree with the rules (it ignores prefixes other than \<open>/32\<close> and TCP flags, and compares ports of every
  protocol). Where it does (\<open>mitigator_exact\<close>: it is not enabled, or the default action is not \<open>LOG\<close> and for this packet every rule has
  \<open>/32\<close> addresses, no TCP flags, and ports only if the packet is TCP or UDP) and the packet is not accepted automatically, the verdict is that
  of the first matching rule.

  The chain must be one for which the match programs are right (\<open>chain_wf\<close>): prefixes of whole bytes only (the mask of \<open>Utils.cpp:306\<close> is wrong
  for others), no rule with port 0, a set flag in every rule on TCP flags, tries that fit 1024 prefixes with the documented behaviour of the
  kernel. There are fewer than \<open>maxRules\<close> rules, and every program compiles.
\<close>

theorem updateChain_decides:
  assumes "fw_ok e st" "\<forall>p. compiles e p" "loadable (ch_rules st)" "length (ch_rules st) < maxRules" "getConntrack_ON st"
    and "chain_wf lpm (ch_rules st) pkt" "shared_vector s"
  shows "\<exists>st'. updateChain e st = (st', Inr ()) \<and> fw_ok e st' \<and> same_config st st' \<and>
    packet_verdict lpm st' pkt s = chain_decision e st pkt \<and>
    (mitigator_exact st pkt \<and> \<not> automatic st pkt \<longrightarrow>
      packet_verdict lpm st' pkt s = first_match (defaultAction st) (rule_matches pkt) (ch_rules st))"
proof -
  obtain st' where st': "updateChain e st = (st', Inr ())" "fw_ok e st'" "synced e st'" "same_config st st'"
    using updateChain_ok [OF assms(1-3)] by blast
  have same: "ch_rules st' = ch_rules st" "defaultAction st' = defaultAction st" "conntrackMode st' = conntrackMode st"
    "horus_enabled st' = horus_enabled st"
    using st'(4) by (simp_all add: same_config_def)
  have "packet_verdict lpm st' pkt s = chain_decision e st' pkt"
    using synced_decides [OF st'(2,3)] assms(4-) by (simp add: same getConntrack_ON_def)
  moreover have "chain_decision e st' pkt = chain_decision e st pkt"
    unfolding chain_decision_def automatic_def getRuleList_def same ..
  moreover have "chain_decision e st pkt = first_match (defaultAction st) (rule_matches pkt) (ch_rules st)"
    if "mitigator_exact st pkt \<and> \<not> automatic st pkt"
    using decision_exact [of st pkt e] assms(1,4) that by (simp add: fw_ok_def)
  ultimately show ?thesis using st' by auto
qed

theorem updateChain_decides_witness:
  "\<exists>st'. updateChain ex_env ex_fw1 = (st', Inr ()) \<and> packet_verdict lpm_scan st' (ex_pkt 80) zero_bitVector = RX_DROP"
  using updateChain_decides [OF ex_fw1_ok(6) ex_compiles(2), where lpm = lpm_scan and pkt = "ex_pkt 80" and s = zero_bitVector]
    ex_fw1_ok ex_rules_ok ex_wf [of 80] ex_vector ex_not_automatic [of ex_fw1 80] ex_first_match ex_mitigator_exact [of 80]
  by (auto simp: maxRules_def)

text \<open>
  \<^bold>\<open>C2\<close>. A whole session of requests to a serving firewall (single rule operations that succeed or fail, batches, deleting everything,
  changing the default action, in any order) leaves a firewall whose default action and rules are those the specification computes from
  the requests, and whose loaded programs decide by them: mitigator first, automatic acceptance of established connections, then the first
  matching rule (\<open>chain_decision\<close>), and the first matching rule alone for a packet that is not accepted automatically when the mitigator
  agrees with the rules (\<open>mitigator_exact\<close>: not enabled, or no \<open>LOG\<close> and for this packet only \<open>/32\<close> addresses, no TCP flags, ports only on TCP and UDP).

  Connection tracking is on (\<open>serving\<close>) and every program compiles. Every request must stay within the sizes of the tables and of the counters and
  lead to rules that can be loaded (\<open>fw.session_allowed\<close>, which excludes \<open>LOG\<close> rules), whether it succeeds or is refused. The resulting rules are
  fewer than \<open>maxRules\<close> and such that the match programs are right (\<open>chain_wf\<close>: prefixes of whole bytes, no port 0, a set flag in every rule on TCP flags,
  tries with the documented behaviour).
\<close>

theorem session_decides:
  assumes "serving e st" "\<forall>p. compiles e p" "fw.session_allowed e rs st"
    and "fold spec_request rs (config_of st) = (act, rules)"
    and "length rules < maxRules" "chain_wf lpm rules pkt" "shared_vector sh"
  shows "config_of (fw.session e rs st) = (act, rules) \<and>
    packet_verdict lpm (fw.session e rs st) pkt sh = chain_decision e (fw.session e rs st) pkt \<and>
    (mitigator_exact (fw.session e rs st) pkt \<and> \<not> automatic (fw.session e rs st) pkt \<longrightarrow>
      packet_verdict lpm (fw.session e rs st) pkt sh = first_match act (rule_matches pkt) rules)"
  using assms by (rule session_verdict)

theorem session_decides_witness:
  "packet_verdict lpm_scan (fw.session ex_env [RuleOp ex_op, SetDefault DROP] ex_fw) (ex_pkt 22) zero_bitVector = RX_DROP"
proof -
  let ?st = "fw.session ex_env [RuleOp ex_op, SetDefault DROP] ex_fw"
  have r: "ch_rules ex_fw = []" "defaultAction ex_fw = ACCEPT" using ex_fw_ok(2) by (simp_all add: config_of_def)
  have al: "fw.session_allowed ex_env [RuleOp ex_op, SetDefault DROP] ex_fw"
    using ex_spec ex_rules_ok(3) by (simp add: r countable_def op_wf_def) (simp add: ex_op_def)
  have cfg: "fold spec_request [RuleOp ex_op, SetDefault DROP] (config_of ex_fw) = (DROP, [ex_rule 0])"
    using ex_spec by (simp add: ex_fw_ok)
  have v: "first_match DROP (rule_matches (ex_pkt 22)) [ex_rule 0] = RX_DROP"
    by (simp add: first_match_def ex_matches default_verdict_def)
  have len: "length [ex_rule 0] < maxRules" by (simp add: maxRules_def)
  note session = session_decides [OF ex_fw_ok(1) ex_compiles(2) al cfg len ex_wf [of 22] ex_vector]
  then have "config_of ?st = (DROP, [ex_rule 0])" by blast
  then have "mitigator_exact ?st (ex_pkt 22)"
    by (simp only: mitigator_exact_def config_of_def prod.inject) (simp add: ex_rule_ok, simp add: ex_pkt_def)
  then show ?thesis using session ex_not_automatic [of ?st 22] v by metis
qed

section \<open>Operations on rules\<close>

text \<open>
  \<^bold>\<open>C20\<close>. A batch carries out exactly the operations that the specification can carry out, in order, skips the
  others, reloads the chain once at the end, and reports the numbers of the operations that failed.
\<close>

theorem batch_decides:
  assumes "fw_ok e st" "counters_ok st" "\<forall>p. compiles e p" "isContrackActive st" "list_all op_wf ops"
    and "length (ch_rules st) + length ops \<le> counter_places st" "loadable (fst (spec_batch 1 ops (ch_rules st)))"
  shows "\<exists>st'. batch e (Some ops) st =
      (st', if snd (spec_batch 1 ops (ch_rules st)) = [] then Inr ()
            else Inl (failed_message ops (snd (spec_batch 1 ops (ch_rules st))))) \<and>
    fw_ok e st' \<and> synced e st' \<and> ch_rules st' = fst (spec_batch 1 ops (ch_rules st)) \<and> is_single_op_on_chain st'"
  using batch_refines [OF assms] by blast

theorem batch_decides_witness:
  "\<exists>st'. batch ex_env (Some [ex_op, ex_op\<lparr>bo_operation := INSERT\<rparr>]) ex_fw =
     (st', Inl (failed_message [ex_op, ex_op\<lparr>bo_operation := INSERT\<rparr>] [2])) \<and> ch_rules st' = [ex_rule 0]"
proof -
  have r: "ch_rules ex_fw = []" using ex_fw_ok(2) by (simp add: config_of_def)
  have n: "spec_op (ex_op\<lparr>bo_operation := INSERT\<rparr>) rs = None" for rs by (simp add: spec_op_def ex_op_def)
  have b: "spec_batch 1 [ex_op, ex_op\<lparr>bo_operation := INSERT\<rparr>] (ch_rules ex_fw) = ([ex_rule 0], [2])"
    using ex_spec n by (simp add: r)
  have wf: "list_all op_wf [ex_op, ex_op\<lparr>bo_operation := INSERT\<rparr>]" by (simp add: op_wf_def ex_op_def)
  have len: "length (ch_rules ex_fw) + length [ex_op, ex_op\<lparr>bo_operation := INSERT\<rparr>] \<le> counter_places ex_fw"
    by (simp add: r counter_places_def COUNTERS_SIZE_def horus_consts)
  have s: "fw_ok ex_env ex_fw" "counters_ok ex_fw" "isContrackActive ex_fw" using ex_fw_ok(1) by (simp_all add: serving_def)
  show ?thesis
    using batch_decides [OF s(1,2) ex_compiles(2) s(3) wf len] ex_rules_ok(3) unfolding b by auto
qed

text \<open>
  \<^bold>\<open>C21\<close>. \<open>Chain::insert\<close> as a single operation: the new rule stands at the given place, the rules behind it
  move one place up and are renumbered, the kernel decides by the new list, and every rule keeps the packets and bytes counted for
  it, while the new rule starts at zero.
\<close>

theorem insert_keeps_counts:
  assumes "fw_ok e st" "countable st" "counters_ok st" "\<forall>p. compiles e p"
    and "i = (case idopt of None \<Rightarrow> 0 | Some i \<Rightarrow> i)" "i \<le> length (ch_rules st)"
    and "cf_action input \<noteq> None" "ChainRule_new (isContrackActive st) input = Inr r"
    and "is_single_op_on_chain st" "loadable (spec_insert i r (ch_rules st))"
  shows "\<exists>st'. insert_rule e idopt input st = (st', Inr i) \<and> fw_ok e st' \<and> synced e st' \<and>
    ch_rules st' = spec_insert i r (ch_rules st) \<and>
    (\<forall>j < length (ch_rules st) + 1. rule_count st' j =
       (if j < i then rule_count st j else if j = i then (0, 0) else rule_count st (j - 1)))"
proof -
  obtain st' cs where st': "insert_rule e idopt input st = (st', Inr i)" "installed e st (spec_insert i r (ch_rules st)) cs st'"
    "length cs = length (ch_rules st) + 1"
    "\<forall>j < length (ch_rules st) + 1. amount (cs ! j) =
       (if j < i then rule_count st j else if j = i then (0, 0) else rule_count st (j - 1))"
    using insert_rule_ok [OF assms(1-8)] assms(10) by blast
  show ?thesis using st' installed_count [OF st'(2) assms(9)] assms(9) by (intro exI [of _ st']) (simp add: installed_def)
qed

theorem insert_keeps_counts_witness:
  "\<exists>st' r. insert_rule ex_env None ex_conf ex_fw1 = (st', Inr 0) \<and> ch_rules st' = [r, (ex_rule 0)\<lparr>rid := 1\<rparr>] \<and>
     rule_count st' 0 = (0, 0)"
proof -
  have c: "ChainRule_new (isContrackActive ex_fw1) ex_conf = Inr (ex_rule 0)"
    using ex_conf_rule [of "isContrackActive ex_fw1" 0] by (simp add: ex_conf_def empty_conf_def)
  have s: "spec_insert 0 (ex_rule 0) (ch_rules ex_fw1) = [(ex_rule 0)\<lparr>rid := 0\<rparr>, (ex_rule 0)\<lparr>rid := 1\<rparr>]"
    by (simp add: ex_fw1_ok spec_insert_def renumber_def)
  have ok: "chain_ok (spec_insert 0 (ex_rule 0) (ch_rules ex_fw1))"
    unfolding s chain_ok_rules by (simp add: rules_ok_def maxRules_def ex_rule_ok)
  have "loadable (spec_insert 0 (ex_rule 0) (ch_rules ex_fw1))"
    by (rule loadable_small [OF ok]) (simp_all add: s lpm_capacity_def ex_rule_ok)
  then show ?thesis
    using insert_keeps_counts [OF ex_fw1_ok(6,12,8) ex_compiles(2), of 0 None ex_conf "ex_rule 0"] c ex_fw1_ok(9)
    by (auto simp: s) (auto simp: ex_conf_def)
qed

text \<open>
  \<^bold>\<open>C22\<close>. \<open>Chain::delRule\<close> as a single operation removes the rule, moves those behind it one place down with
  their numbers, and every remaining rule keeps the packets and bytes counted for it.
\<close>

theorem delete_keeps_counts:
  assumes "fw_ok e st" "countable st" "counters_ok st" "\<forall>p. compiles e p" "i < length (ch_rules st)"
    and "is_single_op_on_chain st" "loadable (spec_delete i (ch_rules st))"
  shows "\<exists>st'. delRule e i st = (st', Inr ()) \<and> fw_ok e st' \<and> synced e st' \<and> ch_rules st' = spec_delete i (ch_rules st) \<and>
    (\<forall>j < length (ch_rules st) - 1. rule_count st' j = rule_count st (if j < i then j else j + 1))"
proof -
  obtain st' cs where st': "delRule e i st = (st', Inr ())" "installed e st (spec_delete i (ch_rules st)) cs st'"
    "length cs = length (ch_rules st) - 1"
    "\<forall>j < length (ch_rules st) - 1. amount (cs ! j) = rule_count st (if j < i then j else j + 1)"
    using delRule_ok [OF assms(1-5)] assms(7) by blast
  show ?thesis using st' installed_count [OF st'(2) assms(6)] assms(6) by (intro exI [of _ st']) (simp add: installed_def)
qed

theorem delete_keeps_counts_witness:
  "\<exists>st'. delRule ex_env 0 ex_fw1 = (st', Inr ()) \<and> ch_rules st' = []"
  using delete_keeps_counts [OF ex_fw1_ok(6,12,8) ex_compiles(2), of 0] ex_fw1_ok loadable_Nil
  by (auto simp: spec_delete_def renumber_def)

text \<open>
  \<open>Chain::append\<close> as a single operation puts the new rule last, under the number it returns; the
  kernel decides by the new list and the counts of the other rules are kept.
\<close>

theorem append_keeps_counts:
  assumes "fw_ok e st" "countable st" "counters_ok st" "\<forall>p. compiles e p"
    and "cf_action input \<noteq> None" "ChainRule_new (isContrackActive st) (input\<lparr>cf_id := length (ch_rules st)\<rparr>) = Inr r"
    and "is_single_op_on_chain st" "loadable (ch_rules st @ [r])"
  shows "\<exists>st'. append_rule e input st = (st', Inr (length (ch_rules st))) \<and> fw_ok e st' \<and> synced e st' \<and>
    ch_rules st' = ch_rules st @ [r] \<and> (\<forall>j < length (ch_rules st). rule_count st' j = rule_count st j)"
proof -
  have r: "rid r = length (ch_rules st)" using ChainRule_new_ok [OF assms(6)] by simp
  have "rules_ok (ch_rules st)" using assms(1) by (simp add: fw_ok_def)
  from replace_spec [OF this, of "length (ch_rules st)" r] r
  have s: "spec_replace (length (ch_rules st)) r (ch_rules st) = ch_rules st @ [r]" by simp
  obtain st' cs where st': "append_rule e input st = (st', Inr (length (ch_rules st)))" "installed e st (ch_rules st @ [r]) cs st'"
    "length cs = length (ch_rules st)" "\<forall>j < length (ch_rules st). amount (cs ! j) = rule_count st j"
    using append_rule_ok [OF assms(1-4) refl assms(5,6)] assms(8) unfolding s by blast
  show ?thesis using st' installed_count [OF st'(2) assms(7)] assms(7) by (intro exI [of _ st']) (simp add: installed_def)
qed

theorem append_keeps_counts_witness:
  "\<exists>st'. append_rule ex_env ex_conf ex_fw = (st', Inr 0) \<and> synced ex_env st' \<and> ch_rules st' = [ex_rule 0]"
proof -
  have r: "ch_rules ex_fw = []" using ex_fw_ok(2) by (simp add: config_of_def)
  have s: "fw_ok ex_env ex_fw" "countable ex_fw" "counters_ok ex_fw" "is_single_op_on_chain ex_fw"
    using ex_fw_ok(1) by (simp_all add: serving_def countable_def r)
  have c: "ChainRule_new (isContrackActive ex_fw) (ex_conf\<lparr>cf_id := length (ch_rules ex_fw)\<rparr>) = Inr (ex_rule 0)"
    by (simp add: r ex_conf_rule)
  have "cf_action ex_conf \<noteq> None" by (simp add: ex_conf_def)
  from append_keeps_counts [OF s(1-3) ex_compiles(2) this c s(4)] show ?thesis using ex_rules_ok(3) by (simp add: r) blast
qed

text \<open>
  \<^bold>\<open>C23\<close>. \<open>Chain::getStatsList\<close> returns, in the order of the rules, for each rule the sum of what the chain had stored
  and what the action program and the mitigator have counted since, and nothing is counted twice: the
  count of every rule is the same before and after the call.
\<close>

theorem stats_are_counts:
  assumes "fw_ok e st" "countable st" "counters_ok st"
  shows "\<exists>st' ns. getStatsList st = (st', Inr ns) \<and> fw_ok e st' \<and> ch_rules st' = ch_rules st \<and>
    map (\<lambda>c. amount (Some c)) (butlast ns) = map (rule_count st) [0..<length (ch_rules st)] \<and>
    (\<forall>j. rule_count st' j = rule_count st j)"
proof -
  obtain h cs ns where "getStatsList st = (st\<lparr>hits := h, ch_counters := cs\<rparr>, Inr ns)" "fw_ok e (st\<lparr>hits := h, ch_counters := cs\<rparr>)"
    "map (\<lambda>c. amount (Some c)) (butlast ns) = map (rule_count st) [0..<length (ch_rules st)]"
    "\<forall>j. rule_count (st\<lparr>hits := h, ch_counters := cs\<rparr>) j = rule_count st j"
    using getStatsList_ok [OF assms] by blast
  then show ?thesis by (intro exI [of _ "st\<lparr>hits := h, ch_counters := cs\<rparr>"] exI [of _ ns]) simp
qed

theorem stats_are_counts_witness:
  "\<exists>st' ns. getStatsList ex_fw1 = (st', Inr ns) \<and> map (\<lambda>c. amount (Some c)) (butlast ns) = [rule_count ex_fw1 0]"
  using stats_are_counts [OF ex_fw1_ok(6,12,8)] ex_fw1_ok(2) by auto

text \<open>
  \<open>Chain::addRule\<close> (the API's replace) as a single operation puts the new rule in the place of the old
  one, which also keeps its packet and byte counts for the new rule: the counters of a place outlive its rule.
\<close>

theorem replace_keeps_counts:
  assumes "fw_ok e st" "countable st" "counters_ok st" "\<forall>p. compiles e p"
    and "i < length (ch_rules st)" "cf_id conf = i"
    and "cf_action conf \<noteq> None" "ChainRule_new (isContrackActive st) conf = Inr r"
    and "is_single_op_on_chain st" "loadable ((ch_rules st)[i := r])"
  shows "\<exists>st'. addRule e i conf st = (st', Inr ()) \<and> fw_ok e st' \<and> synced e st' \<and>
    ch_rules st' = (ch_rules st)[i := r] \<and> (\<forall>j < length (ch_rules st). rule_count st' j = rule_count st j)"
proof -
  have r: "rid r = i" using ChainRule_new_ok [OF assms(8)] assms(6) by simp
  have "rules_ok (ch_rules st)" using assms(1) by (simp add: fw_ok_def)
  from replace_spec [OF this less_imp_le [OF assms(5)] r] assms(5)
  have s: "spec_replace i r (ch_rules st) = (ch_rules st)[i := r]" by simp
  obtain st' cs where st': "addRule e i conf st = (st', Inr ())" "installed e st ((ch_rules st)[i := r]) cs st'"
    "length cs = length (ch_rules st)" "\<forall>j < length (ch_rules st). amount (cs ! j) = rule_count st j"
    using addRule_ok [OF assms(1-4) less_imp_le [OF assms(5)] assms(6-8)] assms(10) unfolding s by blast
  show ?thesis using st' installed_count [OF st'(2) assms(9)] assms(9) by (intro exI [of _ st']) (simp add: installed_def)
qed

theorem replace_keeps_counts_witness:
  "\<exists>st'. addRule ex_env 0 ex_conf ex_fw1 = (st', Inr ()) \<and> rule_count st' 0 = rule_count ex_fw1 0"
proof -
  have c: "ChainRule_new (isContrackActive ex_fw1) ex_conf = Inr (ex_rule 0)" "cf_id ex_conf = 0" "cf_action ex_conf \<noteq> None"
    using ex_conf_rule [of "isContrackActive ex_fw1" 0] by (simp_all add: ex_conf_def empty_conf_def)
  show ?thesis
    using replace_keeps_counts [OF ex_fw1_ok(6,12,8) ex_compiles(2) _ c(2,3,1) ex_fw1_ok(9)] ex_fw1_ok(2) ex_rules_ok(3) by auto
qed

section \<open>The firewall\<close>

text \<open>
  A new firewall satisfies the invariant, has connection tracking in automatic mode, and lets
  every packet through, in both directions and at either hook.
\<close>

theorem new_firewall_accepts:
  assumes "panel_room e p" "\<forall>p. compiles e p" "name = INGRESS \<or> name = EGRESS"
  shows "fw_ok e (Firewall_new e name p) \<and> conntrackMode (Firewall_new e name p) = 2 \<and>
    packet_verdict lpm (Firewall_new e name p) pkt s = RX_OK"
  using Firewall_new_ok [OF assms] Firewall_new_verdict [OF assms(1,2)] by blast

theorem new_firewall_accepts_witness:
  "packet_verdict lpm_scan ex_new (ex_pkt 80) zero_bitVector = RX_OK"
  using new_firewall_accepts [OF ex_room ex_compiles(2), of INGRESS lpm_scan "ex_pkt 80" zero_bitVector] by (simp add: ex_new_def)

text \<open>
  \<open>Firewall::setConntrack\<close> keeps the invariant and the rules, sets the mode it is asked for, and, as long as the mitigator is not
  loaded, the kernel goes on deciding by the rules.
\<close>

theorem setConntrack_keeps:
  assumes "fw_ok e st" "\<forall>p. compiles e p"
  shows "fw_ok e (setConntrack e v st) \<and> getConntrack_mode (setConntrack e v st) = v \<and>
    ch_rules (setConntrack e v st) = ch_rules st \<and>
    (synced e st \<and> \<not> horus_runtime_enabled st \<longrightarrow> synced e (setConntrack e v st))"
proof -
  have "v = ON \<or> v = OFF" by (cases v) simp_all
  then have "getConntrack_mode (setConntrack e v st) = v"
    using setConntrack_ok(2) [OF assms, of v] by (auto simp: getConntrack_mode_def getConntrack_ON_def)
  then show ?thesis using setConntrack_ok(1,3,4) [OF assms, of v] by simp
qed

theorem setConntrack_keeps_witness:
  "fw_ok ex_env (setConntrack ex_env OFF ex_fw1) \<and> ch_rules (setConntrack ex_env OFF ex_fw1) = [ex_rule 0]"
  using setConntrack_keeps [OF ex_fw1_ok(6) ex_compiles(2), of OFF] ex_fw1_ok(2) by simp

text \<open>
  Turning connection tracking off while the mitigator is loaded drops every packet until the chain is
  next updated: the mitigator keeps calling the label program, which has been unloaded.
\<close>

theorem conntrack_off_drops_all:
  assumes "fw_ok e st" "synced e st" "\<forall>p. compiles e p" "getConntrack_ON st" "horus_runtime_enabled st"
  shows "packet_verdict lpm (setConntrack e OFF st) pkt s = RX_DROP"
  using assms by (rule setConntrack_off_blackhole)

theorem conntrack_off_drops_all_witness:
  "packet_verdict lpm_scan (setConntrack ex_env OFF ex_fw1) (ex_pkt 22) zero_bitVector = RX_DROP \<and>
   first_match ACCEPT (rule_matches (ex_pkt 22)) [ex_rule 0] = RX_OK"
  using conntrack_off_drops_all [OF ex_fw1_ok(6,7) ex_compiles(2) ex_fw1_ok(11) ex_fw1_mitigator] ex_first_match by simp

text \<open>
  Even after an update of the chain, with connection tracking off and the mitigator loaded, a
  packet the mitigator has no entry for is dropped whatever the rules and the default action say.
\<close>

theorem conntrack_off_mitigator:
  assumes "fw_ok e st" "synced e st" "\<not> getConntrack_ON st" "horus_runtime_enabled st"
    and "horusFromRulesToMap (stack_key e) (stack_value e) (getRuleList st) = Inr m"
  shows "packet_verdict lpm st pkt s = horus_verdict RX_DROP (Horus_rx (Horus_fields m) (Horus_updateMap m) pkt)"
  using assms by (rule synced_off_mitigator)

theorem conntrack_off_mitigator_witness:
  "\<exists>m. packet_verdict lpm_scan ex_off (ex_pkt 22) zero_bitVector =
     horus_verdict RX_DROP (Horus_rx (Horus_fields m) (Horus_updateMap m) (ex_pkt 22))"
proof -
  obtain m where "horusFromRulesToMap (stack_key ex_env) (stack_value ex_env) (getRuleList ex_off) = Inr m"
    using ex_off_ok(2) by (auto simp: synced_def horus_synced_def)
  from conntrack_off_mitigator [OF ex_off_ok(1-4) this] show ?thesis by blast
qed

text \<open>
  \<open>Firewall::setAcceptEstablished\<close> with connection tracking on reloads the label program, keeps the
  invariant and what the kernel decides by; with connection tracking off it fails and changes nothing.
\<close>

theorem setAcceptEstablished_keeps:
  assumes "fw_ok e st" "\<forall>p. compiles e p"
  shows "if getConntrack_ON st
    then \<exists>st'. setAcceptEstablished e v st = (st', Inr ()) \<and> fw_ok e st' \<and> getAcceptEstablished st' = v \<and>
      ch_rules st' = ch_rules st \<and> (synced e st \<longrightarrow> synced e st')
    else setAcceptEstablished e v st = (st, Inl (RuntimeError ''Please enable conntrack first.''))"
  using setAcceptEstablished_ok [OF assms, of v] by (auto simp: setAcceptEstablished_def getConntrack_ON_def)

theorem setAcceptEstablished_keeps_witness:
  "\<exists>st'. setAcceptEstablished ex_env OFF ex_fw1 = (st', Inr ()) \<and> getAcceptEstablished st' = OFF \<and> synced ex_env st'"
  using setAcceptEstablished_keeps [OF ex_fw1_ok(6) ex_compiles(2), of OFF] ex_fw1_ok(7,11) by auto

text \<open>
  \<open>Chain::setDefault\<close> keeps the invariant and the rules, and a packet no rule matches gets the new default action.
\<close>

theorem setDefault_keeps:
  assumes "fw_ok e st" "\<forall>p. compiles e p" "synced e st"
  shows "fw_ok e (setDefault e act st) \<and> synced e (setDefault e act st) \<and> defaultAction (setDefault e act st) = act \<and>
    ch_rules (setDefault e act st) = ch_rules st \<and> kern (setDefault e act st) DEFAULTACTION = Some (DefaultAction act)"
  using setDefault_ok [OF assms(1,2), of act] assms(3) by (auto simp: fw_ok_def base_ok_def)

theorem setDefault_keeps_witness:
  "kern (setDefault ex_env DROP ex_fw1) DEFAULTACTION = Some (DefaultAction DROP)"
  using setDefault_keeps [OF ex_fw1_ok(6) ex_compiles(2) ex_fw1_ok(7), of DROP] by blast

text \<open>
  \<open>Chain::delRuleList\<close> always succeeds on a firewall whose programs compile, and leaves an empty chain that decides
  by the default action alone.
\<close>

theorem deleteAll_empties:
  assumes "fw_ok e st" "\<forall>p. compiles e p"
  shows "\<exists>st'. delRuleList e st = (st', Inr ()) \<and> fw_ok e st' \<and> synced e st' \<and> ch_rules st' = [] \<and> ch_counters st' = [] \<and>
    defaultAction st' = defaultAction st"
  using delRuleList_ok [OF assms] by blast

theorem deleteAll_empties_witness:
  "\<exists>st'. delRuleList ex_env ex_fw1 = (st', Inr ()) \<and> ch_rules st' = []"
  using deleteAll_empties [OF ex_fw1_ok(6) ex_compiles(2)] by blast

text \<open>
  \<open>Chain::resetCounters\<close> on a loaded chain reports success and sets the count of every rule to zero.
\<close>

theorem reset_zeroes:
  assumes "fw_ok e st" "countable st" "slots st ACTION = Some a"
  shows "\<exists>st'. resetCounters st = (st', Some True) \<and> ch_rules st' = ch_rules st \<and>
    (\<forall>i < length (ch_rules st). rule_count st' i = (0, 0))"
proof -
  obtain h where "resetCounters st = (st\<lparr>hits := h, ch_counters := []\<rparr>, Some True)"
    "\<forall>i < length (ch_rules st). rule_count (st\<lparr>hits := h, ch_counters := []\<rparr>) i = (0, 0)"
    using resetCounters_ok [OF assms] by blast
  then show ?thesis by (intro exI [of _ "st\<lparr>hits := h, ch_counters := []\<rparr>"]) simp
qed

theorem reset_zeroes_witness:
  "\<exists>st'. resetCounters ex_fw1 = (st', Some True) \<and> rule_count st' 0 = (0, 0)"
proof -
  have "slots ex_fw1 ACTION \<noteq> None" using ex_fw1_ok(6) ex_fw1_mitigator by (simp add: fw_ok_def)
  then obtain a where "slots ex_fw1 ACTION = Some a" by blast
  from reset_zeroes [OF ex_fw1_ok(6,12) this] show ?thesis using ex_fw1_ok(2) by auto
qed

section \<open>Connections\<close>

text \<open>
  \<^bold>\<open>C4\<close>. With connection tracking on, the run of the loaded programs on a frame (parser, mitigator, label program,
  forwarder, chain, table update, joined by tail calls) is three steps: the parser reads the headers, the label of the packet is looked up
  in the table \<open>connections\<close>, and the verdict of the programs on the labelled packet decides; the table changes only if that verdict is
  to let the packet pass, and then by \<open>ConntrackTableUpdate\<close> alone.
\<close>

theorem frame_in_three_steps:
  assumes "fw_ok e st" "synced e st" "getConntrack_ON st"
  shows "firewall_rx lpm st now pkt0 s f c =
    (case Parser_headers f pkt0 of
       Truncated p \<Rightarrow> (RX_DROP, c)
     | NotIp \<Rightarrow> (RX_OK, c)
     | Headers p \<Rightarrow>
         (case ConntrackLabel_label c f p of
            None \<Rightarrow> (RX_DROP, c)
          | Some (l, f') \<Rightarrow>
              (case packet_verdict lpm st (p\<lparr>pk_connStatus := ct_code l\<rparr>) s of
                 RX_DROP \<Rightarrow> (RX_DROP, c)
               | RX_OK \<Rightarrow> update_step 1 now f' (p\<lparr>pk_connStatus := ct_code l\<rparr>) c)))"
  using firewall_rx_steps [OF assms] unfolding labelled_run_def .

theorem frame_in_three_steps_witness:
  "fst (firewall_rx lpm_scan ex_fw1 0 (ex_syn 0) zero_bitVector [] Map.empty) = RX_DROP"
  using frame_in_three_steps [OF ex_fw1_ok(6,7,11), of lpm_scan 0 "ex_syn 0" zero_bitVector "[]" Map.empty]
  by (simp add: Parser_headers_def)

text \<open>
  \<^bold>\<open>C3\<close>. A packet is labelled \<open>ESTABLISHED\<close>, and so let through without looking at the rules in automatic mode, only if an
  earlier packet of the same connection, in one direction or the other, was labelled \<open>NEW\<close> and the programs loaded for its chain let it
  through: after any history of frames through chains that may be reconfigured in between, of drops, and of evictions from the table,
  and whatever the rules are. That verdict was the decision of the chain, mitigator included, if the match programs are right for its rules
  (\<open>decided\<close>: fewer than \<open>maxRules\<close> rules, \<open>chain_wf\<close> as in C1), and it was the verdict of the first matching rule, or the default action, if
  moreover the mitigator agrees with the rules (\<open>exact_rules\<close>); otherwise the mitigator may have accepted a packet no rule accepts.
\<close>

theorem established_was_allowed:
  assumes "history lpm e h c" "ConntrackLabel_label c f p = Some (CT_ESTABLISHED, f')"
  shows "\<exists>b \<in> set h. by_label b = CT_NEW \<and> same_connection p (by_packet b) \<and>
    packet_verdict lpm (by_chain b) (by_packet b) (by_shared b) = RX_OK \<and>
    (decided lpm (by_chain b) (by_packet b) \<longrightarrow> chain_decision e (by_chain b) (by_packet b) = RX_OK) \<and>
    (exact_rules lpm (by_chain b) (by_packet b) \<longrightarrow>
      first_match (defaultAction (by_chain b)) (rule_matches (by_packet b)) (ch_rules (by_chain b)) = RX_OK)"
proof -
  obtain b where b: "b \<in> set h" "by_label b = CT_NEW" "same_connection p (by_packet b)" "passed_ok lpm e b"
    using established_opened [OF assms] by blast
  then show ?thesis
    using passed_by_decision [OF b(4)] passed_by_rules [OF b(4,2)] by (intro bexI [OF _ b(1)]) (simp add: passed_ok_def)
qed

theorem established_was_allowed_witness:
  "same_connection (ex_answer 0) (ex_pkt 22) \<and> packet_verdict lpm_scan ex_fw1 (ex_pkt 22) zero_bitVector = RX_OK \<and>
   first_match ACCEPT (rule_matches (ex_pkt 22)) [ex_rule 0] = RX_OK"
proof -
  obtain c f' where h: "history lpm_scan ex_env [ex_passed] c" "ConntrackLabel_label c [] (ex_answer 0) = Some (CT_ESTABLISHED, f')"
    using ex_history by blast
  from established_was_allowed [OF h] show ?thesis using ex_exact by (simp add: ex_passed_def ex_fw1_ok)
qed

text \<open>
  \<^bold>\<open>C5\<close>. After any history the table holds normalised keys with states of their protocol only, and every entry comes from
  an accepted packet labelled \<open>NEW\<close> that has the key and the direction of the entry.
\<close>

theorem table_after_history:
  assumes "history lpm e h c" "c k = Some v"
  shows "key_ok k \<and> state_ok (k_l4proto k) (cstate v) \<and>
    (\<exists>b \<in> set h. by_label b = CT_NEW \<and> ct_key (by_packet b) = (k, ipRev v, portRev v) \<and>
       packet_verdict lpm (by_chain b) (by_packet b) (by_shared b) = RX_OK)"
  using history_table [OF assms(1)] history_passed [OF assms(1)] assms(2)
  by (fastforce simp: history_inv_def table_ok_def opened_by_def passed_ok_def list_all_iff)

theorem table_after_history_witness: "\<exists>(c :: connections) k v. c k = Some v \<and> key_ok k \<and> ct_key (ex_pkt 22) = (k, ipRev v, portRev v)"
proof -
  obtain c f' where h: "history lpm_scan ex_env [ex_passed] c" "ConntrackLabel_label c [] (ex_answer 0) = Some (CT_ESTABLISHED, f')"
    using ex_history by blast
  obtain k v where v: "c k = Some v" using established_entry [OF h(2)] by (auto simp: has_entry_def split: prod.splits)
  from table_after_history [OF h(1) v] v have "c k = Some v \<and> key_ok k \<and> ct_key (ex_pkt 22) = (k, ipRev v, portRev v)"
    by (simp add: ex_passed_def)
  then show ?thesis by (intro exI)
qed

text \<open>
  \<^bold>\<open>C6\<close>. A TCP handshake between two hosts whose initial sequence numbers do not end in the byte 255: the first packet is
  labelled \<open>NEW\<close>, the answer and the acknowledgement \<open>ESTABLISHED\<close>, and the entry of the connection then is established,
  with the direction of the first packet and the long timeout.
\<close>

theorem tcp_handshake:
  assumes "handshake syn synack ack" "ct_key syn = (k, ir, pr)" "conns k = None"
    and "octet (pk_seqN syn) 3 \<noteq> 0xFF" "octet (pk_seqN synack) 3 \<noteq> 0xFF"
  shows "\<exists>c1 c2 v. track t1 f1 syn conns = Some (CT_NEW, c1) \<and> track t2 f2 synack c1 = Some (CT_ESTABLISHED, c2) \<and>
    track t3 f3 ack c2 = Some (CT_ESTABLISHED, conns(k \<mapsto> v)) \<and> cstate v = CT_ESTABLISHED \<and>
    ttl v = t3 + TCP_ESTABLISHED \<and> ipRev v = ir \<and> portRev v = pr"
  using handshake_tracked [where conns = conns and k = k, OF assms, of t1 f1 t2 f2 t3 f3] by blast

theorem tcp_handshake_witness:
  "\<exists>c1 c2 c3. track 0 [] (ex_syn 0) Map.empty = Some (CT_NEW, c1) \<and> track 1 [] (ex_answer 0) c1 = Some (CT_ESTABLISHED, c2) \<and>
    track 2 [] ex_ack c2 = Some (CT_ESTABLISHED, c3)"
proof -
  obtain k ir pr where k: "ct_key (ex_syn 0) = (k, ir, pr)" by (rule ex_key)
  show ?thesis using tcp_handshake [OF ex_handshake k refl ex_octets(1,2), of 0 "[]" 1 "[]" 2 "[]"] by blast
qed

text \<open>
  Two handshakes that TCP allows and the tracker rejects. The tracker adds one to the sequence number without the carry:
  if the number of the first packet ends in 255 the server's answer is labelled \<open>INVALID\<close>. And when the server repeats its answer, because the
  acknowledgement was lost, the repetition is \<open>INVALID\<close>: by then the entry holds the number the client has to acknowledge.
\<close>

theorem tcp_handshake_rejected:
  assumes "handshake syn synack ack" "ct_key syn = (k, ir, pr)" "conns k = None"
  shows "(octet (pk_seqN syn) 3 = 0xFF \<longrightarrow>
      (\<exists>c1. track t1 f1 syn conns = Some (CT_NEW, c1) \<and> track t2 f2 synack c1 = Some (CT_INVALID, c1))) \<and>
    (octet (pk_seqN syn) 3 \<noteq> 0xFF \<and> pk_seqN synack \<noteq> pk_seqN syn \<longrightarrow>
      (\<exists>c1 c2. track t1 f1 syn conns = Some (CT_NEW, c1) \<and> track t2 f2 synack c1 = Some (CT_ESTABLISHED, c2) \<and>
        track t3 f3 synack c2 = Some (CT_INVALID, c2)))"
  using handshake_carry [where conns = conns and k = k, OF assms, of t1 f1 t2 f2]
    repeated_answer [where conns = conns and k = k, OF assms, of t1 f1 t2 f2 t3 f3] by blast

theorem tcp_handshake_rejected_witness:
  "(\<exists>c1. track 0 [] (ex_syn 0xFF000000) Map.empty = Some (CT_NEW, c1) \<and> track 1 [] (ex_answer 0xFF000000) c1 = Some (CT_INVALID, c1)) \<and>
    (\<exists>c1 c2. track 0 [] (ex_syn 0) Map.empty = Some (CT_NEW, c1) \<and> track 1 [] (ex_answer 0) c1 = Some (CT_ESTABLISHED, c2) \<and>
      track 2 [] (ex_answer 0) c2 = Some (CT_INVALID, c2))"
proof
  obtain k ir pr where k: "ct_key (ex_syn 0xFF000000) = (k, ir, pr)" by (rule ex_key)
  show "\<exists>c1. track 0 [] (ex_syn 0xFF000000) Map.empty = Some (CT_NEW, c1) \<and> track 1 [] (ex_answer 0xFF000000) c1 = Some (CT_INVALID, c1)"
    using tcp_handshake_rejected [OF ex_handshake k refl, of 0 "[]" 1 "[]"] ex_octets(3) by blast
next
  obtain k ir pr where k: "ct_key (ex_syn 0) = (k, ir, pr)" by (rule ex_key)
  have "pk_seqN (ex_answer 0) \<noteq> pk_seqN (ex_syn 0)" by (simp add: ex_answer_def ex_syn_def)
  then show "\<exists>c1 c2. track 0 [] (ex_syn 0) Map.empty = Some (CT_NEW, c1) \<and> track 1 [] (ex_answer 0) c1 = Some (CT_ESTABLISHED, c2) \<and>
      track 2 [] (ex_answer 0) c2 = Some (CT_INVALID, c2)"
    using tcp_handshake_rejected [OF ex_handshake k refl, of 0 "[]" 1 "[]" 2 "[]"] ex_octets(1) by blast
qed

text \<open>
  The label of a packet does not depend on when the entries of the table expire: an entry whose \<open>ttl\<close> has
  passed labels packets as before, until the kernel evicts it.
\<close>

theorem label_never_expires:
  assumes "same_but_ttl c c'"
  shows "ConntrackLabel_label c f pkt = ConntrackLabel_label c' f pkt"
  by (rule label_ignores_ttl [OF assms])

theorem label_never_expires_witness:
  "\<forall>k v. ConntrackLabel_label [k \<mapsto> v] [] (ex_syn 0) = ConntrackLabel_label [k \<mapsto> v\<lparr>ttl := 0\<rparr>] [] (ex_syn 0)"
proof (intro allI)
  fix k and v :: ct_v
  have "same_but_ttl [k \<mapsto> v] [k \<mapsto> v\<lparr>ttl := 0\<rparr>]" by (simp add: same_but_ttl_def)
  then show "ConntrackLabel_label [k \<mapsto> v] [] (ex_syn 0) = ConntrackLabel_label [k \<mapsto> v\<lparr>ttl := 0\<rparr>] [] (ex_syn 0)"
    by (rule label_never_expires)
qed

text \<open>
  The parser leaves the ports of an ICMP packet as the last TCP or UDP packet of this CPU left them, and the key of the connection has
  them in it: the answer to an echo request is labelled \<open>ESTABLISHED\<close> exactly if the ports left over when it arrives are those left over at
  the request, swapped.
\<close>

theorem echo_needs_ports:
  assumes "Parser_headers f p0 = Headers p" "ip_protocol f = ICMP8" "42 \<le> length f" "icmp_type f = ICMP_ECHO"
    and "Parser_headers g q0 = Headers q" "ip_protocol g = ICMP8" "42 \<le> length g" "icmp_type g = ICMP_ECHOREPLY"
    and "pk_srcIp q = pk_dstIp p" "pk_dstIp q = pk_srcIp p" "pk_srcIp p \<noteq> pk_dstIp p"
    and "track now f p Map.empty = Some (l, c)"
  shows "(\<exists>g'. ConntrackLabel_label c g q = Some (CT_ESTABLISHED, g')) \<longleftrightarrow>
    pk_srcPort q0 = pk_dstPort p0 \<and> pk_dstPort q0 = pk_srcPort p0"
proof -
  have "pk_srcPort p = pk_srcPort p0 \<and> pk_dstPort p = pk_dstPort p0 \<and> pk_l4proto p = ICMP8"
    using stale_ports [OF assms(1)] assms(2) by simp
  moreover have "pk_srcPort q = pk_srcPort q0 \<and> pk_dstPort q = pk_dstPort q0 \<and> pk_l4proto q = ICMP8"
    using stale_ports [OF assms(5)] assms(6) by simp
  ultimately show ?thesis using echo_answer [of p f q g now l c] assms by simp
qed

theorem echo_needs_ports_witness:
  "\<exists>c g'. track 0 (ex_echo ICMP_ECHO False) (ex_icmp False) Map.empty = Some (CT_NEW, c) \<and>
    ConntrackLabel_label c (ex_echo ICMP_ECHOREPLY True) (ex_icmp True) = Some (CT_ESTABLISHED, g')"
proof -
  obtain k ir pr where k: "ct_key (ex_icmp False) = (k, ir, pr)" by (metis prod_cases3)
  obtain c where t: "track 0 (ex_echo ICMP_ECHO False) (ex_icmp False) Map.empty = Some (CT_NEW, c)"
    using track_echo [OF ex_icmp_fields(1) ex_echo_frame(2,3) k refl, of 0] by blast
  have "\<exists>g'. ConntrackLabel_label c (ex_echo ICMP_ECHOREPLY True) (ex_icmp True) = Some (CT_ESTABLISHED, g')"
    using echo_needs_ports [OF ex_echo_frame(1,4,2,3) ex_echo_frame(1,4,2,3) ex_icmp_fields(2-4) t] by (simp add: ex_icmp_fields)
  with t show ?thesis by blast
qed

text \<open>
  Reading back a frame that was built from headers gives the headers: the five fields of the connection for TCP and
  UDP, and for TCP also flags and sequence numbers.
\<close>

theorem headers_roundtrip:
  assumes "length eth = 12" "length ip1 = 9" "length ip2 = 2"
    and "pk_l4proto pkt = TCP8 \<and> l4 = tcp_header pkt doff rest \<and> 6 \<le> length rest \<or>
      pk_l4proto pkt = UDP8 \<and> l4 = udp_header pkt rest \<and> 4 \<le> length rest"
  shows "\<exists>p. Parser_headers (ip_frame eth ip1 ip2 pkt l4) pkt0 = Headers p \<and> five_tuple p = five_tuple pkt \<and>
    (pk_l4proto pkt = TCP8 \<longrightarrow> pk_flags p = pk_flags pkt \<and> pk_seqN p = pk_seqN pkt \<and> pk_ackN p = pk_ackN pkt)"
  using assms(4)
proof
  assume t: "pk_l4proto pkt = TCP8 \<and> l4 = tcp_header pkt doff rest \<and> 6 \<le> length rest"
  with parse_tcp_frame [OF assms(1-3), of rest pkt doff pkt0] show ?thesis by (simp add: five_tuple_def)
next
  assume u: "pk_l4proto pkt = UDP8 \<and> l4 = udp_header pkt rest \<and> 4 \<le> length rest"
  with parse_udp_frame [OF assms(1-3), of rest pkt pkt0] show ?thesis by (simp add: five_tuple_def)
qed

theorem headers_roundtrip_witness:
  "\<exists>p. Parser_headers (ex_frame (ex_syn 5)) (ex_syn 0) = Headers p \<and> five_tuple p = five_tuple (ex_syn 5) \<and> pk_seqN p = 5"
  unfolding ex_frame_def
  using headers_roundtrip [where eth = "replicate 12 0" and ?ip1.0 = "replicate 9 0" and ?ip2.0 = "replicate 2 0" and pkt = "ex_syn 5"
      and ?l4.0 = "tcp_header (ex_syn 5) 0x50 (replicate 6 0)" and doff = "0x50" and rest = "replicate 6 0" and ?pkt0.0 = "ex_syn 0"]
  by (auto simp: ex_syn_def ex_pkt_def)

text \<open>
  \<^bold>\<open>C28\<close>. After any history of packets the session table can be shown: \<open>getSessionTableList\<close> throws no exception, and every entry it shows
  has the addresses, protocol, ports and state of its entry in the kernel.
\<close>

theorem sessions_listed:
  assumes "history lpm e h c" "\<forall>(k, v) \<in> set entries. c k = Some v"
  shows "\<exists>ss. getSessionTableList uptime entries st = Inr ss \<and> (isContrackActive st \<longrightarrow> list_all2 shows_entry entries ss)"
  using session_entries_shown [of c entries uptime] history_table [OF assms(1)] assms(2)
  by (auto simp: getSessionTableList_def history_inv_def)

theorem sessions_listed_witness: "\<exists>kv s. list_all2 shows_entry [kv] [s]"
proof -
  obtain c f' where h: "history lpm_scan ex_env [ex_passed] c" "ConntrackLabel_label c [] (ex_answer 0) = Some (CT_ESTABLISHED, f')"
    using ex_history by blast
  obtain k v where "c k = Some v" using established_entry [OF h(2)] by (auto simp: has_entry_def split: prod.splits)
  then have "\<forall>(k, v) \<in> set [(k, v)]. c k = Some v" by simp
  from sessions_listed [OF h(1) this, of None ex_fw1] ex_fw1_ok(10) obtain ss where "list_all2 shows_entry [(k, v)] ss" by auto
  then show ?thesis by (cases ss) auto
qed

text \<open>
  A session whose lower address does not come with the lower port is shown with the ends mixed up: the key sorts the addresses and the
  ports apart from each other, so the source address is shown with the port of the destination.
\<close>

theorem sessions_mixed_up:
  assumes "ct_key p = (k, ir, pr)" "ir \<noteq> pr" "shows_entry (k, v) s"
  shows "if ir then ip_string_to_nbo_uint (se_src s) = Inr (pk_dstIp p) \<and> ntohs (se_sport s) = pk_srcPort p
    else ip_string_to_nbo_uint (se_src s) = Inr (pk_srcIp p) \<and> ntohs (se_sport s) = pk_dstPort p"
  using assms by (auto simp: shows_entry_def ct_key_simps split: if_splits)

theorem sessions_mixed_up_witness:
  "\<exists>s. session_entry None (fst (ct_key (ex_syn 0)), new_entry 0 (ex_icmp True)\<lparr>cstate := SYN_SENT\<rparr>) = Inr s \<and>
    ip_string_to_nbo_uint (se_src s) = Inr (pk_srcIp (ex_syn 0)) \<and> se_sport s = 22"
proof -
  let ?k = "fst (ct_key (ex_syn 0))" and ?v = "new_entry 0 (ex_icmp True)\<lparr>cstate := SYN_SENT\<rparr>"
  have ports: "\<not> ntohs 4000 < ntohs 22" "ntohs 22 < ntohs 4000" by (simp_all add: ntohs_def)
  have k: "ct_key (ex_syn 0) = (?k, False, True)"
    using ports by (simp add: ct_key_simps ex_syn_def ex_pkt_def)
  have "k_l4proto ?k = TCP8" using ct_key_ok [OF k] by (simp add: ex_syn_def ex_pkt_def)
  then have "state_ok (k_l4proto ?k) (cstate ?v)" by (simp add: state_ok_def)
  then obtain s where s: "session_entry None (?k, ?v) = Inr s" "shows_entry (?k, ?v) s" using session_entry_shown by blast
  have "ip_string_to_nbo_uint (se_src s) = Inr (pk_srcIp (ex_syn 0)) \<and> ntohs (se_sport s) = pk_dstPort (ex_syn 0)"
    using sessions_mixed_up [OF k _ s(2)] by simp
  then show ?thesis using s(1) by (auto simp: ex_syn_def ex_pkt_def)
qed

text \<open>
  The time since the last packet of a session is the uptime of the machine less the date that packet had, in seconds since 1970: as soon
  as the date is one second or more ahead of the uptime, the conversion to \<open>uint32_t\<close> is undefined.
\<close>

theorem session_eta_undefined:
  assumes "uptime + 1 \<le> of_nat (unat (now div 1000000000))"
  shows "from_ttl_to_eta (Some uptime) (now + session_timeout s proto) s proto = None"
  by (rule eta_undefined [OF assms])

theorem session_eta_undefined_witness:
  "from_ttl_to_eta (Some 86400) (1600000000000000000 + session_timeout 1 IPPROTO_TCP) 1 IPPROTO_TCP = None"
  by (rule session_eta_undefined) (simp add: word_less_nat_alt unat_div)

section \<open>Errors and limits\<close>

text \<open>
  \<^bold>\<open>C29\<close>. \<open>updateChain\<close> returns normally for every chain of at most 1024 well-formed rules none of which logs: the sizes
  of the tries, the action table and the two banks of programs are enough.
\<close>

theorem small_chain_loads:
  assumes "fw_ok e st" "\<forall>p. compiles e p" "length (ch_rules st) \<le> lpm_capacity"
    and "list_all (\<lambda>r. action r \<noteq> Some LOG) (ch_rules st)"
  shows "\<exists>st'. updateChain e st = (st', Inr ()) \<and> fw_ok e st' \<and> synced e st'"
proof -
  have "chain_ok (ch_rules st)" using assms(1,3) by (simp add: chain_ok_rules fw_ok_def maxRules_def lpm_capacity_def)
  from updateChain_ok [OF assms(1,2) loadable_small [OF this assms(3,4)]] show ?thesis by blast
qed

theorem small_chain_loads_witness:
  "\<exists>st'. updateChain ex_env ex_fw1 = (st', Inr ()) \<and> synced ex_env st'"
  using small_chain_loads [OF ex_fw1_ok(6) ex_compiles(2)] ex_fw1_ok(2) ex_rule_ok(3) by (auto simp: lpm_capacity_def)

text \<open>
  \<open>Chain::addRuleList\<close> never touches the programs in the kernel, whatever it does to the rules of the
  chain: packets are decided by the old rules until some other operation updates the chain.
\<close>

theorem addRuleList_not_loaded:
  "packet_verdict lpm (fst (addRuleList e confs st)) pkt s = packet_verdict lpm st pkt s"
  by (simp add: packet_verdict_def addRuleList_cube)

text \<open>
  \<^bold>\<open>C30\<close>. With connection tracking off, a batch whose first operation appends a rule with a conntrack match ends
  in an exception no handler catches (a thrown pointer) and leaves the flag of the batch set, so that afterwards adding a rule
  does not change the kernel.
\<close>

theorem batch_exception_escapes:
  assumes "fw_ok e st" "countable st" "counters_ok st" "\<not> isContrackActive st"
    and "bo_operation v = APPEND" "cf_action (bo_conf v) \<noteq> None" "cf_conntrack (bo_conf v) \<noteq> None"
  shows "\<exists>st' msg. batch e (Some (v # vs)) st = (st', Inl (RuntimeErrorPtr msg)) \<and> ch_rules st' = ch_rules st \<and>
    fw_cube (fst (addRule e i conf st')) = fw_cube st'"
  using batch_escapes [OF assms] single_op_needed by blast

theorem batch_exception_escapes_witness:
  "\<exists>st' msg. batch ex_env (Some [ex_op\<lparr>bo_conf := ex_conf\<lparr>cf_conntrack := Some NEW\<rparr>\<rparr>]) ex_off = (st', Inl (RuntimeErrorPtr msg)) \<and>
     ch_rules st' = [ex_rule 0]"
proof -
  have c: "countable ex_off" by (simp add: countable_def ex_off_ok counter_places_def horus_consts)
  have n: "\<not> isContrackActive ex_off" using ex_off_ok(3) by (simp add: getConntrack_ON_def isContrackActive_def)
  let ?v = "ex_op\<lparr>bo_conf := ex_conf\<lparr>cf_conntrack := Some NEW\<rparr>\<rparr>"
  have v: "bo_operation ?v = APPEND" "cf_action (bo_conf ?v) \<noteq> None" "cf_conntrack (bo_conf ?v) \<noteq> None"
    by (simp_all add: ex_op_def ex_conf_def)
  show ?thesis
    using batch_exception_escapes [OF ex_off_ok(1) c ex_off_ok(6) n v, of "[]" 0 ex_conf] unfolding ex_off_ok(5) by blast
qed

text \<open>
  With the mitigator loaded, the counters of a chain of more than 2048 rules cannot be read, and so a
  rule can be neither added to it nor deleted from it: every such request fails.
\<close>

theorem full_chain_stuck:
  assumes "fw_ok e st" "counters_ok st" "horus_runtime_enabled st" "MAX_RULE_SIZE_FOR_HORUS < length (ch_rules st)"
  shows "snd (getStatsList st) = Inl (RuntimeError ''Counter not available.'') \<and>
    (i < length (ch_rules st) \<longrightarrow> snd (delRule e i st) = Inl (RuntimeError ''Counter not available.''))"
proof -
  obtain st' where "getStatsList st = (st', Inl (RuntimeError ''Counter not available.''))"
    using getStatsList_full [OF assms] by blast
  then show ?thesis by (simp add: delRule_def)
qed

theorem full_chain_stuck_witness:
  "snd (delRule ex_env 0 ex_many) = Inl (RuntimeError ''Counter not available.'')"
  using full_chain_stuck [OF ex_many_ok(1-3), of 0] ex_many_ok(4) by (simp add: horus_consts)

section \<open>The pipeline\<close>

text \<open>
  \<^bold>\<open>C24\<close>. The programs of a chain, loaded one after the other in the order of the two passes of \<open>updateChain\<close>,
  decide a packet as its first matching rule says; ten tail calls are enough. The rules are well-formed and numbered in order (\<open>chain_ok\<close>),
  and such that the match programs are right (\<open>chain_wf\<close>): every prefix length is a multiple of 8 (for others, as \<open>10.16.0.0/12\<close>, the mask built at
  \<open>Utils.cpp:306\<close> keeps the wrong bits and the programs may decide differently, see C27), no rule names port 0 (which stands for no port),
  every rule on TCP flags asks for a set flag, a rule on the connection state meets a packet that has a label, and the tries of prefixes have at most
  1024 entries and look up the longest prefix. Actions that cannot be stored (\<open>LOG\<close>) have no \<open>action_entries\<close>.
\<close>

theorem chain_programs_decide:
  assumes "chain_ok rules" "rules \<noteq> []" "chain_wf lpm rules pkt" "action_entries rules = Inr es" "tail_loaded k act"
    and "chain_loaded k i (chain_layout rules (action_table es))" "shared_ready rules s" "10 \<le> n"
  shows "run lpm k n (TailCall i pkt s fb) = first_match act (rule_matches pkt) rules"
  using assms by (rule run_chain)

theorem chain_programs_decide_witness:
  "\<exists>es k. action_entries [ex_rule 0] = Inr es \<and>
     run lpm_scan k 10 (TailCall 16 (ex_pkt 80) (all_ones (FROM_NRULES_TO_NELEMENTS maxRules)) (Return RX_OK)) = RX_DROP"
proof -
  have es: "action_entries [ex_rule 0] = Inr [(0, 0)]" by (simp add: getAction_def get_field_def ex_rule_ok)
  let ?ps = "chain_layout [ex_rule 0] (action_table [(0, 0)])"
  let ?k = "\<lambda>i. if i = DEFAULTACTION then Some (DefaultAction ACCEPT) else if i = CONNTRACKTABLEUPDATE then Some (ConntrackTableUpdate 2)
    else if 16 \<le> i \<and> i < 16 + length ?ps then Some (snd (?ps ! (i - 16))) else None"
  have tl: "tail_loaded ?k ACCEPT" by (simp add: tail_loaded_def module_consts)
  have ld: "chain_loaded ?k 16 ?ps" by (simp add: chain_loaded_def module_consts)
  have sh: "shared_ready [ex_rule 0] (all_ones (FROM_NRULES_TO_NELEMENTS maxRules))"
    by (simp add: shared_ready_def all_ones_def nr_elements_def FROM_NRULES_TO_NELEMENTS_def maxRules_def)
  have "run lpm_scan ?k 10 (TailCall 16 (ex_pkt 80) (all_ones (FROM_NRULES_TO_NELEMENTS maxRules)) (Return RX_OK)) = RX_DROP"
    using chain_programs_decide [OF ex_rules_ok(2) _ ex_wf es tl ld sh, of 10 80 "Return RX_OK"] ex_first_match(1) by simp
  with es show ?thesis by blast
qed

text \<open>
  \<^bold>\<open>C25\<close>. The mitigator in front of the chain never changes the verdict of the chain on a packet for which its
  key can express every rule, although it holds only a leading part of the chain.
\<close>

theorem mitigator_sound:
  assumes "chain_ok rules" "horusFromRulesToMap key hval rules = Inr m" "m \<noteq> []"
    and "list_all (horus_exact pkt) rules" "list_all (\<lambda>r. action r \<noteq> Some LOG) rules"
  shows "horus_verdict (first_match act (rule_matches pkt) rules) (Horus_rx (Horus_fields m) (Horus_updateMap m) pkt) =
    first_match act (rule_matches pkt) rules"
  using assms by (rule Horus_sound)

theorem mitigator_sound_witness:
  "\<exists>m. horusFromRulesToMap (stack_key ex_env) (stack_value ex_env) [ex_rule 0] = Inr m \<and>
     horus_verdict RX_DROP (Horus_rx (Horus_fields m) (Horus_updateMap m) (ex_pkt 80)) = RX_DROP"
proof -
  obtain m where "horusFromRulesToMap (stack_key ex_env) (stack_value ex_env) [ex_rule 0] = Inr m" "m \<noteq> []"
    using ex_horus by blast
  then show ?thesis
    using mitigator_sound [OF ex_rules_ok(2) \<open>_ = Inr m\<close> \<open>m \<noteq> []\<close>, of "ex_pkt 80" ACCEPT] ex_first_match
    by (auto simp: ex_rule_ok) (auto simp: ex_pkt_def)
qed

text \<open>
  \<^bold>\<open>C27\<close>. \<open>ipFromRulesToMap\<close>: the keys of the address table are the prefixes the rules name, with \<open>0.0.0.0/0\<close> if
  some rule names none. In the entry of a key, a rule whose prefix has whole bytes has its bit exactly if the prefix covers the key (it is no
  longer, and the addresses agree on its leading bits), and there is no bit beyond the rules. For other prefix lengths the entry may be wrong: the mask
  the code builds keeps the low bits of the last byte instead of the high ones, so that it does not count the key \<open>10.17.0.0/16\<close> as covered by \<open>10.16.0.0/12\<close>.
\<close>

theorem ip_table:
  assumes "chain_ok rules" "ipFromRulesToMap type rules = (ips, brk)"
  shows "smap_ok ips \<and>
    fst ` set ips = (if \<forall>r \<in> set rules. rule_addr type r = None then {} else rule_prefix type ` set rules) \<and>
    (\<forall>(a, bv) \<in> set ips. \<exists>S. entry_for S bv \<and> S \<subseteq> {..<length rules} \<and>
       (\<forall>i < length rules. prefix_len (rule_prefix type (rules ! i)) mod 8 = 0 \<longrightarrow>
          (i \<in> S \<longleftrightarrow> prefix_covers (rule_prefix type (rules ! i)) a))) \<and>
    prefix_covers (IpAddr 0x0000100A 12) (IpAddr 0x0000110A 16) \<and> \<not> ip_covers (IpAddr 0x0000110A 16) (IpAddr 0x0000100A 12)"
proof -
  have "fst ` set ips = (if \<forall>r \<in> set rules. rule_addr type r = None then {} else rule_prefix type ` set rules)"
    using ipFromRulesToMap_keys [OF assms] by (simp add: rule_prefix_def [abs_def])
  moreover have "\<forall>(a, bv) \<in> set ips. \<exists>S. entry_for S bv \<and> S \<subseteq> {..<length rules} \<and>
       (\<forall>i < length rules. prefix_len (rule_prefix type (rules ! i)) mod 8 = 0 \<longrightarrow>
          (i \<in> S \<longleftrightarrow> prefix_covers (rule_prefix type (rules ! i)) a))"
    using ip_entry_covers [OF assms] by blast
  moreover have "smap_ok ips" using ipFromRulesToMap_smap_ok [OF assms(1), of type] assms(2) by simp
  ultimately show ?thesis using ip_covers_mask by blast
qed

theorem ip_table_witness:
  "fst ` set (fst (ipFromRulesToMap SOURCE_TYPE [ex_rule 0])) = {IpAddr 0x0100000A 32} \<and>
   fst ` set (fst (ipFromRulesToMap DESTINATION_TYPE [ex_rule 0])) = {}"
proof -
  obtain a b c d where ab: "ipFromRulesToMap SOURCE_TYPE [ex_rule 0] = (a, b)" "ipFromRulesToMap DESTINATION_TYPE [ex_rule 0] = (c, d)"
    by fastforce
  show ?thesis using ip_table [OF ex_rules_ok(2) ab(1)] ip_table [OF ex_rules_ok(2) ab(2)]
    by (simp add: ab) (simp add: rule_prefix_def ex_rule_def empty_rule_def)
qed

text \<open>
  \<open>transportProtoFromRulesToMap\<close> and \<open>portFromRulesToMap\<close>: the entry of a key holds exactly the rules that
  name the key or no key, the keys are those the rules name and the wildcard 0 if some rule names none, and the program may end the
  walk early exactly when every rule names a key or none does.
\<close>

theorem keyed_tables:
  assumes "chain_ok rules" "transportProtoFromRulesToMap rules = (pm, pb)" "portFromRulesToMap type rules = (qm, qb)"
  shows "smap_ok pm \<and> smap_ok qm \<and>
    (\<forall>k bv. map_of pm k = Some bv \<longrightarrow> entry_for (rules_where (\<lambda>r. l4Proto r = Some k \<or> l4Proto r = None) rules) bv) \<and>
    (\<forall>k bv. map_of qm k = Some bv \<longrightarrow> entry_for (rules_where (\<lambda>r. rule_port type r = Some k \<or> rule_port type r = None) rules) bv) \<and>
    (pb \<longleftrightarrow> (\<forall>r \<in> set rules. l4Proto r = None) \<or> (\<forall>r \<in> set rules. l4Proto r \<noteq> None)) \<and>
    (qb \<longleftrightarrow> (\<forall>r \<in> set rules. rule_port type r = None) \<or> (\<forall>r \<in> set rules. rule_port type r \<noteq> None))"
  using transportProto_spec [OF assms(1) assms(1) assms(2)] port_spec [OF assms(1) assms(3)] by blast

theorem keyed_tables_witness:
  "snd (transportProtoFromRulesToMap [ex_rule 0]) \<and> snd (portFromRulesToMap DESTINATION_TYPE [ex_rule 0])"
proof -
  obtain a b c d where ab: "transportProtoFromRulesToMap [ex_rule 0] = (a, b)" "portFromRulesToMap DESTINATION_TYPE [ex_rule 0] = (c, d)"
    by fastforce
  show ?thesis using keyed_tables [OF ex_rules_ok(2) ab] by (simp add: ab) (simp add: ex_rule_def empty_rule_def rule_port_def)
qed

text \<open>
  \<open>conntrackFromRulesToMap\<close> and \<open>flagsFromRulesToMap\<close>: the tables are empty when no rule looks at the field;
  otherwise there is an entry for each of the four states and each of the 256 combinations of flags, which
  holds exactly the rules that accept it.
\<close>

theorem full_tables:
  assumes "chain_ok rules"
  shows "fst (conntrackFromRulesToMap rules) =
      (if \<forall>r \<in> set rules. conntrack r = None then [] else map (\<lambda>s. (s, conntrack_bitVector rules s)) [0, 1, 2, 3]) \<and>
    (\<forall>s. entry_for (rules_where (\<lambda>r. pred_option (\<lambda>c. ChainRuleConntrackEnum_to_int c = s) (conntrack r)) rules)
      (conntrack_bitVector rules s)) \<and>
    (if \<forall>r \<in> set rules. tcpFlags r = None then fst (flagsFromRulesToMap rules) = []
     else \<forall>i < 256. entry_for (rules_where (\<lambda>r. pred_option (flags_match (word_of_nat i)) (tcpFlags r)) rules)
        (fst (flagsFromRulesToMap rules) ! i))"
  using conntrackFromRulesToMap_spec [OF assms] flagsFromRulesToMap_spec [OF assms] by auto

theorem full_tables_witness:
  "fst (conntrackFromRulesToMap [ex_rule 0]) = [] \<and> fst (flagsFromRulesToMap [ex_rule 0]) = []"
  using full_tables [OF ex_rules_ok(2)] by (simp add: ex_rule_def empty_rule_def)

section \<open>Rules and their text\<close>

text \<open>
  \<^bold>\<open>C31\<close>. Every rule the constructor accepts is well-formed: prefix lengths up to 32, a supported protocol, no TCP flag
  both required and forbidden, an action, and the number it was given; with connection tracking on, whatever a bad request makes it
  throw is caught by the handlers of the service.
\<close>

theorem accepted_rules_ok:
  "(case ChainRule_new ct conf of
      Inr r \<Rightarrow> rule_ok r \<and> rid r = cf_id conf
    | Inl e \<Rightarrow> True) \<and> throws_std (ChainRule_new True conf)"
  using ChainRule_new_ok ChainRule_new_throws by (auto split: sum.split)

text \<open>
  \<^bold>\<open>C32\<close>. Printing and parsing round-trip: a prefix, the number of a supported protocol, and the masks of the TCP flags
  that are read back from their text are the ones that were printed.
\<close>

theorem rule_text_roundtrip:
  assumes "rule_ok r"
  shows "pred_option (\<lambda>a. IpAddr_fromString (IpAddr_toString a) = Inr a) (ipSrc r) \<and>
    pred_option (\<lambda>a. IpAddr_fromString (IpAddr_toString a) = Inr a) (ipDst r) \<and>
    pred_option (\<lambda>p. rbind (protocol_from_int_to_string p) protocol_from_string_to_int = Inr p) (l4Proto r) \<and>
    pred_option (\<lambda>(s, ns). flags_from_string_to_masks (flags_from_masks_to_string s ns) = Inr (s, ns)) (tcpFlags r)"
  using assms by (auto simp: rule_ok_def pred_option_def IpAddr_print_parse protocol_print_parse flags_print_parse)

theorem rule_text_roundtrip_witness:
  "IpAddr_fromString (IpAddr_toString (IpAddr 0x0100000A 32)) = Inr (IpAddr 0x0100000A 32)"
  using rule_text_roundtrip [OF ex_rule_ok(1), of 0] by (simp add: ex_rule_def empty_rule_def)

text \<open>
  Every address survives printing with \<open>nbo_uint_to_ip_string\<close> and parsing with \<open>ip_string_to_nbo_uint\<close>.
\<close>

theorem address_roundtrip:
  "ip_string_to_nbo_uint (nbo_uint_to_ip_string ip) = Inr ip"
  by (rule ip_print_parse)

section \<open>The daemon\<close>

text \<open>
  \<^bold>\<open>C33\<close>. \<open>IDGenerator\<close>: after any sequence of \<open>acquire\<close> and \<open>release\<close> by the holders, the free identifiers and
  those in use are disjoint and together are all identifiers below the bound; \<open>acquire\<close> then hands out the
  least identifier not in use, and fails exactly when all are in use.
\<close>

theorem ids_unique:
  assumes "id_step\<^sup>*\<^sup>* (IDGenerator n, {}) (s, used)"
  shows "set s \<inter> used = {} \<and> set s \<union> used = {..<n} \<and>
    acquire s = (if used = {..<n} then (s, Inl (RuntimeError ''No free elements in IDGenerator''))
      else (oset_erase (LEAST v. v \<notin> used) s, Inr (LEAST v. v \<notin> used)))"
proof -
  have inv: "id_inv n (s, used)" using id_reachable_inv [OF assms IDGenerator_inv] .
  have "hd s = (LEAST v. v \<notin> used)" if "used \<noteq> {..<n}"
    using acquire_fresh [OF inv] that by (cases s) (auto simp: acquire_def)
  then show ?thesis using inv acquire_fresh [OF inv] by (auto simp: id_inv_def)
qed

theorem ids_unique_witness:
  "snd (acquire (release 0 [2])) = Inr 0 \<and> set (release 0 [2]) \<inter> {1::nat} = {}"
proof -
  have a: "acquire (IDGenerator 3) = ([1, 2], Inr 0)" "acquire [1, 2] = ([2], Inr 1)" by code_simp+
  have 1: "id_step (IDGenerator 3, {}) ([1, 2], {0})" by (rule id_acquire [OF a(1)])
  have 2: "id_step ([1, 2], {0}) ([2], {1, 0})" by (rule id_acquire [OF a(2)])
  have 3: "id_step ([2], {1, 0}) (release 0 [2], {1, 0} - {0})" by (rule id_release) simp
  have "id_step\<^sup>*\<^sup>* (IDGenerator 3, {}) (release 0 [2], {1, 0} - {0})"
    using rtranclp.rtrancl_into_rtrancl [where r = id_step, OF rtranclp.rtrancl_into_rtrancl [where r = id_step,
        OF r_into_rtranclp [where r = id_step, OF 1] 2] 3] .
  then have "set (release 0 [2]) \<inter> ({1, 0} - {0}) = {}" using ids_unique by blast
  moreover have "{1::nat, 0} - {0} = {1}" by auto
  moreover have "snd (acquire (release 0 [2])) = Inr 0" by code_simp
  ultimately show ?thesis by simp
qed

text \<open>
  \<open>PatchPanel\<close>: every operation that succeeds keeps the free indexes equal to the indexes 1 to 1023 that neither hook
  uses, and \<open>add\<close> hands out an index that is free at both hooks.
\<close>

theorem panel_operations:
  assumes "panel_inv p"
  shows "(case panel_add x fd p of
        (p', Inr i) \<Rightarrow> panel_inv p' \<and> nodes p' x i = Some fd \<and> (\<forall>y. \<not> nodes_present p y ! i) \<and> 0 < i \<and> i < POLYCUBE_MAX_NODES
      | _ \<Rightarrow> node_ids p = []) \<and>
    (j < POLYCUBE_MAX_NODES \<longrightarrow> (case panel_add_at x fd j p of
        (p', Inr _) \<Rightarrow> panel_inv p' \<and> nodes p' x j = Some fd | (p', Inl _) \<Rightarrow> p' = p \<and> nodes_present p x ! j)) \<and>
    panel_inv (fst (panel_update x j fd p)) \<and>
    (0 < j \<and> j < POLYCUBE_MAX_NODES \<longrightarrow> panel_inv (panel_remove x j p) \<and> j \<in> set (node_ids (panel_remove x j p)))"
proof (intro conjI impI)
  show "case panel_add x fd p of
        (p', Inr i) \<Rightarrow> panel_inv p' \<and> nodes p' x i = Some fd \<and> (\<forall>y. \<not> nodes_present p y ! i) \<and> 0 < i \<and> i < POLYCUBE_MAX_NODES
      | _ \<Rightarrow> node_ids p = []"
    using panel_add_inv [OF assms, of x fd] by (cases "panel_add x fd p") (auto simp: panel_add_def split: sum.splits list.splits)
  show "case panel_add_at x fd j p of
        (p', Inr _) \<Rightarrow> panel_inv p' \<and> nodes p' x j = Some fd | (p', Inl _) \<Rightarrow> p' = p \<and> nodes_present p x ! j"
    if "j < POLYCUBE_MAX_NODES"
    using panel_add_at_inv [OF assms _ that, of x fd]
    by (cases "panel_add_at x fd j p") (auto simp: panel_add_at_def split: sum.splits if_splits)
  show "panel_inv (fst (panel_update x j fd p))"
    using panel_update_inv [OF assms] by (cases "panel_update x j fd p") auto
  show "panel_inv (panel_remove x j p)" "j \<in> set (node_ids (panel_remove x j p))" if "0 < j \<and> j < POLYCUBE_MAX_NODES"
    using panel_remove_inv [OF assms, of j x] that by simp_all
qed

theorem panel_operations_witness:
  "panel_inv (panel_remove TC 7 (PatchPanel :: nat panel))"
  using panel_operations [OF PatchPanel_inv, of TC "0::nat" 7] by (simp add: POLYCUBE_MAX_NODES_def)

text \<open>
  \<^bold>\<open>C34\<close>. \<open>BaseCube::do_add_program\<close> with an index outside the array fails and changes nothing, and so does the default index \<open>-1\<close>,
  which is meant for the first free index (the comparison \<open>index >= programs.size()\<close> converts it to the largest \<open>size_t\<close>); with the index
  of a loaded program it fails and changes nothing; at a free index other than 0, with code that loads, it succeeds. Whenever it
  succeeds, the program is at the index asked for, which was free, and no other entry of the tail-call table changes.
  \<open>do_reload\<close> of a loaded program with code that loads (at index 0 of a cube that is registered) and \<open>do_del_program\<close> of a loaded program
  succeed and change that entry only. All this in the states between calls while every program has loaded (\<open>cube_inv\<close>): one that fails to load
  stays in the array of objects without an entry in the table.
\<close>

theorem cube_operations:
  assumes "cube_inv x c"
  shows "(index < 0 \<or> int POLYCUBE_MAX_BPF_PROGRAMS \<le> index \<longrightarrow>
      do_add_program loads x prog index c = (c, Inl (RuntimeError ''Invalid ebpf program index''))) \<and>
    (0 < i \<and> i < POLYCUBE_MAX_BPF_PROGRAMS \<and> programs_table c i = None \<and> loads prog \<longrightarrow>
      snd (do_add_program loads x prog (int i) c) = Inr i) \<and>
    (case do_add_program loads x prog index c of
        (c', Inr k) \<Rightarrow> cube_inv x c' \<and> loads prog \<and> index = int k \<and> k < POLYCUBE_MAX_BPF_PROGRAMS \<and>
          programs_table c k = None \<and> programs_table c' = (programs_table c)(k \<mapsto> prog)
      | _ \<Rightarrow> True) \<and>
    (programs_table c i \<noteq> None \<longrightarrow>
      fst (do_add_program loads x prog (int i) c) = c \<and> snd (do_add_program loads x prog (int i) c) \<noteq> Inr i \<and>
      snd (do_del_program i c) = Inr () \<and> cube_inv x (fst (do_del_program i c)) \<and>
      programs_table (fst (do_del_program i c)) = (programs_table c)(i := None) \<and>
      (loads prog \<and> (i = 0 \<longrightarrow> first_index c \<noteq> 0) \<longrightarrow>
        snd (do_reload loads x prog i c) = Inr () \<and> cube_inv x (fst (do_reload loads x prog i c)) \<and>
        programs_table (fst (do_reload loads x prog i c)) = (programs_table c)(i \<mapsto> prog)))"
proof (intro conjI impI)
  show "case do_add_program loads x prog index c of
        (c', Inr k) \<Rightarrow> cube_inv x c' \<and> loads prog \<and> index = int k \<and> k < POLYCUBE_MAX_BPF_PROGRAMS \<and>
          programs_table c k = None \<and> programs_table c' = (programs_table c)(k \<mapsto> prog)
      | _ \<Rightarrow> True"
    using do_add_program_ok [OF assms, of loads prog index]
    by (cases "do_add_program loads x prog index c") (auto split: sum.splits)
  show "snd (do_add_program loads x prog (int i) c) \<noteq> Inr i" if "programs_table c i \<noteq> None"
    using do_add_program_ok [OF assms, of loads prog "int i" "fst (do_add_program loads x prog (int i) c)" i] that
    by (metis prod.collapse)
qed (use do_add_program_refused [OF assms, of index loads prog] do_add_program_busy [OF assms, of i loads prog]
      do_add_program_given [OF assms, of i loads prog] do_del_program_ok [OF assms] do_reload_ok [OF assms, of loads prog i] in auto)

theorem cube_operations_witness:
  "cube_inv TC (fst (do_add_program (\<lambda>_. True) TC ''code'' 5 (empty_cube PatchPanel))) \<and>
   snd (do_add_program (\<lambda>_. True) TC ''code'' (-1) (empty_cube PatchPanel)) = Inl (RuntimeError ''Invalid ebpf program index'')"
proof -
  have inv: "cube_inv TC (empty_cube PatchPanel :: string cube)" by (rule empty_cube_inv [OF PatchPanel_inv])
  have "snd (do_add_program (\<lambda>_. True) TC ''code'' 5 (empty_cube PatchPanel)) = Inr 5"
    by (simp add: do_add_program_def choose_index_def as_size_t_def empty_cube_def POLYCUBE_MAX_BPF_PROGRAMS_def)
  then show ?thesis
    using cube_operations [OF inv, where loads = "\<lambda>_. True" and prog = "''code''" and index = 5]
      cube_operations [OF inv, where loads = "\<lambda>_. True" and prog = "''code''" and index = "-1"]
    by (cases "do_add_program (\<lambda>_. True) TC ''code'' 5 (empty_cube PatchPanel)") auto
qed

end
